(* ===== verification/Falcon_Prelude.thy ===== *)
theory Falcon_Prelude
  imports Main "HOL-Library.AList" "HOL-Library.Char_ord" "HOL-Library.List_Lexorder"
    "HOL-Library.Multiset" "HOL-Library.Signed_Division" "HOL-Library.Word"
begin

text \<open>
  What every component of the development shares: the result type of Go functions that may
  return an error or panic, Go maps as association lists, the functions of the standard library's
  strings and strconv packages that the code calls, and the arithmetic of int64.

  A Go map is a list of key/value pairs with distinct keys. The order of the list is the order in
  which a \<open>range\<close> loop meets the entries, which Go leaves open; a property that holds for every list
  holds for every iteration order. A nil map and an empty map are both the empty list.
  Strings are lists of bytes, compared as Go compares them (bytewise, lexicographically).
\<close>

section \<open>Collections of facts\<close>

named_theorems go_simps \<open>unfolding of the Go-level helpers\<close>
named_theorems go_maps \<open>facts about maps: lookups, keys, sizes\<close>
named_theorems falcon_inv \<open>operations that keep the invariants of the components\<close>

section \<open>Errors and panics\<close>

datatype go_error = Err string | Panic string

type_synonym 'a res = "go_error + 'a"

definition bind_res :: "'a res \<Rightarrow> ('a \<Rightarrow> 'b res) \<Rightarrow> 'b res" where
  "bind_res r f = (case r of Inl e \<Rightarrow> Inl e | Inr x \<Rightarrow> f x)"

lemma bind_res_simps [simp]:
  "bind_res (Inl e) f = Inl e"
  "bind_res (Inr x) f = f x"
  by (simp_all add: bind_res_def)

lemma bind_res_eq_Inr_iff [simp]: "bind_res r f = Inr y \<longleftrightarrow> (\<exists>x. r = Inr x \<and> f x = Inr y)"
  by (cases r) simp_all

fun is_panic :: "'a res \<Rightarrow> bool" where
  "is_panic (Inl (Panic _)) = True"
| "is_panic _ = False"

text \<open>
  Where a call may also never return (\<open>None\<close>): a loop that does not end, a channel nobody reads.
\<close>

definition bind_out :: "'a res option \<Rightarrow> ('a \<Rightarrow> 'b res option) \<Rightarrow> 'b res option" where
  "bind_out r f = (case r of None \<Rightarrow> None | Some (Inl e) \<Rightarrow> Some (Inl e) | Some (Inr x) \<Rightarrow> f x)"

lemma bind_out_simps [simp]:
  "bind_out None f = None" "bind_out (Some (Inl e)) f = Some (Inl e)" "bind_out (Some (Inr x)) f = f x"
  by (simp_all add: bind_out_def)

section \<open>int64\<close>

definition i64 :: "int \<Rightarrow> int" where
  "i64 x = (x + 2 ^ 63) mod 2 ^ 64 - 2 ^ 63"

definition in_i64 :: "int \<Rightarrow> bool" where
  "in_i64 x \<longleftrightarrow> - (2 ^ 63) \<le> x \<and> x < 2 ^ 63"

lemma in_i64_i64 [simp]: "in_i64 (i64 x)"
  unfolding in_i64_def i64_def
  using pos_mod_bound [of "2 ^ 64" "x + 2 ^ 63"] pos_mod_sign [of "2 ^ 64" "x + 2 ^ 63"] by simp

lemma i64_id: "in_i64 x \<Longrightarrow> i64 x = x"
  unfolding in_i64_def i64_def by (subst mod_pos_pos_trivial) auto

lemma i64_idem [simp]: "i64 (i64 x) = i64 x"
  by (rule i64_id) simp

text \<open>Go's remainder takes the sign of the dividend; a zero divisor panics.\<close>

definition go_mod :: "int \<Rightarrow> int \<Rightarrow> int res" where
  "go_mod a b = (if b = 0 then Inl (Panic ''integer divide by zero'') else Inr (a smod b))"

lemma smod_nonneg: "0 \<le> a \<Longrightarrow> 0 < b \<Longrightarrow> (a::int) smod b = a mod b"
  by (simp add: signed_modulo_int_def signed_divide_int_def minus_div_mult_eq_mod sgn_if)

lemma smod_neg: "a < 0 \<Longrightarrow> 0 < b \<Longrightarrow> (a::int) smod b = - ((- a) mod b)"
  by (simp add: signed_modulo_int_def signed_divide_int_def sgn_if minus_div_mult_eq_mod [symmetric])

lemma smod_dvd: "(b::int) dvd a - a smod b"
  by (simp add: minus_smod_eq_sdiv_mult)

lemma smod_bound: "0 < b \<Longrightarrow> \<bar>(a::int) smod b\<bar> < b"
  by (simp add: signed_modulo_int_def abs_mult sgn_if)

section \<open>Lists\<close>

lemma sort_eq_Nil [simp]: "sort xs = [] \<longleftrightarrow> xs = []"
  by (metis set_empty set_sort)

section \<open>Go maps\<close>

type_synonym ('k, 'v) gomap = "('k \<times> 'v) list"
type_synonym tags = "(string, string) gomap"

definition gwf :: "('k, 'v) gomap \<Rightarrow> bool" where
  "gwf m \<longleftrightarrow> distinct (map fst m)"

abbreviation gget :: "('k, 'v) gomap \<Rightarrow> 'k \<Rightarrow> 'v option" where
  "gget m k \<equiv> map_of m k"

abbreviation gput :: "'k \<Rightarrow> 'v \<Rightarrow> ('k, 'v) gomap \<Rightarrow> ('k, 'v) gomap" where
  "gput k v m \<equiv> AList.update k v m"

abbreviation gdel :: "'k \<Rightarrow> ('k, 'v) gomap \<Rightarrow> ('k, 'v) gomap" where
  "gdel k m \<equiv> AList.delete k m"

abbreviation gkeys :: "('k, 'v) gomap \<Rightarrow> 'k list" where
  "gkeys m \<equiv> map fst m"

lemma gget_gput [go_maps, simp]: "gget (gput k v m) = (gget m)(k \<mapsto> v)"
  by (simp add: update_conv' fun_eq_iff)

lemma gget_gdel [go_maps, simp]: "gget (gdel k m) = (gget m)(k := None)"
  by (simp add: delete_conv' fun_eq_iff)

lemma gwf_empty [simp]: "gwf []"
  by (simp add: gwf_def)

lemma gwf_gput [falcon_inv, simp]: "gwf m \<Longrightarrow> gwf (gput k v m)"
  by (simp add: gwf_def distinct_update)

lemma gwf_gdel [falcon_inv, simp]: "gwf m \<Longrightarrow> gwf (gdel k m)"
  by (simp add: gwf_def distinct_delete)

lemma map_of_rev: "gwf m \<Longrightarrow> map_of (rev m) = map_of m"
proof -
  assume "gwf m"
  then have "distinct (map fst m)" by (simp add: gwf_def)
  then show ?thesis by (subst map_of_inject_set) (simp_all add: rev_map [symmetric])
qed

lemma gkeys_dom [go_maps]: "set (gkeys m) = dom (gget m)"
  by (simp add: dom_map_of_conv_image_fst)

lemma length_gwf [go_maps]: "gwf m \<Longrightarrow> length m = card (dom (gget m))"
  by (metis distinct_card gkeys_dom gwf_def length_map)

end
