(* ===== verification/Go_Map.thy ===== *)
theory Go_Map
  imports Falcon_Prelude
begin

text \<open>
  The interface of the string-keyed maps the components keep their state in (Go maps behind a
  lock, vendored \<open>nmap.SafeMap\<close>, the sharded map of the graph module). A client that only gets, puts,
  deletes and lists keys is verified once against this interface; each provider discharges the laws
  on its own operations with an interpretation.
\<close>

section \<open>The interface\<close>

locale go_map =
  fixes get :: "'m \<Rightarrow> 'k \<Rightarrow> 'v option"
    and put :: "'k \<Rightarrow> 'v \<Rightarrow> 'm \<Rightarrow> 'm"
    and del :: "'k \<Rightarrow> 'm \<Rightarrow> 'm"
    and keys :: "'m \<Rightarrow> 'k list"
    and inv :: "'m \<Rightarrow> bool"
  assumes get_put: "inv m \<Longrightarrow> get (put k v m) = (get m)(k \<mapsto> v)"
    and get_del: "inv m \<Longrightarrow> get (del k m) = (get m)(k := None)"
    and keys_dom: "inv m \<Longrightarrow> set (keys m) = dom (get m)"
    and keys_distinct: "inv m \<Longrightarrow> distinct (keys m)"
    and inv_put: "inv m \<Longrightarrow> inv (put k v m)"
    and inv_del: "inv m \<Longrightarrow> inv (del k m)"
begin

text \<open>Deleting the keys of a list one by one, as every cleaning loop of the program does.\<close>

lemma inv_del_all: "inv m \<Longrightarrow> inv (foldl (\<lambda>a k. del k a) m ks)"
  by (induction ks arbitrary: m) (simp_all add: inv_del)

lemma get_del_all:
  "inv m \<Longrightarrow> get (foldl (\<lambda>a k. del k a) m ks) k = (if k \<in> set ks then None else get m k)"
  by (induction ks arbitrary: m) (simp_all add: inv_del get_del)

text \<open>
  Storing the pairs of a list one by one: the last binding of a key wins, and keys that the list
  does not mention keep their value.
\<close>

lemma inv_put_all: "inv m \<Longrightarrow> inv (foldl (\<lambda>a (k, v). put k v a) m kvs)"
  by (induction kvs arbitrary: m) (auto simp: inv_put)

lemma get_put_all:
  "inv m \<Longrightarrow> get (foldl (\<lambda>a (k, v). put k v a) m kvs) = get m ++ map_of (rev kvs)"
  by (induction kvs arbitrary: m) (auto simp: inv_put get_put map_add_upd_left split: prod.splits)

lemma length_keys: "inv m \<Longrightarrow> length (keys m) = card (dom (get m))"
  by (metis distinct_card keys_distinct keys_dom)

lemma keys_put_perm:
  "inv m \<Longrightarrow> mset (keys (put k v m)) =
     (if get m k = None then add_mset k (mset (keys m)) else mset (keys m))"
proof -
  assume m: "inv m"
  have eq: "mset (keys x) = mset_set (dom (get x))" if "inv x" for x
    using mset_set_set [OF keys_distinct [OF that]] keys_dom [OF that] by simp
  have fin: "finite (dom (get m))"
    using keys_dom [OF m] by (metis List.finite_set)
  show ?thesis
    using m eq [OF m] eq [OF inv_put [OF m]] fin
    by (auto simp: get_put insert_absorb domIff)
qed

text \<open>Deleting exactly the keys that fail a test leaves exactly the entries that pass it.\<close>

lemma get_del_filter:
  assumes "inv m"
  shows "get (foldl (\<lambda>a k. del k a) m (filter P (keys m))) k =
     (if P k then None else get m k)"
proof (cases "get m k")
  case None
  then show ?thesis using assms by (simp add: get_del_all)
next
  case (Some v)
  then have "k \<in> set (keys m)" using assms by (simp add: keys_dom domI)
  then show ?thesis using assms by (simp add: get_del_all)
qed

end

section \<open>The built-in map\<close>

interpretation gm: go_map "gget :: ('k, 'v) gomap \<Rightarrow> 'k \<Rightarrow> 'v option" gput gdel gkeys gwf
  by unfold_locales
     (simp_all add: fun_eq_iff gwf_def distinct_update distinct_delete dom_map_of_conv_image_fst)

lemmas gmap_facts = gget_gput gget_gdel gwf_gput gwf_gdel


section \<open>Maps to lists\<close>

text \<open>Appending to the list under a key, as the code groups things; the groups keep the order.\<close>

definition gsnoc :: "'k \<Rightarrow> 'v \<Rightarrow> ('k, 'v list) gomap \<Rightarrow> ('k, 'v list) gomap" where
  "gsnoc k v m = (case gget m k of Some l \<Rightarrow> gput k (l @ [v]) m | None \<Rightarrow> gput k [v] m)"

definition group_all :: "('v \<Rightarrow> 'k) \<Rightarrow> 'v list \<Rightarrow> ('k, 'v list) gomap" where
  "group_all key vs = foldl (\<lambda>m v. gsnoc (key v) v m) [] vs"

lemma gwf_gsnoc [simp]: "gwf m \<Longrightarrow> gwf (gsnoc k v m)"
  by (simp add: gsnoc_def split: option.split)

lemma group_all_snoc: "group_all key (vs @ [v]) = gsnoc (key v) v (group_all key vs)"
  by (simp add: group_all_def)

lemma gwf_group_all [simp]: "gwf (group_all key vs)"
proof (induction vs rule: rev_induct)
  case (snoc v vs)
  then show ?case by (simp add: group_all_snoc)
qed (simp add: group_all_def)

lemma gget_group_all:
  "gget (group_all key vs) k =
     (if k \<in> key ` set vs then Some (filter (\<lambda>v. key v = k) vs) else None)"
proof (induction vs rule: rev_induct)
  case (snoc v vs)
  then show ?case
    by (auto simp: group_all_snoc gsnoc_def filter_empty_conv image_iff split: option.splits)
qed (simp add: group_all_def)

lemma group_all_entries:
  "(k, l) \<in> set (group_all key vs) \<longleftrightarrow> k \<in> key ` set vs \<and> l = filter (\<lambda>v. key v = k) vs"
proof -
  have "(k, l) \<in> set (group_all key vs) \<longleftrightarrow> gget (group_all key vs) k = Some l"
    using gwf_group_all [of key vs] by (simp add: gwf_def map_of_eq_Some_iff)
  then show ?thesis by (auto simp: gget_group_all)
qed

end
