(* ===== verification/Go_Strings.thy ===== *)
theory Go_Strings
  imports Falcon_Prelude
begin

text \<open>
  The functions of Go's \<open>strings\<close> and \<open>strconv\<close> packages that the program calls, on byte strings.
  White space is ASCII white space; \<open>ParseFloat\<close> is in theory \<open>Go_Float\<close>.
\<close>

section \<open>strings\<close>

text \<open>\<open>strings.Split(s, c)\<close> for a one-byte separator; never the empty list.\<close>

fun split :: "char \<Rightarrow> string \<Rightarrow> string list" where
  "split c [] = [[]]"
| "split c (x # xs) =
     (if x = c then [] # split c xs
      else case split c xs of [] \<Rightarrow> [[x]] | w # ws \<Rightarrow> (x # w) # ws)"

text \<open>\<open>strings.SplitN(s, c, 2)\<close>: at most one cut, at the first separator.\<close>

definition split2 :: "char \<Rightarrow> string \<Rightarrow> string list" where
  "split2 c s =
     (if c \<in> set s then [takeWhile (\<lambda>x. x \<noteq> c) s, tl (dropWhile (\<lambda>x. x \<noteq> c) s)] else [s])"

fun join :: "string \<Rightarrow> string list \<Rightarrow> string" where
  "join sep [] = []"
| "join sep [w] = w"
| "join sep (w # ws) = w @ sep @ join sep ws"

text \<open>\<open>strings.Index(s, c)\<close>: the first position of the byte, or -1.\<close>

definition index_of :: "char \<Rightarrow> string \<Rightarrow> int" where
  "index_of c s = (if c \<in> set s then int (length (takeWhile (\<lambda>x. x \<noteq> c) s)) else -1)"

text \<open>\<open>s[lo:hi]\<close>: out of range bounds panic.\<close>

definition slice :: "string \<Rightarrow> int \<Rightarrow> int \<Rightarrow> string res" where
  "slice s lo hi =
     (if 0 \<le> lo \<and> lo \<le> hi \<and> hi \<le> int (length s)
      then Inr (take (nat (hi - lo)) (drop (nat lo) s))
      else Inl (Panic ''slice bounds out of range''))"

definition starts_with :: "string \<Rightarrow> string \<Rightarrow> bool" where
  "starts_with p s \<longleftrightarrow> take (length p) s = p"

text \<open>\<open>strings.Split(s, sep)\<close> for a non-empty separator of any length.\<close>

function split_str :: "string \<Rightarrow> string \<Rightarrow> string list" where
  "split_str sep s =
     (if s = [] then [[]]
      else if sep \<noteq> [] \<and> starts_with sep s then [] # split_str sep (drop (length sep) s)
      else case split_str sep (tl s) of [] \<Rightarrow> [[hd s]] | w # ws \<Rightarrow> (hd s # w) # ws)"
  by pat_completeness auto
termination
  by (relation "measure (\<lambda>(sep, s). length s)") auto

declare split_str.simps [simp del]

definition remove_spaces :: "string \<Rightarrow> string" where
  "remove_spaces s = filter (\<lambda>c. c \<noteq> CHR '' '') s"

definition is_space :: "char \<Rightarrow> bool" where
  "is_space c \<longleftrightarrow> c \<in> {CHR 0x09, CHR 0x0A, CHR 0x0B, CHR 0x0C, CHR 0x0D, CHR '' ''}"

definition trim_space :: "string \<Rightarrow> string" where
  "trim_space s = rev (dropWhile is_space (rev (dropWhile is_space s)))"

text \<open>\<open>strings.Fields\<close>: the maximal runs of bytes that are no white space.\<close>

fun fields_aux :: "string \<Rightarrow> string \<Rightarrow> string list" where
  "fields_aux cur [] = (if cur = [] then [] else [rev cur])"
| "fields_aux cur (c # cs) =
     (if is_space c then (if cur = [] then fields_aux [] cs else rev cur # fields_aux [] cs)
      else fields_aux (c # cur) cs)"

definition fields :: "string \<Rightarrow> string list" where
  "fields s = fields_aux [] s"

lemma split_nonempty [simp]: "split c s \<noteq> []"
  by (cases s) (auto split: list.splits)

lemma join_split: "join [c] (split c s) = s"
proof (induction s)
  case (Cons x xs)
  then show ?case
    by (cases "split c xs" rule: remdups_adj.cases) auto
qed simp

lemma split_no_sep: "c \<notin> set w \<Longrightarrow> split c w = [w]"
  by (induction w) auto

lemma split_append: "c \<notin> set w \<Longrightarrow> split c (w @ c # s) = w # split c s"
  by (induction w) auto

lemma split_join:
  "ws \<noteq> [] \<Longrightarrow> \<forall>w \<in> set ws. c \<notin> set w \<Longrightarrow> split c (join [c] ws) = ws"
proof (induction ws)
  case (Cons w ws)
  then show ?case by (cases ws) (simp_all add: split_append split_no_sep)
qed simp

lemma split_parts: "w \<in> set (split c s) \<Longrightarrow> c \<notin> set w"
proof (induction s arbitrary: w)
  case (Cons x xs)
  then show ?case
    by (cases "split c xs") (auto split: if_splits)
qed simp

lemma takeWhile_cut: "c \<notin> set w \<Longrightarrow> takeWhile (\<lambda>x. x \<noteq> c) (w @ c # s) = w"
  by (induction w) auto

lemma dropWhile_cut: "c \<notin> set w \<Longrightarrow> dropWhile (\<lambda>x. x \<noteq> c) (w @ c # s) = c # s"
  by (induction w) auto

lemma split2_cut: "c \<notin> set w \<Longrightarrow> split2 c (w @ c # s) = [w, s]"
  by (simp add: split2_def takeWhile_cut dropWhile_cut)

lemma index_of_cut: "c \<notin> set w \<Longrightarrow> index_of c (w @ c # s) = int (length w)"
  by (simp add: index_of_def takeWhile_cut)

lemma remove_spaces_id: "CHR '' '' \<notin> set s \<Longrightarrow> remove_spaces s = s"
  by (simp add: remove_spaces_def filter_id_conv) metis

lemma remove_spaces_none [simp]: "CHR '' '' \<notin> set (remove_spaces s)"
  by (simp add: remove_spaces_def)

lemma fields_aux_word: "list_all (\<lambda>c. \<not> is_space c) w \<Longrightarrow> fields_aux cur (w @ s) = fields_aux (rev w @ cur) s"
  by (induction w arbitrary: cur) simp_all

lemma fields_word:
  assumes "list_all (\<lambda>c. \<not> is_space c) w" "w \<noteq> []"
  shows "Go_Strings.fields (w @ CHR '' '' # s) = w # Go_Strings.fields s" "Go_Strings.fields w = [w]"
  using fields_aux_word [OF assms(1), of "[]" "CHR '' '' # s"] fields_aux_word [OF assms(1), of "[]" "[]"] assms(2)
  by (simp_all add: fields_def is_space_def)

text \<open>Words joined by spaces are read back.\<close>

lemma fields_join:
  "\<forall>w \<in> set ws. w \<noteq> [] \<and> list_all (\<lambda>c. \<not> is_space c) w \<Longrightarrow> fields (join '' '' ws) = ws"
proof (induction ws)
  case (Cons w ws)
  then show ?case by (cases ws) (simp_all add: fields_word)
qed (simp add: fields_def)

text \<open>Cutting at a longer separator whose first byte does not occur in the parts.\<close>

lemma split_str_none: "c \<notin> set w \<Longrightarrow> split_str (c # sep) w = [w]"
  by (induction w) (auto simp: split_str.simps [of "c # sep"] starts_with_def)

lemma split_str_cut: "c \<notin> set w \<Longrightarrow> split_str (c # sep) (w @ c # sep @ s) = w # split_str (c # sep) s"
proof (induction w)
  case Nil
  then show ?case by (subst split_str.simps) (simp add: starts_with_def)
next
  case (Cons x w)
  then show ?case by (subst split_str.simps) (auto simp: starts_with_def)
qed

lemma split_str_join:
  "ws \<noteq> [] \<Longrightarrow> \<forall>w \<in> set ws. c \<notin> set w \<Longrightarrow> split_str (c # sep) (join (c # sep) ws) = ws"
proof (induction ws)
  case (Cons w ws)
  then show ?case by (cases ws) (simp_all add: split_str_cut split_str_none)
qed simp

section \<open>strconv\<close>

definition digit :: "nat \<Rightarrow> char" where
  "digit n = char_of (48 + n)"

definition is_digit :: "char \<Rightarrow> bool" where
  "is_digit c \<longleftrightarrow> 48 \<le> (of_char c :: nat) \<and> (of_char c :: nat) \<le> 57"

definition digit_val :: "char \<Rightarrow> nat" where
  "digit_val c = of_char c - 48"

fun nat_dec :: "nat \<Rightarrow> string" where
  "nat_dec n = (if n < 10 then [digit n] else nat_dec (n div 10) @ [digit (n mod 10)])"

declare nat_dec.simps [simp del]

definition dec_val :: "string \<Rightarrow> nat" where
  "dec_val s = foldl (\<lambda>a c. 10 * a + digit_val c) 0 s"

definition itoa :: "int \<Rightarrow> string" where
  "itoa i = (if i < 0 then CHR ''-'' # nat_dec (nat (- i)) else nat_dec (nat i))"

text \<open>\<open>strconv.ParseInt(s, 10, bits)\<close>; \<open>strconv.Atoi\<close> is the 64-bit case.\<close>

definition parse_sign :: "string \<Rightarrow> bool \<times> string" where
  "parse_sign s =
     (case s of [] \<Rightarrow> (False, [])
      | c # cs \<Rightarrow> if c = CHR ''-'' then (True, cs) else if c = CHR ''+'' then (False, cs)
                 else (False, s))"

definition parse_int :: "nat \<Rightarrow> string \<Rightarrow> int res" where
  "parse_int bits s =
     (let (neg, ds) = parse_sign s in
      if ds = [] \<or> \<not> list_all is_digit ds then Inl (Err ''invalid syntax'')
      else let v = (if neg then - int (dec_val ds) else int (dec_val ds))
           in if - (2 ^ (bits - 1)) \<le> v \<and> v < 2 ^ (bits - 1) then Inr v
              else Inl (Err ''value out of range''))"

definition atoi :: "string \<Rightarrow> int res" where
  "atoi s = parse_int 64 s"

lemma is_digit_digit [simp]: "n < 10 \<Longrightarrow> is_digit (digit n)"
  by (simp add: is_digit_def digit_def)

lemma digit_val_digit [simp]: "n < 10 \<Longrightarrow> digit_val (digit n) = n"
  by (simp add: digit_val_def digit_def)

lemma nat_dec_nonempty [simp]: "nat_dec n \<noteq> []"
  by (subst nat_dec.simps) simp

lemma nat_dec_digits: "list_all is_digit (nat_dec n)"
proof (induction n rule: nat_dec.induct)
  case (1 n)
  then show ?case by (subst nat_dec.simps) simp
qed

lemma dec_val_snoc: "dec_val (s @ [c]) = 10 * dec_val s + digit_val c"
  by (simp add: dec_val_def)

lemma dec_val_nat_dec [simp]: "dec_val (nat_dec n) = n"
proof (induction n rule: nat_dec.induct)
  case (1 n)
  show ?case
  proof (cases "n < 10")
    case True
    then show ?thesis by (simp add: nat_dec.simps [of n] dec_val_def)
  next
    case False
    then show ?thesis using 1 by (simp add: nat_dec.simps [of n] dec_val_snoc)
  qed
qed

lemma not_digit_minus [simp]: "\<not> is_digit (CHR ''-'')" "\<not> is_digit (CHR ''+'')"
    "\<not> is_digit (CHR ''_'')" "\<not> is_digit (CHR ''/'')"
  by (simp_all add: is_digit_def)

lemma digits_not_mem: "list_all is_digit s \<Longrightarrow> \<not> is_digit c \<Longrightarrow> c \<notin> set s"
  by (auto simp: list_all_iff)

lemma parse_sign_nat_dec: "parse_sign (nat_dec n) = (False, nat_dec n)"
proof (cases "nat_dec n")
  case (Cons c cs)
  moreover have "is_digit c" using nat_dec_digits [of n] Cons by simp
  ultimately show ?thesis by (auto simp: parse_sign_def)
qed simp

theorem parse_int_itoa:
  "- (2 ^ (bits - 1)) \<le> i \<Longrightarrow> i < 2 ^ (bits - 1) \<Longrightarrow> parse_int bits (itoa i) = Inr i"
  by (cases "i < 0")
     (simp_all add: parse_int_def itoa_def parse_sign_nat_dec nat_dec_digits,
      simp_all add: parse_sign_def nat_dec_digits)

lemma itoa_chars: "c \<in> set (itoa i) \<Longrightarrow> is_digit c \<or> c = CHR ''-''"
  using nat_dec_digits by (auto simp: itoa_def list_all_iff split: if_splits)

lemma itoa_inj:
  assumes eq: "itoa i = itoa j"
  shows "i = j"
proof -
  define n where "n = nat \<bar>i\<bar> + nat \<bar>j\<bar>"
  have "int n < int (2 ^ n)"
    by (simp only: of_nat_less_iff less_exp)
  then have bound: "\<bar>i\<bar> + \<bar>j\<bar> < 2 ^ (Suc n - 1)"
    by (simp add: n_def)
  have "parse_int (Suc n) (itoa k) = Inr k" if "\<bar>k\<bar> < 2 ^ (Suc n - 1)" for k
    by (rule parse_int_itoa) (use that in linarith)+
  from this [of i] this [of j] bound eq show ?thesis
    by (metis abs_ge_zero add_increasing add_increasing2 le_less_trans order_refl sum.inject(2))
qed

end
