(* ===== verification/Go_Hash.thy ===== *)
theory Go_Hash
  imports Go_Strings
begin

text \<open>
  The two hash functions of Go's standard library that the program calls: \<open>crypto/md5\<close> (the series
  keys of graph and judge) and \<open>hash/crc32\<close> with the IEEE polynomial (the shard of a series). Both are
  executable, on byte strings.
\<close>

unbundle bit_operations_syntax

type_synonym u32 = "32 word"

section \<open>MD5\<close>

definition md5_k :: "u32 list" where
  "md5_k = [
    3614090360, 3905402710, 606105819, 3250441966, 4118548399, 1200080426,
    2821735955, 4249261313, 1770035416, 2336552879, 4294925233, 2304563134,
    1804603682, 4254626195, 2792965006, 1236535329, 4129170786, 3225465664,
    643717713, 3921069994, 3593408605, 38016083, 3634488961, 3889429448,
    568446438, 3275163606, 4107603335, 1163531501, 2850285829, 4243563512,
    1735328473, 2368359562, 4294588738, 2272392833, 1839030562, 4259657740,
    2763975236, 1272893353, 4139469664, 3200236656, 681279174, 3936430074,
    3572445317, 76029189, 3654602809, 3873151461, 530742520, 3299628645,
    4096336452, 1126891415, 2878612391, 4237533241, 1700485571, 2399980690,
    4293915773, 2240044497, 1873313359, 4264355552, 2734768916, 1309151649,
    4149444226, 3174756917, 718787259, 3951481745]"

definition md5_s :: "nat list" where
  "md5_s = [
    7, 12, 17, 22, 7, 12, 17, 22, 7, 12, 17, 22, 7, 12, 17, 22,
    5, 9, 14, 20, 5, 9, 14, 20, 5, 9, 14, 20, 5, 9, 14, 20,
    4, 11, 16, 23, 4, 11, 16, 23, 4, 11, 16, 23, 4, 11, 16, 23,
    6, 10, 15, 21, 6, 10, 15, 21, 6, 10, 15, 21, 6, 10, 15, 21]"

text \<open>Bytes of a number, least significant first; the value of such bytes.\<close>

fun le_bytes :: "nat \<Rightarrow> nat \<Rightarrow> nat list" where
  "le_bytes 0 n = []"
| "le_bytes (Suc k) n = (n mod 256) # le_bytes k (n div 256)"

fun le_val :: "nat list \<Rightarrow> nat" where
  "le_val [] = 0"
| "le_val (b # bs) = b + 256 * le_val bs"

definition md5_pad :: "nat list \<Rightarrow> nat list" where
  "md5_pad bs =
     bs @ [128] @ replicate ((119 - length bs mod 64) mod 64) 0 @ le_bytes 8 (8 * length bs)"

fun chunks :: "nat \<Rightarrow> 'a list \<Rightarrow> 'a list list" where
  "chunks n xs = (if n = 0 \<or> xs = [] then [] else take n xs # chunks n (drop n xs))"

declare chunks.simps [simp del]

fun md5_f :: "nat \<Rightarrow> u32 \<Rightarrow> u32 \<Rightarrow> u32 \<Rightarrow> u32 \<times> nat" where
  "md5_f i b c d =
     (if i < 16 then ((b AND c) OR (NOT b AND d), i)
      else if i < 32 then ((d AND b) OR (NOT d AND c), (5 * i + 1) mod 16)
      else if i < 48 then (b XOR c XOR d, (3 * i + 5) mod 16)
      else (c XOR (b OR NOT d), (7 * i) mod 16))"

definition md5_round ::
  "u32 list \<Rightarrow> nat \<Rightarrow> u32 \<times> u32 \<times> u32 \<times> u32 \<Rightarrow> u32 \<times> u32 \<times> u32 \<times> u32" where
  "md5_round w i st =
     (let (a, b, c, d) = st; (f, g) = md5_f i b c d
      in (d, b + word_rotl (md5_s ! i) (a + f + md5_k ! i + w ! g), b, c))"

definition md5_block ::
  "u32 \<times> u32 \<times> u32 \<times> u32 \<Rightarrow> nat list \<Rightarrow> u32 \<times> u32 \<times> u32 \<times> u32" where
  "md5_block st block =
     (let w = map (\<lambda>c. of_nat (le_val c)) (chunks 4 block);
          (a, b, c, d) = st;
          (a', b', c', d') = fold (md5_round w) [0..<64] st
      in (a + a', b + b', c + c', d + d'))"

definition md5_sum :: "nat list \<Rightarrow> nat list" where
  "md5_sum bs =
     (let (a, b, c, d) = foldl md5_block (0x67452301, 0xefcdab89, 0x98badcfe, 0x10325476)
                          (chunks 64 (md5_pad bs))
      in le_bytes 4 (unat a) @ le_bytes 4 (unat b) @ le_bytes 4 (unat c) @ le_bytes 4 (unat d))"

definition hex_digit :: "nat \<Rightarrow> char" where
  "hex_digit n = char_of (if n < 10 then 48 + n else 87 + n)"

definition hex_of :: "nat list \<Rightarrow> string" where
  "hex_of bs = concat (map (\<lambda>b. [hex_digit (b div 16), hex_digit (b mod 16)]) bs)"

definition md5_hex :: "string \<Rightarrow> string" where
  "md5_hex s = hex_of (md5_sum (map of_char s))"

definition is_hex :: "char \<Rightarrow> bool" where
  "is_hex c \<longleftrightarrow> is_digit c \<or> (97 \<le> (of_char c :: nat) \<and> (of_char c :: nat) \<le> 102)"

lemma length_le_bytes [simp]: "length (le_bytes k n) = k"
  by (induction k arbitrary: n) simp_all

lemma le_bytes_bound: "b \<in> set (le_bytes k n) \<Longrightarrow> b < 256"
  by (induction k arbitrary: n) auto

lemma length_md5_sum [simp]: "length (md5_sum bs) = 16"
  by (simp add: md5_sum_def split: prod.splits)

lemma md5_sum_bound: "b \<in> set (md5_sum bs) \<Longrightarrow> b < 256"
  by (auto simp: md5_sum_def dest: le_bytes_bound split: prod.splits)

lemma length_hex_of [simp]: "length (hex_of bs) = 2 * length bs"
  by (induction bs) (simp_all add: hex_of_def)

lemma is_hex_digit: "n < 16 \<Longrightarrow> is_hex (hex_digit n)"
  by (simp add: is_hex_def hex_digit_def is_digit_def)

lemma hex_of_hex: "\<forall>b \<in> set bs. b < 256 \<Longrightarrow> list_all is_hex (hex_of bs)"
  by (auto simp: hex_of_def list_all_iff is_hex_digit)

lemma length_md5_hex [simp]: "length (md5_hex s) = 32"
  by (simp add: md5_hex_def)

lemma md5_hex_hex: "list_all is_hex (md5_hex s)"
  unfolding md5_hex_def by (intro hex_of_hex ballI) (rule md5_sum_bound)

lemma md5_hex_no [simp]: "\<not> is_hex c \<Longrightarrow> c \<notin> set (md5_hex s)"
  using md5_hex_hex [of s] by (auto simp: list_all_iff)

lemma not_hex [simp]: "\<not> is_hex (CHR ''_'')" "\<not> is_hex (CHR ''/'')"
  by (simp_all add: is_hex_def)

section \<open>CRC-32 (IEEE)\<close>

definition crc32_bit :: "u32 \<Rightarrow> u32" where
  "crc32_bit c = (if bit c 0 then drop_bit 1 c XOR 0xEDB88320 else drop_bit 1 c)"

definition crc32_byte :: "u32 \<Rightarrow> nat \<Rightarrow> u32" where
  "crc32_byte c b = (crc32_bit ^^ 8) (c XOR of_nat b)"

definition crc32 :: "string \<Rightarrow> u32" where
  "crc32 s = NOT (foldl crc32_byte (NOT 0) (map of_char s))"

end
