(* ===== verification/Common_Utils.thy ===== *)
theory Common_Utils
  imports Go_Map Go_Strings Go_Hash
begin

text \<open>
  Package \<open>common/utils\<close>: the textual form of a tag set, the keys that identify a series in every
  module (\<open>PK\<close>, \<open>UUID\<close>, \<open>Checksum\<close>, \<open>Counter\<close>) and the parsers that read tags back. The pooled
  byte buffers of the code only save allocations; the model builds the strings directly.
\<close>

section \<open>Definitions\<close>

text \<open>\<open>m[k]\<close> for a missing key is the zero value, here the empty string.\<close>

definition tag_of :: "tags \<Rightarrow> string \<Rightarrow> string" where
  "tag_of m k = (case gget m k of Some v \<Rightarrow> v | None \<Rightarrow> [])"

fun write_tags :: "tags \<Rightarrow> string list \<Rightarrow> string" where
  "write_tags m [] = []"
| "write_tags m [k] = k @ ''='' @ tag_of m k"
| "write_tags m (k # ks) = k @ ''='' @ tag_of m k @ '','' @ write_tags m ks"

definition SortedTags :: "tags \<Rightarrow> string" where
  "SortedTags m =
     (if length m = 0 then []
      else if length m = 1 then concat (map (\<lambda>(k, v). k @ ''='' @ v) m)
      else write_tags m (sort (gkeys m)))"

definition dict_step :: "tags \<Rightarrow> string \<Rightarrow> tags" where
  "dict_step d tag =
     (let idx = index_of (CHR ''='') tag
      in if idx \<noteq> -1 then gput (take (nat idx) tag) (drop (nat idx + 1) tag) d else d)"

definition DictedTagstring :: "string \<Rightarrow> tags" where
  "DictedTagstring s =
     (if s = [] then []
      else let s' = (if CHR '' '' \<in> set s then remove_spaces s else s)
           in foldl dict_step [] (split (CHR '','') s'))"

text \<open>\<open>SplitTagsString\<close> returns its error beside the tags read so far.\<close>

fun split_tags_loop :: "tags \<Rightarrow> string list \<Rightarrow> string option \<times> tags" where
  "split_tags_loop m [] = (None, m)"
| "split_tags_loop m (tag # ts) =
     (case split2 (CHR ''='') tag of
        [k, v] \<Rightarrow> split_tags_loop (gput k v m) ts
      | _ \<Rightarrow> (Some (''bad tag '' @ tag), m))"

definition SplitTagsString :: "string \<Rightarrow> string option \<times> tags" where
  "SplitTagsString s =
     (let s' = remove_spaces s
      in if s' = [] then (None, []) else split_tags_loop [] (split (CHR '','') s'))"

definition ConunterToMetricAndTags :: "string \<Rightarrow> string \<times> tags" where
  "ConunterToMetricAndTags counter =
     (case split2 (CHR ''/'') counter of
        [metric, tagStr] \<Rightarrow> (metric, DictedTagstring tagStr)
      | _ \<Rightarrow> (counter, []))"

definition PK :: "string \<Rightarrow> string \<Rightarrow> tags \<Rightarrow> string" where
  "PK endpoint metric tags =
     (if length tags = 0 then endpoint @ ''/'' @ metric
      else endpoint @ ''/'' @ metric @ ''/'' @ SortedTags tags)"

definition PK2 :: "string \<Rightarrow> string \<Rightarrow> string" where
  "PK2 endpoint counter = endpoint @ ''/'' @ counter"

definition UUID :: "string \<Rightarrow> string \<Rightarrow> tags \<Rightarrow> string \<Rightarrow> int \<Rightarrow> string" where
  "UUID endpoint metric tags dstype step =
     (if length tags = 0
      then endpoint @ ''/'' @ metric @ ''/'' @ dstype @ ''/'' @ itoa step
      else endpoint @ ''/'' @ metric @ ''/'' @ SortedTags tags @ ''/'' @ dstype @ ''/'' @ itoa step)"

definition Md5 :: "string \<Rightarrow> string" where
  "Md5 raw = md5_hex raw"

definition Checksum :: "string \<Rightarrow> string \<Rightarrow> tags \<Rightarrow> string" where
  "Checksum endpoint metric tags = Md5 (PK endpoint metric tags)"

definition ChecksumOfUUID :: "string \<Rightarrow> string \<Rightarrow> tags \<Rightarrow> string \<Rightarrow> int \<Rightarrow> string" where
  "ChecksumOfUUID endpoint metric tags dstype step = Md5 (UUID endpoint metric tags dstype step)"

definition Counter :: "string \<Rightarrow> tags \<Rightarrow> string" where
  "Counter metric tags =
     (if length tags = 0 then metric else metric @ ''/'' @ SortedTags tags)"

definition KeysOfMap :: "(string, string) gomap \<Rightarrow> string list" where
  "KeysOfMap m = sort (gkeys m)"

definition CompressStr :: "string \<Rightarrow> string" where
  "CompressStr s =
     (if s = [] then []
      else filter (\<lambda>c. c \<notin> {CHR 0x09, CHR 0x0A, CHR 0x0C, CHR 0x0D, CHR '' ''}) s)"

section \<open>The text of a tag set\<close>

text \<open>A tag set as the sorted list of its \<open>k=v\<close> strings.\<close>

definition tag_text :: "tags \<Rightarrow> string \<Rightarrow> string" where
  "tag_text m k = k @ ''='' @ tag_of m k"

lemma write_tags_join: "write_tags m ks = join '','' (map (tag_text m) ks)"
  by (induction m ks rule: write_tags.induct) (simp_all add: tag_text_def)

lemma SortedTags_join:
  assumes "gwf m"
  shows "SortedTags m = join '','' (map (tag_text m) (sort (gkeys m)))"
proof (cases "length m = 1")
  case True
  then obtain k v where "m = [(k, v)]" by (cases m) (auto simp: length_Suc_conv)
  then show ?thesis by (simp add: SortedTags_def tag_text_def tag_of_def)
next
  case False
  then show ?thesis by (simp add: SortedTags_def write_tags_join)
qed

lemma sorted_gkeys_cong:
  assumes "gwf m" "gwf m'" "gget m = gget m'"
  shows "sort (gkeys m) = sort (gkeys m')"
proof -
  have "mset (gkeys m) = mset (gkeys m')"
    using assms mset_set_set [of "gkeys m"] mset_set_set [of "gkeys m'"]
      gkeys_dom [of m] gkeys_dom [of m']
    by (simp add: gwf_def)
  then show ?thesis by (simp add: properties_for_sort)
qed

lemma tag_of_cong: "gget m = gget m' \<Longrightarrow> tag_text m = tag_text m'"
  by (simp add: tag_text_def tag_of_def fun_eq_iff)

lemma SortedTags_cong:
  assumes "gwf m" "gwf m'" "gget m = gget m'"
  shows "SortedTags m = SortedTags m'"
  using assms by (simp add: SortedTags_join sorted_gkeys_cong [OF assms] tag_of_cong [OF assms(3)])

lemma length_gwf_cong: "gwf m \<Longrightarrow> gwf m' \<Longrightarrow> gget m = gget m' \<Longrightarrow> length m = length m'"
  by (simp add: length_gwf)

lemma length_0_gget: "length m = 0 \<longleftrightarrow> gget m = Map.empty"
  by (cases m) (auto simp: fun_eq_iff split: if_splits)

section \<open>Tags that survive printing\<close>

text \<open>
  A key or a value with a comma, a space or, in a key, an equals sign is not read back as written.
\<close>

definition clean_tags :: "tags \<Rightarrow> bool" where
  "clean_tags m \<longleftrightarrow> gwf m \<and>
     list_all (\<lambda>(k, v). set k \<inter> {CHR '','', CHR '' '', CHR ''=''} = {} \<and>
                        set v \<inter> {CHR '','', CHR '' ''} = {}) m"

lemma clean_tags_key: "clean_tags m \<Longrightarrow> k \<in> set (gkeys m) \<Longrightarrow>
    CHR '','' \<notin> set k \<and> CHR '' '' \<notin> set k \<and> CHR ''='' \<notin> set k"
  by (fastforce simp: clean_tags_def list_all_iff)

lemma clean_tags_val:
  assumes "clean_tags m"
  shows "CHR '','' \<notin> set (tag_of m k) \<and> CHR '' '' \<notin> set (tag_of m k)"
proof (cases "gget m k")
  case (Some v)
  then have "(k, v) \<in> set m" by (rule map_of_SomeD)
  then show ?thesis using assms Some by (fastforce simp: clean_tags_def list_all_iff tag_of_def)
qed (simp add: tag_of_def)

lemma clean_tag_text: "clean_tags m \<Longrightarrow> k \<in> set (gkeys m) \<Longrightarrow>
    CHR '','' \<notin> set (tag_text m k) \<and> CHR '' '' \<notin> set (tag_text m k)"
  using clean_tags_key clean_tags_val by (fastforce simp: tag_text_def)

lemma dict_step_text:
  "CHR ''='' \<notin> set k \<Longrightarrow> dict_step d (k @ CHR ''='' # v) = gput k v d"
  by (simp add: dict_step_def index_of_cut Let_def)

lemma foldl_dict_step:
  "clean_tags m \<Longrightarrow> set ks \<subseteq> set (gkeys m) \<Longrightarrow>
   foldl dict_step d (map (tag_text m) ks) = foldl (\<lambda>a (k, v). gput k v a) d (map (\<lambda>k. (k, tag_of m k)) ks)"
proof (induction ks arbitrary: d)
  case (Cons k ks)
  then show ?case
    using clean_tags_key [of m k] by (simp add: tag_text_def dict_step_text)
qed simp

lemma map_of_tag_of:
  "map_of (rev (map (\<lambda>k. (k, tag_of m k)) ks)) k =
     (if k \<in> set ks then Some (tag_of m k) else None)"
  by (induction ks rule: rev_induct) (auto simp: map_of_eq_None_iff rev_map [symmetric])

lemma join_no_mem:
  "c \<notin> set sep \<Longrightarrow> \<forall>w \<in> set ws. c \<notin> set w \<Longrightarrow> c \<notin> set (join sep ws)"
  by (induction sep ws rule: join.induct) auto

lemma clean_tags_gwf: "clean_tags m \<Longrightarrow> gwf m"
  by (simp add: clean_tags_def)

lemma SortedTags_no_space: "clean_tags m \<Longrightarrow> CHR '' '' \<notin> set (SortedTags m)"
  using clean_tag_text [of m]
  by (simp add: SortedTags_join clean_tags_gwf) (intro join_no_mem, auto)

lemma split_SortedTags:
  assumes "clean_tags m" "m \<noteq> []"
  shows "split (CHR '','') (SortedTags m) = map (tag_text m) (sort (gkeys m))"
  unfolding SortedTags_join [OF clean_tags_gwf [OF assms(1)]]
  using assms(2) clean_tag_text [OF assms(1)] by (intro split_join) auto

lemma SortedTags_nonempty: "gwf m \<Longrightarrow> m \<noteq> [] \<Longrightarrow> SortedTags m \<noteq> []"
proof -
  assume m: "gwf m" "m \<noteq> []"
  then obtain k ks where "sort (gkeys m) = k # ks" by (cases "sort (gkeys m)") auto
  then show ?thesis using m by (cases ks) (simp_all add: SortedTags_join tag_text_def)
qed

lemma gget_foldl_tags:
  "gget (foldl (\<lambda>a (k, v). gput k v a) [] (map (\<lambda>k. (k, tag_of m k)) (sort (gkeys m)))) = gget m"
  (is "gget ?f = _")
proof
  fix k
  have "gget ?f k = (if k \<in> set (gkeys m) then Some (tag_of m k) else None)"
    unfolding gm.get_put_all [OF gwf_empty] by (simp only: map_add_empty map_of.simps
        empty_map_add map_of_tag_of set_sort)
  also have "\<dots> = gget m k"
    unfolding gkeys_dom by (cases "gget m k") (simp_all add: tag_of_def domIff)
  finally show "gget ?f k = gget m k" .
qed

lemma gwf_foldl_tags: "gwf (foldl (\<lambda>a (k, v). gput k v a) [] kvs)"
  by (simp add: gm.inv_put_all)

lemma DictedTagstring_SortedTags:
  assumes "clean_tags m" "m \<noteq> []"
  shows "DictedTagstring (SortedTags m) =
    foldl (\<lambda>a (k, v). gput k v a) [] (map (\<lambda>k. (k, tag_of m k)) (sort (gkeys m)))"
  using assms SortedTags_no_space [OF assms(1)] SortedTags_nonempty [OF clean_tags_gwf [OF assms(1)]]
  by (simp add: DictedTagstring_def split_SortedTags foldl_dict_step)

lemma split_tags_loop_text:
  "clean_tags m \<Longrightarrow> set ks \<subseteq> set (gkeys m) \<Longrightarrow>
   split_tags_loop d (map (tag_text m) ks) =
     (None, foldl (\<lambda>a (k, v). gput k v a) d (map (\<lambda>k. (k, tag_of m k)) ks))"
proof (induction ks arbitrary: d)
  case (Cons k ks)
  then show ?case
    using clean_tags_key [of m k] split2_cut [of "CHR ''=''" k "tag_of m k"]
    by (simp add: tag_text_def)
qed simp

lemma SplitTagsString_SortedTags:
  assumes "clean_tags m" "m \<noteq> []"
  shows "SplitTagsString (SortedTags m) =
    (None, foldl (\<lambda>a (k, v). gput k v a) [] (map (\<lambda>k. (k, tag_of m k)) (sort (gkeys m))))"
  using assms SortedTags_no_space [OF assms(1)] SortedTags_nonempty [OF clean_tags_gwf [OF assms(1)]]
  by (simp add: SplitTagsString_def remove_spaces_id split_SortedTags split_tags_loop_text)

lemma SortedTags_inj:
  assumes "clean_tags m" "clean_tags m'" "SortedTags m = SortedTags m'"
  shows "gget m = gget m'"
proof -
  have "gget (DictedTagstring (SortedTags t)) = gget t" if "clean_tags t" for t
  proof (cases "t = []")
    case True
    then show ?thesis by (simp add: DictedTagstring_def SortedTags_def)
  next
    case False
    then show ?thesis using that by (simp add: DictedTagstring_SortedTags gget_foldl_tags)
  qed
  from this [OF assms(1)] this [OF assms(2)] assms(3) show ?thesis by simp
qed

lemma PK_PK2: "PK endpoint metric tags = PK2 endpoint (Counter metric tags)"
  by (simp add: PK_def PK2_def Counter_def)

lemma Counter_slash: "CHR ''/'' \<notin> set metric \<Longrightarrow>
    CHR ''/'' \<in> set (Counter metric tags) \<longleftrightarrow> tags \<noteq> []"
  by (simp add: Counter_def)

lemma cut_inj:
  assumes "(c::char) \<notin> set a" "c \<notin> set a'" "a @ c # x = a' @ c # x'"
  shows "a = a' \<and> x = x'"
proof -
  have "split2 c (a' @ c # x') = [a, x]"
    using split2_cut [OF assms(1), of x] unfolding assms(3) .
  then show ?thesis by (simp add: split2_cut [OF assms(2)])
qed

lemma Counter_inj:
  assumes "CHR ''/'' \<notin> set metric" "CHR ''/'' \<notin> set metric'" "clean_tags t" "clean_tags t'"
    and eq: "Counter metric t = Counter metric' t'"
  shows "metric = metric' \<and> gget t = gget t'"
proof (cases "t = []")
  case True
  then have "t' = []"
    using Counter_slash [OF assms(1), of t] Counter_slash [OF assms(2), of t'] eq by simp
  then show ?thesis using True eq by (simp add: Counter_def)
next
  case False
  then have "t' \<noteq> []"
    using Counter_slash [OF assms(1), of t] Counter_slash [OF assms(2), of t'] eq by simp
  then have "metric @ CHR ''/'' # SortedTags t = metric' @ CHR ''/'' # SortedTags t'"
    using False eq by (simp add: Counter_def)
  from cut_inj [OF assms(1,2) this] show ?thesis
    using SortedTags_inj [OF assms(3,4)] by simp
qed

section \<open>Properties\<close>

text \<open>
  C38: The printed form of a tag set is read back as the same tag set by both parsers of the
  program, for tags whose keys have no comma, space or equals sign and whose values have no comma
  or space (values may contain an equals sign).
\<close>

theorem tags_roundtrip:
  assumes "clean_tags m"
  shows "gget (DictedTagstring (SortedTags m)) = gget m
    \<and> fst (SplitTagsString (SortedTags m)) = None
    \<and> gget (snd (SplitTagsString (SortedTags m))) = gget m"
proof (cases "m = []")
  case True
  then show ?thesis
    by (simp add: DictedTagstring_def SplitTagsString_def SortedTags_def remove_spaces_def)
next
  case False
  then show ?thesis
    using assms by (simp add: DictedTagstring_SortedTags SplitTagsString_SortedTags gget_foldl_tags)
qed

theorem tags_roundtrip_witness:
  "gget (DictedTagstring (SortedTags [(''mount'', ''/a=b''), (''fstype'', ''xfs'')]))
     = gget [(''mount'', ''/a=b''), (''fstype'', ''xfs'')]"
proof -
  have "clean_tags [(''mount'', ''/a=b''), (''fstype'', ''xfs'')]"
    by (simp add: clean_tags_def gwf_def)
  from tags_roundtrip [OF this] show ?thesis by simp
qed

text \<open>
  The keys of a series do not depend on the order in which Go iterates over the tag map: two
  maps with the same entries give the same tag text, primary key, counter, UUID and checksum.
\<close>

theorem series_keys_canonical:
  assumes "gwf m" "gwf m'" "gget m = gget m'"
  shows "SortedTags m = SortedTags m' \<and> PK ep mt m = PK ep mt m' \<and> Counter mt m = Counter mt m'
    \<and> UUID ep mt m ds st = UUID ep mt m' ds st \<and> Checksum ep mt m = Checksum ep mt m'"
  using SortedTags_cong [OF assms] length_gwf_cong [OF assms]
  by (auto simp: PK_def Counter_def UUID_def Checksum_def)

theorem series_keys_canonical_witness:
  "PK ''h'' ''df'' [(''b'', ''1''), (''a'', ''2'')] = PK ''h'' ''df'' [(''a'', ''2''), (''b'', ''1'')]"
proof -
  have "gwf [(''b'', ''1''), (''a'', ''2'')]" "gwf [(''a'', ''2''), (''b'', ''1'')]"
    "gget [(''b'', ''1''), (''a'', ''2'')] = gget [(''a'', ''2''), (''b'', ''1'')]"
    by (auto simp: gwf_def fun_eq_iff)
  from series_keys_canonical [OF this] show ?thesis by blast
qed

text \<open>
  C37: The primary key identifies the series: two series whose endpoint and metric have no slash and
  whose tags are clean have the same primary key only if they have the same endpoint, metric and
  tags. The key is the one a query builds from the endpoint and the counter.
\<close>

theorem PK_identifies_series:
  assumes "CHR ''/'' \<notin> set ep" "CHR ''/'' \<notin> set ep'" "CHR ''/'' \<notin> set mt" "CHR ''/'' \<notin> set mt'"
    and "clean_tags t" "clean_tags t'"
  shows "(PK ep mt t = PK ep' mt' t' \<longleftrightarrow> ep = ep' \<and> mt = mt' \<and> gget t = gget t')
    \<and> PK ep mt t = PK2 ep (Counter mt t)"
proof -
  have eq: "ep = ep' \<and> mt = mt' \<and> gget t = gget t'" if "PK ep mt t = PK ep' mt' t'"
  proof -
    from that have "ep @ CHR ''/'' # Counter mt t = ep' @ CHR ''/'' # Counter mt' t'"
      by (simp add: PK_PK2 PK2_def)
    from cut_inj [OF assms(1,2) this] show ?thesis
      using Counter_inj [OF assms(3-6)] by blast
  qed
  have "PK ep mt t = PK ep mt t'" if "gget t = gget t'"
    using SortedTags_cong [OF _ _ that] length_gwf_cong [OF _ _ that] assms(5,6)
    by (simp add: PK_def clean_tags_gwf)
  with eq show ?thesis using PK_PK2 by blast
qed

theorem PK_identifies_series_witness:
  "PK ''h1'' ''df'' [(''mount'', ''/'')] \<noteq> PK ''h1'' ''df'' [(''mount'', ''/x'')]"
proof -
  have c: "clean_tags [(''mount'', ''/'')]" "clean_tags [(''mount'', ''/x'')]"
    by (simp_all add: clean_tags_def gwf_def)
  have "gget [(''mount'', ''/'')] \<noteq> gget [(''mount'', ''/x'')]"
    by (auto dest: fun_cong [of _ _ "''mount''"])
  with PK_identifies_series [OF _ _ _ _ c, of "''h1''" "''h1''" "''df''" "''df''"]
  show ?thesis by auto
qed

text \<open>
  A counter is read back as its metric and its tags, when the metric has no slash and the tags
  are clean.
\<close>

theorem counter_roundtrip:
  assumes "CHR ''/'' \<notin> set metric" "clean_tags m"
  shows "fst (ConunterToMetricAndTags (Counter metric m)) = metric
    \<and> gget (snd (ConunterToMetricAndTags (Counter metric m))) = gget m"
proof (cases "m = []")
  case True
  then show ?thesis
    using assms by (simp add: Counter_def ConunterToMetricAndTags_def split2_def)
next
  case False
  then show ?thesis
    using assms
    by (simp add: Counter_def ConunterToMetricAndTags_def split2_cut DictedTagstring_SortedTags
        gget_foldl_tags)
qed

theorem counter_roundtrip_witness:
  "ConunterToMetricAndTags (Counter ''net.port'' [(''port'', ''80'')]) = (''net.port'', [(''port'', ''80'')])
   \<and> fst (ConunterToMetricAndTags (Counter ''net.port'' [(''port'', ''80'')])) = ''net.port''"
proof -
  have "clean_tags [(''port'', ''80'')]" by (simp add: clean_tags_def gwf_def)
  then have "fst (ConunterToMetricAndTags (Counter ''net.port'' [(''port'', ''80'')])) = ''net.port''"
    using counter_roundtrip [of "''net.port''" "[(''port'', ''80'')]"] by simp
  then show ?thesis by code_simp
qed

end
