(* ===== verification/Go_Float.thy ===== *)
theory Go_Float
  imports Complex_Main Go_Strings
begin

text \<open>
  Go's float64, IEEE 754 binary64, as a datatype: NaN, the two infinities, the two zeros and the
  finite non-zero values as rationals. Every operation computes the exact rational result and
  rounds it once, to nearest with ties to even, with gradual underflow and overflow to infinity.
  The orderings are those of the hardware: every comparison with NaN is false.
\<close>

datatype f64 = NaN | Inf bool | Zero bool | Fin rat
  \<comment> \<open>the boolean is the sign, True for minus; \<open>Fin q\<close> is used for \<open>q \<noteq> 0\<close> only\<close>

section \<open>Rounding\<close>

text \<open>The number of binary digits of an integer that is not negative.\<close>

function nbits :: "int \<Rightarrow> nat" where
  "nbits n = (if n \<le> 0 then 0 else Suc (nbits (n div 2)))"
  by pat_completeness auto
termination
  by (relation "measure nat") auto

declare nbits.simps [simp del]

text \<open>The exponent \<open>e\<close> with \<open>2 ^ e \<le> q < 2 ^ (e + 1)\<close>, for a positive rational.\<close>

definition flog2 :: "rat \<Rightarrow> int" where
  "flog2 q =
     (if 1 \<le> q then int (nbits \<lfloor>q\<rfloor>) - 1
      else - int (nbits (\<lceil>1 / q\<rceil> - 1)))"

definition pow2 :: "int \<Rightarrow> rat" where
  "pow2 e = (if 0 \<le> e then 2 ^ nat e else 1 / 2 ^ nat (- e))"

definition round_half_even :: "rat \<Rightarrow> int" where
  "round_half_even x =
     (let f = \<lfloor>x\<rfloor>; r = x - of_int f in
      if r < 1 / 2 then f else if 1 / 2 < r then f + 1 else if even f then f else f + 1)"

text \<open>The magnitude of the result, and the first magnitude that overflows.\<close>

definition round_mag :: "rat \<Rightarrow> rat" where
  "round_mag a = (let u = pow2 (max (flog2 a - 52) (-1074)) in of_int (round_half_even (a / u)) * u)"

definition f64_limit :: rat where
  "f64_limit = 2 ^ 1024"

definition round_f64 :: "bool \<Rightarrow> rat \<Rightarrow> f64" where
  "round_f64 s q =
     (if q = 0 then Zero s
      else let m = round_mag \<bar>q\<bar>
           in if m = 0 then Zero (q < 0)
              else if f64_limit \<le> m then Inf (q < 0)
              else Fin (if q < 0 then - m else m))"

text \<open>A decimal constant of the source, a conversion \<open>float64(i)\<close> of an int64.\<close>

definition flit :: "rat \<Rightarrow> f64" where
  "flit q = round_f64 False q"

definition f64_of_int :: "int \<Rightarrow> f64" where
  "f64_of_int i = round_f64 False (of_int i)"

section \<open>Comparison and arithmetic\<close>

fun fval :: "f64 \<Rightarrow> rat" where
  "fval (Fin q) = q"
| "fval _ = 0"

fun is_nan :: "f64 \<Rightarrow> bool" where
  "is_nan NaN = True"
| "is_nan _ = False"

fun is_fin :: "f64 \<Rightarrow> bool" where
  "is_fin (Fin _) = True"
| "is_fin (Zero _) = True"
| "is_fin _ = False"

fun fneg :: "f64 \<Rightarrow> f64" where
  "fneg NaN = NaN"
| "fneg (Inf s) = Inf (\<not> s)"
| "fneg (Zero s) = Zero (\<not> s)"
| "fneg (Fin q) = Fin (- q)"

fun fsign :: "f64 \<Rightarrow> bool" where
  "fsign NaN = False"
| "fsign (Inf s) = s"
| "fsign (Zero s) = s"
| "fsign (Fin q) = (q < 0)"

fun fadd :: "f64 \<Rightarrow> f64 \<Rightarrow> f64" where
  "fadd NaN y = NaN"
| "fadd x NaN = NaN"
| "fadd (Inf s) (Inf t) = (if s = t then Inf s else NaN)"
| "fadd (Inf s) y = Inf s"
| "fadd x (Inf t) = Inf t"
| "fadd (Zero s) (Zero t) = Zero (s \<and> t)"
| "fadd x y = round_f64 False (fval x + fval y)"

fun fmul :: "f64 \<Rightarrow> f64 \<Rightarrow> f64" where
  "fmul NaN y = NaN"
| "fmul x NaN = NaN"
| "fmul (Inf s) (Zero _) = NaN"
| "fmul (Zero _) (Inf t) = NaN"
| "fmul (Inf s) y = Inf (s \<noteq> fsign y)"
| "fmul x (Inf t) = Inf (fsign x \<noteq> t)"
| "fmul x y = round_f64 (fsign x \<noteq> fsign y) (fval x * fval y)"

fun fdiv :: "f64 \<Rightarrow> f64 \<Rightarrow> f64" where
  "fdiv NaN y = NaN"
| "fdiv x NaN = NaN"
| "fdiv (Inf s) (Inf t) = NaN"
| "fdiv (Inf s) y = Inf (s \<noteq> fsign y)"
| "fdiv x (Inf t) = Zero (fsign x \<noteq> t)"
| "fdiv (Zero _) (Zero _) = NaN"
| "fdiv x (Zero t) = Inf (fsign x \<noteq> t)"
| "fdiv x y = round_f64 (fsign x \<noteq> fsign y) (fval x / fval y)"

fun fabs :: "f64 \<Rightarrow> f64" where
  "fabs NaN = NaN"
| "fabs (Inf _) = Inf False"
| "fabs (Zero _) = Zero False"
| "fabs (Fin q) = Fin \<bar>q\<bar>"

fun flt :: "f64 \<Rightarrow> f64 \<Rightarrow> bool" where
  "flt NaN y = False"
| "flt x NaN = False"
| "flt (Inf s) (Inf t) = (s \<and> \<not> t)"
| "flt (Inf s) y = s"
| "flt x (Inf t) = (\<not> t)"
| "flt x y = (fval x < fval y)"

text \<open>The comparison \<open>==\<close> of the language, which identifies the two zeros.\<close>

fun feq :: "f64 \<Rightarrow> f64 \<Rightarrow> bool" where
  "feq NaN y = False"
| "feq x NaN = False"
| "feq (Inf s) (Inf t) = (s = t)"
| "feq (Inf s) y = False"
| "feq x (Inf t) = False"
| "feq x y = (fval x = fval y)"

text \<open>The operators of the source, so that the models of the components read like the code.\<close>

instantiation f64 :: "{plus, minus, uminus, times, zero, ord}"
begin

definition plus_f64 :: "f64 \<Rightarrow> f64 \<Rightarrow> f64" where
  "plus_f64 x y = fadd x y"

definition minus_f64 :: "f64 \<Rightarrow> f64 \<Rightarrow> f64" where
  "minus_f64 x y = fadd x (fneg y)"

definition uminus_f64 :: "f64 \<Rightarrow> f64" where
  "uminus_f64 x = fneg x"

definition times_f64 :: "f64 \<Rightarrow> f64 \<Rightarrow> f64" where
  "times_f64 x y = fmul x y"

definition zero_f64 :: f64 where
  "zero_f64 = Zero False"

definition less_f64 :: "f64 \<Rightarrow> f64 \<Rightarrow> bool" where
  "less_f64 x y = flt x y"

definition less_eq_f64 :: "f64 \<Rightarrow> f64 \<Rightarrow> bool" where
  "less_eq_f64 x y = (flt x y \<or> feq x y)"

instance ..

end

lemmas f64_ops [go_simps] = plus_f64_def minus_f64_def uminus_f64_def times_f64_def zero_f64_def
  less_f64_def less_eq_f64_def

section \<open>Order\<close>

lemma flt_irrefl [simp]: "\<not> x < (x::f64)"
  by (cases x) (simp_all add: less_f64_def)

lemma f64_less_asym: "x < y \<Longrightarrow> \<not> y < (x::f64)"
  by (cases x; cases y) (auto simp: less_f64_def)

lemma f64_less_trans: "x < y \<Longrightarrow> y < z \<Longrightarrow> x < (z::f64)"
  by (cases x; cases y; cases z) (auto simp: less_f64_def)

lemma f64_nan_less [simp]: "\<not> NaN < y" "\<not> x < NaN" "\<not> NaN \<le> y" "\<not> x \<le> NaN"
  by (cases x; cases y; simp add: less_f64_def less_eq_f64_def)+

lemma f64_not_less: "\<not> is_nan x \<Longrightarrow> \<not> is_nan y \<Longrightarrow> \<not> x < y \<longleftrightarrow> y \<le> (x::f64)"
  by (cases x; cases y) (auto simp: less_f64_def less_eq_f64_def)

lemma f64_le_refl: "\<not> is_nan x \<Longrightarrow> x \<le> (x::f64)"
  by (cases x) (simp_all add: less_eq_f64_def)

lemma f64_le_trans: "x \<le> y \<Longrightarrow> y \<le> z \<Longrightarrow> x \<le> (z::f64)"
  by (cases x; cases y; cases z) (auto simp: less_f64_def less_eq_f64_def)

lemma f64_less_imp_le: "x < y \<Longrightarrow> x \<le> (y::f64)"
  by (simp add: less_f64_def less_eq_f64_def)

lemma f64_le_nan: "x \<le> y \<Longrightarrow> \<not> is_nan x \<and> \<not> is_nan (y::f64)"
  by (cases x; cases y) (auto simp: less_eq_f64_def)

section \<open>Exactness on integers\<close>

lemma nbits_lower: "0 < n \<Longrightarrow> 2 ^ (nbits n - 1) \<le> n"
proof (induction n rule: nbits.induct)
  case (1 n)
  show ?case
  proof (cases "n div 2 = 0")
    case True
    then have "n = 1" using 1 by linarith
    then show ?thesis by (simp add: nbits.simps)
  next
    case False
    then have half: "0 < n div 2" using 1 by linarith
    then have ih: "2 ^ (nbits (n div 2) - 1) \<le> n div 2" using 1 by simp
    have "nbits (n div 2) \<noteq> 0" using half by (subst nbits.simps) simp
    then have "2 ^ nbits (n div 2) = 2 * (2::int) ^ (nbits (n div 2) - 1)"
      by (cases "nbits (n div 2)") simp_all
    also have "\<dots> \<le> n" using ih by simp
    finally show ?thesis using 1 by (simp add: nbits.simps [of n])
  qed
qed

lemma round_half_even_int [simp]: "round_half_even (of_int k) = k"
  by (simp add: round_half_even_def)

lemma pow2_pos [simp]: "0 < pow2 e"
  by (simp add: pow2_def)

lemma flog2_int: "0 < k \<Longrightarrow> flog2 (of_int k) = int (nbits k) - 1"
  by (simp add: flog2_def)

lemma flog2_int_le: "0 < k \<Longrightarrow> k < 2 ^ 53 \<Longrightarrow> flog2 (of_int k) \<le> 52"
proof -
  assume k: "0 < k" "k < 2 ^ 53"
  have "nbits k \<le> 53"
  proof (rule ccontr)
    assume "\<not> nbits k \<le> 53"
    then have "(2::int) ^ 53 \<le> 2 ^ (nbits k - 1)" by (intro power_increasing) auto
    also have "\<dots> \<le> k" using k by (intro nbits_lower) simp
    finally show False using k by simp
  qed
  then show ?thesis using k by (simp add: flog2_int)
qed

lemma of_int_div_pow2: "e \<le> 0 \<Longrightarrow> of_int k / pow2 e = (of_int (k * 2 ^ nat (- e)) :: rat)"
  by (auto simp: pow2_def)

lemma round_mag_int:
  assumes "0 < k" "k < 2 ^ 53"
  shows "round_mag (of_int k) = of_int k"
proof -
  define e where "e = max (flog2 (of_int k) - 52) (-1074)"
  have e: "e \<le> 0"
    using flog2_int_le [of k] assms by (simp add: e_def)
  have "round_mag (of_int k) = of_int (round_half_even (of_int k / pow2 e)) * pow2 e"
    by (simp add: round_mag_def e_def Let_def)
  also have "\<dots> = (of_int (k * 2 ^ nat (- e)) :: rat) * pow2 e"
    by (simp only: of_int_div_pow2 [OF e] round_half_even_int)
  also have "\<dots> = of_int k"
    using e by (auto simp: pow2_def)
  finally show ?thesis .
qed

lemma f64_limit_int: "k < 2 ^ 53 \<Longrightarrow> \<not> f64_limit \<le> of_int k"
proof -
  assume "k < 2 ^ 53"
  then have "k < 2 ^ 1024"
    using power_increasing [of 53 1024 "2::int"] by linarith
  then have "(of_int k :: rat) < of_int (2 ^ 1024)"
    by (simp only: of_int_less_iff)
  then show ?thesis
    by (simp only: f64_limit_def of_int_power of_int_numeral not_le)
qed

lemma round_f64_int:
  assumes "\<bar>k\<bar> < 2 ^ 53"
  shows "round_f64 s (of_int k) = (if k = 0 then Zero s else Fin (of_int k))"
proof (cases "k = 0")
  case True
  then show ?thesis by (simp add: round_f64_def)
next
  case False
  have abs: "\<bar>of_int k :: rat\<bar> = of_int \<bar>k\<bar>" by simp
  have "round_mag \<bar>of_int k\<bar> = of_int \<bar>k\<bar>"
    unfolding abs using False assms by (intro round_mag_int) auto
  moreover have "\<not> f64_limit \<le> of_int \<bar>k\<bar>"
    using assms by (rule f64_limit_int)
  ultimately show ?thesis
    using False by (simp add: round_f64_def Let_def)
qed

text \<open>Rounding up is by at most half a unit in the last place.\<close>

lemma round_half_even_le: "of_int (round_half_even x) \<le> x + 1 / 2"
  unfolding round_half_even_def Let_def
  by (auto intro: order_trans [OF of_int_floor_le])

lemma pow2_flog2_le:
  assumes "1 \<le> a"
  shows "pow2 (flog2 a) \<le> a"
proof -
  have f: "0 < \<lfloor>a\<rfloor>" using assms by linarith
  have "nbits \<lfloor>a\<rfloor> \<noteq> 0" using f by (subst nbits.simps) simp
  then have "pow2 (flog2 a) = of_int (2 ^ (nbits \<lfloor>a\<rfloor> - 1))"
    using assms by (simp add: flog2_def pow2_def nat_diff_distrib)
  also have "\<dots> \<le> of_int \<lfloor>a\<rfloor>" using nbits_lower [OF f] by (simp only: of_int_le_iff)
  also have "\<dots> \<le> a" by simp
  finally show ?thesis .
qed

lemma pow2_diff: "pow2 (a - b) = pow2 a / pow2 b"
  by (auto simp: pow2_def power_diff field_simps power_add [symmetric] nat_diff_distrib nat_add_distrib)

lemma round_mag_le:
  assumes "1 \<le> a"
  shows "round_mag a \<le> a + a / 2 ^ 53"
proof -
  define u where "u = pow2 (flog2 a - 52)"
  have "0 \<le> flog2 a" using assms nbits_lower [of "\<lfloor>a\<rfloor>"] by (auto simp: flog2_def) (subst nbits.simps, simp)
  then have m: "max (flog2 a - 52) (-1074) = flog2 a - 52" by simp
  have u: "0 < u" "u \<le> a / 2 ^ 52"
    using pow2_flog2_le [OF assms] by (simp_all add: u_def pow2_diff) (simp add: pow2_def divide_right_mono)
  have "of_int (round_half_even (a / u)) * u \<le> (a / u + 1 / 2) * u"
    using round_half_even_le u(1) by (intro mult_right_mono) simp_all
  also have "\<dots> = a + u / 2" using u(1) by (simp add: field_simps)
  also have "\<dots> \<le> a + a / 2 ^ 53" using u(2) by simp
  finally show ?thesis unfolding round_mag_def Let_def m u_def .
qed

text \<open>The float64 of a small integer, and arithmetic on such values, is exact.\<close>

definition fint :: "int \<Rightarrow> f64" where
  "fint k = (if k = 0 then Zero False else Fin (of_int k))"

lemma f64_of_int_exact: "\<bar>k\<bar> < 2 ^ 53 \<Longrightarrow> f64_of_int k = fint k"
  by (simp add: f64_of_int_def round_f64_int fint_def)

lemma fint_add: "\<bar>a + b\<bar> < 2 ^ 53 \<Longrightarrow> fint a + fint b = fint (a + b)"
  using round_f64_int [of "a + b" False]
  by (auto simp: fint_def plus_f64_def)

lemma fint_uminus: "a \<noteq> 0 \<Longrightarrow> fneg (fint a) = fint (- a)"
  by (simp add: fint_def)

lemma fint_diff: "\<bar>a - b\<bar> < 2 ^ 53 \<Longrightarrow> fint a - fint b = fint (a - b)"
  using round_f64_int [of "a - b" False]
  by (auto simp: fint_def minus_f64_def)

lemma fint_less [simp]: "fint a < fint b \<longleftrightarrow> a < b"
  by (auto simp: fint_def less_f64_def)

lemma fint_le [simp]: "fint a \<le> fint b \<longleftrightarrow> a \<le> b"
  by (auto simp: fint_def less_eq_f64_def)

lemma fint_not_nan [simp]: "\<not> is_nan (fint a)"
  by (simp add: fint_def)

section \<open>strconv.ParseFloat(s, 64)\<close>

text \<open>
  The decimal syntax of the function: a sign, digits with at most one point, an exponent; or a name of
  an infinity or of NaN in any mix of cases. The result is the value of the text rounded once; a value
  that overflows is an error. (Go 1.13 added hexadecimal floats, which are not in here.)
\<close>

definition lower_ascii :: "string \<Rightarrow> string" where
  "lower_ascii s = map (\<lambda>c. if CHR ''A'' \<le> c \<and> c \<le> CHR ''Z'' then char_of (of_char c + (32::nat)) else c) s"

definition special_float :: "string \<Rightarrow> f64 option" where
  "special_float s =
     (let w = lower_ascii s in
      if w \<in> {''inf'', ''infinity'', ''+inf'', ''+infinity''} then Some (Inf False)
      else if w \<in> {''-inf'', ''-infinity''} then Some (Inf True)
      else if w = ''nan'' then Some NaN
      else None)"

definition span_digits :: "string \<Rightarrow> string \<times> string" where
  "span_digits s = (takeWhile is_digit s, dropWhile is_digit s)"

text \<open>The exponent: nothing, or \<open>e\<close>, a sign and digits up to the end. It stops growing at 10000.\<close>

definition exp_val :: "string \<Rightarrow> int" where
  "exp_val ds = foldl (\<lambda>e c. if e < 10000 then 10 * e + int (digit_val c) else e) 0 ds"

definition parse_exp :: "string \<Rightarrow> int option" where
  "parse_exp s =
     (case s of [] \<Rightarrow> Some 0
      | c # cs \<Rightarrow>
          if c = CHR ''e'' \<or> c = CHR ''E'' then
            let (neg, ds) = parse_sign cs in
            if ds \<noteq> [] \<and> list_all is_digit ds then Some (if neg then - exp_val ds else exp_val ds) else None
          else None)"

definition pow10 :: "int \<Rightarrow> rat" where
  "pow10 e = (if 0 \<le> e then 10 ^ nat e else 1 / 10 ^ nat (- e))"

definition parse_float :: "string \<Rightarrow> f64 res" where
  "parse_float s =
     (case special_float s of Some v \<Rightarrow> Inr v
      | None \<Rightarrow>
          let (neg, r) = parse_sign s;
              (ip, r) = span_digits r;
              (fp, r) = (if starts_with ''.'' r then span_digits (tl r) else ([], r))
          in if ip @ fp = [] then Inl (Err ''invalid syntax'')
             else case parse_exp r of
               None \<Rightarrow> Inl (Err ''invalid syntax'')
             | Some e \<Rightarrow>
                 let q = of_nat (dec_val (ip @ fp)) * pow10 (e - int (length fp));
                     v = round_f64 neg (if neg then - q else q)
                 in (case v of Inf _ \<Rightarrow> Inl (Err ''value out of range'') | _ \<Rightarrow> Inr v))"

text \<open>An integer that a float64 holds is parsed exactly.\<close>

lemma span_digits_all: "list_all is_digit s \<Longrightarrow> span_digits s = (s, [])"
  by (simp add: span_digits_def list_all_iff takeWhile_eq_all_conv [THEN iffD2] dropWhile_eq_Nil_conv [THEN iffD2])

lemma parse_float_nat:
  assumes "n < 2 ^ 53"
  shows "parse_float (nat_dec n) = Inr (fint (int n))"
proof -
  obtain c cs where cs: "nat_dec n = c # cs" by (cases "nat_dec n") simp_all
  have c: "is_digit c" using nat_dec_digits [of n] cs by simp
  then have "lower_ascii (nat_dec n) = c # lower_ascii cs"
    by (auto simp: cs lower_ascii_def is_digit_def less_eq_char_def)
  then have "special_float (nat_dec n) = None"
    using c by (auto simp: special_float_def Let_def is_digit_def)
  moreover have "round_f64 False (of_nat n) = fint (int n)"
    using assms round_f64_int [of "int n" False] by (auto simp: fint_def)
  ultimately show ?thesis
    by (simp add: parse_float_def parse_sign_nat_dec span_digits_all nat_dec_digits parse_exp_def pow10_def
        starts_with_def fint_def)
qed

end
