(* ===== verification/Common_Model.thy ===== *)
theory Common_Model
  imports Common_Utils Go_Float
begin

text \<open>
  Package \<open>common/model\<close>: the data the modules exchange, with the accessor methods of the code. A
  pointer that may be nil is an option; reading through a nil pointer is a panic. The \<open>String\<close>
  methods, which only feed log lines, are left out.
\<close>

section \<open>Strategies, expressions and events\<close>

record template =
  tpl_Id :: int
  tpl_Name :: string
  tpl_ParentId :: int
  tpl_ActionId :: int
  tpl_Creator :: string

record strategy =
  st_Id :: int
  st_Metric :: string
  st_Tags :: tags
  st_Func :: string
  st_Operator :: string
  st_RightValue :: f64
  st_MaxStep :: int
  st_Priority :: int
  st_Note :: string
  st_Tpl :: "template option"
  st_UnionStrategyId :: int

record expression =
  ex_Id :: int
  ex_Metric :: string
  ex_Tags :: tags
  ex_Func :: string
  ex_Operator :: string
  ex_RightValue :: f64
  ex_MaxStep :: int
  ex_Priority :: int
  ex_Note :: string
  ex_ActionId :: int

record host_strategy =
  hs_Hostname :: string
  hs_Strategies :: "strategy list"

text \<open>An event refers to the other events of a combined alarm, so the type is recursive.\<close>

datatype event = Event
  (ev_Id: string)
  (ev_Strategy: "strategy option")
  (ev_Expression: "expression option")
  (ev_Status: string)
  (ev_Endpoint: string)
  (ev_LeftValue: f64)
  (ev_CurrentStep: int)
  (ev_EventTime: int)
  (ev_PushedTags: tags)
  (ev_EventChain: "event list")
  (ev_UnionTriggered: bool)

text \<open>Assignments to the fields of an event.\<close>

fun set_Status :: "string \<Rightarrow> event \<Rightarrow> event" where
  "set_Status x (Event i s e st ep lv cs et pt ec ut) = Event i s e x ep lv cs et pt ec ut"

fun set_CurrentStep :: "int \<Rightarrow> event \<Rightarrow> event" where
  "set_CurrentStep x (Event i s e st ep lv cs et pt ec ut) = Event i s e st ep lv x et pt ec ut"

fun set_EventChain :: "event list \<Rightarrow> event \<Rightarrow> event" where
  "set_EventChain x (Event i s e st ep lv cs et pt ec ut) = Event i s e st ep lv cs et pt x ut"

definition nil_deref :: "'a res" where
  "nil_deref = Inl (Panic ''nil pointer dereference'')"

definition ExpressionId :: "event \<Rightarrow> int" where
  "ExpressionId e = (case ev_Expression e of Some x \<Rightarrow> ex_Id x | None \<Rightarrow> 0)"

definition StrategyId :: "event \<Rightarrow> int" where
  "StrategyId e = (case ev_Strategy e of Some s \<Rightarrow> st_Id s | None \<Rightarrow> 0)"

definition Tpl :: "event \<Rightarrow> template option" where
  "Tpl e = (case ev_Strategy e of Some s \<Rightarrow> st_Tpl s | None \<Rightarrow> None)"

definition TplId :: "event \<Rightarrow> int res" where
  "TplId e =
     (case ev_Strategy e of
        Some s \<Rightarrow> (case st_Tpl s of Some t \<Rightarrow> Inr (tpl_Id t) | None \<Rightarrow> nil_deref)
      | None \<Rightarrow> Inr 0)"

definition ActionId :: "event \<Rightarrow> int res" where
  "ActionId e =
     (case ev_Expression e of
        Some x \<Rightarrow> Inr (ex_ActionId x)
      | None \<Rightarrow>
         (case ev_Strategy e of
            Some s \<Rightarrow> (case st_Tpl s of Some t \<Rightarrow> Inr (tpl_ActionId t) | None \<Rightarrow> nil_deref)
          | None \<Rightarrow> nil_deref))"

text \<open>The accessors that read the strategy if there is one and the expression otherwise.\<close>

definition by_rule :: "(strategy \<Rightarrow> 'a) \<Rightarrow> (expression \<Rightarrow> 'a) \<Rightarrow> event \<Rightarrow> 'a res" where
  "by_rule f g e =
     (case ev_Strategy e of
        Some s \<Rightarrow> Inr (f s)
      | None \<Rightarrow> (case ev_Expression e of Some x \<Rightarrow> Inr (g x) | None \<Rightarrow> nil_deref))"

definition Priority :: "event \<Rightarrow> int res" where
  "Priority e = by_rule st_Priority ex_Priority e"

definition Note :: "event \<Rightarrow> string res" where
  "Note e = by_rule st_Note ex_Note e"

definition RightValue :: "event \<Rightarrow> f64 res" where
  "RightValue e = by_rule st_RightValue ex_RightValue e"

definition Operator :: "event \<Rightarrow> string res" where
  "Operator e = by_rule st_Operator ex_Operator e"

definition Func :: "event \<Rightarrow> string res" where
  "Func e = by_rule st_Func ex_Func e"

definition MaxStep :: "event \<Rightarrow> int res" where
  "MaxStep e = by_rule st_MaxStep ex_MaxStep e"

fun chain_metrics :: "string \<Rightarrow> event list \<Rightarrow> string res" where
  "chain_metrics acc [] = Inr acc"
| "chain_metrics acc (e # es) =
     (case ev_Strategy e of
        Some s \<Rightarrow> chain_metrics (acc @ '','' @ st_Metric s) es
      | None \<Rightarrow> nil_deref)"

definition Metric :: "event \<Rightarrow> string res" where
  "Metric e =
     (case ev_Strategy e of
        Some s \<Rightarrow> chain_metrics (st_Metric s) (ev_EventChain e)
      | None \<Rightarrow> (case ev_Expression e of Some x \<Rightarrow> Inr (ex_Metric x) | None \<Rightarrow> nil_deref))"

definition Event_Counter :: "event \<Rightarrow> string res" where
  "Event_Counter e =
     bind_res (Metric e) (\<lambda>m. Inr (ev_Endpoint e @ ''/'' @ m @ '' '' @ SortedTags (ev_PushedTags e)))"

lemma set_event_simps [simp]:
  "ev_Id (set_Status x e) = ev_Id e" "ev_Status (set_Status x e) = x"
  "ev_CurrentStep (set_Status x e) = ev_CurrentStep e"
  "ev_EventTime (set_Status x e) = ev_EventTime e"
  "ev_Strategy (set_Status x e) = ev_Strategy e"
  "ev_Expression (set_Status x e) = ev_Expression e"
  "ev_EventChain (set_Status x e) = ev_EventChain e"
  "ev_Id (set_CurrentStep n e) = ev_Id e" "ev_Status (set_CurrentStep n e) = ev_Status e"
  "ev_CurrentStep (set_CurrentStep n e) = n"
  "ev_EventTime (set_CurrentStep n e) = ev_EventTime e"
  "ev_Strategy (set_CurrentStep n e) = ev_Strategy e"
  "ev_Expression (set_CurrentStep n e) = ev_Expression e"
  "ev_EventChain (set_CurrentStep n e) = ev_EventChain e"
  "ev_Id (set_EventChain c e) = ev_Id e" "ev_Status (set_EventChain c e) = ev_Status e"
  "ev_CurrentStep (set_EventChain c e) = ev_CurrentStep e"
  "ev_EventTime (set_EventChain c e) = ev_EventTime e"
  "ev_Strategy (set_EventChain c e) = ev_Strategy e"
  "ev_Expression (set_EventChain c e) = ev_Expression e"
  "ev_EventChain (set_EventChain c e) = c"
  by (cases e; simp)+

section \<open>Samples\<close>

record judge_item =
  ji_Endpoint :: string
  ji_Metric :: string
  ji_Value :: f64
  ji_Timestamp :: int
  ji_JudgeType :: string
  ji_Tags :: tags

definition JudgeItem_PrimaryKey :: "judge_item \<Rightarrow> string" where
  "JudgeItem_PrimaryKey it = Md5 (PK (ji_Endpoint it) (ji_Metric it) (ji_Tags it))"

record history_data =
  hd_Timestamp :: int
  hd_Value :: f64

text \<open>The value of a reported metric is an interface: what the decoders can put into it.\<close>

datatype any_value = VString string | VFloat f64 | VInt int | VOther

record metric_value =
  mv_Endpoint :: string
  mv_Metric :: string
  mv_Value :: any_value
  mv_Step :: int
  mv_Type :: string
  mv_Tags :: string
  mv_Timestamp :: int

record meta_data =
  md_Metric :: string
  md_Endpoint :: string
  md_Timestamp :: int
  md_Step :: int
  md_Value :: f64
  md_CounterType :: string
  md_Tags :: tags

definition MetaData_PK :: "meta_data \<Rightarrow> string" where
  "MetaData_PK t = PK (md_Endpoint t) (md_Metric t) (md_Tags t)"

record prome_meta_data =
  pr_FalconMetaData :: meta_data
  pr_Polys :: "string list"

record json_meta_data =
  jm_Metric :: string
  jm_Endpoint :: string
  jm_Timestamp :: int
  jm_Step :: int
  jm_Value :: any_value
  jm_CounterType :: string
  jm_Tags :: string

record graph_item =
  gi_Endpoint :: string
  gi_Metric :: string
  gi_Tags :: tags
  gi_Value :: f64
  gi_Timestamp :: int
  gi_DsType :: string
  gi_Step :: int
  gi_Heartbeat :: int
  gi_Min :: string
  gi_Max :: string

definition GraphItem_PrimaryKey :: "graph_item \<Rightarrow> string" where
  "GraphItem_PrimaryKey it = PK (gi_Endpoint it) (gi_Metric it) (gi_Tags it)"

definition GraphItem_Checksum :: "graph_item \<Rightarrow> string" where
  "GraphItem_Checksum t = Checksum (gi_Endpoint t) (gi_Metric t) (gi_Tags t)"

definition GraphItem_UUID :: "graph_item \<Rightarrow> string" where
  "GraphItem_UUID it = UUID (gi_Endpoint it) (gi_Metric it) (gi_Tags it) (gi_DsType it) (gi_Step it)"

record tsdb_item =
  ts_Metric :: string
  ts_Tags :: tags
  ts_Value :: f64
  ts_Timestamp :: int

record poly_request =
  pq_PolyName :: string
  pq_EndPoint :: string
  pq_Type :: string
  pq_Value :: f64

record kafka_data =
  kd_Endpoint :: string
  kd_Timestamp :: int
  kd_MetricValue :: "(string, f64) gomap"

section \<open>Graph queries\<close>

record rrd_data =
  rd_Timestamp :: int
  rd_Value :: f64

definition NewRRDData :: "int \<Rightarrow> f64 \<Rightarrow> rrd_data" where
  "NewRRDData t v = \<lparr>rd_Timestamp = t, rd_Value = v\<rparr>"

record graph_query_param =
  qp_Start :: int
  qp_End :: int
  qp_ConsolFun :: string
  qp_Endpoint :: string
  qp_Counter :: string
  qp_Step :: int

record graph_query_response =
  qr_Endpoint :: string
  qr_Counter :: string
  qr_DsType :: string
  qr_Step :: int
  qr_Values :: "rrd_data list"

record graph_delete_param =
  dp_Endpoint :: string
  dp_Metric :: string
  dp_Step :: int
  dp_DsType :: string
  dp_Tags :: string

record graph_info_resp =
  ir_ConsolFun :: string
  ir_Step :: int
  ir_Filename :: string

record graph_last_param =
  lp_Endpoint :: string
  lp_Counter :: string

record graph_last_resp =
  lr_Endpoint :: string
  lr_Counter :: string
  lr_Value :: "rrd_data option" \<comment> \<open>a pointer\<close>

record transfer_response =
  tr_Message :: string
  tr_Total :: int
  tr_Invalid :: int
  tr_Latency :: int

section \<open>Nodata\<close>

record nodata_config =
  nc_Id :: int
  nc_Name :: string
  nc_ObjType :: string
  nc_Endpoint :: string
  nc_Metric :: string
  nc_Tags :: tags
  nc_Type :: string
  nc_Step :: int
  nc_Mock :: f64

definition NewNodataConfig ::
  "int \<Rightarrow> string \<Rightarrow> string \<Rightarrow> string \<Rightarrow> string \<Rightarrow> tags \<Rightarrow> string \<Rightarrow> int \<Rightarrow> f64 \<Rightarrow> nodata_config" where
  "NewNodataConfig i name objType endpoint metric tags dstype step mock =
     \<lparr>nc_Id = i, nc_Name = name, nc_ObjType = objType, nc_Endpoint = endpoint, nc_Metric = metric,
      nc_Tags = tags, nc_Type = dstype, nc_Step = step, nc_Mock = mock\<rparr>"

end
