(* ===== verification/Judge_List.thy ===== *)
theory Judge_List
  imports Common_Model
begin

text \<open>
  The per-series history of the judge (\<open>modules/judge/store/linkedlist.go\<close>): a list of samples,
  front first, the newest sample at the front. \<open>HistoryData\<close> turns it into the window a judging
  function reads, as values for a gauge and as per-second rates for any other type.
\<close>

section \<open>Time lines\<close>

text \<open>
  Judge, graph and the history cache all keep lists whose time stamps strictly decrease from the
  front: the contract of a component that accepts a sample only if it is newer than the front.
\<close>

locale timeline =
  fixes stamp :: "'a \<Rightarrow> int"
    and push :: "'a \<Rightarrow> 'a list \<Rightarrow> 'a list"
  assumes push_cases: "push v l = l \<or>
      ((l = [] \<or> stamp (hd l) < stamp v) \<and> (\<exists>n. push v l = take n (v # l)))"
begin

abbreviation newest_first :: "'a list \<Rightarrow> bool" where
  "newest_first \<equiv> sorted_wrt (\<lambda>a b. stamp b < stamp a)"

lemma newest_first_hd: "newest_first l \<Longrightarrow> x \<in> set l \<Longrightarrow> stamp x \<le> stamp (hd l)"
  by (cases l) auto

lemma push_newest_first:
  assumes "newest_first l"
  shows "newest_first (push v l)"
proof (cases "push v l = l")
  case False
  then obtain n where n: "l = [] \<or> stamp (hd l) < stamp v" "push v l = take n (v # l)"
    using push_cases [of v l] by blast
  have "newest_first (v # l)"
    using n(1) assms newest_first_hd [OF assms] by (auto intro: le_less_trans)
  with n(2) show ?thesis
    by (metis append_take_drop_id sorted_wrt_append)
qed (simp add: assms)

lemma push_all_newest_first: "newest_first l \<Longrightarrow> newest_first (foldl (\<lambda>a v. push v a) l vs)"
  by (induction vs arbitrary: l) (simp_all add: push_newest_first)

lemma push_set: "set (push v l) \<subseteq> insert v (set l)"
  using push_cases [of v l] set_take_subset by fastforce

lemma push_all_set: "set (foldl (\<lambda>a v. push v a) l vs) \<subseteq> set l \<union> set vs"
proof (induction vs arbitrary: l)
  case (Cons v vs)
  then show ?case using push_set [of v l] Cons.IH [of "push v l"] by auto
qed simp

lemma newest_first_distinct: "newest_first l \<Longrightarrow> distinct (map stamp l)"
  by (induction l) auto

end

section \<open>The judge's list\<close>

text \<open>\<open>this.L.Remove(this.L.Back())\<close>: removing from an empty list dereferences nil.\<close>

fun remove_back :: "nat \<Rightarrow> 'a list \<Rightarrow> 'a list res" where
  "remove_back 0 l = Inr l"
| "remove_back (Suc n) l = (if l = [] then nil_deref else remove_back n (butlast l))"

definition PushFrontAndMaintain :: "judge_item \<Rightarrow> int \<Rightarrow> judge_item list \<Rightarrow> (bool \<times> judge_item list) res" where
  "PushFrontAndMaintain v maxCount l =
     (let sz = int (length l) in
      if 0 < sz \<and> (ji_Timestamp v \<le> ji_Timestamp (hd l) \<or> ji_Timestamp v \<le> 0) then Inr (False, l)
      else let l' = v # l; sz' = sz + 1 in
        if sz' \<le> maxCount then Inr (True, l')
        else bind_res (remove_back (nat (sz' - maxCount)) l') (\<lambda>l''. Inr (True, l'')))"

definition ToSlice :: "judge_item list \<Rightarrow> judge_item list" where
  "ToSlice l = l"

text \<open>The two loops of \<open>HistoryData\<close>: values of a gauge, rates between neighbours otherwise.\<close>

fun gauge_points :: "nat \<Rightarrow> judge_item list \<Rightarrow> history_data list" where
  "gauge_points 0 l = []"
| "gauge_points n [] = []"
| "gauge_points (Suc n) (x # l) =
     \<lparr>hd_Timestamp = ji_Timestamp x, hd_Value = ji_Value x\<rparr> # gauge_points n l"

fun counter_points :: "nat \<Rightarrow> judge_item list \<Rightarrow> history_data list" where
  "counter_points (Suc n) (x # y # l) =
     (let diffVal = ji_Value x - ji_Value y; diffTs = ji_Timestamp x - ji_Timestamp y
      in \<lparr>hd_Timestamp = ji_Timestamp x, hd_Value = fdiv diffVal (f64_of_int diffTs)\<rparr>
         # counter_points n (y # l))"
| "counter_points _ _ = []"

text \<open>
  The panic of \<open>firstItem.JudgeType[0]\<close> on an empty type is recovered by the deferred handler,
  which leaves the zero results.
\<close>

definition HistoryData :: "judge_item list \<Rightarrow> int \<Rightarrow> history_data list \<times> bool" where
  "HistoryData l limit =
     (if limit < 1 then ([], False)
      else if l = [] then ([], False)
      else let size = int (length l); judgeType = ji_JudgeType (hd l) in
        if judgeType = [] then ([], False)
        else if hd judgeType = CHR ''G'' \<or> hd judgeType = CHR ''g'' then
          (let isEnough = \<not> size < limit; lim = (if size < limit then size else limit)
           in (gauge_points (nat lim) l, isEnough))
        else
          (let isEnough = \<not> size < limit + 1; lim = (if size < limit + 1 then size - 1 else limit)
           in (counter_points (nat lim) l, isEnough)))"

section \<open>Facts\<close>

lemma remove_back_take: "n \<le> length l \<Longrightarrow> remove_back n l = Inr (take (length l - n) l)"
proof (induction n arbitrary: l)
  case (Suc n)
  then have "l \<noteq> []" "n \<le> length (butlast l)" by auto
  then show ?case using Suc.IH [of "butlast l"] by (simp add: butlast_conv_take min_def)
qed simp

lemma remove_back_panic: "length l < n \<Longrightarrow> remove_back n l = nil_deref"
proof (induction n arbitrary: l)
  case (Suc n)
  then show ?case by (cases l rule: rev_cases) simp_all
qed simp

lemma PushFrontAndMaintain_ok:
  assumes "0 \<le> maxCount"
  shows "PushFrontAndMaintain v maxCount l =
    (if l \<noteq> [] \<and> (ji_Timestamp v \<le> ji_Timestamp (hd l) \<or> ji_Timestamp v \<le> 0) then Inr (False, l)
     else Inr (True, take (nat maxCount) (v # l)))"
proof -
  have drop_old: "remove_back (nat (int (length l) + 1 - maxCount)) (v # l) = Inr (take (nat maxCount) (v # l))"
    if "\<not> int (length l) + 1 \<le> maxCount"
  proof -
    have "nat (int (length l) + 1 - maxCount) \<le> length (v # l)" using assms by auto
    moreover have "length (v # l) - nat (int (length l) + 1 - maxCount) = nat maxCount"
      using assms that by auto
    ultimately show ?thesis using remove_back_take by metis
  qed
  have keep: "take (nat maxCount) (v # l) = v # l" if "int (length l) + 1 \<le> maxCount"
    using that by simp
  show ?thesis
    using drop_old keep by (cases l) (auto simp: PushFrontAndMaintain_def Let_def)
qed

definition judge_push :: "int \<Rightarrow> judge_item \<Rightarrow> judge_item list \<Rightarrow> judge_item list" where
  "judge_push maxCount v l = (case PushFrontAndMaintain v maxCount l of Inr (b, l') \<Rightarrow> l' | Inl e \<Rightarrow> l)"

lemma PushFrontAndMaintain_neg:
  assumes "maxCount < 0"
  shows "PushFrontAndMaintain v maxCount l =
    (if l \<noteq> [] \<and> (ji_Timestamp v \<le> ji_Timestamp (hd l) \<or> ji_Timestamp v \<le> 0) then Inr (False, l)
     else nil_deref)"
proof -
  have "remove_back (nat (int (length l) + 1 - maxCount)) (v # l) = nil_deref"
    using assms by (intro remove_back_panic) auto
  then show ?thesis
    using assms by (cases l) (auto simp: PushFrontAndMaintain_def Let_def nil_deref_def)
qed

lemma judge_push_eq:
  "judge_push maxCount v l =
    (if maxCount < 0 \<or> l \<noteq> [] \<and> (ji_Timestamp v \<le> ji_Timestamp (hd l) \<or> ji_Timestamp v \<le> 0) then l
     else take (nat maxCount) (v # l))"
  by (cases "maxCount < 0")
     (simp_all add: judge_push_def PushFrontAndMaintain_ok PushFrontAndMaintain_neg nil_deref_def)

interpretation jl: timeline ji_Timestamp "judge_push maxCount" for maxCount
  by unfold_locales (auto simp: judge_push_eq)

abbreviation newest_first :: "judge_item list \<Rightarrow> bool" where
  "newest_first \<equiv> sorted_wrt (\<lambda>a b. ji_Timestamp b < ji_Timestamp a)"

lemma length_gauge_points [simp]: "length (gauge_points n l) = min n (length l)"
  by (induction n l rule: gauge_points.induct) auto

lemma length_counter_points [simp]: "length (counter_points n l) = min n (length l - 1)"
  by (induction n l rule: counter_points.induct) (auto simp: Let_def)

lemma gauge_points_take: "n \<le> m \<Longrightarrow> gauge_points n (take m l) = gauge_points n l"
proof (induction n l arbitrary: m rule: gauge_points.induct)
  case (3 n x l)
  then show ?case by (cases m) auto
qed auto

lemma counter_points_take: "n < m \<Longrightarrow> counter_points n (take m l) = counter_points n l"
proof (induction n l arbitrary: m rule: counter_points.induct)
  case (1 n x y l)
  then obtain m' where "m = Suc (Suc m')" by (metis Suc_lessE less_Suc_eq_0_disj not_less_eq)
  then show ?case using "1.IH" [OF refl refl, of "Suc m'"] 1 by (auto simp: Let_def)
next
  case "2_3"
  then show ?case by (cases m) (auto split: list.splits)
qed auto

lemma HistoryData_length: "HistoryData l limit = (vs, True) \<Longrightarrow> int (length vs) = limit \<and> 1 \<le> limit"
  by (auto simp: HistoryData_def Let_def split: if_splits)

lemma HistoryData_enough_nonempty: "HistoryData l limit = (vs, True) \<Longrightarrow> vs \<noteq> []"
  using HistoryData_length [of l limit vs] by auto

end
