(* ===== verification/Judge_Func.thy ===== *)
theory Judge_Func
  imports Judge_List
begin

text \<open>
  The judging functions of the judge (\<open>modules/judge/store/func.go\<close>): the parser of rules such as
  \<open>all(#3)\<close>, the eight window functions and the comparison with the threshold.
\<close>

section \<open>Definitions\<close>

definition checkIsTriggered :: "f64 \<Rightarrow> string \<Rightarrow> f64 \<Rightarrow> bool" where
  "checkIsTriggered leftValue operator rightValue =
     (if operator = ''='' \<or> operator = ''=='' then fabs (leftValue - rightValue) < flit (1 / 10000)
      else if operator = ''!='' then flit (1 / 10000) < fabs (leftValue - rightValue)
      else if operator = ''<'' then leftValue < rightValue
      else if operator = ''<='' then leftValue \<le> rightValue
      else if operator = ''>'' then rightValue < leftValue
      else if operator = ''>='' then rightValue \<le> leftValue
      else False)"

text \<open>The structs that implement the interface \<open>Function\<close>.\<close>

datatype judge_func =
    MaxFunction int string f64
  | MinFunction int string f64
  | AllFunction int string f64
  | LookupFunction int int string f64 \<comment> \<open>Num, Limit\<close>
  | SumFunction int string f64
  | AvgFunction int string f64
  | DiffFunction int string f64
  | PDiffFunction int string f64

text \<open>The result of \<open>Compute\<close>: vs, leftValue, isTriggered, isEnough.\<close>

type_synonym computed = "history_data list \<times> f64 \<times> bool \<times> bool"

definition max_loop :: "f64 \<Rightarrow> history_data list \<Rightarrow> f64" where
  "max_loop m vs = foldl (\<lambda>m v. if m < hd_Value v then hd_Value v else m) m vs"

definition min_loop :: "f64 \<Rightarrow> history_data list \<Rightarrow> f64" where
  "min_loop m vs = foldl (\<lambda>m v. if hd_Value v < m then hd_Value v else m) m vs"

definition sum_loop :: "history_data list \<Rightarrow> f64" where
  "sum_loop vs = foldl (\<lambda>s v. s + hd_Value v) 0 vs"

fun all_loop :: "string \<Rightarrow> f64 \<Rightarrow> bool \<Rightarrow> history_data list \<Rightarrow> bool" where
  "all_loop op rv t [] = t"
| "all_loop op rv t (v # vs) =
     (let t' = checkIsTriggered (hd_Value v) op rv in if \<not> t' then t' else all_loop op rv t' vs)"

fun lookup_loop :: "int \<Rightarrow> int \<Rightarrow> string \<Rightarrow> f64 \<Rightarrow> history_data list \<Rightarrow> bool" where
  "lookup_loop n num op rv [] = False"
| "lookup_loop n num op rv (v # vs) =
     (if checkIsTriggered (hd_Value v) op rv
      then if n + 1 = num then True else lookup_loop (n + 1) num op rv vs
      else lookup_loop n num op rv vs)"

fun diff_loop :: "f64 \<Rightarrow> string \<Rightarrow> f64 \<Rightarrow> f64 \<times> bool \<Rightarrow> history_data list \<Rightarrow> f64 \<times> bool" where
  "diff_loop first op rv acc [] = acc"
| "diff_loop first op rv acc (v # vs) =
     (let lv = first - hd_Value v; t = checkIsTriggered lv op rv
      in if t then (lv, t) else diff_loop first op rv (lv, t) vs)"

fun pdiff_loop :: "f64 \<Rightarrow> string \<Rightarrow> f64 \<Rightarrow> f64 \<times> bool \<Rightarrow> history_data list \<Rightarrow> f64 \<times> bool" where
  "pdiff_loop first op rv acc [] = acc"
| "pdiff_loop first op rv acc (v # vs) =
     (if feq (hd_Value v) 0 then pdiff_loop first op rv acc vs
      else let lv = fdiv (first - hd_Value v) (hd_Value v) * flit 100; t = checkIsTriggered lv op rv
           in if t then (lv, t) else pdiff_loop first op rv (lv, t) vs)"

definition not_enough :: "history_data list \<Rightarrow> computed" where
  "not_enough vs = (vs, 0, False, False)"

fun Compute :: "judge_func \<Rightarrow> judge_item list \<Rightarrow> computed" where
  "Compute (MaxFunction limit op rv) L =
     (let (vs, isEnough) = HistoryData L limit in
      if \<not> isEnough then not_enough vs
      else let lv = max_loop (hd_Value (hd vs)) (tl vs)
           in (vs, lv, checkIsTriggered lv op rv, isEnough))"
| "Compute (MinFunction limit op rv) L =
     (let (vs, isEnough) = HistoryData L limit in
      if \<not> isEnough then not_enough vs
      else let lv = min_loop (hd_Value (hd vs)) (tl vs)
           in (vs, lv, checkIsTriggered lv op rv, isEnough))"
| "Compute (AllFunction limit op rv) L =
     (let (vs, isEnough) = HistoryData L limit in
      if \<not> isEnough then not_enough vs
      else (vs, hd_Value (hd vs), all_loop op rv True vs, isEnough))"
| "Compute (LookupFunction num limit op rv) L =
     (let (vs, isEnough) = HistoryData L limit in
      if \<not> isEnough then not_enough vs
      else (vs, hd_Value (hd vs), lookup_loop 0 num op rv vs, isEnough))"
| "Compute (SumFunction limit op rv) L =
     (let (vs, isEnough) = HistoryData L limit in
      if \<not> isEnough then not_enough vs
      else let lv = sum_loop vs in (vs, lv, checkIsTriggered lv op rv, isEnough))"
| "Compute (AvgFunction limit op rv) L =
     (let (vs, isEnough) = HistoryData L limit in
      if \<not> isEnough then not_enough vs
      else let lv = fdiv (sum_loop vs) (f64_of_int limit)
           in (vs, lv, checkIsTriggered lv op rv, isEnough))"
| "Compute (DiffFunction limit op rv) L =
     (let (vs, isEnough) = HistoryData L (i64 (limit + 1)) in
      if \<not> isEnough then not_enough vs
      else if vs = [] then not_enough vs
      else let (lv, t) = diff_loop (hd_Value (hd vs)) op rv (0, False) (tl vs)
           in (vs, lv, t, isEnough))"
| "Compute (PDiffFunction limit op rv) L =
     (let (vs, isEnough) = HistoryData L (i64 (limit + 1)) in
      if \<not> isEnough then not_enough vs
      else if vs = [] then not_enough vs
      else let (lv, t) = pdiff_loop (hd_Value (hd vs)) op rv (0, False) (tl vs)
           in (vs, lv, t, isEnough))"

text \<open>\<open>atois\<close>: the error of the first part that is no number.\<close>

fun atois_loop :: "string list \<Rightarrow> int list res" where
  "atois_loop [] = Inr []"
| "atois_loop (v # vs) = bind_res (atoi v) (\<lambda>i. bind_res (atois_loop vs) (\<lambda>is. Inr (i # is)))"

definition atois :: "string \<Rightarrow> int list res" where
  "atois s = atois_loop (split (CHR '','') s)"

definition arg :: "int list \<Rightarrow> nat \<Rightarrow> int res" where
  "arg args i = (if i < length args then Inr (args ! i) else Inl (Panic ''index out of range''))"

text \<open>The switch on the name of the function.\<close>

definition func_of_name :: "string \<Rightarrow> int list \<Rightarrow> string \<Rightarrow> f64 \<Rightarrow> judge_func res" where
  "func_of_name name args operator rightValue =
     (if name = ''max'' then bind_res (arg args 0) (\<lambda>n. Inr (MaxFunction n operator rightValue))
      else if name = ''min'' then bind_res (arg args 0) (\<lambda>n. Inr (MinFunction n operator rightValue))
      else if name = ''all'' then bind_res (arg args 0) (\<lambda>n. Inr (AllFunction n operator rightValue))
      else if name = ''sum'' then bind_res (arg args 0) (\<lambda>n. Inr (SumFunction n operator rightValue))
      else if name = ''avg'' then bind_res (arg args 0) (\<lambda>n. Inr (AvgFunction n operator rightValue))
      else if name = ''diff'' then bind_res (arg args 0) (\<lambda>n. Inr (DiffFunction n operator rightValue))
      else if name = ''pdiff'' then bind_res (arg args 0) (\<lambda>n. Inr (PDiffFunction n operator rightValue))
      else if name = ''lookup'' then
        bind_res (arg args 0) (\<lambda>n. bind_res (arg args 1) (\<lambda>l.
          Inr (LookupFunction n l operator rightValue)))
      else Inl (Err ''not_supported_method''))"

definition ParseFuncFromString :: "string \<Rightarrow> string \<Rightarrow> f64 \<Rightarrow> judge_func res" where
  "ParseFuncFromString str operator rightValue =
     (if str = [] then Inl (Err ''func can not be null!'')
      else let idx = index_of (CHR ''#'') str in
        bind_res (slice str (idx + 1) (int (length str) - 1)) (\<lambda>argStr.
        bind_res (atois argStr) (\<lambda>args.
        bind_res (slice str 0 (idx - 1)) (\<lambda>name. func_of_name name args operator rightValue))))"

section \<open>What the loops compute\<close>

lemma all_loop_iff: "all_loop op rv True vs \<longleftrightarrow> (\<forall>v \<in> set vs. checkIsTriggered (hd_Value v) op rv)"
  by (induction vs) (auto simp: Let_def)

definition hits :: "string \<Rightarrow> f64 \<Rightarrow> history_data list \<Rightarrow> nat" where
  "hits op rv vs = length (filter (\<lambda>v. checkIsTriggered (hd_Value v) op rv) vs)"

lemma lookup_loop_iff:
  "0 \<le> n \<Longrightarrow> lookup_loop n num op rv vs \<longleftrightarrow> n < num \<and> num \<le> n + int (hits op rv vs)"
  by (induction n num op rv vs rule: lookup_loop.induct) (auto simp: hits_def)

lemma diff_loop_iff:
  "snd (diff_loop first op rv acc vs) \<longleftrightarrow>
     (if vs = [] then snd acc else (\<exists>v \<in> set vs. checkIsTriggered (first - hd_Value v) op rv))"
  by (induction first op rv acc vs rule: diff_loop.induct) (auto simp: Let_def)

definition pct :: "f64 \<Rightarrow> f64 \<Rightarrow> f64" where
  "pct first v = fdiv (first - v) v * flit 100"

lemma pdiff_loop_iff:
  "\<not> snd acc \<Longrightarrow> snd (pdiff_loop first op rv acc vs) \<longleftrightarrow>
     (\<exists>v \<in> set vs. \<not> feq (hd_Value v) 0 \<and> checkIsTriggered (pct first (hd_Value v)) op rv)"
  by (induction first op rv acc vs rule: pdiff_loop.induct) (auto simp: Let_def pct_def)

lemma max_loop_upper:
  "\<not> is_nan m \<Longrightarrow> \<forall>v \<in> set vs. \<not> is_nan (hd_Value v) \<Longrightarrow>
   m \<le> max_loop m vs \<and> (\<forall>v \<in> set vs. hd_Value v \<le> max_loop m vs)
   \<and> max_loop m vs \<in> insert m (hd_Value ` set vs)"
proof (induction vs arbitrary: m)
  case (Cons v vs)
  let ?r = "max_loop m (v # vs)"
  have step: "max_loop m (v # vs) = max_loop (if m < hd_Value v then hd_Value v else m) vs"
    by (simp add: max_loop_def)
  have ih: "(if m < hd_Value v then hd_Value v else m) \<le> max_loop m (v # vs)
      \<and> (\<forall>u \<in> set vs. hd_Value u \<le> max_loop m (v # vs))
      \<and> max_loop m (v # vs) \<in> insert (if m < hd_Value v then hd_Value v else m) (hd_Value ` set vs)"
    unfolding step using Cons.prems by (intro Cons.IH) auto
  show ?case
  proof (cases "m < hd_Value v")
    case True
    then have "hd_Value v \<le> ?r" "?r \<in> insert (hd_Value v) (hd_Value ` set vs)" using ih by simp_all
    moreover have "m \<le> ?r"
      by (rule f64_le_trans [OF f64_less_imp_le [OF True]]) fact
    ultimately show ?thesis using ih by simp
  next
    case False
    then have "hd_Value v \<le> m" using Cons.prems f64_not_less by auto
    moreover have "m \<le> ?r" "?r \<in> insert m (hd_Value ` set vs)" using ih False by simp_all
    moreover have "hd_Value v \<le> ?r"
      by (rule f64_le_trans) fact+
    ultimately show ?thesis using ih by auto
  qed
qed (auto simp: max_loop_def f64_le_refl)

lemma min_loop_lower:
  "\<not> is_nan m \<Longrightarrow> \<forall>v \<in> set vs. \<not> is_nan (hd_Value v) \<Longrightarrow>
   min_loop m vs \<le> m \<and> (\<forall>v \<in> set vs. min_loop m vs \<le> hd_Value v)
   \<and> min_loop m vs \<in> insert m (hd_Value ` set vs)"
proof (induction vs arbitrary: m)
  case (Cons v vs)
  let ?r = "min_loop m (v # vs)"
  have step: "min_loop m (v # vs) = min_loop (if hd_Value v < m then hd_Value v else m) vs"
    by (simp add: min_loop_def)
  have ih: "min_loop m (v # vs) \<le> (if hd_Value v < m then hd_Value v else m)
      \<and> (\<forall>u \<in> set vs. min_loop m (v # vs) \<le> hd_Value u)
      \<and> min_loop m (v # vs) \<in> insert (if hd_Value v < m then hd_Value v else m) (hd_Value ` set vs)"
    unfolding step using Cons.prems by (intro Cons.IH) auto
  show ?case
  proof (cases "hd_Value v < m")
    case True
    then have "?r \<le> hd_Value v" "?r \<in> insert (hd_Value v) (hd_Value ` set vs)" using ih by simp_all
    moreover have "?r \<le> m"
      by (rule f64_le_trans [OF _ f64_less_imp_le [OF True]]) fact
    ultimately show ?thesis using ih by simp
  next
    case False
    then have "m \<le> hd_Value v" using Cons.prems f64_not_less by auto
    moreover have "?r \<le> m" "?r \<in> insert m (hd_Value ` set vs)" using ih False by simp_all
    moreover have "?r \<le> hd_Value v"
      by (rule f64_le_trans) fact+
    ultimately show ?thesis using ih by auto
  qed
qed (auto simp: min_loop_def f64_le_refl)

lemma sum_loop_exact:
  assumes "map hd_Value vs = map fint ks" "\<forall>n \<le> length ks. \<bar>sum_list (take n ks)\<bar> < 2 ^ 53"
  shows "sum_loop vs = fint (sum_list ks)"
proof -
  have "foldl (\<lambda>s v. s + hd_Value v) (fint a) vs = fint (a + sum_list ks)"
    if "map hd_Value vs = map fint ks" "\<forall>n \<le> length ks. \<bar>a + sum_list (take n ks)\<bar> < 2 ^ 53" for a
    using that
  proof (induction vs arbitrary: ks a)
    case (Cons v vs)
    then obtain k ks' where ks: "ks = k # ks'" "hd_Value v = fint k" "map hd_Value vs = map fint ks'"
      by (cases ks) auto
    have k: "\<bar>a + k\<bar> < 2 ^ 53"
      using Cons.prems(2) ks(1) by (auto dest: spec [of _ "Suc 0"])
    have "\<bar>(a + k) + sum_list (take n ks')\<bar> < 2 ^ 53" if "n \<le> length ks'" for n
      using Cons.prems(2) [rule_format, of "Suc n"] ks(1) that by (simp add: add.assoc)
    then have "foldl (\<lambda>s v. s + hd_Value v) (fint (a + k)) vs = fint (a + k + sum_list ks')"
      using Cons.IH [of ks' "a + k"] ks(3) by simp
    then show ?case using ks k by (simp add: fint_add add.assoc)
  qed simp
  from this [of 0] assms show ?thesis
    by (simp add: sum_loop_def fint_def zero_f64_def)
qed

section \<open>The interface \<open>Function\<close>\<close>

text \<open>
  What the judge relies on, whatever the function: an enough window has at least one point, and the
  result is determined by the newest \<open>need\<close> samples, so that older samples may be dropped.
\<close>

locale judge_function =
  fixes compute :: "judge_item list \<Rightarrow> computed"
    and need :: nat
  assumes enough_window: "compute L = (vs, lv, t, True) \<Longrightarrow> vs \<noteq> []"
    and not_enough_quiet: "compute L = (vs, lv, t, False) \<Longrightarrow> \<not> t"
    and window: "need \<le> n \<Longrightarrow> snd (snd (snd (compute L))) \<Longrightarrow> compute (take n L) = compute L"
    and short: "need \<le> n \<Longrightarrow> snd (snd (snd (compute (take n L)))) \<Longrightarrow> compute (take n L) = compute L"
begin

lemma eviction_harmless: "need \<le> n \<Longrightarrow>
    snd (snd (snd (compute (take n L)))) = snd (snd (snd (compute L)))
    \<and> (snd (snd (snd (compute L))) \<longrightarrow> compute (take n L) = compute L)"
  using window short by metis

end

fun window_limit :: "judge_func \<Rightarrow> int" where
  "window_limit (MaxFunction l op rv) = l"
| "window_limit (MinFunction l op rv) = l"
| "window_limit (AllFunction l op rv) = l"
| "window_limit (LookupFunction n l op rv) = l"
| "window_limit (SumFunction l op rv) = l"
| "window_limit (AvgFunction l op rv) = l"
| "window_limit (DiffFunction l op rv) = i64 (l + 1)"
| "window_limit (PDiffFunction l op rv) = i64 (l + 1)"

definition needed :: "judge_func \<Rightarrow> nat" where
  "needed f = nat (window_limit f + 1)"

text \<open>Every function is a function of the window that \<open>HistoryData\<close> returns.\<close>

lemma Compute_window:
  "snd (HistoryData L (window_limit f)) = snd (HistoryData L' (window_limit f)) \<Longrightarrow>
   (snd (HistoryData L (window_limit f)) \<Longrightarrow> HistoryData L (window_limit f) = HistoryData L' (window_limit f)) \<Longrightarrow>
   snd (snd (snd (Compute f L))) = snd (snd (snd (Compute f L')))
   \<and> (snd (snd (snd (Compute f L))) \<longrightarrow> Compute f L = Compute f L')"
  by (cases f; cases "HistoryData L (window_limit f)"; cases "HistoryData L' (window_limit f)")
     (auto simp: not_enough_def Let_def split: prod.splits)

lemma HistoryData_take:
  assumes "limit < int n"
  shows "snd (HistoryData (take n L) limit) = snd (HistoryData L limit)
    \<and> (snd (HistoryData L limit) \<longrightarrow> HistoryData (take n L) limit = HistoryData L limit)"
proof (cases "limit < 1 \<or> L = []")
  case True
  then show ?thesis by (auto simp: HistoryData_def)
next
  case False
  then have n: "0 < n" "take n L \<noteq> []" "hd (take n L) = hd L" using assms by (auto simp: hd_take)
  have sz: "int (length (take n L)) < limit \<longleftrightarrow> int (length L) < limit"
    "int (length (take n L)) \<le> limit \<longleftrightarrow> int (length L) \<le> limit"
    using assms by auto
  have g: "gauge_points (nat limit) (take n L) = gauge_points (nat limit) L"
    "counter_points (nat limit) (take n L) = counter_points (nat limit) L"
    using assms n(1) by (auto intro!: gauge_points_take counter_points_take)
  show ?thesis
    using False n by (simp add: HistoryData_def Let_def sz g del: length_take)
qed

lemma Compute_take_aux: "a = b \<and> (a \<longrightarrow> x = y) \<Longrightarrow> a = b \<and> (b \<longrightarrow> x = y)"
  by blast

lemma Compute_take:
  assumes "needed f \<le> n"
  shows "snd (snd (snd (Compute f (take n L)))) = snd (snd (snd (Compute f L)))
    \<and> (snd (snd (snd (Compute f L))) \<longrightarrow> Compute f (take n L) = Compute f L)"
proof (cases "window_limit f < int n")
  case True
  note h = HistoryData_take [OF True, of L]
  have same: "HistoryData (take n L) (window_limit f) = HistoryData L (window_limit f)"
    if "snd (HistoryData (take n L) (window_limit f))"
    using that h by blast
  from Compute_window [OF h [THEN conjunct1] same] show ?thesis by (rule Compute_take_aux)
next
  case False
  then have "window_limit f = 0 \<and> n = 0 \<or> window_limit f < 0" using assms by (auto simp: needed_def)
  then have "window_limit f < 1" by auto
  then have "HistoryData M (window_limit f) = ([], False)" for M
    by (simp add: HistoryData_def)
  then show ?thesis by (intro Compute_take_aux [OF Compute_window]) simp_all
qed

lemma Compute_enough:
  "Compute f L = (vs, lv, t, True) \<Longrightarrow> HistoryData L (window_limit f) = (vs, True)"
  by (cases f) (auto simp: not_enough_def Let_def split: prod.splits if_splits)

lemma Compute_not_enough: "Compute f L = (vs, lv, t, False) \<Longrightarrow> \<not> t"
  by (cases f) (auto simp: not_enough_def Let_def split: prod.splits if_splits)

interpretation jf: judge_function "Compute f" "needed f" for f
proof
  show "vs \<noteq> []" if "Compute f L = (vs, lv, t, True)" for f L vs lv t
    using Compute_enough [OF that] by (rule HistoryData_enough_nonempty)
qed (use Compute_not_enough Compute_take in blast)+

section \<open>Rules as text\<close>

fun show_func :: "judge_func \<Rightarrow> string" where
  "show_func (MaxFunction l op rv) = ''max(#'' @ itoa l @ '')''"
| "show_func (MinFunction l op rv) = ''min(#'' @ itoa l @ '')''"
| "show_func (AllFunction l op rv) = ''all(#'' @ itoa l @ '')''"
| "show_func (LookupFunction n l op rv) = ''lookup(#'' @ itoa n @ '','' @ itoa l @ '')''"
| "show_func (SumFunction l op rv) = ''sum(#'' @ itoa l @ '')''"
| "show_func (AvgFunction l op rv) = ''avg(#'' @ itoa l @ '')''"
| "show_func (DiffFunction l op rv) = ''diff(#'' @ itoa l @ '')''"
| "show_func (PDiffFunction l op rv) = ''pdiff(#'' @ itoa l @ '')''"

fun func_args :: "judge_func \<Rightarrow> int list" where
  "func_args (LookupFunction n l op rv) = [n, l]"
| "func_args f = [window_limit f]"

fun func_op :: "judge_func \<Rightarrow> string \<times> f64" where
  "func_op (MaxFunction l op rv) = (op, rv)"
| "func_op (MinFunction l op rv) = (op, rv)"
| "func_op (AllFunction l op rv) = (op, rv)"
| "func_op (LookupFunction n l op rv) = (op, rv)"
| "func_op (SumFunction l op rv) = (op, rv)"
| "func_op (AvgFunction l op rv) = (op, rv)"
| "func_op (DiffFunction l op rv) = (op, rv)"
| "func_op (PDiffFunction l op rv) = (op, rv)"

fun func_limits_i64 :: "judge_func \<Rightarrow> bool" where
  "func_limits_i64 (LookupFunction n l op rv) = (in_i64 n \<and> in_i64 l)"
| "func_limits_i64 (MaxFunction l op rv) = in_i64 l"
| "func_limits_i64 (MinFunction l op rv) = in_i64 l"
| "func_limits_i64 (AllFunction l op rv) = in_i64 l"
| "func_limits_i64 (SumFunction l op rv) = in_i64 l"
| "func_limits_i64 (AvgFunction l op rv) = in_i64 l"
| "func_limits_i64 (DiffFunction l op rv) = in_i64 l"
| "func_limits_i64 (PDiffFunction l op rv) = in_i64 l"

lemma atoi_itoa: "in_i64 n \<Longrightarrow> atoi (itoa n) = Inr n"
  unfolding atoi_def by (rule parse_int_itoa) (simp_all add: in_i64_def)

lemma itoa_not_mem: "\<not> is_digit c \<Longrightarrow> c \<noteq> CHR ''-'' \<Longrightarrow> c \<notin> set (itoa i)"
  using itoa_chars by blast

lemma not_digit_punct [simp]: "\<not> is_digit (CHR '','')" "\<not> is_digit (CHR ''#'')"
    "\<not> is_digit (CHR '')'')"
  by (simp_all add: is_digit_def)

lemma atois_one: "in_i64 n \<Longrightarrow> atois (itoa n) = Inr [n]"
  by (simp add: atois_def split_no_sep itoa_not_mem atoi_itoa)

lemma atois_two: "in_i64 n \<Longrightarrow> in_i64 l \<Longrightarrow> atois (itoa n @ CHR '','' # itoa l) = Inr [n, l]"
  by (simp add: atois_def split_append split_no_sep itoa_not_mem atoi_itoa)

text \<open>The text \<open>name(#args)\<close> is cut at the hash sign into the name and the arguments.\<close>

lemma parse_cut:
  assumes "CHR ''#'' \<notin> set name"
  shows "ParseFuncFromString (name @ ''(#'' @ args @ '')'') op rv =
    bind_res (atois args) (\<lambda>is. func_of_name name is op rv)"
proof -
  let ?s = "name @ ''(#'' @ args @ '')''"
  have idx: "index_of (CHR ''#'') ?s = int (length name) + 1"
    using index_of_cut [of "CHR ''#''" "name @ ''(''" "args @ '')''"] assms by simp
  have "drop (length name + 2) ?s = args @ '')''"
    by simp
  then have "slice ?s (int (length name) + 1 + 1) (int (length ?s) - 1) = Inr args"
    by (simp add: slice_def nat_add_distrib)
  moreover have "slice ?s 0 (int (length name) + 1 - 1) = Inr name"
    by (simp add: slice_def)
  ultimately show ?thesis
    unfolding ParseFuncFromString_def idx Let_def by simp
qed

section \<open>Properties\<close>

text \<open>
  Every rule text the documentation allows, \<open>max(#n)\<close>, \<open>min(#n)\<close>, \<open>all(#n)\<close>, \<open>sum(#n)\<close>,
  \<open>avg(#n)\<close>, \<open>diff(#n)\<close>, \<open>pdiff(#n)\<close> and \<open>lookup(#m,n)\<close>, is parsed to the function it names,
  with the operator and the threshold of the strategy.
\<close>

theorem parse_show_func:
  assumes "func_limits_i64 f" "func_op f = (op, rv)"
  shows "ParseFuncFromString (show_func f) op rv = Inr f"
proof (cases f)
  case (LookupFunction n l op' rv')
  then show ?thesis
    using assms parse_cut [of "''lookup''" "itoa n @ '','' @ itoa l" op rv]
    by (simp add: atois_two func_of_name_def arg_def)
qed (use assms parse_cut [of "''max''" _ op rv] parse_cut [of "''min''" _ op rv]
       parse_cut [of "''all''" _ op rv] parse_cut [of "''sum''" _ op rv]
       parse_cut [of "''avg''" _ op rv] parse_cut [of "''diff''" _ op rv]
       parse_cut [of "''pdiff''" _ op rv] in \<open>simp add: atois_one func_of_name_def arg_def\<close>)+

theorem parse_show_func_witness:
  "ParseFuncFromString ''lookup(#2,3)'' ''>='' (fint 90) = Inr (LookupFunction 2 3 ''>='' (fint 90))"
proof -
  have shown: "show_func (LookupFunction 2 3 ''>='' (fint 90)) = ''lookup(#2,3)''"
    by code_simp
  have "ParseFuncFromString (show_func (LookupFunction 2 3 ''>='' (fint 90))) ''>='' (fint 90)
      = Inr (LookupFunction 2 3 ''>='' (fint 90))"
    by (rule parse_show_func) (simp_all add: in_i64_def)
  then show ?thesis by (simp only: shown)
qed

text \<open>
  A lookup rule with one argument, \<open>lookup(#n)\<close>, and a rule text that ends in its hash sign, has
  no hash sign or nothing before it do not come back as a parse error: they panic.
\<close>

theorem parse_func_panics:
  assumes "in_i64 n" "CHR ''#'' \<notin> set pre"
  shows "is_panic (ParseFuncFromString (''lookup(#'' @ itoa n @ '')'') op rv)
    \<and> is_panic (ParseFuncFromString (pre @ ''#'') op rv)
    \<and> is_panic (ParseFuncFromString (itoa n @ '')'') op rv)
    \<and> is_panic (ParseFuncFromString (''#'' @ itoa n @ '')'') op rv)"
proof (intro conjI)
  show "is_panic (ParseFuncFromString (''lookup(#'' @ itoa n @ '')'') op rv)"
    using parse_cut [of "''lookup''" "itoa n" op rv] assms(1)
    by (simp add: atois_one func_of_name_def arg_def)
  have "index_of (CHR ''#'') (pre @ ''#'') = int (length pre)"
    using index_of_cut [OF assms(2), of "[]"] by simp
  then show "is_panic (ParseFuncFromString (pre @ ''#'') op rv)"
    by (simp add: ParseFuncFromString_def slice_def)
  have "CHR ''#'' \<notin> set (itoa n @ '')'')" using itoa_not_mem by simp
  then show "is_panic (ParseFuncFromString (itoa n @ '')'') op rv)"
    using assms(1) atois_one [of n] by (simp add: ParseFuncFromString_def index_of_def slice_def)
  show "is_panic (ParseFuncFromString (''#'' @ itoa n @ '')'') op rv)"
    using assms(1) atois_one [of n]
    by (simp add: ParseFuncFromString_def index_of_def slice_def)
qed

theorem parse_func_panics_witness:
  "is_panic (ParseFuncFromString ''lookup(#3)'' ''>'' (fint 5)) \<and> in_i64 3"
proof -
  have h: "in_i64 3" "CHR ''#'' \<notin> set ''max''" by (simp_all add: in_i64_def)
  have "''lookup(#'' @ itoa 3 @ '')'' = ''lookup(#3)''" by code_simp
  with parse_func_panics [OF h, of "''>''" "fint 5"] h show ?thesis by simp
qed



text \<open>
  On an enough window without NaN, \<open>max\<close> compares the greatest value of the window with the
  threshold and \<open>min\<close> the least; for integer samples whose partial sums stay below two to the 53,
  \<open>sum\<close> compares the exact sum.
\<close>

theorem compute_extremes:
  assumes "HistoryData L limit = (vs, True)" "\<forall>v \<in> set vs. \<not> is_nan (hd_Value v)"
  shows "(\<exists>m \<in> hd_Value ` set vs. (\<forall>v \<in> set vs. hd_Value v \<le> m) \<and>
      Compute (MaxFunction limit op rv) L = (vs, m, checkIsTriggered m op rv, True))
    \<and> (\<exists>m \<in> hd_Value ` set vs. (\<forall>v \<in> set vs. m \<le> hd_Value v) \<and>
      Compute (MinFunction limit op rv) L = (vs, m, checkIsTriggered m op rv, True))
    \<and> (\<forall>ks. map hd_Value vs = map fint ks \<and> (\<forall>n \<le> length ks. \<bar>sum_list (take n ks)\<bar> < 2 ^ 53) \<longrightarrow>
      Compute (SumFunction limit op rv) L =
        (vs, fint (sum_list ks), checkIsTriggered (fint (sum_list ks)) op rv, True))"
proof -
  obtain w ws where vs: "vs = w # ws"
    using HistoryData_enough_nonempty [OF assms(1)] by (cases vs) auto
  let ?max = "max_loop (hd_Value w) ws" and ?min = "min_loop (hd_Value w) ws"
  have max: "?max \<in> hd_Value ` set vs" "\<forall>v \<in> set vs. hd_Value v \<le> ?max"
    and min: "?min \<in> hd_Value ` set vs" "\<forall>v \<in> set vs. ?min \<le> hd_Value v"
    using assms(2) max_loop_upper [of "hd_Value w" ws] min_loop_lower [of "hd_Value w" ws]
    by (auto simp: vs)
  show ?thesis
    using assms(1) max min
    by (intro conjI bexI [of _ ?max] bexI [of _ ?min] allI impI)
       (simp_all add: vs sum_loop_exact [of "w # ws"] Let_def)
qed

theorem compute_extremes_witness:
  "\<exists>m. fst (snd (Compute (MaxFunction 1 ''>'' (fint 80))
     [\<lparr>ji_Endpoint = ''h'', ji_Metric = ''cpu'', ji_Value = fint 95, ji_Timestamp = 120,
       ji_JudgeType = ''GAUGE'', ji_Tags = []\<rparr>])) = m \<and> fint 95 \<le> m"
  (is "\<exists>m. fst (snd (Compute _ ?L)) = m \<and> _")
proof -
  have h: "HistoryData ?L 1 = ([\<lparr>hd_Timestamp = 120, hd_Value = fint 95\<rparr>], True)"
    by (simp add: HistoryData_def)
  from compute_extremes [OF h, of "''>''" "fint 80"] show ?thesis by auto
qed

text \<open>
  Keeping only the newest samples never changes a judgement: for every function, a history cut
  to at least as many samples as the function needs gives the same verdict as the full history, and
  is enough exactly when the full history is.
\<close>

theorem compute_eviction:
  assumes "needed f \<le> n"
  shows "snd (snd (snd (Compute f (take n L)))) = snd (snd (snd (Compute f L)))
    \<and> (snd (snd (snd (Compute f L))) \<longrightarrow> Compute f (take n L) = Compute f L)"
  using assms by (rule jf.eviction_harmless)

theorem compute_eviction_witness:
  "snd (snd (snd (Compute (AllFunction 1 ''>'' 0) (take 2 (replicate 3
     \<lparr>ji_Endpoint = ''h'', ji_Metric = ''cpu'', ji_Value = fint 95, ji_Timestamp = 120,
      ji_JudgeType = ''GAUGE'', ji_Tags = []\<rparr>)))))"
  (is "snd (snd (snd (Compute ?f (take 2 ?L))))")
proof -
  have "needed ?f \<le> 2" by (simp add: needed_def)
  from compute_eviction [OF this, of ?L] show ?thesis
    by (simp add: HistoryData_def numeral_3_eq_3)
qed

end
