(* ===== verification/Judge_Event.thy ===== *)
theory Judge_Event
  imports Judge_Func
begin

text \<open>
  From a verdict to an alarm event (\<open>modules/judge/store/judge.go\<close>, the event maps of
  \<open>modules/judge/g/var.go\<close>): which verdicts become events, with which status and step, and where
  an event goes, to the alarm queue in redis or to the union judge.
\<close>

section \<open>State and environment\<close>

record judge_state =
  LastEvents :: "(string, event) gomap"
  UnionLastEvents :: "(string, event) gomap"
  RedisLog :: "(string \<times> event) list" \<comment> \<open>what LPUSH sent, oldest first\<close>
  UnionSent :: "(event \<times> nat) list"   \<comment> \<open>events handed to the union judge, with the calls made\<close>

text \<open>
  The configuration, and the services behind RPC calls: the ring and connection pool towards the
  union judge (whether the n-th call for an event succeeds).
\<close>

record judge_env =
  MinInterval :: int
  QueueKey :: "int \<Rightarrow> string"
  UnionCall :: "event \<Rightarrow> nat \<Rightarrow> bool"

abbreviation SafeEventMap_Get :: "string \<Rightarrow> (string, event) gomap \<Rightarrow> event option" where
  "SafeEventMap_Get key m \<equiv> gget m key"

definition SafeEventMap_Set :: "string \<Rightarrow> event \<Rightarrow> (string, event) gomap \<Rightarrow> (string, event) gomap" where
  "SafeEventMap_Set key e m = gput key e m"

text \<open>\<open>json.Marshal\<close> fails exactly on a number that is NaN or infinite, anywhere in the event.\<close>

fun json_ok :: "event \<Rightarrow> bool" where
  "json_ok (Event i s e st ep lv cs et pt ec ut) \<longleftrightarrow>
     is_fin lv \<and> (\<forall>x \<in> set_option s. is_fin (st_RightValue x)) \<and>
     (\<forall>x \<in> set_option e. is_fin (ex_RightValue x)) \<and> list_all json_ok ec"

definition sendEventToRedis :: "judge_env \<Rightarrow> event \<Rightarrow> judge_state \<Rightarrow> judge_state res" where
  "sendEventToRedis env e s =
     (if \<not> json_ok e then Inr s
      else bind_res (Priority e) (\<lambda>p. Inr (s\<lparr>RedisLog := RedisLog s @ [(QueueKey env p, e)]\<rparr>)))"

definition sendEvent :: "judge_env \<Rightarrow> event \<Rightarrow> judge_state \<Rightarrow> judge_state res" where
  "sendEvent env e s =
     sendEventToRedis env e (s\<lparr>LastEvents := SafeEventMap_Set (ev_Id e) e (LastEvents s)\<rparr>)"

text \<open>At most three calls; the number of calls made.\<close>

fun retry_calls :: "(nat \<Rightarrow> bool) \<Rightarrow> nat \<Rightarrow> nat \<Rightarrow> nat" where
  "retry_calls ok i 0 = i"
| "retry_calls ok i (Suc k) = (if ok i then i + 1 else retry_calls ok (i + 1) k)"

definition union_id :: "event \<Rightarrow> int res" where
  "union_id e = (case ev_Strategy e of Some s \<Rightarrow> Inr (st_UnionStrategyId s) | None \<Rightarrow> nil_deref)"

definition sendEventForUnionStrategy :: "judge_env \<Rightarrow> event \<Rightarrow> judge_state \<Rightarrow> judge_state res" where
  "sendEventForUnionStrategy env e s =
     bind_res (union_id e) (\<lambda>u.
       if u \<le> 0 then Inr s
       else Inr (s\<lparr>LastEvents := SafeEventMap_Set (ev_Id e) e (LastEvents s),
                   UnionSent := UnionSent s @ [(e, retry_calls (UnionCall env e) 0 3)]\<rparr>))"

definition sendEventProxy :: "judge_env \<Rightarrow> event \<Rightarrow> judge_state \<Rightarrow> judge_state res" where
  "sendEventProxy env e s =
     bind_res (union_id e) (\<lambda>u.
       if 0 < u then sendEventForUnionStrategy env e s else sendEvent env e s)"

text \<open>\<open>Status[0]\<close> and the time stamp of the last point, which index slices.\<close>

definition status0 :: "event \<Rightarrow> char res" where
  "status0 e = (case ev_Status e of c # _ \<Rightarrow> Inr c | [] \<Rightarrow> Inl (Panic ''index out of range''))"

definition last_point_ts :: "history_data list \<Rightarrow> int res" where
  "last_point_ts vs = (if vs = [] then Inl (Panic ''index out of range'') else Inr (hd_Timestamp (last vs)))"

definition sendEventIfNeed ::
  "judge_env \<Rightarrow> history_data list \<Rightarrow> bool \<Rightarrow> int \<Rightarrow> event \<Rightarrow> int \<Rightarrow> judge_state \<Rightarrow> judge_state res" where
  "sendEventIfNeed env historyData isTriggered now ev maxStep s =
     (let lastEvent = SafeEventMap_Get (ev_Id ev) (LastEvents s) in
      if isTriggered then
        (let ev = set_Status ''PROBLEM'' ev in
         bind_res (case lastEvent of None \<Rightarrow> Inr True
                   | Some l \<Rightarrow> bind_res (status0 l) (\<lambda>c. Inr (c = CHR ''O''))) (\<lambda>fresh.
         if fresh then
           (let ev = set_CurrentStep 1 ev in
            if maxStep = 0 then Inr s else sendEventProxy env ev s)
         else
           (case lastEvent of None \<Rightarrow> Inr s
            | Some l \<Rightarrow>
               if maxStep \<le> ev_CurrentStep l then Inr s
               else bind_res (last_point_ts historyData) (\<lambda>oldest.
                 if oldest \<le> ev_EventTime l then Inr s
                 else if now - ev_EventTime l < MinInterval env then Inr s
                 else sendEventProxy env (set_CurrentStep (ev_CurrentStep l + 1) ev) s))))
      else
        (case lastEvent of None \<Rightarrow> Inr s
         | Some l \<Rightarrow>
            bind_res (status0 l) (\<lambda>c.
              if c = CHR ''P''
              then sendEventProxy env (set_CurrentStep 1 (set_Status ''OK'' ev)) s
              else Inr s)))"

section \<open>The alarm state machine\<close>

text \<open>
  What the state keeps per event id is an alarm: none yet, recovered, or a problem with the number
  of alarms sent and the time of the sample that caused the last one.
\<close>

datatype alarm = NoAlarm | Recovered int | Problem int int \<comment> \<open>step, event time\<close>

definition alarm_of :: "event option \<Rightarrow> alarm" where
  "alarm_of e = (case e of None \<Rightarrow> NoAlarm
     | Some e \<Rightarrow> if ev_Status e = ''PROBLEM'' then Problem (ev_CurrentStep e) (ev_EventTime e)
                else Recovered (ev_EventTime e))"

text \<open>
  The decision of a judgement, on this abstraction: the status and step of the event to send.
\<close>

fun decide :: "int \<Rightarrow> int \<Rightarrow> int \<Rightarrow> bool \<Rightarrow> int \<Rightarrow> alarm \<Rightarrow> (string \<times> int) option" where
  "decide minInt maxStep oldest True now (Problem n t) =
     (if n < maxStep \<and> t < oldest \<and> minInt \<le> now - t then Some (''PROBLEM'', n + 1) else None)"
| "decide minInt maxStep oldest True now a =
     (if maxStep = 0 then None else Some (''PROBLEM'', 1))"
| "decide minInt maxStep oldest False now (Problem n t) = Some (''OK'', 1)"
| "decide minInt maxStep oldest False now a = None"

definition good_status :: "event \<Rightarrow> bool" where
  "good_status e \<longleftrightarrow> ev_Status e = ''PROBLEM'' \<or> ev_Status e = ''OK''"

definition good_events :: "judge_state \<Rightarrow> bool" where
  "good_events s \<longleftrightarrow> (\<forall>k e. gget (LastEvents s) k = Some e \<longrightarrow>
     ev_Id e = k \<and> good_status e \<and> ev_Strategy e \<noteq> None)"

text \<open>What sending one event of a strategy does to the state.\<close>

definition deliver :: "judge_env \<Rightarrow> event \<Rightarrow> strategy \<Rightarrow> judge_state \<Rightarrow> judge_state" where
  "deliver env e st s =
     (let s' = s\<lparr>LastEvents := gput (ev_Id e) e (LastEvents s)\<rparr> in
      if 0 < st_UnionStrategyId st
      then s'\<lparr>UnionSent := UnionSent s @ [(e, retry_calls (UnionCall env e) 0 3)]\<rparr>
      else if json_ok e then s'\<lparr>RedisLog := RedisLog s @ [(QueueKey env (st_Priority st), e)]\<rparr>
      else s')"

lemma sendEventProxy_strategy:
  "ev_Strategy e = Some st \<Longrightarrow> sendEventProxy env e s = Inr (deliver env e st s)"
  by (simp add: sendEventProxy_def union_id_def sendEventForUnionStrategy_def sendEvent_def
      sendEventToRedis_def Priority_def by_rule_def deliver_def SafeEventMap_Set_def Let_def)

lemma sendEventProxy_expression:
  "ev_Strategy e = None \<Longrightarrow> sendEventProxy env e s = nil_deref"
  by (simp add: sendEventProxy_def union_id_def nil_deref_def)

lemma LastEvents_deliver: "LastEvents (deliver env e st s) = gput (ev_Id e) e (LastEvents s)"
  by (simp add: deliver_def Let_def)

lemma good_status_status0: "good_status e \<Longrightarrow>
    status0 e = Inr (if ev_Status e = ''PROBLEM'' then CHR ''P'' else CHR ''O'')"
  by (auto simp: good_status_def status0_def)

text \<open>
  The code implements the decision: it sends exactly the event the abstract machine decides on, and
  otherwise leaves the state alone.
\<close>

lemma sendEventIfNeed_decide:
  assumes "good_events s" "ev_Strategy ev = Some st" "vs \<noteq> []"
  shows "sendEventIfNeed env vs trig now ev maxStep s =
    Inr (case decide (MinInterval env) maxStep (hd_Timestamp (last vs)) trig now
                (alarm_of (gget (LastEvents s) (ev_Id ev))) of
           None \<Rightarrow> s
         | Some (status, n) \<Rightarrow> deliver env (set_CurrentStep n (set_Status status ev)) st s)"
proof (cases "gget (LastEvents s) (ev_Id ev)")
  case None
  then show ?thesis
    using assms(2) by (cases trig) (simp_all add: sendEventIfNeed_def alarm_of_def sendEventProxy_strategy)
next
  case (Some l)
  then have g: "good_status l" using assms(1) by (auto simp: good_events_def)
  show ?thesis
    using assms(2,3) Some g
    by (cases trig)
       (auto simp: sendEventIfNeed_def alarm_of_def sendEventProxy_strategy last_point_ts_def
          good_status_status0 [OF g] not_le not_less)
qed

lemma good_events_deliver:
  "good_events s \<Longrightarrow> ev_Strategy e \<noteq> None \<Longrightarrow> good_status e \<Longrightarrow> good_events (deliver env e st s)"
  by (auto simp: good_events_def LastEvents_deliver)

lemma decide_status: "decide mi ms o' tr now a = Some (x, n) \<Longrightarrow> x = ''PROBLEM'' \<or> x = ''OK''"
  by (cases "(mi, ms, o', tr, now, a)" rule: decide.cases) (auto split: if_splits)

lemma good_events_step:
  assumes "good_events s" "ev_Strategy ev = Some st" "vs \<noteq> []"
    and "sendEventIfNeed env vs trig now ev maxStep s = Inr s'"
  shows "good_events s'"
  using assms decide_status
  by (auto simp: sendEventIfNeed_decide good_status_def intro!: good_events_deliver
      split: option.splits prod.splits)

section \<open>Runs of one series\<close>

text \<open>
  A judgement of one rule on one series: the window, the verdict, the time and the event built for
  it. A run judges one after the other; its trace pairs the events that reached redis with the time
  at which they were sent.
\<close>

type_synonym judgement = "history_data list \<times> bool \<times> int \<times> event"

fun judge_run :: "judge_env \<Rightarrow> int \<Rightarrow> judgement list \<Rightarrow> judge_state \<Rightarrow> judge_state res" where
  "judge_run env maxStep [] s = Inr s"
| "judge_run env maxStep ((vs, trig, now, ev) # js) s =
     bind_res (sendEventIfNeed env vs trig now ev maxStep s) (judge_run env maxStep js)"

fun judge_trace :: "judge_env \<Rightarrow> int \<Rightarrow> judgement list \<Rightarrow> judge_state \<Rightarrow> (int \<times> event) list" where
  "judge_trace env maxStep [] s = []"
| "judge_trace env maxStep ((vs, trig, now, ev) # js) s =
     (case sendEventIfNeed env vs trig now ev maxStep s of
        Inl e \<Rightarrow> []
      | Inr s' \<Rightarrow> map (\<lambda>(q, e). (now, e)) (drop (length (RedisLog s)) (RedisLog s'))
                 @ judge_trace env maxStep js s')"

text \<open>
  The alarms of a trace, read against the alarm before each of them: a problem is followed by a
  recovery, or by the next step of the same problem, not beyond the last step and not before the
  interval has passed; anything else is followed by the first step of a problem.
\<close>

fun paced :: "int \<Rightarrow> int \<Rightarrow> alarm \<Rightarrow> (int \<times> event) list \<Rightarrow> bool" where
  "paced minInt maxStep a [] = True"
| "paced minInt maxStep a ((now, e) # tr) =
     ((case a of
         Problem n t \<Rightarrow> ev_Status e = ''OK'' \<and> ev_CurrentStep e = 1 \<or>
           ev_Status e = ''PROBLEM'' \<and> ev_CurrentStep e = n + 1 \<and> n < maxStep \<and> minInt \<le> now - t
       | _ \<Rightarrow> ev_Status e = ''PROBLEM'' \<and> ev_CurrentStep e = 1 \<and> maxStep \<noteq> 0)
      \<and> paced minInt maxStep (alarm_of (Some e)) tr)"

fun alarm_bound :: "int \<Rightarrow> alarm \<Rightarrow> bool" where
  "alarm_bound maxStep (Problem n t) = (1 \<le> n \<and> n \<le> max 1 maxStep)"
| "alarm_bound maxStep a = True"

lemma paced_bounds:
  "paced mi ms a tr \<Longrightarrow> alarm_bound ms a \<Longrightarrow>
   \<forall>(now, e) \<in> set tr. 1 \<le> ev_CurrentStep e \<and> ev_CurrentStep e \<le> max 1 ms"
proof (induction mi ms a tr rule: paced.induct)
  case (2 mi ms a now e tr)
  then have "1 \<le> ev_CurrentStep e \<and> ev_CurrentStep e \<le> max 1 ms"
    by (auto split: alarm.splits)
  moreover from this have "alarm_bound ms (alarm_of (Some e))"
    by (simp add: alarm_of_def)
  ultimately show ?case using 2 by auto
qed simp

text \<open>The judgements of one plain (not combined) strategy on one series.\<close>

definition one_series :: "string \<Rightarrow> strategy \<Rightarrow> judgement list \<Rightarrow> bool" where
  "one_series i st js \<longleftrightarrow> st_UnionStrategyId st \<le> 0 \<and> is_fin (st_RightValue st) \<and>
     list_all (\<lambda>(vs, trig, now, ev). vs \<noteq> [] \<and> ev_Id ev = i \<and> ev_Strategy ev = Some st \<and> json_ok ev) js"

lemma json_ok_set [simp]: "json_ok (set_Status x e) = json_ok e" "json_ok (set_CurrentStep n e) = json_ok e"
  by (cases e; simp)+

lemma decide_paced:
  "decide mi ms o' tr now a = Some (x, n) \<Longrightarrow>
   (case a of
      Problem k t \<Rightarrow> x = ''OK'' \<and> n = 1 \<or> x = ''PROBLEM'' \<and> n = k + 1 \<and> k < ms \<and> mi \<le> now - t
    | _ \<Rightarrow> x = ''PROBLEM'' \<and> n = 1 \<and> ms \<noteq> 0)"
  by (cases "(mi, ms, o', tr, now, a)" rule: decide.cases) (auto split: if_splits)

lemma judge_trace_paced:
  "good_events s \<Longrightarrow> one_series i st js \<Longrightarrow>
   paced (MinInterval env) ms (alarm_of (gget (LastEvents s) i)) (judge_trace env ms js s)"
proof (induction js arbitrary: s)
  case (Cons j js)
  obtain vs trig now ev where j: "j = (vs, trig, now, ev)" by (cases j)
  have ev: "vs \<noteq> []" "ev_Id ev = i" "ev_Strategy ev = Some st" "json_ok ev" "\<not> 0 < st_UnionStrategyId st"
    and js: "one_series i st js"
    using Cons.prems(2) by (auto simp: one_series_def j)
  let ?a = "alarm_of (gget (LastEvents s) i)"
  let ?d = "decide (MinInterval env) ms (hd_Timestamp (last vs)) trig now ?a"
  note step = sendEventIfNeed_decide [OF Cons.prems(1) ev(3,1), of env trig now ms]
  show ?case
  proof (cases ?d)
    case None
    then show ?thesis using Cons.IH [OF Cons.prems(1) js] step ev(2) by (simp add: j)
  next
    case (Some d)
    obtain x n where d: "d = (x, n)" by (cases d)
    let ?e = "set_CurrentStep n (set_Status x ev)"
    let ?s = "deliver env ?e st s"
    have send: "sendEventIfNeed env vs trig now ev ms s = Inr ?s"
      using step Some d ev(2) by simp
    have good: "good_events ?s"
      using good_events_step [OF Cons.prems(1) ev(3,1) send] .
    have "drop (length (RedisLog s)) (RedisLog ?s) = [(QueueKey env (st_Priority st), ?e)]"
      using ev by (simp add: deliver_def Let_def)
    moreover have "alarm_of (gget (LastEvents ?s) i) = alarm_of (Some ?e)"
      using ev by (simp add: LastEvents_deliver)
    ultimately show ?thesis
      using Cons.IH [OF good js] decide_paced [OF Some [unfolded d]] send
      by (simp add: j del: fun_upd_apply cong: alarm.case_cong split: alarm.splits)
  qed
qed simp

lemma judge_run_ok:
  "good_events s \<Longrightarrow> one_series i st js \<Longrightarrow> \<exists>s'. judge_run env ms js s = Inr s' \<and> good_events s'"
proof (induction js arbitrary: s)
  case (Cons j js)
  obtain vs trig now ev where j: "j = (vs, trig, now, ev)" by (cases j)
  have ev: "vs \<noteq> []" "ev_Strategy ev = Some st" and js: "one_series i st js"
    using Cons.prems(2) by (auto simp: one_series_def j)
  obtain s1 where s1: "sendEventIfNeed env vs trig now ev ms s = Inr s1"
    using sendEventIfNeed_decide [OF Cons.prems(1) ev(2,1)] by blast
  with Cons.IH [OF good_events_step [OF Cons.prems(1) ev(2,1) s1] js] show ?case by (simp add: j)
qed simp

definition judge_init :: judge_state where
  "judge_init = \<lparr>LastEvents = [], UnionLastEvents = [], RedisLog = [], UnionSent = []\<rparr>"

lemma good_events_init: "good_events judge_init"
  by (simp add: good_events_def judge_init_def)

section \<open>Properties\<close>

text \<open>
  C9: \<open>sendEventIfNeed\<close> implements the alarm state machine. On a state whose events are well
  formed, for an event of a strategy and a window with a point, it never fails; it sends exactly
  the event (status and step) that the machine decides on from the last alarm of the event id, the
  oldest point of the window and the time, records it as the last event of that id only, and does
  nothing when the machine decides to be quiet.
\<close>

theorem sendEventIfNeed_refines:
  assumes "good_events s" "ev_Strategy ev = Some st" "vs \<noteq> []"
  shows "\<exists>s'. sendEventIfNeed env vs trig now ev maxStep s = Inr s' \<and> good_events s' \<and>
    (case decide (MinInterval env) maxStep (hd_Timestamp (last vs)) trig now
            (alarm_of (gget (LastEvents s) (ev_Id ev))) of
       None \<Rightarrow> s' = s
     | Some (status, n) \<Rightarrow>
         let e = set_CurrentStep n (set_Status status ev) in
         gget (LastEvents s') = (gget (LastEvents s))(ev_Id ev \<mapsto> e) \<and>
         (if 0 < st_UnionStrategyId st
          then RedisLog s' = RedisLog s \<and> (\<exists>k. UnionSent s' = UnionSent s @ [(e, k)] \<and> 1 \<le> k \<and> k \<le> 3)
          else UnionSent s' = UnionSent s \<and>
               RedisLog s' = RedisLog s @ (if json_ok e then [(QueueKey env (st_Priority st), e)] else [])))"
proof -
  have calls: "1 \<le> retry_calls f 0 3 \<and> retry_calls f 0 3 \<le> 3" for f
    by (simp add: numeral_3_eq_3)
  obtain s' where s': "sendEventIfNeed env vs trig now ev maxStep s = Inr s'" "good_events s'"
    using sendEventIfNeed_decide [OF assms] good_events_step [OF assms] by blast
  then show ?thesis
    using sendEventIfNeed_decide [OF assms, of env trig now maxStep] calls
    by (auto simp: deliver_def Let_def split: option.splits prod.splits)
qed

definition demo_strategy :: strategy where
  "demo_strategy = \<lparr>st_Id = 7, st_Metric = ''cpu.idle'', st_Tags = [], st_Func = ''all(#1)'',
     st_Operator = ''<'', st_RightValue = fint 10, st_MaxStep = 2, st_Priority = 0, st_Note = [],
     st_Tpl = None, st_UnionStrategyId = 0\<rparr>"

definition demo_event :: "int \<Rightarrow> event" where
  "demo_event t = Event ''s_7_x'' (Some demo_strategy) None [] ''h1'' (fint 3) 0 t [] [] False"

definition demo_env :: judge_env where
  "demo_env = \<lparr>MinInterval = 300, QueueKey = (\<lambda>p. ''event:p''), UnionCall = (\<lambda>e n. True)\<rparr>"

definition demo_point :: "int \<Rightarrow> history_data" where
  "demo_point t = \<lparr>hd_Timestamp = t, hd_Value = fint 3\<rparr>"

theorem sendEventIfNeed_refines_witness:
  "\<exists>s'. sendEventIfNeed demo_env [demo_point 60] True 61 (demo_event 60) 2 judge_init = Inr s'
    \<and> RedisLog s' = [(''event:p'', set_CurrentStep 1 (set_Status ''PROBLEM'' (demo_event 60)))]"
proof -
  have "ev_Strategy (demo_event 60) = Some demo_strategy" by (simp add: demo_event_def)
  from sendEventIfNeed_refines [OF good_events_init this, of "[demo_point 60]" demo_env True 61 2]
  show ?thesis
    by (auto simp: judge_init_def alarm_of_def demo_event_def demo_strategy_def demo_env_def fint_def Let_def)
qed

text \<open>
  C10: Alarms are paced. Along any sequence of judgements of one strategy on one series, the
  judgements all succeed, and the events that reach redis follow one another as they should: the
  first alarm of a problem has step 1, the next alarms of the same problem count up one by one, are
  sent no earlier than the minimal interval after the sample of the previous alarm, and never go
  beyond the maximal step; a recovery is sent only after a problem, once.
\<close>

theorem alarms_paced:
  assumes "good_events s" "gget (LastEvents s) i = None" "one_series i st js"
  shows "(\<exists>s'. judge_run env maxStep js s = Inr s' \<and> good_events s')
    \<and> paced (MinInterval env) maxStep NoAlarm (judge_trace env maxStep js s)
    \<and> (\<forall>(now, e) \<in> set (judge_trace env maxStep js s).
         1 \<le> ev_CurrentStep e \<and> ev_CurrentStep e \<le> max 1 maxStep)"
proof -
  have "paced (MinInterval env) maxStep NoAlarm (judge_trace env maxStep js s)"
    using judge_trace_paced [OF assms(1,3), of env maxStep] assms(2) by (simp add: alarm_of_def)
  then show ?thesis
    using judge_run_ok [OF assms(1,3)] paced_bounds [of "MinInterval env" maxStep NoAlarm] by auto
qed

theorem alarms_paced_witness:
  "\<exists>s'. judge_run demo_env 2 [([demo_point 60], True, 61, demo_event 60),
      ([demo_point 400], True, 401, demo_event 400), ([demo_point 460], False, 461, demo_event 460)]
      judge_init = Inr s' \<and> good_events s'"
proof -
  have "one_series ''s_7_x'' demo_strategy [([demo_point 60], True, 61, demo_event 60),
      ([demo_point 400], True, 401, demo_event 400), ([demo_point 460], False, 461, demo_event 460)]"
    by (simp add: one_series_def demo_strategy_def demo_event_def fint_def)
  from alarms_paced [OF good_events_init _ this, of demo_env 2] show ?thesis
    by (simp add: judge_init_def)
qed

text \<open>
  An alarm of an expression is never delivered: every judgement of an expression that has an
  event to send dereferences the nil strategy of the event and panics, whatever the state.
\<close>

theorem expression_alarm_panics:
  assumes "ev_Strategy ev = None" "good_events s" "vs \<noteq> []"
    and "decide (MinInterval env) maxStep (hd_Timestamp (last vs)) trig now
           (alarm_of (gget (LastEvents s) (ev_Id ev))) \<noteq> None"
  shows "is_panic (sendEventIfNeed env vs trig now ev maxStep s)"
proof (cases "gget (LastEvents s) (ev_Id ev)")
  case None
  then show ?thesis
    using assms by (cases trig)
      (auto simp: sendEventIfNeed_def alarm_of_def sendEventProxy_expression nil_deref_def split: if_splits)
next
  case (Some l)
  then have g: "good_status l" using assms(2) by (auto simp: good_events_def)
  show ?thesis
    using assms Some g
    by (cases trig)
       (auto simp: sendEventIfNeed_def alarm_of_def sendEventProxy_expression last_point_ts_def
          good_status_status0 [OF g] nil_deref_def split: if_splits)
qed

theorem expression_alarm_panics_witness:
  "is_panic (sendEventIfNeed demo_env [demo_point 60] True 61
     (Event ''e_1_x'' None (Some \<lparr>ex_Id = 1, ex_Metric = ''m'', ex_Tags = [], ex_Func = ''all(#1)'',
        ex_Operator = ''<'', ex_RightValue = fint 10, ex_MaxStep = 1, ex_Priority = 0, ex_Note = [],
        ex_ActionId = 1\<rparr>) [] ''h1'' (fint 3) 0 60 [] [] False) 1 judge_init)"
  by (rule expression_alarm_panics [OF _ good_events_init])
     (simp_all add: judge_init_def alarm_of_def)

end
