(* ===== verification/Judge_Store.thy ===== *)
theory Judge_Store
  imports Judge_Event
begin

text \<open>
  The store of the judge: the rules it knows (\<open>modules/judge/g/call.go\<close>, \<open>g/var.go\<close>,
  \<open>cron/strategy.go\<close>), the histories of all series in 256 shards (\<open>store/history.go\<close>,
  \<open>cron/cleaner.go\<close>), what a new sample makes it judge (\<open>store/judge.go\<close>), and the RPC that receives
  samples (\<open>rpc/receiver.go\<close>).
\<close>

section \<open>State and environment\<close>

text \<open>
  \<open>HostSSCache\<close> is a go-cache: a value with the time (in nanoseconds) at which it expires. \<open>Ticks\<close>
  counts the calls to the clock and to the heartbeat server, whose answers the environment gives.
\<close>

record store_state =
  Alarms :: judge_state
  HostSSCache :: "(string, strategy list \<times> int) gomap"
  Ticks :: nat
  StrategyMap :: "(string, strategy list) gomap"
  ExpressionMap :: "(string, expression list) gomap"
  FilterMap :: "(string, string) gomap"
  HistoryBigMap :: "(string, (string, judge_item list) gomap) gomap"

record store_env =
  AlarmEnv :: judge_env
  HbsGetOneEndStrategies :: "string \<Rightarrow> nat \<Rightarrow> strategy list option"
  Clock :: "nat \<Rightarrow> int"
  Remain :: int

section \<open>The rules of a host\<close>

definition GlobalCacheTtl :: int where
  "GlobalCacheTtl = 120 * 1000000000"

definition GetOneStrategy :: "store_env \<Rightarrow> string \<Rightarrow> nat \<Rightarrow> strategy list" where
  "GetOneStrategy env hostname n =
     (case HbsGetOneEndStrategies env hostname n of None \<Rightarrow> [] | Some r \<Rightarrow> r)"

definition cache_get :: "store_env \<Rightarrow> string \<Rightarrow> store_state \<Rightarrow> strategy list option" where
  "cache_get env k s =
     (case gget (HostSSCache s) k of
        None \<Rightarrow> None
      | Some (x, expiration) \<Rightarrow>
          if 0 < expiration \<and> expiration < Clock env (Ticks s) then None else Some x)"

definition JudgeHostStrategies :: "store_env \<Rightarrow> string \<Rightarrow> store_state \<Rightarrow> strategy list \<times> store_state" where
  "JudgeHostStrategies env hostname s =
     (case cache_get env hostname s of
        Some res \<Rightarrow> (res, s\<lparr>Ticks := Ticks s + 1\<rparr>)
      | None \<Rightarrow>
         (let res = GetOneStrategy env hostname (Ticks s + 1);
              expiration = Clock env (Ticks s + 2) + GlobalCacheTtl
          in (res, s\<lparr>Ticks := Ticks s + 3,
                     HostSSCache := gput hostname (res, expiration) (HostSSCache s)\<rparr>)))"

definition CheckNeedJudge ::
  "store_env \<Rightarrow> string \<Rightarrow> string \<Rightarrow> store_state \<Rightarrow> strategy list \<times> store_state" where
  "CheckNeedJudge env hostname metric s =
     (let (ss, s') = JudgeHostStrategies env hostname s
      in (filter (\<lambda>i. st_Metric i = metric) ss, s'))"

section \<open>Judging a sample\<close>

text \<open>A parse error is logged and the rule skipped; a panic of the parser takes the process down.\<close>

definition with_func :: "string \<Rightarrow> string \<Rightarrow> f64 \<Rightarrow> judge_state \<Rightarrow> (judge_func \<Rightarrow> judge_state res) \<Rightarrow> judge_state res" where
  "with_func str op rv s k =
     (case ParseFuncFromString str op rv of
        Inl (Err m) \<Rightarrow> Inr s
      | Inl (Panic m) \<Rightarrow> Inl (Panic m)
      | Inr fn \<Rightarrow> k fn)"

definition judgeItemWithStrategy ::
  "judge_env \<Rightarrow> judge_item list \<Rightarrow> strategy \<Rightarrow> judge_item \<Rightarrow> int \<Rightarrow> judge_state \<Rightarrow> judge_state res" where
  "judgeItemWithStrategy env L strategy firstItem now s =
     with_func (st_Func strategy) (st_Operator strategy) (st_RightValue strategy) s (\<lambda>fn.
       let (historyData, leftValue, isTriggered, isEnough) = Compute fn L in
       if \<not> isEnough then Inr s
       else sendEventIfNeed env historyData isTriggered now
              (Event (''s_'' @ itoa (st_Id strategy) @ ''_'' @ JudgeItem_PrimaryKey firstItem)
                 (Some strategy) None [] (ji_Endpoint firstItem) leftValue 0
                 (ji_Timestamp firstItem) (ji_Tags firstItem) [] False)
              (st_MaxStep strategy) s)"

definition judgeItemWithExpression ::
  "judge_env \<Rightarrow> judge_item list \<Rightarrow> expression \<Rightarrow> judge_item \<Rightarrow> int \<Rightarrow> judge_state \<Rightarrow> judge_state res" where
  "judgeItemWithExpression env L expression firstItem now s =
     with_func (ex_Func expression) (ex_Operator expression) (ex_RightValue expression) s (\<lambda>fn.
       let (historyData, leftValue, isTriggered, isEnough) = Compute fn L in
       if \<not> isEnough then Inr s
       else sendEventIfNeed env historyData isTriggered now
              (Event (''e_'' @ itoa (ex_Id expression) @ ''_'' @ JudgeItem_PrimaryKey firstItem)
                 None (Some expression) [] (ji_Endpoint firstItem) leftValue 0
                 (ji_Timestamp firstItem) (ji_Tags firstItem) [] False)
              (ex_MaxStep expression) s)"

text \<open>The loop over the tags of a rule, which stops at the first that the sample does not have.\<close>

fun tags_related :: "tags \<Rightarrow> tags \<Rightarrow> bool" where
  "tags_related own [] = True"
| "tags_related own ((tagKey, tagVal) # ts) =
     (case gget own tagKey of
        None \<Rightarrow> False
      | Some myVal \<Rightarrow> if myVal \<noteq> tagVal then False else tags_related own ts)"

fun strategy_loop ::
  "judge_env \<Rightarrow> judge_item list \<Rightarrow> judge_item \<Rightarrow> int \<Rightarrow> strategy list \<Rightarrow> judge_state \<Rightarrow> judge_state res" where
  "strategy_loop env L firstItem now [] s = Inr s"
| "strategy_loop env L firstItem now (st # sts) s =
     (if \<not> tags_related (ji_Tags firstItem) (st_Tags st) then strategy_loop env L firstItem now sts s
      else bind_res (judgeItemWithStrategy env L st firstItem now s)
             (strategy_loop env L firstItem now sts))"

definition CheckStrategy ::
  "store_env \<Rightarrow> judge_item list \<Rightarrow> judge_item \<Rightarrow> int \<Rightarrow> store_state \<Rightarrow> store_state res" where
  "CheckStrategy env L firstItem now s =
     (let (filterSS, s') = CheckNeedJudge env (ji_Endpoint firstItem) (ji_Metric firstItem) s in
      if filterSS = [] then Inr s'
      else bind_res (strategy_loop (AlarmEnv env) L firstItem now filterSS (Alarms s'))
             (\<lambda>a. Inr (s'\<lparr>Alarms := a\<rparr>)))"

definition buildKeysFromMetricAndTags :: "judge_item \<Rightarrow> string list" where
  "buildKeysFromMetricAndTags item =
     map (\<lambda>(k, v). ji_Metric item @ ''/'' @ k @ ''='' @ v) (ji_Tags item)
     @ [ji_Metric item @ ''/endpoint='' @ ji_Endpoint item]"

definition copyItemTags :: "judge_item \<Rightarrow> tags" where
  "copyItemTags item = foldl (\<lambda>ret (k, v). gput k v ret) [(''endpoint'', ji_Endpoint item)] (ji_Tags item)"

definition exp_related :: "judge_item \<Rightarrow> expression \<Rightarrow> bool" where
  "exp_related firstItem e =
     (let itemTagsCopy = (if gget (ex_Tags e) ''endpoint'' \<noteq> None then copyItemTags firstItem
                          else ji_Tags firstItem)
      in tags_related itemTagsCopy (ex_Tags e))"

definition filterRelatedExpressions :: "expression list \<Rightarrow> judge_item \<Rightarrow> expression list" where
  "filterRelatedExpressions expressions firstItem =
     (if expressions = [] then [] else filter (exp_related firstItem) expressions)"

text \<open>The two nested loops of \<open>CheckExpression\<close>, with the ids handled so far.\<close>

fun related_loop ::
  "judge_env \<Rightarrow> judge_item list \<Rightarrow> judge_item \<Rightarrow> int \<Rightarrow> expression list \<Rightarrow> int list \<times> judge_state
   \<Rightarrow> (int list \<times> judge_state) res" where
  "related_loop env L firstItem now [] acc = Inr acc"
| "related_loop env L firstItem now (e # es) (handled, s) =
     (if ex_Id e \<in> set handled then related_loop env L firstItem now es (handled, s)
      else bind_res (judgeItemWithExpression env L e firstItem now s)
             (\<lambda>s'. related_loop env L firstItem now es (ex_Id e # handled, s')))"

fun keys_loop ::
  "judge_env \<Rightarrow> (string, expression list) gomap \<Rightarrow> judge_item list \<Rightarrow> judge_item \<Rightarrow> int \<Rightarrow> string list
   \<Rightarrow> int list \<times> judge_state \<Rightarrow> (int list \<times> judge_state) res" where
  "keys_loop env m L firstItem now [] acc = Inr acc"
| "keys_loop env m L firstItem now (key # keys) acc =
     (case gget m key of
        None \<Rightarrow> keys_loop env m L firstItem now keys acc
      | Some expressions \<Rightarrow>
          bind_res (related_loop env L firstItem now (filterRelatedExpressions expressions firstItem) acc)
            (keys_loop env m L firstItem now keys))"

definition CheckExpression ::
  "judge_env \<Rightarrow> (string, expression list) gomap \<Rightarrow> judge_item list \<Rightarrow> judge_item \<Rightarrow> int \<Rightarrow> judge_state
   \<Rightarrow> judge_state res" where
  "CheckExpression env m L firstItem now s =
     (let keys = buildKeysFromMetricAndTags firstItem in
      if keys = [] then Inr s
      else bind_res (keys_loop env m L firstItem now keys ([], s)) (\<lambda>(handled, s'). Inr s'))"

definition Judge ::
  "store_env \<Rightarrow> judge_item list \<Rightarrow> judge_item \<Rightarrow> int \<Rightarrow> store_state \<Rightarrow> store_state res" where
  "Judge env L firstItem now s =
     bind_res (CheckStrategy env L firstItem now s) (\<lambda>s.
     bind_res (CheckExpression (AlarmEnv env) (ExpressionMap s) L firstItem now (Alarms s))
       (\<lambda>a. Inr (s\<lparr>Alarms := a\<rparr>)))"

section \<open>The histories\<close>

type_synonym judge_item_map = "(string, judge_item list) gomap"

abbreviation JudgeItemMap_Get :: "string \<Rightarrow> judge_item_map \<Rightarrow> judge_item list option" where
  "JudgeItemMap_Get key m \<equiv> gget m key"

definition JudgeItemMap_Set :: "string \<Rightarrow> judge_item list \<Rightarrow> judge_item_map \<Rightarrow> judge_item_map" where
  "JudgeItemMap_Set key val m = gput key val m"

definition JudgeItemMap_Len :: "judge_item_map \<Rightarrow> nat" where
  "JudgeItemMap_Len m = length m"

definition JudgeItemMap_Delete :: "string \<Rightarrow> judge_item_map \<Rightarrow> judge_item_map" where
  "JudgeItemMap_Delete key m = gdel key m"

definition JudgeItemMap_BatchDelete :: "string list \<Rightarrow> judge_item_map \<Rightarrow> judge_item_map" where
  "JudgeItemMap_BatchDelete keys m =
     (if keys = [] then m else foldl (\<lambda>m k. gdel k m) m keys)"

definition stale_keys :: "int \<Rightarrow> judge_item_map \<Rightarrow> string list" where
  "stale_keys before m =
     map fst (filter (\<lambda>(key, L). L \<noteq> [] \<and> ji_Timestamp (hd L) < before) m)"

definition JudgeItemMap_CleanStale :: "int \<Rightarrow> judge_item_map \<Rightarrow> judge_item_map" where
  "JudgeItemMap_CleanStale before m = JudgeItemMap_BatchDelete (stale_keys before m) m"

text \<open>The shard a name leads to; a missing shard is a nil map pointer.\<close>

definition shard :: "string \<Rightarrow> (string, judge_item_map) gomap \<Rightarrow> judge_item_map res" where
  "shard name big = (case gget big name of Some m \<Rightarrow> Inr m | None \<Rightarrow> nil_deref)"

definition JudgeItemMap_PushFrontAndMaintain ::
  "store_env \<Rightarrow> string \<Rightarrow> string \<Rightarrow> judge_item \<Rightarrow> int \<Rightarrow> int \<Rightarrow> store_state \<Rightarrow> store_state res" where
  "JudgeItemMap_PushFrontAndMaintain env name key val maxCount now s =
     bind_res (shard name (HistoryBigMap s)) (\<lambda>m.
       case JudgeItemMap_Get key m of
         Some linkedList \<Rightarrow>
           bind_res (PushFrontAndMaintain val maxCount linkedList) (\<lambda>(needJudge, l).
             let s' = s\<lparr>HistoryBigMap := gput name (JudgeItemMap_Set key l m) (HistoryBigMap s)\<rparr>
             in if needJudge then Judge env l val now s' else Inr s')
       | None \<Rightarrow>
           Judge env [val] val now
             (s\<lparr>HistoryBigMap := gput name (JudgeItemMap_Set key [val] m) (HistoryBigMap s)\<rparr>))"

definition arr :: "string list" where
  "arr = [''0'', ''1'', ''2'', ''3'', ''4'', ''5'', ''6'', ''7'', ''8'', ''9'',
          ''a'', ''b'', ''c'', ''d'', ''e'', ''f'']"

definition shard_names :: "string list" where
  "shard_names = concat (map (\<lambda>x. map (\<lambda>y. x @ y) arr) arr)"

definition InitHistoryBigMap :: "(string, judge_item_map) gomap" where
  "InitHistoryBigMap = foldl (\<lambda>m name. gput name [] m) [] shard_names"

fun clean_shards :: "int \<Rightarrow> string list \<Rightarrow> (string, judge_item_map) gomap \<Rightarrow> (string, judge_item_map) gomap res" where
  "clean_shards before [] big = Inr big"
| "clean_shards before (name # names) big =
     bind_res (shard name big) (\<lambda>m.
       clean_shards before names (gput name (JudgeItemMap_CleanStale before m) big))"

definition cleanStale :: "int \<Rightarrow> store_state \<Rightarrow> store_state res" where
  "cleanStale now s =
     bind_res (clean_shards (now - 3600 * 24 * 7) shard_names (HistoryBigMap s))
       (\<lambda>big. Inr (s\<lparr>HistoryBigMap := big\<rparr>))"

section \<open>Receiving samples\<close>

definition send_item :: "store_env \<Rightarrow> int \<Rightarrow> judge_item \<Rightarrow> store_state \<Rightarrow> store_state res" where
  "send_item env now item s =
     (if ji_Timestamp item \<le> 0 then Inr s
      else let (filterSS, s') = CheckNeedJudge env (ji_Endpoint item) (ji_Metric item) s in
        if filterSS = [] then Inr s'
        else let pk = JudgeItem_PrimaryKey item in
          bind_res (slice pk 0 2) (\<lambda>name.
            JudgeItemMap_PushFrontAndMaintain env name pk item (Remain env) now s'))"

fun Send :: "store_env \<Rightarrow> int \<Rightarrow> judge_item list \<Rightarrow> store_state \<Rightarrow> store_state res" where
  "Send env now [] s = Inr s"
| "Send env now (item # items) s = bind_res (send_item env now item s) (Send env now items)"

section \<open>Rebuilding the maps of rules\<close>

text \<open>\<open>m[key] = append(m[key], x)\<close>, or a new slice when the key is not there.\<close>

definition gappend :: "'k \<Rightarrow> 'v \<Rightarrow> ('k, 'v list) gomap \<Rightarrow> ('k, 'v list) gomap" where
  "gappend key x m =
     (case gget m key of Some l \<Rightarrow> gput key (l @ [x]) m | None \<Rightarrow> gput key [x] m)"

definition rebuildStrategyMap :: "host_strategy list \<Rightarrow> store_state \<Rightarrow> store_state" where
  "rebuildStrategyMap hss s =
     s\<lparr>StrategyMap := foldl (\<lambda>m hs. foldl (\<lambda>m st. gappend (hs_Hostname hs @ ''/'' @ st_Metric st) st m)
                                m (hs_Strategies hs)) [] hss\<rparr>"

definition rebuildExpressionMap :: "expression list \<Rightarrow> store_state \<Rightarrow> store_state" where
  "rebuildExpressionMap es s =
     s\<lparr>ExpressionMap := foldl (\<lambda>m e. foldl (\<lambda>m (k, v). gappend (ex_Metric e @ ''/'' @ k @ ''='' @ v) e m)
                                  m (ex_Tags e)) [] es\<rparr>"

text \<open>An RPC error (\<open>None\<close>) leaves the maps as they are.\<close>

definition syncExpression :: "expression list option \<Rightarrow> store_state \<Rightarrow> store_state" where
  "syncExpression resp s = (case resp of None \<Rightarrow> s | Some es \<Rightarrow> rebuildExpressionMap es s)"

definition syncStrategies :: "host_strategy list option \<Rightarrow> store_state \<Rightarrow> store_state" where
  "syncStrategies resp s = (case resp of None \<Rightarrow> s | Some hss \<Rightarrow> rebuildStrategyMap hss s)"

definition syncFilter :: "store_state \<Rightarrow> store_state" where
  "syncFilter s =
     (let m = foldl (\<lambda>m (k, sts). foldl (\<lambda>m st. gput (st_Metric st) (st_Metric st) m) m sts) [] (StrategyMap s);
          m = foldl (\<lambda>m (k, es). foldl (\<lambda>m e. gput (ex_Metric e) (ex_Metric e) m) m es) m (ExpressionMap s)
      in s\<lparr>FilterMap := m\<rparr>)"

definition SafeFilterMap_Exists :: "string \<Rightarrow> store_state \<Rightarrow> bool" where
  "SafeFilterMap_Exists key s = (gget (FilterMap s) key \<noteq> None)"

section \<open>Facts: shards\<close>

lemma is_hex_arr: "is_hex c \<Longrightarrow> [c] \<in> set arr"
proof -
  assume "is_hex c"
  then have "(of_char c :: nat) \<in> {48, 49, 50, 51, 52, 53, 54, 55, 56, 57, 97, 98, 99, 100, 101, 102}"
    unfolding is_hex_def is_digit_def insert_iff empty_iff by presburger
  moreover have "c = char_of (of_char c :: nat)" by simp
  ultimately have "c \<in> char_of ` {48, 49, 50, 51, 52, 53, 54, 55, 56, 57, 97, 98, 99, 100, 101, 102 :: nat}"
    by blast
  moreover have "char_of ` {48, 49, 50, 51, 52, 53, 54, 55, 56, 57, 97, 98, 99, 100, 101, 102 :: nat}
      = set ''0123456789abcdef''"
    by code_simp
  ultimately show ?thesis by (auto simp: arr_def)
qed

lemma length_PrimaryKey [simp]: "length (JudgeItem_PrimaryKey it) = 32"
  by (simp add: JudgeItem_PrimaryKey_def Md5_def)

lemma shard_names_product: "shard_names = map (\<lambda>(x, y). x @ y) (List.product arr arr)"
  by (simp add: shard_names_def product_concat_map map_concat o_def)

lemma shard_names_mem: "x \<in> set arr \<Longrightarrow> y \<in> set arr \<Longrightarrow> x @ y \<in> set shard_names"
  by (force simp: shard_names_product)

lemma distinct_shard_names: "distinct shard_names"
proof -
  have "distinct arr" "\<forall>x \<in> set arr. length x = 1" by (simp_all add: arr_def)
  then show ?thesis
    by (auto simp: shard_names_product distinct_map distinct_product inj_on_def)
qed

lemma shard_of_PrimaryKey: "take 2 (JudgeItem_PrimaryKey it) \<in> set shard_names"
proof -
  let ?k = "JudgeItem_PrimaryKey it"
  have "list_all is_hex ?k" by (simp add: JudgeItem_PrimaryKey_def Md5_def md5_hex_hex)
  then have "[?k ! 0] \<in> set arr" "[?k ! 1] \<in> set arr"
    by (auto simp: list_all_length intro!: is_hex_arr)
  moreover have "take 2 ?k = [?k ! 0] @ [?k ! 1]"
    by (simp add: numeral_2_eq_2 take_Suc_conv_app_nth)
  ultimately show ?thesis by (simp only: shard_names_mem)
qed

lemma slice_PrimaryKey: "slice (JudgeItem_PrimaryKey it) 0 2 = Inr (take 2 (JudgeItem_PrimaryKey it))"
  by (simp add: slice_def)

section \<open>Facts: the history of a key\<close>

definition history :: "(string, judge_item_map) gomap \<Rightarrow> string \<Rightarrow> judge_item list" where
  "history big k =
     (case gget big (take 2 k) of None \<Rightarrow> []
      | Some m \<Rightarrow> (case gget m k of None \<Rightarrow> [] | Some l \<Rightarrow> l))"

definition good_list :: "int \<Rightarrow> string \<Rightarrow> string \<Rightarrow> judge_item list \<Rightarrow> bool" where
  "good_list remain name key l \<longleftrightarrow> take 2 key = name \<and> l \<noteq> [] \<and> newest_first l \<and>
     int (length l) \<le> remain \<and> (\<forall>x \<in> set l. JudgeItem_PrimaryKey x = key \<and> 0 < ji_Timestamp x)"

definition good_shard :: "int \<Rightarrow> string \<Rightarrow> judge_item_map \<Rightarrow> bool" where
  "good_shard remain name m \<longleftrightarrow> gwf m \<and> (\<forall>k l. gget m k = Some l \<longrightarrow> good_list remain name k l)"

definition good_history :: "int \<Rightarrow> (string, judge_item_map) gomap \<Rightarrow> bool" where
  "good_history remain big \<longleftrightarrow> (\<forall>name \<in> set shard_names. gget big name \<noteq> None) \<and>
     (\<forall>name m. gget big name = Some m \<longrightarrow> good_shard remain name m)"

lemma good_shard_put:
  "good_shard remain name m \<Longrightarrow> good_list remain name k l \<Longrightarrow> good_shard remain name (gput k l m)"
  by (simp add: good_shard_def)

lemma good_shard_del: "good_shard remain name m \<Longrightarrow> good_shard remain name (gdel k m)"
  by (simp add: good_shard_def)

lemma good_history_put:
  "good_history remain big \<Longrightarrow> good_shard remain name m \<Longrightarrow> good_history remain (gput name m big)"
  by (simp add: good_history_def)

lemma good_history_shard:
  assumes "good_history remain big" "name \<in> set shard_names"
  obtains m where "gget big name = Some m" "good_shard remain name m"
  using assms by (auto simp: good_history_def)

lemma history_put:
  assumes "gget big name = Some m" "take 2 key = name"
  shows "history (gput name (gput key l m) big) = (history big)(key := l)"
  using assms by (auto simp: history_def fun_eq_iff split: option.splits)

text \<open>What pushing does to a list of one key.\<close>

lemma judge_push_good:
  assumes "l = [] \<or> good_list remain name key l" "1 \<le> remain" "0 < ji_Timestamp v"
    "JudgeItem_PrimaryKey v = key" "take 2 key = name"
  shows "good_list remain name key (judge_push remain v l)"
proof -
  have nf: "newest_first l" using assms(1) by (auto simp: good_list_def)
  have "newest_first (judge_push remain v l)" by (rule jl.push_newest_first [OF nf])
  moreover have "\<forall>x \<in> set (judge_push remain v l). JudgeItem_PrimaryKey x = key \<and> 0 < ji_Timestamp x"
    using jl.push_set [of remain v l] assms by (auto simp: good_list_def)
  moreover have "judge_push remain v l \<noteq> [] \<and> int (length (judge_push remain v l)) \<le> remain"
    using assms(1,2) by (auto simp: judge_push_eq good_list_def)
  ultimately show ?thesis using assms(5) by (simp add: good_list_def)
qed

lemma PushFrontAndMaintain_push:
  assumes "1 \<le> remain"
  shows "\<exists>b. PushFrontAndMaintain v remain l = Inr (b, judge_push remain v l)"
  using assms by (cases "l \<noteq> [] \<and> (ji_Timestamp v \<le> ji_Timestamp (hd l) \<or> ji_Timestamp v \<le> 0)")
    (auto simp: PushFrontAndMaintain_ok judge_push_eq)

section \<open>Facts: rules that do not change\<close>

text \<open>The heartbeat server gives the same rules at every time, and the cache holds what it gave.\<close>

definition fixed_rules :: "store_env \<Rightarrow> (string \<Rightarrow> strategy list) \<Rightarrow> store_state \<Rightarrow> bool" where
  "fixed_rules env rules s \<longleftrightarrow>
     (\<forall>h n. HbsGetOneEndStrategies env h n = Some (rules h)) \<and>
     (\<forall>h x t. gget (HostSSCache s) h = Some (x, t) \<longrightarrow> x = rules h)"

definition wanted :: "(string \<Rightarrow> strategy list) \<Rightarrow> judge_item \<Rightarrow> bool" where
  "wanted rules it \<longleftrightarrow> 0 < ji_Timestamp it \<and>
     (\<exists>st \<in> set (rules (ji_Endpoint it)). st_Metric st = ji_Metric it)"

lemma JudgeHostStrategies_fixed:
  assumes "fixed_rules env rules s"
  shows "\<exists>s'. JudgeHostStrategies env h s = (rules h, s') \<and> fixed_rules env rules s' \<and>
    HistoryBigMap s' = HistoryBigMap s \<and> Alarms s' = Alarms s \<and> ExpressionMap s' = ExpressionMap s"
  using assms
  by (auto simp: JudgeHostStrategies_def cache_get_def fixed_rules_def GetOneStrategy_def Let_def
      split: option.splits if_splits)

lemma CheckNeedJudge_fixed:
  assumes "fixed_rules env rules s"
  obtains s' where "CheckNeedJudge env h m s = (filter (\<lambda>i. st_Metric i = m) (rules h), s')"
    "fixed_rules env rules s'" "HistoryBigMap s' = HistoryBigMap s" "Alarms s' = Alarms s"
    "ExpressionMap s' = ExpressionMap s"
  using JudgeHostStrategies_fixed [OF assms, of h] by (auto simp: CheckNeedJudge_def Let_def)

lemma fixed_rules_cong [simp]:
  "fixed_rules env rules (s\<lparr>Alarms := a\<rparr>) = fixed_rules env rules s"
  "fixed_rules env rules (s\<lparr>HistoryBigMap := b\<rparr>) = fixed_rules env rules s"
  by (simp_all add: fixed_rules_def)

lemma Judge_fixed:
  assumes "fixed_rules env rules s" "Judge env L it now s = Inr s'"
  shows "fixed_rules env rules s' \<and> HistoryBigMap s' = HistoryBigMap s"
proof -
  obtain s1 where s1: "CheckNeedJudge env (ji_Endpoint it) (ji_Metric it) s =
      (filter (\<lambda>i. st_Metric i = ji_Metric it) (rules (ji_Endpoint it)), s1)"
    "fixed_rules env rules s1" "HistoryBigMap s1 = HistoryBigMap s"
    using CheckNeedJudge_fixed [OF assms(1)] by metis
  show ?thesis
    using assms(2) s1 by (auto simp: Judge_def CheckStrategy_def split: if_splits)
qed

text \<open>Receiving one sample, on the histories.\<close>

lemma send_item_history:
  assumes "fixed_rules env rules s" "good_history (Remain env) (HistoryBigMap s)" "1 \<le> Remain env"
    "send_item env now it s = Inr s'"
  shows "fixed_rules env rules s' \<and> good_history (Remain env) (HistoryBigMap s') \<and>
    history (HistoryBigMap s') =
      (if wanted rules it
       then (history (HistoryBigMap s))(JudgeItem_PrimaryKey it :=
               judge_push (Remain env) it (history (HistoryBigMap s) (JudgeItem_PrimaryKey it)))
       else history (HistoryBigMap s))"
proof -
  let ?k = "JudgeItem_PrimaryKey it"
  obtain s1 where s1: "CheckNeedJudge env (ji_Endpoint it) (ji_Metric it) s =
      (filter (\<lambda>i. st_Metric i = ji_Metric it) (rules (ji_Endpoint it)), s1)"
    "fixed_rules env rules s1" "HistoryBigMap s1 = HistoryBigMap s"
    using CheckNeedJudge_fixed [OF assms(1)] by metis
  obtain m where m: "gget (HistoryBigMap s) (take 2 ?k) = Some m" "good_shard (Remain env) (take 2 ?k) m"
    using good_history_shard [OF assms(2) shard_of_PrimaryKey] by metis
  let ?l = "history (HistoryBigMap s) ?k"
  let ?big = "gput (take 2 ?k) (gput ?k (judge_push (Remain env) it ?l) m) (HistoryBigMap s)"
  have l: "?l = (case gget m ?k of None \<Rightarrow> [] | Some l \<Rightarrow> l)"
    using m(1) by (simp add: history_def)
  have good_l: "?l = [] \<or> good_list (Remain env) (take 2 ?k) ?k ?l"
    using m(2) l by (auto simp: good_shard_def split: option.splits)
  show ?thesis
  proof (cases "wanted rules it")
    case False
    then have "s' = s \<or> s' = s1"
      using assms(4) s1 by (auto simp: send_item_def wanted_def filter_empty_conv split: if_splits)
    then show ?thesis using False s1 assms(1,2) by auto
  next
    case True
    then have pos: "0 < ji_Timestamp it" by (simp add: wanted_def)
    have push: "JudgeItemMap_PushFrontAndMaintain env (take 2 ?k) ?k it (Remain env) now s1 = Inr s'"
      using assms(4) s1 True
      by (auto simp: send_item_def wanted_def filter_empty_conv slice_PrimaryKey Let_def split: if_splits)
    have new: "judge_push (Remain env) it [] = [it]" using assms(3) by (simp add: judge_push_eq)
    have s': "fixed_rules env rules s' \<and> HistoryBigMap s' = ?big"
    proof (cases "gget m ?k")
      case None
      then show ?thesis
        using push m(1) s1 l new Judge_fixed [of env rules "s1\<lparr>HistoryBigMap := ?big\<rparr>" "[it]" it now s']
        by (simp add: JudgeItemMap_PushFrontAndMaintain_def shard_def JudgeItemMap_Set_def)
    next
      case (Some l0)
      obtain b where "PushFrontAndMaintain it (Remain env) l0 = Inr (b, judge_push (Remain env) it l0)"
        using PushFrontAndMaintain_push [OF assms(3)] by blast
      then show ?thesis
        using push m(1) s1 l Some
          Judge_fixed [of env rules "s1\<lparr>HistoryBigMap := ?big\<rparr>" "judge_push (Remain env) it l0" it now s']
        by (cases b) (auto simp: JudgeItemMap_PushFrontAndMaintain_def shard_def JudgeItemMap_Set_def Let_def)
    qed
    moreover have "good_history (Remain env) ?big"
      using judge_push_good [OF good_l assms(3) pos refl refl] m(2) assms(2)
      by (intro good_history_put good_shard_put)
    ultimately show ?thesis
      using True history_put [OF m(1) refl] by simp
  qed
qed

section \<open>Facts: cleaning\<close>

lemma stale_keys_filter:
  assumes "gwf m"
  shows "stale_keys before m =
    filter (\<lambda>k. case gget m k of None \<Rightarrow> False | Some l \<Rightarrow> l \<noteq> [] \<and> ji_Timestamp (hd l) < before) (gkeys m)"
proof -
  have "filter (\<lambda>(key, L). L \<noteq> [] \<and> ji_Timestamp (hd L) < before) m =
      filter (\<lambda>p. case gget m (fst p) of None \<Rightarrow> False | Some l \<Rightarrow> l \<noteq> [] \<and> ji_Timestamp (hd l) < before) m"
    using assms by (intro filter_cong) (auto simp: gwf_def)
  then show ?thesis by (simp add: stale_keys_def filter_map o_def)
qed

lemma CleanStale_get:
  assumes "gwf m"
  shows "gget (JudgeItemMap_CleanStale before m) k =
    (case gget m k of None \<Rightarrow> None
     | Some l \<Rightarrow> if l \<noteq> [] \<and> ji_Timestamp (hd l) < before then None else Some l)"
proof -
  have batch: "JudgeItemMap_BatchDelete ks m = foldl (\<lambda>m k. gdel k m) m ks" for ks
    by (simp add: JudgeItemMap_BatchDelete_def)
  show ?thesis
    unfolding JudgeItemMap_CleanStale_def batch stale_keys_filter [OF assms]
    by (subst gm.get_del_filter [OF assms]) (auto split: option.splits)
qed

lemma CleanStale_good: "good_shard remain name m \<Longrightarrow> good_shard remain name (JudgeItemMap_CleanStale before m)"
proof -
  assume m: "good_shard remain name m"
  then have w: "gwf m" by (simp add: good_shard_def)
  then have "gwf (JudgeItemMap_CleanStale before m)"
    by (simp add: JudgeItemMap_CleanStale_def JudgeItemMap_BatchDelete_def gm.inv_del_all)
  then show ?thesis
    using m by (auto simp: good_shard_def CleanStale_get [OF w] split: option.splits if_splits)
qed

lemma clean_shards_get:
  assumes "\<forall>name \<in> set names. gget big name \<noteq> None" "distinct names"
  shows "\<exists>big'. clean_shards before names big = Inr big' \<and>
    (\<forall>name. gget big' name = (case gget big name of None \<Rightarrow> None
       | Some m \<Rightarrow> Some (if name \<in> set names then JudgeItemMap_CleanStale before m else m)))"
  using assms
proof (induction names arbitrary: big)
  case (Cons n names)
  then obtain m where m: "gget big n = Some m" by auto
  let ?big = "gput n (JudgeItemMap_CleanStale before m) big"
  have "\<forall>name \<in> set names. gget ?big name \<noteq> None" "distinct names"
    using Cons.prems by auto
  from Cons.IH [OF this] obtain big' where big': "clean_shards before names ?big = Inr big'"
    "\<forall>name. gget big' name = (case gget ?big name of None \<Rightarrow> None
       | Some m \<Rightarrow> Some (if name \<in> set names then JudgeItemMap_CleanStale before m else m))"
    by blast
  then show ?case using m Cons.prems(2) by (auto simp: shard_def split: option.splits)
qed (auto split: option.splits)

section \<open>Facts: the expressions of a sample\<close>

text \<open>The expressions handled by the nested loops, each id once, and the judging of a list of them.\<close>

fun fresh_ids :: "int list \<Rightarrow> expression list \<Rightarrow> expression list" where
  "fresh_ids h [] = []"
| "fresh_ids h (e # es) = (if ex_Id e \<in> set h then fresh_ids h es else e # fresh_ids (ex_Id e # h) es)"

fun judge_expressions ::
  "judge_env \<Rightarrow> judge_item list \<Rightarrow> judge_item \<Rightarrow> int \<Rightarrow> expression list \<Rightarrow> judge_state \<Rightarrow> judge_state res" where
  "judge_expressions env L it now [] s = Inr s"
| "judge_expressions env L it now (e # es) s =
     bind_res (judgeItemWithExpression env L e it now s) (judge_expressions env L it now es)"

definition entries :: "('k, 'v list) gomap \<Rightarrow> 'k \<Rightarrow> 'v list" where
  "entries m k = (case gget m k of Some l \<Rightarrow> l | None \<Rightarrow> [])"

definition found_expressions :: "(string, expression list) gomap \<Rightarrow> judge_item \<Rightarrow> expression list" where
  "found_expressions m it =
     concat (map (\<lambda>k. filter (exp_related it) (entries m k)) (buildKeysFromMetricAndTags it))"

lemma bind_res_assoc: "bind_res (bind_res r f) g = bind_res r (\<lambda>x. bind_res (f x) g)"
  by (cases r) simp_all

lemma related_loop_eq:
  "related_loop env L it now es (h, s) =
     bind_res (judge_expressions env L it now (fresh_ids h es) s)
       (\<lambda>s'. Inr (rev (map ex_Id (fresh_ids h es)) @ h, s'))"
  by (induction es arbitrary: h s) (simp_all add: bind_res_assoc)

lemma judge_expressions_append:
  "judge_expressions env L it now (es @ es') s =
     bind_res (judge_expressions env L it now es s) (judge_expressions env L it now es')"
  by (induction es arbitrary: s) (simp_all add: bind_res_def split: sum.splits)

lemma fresh_ids_append:
  "fresh_ids h (es @ es') = fresh_ids h es @ fresh_ids (rev (map ex_Id (fresh_ids h es)) @ h) es'"
  by (induction h es rule: fresh_ids.induct) simp_all

lemma keys_loop_eq:
  "keys_loop env m L it now keys (h, s) =
     (let es = fresh_ids h (concat (map (\<lambda>k. filter (exp_related it) (entries m k)) keys))
      in bind_res (judge_expressions env L it now es s) (\<lambda>s'. Inr (rev (map ex_Id es) @ h, s')))"
proof (induction keys arbitrary: h s)
  case (Cons k keys)
  have entries: "keys_loop env m L it now (k # keys) (h, s) =
      bind_res (related_loop env L it now (filter (exp_related it) (entries m k)) (h, s))
        (keys_loop env m L it now keys)"
    by (cases "gget m k") (auto simp: entries_def filterRelatedExpressions_def)
  show ?case
    unfolding entries related_loop_eq
    by (simp add: Cons.IH Let_def bind_res_assoc fresh_ids_append judge_expressions_append)
qed simp

lemma CheckExpression_eq:
  "CheckExpression env m L it now s =
     judge_expressions env L it now (fresh_ids [] (found_expressions m it)) s"
proof -
  have "buildKeysFromMetricAndTags it \<noteq> []" by (simp add: buildKeysFromMetricAndTags_def)
  then show ?thesis
    by (simp add: CheckExpression_def keys_loop_eq Let_def bind_res_assoc found_expressions_def)
       (simp add: bind_res_def sum.case_eq_if split: sum.splits)
qed

lemma fresh_ids_set: "set (fresh_ids h es) \<subseteq> set es"
  by (induction h es rule: fresh_ids.induct) auto

lemma fresh_ids_ids: "ex_Id ` set (fresh_ids h es) = ex_Id ` set es - set h"
  by (induction h es rule: fresh_ids.induct) auto

lemma fresh_ids_distinct: "distinct (map ex_Id (fresh_ids h es))"
proof (induction h es rule: fresh_ids.induct)
  case (2 h e es)
  have "ex_Id e \<notin> ex_Id ` set (fresh_ids (ex_Id e # h) es)" by (simp add: fresh_ids_ids)
  then show ?case using 2 by simp
qed simp

lemma entries_gappend: "entries (gappend key x m) k = entries m k @ (if k = key then [x] else [])"
  by (auto simp: entries_def gappend_def split: option.splits)

lemma set_entries_tags:
  "set (entries (foldl (\<lambda>m (k, v). gappend (f k v) e m) m ts) key) =
     set (entries m key) \<union> {x. x = e \<and> (\<exists>(k, v) \<in> set ts. key = f k v)}"
  by (induction ts arbitrary: m) (auto simp: entries_gappend split: prod.splits)

definition exp_key :: "string \<Rightarrow> string \<Rightarrow> string \<Rightarrow> string" where
  "exp_key metric k v = metric @ ''/'' @ k @ ''='' @ v"

lemma set_entries_expressions:
  "set (entries (ExpressionMap (rebuildExpressionMap es s)) key) =
     {e \<in> set es. \<exists>(k, v) \<in> set (ex_Tags e). key = exp_key (ex_Metric e) k v}"
proof -
  have "set (entries (foldl (\<lambda>m e. foldl (\<lambda>m (k, v). gappend (exp_key (ex_Metric e) k v) e m)
                                  m (ex_Tags e)) m es) key) =
     set (entries m key) \<union> {e \<in> set es. \<exists>(k, v) \<in> set (ex_Tags e). key = exp_key (ex_Metric e) k v}" for m
    by (induction es arbitrary: m) (auto simp: set_entries_tags)
  from this [of "[]"] show ?thesis
    by (simp add: rebuildExpressionMap_def entries_def exp_key_def)
qed

lemma tags_related_iff: "tags_related own ts \<longleftrightarrow> (\<forall>(k, v) \<in> set ts. gget own k = Some v)"
  by (induction own ts rule: tags_related.induct) (auto split: option.splits)

text \<open>What a sample answers for a tag of an expression: the endpoint stands in for a missing tag of that name.\<close>

definition item_tag :: "judge_item \<Rightarrow> string \<Rightarrow> string option" where
  "item_tag it k =
     (case gget (ji_Tags it) k of Some v \<Rightarrow> Some v
      | None \<Rightarrow> if k = ''endpoint'' then Some (ji_Endpoint it) else None)"

definition concerns :: "expression \<Rightarrow> judge_item \<Rightarrow> bool" where
  "concerns e it \<longleftrightarrow> ex_Metric e = ji_Metric it \<and> ex_Tags e \<noteq> [] \<and>
     (\<forall>(k, v) \<in> set (ex_Tags e). item_tag it k = Some v)"

lemma get_copyItemTags: "gwf (ji_Tags it) \<Longrightarrow> gget (copyItemTags it) k = item_tag it k"
proof -
  assume "gwf (ji_Tags it)"
  moreover have "gwf [(''endpoint'', ji_Endpoint it)]" by (simp add: gwf_def)
  ultimately have "gget (copyItemTags it) = gget [(''endpoint'', ji_Endpoint it)] ++ gget (ji_Tags it)"
    unfolding copyItemTags_def by (subst gm.get_put_all) (simp_all add: map_of_rev)
  then show ?thesis by (simp add: item_tag_def map_add_def split: option.splits)
qed

lemma exp_related_iff:
  assumes "gwf (ji_Tags it)"
  shows "exp_related it e \<longleftrightarrow> (\<forall>(k, v) \<in> set (ex_Tags e). item_tag it k = Some v)"
proof (cases "gget (ex_Tags e) ''endpoint''")
  case None
  then have "k \<noteq> ''endpoint''" if "(k, v) \<in> set (ex_Tags e)" for k v
    using that by (auto simp: map_of_eq_None_iff image_iff)
  then show ?thesis
    using None by (fastforce simp: exp_related_def tags_related_iff item_tag_def split: option.splits)
next
  case (Some x)
  then show ?thesis
    by (simp add: exp_related_def tags_related_iff get_copyItemTags [OF assms])
qed

lemma cut_unique: "c \<notin> set a \<Longrightarrow> c \<notin> set b \<Longrightarrow> a @ c # x = b @ c # y \<Longrightarrow> a = b \<and> x = y"
  by (metis takeWhile_cut same_append_eq list.inject)

lemma item_keys:
  "key \<in> set (buildKeysFromMetricAndTags it) \<longleftrightarrow>
     (\<exists>(k, v) \<in> insert (''endpoint'', ji_Endpoint it) (set (ji_Tags it)). key = exp_key (ji_Metric it) k v)"
  by (auto simp: buildKeysFromMetricAndTags_def exp_key_def)

lemma found_iff:
  assumes "gwf (ji_Tags it)" "CHR ''/'' \<notin> set (ji_Metric it)" "\<forall>e \<in> set es. CHR ''/'' \<notin> set (ex_Metric e)"
  shows "set (found_expressions (ExpressionMap (rebuildExpressionMap es s)) it) = {e \<in> set es. concerns e it}"
proof (intro set_eqI iffI)
  fix e
  assume "e \<in> set (found_expressions (ExpressionMap (rebuildExpressionMap es s)) it)"
  then obtain k v k' v' where e: "e \<in> set es" "exp_related it e" "(k, v) \<in> set (ex_Tags e)"
      "exp_key (ji_Metric it) k' v' = exp_key (ex_Metric e) k v"
    by (auto simp: found_expressions_def set_entries_expressions item_keys)
  then have "ji_Metric it = ex_Metric e"
    using assms(2,3) cut_unique [of "CHR ''/''" "ji_Metric it" "ex_Metric e"]
    by (auto simp: exp_key_def)
  then show "e \<in> {e \<in> set es. concerns e it}"
    using e by (auto simp: concerns_def exp_related_iff [OF assms(1)])
next
  fix e
  assume e: "e \<in> {e \<in> set es. concerns e it}"
  then obtain k v where kv: "(k, v) \<in> set (ex_Tags e)" "item_tag it k = Some v"
    by (fastforce simp: concerns_def neq_Nil_conv)
  then have "(k, v) \<in> insert (''endpoint'', ji_Endpoint it) (set (ji_Tags it))"
    by (auto simp: item_tag_def dest: map_of_SomeD split: option.splits if_splits)
  then have "exp_key (ji_Metric it) k v \<in> set (buildKeysFromMetricAndTags it)"
    by (auto simp: item_keys)
  moreover have "e \<in> set (entries (ExpressionMap (rebuildExpressionMap es s)) (exp_key (ji_Metric it) k v))"
    using e kv by (auto simp: set_entries_expressions concerns_def)
  ultimately show "e \<in> set (found_expressions (ExpressionMap (rebuildExpressionMap es s)) it)"
    using e by (auto simp: found_expressions_def concerns_def exp_related_iff [OF assms(1)])
qed

section \<open>Properties\<close>

text \<open>
  C16: \<open>Send\<close> keeps the histories right, for any stream of samples. While the rules do not change, the
  history of every series after a batch is what pushing the accepted samples of that series one
  after the other gives, and the histories stay well formed: 256 shards, every list under its
  primary key in the shard of its first two hex digits (no sample misses its shard), not empty, no
  longer than the configured length, newest first, of samples of that series with positive times.
\<close>

theorem send_histories:
  assumes "fixed_rules env rules s" "good_history (Remain env) (HistoryBigMap s)" "1 \<le> Remain env"
    and "Send env now items s = Inr s'"
  shows "good_history (Remain env) (HistoryBigMap s') \<and>
    history (HistoryBigMap s') k =
      foldl (\<lambda>l it. judge_push (Remain env) it l) (history (HistoryBigMap s) k)
        (filter (\<lambda>it. wanted rules it \<and> JudgeItem_PrimaryKey it = k) items)"
  using assms(1,2,4)
proof (induction items arbitrary: s)
  case (Cons it items)
  obtain s1 where s1: "send_item env now it s = Inr s1" "Send env now items s1 = Inr s'"
    using Cons.prems(3) by auto
  note step = send_item_history [OF Cons.prems(1,2) assms(3) s1(1)]
  show ?case
    using Cons.IH [of s1] step s1(2) by (cases "wanted rules it") (auto simp: fun_upd_def)
qed simp

definition demo_store :: store_state where
  "demo_store = \<lparr>Alarms = judge_init, HostSSCache = [], Ticks = 0, StrategyMap = [], ExpressionMap = [],
     FilterMap = [], HistoryBigMap = InitHistoryBigMap\<rparr>"

definition demo_store_env :: store_env where
  "demo_store_env = \<lparr>AlarmEnv = demo_env, HbsGetOneEndStrategies = (\<lambda>h n. Some [demo_strategy\<lparr>st_Func := []\<rparr>]),
     Clock = (\<lambda>n. int n), Remain = 11\<rparr>"

definition demo_item :: "int \<Rightarrow> judge_item" where
  "demo_item t = \<lparr>ji_Endpoint = ''h1'', ji_Metric = ''cpu.idle'', ji_Value = fint 3, ji_Timestamp = t,
     ji_JudgeType = ''GAUGE'', ji_Tags = []\<rparr>"

lemma InitHistoryBigMap_get:
  "gget InitHistoryBigMap name = (if name \<in> set shard_names then Some [] else None)"
proof -
  have "gget (foldl (\<lambda>m name. gput name [] m) m names) name =
      (if name \<in> set names then Some [] else gget m name)" for m :: "(string, judge_item_map) gomap" and names
    by (induction names arbitrary: m) auto
  then show ?thesis by (simp add: InitHistoryBigMap_def)
qed

lemma good_history_init: "good_history remain InitHistoryBigMap"
  by (auto simp: good_history_def InitHistoryBigMap_get good_shard_def split: if_splits)

theorem send_histories_witness:
  "\<exists>s'. Send demo_store_env 61 [demo_item 60] demo_store = Inr s' \<and>
    history (HistoryBigMap s') (JudgeItem_PrimaryKey (demo_item 60)) = [demo_item 60]"
proof -
  let ?rules = "\<lambda>h. [demo_strategy\<lparr>st_Func := []\<rparr>]" and ?k = "JudgeItem_PrimaryKey (demo_item 60)"
  have rules: "fixed_rules demo_store_env ?rules demo_store"
    by (simp add: fixed_rules_def demo_store_env_def demo_store_def)
  have good: "good_history (Remain demo_store_env) (HistoryBigMap demo_store)"
    by (simp add: demo_store_def good_history_init)
  have item: "ji_Timestamp (demo_item 60) = 60" "ji_Metric (demo_item 60) = ''cpu.idle''"
      "ji_Endpoint (demo_item 60) = ''h1''" "ji_Tags (demo_item 60) = []"
    by (simp_all add: demo_item_def)
  have quiet: "judgeItemWithStrategy env L (demo_strategy\<lparr>st_Func := []\<rparr>) it now a = Inr a" for env L it now a
    by (simp add: judgeItemWithStrategy_def with_func_def ParseFuncFromString_def)
  have related: "st_Tags demo_strategy = []" "st_Metric demo_strategy = ''cpu.idle''"
    by (simp_all add: demo_strategy_def)
  have "\<exists>s'. Send demo_store_env 61 [demo_item 60] demo_store = Inr s'"
    using shard_of_PrimaryKey [of "demo_item 60"]
    by (simp add: send_item_def item CheckNeedJudge_def JudgeHostStrategies_def cache_get_def
        demo_store_def demo_store_env_def GetOneStrategy_def related Let_def slice_PrimaryKey
        JudgeItemMap_PushFrontAndMaintain_def shard_def InitHistoryBigMap_get Judge_def
        CheckStrategy_def quiet CheckExpression_eq found_expressions_def entries_def
        JudgeItemMap_Set_def buildKeysFromMetricAndTags_def split: option.splits if_splits)
  then obtain s' where s': "Send demo_store_env 61 [demo_item 60] demo_store = Inr s'" by blast
  have "wanted ?rules (demo_item 60)" by (simp add: wanted_def item related)
  then have "history (HistoryBigMap s') ?k = [demo_item 60]"
    using send_histories [OF rules good _ s', of ?k]
    by (simp add: demo_store_env_def demo_store_def history_def InitHistoryBigMap_get judge_push_eq)
  with s' show ?thesis by blast
qed

text \<open>
  The weekly cleaning removes the series whose newest sample is older than seven days, those
  only, touches no other history, keeps the shards well formed and cannot fail.
\<close>

theorem cleanStale_exact:
  assumes "good_history remain (HistoryBigMap s)"
  shows "\<exists>s'. cleanStale now s = Inr s' \<and> good_history remain (HistoryBigMap s') \<and>
    (\<forall>k. take 2 k \<in> set shard_names \<longrightarrow> history (HistoryBigMap s') k =
      (if history (HistoryBigMap s) k \<noteq> [] \<and>
          ji_Timestamp (hd (history (HistoryBigMap s) k)) < now - 604800
       then [] else history (HistoryBigMap s) k))"
proof -
  let ?b = "now - 604800"
  have "\<forall>name \<in> set shard_names. gget (HistoryBigMap s) name \<noteq> None"
    using assms by (simp add: good_history_def)
  from clean_shards_get [OF this distinct_shard_names, of ?b] obtain big where
    big: "clean_shards ?b shard_names (HistoryBigMap s) = Inr big"
    and get: "\<And>name. gget big name = (case gget (HistoryBigMap s) name of None \<Rightarrow> None
       | Some m \<Rightarrow> Some (if name \<in> set shard_names then JudgeItemMap_CleanStale ?b m else m))"
    by blast
  have "good_history remain big"
    using assms CleanStale_good by (auto simp: good_history_def get split: option.splits if_splits)
  moreover have "history big k =
      (if history (HistoryBigMap s) k \<noteq> [] \<and> ji_Timestamp (hd (history (HistoryBigMap s) k)) < ?b
       then [] else history (HistoryBigMap s) k)" if k: "take 2 k \<in> set shard_names" for k
  proof -
    obtain m where m: "gget (HistoryBigMap s) (take 2 k) = Some m" "good_shard remain (take 2 k) m"
      using good_history_shard [OF assms k] by metis
    then have "gwf m" by (simp add: good_shard_def)
    then show ?thesis using m k by (auto simp: history_def get CleanStale_get split: option.splits)
  qed
  ultimately show ?thesis using big by (simp add: cleanStale_def)
qed

theorem cleanStale_exact_witness:
  "\<exists>s'. cleanStale 1000000 demo_store = Inr s' \<and> good_history 11 (HistoryBigMap s')"
  using cleanStale_exact [of 11 demo_store 1000000] good_history_init by (auto simp: demo_store_def)

text \<open>
  C19: The index of expressions is complete and sound. After the map is rebuilt from a list of
  expressions, checking a sample judges, for every id at most once, exactly the expressions of its
  metric that have tags and whose every tag the sample carries (its endpoint counts as a tag): no
  such expression is missed and no other is judged, whatever the order of the maps.
\<close>

theorem expressions_found:
  assumes "gwf (ji_Tags it)" "CHR ''/'' \<notin> set (ji_Metric it)" "\<forall>e \<in> set es. CHR ''/'' \<notin> set (ex_Metric e)"
  shows "\<exists>judged. (\<forall>env L now a.
      CheckExpression env (ExpressionMap (rebuildExpressionMap es s)) L it now a =
        judge_expressions env L it now judged a)
    \<and> distinct (map ex_Id judged)
    \<and> set judged \<subseteq> {e \<in> set es. concerns e it}
    \<and> ex_Id ` set judged = ex_Id ` {e \<in> set es. concerns e it}"
proof (intro exI conjI allI)
  let ?j = "fresh_ids [] (found_expressions (ExpressionMap (rebuildExpressionMap es s)) it)"
  show "CheckExpression env (ExpressionMap (rebuildExpressionMap es s)) L it now a =
      judge_expressions env L it now ?j a" for env L now a
    by (rule CheckExpression_eq)
  show "distinct (map ex_Id ?j)" by (rule fresh_ids_distinct)
  show "set ?j \<subseteq> {e \<in> set es. concerns e it}" using fresh_ids_set found_iff [OF assms] by blast
  show "ex_Id ` set ?j = ex_Id ` {e \<in> set es. concerns e it}"
    by (simp add: fresh_ids_ids found_iff [OF assms])
qed

definition demo_expression :: expression where
  "demo_expression = \<lparr>ex_Id = 1, ex_Metric = ''cpu.idle'', ex_Tags = [(''endpoint'', ''h1'')],
     ex_Func = ''all(#3)'', ex_Operator = ''<'', ex_RightValue = fint 10, ex_MaxStep = 1,
     ex_Priority = 0, ex_Note = [], ex_ActionId = 1\<rparr>"

theorem expressions_found_witness:
  "\<exists>judged. (\<forall>env L now a. CheckExpression env (ExpressionMap (rebuildExpressionMap [demo_expression] demo_store)) L
      (demo_item 60) now a = judge_expressions env L (demo_item 60) now judged a)
    \<and> set judged = {demo_expression}"
proof -
  have "concerns demo_expression (demo_item 60)"
    by (simp add: concerns_def demo_expression_def demo_item_def item_tag_def)
  then have "{e \<in> set [demo_expression]. concerns e (demo_item 60)} = {demo_expression}" by auto
  then show ?thesis
    using expressions_found [of "demo_item 60" "[demo_expression]" demo_store]
    by (fastforce simp: demo_item_def demo_expression_def subset_singleton_iff)
qed

end
