(* ===== verification/Judge_Union.thy ===== *)
theory Judge_Union
  imports Judge_Store
begin

text \<open>
  Combined alarms (\<open>modules/judge/store/union_judge.go\<close>, \<open>Judge.UnionJudge\<close> in
  \<open>modules/judge/rpc/receiver.go\<close>): the last event of every strategy of a combination is kept, and an
  alarm goes out when all of them have triggered, a recovery when all of them have recovered.
\<close>

section \<open>Definitions\<close>

type_synonym union_map = "(string, event) gomap"

record union_state =
  UAlarms :: judge_state
  UnionJudgeHistoryMap :: "(string, union_map) gomap"

text \<open>
  The configuration and the two answers of the heartbeat server to \<open>GetOneUnionStrategies\<close> while one
  event is handled, first in the RPC handler and then in \<open>SetAndJudge\<close>; \<open>None\<close> is an error.
\<close>

record union_env =
  UEnv :: judge_env
  FirstAnswer :: "int \<Rightarrow> strategy list option"
  SecondAnswer :: "int \<Rightarrow> strategy list option"

definition GetOneUnionStrategy :: "(int \<Rightarrow> strategy list option) \<Rightarrow> int \<Rightarrow> strategy list" where
  "GetOneUnionStrategy answer i = (case answer i of None \<Rightarrow> [] | Some r \<Rightarrow> r)"

definition SafeUnionJudgeHistoryMap_Exists :: "string \<Rightarrow> (string, union_map) gomap \<Rightarrow> bool" where
  "SafeUnionJudgeHistoryMap_Exists key m = (gget m key \<noteq> None)"

abbreviation SafeUnionJudgeHistoryMap_Get :: "string \<Rightarrow> (string, union_map) gomap \<Rightarrow> union_map option" where
  "SafeUnionJudgeHistoryMap_Get key m \<equiv> gget m key"

definition SafeUnionJudgeHistoryMap_Set ::
  "string \<Rightarrow> union_map \<Rightarrow> (string, union_map) gomap \<Rightarrow> (string, union_map) gomap" where
  "SafeUnionJudgeHistoryMap_Set key val m = gput key val m"

definition NewUnionJudgeEvent :: union_map where
  "NewUnionJudgeEvent = []"

definition UnionJudge_Get :: "string \<Rightarrow> union_map \<Rightarrow> event option" where
  "UnionJudge_Get key m = gget m key"

text \<open>The loop over the map: the recovered events are counted, the other events collected.\<close>

fun chain_loop :: "string \<Rightarrow> union_map \<Rightarrow> event list \<Rightarrow> nat \<Rightarrow> event list \<times> nat" where
  "chain_loop key [] eChain okNum = (eChain, okNum)"
| "chain_loop key ((keyIn, e) # m) eChain okNum =
     (let okNum = (if ev_Status e = ''OK'' then okNum + 1 else okNum);
          eChain = (if key \<noteq> keyIn then eChain @ [e] else eChain)
      in chain_loop key m eChain okNum)"

text \<open>
  The event in the map is the object that is sent, so what is assigned to its chain and step shows in
  the map as well.
\<close>

definition send_union ::
  "judge_env \<Rightarrow> string \<Rightarrow> string \<Rightarrow> event \<Rightarrow> union_map \<Rightarrow> judge_state \<Rightarrow> (union_map \<times> judge_state) res" where
  "send_union env key uid e M s =
     bind_res (sendEvent env e (s\<lparr>UnionLastEvents := SafeEventMap_Set uid e (UnionLastEvents s)\<rparr>))
       (\<lambda>s'. Inr (gput key e M, s'))"

definition SetAndJudge ::
  "union_env \<Rightarrow> string \<Rightarrow> event \<Rightarrow> int \<Rightarrow> union_map \<Rightarrow> judge_state \<Rightarrow> (union_map \<times> judge_state) res" where
  "SetAndJudge env key event now M s =
     bind_res (union_id event) (\<lambda>unionId.
       let sChain = GetOneUnionStrategy (SecondAnswer env) unionId;
           M = gput key event M;
           uid = itoa unionId in
       if length sChain \<noteq> length M then Inr (M, s)
       else let (eChain, okNum) = chain_loop key M [] 0;
                event = set_EventChain eChain event;
                M = gput key event M in
         if okNum = length sChain then send_union (UEnv env) key uid event M s
         else if okNum = 0 then
           (case SafeEventMap_Get uid (UnionLastEvents s) of
              None \<Rightarrow> send_union (UEnv env) key uid event M s
            | Some lastEvent \<Rightarrow>
                if ev_Status lastEvent = ''OK''
                then send_union (UEnv env) key uid (set_CurrentStep 1 event) M s
                else bind_res (MaxStep lastEvent) (\<lambda>maxStep.
                  if maxStep \<le> ev_CurrentStep lastEvent then Inr (M, s)
                  else if now - ev_EventTime lastEvent < MinInterval (UEnv env) then Inr (M, s)
                  else send_union (UEnv env) key uid
                         (set_CurrentStep (ev_CurrentStep lastEvent + 1) event) M s))
         else Inr (M, s))"

definition union_key :: "strategy list \<Rightarrow> string" where
  "union_key sts = concat (sort ([] # map (\<lambda>i. Counter (st_Metric i) (st_Tags i)) sts))"

definition UnionJudge :: "union_env \<Rightarrow> event \<Rightarrow> int \<Rightarrow> union_state \<Rightarrow> union_state res" where
  "UnionJudge env event now s =
     (case ev_Strategy event of None \<Rightarrow> nil_deref
      | Some st \<Rightarrow>
         if st_UnionStrategyId st \<le> 0 then Inl (Err ''not union strategy'')
         else let thisCounter = Counter (st_Metric st) (st_Tags st);
                  unionID = union_key (GetOneUnionStrategy (FirstAnswer env) (st_UnionStrategyId st));
                  unionJudge = (case SafeUnionJudgeHistoryMap_Get unionID (UnionJudgeHistoryMap s) of
                                  Some m \<Rightarrow> m | None \<Rightarrow> NewUnionJudgeEvent)
              in bind_res (SetAndJudge env thisCounter event now unionJudge (UAlarms s)) (\<lambda>(m, a).
                   Inr (s\<lparr>UAlarms := a,
                          UnionJudgeHistoryMap :=
                            SafeUnionJudgeHistoryMap_Set unionID m (UnionJudgeHistoryMap s)\<rparr>)))"

section \<open>Facts\<close>

lemma chain_loop_eq:
  "chain_loop key m ec n =
     (ec @ map snd (filter (\<lambda>(k, e). key \<noteq> k) m), n + length (filter (\<lambda>(k, e). ev_Status e = ''OK'') m))"
  by (induction key m ec n rule: chain_loop.induct) (auto simp: Let_def)

text \<open>The strategies of a combination, by their counters.\<close>

definition counters :: "strategy list \<Rightarrow> string list" where
  "counters sts = map (\<lambda>i. Counter (st_Metric i) (st_Tags i)) sts"

definition good_union :: "strategy list \<Rightarrow> union_map \<Rightarrow> bool" where
  "good_union sts M \<longleftrightarrow> gwf M \<and> set (gkeys M) \<subseteq> set (counters sts)"

lemma complete_iff:
  assumes "good_union sts M" "distinct (counters sts)"
  shows "length sts = length M \<longleftrightarrow> set (gkeys M) = set (counters sts)"
proof -
  have d: "distinct (gkeys M)" "set (gkeys M) \<subseteq> set (counters sts)"
    using assms(1) by (auto simp: good_union_def gwf_def)
  have "card (set (gkeys M)) = length M" "card (set (counters sts)) = length sts"
    using d(1) assms(2) distinct_card [of "gkeys M"] distinct_card [of "counters sts"]
    by (auto simp: counters_def)
  then show ?thesis using d(2) by (metis List.finite_set card_subset_eq)
qed

lemma good_union_put: "good_union sts M \<Longrightarrow> key \<in> set (counters sts) \<Longrightarrow> good_union sts (gput key e M)"
  by (auto simp: good_union_def gkeys_dom simp del: set_map dest!: subsetD [OF _ domI] split: if_splits)

lemma gwf_get_set: "gwf M \<Longrightarrow> (k, e) \<in> set M \<longleftrightarrow> gget M k = Some e"
  by (simp add: gwf_def)

lemma filter_all_length: "length (filter P xs) = length xs \<longleftrightarrow> (\<forall>x \<in> set xs. P x)"
  by (metis filter_id_conv filter_True length_filter_less less_irrefl)

text \<open>
  The state of the combination when an event has arrived: nothing to say yet, all triggered or all
  recovered.
\<close>

datatype union_verdict = Mixed | AllTriggered | AllRecovered

definition union_verdict :: "strategy list \<Rightarrow> union_map \<Rightarrow> union_verdict" where
  "union_verdict sts M =
     (if \<not> list_all (\<lambda>c. gget M c \<noteq> None) (counters sts) then Mixed
      else if list_all (\<lambda>(k, e). ev_Status e = ''OK'') M then AllRecovered
      else if list_all (\<lambda>(k, e). ev_Status e \<noteq> ''OK'') M then AllTriggered
      else Mixed)"

text \<open>The step of the event to send, from the last alarm of the combination and the event's own step.\<close>

fun union_step :: "int \<Rightarrow> int \<Rightarrow> int \<Rightarrow> union_verdict \<Rightarrow> event option \<Rightarrow> int \<Rightarrow> int option" where
  "union_step minInt maxStep now Mixed l own = None"
| "union_step minInt maxStep now AllRecovered l own = Some own"
| "union_step minInt maxStep now AllTriggered None own = Some own"
| "union_step minInt maxStep now AllTriggered (Some l) own =
     (if ev_Status l = ''OK'' then Some 1
      else if ev_CurrentStep l < maxStep \<and> minInt \<le> now - ev_EventTime l
      then Some (ev_CurrentStep l + 1) else None)"

definition last_max :: "event option \<Rightarrow> int" where
  "last_max l = (case l of Some e \<Rightarrow> (case ev_Strategy e of Some st \<Rightarrow> st_MaxStep st | None \<Rightarrow> 0) | None \<Rightarrow> 0)"

lemma send_union_ok:
  assumes "ev_Strategy e = Some st"
  shows "send_union env key uid e M s = Inr (gput key e M,
    s\<lparr>UnionLastEvents := gput uid e (UnionLastEvents s), LastEvents := gput (ev_Id e) e (LastEvents s),
      RedisLog := RedisLog s @ (if json_ok e then [(QueueKey env (st_Priority st), e)] else [])\<rparr>)"
  using assms
  by (simp add: send_union_def sendEvent_def sendEventToRedis_def SafeEventMap_Set_def Priority_def by_rule_def)

lemma set_CurrentStep_own: "set_CurrentStep (ev_CurrentStep e) e = e"
  by (cases e) simp

lemma verdict_cases:
  assumes "good_union sts M" "distinct (counters sts)" "M \<noteq> []"
  shows "union_verdict sts M =
    (if length sts \<noteq> length M then Mixed
     else if length (filter (\<lambda>(k, e). ev_Status e = ''OK'') M) = length sts then AllRecovered
     else if length (filter (\<lambda>(k, e). ev_Status e = ''OK'') M) = 0 then AllTriggered
     else Mixed)"
proof -
  have "list_all (\<lambda>c. gget M c \<noteq> None) (counters sts) \<longleftrightarrow> set (counters sts) \<subseteq> set (gkeys M)"
    by (auto simp: list_all_iff gkeys_dom simp del: set_map)
  also have "\<dots> \<longleftrightarrow> length sts = length M"
    using complete_iff [OF assms(1,2)] assms(1) by (auto simp: good_union_def)
  finally show ?thesis
    using assms(3)
    by (auto simp: union_verdict_def list_all_iff filter_all_length filter_empty_conv split: prod.splits)
qed

section \<open>Properties\<close>

text \<open>
  C20: When a combination fires. Let an event of one of its strategies arrive, the counters of the
  strategies being distinct. \<open>SetAndJudge\<close> never fails; it sends exactly one event, with the other
  events as its chain, when every strategy has reported and all last reports are recoveries, or
  all are problems and the last alarm of the combination was a recovery, or had a step below the
  maximal one and is older than the minimal interval; otherwise it only records the event. The map
  of the combination keeps one event per strategy.
\<close>

theorem union_fires:
  assumes "good_union sts M" "distinct (counters sts)" "key \<in> set (counters sts)"
    and "ev_Strategy e = Some st" "SecondAnswer env (st_UnionStrategyId st) = Some sts"
    and "prev = gget (UnionLastEvents s) (itoa (st_UnionStrategyId st))"
    and "\<forall>l. prev = Some l \<longrightarrow> ev_Strategy l \<noteq> None"
  shows "\<exists>M' s'. SetAndJudge env key e now M s = Inr (M', s') \<and> good_union sts M' \<and>
    (case union_step (MinInterval (UEnv env)) (last_max prev) now
            (union_verdict sts (gput key e M)) prev (ev_CurrentStep e) of
       None \<Rightarrow> s' = s
     | Some n \<Rightarrow>
         let sent = set_CurrentStep n (set_EventChain (map snd (filter (\<lambda>(k, e). key \<noteq> k) (gput key e M))) e) in
         gget M' key = Some sent \<and>
         gget (UnionLastEvents s') (itoa (st_UnionStrategyId st)) = Some sent \<and>
         gget (LastEvents s') = (gget (LastEvents s))(ev_Id e \<mapsto> sent) \<and>
         RedisLog s' = RedisLog s @ (if json_ok sent then [(QueueKey (UEnv env) (st_Priority st), sent)] else []))"
proof -
  let ?M = "gput key e M"
  let ?chain = "map snd (filter (\<lambda>(k, e). key \<noteq> k) ?M)"
  let ?ok = "length (filter (\<lambda>(k, e). ev_Status e = ''OK'') ?M)"
  let ?e = "set_EventChain ?chain e"
  have good: "good_union sts ?M" "\<And>x y. good_union sts (gput key x (gput key y M))"
    using good_union_put assms(1,3) by blast+
  have "gget ?M key = Some e" by simp
  then have ne: "?M \<noteq> []" by (metis map_of.simps(1) option.distinct(1))
  note v = verdict_cases [OF good(1) assms(2) ne]
  have st: "ev_Strategy ?e = Some st" "\<And>n. ev_Strategy (set_CurrentStep n ?e) = Some st"
    using assms(4) by simp_all
  have own: "set_CurrentStep (ev_CurrentStep e) ?e = ?e"
    using set_CurrentStep_own [of ?e] by simp
  show ?thesis
  proof (cases "length sts = length ?M \<and> ?ok \<noteq> length sts \<and> ?ok = 0")
    case False
    then show ?thesis
      using good st own v assms(4,5)
      by (auto simp: SetAndJudge_def union_id_def GetOneUnionStrategy_def chain_loop_eq send_union_ok Let_def)
  next
    case True
    show ?thesis
    proof (cases prev)
      case None
      then show ?thesis
        using True good st own v assms(4,5,6)
        by (auto simp: SetAndJudge_def union_id_def GetOneUnionStrategy_def chain_loop_eq send_union_ok Let_def)
    next
      case (Some l)
      then obtain lst where "ev_Strategy l = Some lst" using assms(7) by auto
      then have max: "MaxStep l = Inr (last_max prev)"
        using Some by (simp add: MaxStep_def by_rule_def last_max_def)
      show ?thesis
        using True Some good st v assms(4,5,6) max
        by (auto simp: SetAndJudge_def union_id_def GetOneUnionStrategy_def chain_loop_eq send_union_ok Let_def)
    qed
  qed
qed

definition union_strategy :: "int \<Rightarrow> string \<Rightarrow> strategy" where
  "union_strategy i metric = demo_strategy\<lparr>st_Id := i, st_Metric := metric, st_UnionStrategyId := 5\<rparr>"

definition union_event :: "int \<Rightarrow> string \<Rightarrow> string \<Rightarrow> event" where
  "union_event i metric endpoint =
     Event ''s'' (Some (union_strategy i metric)) None ''PROBLEM'' endpoint (fint 3) 1 60 [] [] False"

definition union_demo_env :: union_env where
  "union_demo_env = \<lparr>UEnv = demo_env,
     FirstAnswer = (\<lambda>i. Some [union_strategy 1 ''cpu'', union_strategy 2 ''mem'']),
     SecondAnswer = (\<lambda>i. Some [union_strategy 1 ''cpu'', union_strategy 2 ''mem''])\<rparr>"

lemma union_demo_counters: "counters [union_strategy 1 ''cpu'', union_strategy 2 ''mem''] = [''cpu'', ''mem'']"
  by (simp add: counters_def union_strategy_def demo_strategy_def Counter_def)

theorem union_fires_witness:
  "\<exists>M' s'. SetAndJudge union_demo_env ''mem'' (union_event 2 ''mem'' ''h1'') 60
      [(''cpu'', union_event 1 ''cpu'' ''h1'')] judge_init = Inr (M', s')
    \<and> map snd (RedisLog s') = [set_EventChain [union_event 1 ''cpu'' ''h1''] (union_event 2 ''mem'' ''h1'')]"
proof -
  let ?M = "[(''cpu'', union_event 1 ''cpu'' ''h1'')]" and ?e = "union_event 2 ''mem'' ''h1''"
    and ?sts = "[union_strategy 1 ''cpu'', union_strategy 2 ''mem'']"
  have "good_union ?sts ?M" "distinct (counters ?sts)" "''mem'' \<in> set (counters ?sts)"
    by (simp_all add: good_union_def gwf_def union_demo_counters)
  moreover have "ev_Strategy ?e = Some (union_strategy 2 ''mem'')" by (simp add: union_event_def)
  moreover have "SecondAnswer union_demo_env (st_UnionStrategyId (union_strategy 2 ''mem'')) = Some ?sts"
    by (simp add: union_demo_env_def)
  moreover have "None = gget (UnionLastEvents judge_init) (itoa (st_UnionStrategyId (union_strategy 2 ''mem'')))"
    by (simp add: judge_init_def)
  ultimately have fires: "\<exists>M' s'. SetAndJudge union_demo_env ''mem'' ?e 60 ?M judge_init = Inr (M', s') \<and>
    good_union ?sts M' \<and>
    (case union_step (MinInterval (UEnv union_demo_env)) (last_max None) 60
            (union_verdict ?sts (gput ''mem'' ?e ?M)) None (ev_CurrentStep ?e) of
       None \<Rightarrow> s' = judge_init
     | Some n \<Rightarrow>
         let sent = set_CurrentStep n (set_EventChain (map snd (filter (\<lambda>(k, e). ''mem'' \<noteq> k) (gput ''mem'' ?e ?M))) ?e) in
         gget M' ''mem'' = Some sent \<and>
         gget (UnionLastEvents s') (itoa (st_UnionStrategyId (union_strategy 2 ''mem''))) = Some sent \<and>
         gget (LastEvents s') = (gget (LastEvents judge_init))(ev_Id ?e \<mapsto> sent) \<and>
         RedisLog s' = RedisLog judge_init @
           (if json_ok sent then [(QueueKey (UEnv union_demo_env) (st_Priority (union_strategy 2 ''mem'')), sent)] else []))"
    by (rule union_fires) simp
  have verdict: "union_verdict ?sts (gput ''mem'' ?e ?M) = AllTriggered"
    by (simp add: union_verdict_def union_demo_counters union_event_def)
  have sent: "set_CurrentStep 1 (set_EventChain [union_event 1 ''cpu'' ''h1''] ?e) =
      set_EventChain [union_event 1 ''cpu'' ''h1''] ?e" "ev_CurrentStep ?e = 1"
    "json_ok (set_EventChain [union_event 1 ''cpu'' ''h1''] ?e)"
    by (simp_all add: union_event_def union_strategy_def demo_strategy_def fint_def)
  from fires show ?thesis
    unfolding verdict by (auto simp: sent judge_init_def Let_def)
qed

text \<open>
  A combination does not tell hosts apart. A problem of its first strategy on one host and a
  problem of its second strategy on any other host, neither of which has a combined problem, make
  the combined alarm fire, with the event of the other host in its chain: the map of a combination
  is keyed by the counters of its strategies only.
\<close>

theorem union_mixes_hosts:
  assumes "ev_Strategy e1 = Some st1" "ev_Strategy e2 = Some st2"
    and "st_UnionStrategyId st1 = u" "st_UnionStrategyId st2 = u" "0 < u"
    and "FirstAnswer env u = Some [st1, st2]" "SecondAnswer env u = Some [st1, st2]"
    and "Counter (st_Metric st1) (st_Tags st1) \<noteq> Counter (st_Metric st2) (st_Tags st2)"
    and "ev_Status e1 = ''PROBLEM''" "ev_Status e2 = ''PROBLEM''" "json_ok e1" "json_ok e2"
    and "gget (UnionJudgeHistoryMap s) (union_key [st1, st2]) = None"
    and "gget (UnionLastEvents (UAlarms s)) (itoa u) = None"
  shows "\<exists>s1 s2. UnionJudge env e1 now s = Inr s1 \<and> UnionJudge env e2 now' s1 = Inr s2 \<and>
    RedisLog (UAlarms s1) = RedisLog (UAlarms s) \<and>
    RedisLog (UAlarms s2) = RedisLog (UAlarms s) @
      [(QueueKey (UEnv env) (st_Priority st2), set_EventChain [e1] e2)]"
proof -
  have json: "json_ok (set_EventChain [e1] e2)" "ev_Strategy (set_EventChain [e1] e2) = Some st2"
    using assms(2,11,12) by (cases e2; simp)+
  show ?thesis
    using assms json
    by (simp add: UnionJudge_def SetAndJudge_def union_id_def GetOneUnionStrategy_def chain_loop_eq
        NewUnionJudgeEvent_def SafeUnionJudgeHistoryMap_Set_def send_union_ok Let_def)
qed

theorem union_mixes_hosts_witness:
  "\<exists>s1 s2. UnionJudge union_demo_env (union_event 1 ''cpu'' ''h1'') 60
        \<lparr>UAlarms = judge_init, UnionJudgeHistoryMap = []\<rparr> = Inr s1
    \<and> UnionJudge union_demo_env (union_event 2 ''mem'' ''h2'') 70 s1 = Inr s2
    \<and> map (ev_Endpoint \<circ> snd) (RedisLog (UAlarms s2)) = [''h2'']"
proof -
  have 1: "ev_Strategy (union_event i m h) = Some (union_strategy i m)"
    "st_UnionStrategyId (union_strategy i m) = 5" "ev_Status (union_event i m h) = ''PROBLEM''"
    "json_ok (union_event i m h)" "Counter (st_Metric (union_strategy i m)) (st_Tags (union_strategy i m)) = m"
    for i m h
    by (simp_all add: union_event_def union_strategy_def demo_strategy_def fint_def Counter_def)
  have 2: "FirstAnswer union_demo_env 5 = Some [union_strategy 1 ''cpu'', union_strategy 2 ''mem'']"
    "SecondAnswer union_demo_env 5 = Some [union_strategy 1 ''cpu'', union_strategy 2 ''mem'']"
    by (simp_all add: union_demo_env_def)
  let ?s = "\<lparr>UAlarms = judge_init, UnionJudgeHistoryMap = []\<rparr>"
  from union_mixes_hosts [OF 1(1) 1(1) 1(2) 1(2) _ 2, of "''h1''" "''h2''" ?s 60 70]
  show ?thesis
    by (simp add: 1 judge_init_def) (auto simp: union_event_def)
qed

end
