(* ===== verification/Safe_List.thy ===== *)
theory Safe_List
  imports Falcon_Prelude
begin

text \<open>
  The locked lists of \<open>src/vendor/github.com/toolkits/container/list\<close> that the send queues of transfer
  and the history cache of graph are made of. A list is kept front first; a queue is filled at the
  front and drained from the back. \<open>maxSize\<close> bounds a \<open>SafeListLimited\<close>.
\<close>

section \<open>The list\<close>

definition SafeList_PushFront :: "'a \<Rightarrow> 'a list \<Rightarrow> 'a list" where
  "SafeList_PushFront v l = v # l"

definition SafeList_PushFrontBatch :: "'a list \<Rightarrow> 'a list \<Rightarrow> 'a list" where
  "SafeList_PushFrontBatch vs l = foldl (\<lambda>l item. SafeList_PushFront item l) l vs"

definition SafeList_PopBack :: "'a list \<Rightarrow> 'a option \<times> 'a list" where
  "SafeList_PopBack l = (if l = [] then (None, l) else (Some (last l), butlast l))"

text \<open>The loop that removes the back \<open>count\<close> times and collects what it removes.\<close>

fun pop_loop :: "nat \<Rightarrow> 'a list \<Rightarrow> 'a list \<Rightarrow> 'a list \<times> 'a list" where
  "pop_loop 0 items l = (items, l)"
| "pop_loop (Suc n) items l = (if l = [] then (items, l) else pop_loop n (items @ [last l]) (butlast l))"

text \<open>A negative \<open>max\<close> would make a slice of negative capacity, which panics.\<close>

definition SafeList_PopBackBy :: "int \<Rightarrow> 'a list \<Rightarrow> ('a list \<times> 'a list) res" where
  "SafeList_PopBackBy mx l =
     (let count = int (length l) in
      if count = 0 then Inr ([], l)
      else let count = (if mx < count then mx else count) in
        if count < 0 then Inl (Panic ''makeslice: cap out of range'')
        else Inr (pop_loop (nat count) [] l))"

definition SafeList_Front :: "'a list \<Rightarrow> 'a option" where
  "SafeList_Front l = (case l of [] \<Rightarrow> None | v # vs \<Rightarrow> Some v)"

definition SafeList_FrontAll :: "'a list \<Rightarrow> 'a list" where
  "SafeList_FrontAll l = l"

section \<open>The bounded list\<close>

definition SafeListLimited_PushFront :: "int \<Rightarrow> 'a \<Rightarrow> 'a list \<Rightarrow> bool \<times> 'a list" where
  "SafeListLimited_PushFront maxSize v l =
     (if maxSize \<le> int (length l) then (False, l) else (True, SafeList_PushFront v l))"

definition SafeListLimited_PushFrontBatch :: "int \<Rightarrow> 'a list \<Rightarrow> 'a list \<Rightarrow> bool \<times> 'a list" where
  "SafeListLimited_PushFrontBatch maxSize vs l =
     (if maxSize \<le> int (length l) then (False, l) else (True, SafeList_PushFrontBatch vs l))"

definition SafeListLimited_PushFrontViolently :: "int \<Rightarrow> 'a \<Rightarrow> 'a list \<Rightarrow> 'a list" where
  "SafeListLimited_PushFrontViolently maxSize v l =
     (let l' = SafeList_PushFront v l
      in if maxSize < int (length l') then snd (SafeList_PopBack l') else l')"

section \<open>Facts\<close>

lemma pop_loop_eq:
  "n \<le> length l \<Longrightarrow> pop_loop n items l = (items @ take n (rev l), take (length l - n) l)"
proof (induction n arbitrary: items l)
  case (Suc n)
  then have ne: "l \<noteq> []" and n: "n \<le> length (butlast l)" by auto
  have "take (Suc n) (rev l) = last l # take n (rev (butlast l))"
    using ne by (metis append_butlast_last_id rev_eq_Cons_iff rev_rev_ident take_Suc_Cons)
  then show ?case
    using Suc.IH [OF n] ne by (simp add: butlast_conv_take min_def)
qed simp

lemma PopBackBy_eq:
  "0 \<le> mx \<Longrightarrow> SafeList_PopBackBy mx l =
     Inr (take (nat mx) (rev l), take (length l - nat mx) l)"
  by (auto simp: SafeList_PopBackBy_def pop_loop_eq Let_def nat_less_iff)

lemma PushFrontBatch_eq: "SafeList_PushFrontBatch vs l = rev vs @ l"
  by (induction vs arbitrary: l) (simp_all add: SafeList_PushFrontBatch_def SafeList_PushFront_def)

lemma PushFrontViolently_eq:
  "int (length l) \<le> maxSize \<Longrightarrow> 0 \<le> maxSize \<Longrightarrow>
     SafeListLimited_PushFrontViolently maxSize v l = take (nat maxSize) (v # l)"
  by (cases "maxSize = int (length l)")
     (auto simp: SafeListLimited_PushFrontViolently_def SafeList_PopBack_def SafeList_PushFront_def
      butlast_conv_take Let_def)

section \<open>First in, first out\<close>

text \<open>
  What a producer and a consumer of a bounded queue rely on: a push is refused or goes behind
  everything that waits, and a pop takes the oldest elements.
\<close>

locale fifo =
  fixes push :: "'a \<Rightarrow> 'q \<Rightarrow> bool \<times> 'q"
    and pop :: "nat \<Rightarrow> 'q \<Rightarrow> 'a list \<times> 'q"
    and waiting :: "'q \<Rightarrow> 'a list" \<comment> \<open>oldest first\<close>
  assumes push_waiting: "waiting (snd (push v q)) = waiting q @ (if fst (push v q) then [v] else [])"
    and pop_waiting: "fst (pop n q) @ waiting (snd (pop n q)) = waiting q"
begin

text \<open>A schedule of pushes (\<open>Inl\<close>) and pops (\<open>Inr\<close>), with what was accepted and what was delivered.\<close>

fun run :: "('a + nat) list \<Rightarrow> 'q \<Rightarrow> 'a list \<times> 'a list \<times> 'q" where
  "run [] q = ([], [], q)"
| "run (Inl v # ops) q =
     (let (ok, q') = push v q; (acc, del, r) = run ops q' in ((if ok then v # acc else acc), del, r))"
| "run (Inr n # ops) q =
     (let (out, q') = pop n q; (acc, del, r) = run ops q' in (acc, out @ del, r))"

lemma run_conserves:
  "run ops q = (acc, del, r) \<Longrightarrow> del @ waiting r = waiting q @ acc"
proof (induction ops arbitrary: q acc del r)
  case (Cons op ops)
  show ?case
  proof (cases op)
    case (Inl v)
    obtain ok q' where p: "push v q = (ok, q')" by force
    obtain acc' del' r' where r: "run ops q' = (acc', del', r')" by (metis prod_cases3)
    have "waiting q' = waiting q @ (if ok then [v] else [])" using push_waiting [of v q] p by simp
    then show ?thesis using Cons.IH [OF r] Cons.prems Inl p r by auto
  next
    case (Inr n)
    obtain out q' where p: "pop n q = (out, q')" by force
    obtain acc' del' r' where r: "run ops q' = (acc', del', r')" by (metis prod_cases3)
    have "out @ waiting q' = waiting q" using pop_waiting [of n q] p by simp
    then show ?thesis using Cons.IH [OF r] Cons.prems Inr p r by auto
  qed
qed simp

lemma delivered_prefix: "run ops q = (acc, del, r) \<Longrightarrow> \<exists>later. del @ later = waiting q @ acc"
  using run_conserves by blast

end

definition pop_n :: "nat \<Rightarrow> 'a list \<Rightarrow> 'a list \<times> 'a list" where
  "pop_n n l = (case SafeList_PopBackBy (int n) l of Inr r \<Rightarrow> r | Inl e \<Rightarrow> ([], l))"

lemma pop_n_eq: "pop_n n l = (take n (rev l), take (length l - n) l)"
  by (simp add: pop_n_def PopBackBy_eq)

interpretation sl: fifo "SafeListLimited_PushFront maxSize" pop_n rev for maxSize
proof unfold_locales
  show "rev (snd (SafeListLimited_PushFront maxSize v q)) =
      rev q @ (if fst (SafeListLimited_PushFront maxSize v q) then [v] else [])" for v :: 'a and q
    by (simp add: SafeListLimited_PushFront_def SafeList_PushFront_def)
  show "fst (pop_n n q) @ rev (snd (pop_n n q)) = rev q" for n and q :: "'a list"
    by (cases "n \<le> length q") (simp_all add: pop_n_eq rev_take)
qed

end
