(* ===== verification/Graph_Store.thy ===== *)
theory Graph_Store
  imports Common_Model Go_Hash Go_Map Safe_List Judge_List
begin

text \<open>
  The memory of the graph module: cached samples per series in the shards of \<open>GraphItemMap\<close>
  (\<open>modules/graph/store/store.go\<close>, \<open>linkedlist.go\<close>), the three newest samples of every series
  (\<open>store/history.go\<close>), and the names of series and files (\<open>modules/graph/g/utils.go\<close>).
\<close>

section \<open>Constants (\<open>g/g.go\<close>)\<close>

definition CACHE_TIME :: int where "CACHE_TIME = 1800000"
definition FLUSH_DISK_STEP :: int where "FLUSH_DISK_STEP = 1000"
definition FLUSH_MIN_COUNT :: int where "FLUSH_MIN_COUNT = 6"
definition FLUSH_MAX_WAIT :: int where "FLUSH_MAX_WAIT = 86400"

definition GRAPH_F_MISS :: "32 word" where "GRAPH_F_MISS = 1"
definition GRAPH_F_ERR :: "32 word" where "GRAPH_F_ERR = 2"
definition GRAPH_F_SENDING :: "32 word" where "GRAPH_F_SENDING = 4"
definition GRAPH_F_FETCHING :: "32 word" where "GRAPH_F_FETCHING = 8"

definition GAUGE :: string where "GAUGE = ''GAUGE''"
definition DERIVE :: string where "DERIVE = ''DERIVE''"
definition COUNTER :: string where "COUNTER = ''COUNTER''"

section \<open>Names (\<open>g/utils.go\<close>)\<close>

definition RrdFileName :: "string \<Rightarrow> string \<Rightarrow> string \<Rightarrow> int \<Rightarrow> string res" where
  "RrdFileName baseDir md5 dsType step =
     bind_res (slice md5 0 2) (\<lambda>dir.
       Inr (baseDir @ ''/'' @ dir @ ''/'' @ md5 @ ''_'' @ dsType @ ''_'' @ itoa step @ ''.rrd''))"

definition FormRrdCacheKey :: "string \<Rightarrow> string \<Rightarrow> int \<Rightarrow> string" where
  "FormRrdCacheKey md5 dsType step = md5 @ ''_'' @ dsType @ ''_'' @ itoa step"

definition SplitRrdCacheKey :: "string \<Rightarrow> (string \<times> string \<times> int) res" where
  "SplitRrdCacheKey ckey =
     (case split (CHR ''_'') ckey of
        [md5, dsType, s] \<Rightarrow> bind_res (parse_int 32 s) (\<lambda>step. Inr (md5, dsType, step))
      | _ \<Rightarrow> Inl (Err (''bad rrd cache key: '' @ ckey)))"

text \<open>
  The runes of a string: UTF-8 decoded as Go does, every byte that starts no valid sequence read as
  U+FFFD.
\<close>

definition cont :: "nat \<Rightarrow> bool" where
  "cont b \<longleftrightarrow> 128 \<le> b \<and> b < 192"

fun runes :: "nat list \<Rightarrow> nat list" where
  "runes [] = []"
| "runes (a # bs) =
     (if a < 128 then a # runes bs
      else case bs of
        b # cs \<Rightarrow>
          if 194 \<le> a \<and> a < 224 \<and> cont b then ((a - 192) * 64 + (b - 128)) # runes cs
          else (case cs of
            c # ds \<Rightarrow>
              if 224 \<le> a \<and> a < 240 \<and> cont b \<and> cont c \<and> (a = 224 \<longrightarrow> 160 \<le> b) \<and> (a = 237 \<longrightarrow> b < 160)
              then ((a - 224) * 4096 + (b - 128) * 64 + (c - 128)) # runes ds
              else (case ds of
                d # es \<Rightarrow>
                  if 240 \<le> a \<and> a < 245 \<and> cont b \<and> cont c \<and> cont d \<and> (a = 240 \<longrightarrow> 144 \<le> b) \<and> (a = 244 \<longrightarrow> b < 144)
                  then ((a - 240) * 262144 + (b - 128) * 4096 + (c - 128) * 64 + (d - 128)) # runes es
                  else 65533 # runes bs
              | [] \<Rightarrow> 65533 # runes bs)
          | [] \<Rightarrow> 65533 # runes bs)
      | [] \<Rightarrow> [65533])"

text \<open>\<open>unicode.IsPrint\<close>: the printable ASCII runes; beyond ASCII the Unicode tables are a parameter.\<close>

definition is_print :: "(nat \<Rightarrow> bool) \<Rightarrow> nat \<Rightarrow> bool" where
  "is_print beyond r = (if r < 128 then 32 \<le> r \<and> r < 127 else beyond r)"

definition IsValidString :: "(nat \<Rightarrow> bool) \<Rightarrow> string \<Rightarrow> bool" where
  "IsValidString beyond str =
     list_all (\<lambda>t. if t \<in> {13, 10, 39, 34, 62, 26} then False else is_print beyond t) (runes (map of_char str))"

section \<open>The list of one series (\<open>store/linkedlist.go\<close>)\<close>

record graph_list =
  Flag :: "32 word"
  L :: "graph_item list" \<comment> \<open>front first\<close>

definition NewSafeLinkedList :: graph_list where
  "NewSafeLinkedList = \<lparr>Flag = 0, L = []\<rparr>"

definition SafeLinkedList_PushFront :: "graph_item \<Rightarrow> graph_list \<Rightarrow> graph_list" where
  "SafeLinkedList_PushFront v sl = sl\<lparr>L := v # L sl\<rparr>"

definition SafeLinkedList_Front :: "graph_list \<Rightarrow> graph_item option" where
  "SafeLinkedList_Front sl = (case L sl of [] \<Rightarrow> None | x # xs \<Rightarrow> Some x)"

definition SafeLinkedList_PopBack :: "graph_list \<Rightarrow> graph_item option \<times> graph_list" where
  "SafeLinkedList_PopBack sl =
     (if L sl = [] then (None, sl) else (Some (last (L sl)), sl\<lparr>L := butlast (L sl)\<rparr>))"

definition SafeLinkedList_Back :: "graph_list \<Rightarrow> graph_item option" where
  "SafeLinkedList_Back sl = (if L sl = [] then None else Some (last (L sl)))"

definition SafeLinkedList_Len :: "graph_list \<Rightarrow> nat" where
  "SafeLinkedList_Len sl = length (L sl)"

fun pop_all_loop :: "nat \<Rightarrow> graph_item list \<Rightarrow> graph_item list \<Rightarrow> graph_item list \<times> graph_item list" where
  "pop_all_loop 0 ret l = (ret, l)"
| "pop_all_loop (Suc n) ret l = (if l = [] then (ret, l) else pop_all_loop n (ret @ [last l]) (butlast l))"

definition SafeLinkedList_PopAll :: "graph_list \<Rightarrow> graph_item list \<times> graph_list" where
  "SafeLinkedList_PopAll sl =
     (let size = length (L sl) in
      if size \<le> 0 then ([], sl)
      else let (ret, l) = pop_all_loop size [] (L sl) in (ret, sl\<lparr>L := l\<rparr>))"

definition SafeLinkedList_PushAll :: "graph_item list \<Rightarrow> graph_list \<Rightarrow> graph_list" where
  "SafeLinkedList_PushAll items sl = sl\<lparr>L := foldl (\<lambda>l it. l @ [it]) (L sl) (rev items)\<rparr>"

fun fetch_loop :: "graph_item list \<Rightarrow> graph_item list \<Rightarrow> graph_item list" where
  "fetch_loop ret [] = ret"
| "fetch_loop ret (p # ps) = fetch_loop (ret @ [p]) ps"

definition SafeLinkedList_FetchAll :: "graph_list \<Rightarrow> graph_item list \<times> 32 word" where
  "SafeLinkedList_FetchAll sl = (fetch_loop [] (rev (L sl)), Flag sl)"

section \<open>The sharded map (\<open>store/store.go\<close>)\<close>

text \<open>\<open>init\<close> makes \<open>Size\<close> shards and nothing changes the number later.\<close>

record graph_item_map =
  A :: "(string, graph_list) gomap list"
  Size :: nat

definition init_GraphItems :: "graph_item_map res" where
  "init_GraphItems =
     (let size = CACHE_TIME div FLUSH_DISK_STEP in
      if size < 0 then Inl (Panic ''store.init, bad size'')
      else Inr \<lparr>A = replicate (nat size) [], Size = nat size\<rparr>)"

text \<open>The checksum is taken of the key's bytes, through a stack buffer if the key is short.\<close>

definition hashKey :: "string \<Rightarrow> 32 word" where
  "hashKey key =
     (if length key < 64
      then crc32 (take (length key) (key @ replicate (64 - length key) (CHR 0x00)))
      else crc32 key)"

definition idx :: "graph_item_map \<Rightarrow> string \<Rightarrow> nat" where
  "idx m key = unat (hashKey key) mod Size m"

definition getWts :: "string \<Rightarrow> int \<Rightarrow> int" where
  "getWts key now = now + CACHE_TIME - uint (hashKey key) mod CACHE_TIME"

definition GraphItemMap_Get :: "graph_item_map \<Rightarrow> string \<Rightarrow> graph_list option" where
  "GraphItemMap_Get m key = gget (A m ! idx m key) key"

definition GraphItemMap_Set :: "string \<Rightarrow> graph_list \<Rightarrow> graph_item_map \<Rightarrow> graph_item_map" where
  "GraphItemMap_Set key val m = m\<lparr>A := (A m)[idx m key := gput key val (A m ! idx m key)]\<rparr>"

definition GraphItemMap_Remove :: "string \<Rightarrow> graph_item_map \<Rightarrow> bool \<times> graph_item_map" where
  "GraphItemMap_Remove key m =
     (if gget (A m ! idx m key) key = None then (False, m)
      else (True, m\<lparr>A := (A m)[idx m key := gdel key (A m ! idx m key)]\<rparr>))"

definition GraphItemMap_Getitems :: "nat \<Rightarrow> graph_item_map \<Rightarrow> (string, graph_list) gomap \<times> graph_item_map" where
  "GraphItemMap_Getitems i m = (A m ! i, m\<lparr>A := (A m)[i := []]\<rparr>)"

definition GraphItemMap_Len :: "graph_item_map \<Rightarrow> nat" where
  "GraphItemMap_Len m = foldl (\<lambda>l i. l + length (A m ! i)) 0 [0..<Size m]"

definition GraphItemMap_First :: "graph_item_map \<Rightarrow> string \<Rightarrow> graph_item option" where
  "GraphItemMap_First m key =
     (case GraphItemMap_Get m key of None \<Rightarrow> None | Some sl \<Rightarrow> SafeLinkedList_Front sl)"

text \<open>
  The list a key leads to is shared with whoever got it earlier; changing it is storing the changed
  list under the key.
\<close>

definition on_list ::
  "string \<Rightarrow> (graph_list \<Rightarrow> graph_list) \<Rightarrow> graph_item_map \<Rightarrow> graph_item_map res" where
  "on_list key f m =
     (case GraphItemMap_Get m key of
        None \<Rightarrow> Inl (Err ''not exist'')
      | Some sl \<Rightarrow> Inr (GraphItemMap_Set key (f sl) m))"

definition GraphItemMap_PushAll :: "string \<Rightarrow> graph_item list \<Rightarrow> graph_item_map \<Rightarrow> graph_item_map res" where
  "GraphItemMap_PushAll key items m = on_list key (SafeLinkedList_PushAll items) m"

definition GraphItemMap_GetFlag :: "graph_item_map \<Rightarrow> string \<Rightarrow> (32 word) res" where
  "GraphItemMap_GetFlag m key =
     (case GraphItemMap_Get m key of None \<Rightarrow> Inl (Err ''not exist'') | Some sl \<Rightarrow> Inr (Flag sl))"

definition GraphItemMap_SetFlag :: "string \<Rightarrow> 32 word \<Rightarrow> graph_item_map \<Rightarrow> graph_item_map res" where
  "GraphItemMap_SetFlag key flag m = on_list key (\<lambda>sl. sl\<lparr>Flag := flag\<rparr>) m"

definition GraphItemMap_PopAll :: "string \<Rightarrow> graph_item_map \<Rightarrow> graph_item list \<times> graph_item_map" where
  "GraphItemMap_PopAll key m =
     (case GraphItemMap_Get m key of
        None \<Rightarrow> ([], m)
      | Some sl \<Rightarrow> let (items, sl') = SafeLinkedList_PopAll sl in (items, GraphItemMap_Set key sl' m))"

definition GraphItemMap_FetchAll :: "graph_item_map \<Rightarrow> string \<Rightarrow> graph_item list \<times> 32 word" where
  "GraphItemMap_FetchAll m key =
     (case GraphItemMap_Get m key of None \<Rightarrow> ([], 0) | Some sl \<Rightarrow> SafeLinkedList_FetchAll sl)"

text \<open>
  The configuration the store reads, and the RRD files that exist when a list is created.
\<close>

record graph_cfg =
  Storage :: string
  MigrateEnabled :: bool
  IOWorkerNum :: int
  FirstBytesSize :: int

definition GraphItemMap_PushFront ::
  "graph_cfg \<Rightarrow> (string \<Rightarrow> bool) \<Rightarrow> string \<Rightarrow> graph_item \<Rightarrow> string \<Rightarrow> graph_item_map \<Rightarrow> graph_item_map res" where
  "GraphItemMap_PushFront cfg IsRrdFileExist key item md5 m =
     (case GraphItemMap_Get m key of
        Some sl \<Rightarrow> Inr (GraphItemMap_Set key (SafeLinkedList_PushFront item sl) m)
      | None \<Rightarrow>
          if MigrateEnabled cfg then
            bind_res (RrdFileName (Storage cfg) md5 (gi_DsType item) (gi_Step item)) (\<lambda>file.
              Inr (GraphItemMap_Set key
                \<lparr>Flag = (if IsRrdFileExist file then 0 else GRAPH_F_MISS), L = [item]\<rparr> m))
          else Inr (GraphItemMap_Set key \<lparr>Flag = 0, L = [item]\<rparr> m))"

definition GraphItemMap_KeysByIndex :: "nat \<Rightarrow> graph_item_map \<Rightarrow> string list" where
  "GraphItemMap_KeysByIndex i m = (if length (A m ! i) = 0 then [] else gkeys (A m ! i))"

definition GraphItemMap_Back :: "graph_item_map \<Rightarrow> string \<Rightarrow> graph_item option" where
  "GraphItemMap_Back m key =
     (case GraphItemMap_Get m key of None \<Rightarrow> None | Some sl \<Rightarrow> SafeLinkedList_Back sl)"

definition GraphItemMap_ItemCnt :: "graph_item_map \<Rightarrow> string \<Rightarrow> nat" where
  "GraphItemMap_ItemCnt m key =
     (case GraphItemMap_Get m key of None \<Rightarrow> 0 | Some sl \<Rightarrow> SafeLinkedList_Len sl)"

section \<open>The three newest samples (\<open>store/history.go\<close>)\<close>

type_synonym history_cache = "(string, graph_item list) gomap"

definition defaultHistorySize :: int where "defaultHistorySize = 3"

definition empty_item :: graph_item where
  "empty_item = \<lparr>gi_Endpoint = [], gi_Metric = [], gi_Tags = [], gi_Value = 0, gi_Timestamp = 0,
     gi_DsType = [], gi_Step = 0, gi_Heartbeat = 0, gi_Min = [], gi_Max = []\<rparr>"

definition GetLastItem :: "history_cache \<Rightarrow> string \<Rightarrow> graph_item" where
  "GetLastItem h key =
     (case gget h key of None \<Rightarrow> empty_item
      | Some slist \<Rightarrow> (case SafeList_Front slist of None \<Rightarrow> empty_item | Some first \<Rightarrow> first))"

definition GetAllItems :: "history_cache \<Rightarrow> string \<Rightarrow> graph_item list" where
  "GetAllItems h key = (case gget h key of None \<Rightarrow> [] | Some slist \<Rightarrow> SafeList_FrontAll slist)"

definition AddItem :: "string \<Rightarrow> graph_item \<Rightarrow> history_cache \<Rightarrow> history_cache" where
  "AddItem key val h =
     (let (slist, h) = (case gget h key of None \<Rightarrow> ([], gput key [] h) | Some slist \<Rightarrow> (slist, h)) in
      case SafeList_Front slist of
        None \<Rightarrow> gput key (SafeListLimited_PushFrontViolently defaultHistorySize val slist) h
      | Some first \<Rightarrow>
          if gi_Timestamp first < gi_Timestamp val
          then gput key (SafeListLimited_PushFrontViolently defaultHistorySize val slist) h
          else h)"

section \<open>Facts: names\<close>

lemma hashKey_crc32: "hashKey key = crc32 key"
  by (simp add: hashKey_def)

lemma itoa_no_underscore: "CHR ''_'' \<notin> set (itoa i)"
proof
  assume "CHR ''_'' \<in> set (itoa i)"
  from itoa_chars [OF this] show False by simp
qed

lemma md5_no_underscore [simp]: "CHR ''_'' \<notin> set (Md5 s)"
  by (simp add: Md5_def)

lemma SplitRrdCacheKey_Form:
  assumes "CHR ''_'' \<notin> set md5" "CHR ''_'' \<notin> set dsType" "- (2 ^ 31) \<le> step" "step < 2 ^ 31"
  shows "SplitRrdCacheKey (FormRrdCacheKey md5 dsType step) = Inr (md5, dsType, step)"
proof -
  have "FormRrdCacheKey md5 dsType step = md5 @ CHR ''_'' # (dsType @ CHR ''_'' # itoa step)"
    by (simp add: FormRrdCacheKey_def)
  then have "split (CHR ''_'') (FormRrdCacheKey md5 dsType step) = [md5, dsType, itoa step]"
    using assms split_append itoa_no_underscore split_no_sep by metis
  then show ?thesis using assms(3,4) by (simp add: SplitRrdCacheKey_def parse_int_itoa)
qed

section \<open>Facts: lists\<close>

lemma pop_all_loop_eq: "pop_all_loop (length l) ret l = (ret @ rev l, [])"
  by (induction l arbitrary: ret rule: rev_induct) simp_all

lemma PopAll_eq: "SafeLinkedList_PopAll sl = (rev (L sl), sl\<lparr>L := []\<rparr>)"
  using pop_all_loop_eq [of "L sl" "[]"] by (auto simp: SafeLinkedList_PopAll_def)

lemma PushAll_eq: "SafeLinkedList_PushAll items sl = sl\<lparr>L := L sl @ rev items\<rparr>"
proof -
  have "foldl (\<lambda>l it. l @ [it]) l xs = l @ xs" for l xs :: "graph_item list"
    by (induction xs arbitrary: l) simp_all
  then show ?thesis by (simp add: SafeLinkedList_PushAll_def)
qed

lemma FetchAll_eq: "SafeLinkedList_FetchAll sl = (rev (L sl), Flag sl)"
proof -
  have "fetch_loop ret xs = ret @ xs" for ret xs
    by (induction ret xs rule: fetch_loop.induct) simp_all
  then show ?thesis by (simp add: SafeLinkedList_FetchAll_def)
qed

section \<open>Facts: the sharded map is a map\<close>

text \<open>Every key sits in the shard its hash names, once.\<close>

definition good_items :: "graph_item_map \<Rightarrow> bool" where
  "good_items m \<longleftrightarrow> length (A m) = Size m \<and> 0 < Size m \<and>
     (\<forall>i < Size m. gwf (A m ! i) \<and> (\<forall>k. gget (A m ! i) k \<noteq> None \<longrightarrow> i = idx m k))"

definition GraphItemMap_Keys :: "graph_item_map \<Rightarrow> string list" where
  "GraphItemMap_Keys m = concat (map (\<lambda>i. GraphItemMap_KeysByIndex i m) [0..<Size m])"

definition GraphItemMap_Del :: "string \<Rightarrow> graph_item_map \<Rightarrow> graph_item_map" where
  "GraphItemMap_Del key m = snd (GraphItemMap_Remove key m)"

lemma idx_less: "good_items m \<Longrightarrow> idx m key < Size m"
  by (simp add: idx_def good_items_def)

lemma KeysByIndex_eq [simp]: "GraphItemMap_KeysByIndex i m = gkeys (A m ! i)"
  by (simp add: GraphItemMap_KeysByIndex_def)

lemma idx_cong [simp]: "idx (m\<lparr>A := a\<rparr>) = idx m"
  by (simp add: idx_def fun_eq_iff)

lemma Size_simps [simp]:
  "Size (GraphItemMap_Set k v m) = Size m" "Size (GraphItemMap_Del k m) = Size m"
  "idx (GraphItemMap_Set k v m) = idx m" "idx (GraphItemMap_Del k m) = idx m"
  by (simp_all add: GraphItemMap_Set_def GraphItemMap_Del_def GraphItemMap_Remove_def)

lemma shard_update:
  assumes "good_items m"
  shows "(A m)[idx m k := x] ! i = (if i = idx m k then x else A m ! i)"
proof -
  have "length (A m) = Size m" using assms unfolding good_items_def by blast
  with idx_less [OF assms, of k] show ?thesis by (simp add: nth_list_update)
qed

lemma Get_Set:
  assumes "good_items m"
  shows "GraphItemMap_Get (GraphItemMap_Set k v m) = (GraphItemMap_Get m)(k \<mapsto> v)"
proof
  show "GraphItemMap_Get (GraphItemMap_Set k v m) x = ((GraphItemMap_Get m)(k \<mapsto> v)) x" for x
    by (simp add: GraphItemMap_Get_def GraphItemMap_Set_def shard_update [OF assms])
qed

lemma Get_Del:
  assumes "good_items m"
  shows "GraphItemMap_Get (GraphItemMap_Del k m) = (GraphItemMap_Get m)(k := None)"
proof
  show "GraphItemMap_Get (GraphItemMap_Del k m) x = ((GraphItemMap_Get m)(k := None)) x" for x
    by (simp add: GraphItemMap_Get_def GraphItemMap_Del_def GraphItemMap_Remove_def shard_update [OF assms])
qed

lemma good_items_update:
  assumes "good_items m" "gwf x" "\<And>y. gget x y \<noteq> None \<Longrightarrow> idx m y = idx m k"
  shows "good_items (m\<lparr>A := (A m)[idx m k := x]\<rparr>)"
proof -
  have m: "length (A m) = Size m" "0 < Size m"
    "\<And>i. i < Size m \<Longrightarrow> gwf (A m ! i)" "\<And>i y. i < Size m \<Longrightarrow> gget (A m ! i) y \<noteq> None \<Longrightarrow> i = idx m y"
    using assms(1) unfolding good_items_def by blast+
  show ?thesis
    unfolding good_items_def
    by (simp add: shard_update [OF assms(1)] m) (metis assms(2,3) m(3,4) option.distinct(1))
qed

lemma good_items_shard:
  assumes "good_items m"
  shows "gwf (A m ! idx m k)" "gget (A m ! idx m k) y \<noteq> None \<Longrightarrow> idx m y = idx m k"
  using assms idx_less [OF assms, of k] unfolding good_items_def by metis+

lemma good_items_Set:
  assumes "good_items m"
  shows "good_items (GraphItemMap_Set k v m)"
  unfolding GraphItemMap_Set_def
proof (rule good_items_update [OF assms])
  show "gwf (gput k v (A m ! idx m k))" by (simp add: good_items_shard(1) [OF assms])
  show "idx m y = idx m k" if "gget (gput k v (A m ! idx m k)) y \<noteq> None" for y
    using that good_items_shard(2) [OF assms, of k y] by (cases "y = k") auto
qed

lemma good_items_Del:
  assumes "good_items m"
  shows "good_items (GraphItemMap_Del k m)"
proof -
  have "good_items (m\<lparr>A := (A m)[idx m k := gdel k (A m ! idx m k)]\<rparr>)"
  proof (rule good_items_update [OF assms])
    show "gwf (gdel k (A m ! idx m k))" by (simp add: good_items_shard(1) [OF assms])
    show "idx m y = idx m k" if "gget (gdel k (A m ! idx m k)) y \<noteq> None" for y
      using that good_items_shard(2) [OF assms, of k y] by (cases "y = k") auto
  qed
  with assms show ?thesis by (simp add: GraphItemMap_Del_def GraphItemMap_Remove_def)
qed

lemma shard_keys: "good_items m \<Longrightarrow> i < Size m \<Longrightarrow> k \<in> set (gkeys (A m ! i)) \<Longrightarrow> idx m k = i"
  unfolding gkeys_dom good_items_def by blast

lemma Keys_dom: "good_items m \<Longrightarrow> set (GraphItemMap_Keys m) = dom (GraphItemMap_Get m)"
proof -
  assume g: "good_items m"
  have "k \<in> set (gkeys x) \<longleftrightarrow> gget x k \<noteq> None" for k and x :: "(string, graph_list) gomap"
    unfolding gkeys_dom by (simp add: domIff)
  then have "k \<in> set (GraphItemMap_Keys m) \<longleftrightarrow> (\<exists>i < Size m. gget (A m ! i) k \<noteq> None)" for k
    by (simp add: GraphItemMap_Keys_def del: set_map) auto
  moreover have "(\<exists>i < Size m. gget (A m ! i) k \<noteq> None) \<longleftrightarrow> gget (A m ! idx m k) k \<noteq> None" for k
    using g idx_less [OF g, of k] unfolding good_items_def by metis
  ultimately show ?thesis by (simp add: GraphItemMap_Get_def dom_def set_eq_iff)
qed

lemma Keys_distinct: "good_items m \<Longrightarrow> distinct (GraphItemMap_Keys m)"
proof -
  assume g: "good_items m"
  have "distinct (concat (map (\<lambda>i. gkeys (A m ! i)) xs))" if "distinct xs" "set xs \<subseteq> {..<Size m}" for xs
    using that
  proof (induction xs)
    case (Cons i xs)
    have "distinct (gkeys (A m ! i))" using g Cons.prems by (simp add: good_items_def gwf_def)
    moreover have "k \<notin> set (gkeys (A m ! j))" if "k \<in> set (gkeys (A m ! i))" "j \<in> set xs" for j k
    proof
      assume "k \<in> set (gkeys (A m ! j))"
      moreover have "i < Size m" "j < Size m" using Cons.prems that by auto
      ultimately have "i = j" using shard_keys [OF g _ that(1)] shard_keys [OF g] by metis
      then show False using Cons.prems that by simp
    qed
    ultimately show ?case using Cons by auto
  qed simp
  moreover have "set [0..<Size m] \<subseteq> {..<Size m}" by auto
  ultimately show ?thesis using distinct_upt by (simp add: GraphItemMap_Keys_def)
qed

interpretation gi: go_map GraphItemMap_Get GraphItemMap_Set GraphItemMap_Del GraphItemMap_Keys good_items
  by unfold_locales (simp_all add: Get_Set Get_Del good_items_Set good_items_Del Keys_dom Keys_distinct)

lemma init_good: "init_GraphItems = Inr m \<Longrightarrow> good_items m \<and> GraphItemMap_Get m k = None"
  by (auto simp: init_GraphItems_def CACHE_TIME_def FLUSH_DISK_STEP_def good_items_def
      GraphItemMap_Get_def idx_def)

lemma Len_card: "good_items m \<Longrightarrow> GraphItemMap_Len m = card (dom (GraphItemMap_Get m))"
proof -
  assume g: "good_items m"
  have "foldl (\<lambda>l i. l + length (A m ! i)) n xs = n + length (concat (map (\<lambda>i. gkeys (A m ! i)) xs))" for n xs
    by (induction xs arbitrary: n) simp_all
  then have "GraphItemMap_Len m = length (GraphItemMap_Keys m)"
    by (simp add: GraphItemMap_Len_def GraphItemMap_Keys_def)
  then show ?thesis by (simp add: gi.length_keys [OF g])
qed

section \<open>Facts: the history of a series\<close>

definition history_push :: "graph_item \<Rightarrow> graph_item list \<Rightarrow> graph_item list" where
  "history_push v l = (if l = [] \<or> gi_Timestamp (hd l) < gi_Timestamp v then take 3 (v # l) else l)"

interpretation gh: timeline gi_Timestamp history_push
proof
  show "history_push v l = l \<or> (l = [] \<or> gi_Timestamp (hd l) < gi_Timestamp v) \<and>
      (\<exists>n. history_push v l = take n (v # l))" for v l
    unfolding history_push_def by (metis (full_types))
qed

lemma history_push_short: "length l \<le> 3 \<Longrightarrow> length (history_push v l) \<le> 3"
  by (auto simp: history_push_def)

definition short_lists :: "history_cache \<Rightarrow> bool" where
  "short_lists h \<longleftrightarrow> (\<forall>k l. gget h k = Some l \<longrightarrow> length l \<le> 3)"

lemma GetAllItems_AddItem:
  assumes "short_lists h"
  shows "GetAllItems (AddItem key v h) k = (if k = key then history_push v (GetAllItems h key) else GetAllItems h k)"
    and "short_lists (AddItem key v h)"
proof -
  have v: "SafeListLimited_PushFrontViolently defaultHistorySize v l = take 3 (v # l)" if "length l \<le> 3" for l
    using that by (subst PushFrontViolently_eq) (simp_all add: defaultHistorySize_def)
  have l: "length l \<le> 3" if "gget h key = Some l" for l using assms that by (simp add: short_lists_def)
  show "GetAllItems (AddItem key v h) k = (if k = key then history_push v (GetAllItems h key) else GetAllItems h k)"
    using l by (auto simp: AddItem_def GetAllItems_def history_push_def SafeList_Front_def SafeList_FrontAll_def v
        split: option.splits list.splits)
  show "short_lists (AddItem key v h)"
    using assms l by (auto simp: short_lists_def AddItem_def SafeList_Front_def v
        split: option.splits list.splits if_splits)
qed

lemma GetAllItems_fold:
  "short_lists h \<Longrightarrow>
   GetAllItems (foldl (\<lambda>h (k, v). AddItem k v h) h kvs) key =
     foldl (\<lambda>l v. history_push v l) (GetAllItems h key) (map snd (filter (\<lambda>(k, v). k = key) kvs))"
proof (induction kvs arbitrary: h)
  case (Cons kv kvs)
  obtain k v where kv: "kv = (k, v)" by force
  show ?case
    using Cons.IH [OF GetAllItems_AddItem(2) [OF Cons.prems], of k v] GetAllItems_AddItem(1) [OF Cons.prems]
    by (simp add: kv)
qed simp

lemma history_push_max:
  "l \<noteq> [] \<Longrightarrow> foldl (\<lambda>l v. history_push v l) l vs \<noteq> [] \<and>
     (\<forall>v \<in> set vs \<union> {hd l}. gi_Timestamp v \<le> gi_Timestamp (hd (foldl (\<lambda>l v. history_push v l) l vs)))"
proof (induction vs arbitrary: l)
  case (Cons v vs)
  have ne: "history_push v l \<noteq> []" using Cons.prems by (simp add: history_push_def)
  have "gi_Timestamp v \<le> gi_Timestamp (hd (history_push v l))"
    "gi_Timestamp (hd l) \<le> gi_Timestamp (hd (history_push v l))"
    using Cons.prems by (auto simp: history_push_def)
  then show ?case using Cons.IH [OF ne] by fastforce
qed simp

section \<open>Facts: popping and putting back\<close>

lemma GraphItemMap_PopAll_eq:
  "GraphItemMap_Get m key = Some sl \<Longrightarrow>
     GraphItemMap_PopAll key m = (rev (L sl), GraphItemMap_Set key (sl\<lparr>L := []\<rparr>) m)"
  by (simp add: GraphItemMap_PopAll_def PopAll_eq)

lemma GraphItemMap_FetchAll_eq:
  "GraphItemMap_FetchAll m key =
     (case GraphItemMap_Get m key of None \<Rightarrow> ([], 0) | Some sl \<Rightarrow> (rev (L sl), Flag sl))"
  by (simp add: GraphItemMap_FetchAll_def FetchAll_eq split: option.splits)

lemma push_existing:
  "GraphItemMap_Get m key = Some sl \<Longrightarrow>
     GraphItemMap_PushFront cfg ex key it md5 m = Inr (GraphItemMap_Set key (sl\<lparr>L := it # L sl\<rparr>) m)"
  by (simp add: GraphItemMap_PushFront_def SafeLinkedList_PushFront_def)

fun push_items ::
  "graph_cfg \<Rightarrow> (string \<Rightarrow> bool) \<Rightarrow> string \<Rightarrow> string \<Rightarrow> graph_item list \<Rightarrow> graph_item_map \<Rightarrow> graph_item_map res" where
  "push_items cfg ex key md5 [] m = Inr m"
| "push_items cfg ex key md5 (it # its) m =
     bind_res (GraphItemMap_PushFront cfg ex key it md5 m) (push_items cfg ex key md5 its)"

lemma push_items_existing:
  "good_items m \<Longrightarrow> GraphItemMap_Get m key = Some sl \<Longrightarrow>
   \<exists>m'. push_items cfg ex key md5 its m = Inr m' \<and> good_items m' \<and>
     GraphItemMap_Get m' = (GraphItemMap_Get m)(key \<mapsto> sl\<lparr>L := rev its @ L sl\<rparr>)"
proof (induction its arbitrary: m sl)
  case Nil
  then show ?case by auto
next
  case (Cons it its)
  let ?m = "GraphItemMap_Set key (sl\<lparr>L := it # L sl\<rparr>) m"
  have g: "good_items ?m" "GraphItemMap_Get ?m = (GraphItemMap_Get m)(key \<mapsto> sl\<lparr>L := it # L sl\<rparr>)"
    using Cons.prems(1) by (simp_all add: good_items_Set Get_Set)
  then have "GraphItemMap_Get ?m key = Some (sl\<lparr>L := it # L sl\<rparr>)" by simp
  from Cons.IH [OF g(1) this] obtain m' where m': "push_items cfg ex key md5 its ?m = Inr m'"
    "good_items m'" "GraphItemMap_Get m' =
      (GraphItemMap_Get ?m)(key \<mapsto> sl\<lparr>L := it # L sl\<rparr>\<lparr>L := rev its @ L (sl\<lparr>L := it # L sl\<rparr>)\<rparr>)"
    by blast
  show ?case
  proof (intro exI conjI)
    show "push_items cfg ex key md5 (it # its) m = Inr m'"
      using m'(1) by (simp add: push_existing [OF Cons.prems(2)])
    show "good_items m'" by (fact m'(2))
    show "GraphItemMap_Get m' = (GraphItemMap_Get m)(key \<mapsto> sl\<lparr>L := rev (it # its) @ L sl\<rparr>)"
      using m'(3) g(2) by simp
  qed
qed

section \<open>Properties\<close>

text \<open>
  Cache keys can be taken apart. The parts of the cache key of a series are recovered by
  \<open>SplitRrdCacheKey\<close> for every checksum, every type without underscore and every 32-bit step, so
  different series, types or steps never share a cache entry.
\<close>

theorem cache_key_roundtrip:
  assumes "CHR ''_'' \<notin> set dsType" "- (2 ^ 31) \<le> step" "step < 2 ^ 31"
    and "CHR ''_'' \<notin> set dsType'" "- (2 ^ 31) \<le> step'" "step' < 2 ^ 31"
  shows "SplitRrdCacheKey (FormRrdCacheKey (Md5 pk) dsType step) = Inr (Md5 pk, dsType, step)
    \<and> (FormRrdCacheKey (Md5 pk) dsType step = FormRrdCacheKey (Md5 pk') dsType' step' \<longrightarrow>
         Md5 pk = Md5 pk' \<and> dsType = dsType' \<and> step = step')"
proof -
  have 1: "SplitRrdCacheKey (FormRrdCacheKey (Md5 pk) dsType step) = Inr (Md5 pk, dsType, step)"
    by (rule SplitRrdCacheKey_Form [OF md5_no_underscore assms(1-3)])
  have 2: "SplitRrdCacheKey (FormRrdCacheKey (Md5 pk') dsType' step') = Inr (Md5 pk', dsType', step')"
    by (rule SplitRrdCacheKey_Form [OF md5_no_underscore assms(4-6)])
  have "Md5 pk = Md5 pk' \<and> dsType = dsType' \<and> step = step'"
    if "FormRrdCacheKey (Md5 pk) dsType step = FormRrdCacheKey (Md5 pk') dsType' step'"
  proof -
    have "Inr (Md5 pk, dsType, step) = (Inr (Md5 pk', dsType', step') :: (string \<times> string \<times> int) res)"
      using 1 2 unfolding that by (rule trans [OF sym])
    then show ?thesis by (simp only: sum.inject prod.inject)
  qed
  with 1 show ?thesis by blast
qed

theorem cache_key_roundtrip_witness:
  "SplitRrdCacheKey (FormRrdCacheKey (Md5 ''h1/cpu.idle'') ''GAUGE'' 60) = Inr (Md5 ''h1/cpu.idle'', ''GAUGE'', 60)"
  using cache_key_roundtrip [of "''GAUGE''" 60 "''COUNTER''" 60 "''h1/cpu.idle''" "''x''"] by simp

text \<open>
  A failed transmission loses and reorders nothing. The samples of a series taken out with
  \<open>PopAll\<close> and, after any number of new samples have arrived, put back with \<open>PushAll\<close> come before the
  new ones again, in their old order; the flag and every other series are as before.
\<close>

theorem pop_push_back:
  assumes "good_items m" "GraphItemMap_Get m key = Some sl"
  shows "\<exists>m1 m2. push_items cfg ex key md5 new (snd (GraphItemMap_PopAll key m)) = Inr m1
    \<and> GraphItemMap_PushAll key (fst (GraphItemMap_PopAll key m)) m1 = Inr m2 \<and> good_items m2
    \<and> GraphItemMap_FetchAll m2 key = (fst (GraphItemMap_FetchAll m key) @ new, Flag sl)
    \<and> (\<forall>k. k \<noteq> key \<longrightarrow> GraphItemMap_Get m2 k = GraphItemMap_Get m k)"
proof -
  let ?m = "GraphItemMap_Set key (sl\<lparr>L := []\<rparr>) m"
  have g: "good_items ?m" "GraphItemMap_Get ?m = (GraphItemMap_Get m)(key \<mapsto> sl\<lparr>L := []\<rparr>)"
    using assms(1) by (simp_all add: good_items_Set Get_Set)
  then have "GraphItemMap_Get ?m key = Some (sl\<lparr>L := []\<rparr>)" by simp
  from push_items_existing [OF g(1) this, of cfg ex md5 new] obtain m1 where
    m1: "push_items cfg ex key md5 new ?m = Inr m1" "good_items m1"
      "GraphItemMap_Get m1 = (GraphItemMap_Get ?m)(key \<mapsto> sl\<lparr>L := []\<rparr>\<lparr>L := rev new @ L (sl\<lparr>L := []\<rparr>)\<rparr>)"
    by blast
  let ?m2 = "GraphItemMap_Set key (sl\<lparr>L := rev new @ L sl\<rparr>) m1"
  have "GraphItemMap_PushAll key (rev (L sl)) m1 = Inr ?m2"
    using m1(3) by (simp add: GraphItemMap_PushAll_def on_list_def PushAll_eq)
  moreover have m2: "GraphItemMap_Get ?m2 = (GraphItemMap_Get m)(key \<mapsto> sl\<lparr>L := rev new @ L sl\<rparr>)"
    using m1(2,3) g(2) by (simp add: Get_Set)
  ultimately show ?thesis
    using m1 good_items_Set [OF m1(2)] assms(2)
    by (simp add: GraphItemMap_PopAll_eq GraphItemMap_FetchAll_eq m2)
qed

definition demo_graph_item :: "int \<Rightarrow> graph_item" where
  "demo_graph_item t = empty_item\<lparr>gi_Endpoint := ''h1'', gi_Metric := ''cpu.idle'', gi_Timestamp := t,
     gi_DsType := ''GAUGE'', gi_Step := 60\<rparr>"

definition demo_cfg :: graph_cfg where
  "demo_cfg = \<lparr>Storage = ''data'', MigrateEnabled = False, IOWorkerNum = 16, FirstBytesSize = 2\<rparr>"

definition demo_items :: graph_item_map where
  "demo_items = \<lparr>A = [[(''k'', \<lparr>Flag = 0, L = [demo_graph_item 120, demo_graph_item 60]\<rparr>)]], Size = 1\<rparr>"

lemma demo_items_good: "good_items demo_items"
  "GraphItemMap_Get demo_items ''k'' = Some \<lparr>Flag = 0, L = [demo_graph_item 120, demo_graph_item 60]\<rparr>"
  by (auto simp: demo_items_def good_items_def gwf_def idx_def GraphItemMap_Get_def)

theorem pop_push_back_witness:
  "\<exists>m1 m2. push_items demo_cfg (\<lambda>f. False) ''k'' ''ab'' [demo_graph_item 180] (snd (GraphItemMap_PopAll ''k'' demo_items)) = Inr m1
    \<and> GraphItemMap_PushAll ''k'' (fst (GraphItemMap_PopAll ''k'' demo_items)) m1 = Inr m2
    \<and> map gi_Timestamp (fst (GraphItemMap_FetchAll m2 ''k'')) = [60, 120, 180]"
  using pop_push_back [OF demo_items_good, of demo_cfg "\<lambda>f. False" "''ab''" "[demo_graph_item 180]"]
  by (auto simp: GraphItemMap_FetchAll_eq demo_items_good demo_graph_item_def)

text \<open>
  The history cache keeps the newest samples. After any stream of samples of any series, what is
  kept of a series are at most three of its samples, strictly newest first; \<open>GetLastItem\<close> is a
  sample of it, and no sample that was ever added to the series is newer.
\<close>

theorem history_newest:
  assumes "kvs' = map snd (filter (\<lambda>(k, v). k = key) kvs)" "kvs' \<noteq> []"
    and "h = foldl (\<lambda>h (k, v). AddItem k v h) [] kvs"
  shows "length (GetAllItems h key) \<le> 3 \<and> set (GetAllItems h key) \<subseteq> set kvs'
    \<and> sorted_wrt (\<lambda>a b. gi_Timestamp b < gi_Timestamp a) (GetAllItems h key)
    \<and> GetLastItem h key \<in> set kvs'
    \<and> (\<forall>v \<in> set kvs'. gi_Timestamp v \<le> gi_Timestamp (GetLastItem h key))"
proof -
  let ?l = "foldl (\<lambda>l v. history_push v l) [] kvs'"
  have "short_lists []" by (simp add: short_lists_def)
  from GetAllItems_fold [OF this] have l: "GetAllItems h key = ?l"
    using assms(1,3) by (simp add: GetAllItems_def)
  have "length (foldl (\<lambda>l v. history_push v l) l vs) \<le> 3" if "length l \<le> 3" for l vs
    using that by (induction vs arbitrary: l) (simp_all add: history_push_short)
  then have len: "length ?l \<le> 3" by simp
  have sub: "set ?l \<subseteq> set kvs'" using gh.push_all_set [of "[]" kvs'] by simp
  have nf: "sorted_wrt (\<lambda>a b. gi_Timestamp b < gi_Timestamp a) ?l"
    by (rule gh.push_all_newest_first) simp
  obtain v vs where vs: "kvs' = v # vs" using assms(2) by (cases kvs') auto
  have "?l \<noteq> [] \<and> (\<forall>v \<in> set kvs'. gi_Timestamp v \<le> gi_Timestamp (hd ?l))"
    using history_push_max [of "[v]" vs] by (auto simp: vs history_push_def)
  moreover have "GetLastItem h key = hd ?l" if "?l \<noteq> []"
    using l that by (auto simp: GetLastItem_def GetAllItems_def SafeList_Front_def SafeList_FrontAll_def
        split: option.splits list.splits)
  ultimately show ?thesis using l len sub nf by (metis hd_in_set subset_iff)
qed

theorem history_newest_witness:
  "gi_Timestamp (GetLastItem (foldl (\<lambda>h (k, v). AddItem k v h) []
     [(''a'', demo_graph_item 60), (''a'', demo_graph_item 120), (''a'', demo_graph_item 90)]) ''a'') \<ge> 120"
  using history_newest [of "[demo_graph_item 60, demo_graph_item 120, demo_graph_item 90]" "''a''"
      "[(''a'', demo_graph_item 60), (''a'', demo_graph_item 120), (''a'', demo_graph_item 90)]", OF _ _ refl]
  by (auto simp: demo_graph_item_def)

end
