(* ===== verification/Graph_Index.thy ===== *)
theory Graph_Index
  imports Graph_Store
begin

text \<open>
  The index of the graph module (\<open>modules/graph/index\<close>): which series exist with which type and
  step, in memory (indexed, and waiting to be indexed) and in the tables of the database, and the
  cleaning of series that are no longer indexed (\<open>modules/graph/cron/clean.go\<close>). The tables are kept
  with their unique keys (\<open>scripts/mysql/db_schema/4_graph-db-schema.sql\<close>): an INSERT that meets a
  row with its key fails, as does every statement while the database is down. The texts put into the
  statements are taken as they are; quoting is not modelled.
\<close>

section \<open>State\<close>

record index_cache_item =
  ic_UUID :: string
  ic_Item :: graph_item

record graph_db =
  Up :: bool
  NextId :: int
  EndpointRows :: "(string, int \<times> int) gomap"                    \<comment> \<open>endpoint: id, ts\<close>
  TagRows :: "(string \<times> int, int) gomap"                         \<comment> \<open>tag, endpoint id: ts\<close>
  CounterRows :: "(int \<times> string, int \<times> string \<times> int) gomap"  \<comment> \<open>endpoint id, counter: step, type, ts\<close>

text \<open>An RRD file is known by the calls of the RRD library that made it (see \<open>Graph_Rrd\<close>).\<close>

datatype rrd_value = RInt int | RFloat f64

record rrd_file =
  rf_Created :: graph_item
  rf_Archives :: "(string \<times> int \<times> int) list" \<comment> \<open>function, steps, rows\<close>
  rf_Updates :: "(int \<times> rrd_value) list"

record graph_state =
  GraphItems :: graph_item_map
  HistoryCache :: history_cache
  IndexedItemCache :: "(string, index_cache_item) gomap"
  unIndexedItemCache :: "(string, index_cache_item) gomap"
  dbEndpointCache :: "(string, int \<times> int) gomap"               \<comment> \<open>with expiry\<close>
  dbEndpointCounterCache :: "(string, string \<times> int) gomap"
  Db :: graph_db
  Disk :: "(string, rrd_file) gomap"
  flushrrd_timeout :: bool

section \<open>The caches (\<open>index/cache.go\<close>)\<close>

definition NewIndexCacheItem :: "string \<Rightarrow> graph_item \<Rightarrow> index_cache_item" where
  "NewIndexCacheItem uuid item = \<lparr>ic_UUID = uuid, ic_Item = item\<rparr>"

definition IndexCacheBase_Put :: "string \<Rightarrow> index_cache_item \<Rightarrow> (string, index_cache_item) gomap \<Rightarrow> (string, index_cache_item) gomap" where
  "IndexCacheBase_Put key item d = gput key item d"

definition IndexCacheBase_Remove :: "string \<Rightarrow> (string, index_cache_item) gomap \<Rightarrow> (string, index_cache_item) gomap" where
  "IndexCacheBase_Remove key d = gdel key d"

definition IndexCacheBase_Get :: "(string, index_cache_item) gomap \<Rightarrow> string \<Rightarrow> index_cache_item option" where
  "IndexCacheBase_Get d key = gget d key"

definition IndexCacheBase_ContainsKey :: "(string, index_cache_item) gomap \<Rightarrow> string \<Rightarrow> bool" where
  "IndexCacheBase_ContainsKey d key = (gget d key \<noteq> None)"

definition IndexCacheBase_Size :: "(string, index_cache_item) gomap \<Rightarrow> nat" where
  "IndexCacheBase_Size d = length d"

definition IndexCacheBase_Keys :: "(string, index_cache_item) gomap \<Rightarrow> string list" where
  "IndexCacheBase_Keys d = (if length d = 0 then [] else gkeys d)"

text \<open>The timed cache (vendored): an entry is found until its expiry has passed; times in seconds.\<close>

definition timed_get :: "int \<Rightarrow> (string, 'v \<times> int) gomap \<Rightarrow> string \<Rightarrow> 'v option" where
  "timed_get now c k = (case gget c k of None \<Rightarrow> None | Some (v, expiry) \<Rightarrow> if expiry < now then None else Some v)"

definition timed_set :: "int \<Rightarrow> string \<Rightarrow> 'v \<Rightarrow> (string, 'v \<times> int) gomap \<Rightarrow> (string, 'v \<times> int) gomap" where
  "timed_set now k v c = gput k (v, now + 600) c"

definition GetEndpointFromCache :: "int \<Rightarrow> string \<Rightarrow> graph_state \<Rightarrow> int option \<times> graph_state" where
  "GetEndpointFromCache now endpoint s =
     (case timed_get now (dbEndpointCache s) endpoint of
        Some i \<Rightarrow> (Some i, s)
      | None \<Rightarrow>
          if \<not> Up (Db s) then (None, s)
          else (case gget (EndpointRows (Db s)) endpoint of
             None \<Rightarrow> (None, s)
           | Some (i, ts) \<Rightarrow>
               if i < 0 then (None, s)
               else (Some i, s\<lparr>dbEndpointCache := timed_set now endpoint i (dbEndpointCache s)\<rparr>)))"

text \<open>The cached text is \<open>type_step\<close>; \<open>arr[1]\<close> panics when it has no underscore.\<close>

definition GetCounterFromCache ::
  "int \<Rightarrow> int \<Rightarrow> string \<Rightarrow> graph_state \<Rightarrow> ((string \<times> int) option \<times> graph_state) res" where
  "GetCounterFromCache now endpointId counter s =
     (let key = itoa endpointId @ ''-'' @ counter in
      case timed_get now (dbEndpointCounterCache s) key of
        Some dsTypeStep \<Rightarrow>
          (case split (CHR ''_'') dsTypeStep of
             dsType # step # _ \<Rightarrow>
               (case atoi step of Inr st \<Rightarrow> Inr (Some (dsType, st), s) | Inl e \<Rightarrow> Inr (None, s))
           | _ \<Rightarrow> Inl (Panic ''index out of range''))
      | None \<Rightarrow>
          if \<not> Up (Db s) then Inr (None, s)
          else (case gget (CounterRows (Db s)) (endpointId, counter) of
             None \<Rightarrow> Inr (None, s)
           | Some (step, dsType, ts) \<Rightarrow>
               Inr (Some (dsType, step),
                    s\<lparr>dbEndpointCounterCache :=
                        timed_set now key (dsType @ ''_'' @ itoa step) (dbEndpointCounterCache s)\<rparr>)))"

definition GetTypeAndStep ::
  "int \<Rightarrow> string \<Rightarrow> string \<Rightarrow> graph_state \<Rightarrow> ((string \<times> int) option \<times> graph_state) res" where
  "GetTypeAndStep now endpoint counter s =
     (let pk = Md5 (endpoint @ ''/'' @ counter) in
      case IndexCacheBase_Get (IndexedItemCache s) pk of
        Some icitem \<Rightarrow> Inr (Some (gi_DsType (ic_Item icitem), gi_Step (ic_Item icitem)), s)
      | None \<Rightarrow>
          (case GetEndpointFromCache now endpoint s of
             (None, s) \<Rightarrow> Inr (None, s)
           | (Some endpointId, s) \<Rightarrow> GetCounterFromCache now endpointId counter s))"

section \<open>Receiving and removing (\<open>index/index.go\<close>)\<close>

definition ReceiveItem :: "graph_cfg \<Rightarrow> graph_item \<Rightarrow> string \<Rightarrow> graph_state \<Rightarrow> graph_state res" where
  "ReceiveItem cfg item md5 s =
     (let uuid = GraphItem_UUID item in
      if IndexCacheBase_ContainsKey (IndexedItemCache s) md5 then
        (case IndexCacheBase_Get (IndexedItemCache s) md5 of
           None \<Rightarrow> nil_deref
         | Some old \<Rightarrow>
             if uuid = ic_UUID old
             then Inr (s\<lparr>IndexedItemCache := IndexCacheBase_Put md5 (NewIndexCacheItem uuid item) (IndexedItemCache s)\<rparr>)
             else Inr (s\<lparr>unIndexedItemCache := IndexCacheBase_Put md5 (NewIndexCacheItem uuid item) (unIndexedItemCache s)\<rparr>))
      else
        bind_res (RrdFileName (Storage cfg) md5 (gi_DsType item) (gi_Step item)) (\<lambda>rrdFileName.
          if gget (Disk s) rrdFileName \<noteq> None
          then Inr (s\<lparr>IndexedItemCache := IndexCacheBase_Put md5 (NewIndexCacheItem uuid item) (IndexedItemCache s)\<rparr>)
          else Inr (s\<lparr>unIndexedItemCache := IndexCacheBase_Put md5 (NewIndexCacheItem uuid item) (unIndexedItemCache s)\<rparr>)))"

definition RemoveItem :: "graph_cfg \<Rightarrow> graph_item \<Rightarrow> graph_state \<Rightarrow> graph_state res" where
  "RemoveItem cfg item s =
     (let md5 = GraphItem_Checksum item;
          s = s\<lparr>IndexedItemCache := IndexCacheBase_Remove md5 (IndexedItemCache s),
                unIndexedItemCache := IndexCacheBase_Remove md5 (unIndexedItemCache s)\<rparr>;
          key = FormRrdCacheKey md5 (gi_DsType item) (gi_Step item);
          (poped, m) = GraphItemMap_PopAll key (GraphItems s);
          s = s\<lparr>GraphItems := m\<rparr>
      in bind_res (RrdFileName (Storage cfg) md5 (gi_DsType item) (gi_Step item)) (\<lambda>rrdFileName.
           Inr (s\<lparr>Disk := gdel rrdFileName (Disk s)\<rparr>)))"

section \<open>Writing the database (\<open>index_update_all_task.go\<close>)\<close>

text \<open>The statements: whether they succeeded, and the tables after them.\<close>

definition insert_endpoint :: "string \<Rightarrow> int \<Rightarrow> graph_db \<Rightarrow> bool \<times> graph_db" where
  "insert_endpoint e ts db =
     (if \<not> Up db \<or> gget (EndpointRows db) e \<noteq> None then (False, db)
      else (True, db\<lparr>EndpointRows := gput e (NextId db, ts) (EndpointRows db), NextId := NextId db + 1\<rparr>))"

definition update_endpoint :: "string \<Rightarrow> int \<Rightarrow> graph_db \<Rightarrow> bool \<times> graph_db" where
  "update_endpoint e ts db =
     (if \<not> Up db then (False, db)
      else (case gget (EndpointRows db) e of
         None \<Rightarrow> (True, db)
       | Some (i, _) \<Rightarrow> (True, db\<lparr>EndpointRows := gput e (i, ts) (EndpointRows db)\<rparr>)))"

definition insert_tag :: "string \<Rightarrow> int \<Rightarrow> int \<Rightarrow> graph_db \<Rightarrow> bool \<times> graph_db" where
  "insert_tag tag i ts db =
     (if \<not> Up db \<or> gget (TagRows db) (tag, i) \<noteq> None then (False, db)
      else (True, db\<lparr>TagRows := gput (tag, i) ts (TagRows db)\<rparr>))"

definition update_tag :: "string \<Rightarrow> int \<Rightarrow> int \<Rightarrow> graph_db \<Rightarrow> bool \<times> graph_db" where
  "update_tag tag i ts db =
     (if \<not> Up db then (False, db)
      else if gget (TagRows db) (tag, i) = None then (True, db)
      else (True, db\<lparr>TagRows := gput (tag, i) ts (TagRows db)\<rparr>))"

definition insert_counter :: "int \<Rightarrow> string \<Rightarrow> int \<Rightarrow> string \<Rightarrow> int \<Rightarrow> graph_db \<Rightarrow> bool \<times> graph_db" where
  "insert_counter i counter step ty ts db =
     (if \<not> Up db \<or> gget (CounterRows db) (i, counter) \<noteq> None then (False, db)
      else (True, db\<lparr>CounterRows := gput (i, counter) (step, ty, ts) (CounterRows db)\<rparr>))"

definition update_counter :: "int \<Rightarrow> string \<Rightarrow> int \<Rightarrow> string \<Rightarrow> int \<Rightarrow> graph_db \<Rightarrow> bool \<times> graph_db" where
  "update_counter i counter step ty ts db =
     (if \<not> Up db then (False, db)
      else if gget (CounterRows db) (i, counter) = None then (True, db)
      else (True, db\<lparr>CounterRows := gput (i, counter) (step, ty, ts) (CounterRows db)\<rparr>))"

text \<open>Insert, or update if that failed; the error of the update is only logged.\<close>

definition insert_or_update ::
  "(graph_db \<Rightarrow> bool \<times> graph_db) \<Rightarrow> (graph_db \<Rightarrow> bool \<times> graph_db) \<Rightarrow> graph_db \<Rightarrow> graph_db" where
  "insert_or_update ins upd db = (let (ok, db) = ins db in if ok then db else snd (upd db))"

definition updateIndexFromOneItem :: "graph_item \<Rightarrow> graph_db \<Rightarrow> go_error option \<times> graph_db" where
  "updateIndexFromOneItem item db =
     (let ts = gi_Timestamp item;
          db = insert_or_update (insert_endpoint (gi_Endpoint item) ts) (update_endpoint (gi_Endpoint item) ts) db in
      if \<not> Up db then (Some (Err ''query endpoint id''), db)
      else case gget (EndpointRows db) (gi_Endpoint item) of
        None \<Rightarrow> (Some (Err ''no rows''), db)
      | Some (endpointId, _) \<Rightarrow>
          if endpointId \<le> 0 then (Some (Err ''no such endpoint''), db)
          else let db = foldl (\<lambda>db (tagKey, tagVal).
                     let tag = tagKey @ ''='' @ tagVal
                     in insert_or_update (insert_tag tag endpointId ts) (update_tag tag endpointId ts) db)
                   db (gi_Tags item);
                 counter = (if 0 < length (gi_Tags item)
                            then gi_Metric item @ ''/'' @ SortedTags (gi_Tags item) else gi_Metric item)
             in (None, insert_or_update
                   (insert_counter endpointId counter (gi_Step item) (gi_DsType item) ts)
                   (update_counter endpointId counter (gi_Step item) (gi_DsType item) ts) db))"

section \<open>The update tasks\<close>

text \<open>
  The incremental task. The writes to the database run two at a time in goroutines of their own;
  here they run one after the other. \<open>conn\<close> says whether a connection was obtained.
\<close>

fun incr_loop :: "string list \<Rightarrow> int \<times> graph_state \<Rightarrow> int \<times> graph_state" where
  "incr_loop [] (ret, s) = (ret, s)"
| "incr_loop (key # keys) (ret, s) =
     (let icitem = IndexCacheBase_Get (unIndexedItemCache s) key;
          s = s\<lparr>unIndexedItemCache := IndexCacheBase_Remove key (unIndexedItemCache s)\<rparr> in
      case icitem of
        None \<Rightarrow> incr_loop keys (ret, s)
      | Some ic \<Rightarrow>
          let (err, db) = updateIndexFromOneItem (ic_Item ic) (Db s); s = s\<lparr>Db := db\<rparr>;
              s = (if err \<noteq> None then s
                   else s\<lparr>IndexedItemCache := IndexCacheBase_Put key ic (IndexedItemCache s)\<rparr>)
          in incr_loop keys (ret + 1, s))"

definition updateIndexIncr :: "bool \<Rightarrow> graph_state \<Rightarrow> int \<times> graph_state" where
  "updateIndexIncr conn s =
     (if IndexCacheBase_Size (unIndexedItemCache s) \<le> 0 then (0, s)
      else if \<not> conn then (0, s)
      else incr_loop (IndexCacheBase_Keys (unIndexedItemCache s)) (0, s))"

fun all_index_loop :: "int \<Rightarrow> string list \<Rightarrow> int \<times> graph_state \<Rightarrow> int \<times> graph_state" where
  "all_index_loop lastTs [] (ret, s) = (ret, s)"
| "all_index_loop lastTs (key # keys) (ret, s) =
     (case IndexCacheBase_Get (IndexedItemCache s) key of
        None \<Rightarrow> all_index_loop lastTs keys (ret, s)
      | Some ic \<Rightarrow>
          if gi_Timestamp (ic_Item ic) < lastTs
          then all_index_loop lastTs keys
                 (ret, s\<lparr>IndexedItemCache := IndexCacheBase_Remove key (IndexedItemCache s)\<rparr>)
          else all_index_loop lastTs keys
                 (ret + 1, s\<lparr>Db := snd (updateIndexFromOneItem (ic_Item ic) (Db s))\<rparr>))"

definition updateIndexAll :: "bool \<Rightarrow> int \<Rightarrow> int \<Rightarrow> graph_state \<Rightarrow> int \<times> graph_state" where
  "updateIndexAll conn now updateStepInSec s =
     (if IndexCacheBase_Size (IndexedItemCache s) \<le> 0 then (0, s)
      else if \<not> conn then (0, s)
      else all_index_loop (now - updateStepInSec) (IndexCacheBase_Keys (IndexedItemCache s)) (0, s))"

definition UpdateIndexOne ::
  "bool \<Rightarrow> string \<Rightarrow> string \<Rightarrow> tags \<Rightarrow> string \<Rightarrow> int \<Rightarrow> graph_state \<Rightarrow> go_error option \<times> graph_state" where
  "UpdateIndexOne conn endpoint metric tags dstype step s =
     (let itemDemo = empty_item\<lparr>gi_Endpoint := endpoint, gi_Metric := metric, gi_Tags := tags,
                                gi_DsType := dstype, gi_Step := step\<rparr>;
          md5 = GraphItem_Checksum itemDemo; uuid = GraphItem_UUID itemDemo in
      case IndexCacheBase_Get (IndexedItemCache s) md5 of
        None \<Rightarrow> (Some (Err ''not found''), s)
      | Some icitem \<Rightarrow>
          if ic_UUID icitem \<noteq> uuid then (Some (Err ''bad type or step''), s)
          else if \<not> conn then (Some (Err ''make dbConn fail''), s)
          else let (err, db) = updateIndexFromOneItem (ic_Item icitem) (Db s) in (err, s\<lparr>Db := db\<rparr>))"

section \<open>Cleaning (\<open>cron/clean.go\<close>)\<close>

fun clean_keys ::
  "(string, index_cache_item) gomap \<Rightarrow> string list \<Rightarrow> int \<times> graph_item_map \<Rightarrow> int \<times> graph_item_map" where
  "clean_keys ix [] acc = acc"
| "clean_keys ix (key # keys) (deleteCnt, m) =
     (let tmp = split (CHR ''_'') key in
      if length tmp = 3 \<and> \<not> IndexCacheBase_ContainsKey ix (tmp ! 0)
      then clean_keys ix keys (deleteCnt + 1, snd (GraphItemMap_Remove key m))
      else clean_keys ix keys (deleteCnt, m))"

definition DeleteInvalidItems :: "graph_state \<Rightarrow> int \<times> graph_state" where
  "DeleteInvalidItems s =
     (let (deleteCnt, m) = foldl (\<lambda>acc i. clean_keys (IndexedItemCache s) (GraphItemMap_KeysByIndex i (snd acc)) acc)
                             (0, GraphItems s) [0..<Size (GraphItems s)]
      in (deleteCnt, s\<lparr>GraphItems := m\<rparr>))"

fun clean_history ::
  "(string, index_cache_item) gomap \<Rightarrow> string list \<Rightarrow> int \<times> history_cache \<Rightarrow> int \<times> history_cache" where
  "clean_history ix [] acc = acc"
| "clean_history ix (key # keys) (deleteCnt, h) =
     (if \<not> IndexCacheBase_ContainsKey ix key then clean_history ix keys (deleteCnt + 1, gdel key h)
      else clean_history ix keys (deleteCnt, h))"

definition DeleteInvalidHistory :: "graph_state \<Rightarrow> int \<times> graph_state" where
  "DeleteInvalidHistory s =
     (let (deleteCnt, h) = clean_history (IndexedItemCache s) (gkeys (HistoryCache s)) (0, HistoryCache s)
      in (deleteCnt, s\<lparr>HistoryCache := h\<rparr>))"

lemmas index_cache_simps [simp] = IndexCacheBase_Put_def IndexCacheBase_Remove_def IndexCacheBase_Get_def
  IndexCacheBase_ContainsKey_def IndexCacheBase_Size_def NewIndexCacheItem_def

lemma IndexCacheBase_Keys_eq [simp]: "IndexCacheBase_Keys d = gkeys d"
  by (simp add: IndexCacheBase_Keys_def)

section \<open>Facts: the database\<close>

definition good_db :: "graph_db \<Rightarrow> bool" where
  "good_db db \<longleftrightarrow> 0 < NextId db \<and> (\<forall>e i ts. gget (EndpointRows db) e = Some (i, ts) \<longrightarrow> 0 < i)"

lemma up_endpoint:
  assumes "Up db" "good_db db"
  shows "\<exists>i. 0 < i \<and> insert_or_update (insert_endpoint e ts) (update_endpoint e ts) db =
      db\<lparr>EndpointRows := gput e (i, ts) (EndpointRows db),
         NextId := NextId db + (if gget (EndpointRows db) e = None then 1 else 0)\<rparr>
    \<and> (\<forall>j t. gget (EndpointRows db) e = Some (j, t) \<longrightarrow> i = j)"
proof (cases "gget (EndpointRows db) e")
  case None
  then show ?thesis
    using assms by (auto simp: insert_or_update_def insert_endpoint_def good_db_def)
next
  case (Some r)
  obtain i t where r: "r = (i, t)" by force
  then have "0 < i" using assms Some by (auto simp: good_db_def)
  then show ?thesis
    using assms Some r by (auto simp: insert_or_update_def insert_endpoint_def update_endpoint_def)
qed

lemma up_tag:
  "Up db \<Longrightarrow> insert_or_update (insert_tag tag i ts) (update_tag tag i ts) db =
     db\<lparr>TagRows := gput (tag, i) ts (TagRows db)\<rparr>"
  by (simp add: insert_or_update_def insert_tag_def update_tag_def)

lemma up_counter:
  "Up db \<Longrightarrow> insert_or_update (insert_counter i c step ty ts) (update_counter i c step ty ts) db =
     db\<lparr>CounterRows := gput (i, c) (step, ty, ts) (CounterRows db)\<rparr>"
  by (simp add: insert_or_update_def insert_counter_def update_counter_def)

lemma up_tags:
  "Up db \<Longrightarrow> \<exists>rows. foldl (\<lambda>db (tagKey, tagVal).
        let tag = tagKey @ ''='' @ tagVal in insert_or_update (insert_tag tag i ts) (update_tag tag i ts) db) db tags =
      db\<lparr>TagRows := rows\<rparr> \<and>
    (\<forall>(k, v) \<in> set tags. gget rows (k @ ''='' @ v, i) = Some ts) \<and>
    (\<forall>x. gget (TagRows db) x = Some ts \<longrightarrow> gget rows x = Some ts) \<and>
    (\<forall>t j. j \<noteq> i \<longrightarrow> gget rows (t, j) = gget (TagRows db) (t, j))"
proof (induction tags arbitrary: db)
  case Nil
  then show ?case by (intro exI [of _ "TagRows db"]) simp
next
  case (Cons kv tags)
  obtain k v where kv: "kv = (k, v)" by force
  let ?db = "db\<lparr>TagRows := gput (k @ ''='' @ v, i) ts (TagRows db)\<rparr>"
  have "Up ?db" using Cons.prems by simp
  from Cons.IH [OF this] obtain rows where r:
    "foldl (\<lambda>db (tagKey, tagVal). let tag = tagKey @ ''='' @ tagVal
        in insert_or_update (insert_tag tag i ts) (update_tag tag i ts) db) ?db tags = ?db\<lparr>TagRows := rows\<rparr>"
    "\<forall>(k, v) \<in> set tags. gget rows (k @ ''='' @ v, i) = Some ts"
    "\<forall>x. gget (TagRows ?db) x = Some ts \<longrightarrow> gget rows x = Some ts"
    "\<forall>t j. j \<noteq> i \<longrightarrow> gget rows (t, j) = gget (TagRows ?db) (t, j)"
    by blast
  show ?case
  proof (intro exI [of _ rows] conjI)
    show "foldl (\<lambda>db (tagKey, tagVal). let tag = tagKey @ ''='' @ tagVal
        in insert_or_update (insert_tag tag i ts) (update_tag tag i ts) db) db (kv # tags) = db\<lparr>TagRows := rows\<rparr>"
      using r(1) Cons.prems by (simp add: kv up_tag Let_def)
    show "\<forall>(k, v) \<in> set (kv # tags). gget rows (k @ ''='' @ v, i) = Some ts"
      using r(2,3) by (simp add: kv)
    show "\<forall>x. gget (TagRows db) x = Some ts \<longrightarrow> gget rows x = Some ts" using r(3) by simp
    show "\<forall>t j. j \<noteq> i \<longrightarrow> gget rows (t, j) = gget (TagRows db) (t, j)" using r(4) by simp
  qed
qed

lemma Counter_eq:
  "(if 0 < length (gi_Tags it) then gi_Metric it @ ''/'' @ SortedTags (gi_Tags it) else gi_Metric it) =
     Counter (gi_Metric it) (gi_Tags it)"
  by (simp add: Counter_def)

lemma index_one_up:
  assumes "Up db" "good_db db"
  shows "\<exists>i db'. updateIndexFromOneItem it db = (None, db') \<and> Up db' \<and> good_db db' \<and> 0 < i \<and>
    gget (EndpointRows db') = (gget (EndpointRows db))(gi_Endpoint it \<mapsto> (i, gi_Timestamp it)) \<and>
    gget (CounterRows db') = (gget (CounterRows db))
      ((i, Counter (gi_Metric it) (gi_Tags it)) \<mapsto> (gi_Step it, gi_DsType it, gi_Timestamp it)) \<and>
    (\<forall>(k, v) \<in> set (gi_Tags it). gget (TagRows db') (k @ ''='' @ v, i) = Some (gi_Timestamp it)) \<and>
    (\<forall>t j. j \<noteq> i \<longrightarrow> gget (TagRows db') (t, j) = gget (TagRows db) (t, j)) \<and>
    (\<forall>j t. gget (EndpointRows db) (gi_Endpoint it) = Some (j, t) \<longrightarrow> i = j)"
proof -
  obtain i where i: "0 < i" "insert_or_update (insert_endpoint (gi_Endpoint it) (gi_Timestamp it))
        (update_endpoint (gi_Endpoint it) (gi_Timestamp it)) db =
      db\<lparr>EndpointRows := gput (gi_Endpoint it) (i, gi_Timestamp it) (EndpointRows db),
         NextId := NextId db + (if gget (EndpointRows db) (gi_Endpoint it) = None then 1 else 0)\<rparr>" (is "_ = ?db1")
    "\<forall>j t. gget (EndpointRows db) (gi_Endpoint it) = Some (j, t) \<longrightarrow> i = j"
    using up_endpoint [OF assms] by blast
  have "Up ?db1" using assms by simp
  from up_tags [OF this, of i "gi_Timestamp it" "gi_Tags it"] obtain rows where
    rows: "foldl (\<lambda>db (tagKey, tagVal). let tag = tagKey @ ''='' @ tagVal
        in insert_or_update (insert_tag tag i (gi_Timestamp it)) (update_tag tag i (gi_Timestamp it)) db)
        ?db1 (gi_Tags it) = ?db1\<lparr>TagRows := rows\<rparr>"
      "\<forall>(k, v) \<in> set (gi_Tags it). gget rows (k @ ''='' @ v, i) = Some (gi_Timestamp it)"
      "\<forall>t j. j \<noteq> i \<longrightarrow> gget rows (t, j) = gget (TagRows ?db1) (t, j)"
    by blast
  let ?db2 = "?db1\<lparr>TagRows := rows, CounterRows := gput (i, Counter (gi_Metric it) (gi_Tags it))
      (gi_Step it, gi_DsType it, gi_Timestamp it) (CounterRows db)\<rparr>"
  have "updateIndexFromOneItem it db = (None, ?db2)"
    using assms(1) i(1) rows(1)
    by (simp add: updateIndexFromOneItem_def i(2) Let_def up_counter Counter_def)
  moreover have "good_db ?db2" using assms(2) i(1) by (auto simp: good_db_def)
  ultimately show ?thesis
    using assms(1) i(1,3) rows(2,3) by (intro exI [of _ i] exI [of _ ?db2]) (simp add: fun_eq_iff)
qed

lemma index_one_down: "\<not> Up db \<Longrightarrow> \<exists>e. updateIndexFromOneItem it db = (Some e, db)"
  by (simp add: updateIndexFromOneItem_def insert_or_update_def insert_endpoint_def update_endpoint_def)

section \<open>Facts: the incremental task\<close>

lemma incr_loop_up:
  assumes "Up (Db s)" "good_db (Db s)" "distinct keys" "\<forall>k \<in> set keys. gget (unIndexedItemCache s) k \<noteq> None"
  shows "\<exists>s'. incr_loop keys (n, s) = (n + int (length keys), s') \<and> Up (Db s') \<and> good_db (Db s') \<and>
    (\<forall>k. gget (unIndexedItemCache s') k = (if k \<in> set keys then None else gget (unIndexedItemCache s) k)) \<and>
    (\<forall>k. gget (IndexedItemCache s') k =
       (if k \<in> set keys then gget (unIndexedItemCache s) k else gget (IndexedItemCache s) k))"
  using assms
proof (induction keys arbitrary: n s)
  case (Cons key keys)
  obtain ic where ic: "gget (unIndexedItemCache s) key = Some ic" using Cons.prems(4) by auto
  obtain db' where db': "updateIndexFromOneItem (ic_Item ic) (Db s) = (None, db')" "Up db'" "good_db db'"
    using index_one_up [OF Cons.prems(1,2), of "ic_Item ic"] by blast
  let ?s = "s\<lparr>unIndexedItemCache := gdel key (unIndexedItemCache s), Db := db',
              IndexedItemCache := gput key ic (IndexedItemCache s)\<rparr>"
  have "Up (Db ?s)" "good_db (Db ?s)" "distinct keys" "\<forall>k \<in> set keys. gget (unIndexedItemCache ?s) k \<noteq> None"
    using db' Cons.prems by auto
  from Cons.IH [OF this, of "n + 1"] obtain s' where s':
    "incr_loop keys (n + 1, ?s) = (n + 1 + int (length keys), s')" "Up (Db s')" "good_db (Db s')"
    "\<forall>k. gget (unIndexedItemCache s') k = (if k \<in> set keys then None else gget (unIndexedItemCache ?s) k)"
    "\<forall>k. gget (IndexedItemCache s') k =
       (if k \<in> set keys then gget (unIndexedItemCache ?s) k else gget (IndexedItemCache ?s) k)"
    by blast
  have "incr_loop (key # keys) (n, s) = (n + int (length (key # keys)), s')"
    using s'(1) ic db' by (simp add: Let_def)
  then show ?case using s' Cons.prems(3) ic by (intro exI [of _ s']) auto
qed auto

lemma incr_loop_down:
  assumes "\<not> Up (Db s)"
  shows "\<exists>m s'. incr_loop keys (n, s) = (m, s') \<and> IndexedItemCache s' = IndexedItemCache s \<and>
    (\<forall>k. gget (unIndexedItemCache s') k = (if k \<in> set keys then None else gget (unIndexedItemCache s) k))"
  using assms
proof (induction keys arbitrary: n s)
  case (Cons key keys)
  show ?case
  proof (cases "gget (unIndexedItemCache s) key")
    case None
    then show ?thesis
      using Cons.IH [of "s\<lparr>unIndexedItemCache := gdel key (unIndexedItemCache s)\<rparr>" n] Cons.prems
      by (auto simp: Let_def)
  next
    case (Some ic)
    obtain e where e: "updateIndexFromOneItem (ic_Item ic) (Db s) = (Some e, Db s)"
      using index_one_down [OF Cons.prems] by blast
    show ?thesis
      using Cons.IH [of "s\<lparr>unIndexedItemCache := gdel key (unIndexedItemCache s)\<rparr>" "n + 1"] Cons.prems Some e
      by (auto simp: Let_def)
  qed
qed auto

lemma gget_keys: "gget m k \<noteq> None \<longleftrightarrow> k \<in> set (gkeys m)"
  unfolding gkeys_dom by (simp add: domIff)

section \<open>Facts: cleaning\<close>

definition invalid_key :: "(string, index_cache_item) gomap \<Rightarrow> string \<Rightarrow> bool" where
  "invalid_key ix key \<longleftrightarrow> length (split (CHR ''_'') key) = 3 \<and> gget ix (split (CHR ''_'') key ! 0) = None"

lemma clean_keys_eq:
  "clean_keys ix keys (n, m) =
     (n + int (length (filter (invalid_key ix) keys)),
      foldl (\<lambda>m k. GraphItemMap_Del k m) m (filter (invalid_key ix) keys))"
  by (induction keys arbitrary: n m) (auto simp: invalid_key_def GraphItemMap_Del_def Let_def)

lemma clean_shard:
  assumes "good_items m" "i < Size m"
  shows "good_items (snd (clean_keys ix (GraphItemMap_KeysByIndex i m) (n, m)))"
    and "Size (snd (clean_keys ix (GraphItemMap_KeysByIndex i m) (n, m))) = Size m"
    and "idx (snd (clean_keys ix (GraphItemMap_KeysByIndex i m) (n, m))) = idx m"
    and "GraphItemMap_Get (snd (clean_keys ix (GraphItemMap_KeysByIndex i m) (n, m))) k =
      (if invalid_key ix k \<and> idx m k = i then None else GraphItemMap_Get m k)"
proof -
  have size: "Size (foldl (\<lambda>m k. GraphItemMap_Del k m) m ks) = Size m \<and>
      idx (foldl (\<lambda>m k. GraphItemMap_Del k m) m ks) = idx m" for ks
    by (induction ks arbitrary: m) simp_all
  show "good_items (snd (clean_keys ix (GraphItemMap_KeysByIndex i m) (n, m)))"
    by (simp only: clean_keys_eq snd_conv gi.inv_del_all [OF assms(1)])
  show "Size (snd (clean_keys ix (GraphItemMap_KeysByIndex i m) (n, m))) = Size m"
    "idx (snd (clean_keys ix (GraphItemMap_KeysByIndex i m) (n, m))) = idx m"
    by (simp_all only: clean_keys_eq snd_conv size)
  have mem: "k \<in> set (gkeys (A m ! i)) \<longleftrightarrow> idx m k = i \<and> GraphItemMap_Get m k \<noteq> None"
    using shard_keys [OF assms, of k] gget_keys [of "A m ! i" k] by (auto simp: GraphItemMap_Get_def)
  show "GraphItemMap_Get (snd (clean_keys ix (GraphItemMap_KeysByIndex i m) (n, m))) k =
      (if invalid_key ix k \<and> idx m k = i then None else GraphItemMap_Get m k)"
    unfolding clean_keys_eq snd_conv gi.get_del_all [OF assms(1)] set_filter mem KeysByIndex_eq mem_Collect_eq
    by auto
qed

lemma clean_all:
  assumes "good_items m" "set is \<subseteq> {..<Size m}"
  shows "good_items (snd (foldl (\<lambda>acc i. clean_keys ix (GraphItemMap_KeysByIndex i (snd acc)) acc) (n, m) is))
    \<and> GraphItemMap_Get (snd (foldl (\<lambda>acc i. clean_keys ix (GraphItemMap_KeysByIndex i (snd acc)) acc) (n, m) is)) k =
      (if invalid_key ix k \<and> idx m k \<in> set is then None else GraphItemMap_Get m k)"
  using assms
proof (induction "is" arbitrary: n m)
  case (Cons i "is")
  obtain n' m' where nm: "clean_keys ix (GraphItemMap_KeysByIndex i m) (n, m) = (n', m')" by force
  have i: "i < Size m" using Cons.prems by simp
  note c = clean_shard [OF Cons.prems(1) i, of ix n, unfolded nm snd_conv]
  have "set is \<subseteq> {..<Size m'}" using Cons.prems c(2) by simp
  from Cons.IH [OF c(1) this, of n'] c(3,4) show ?case
    by (auto simp: nm [unfolded KeysByIndex_eq])
qed simp

section \<open>Properties\<close>

text \<open>
  Indexing an item writes its rows. With the database up, \<open>updateIndexFromOneItem\<close> succeeds; the
  endpoint has a positive id, the same as before if it had one; the counter has the type and step
  of the item, all tags of the item have rows, and no other endpoint or counter changes.
\<close>

theorem index_one_item:
  assumes "Up db" "good_db db"
  shows "\<exists>i db'. updateIndexFromOneItem it db = (None, db') \<and> Up db' \<and> good_db db' \<and> 0 < i \<and>
    gget (EndpointRows db') = (gget (EndpointRows db))(gi_Endpoint it \<mapsto> (i, gi_Timestamp it)) \<and>
    gget (CounterRows db') = (gget (CounterRows db))
      ((i, Counter (gi_Metric it) (gi_Tags it)) \<mapsto> (gi_Step it, gi_DsType it, gi_Timestamp it)) \<and>
    (\<forall>(k, v) \<in> set (gi_Tags it). gget (TagRows db') (k @ ''='' @ v, i) = Some (gi_Timestamp it)) \<and>
    (\<forall>t j. j \<noteq> i \<longrightarrow> gget (TagRows db') (t, j) = gget (TagRows db) (t, j)) \<and>
    (\<forall>j t. gget (EndpointRows db) (gi_Endpoint it) = Some (j, t) \<longrightarrow> i = j)"
  by (rule index_one_up [OF assms])

definition demo_db :: graph_db where
  "demo_db = \<lparr>Up = True, NextId = 1, EndpointRows = [], TagRows = [], CounterRows = []\<rparr>"

theorem index_one_item_witness:
  "\<exists>db'. updateIndexFromOneItem (demo_graph_item 60) demo_db = (None, db') \<and>
    (\<exists>i. gget (CounterRows db') (i, ''cpu.idle'') = Some (60, ''GAUGE'', 60))"
proof -
  have "good_db demo_db" "Up demo_db" by (simp_all add: good_db_def demo_db_def)
  from index_one_item [OF this(2,1), of "demo_graph_item 60"] show ?thesis
    by (auto simp: demo_graph_item_def empty_item_def Counter_def)
qed

text \<open>
  The incremental task indexes everything that waits. With a connection and the database up, it
  counts and indexes every waiting item and leaves none waiting; afterwards a query for the series
  of such an item finds its type and step.
\<close>

theorem index_incr_complete:
  assumes "Up (Db s)" "good_db (Db s)" "gwf (unIndexedItemCache s)"
    and "updateIndexIncr True s = (n, s')"
  shows "n = int (length (unIndexedItemCache s)) \<and> gkeys (unIndexedItemCache s') = []
    \<and> (\<forall>key ic. gget (unIndexedItemCache s) key = Some ic \<longrightarrow> gget (IndexedItemCache s') key = Some ic \<and>
         (key = GraphItem_Checksum (ic_Item ic) \<longrightarrow>
          GetTypeAndStep now (gi_Endpoint (ic_Item ic)) (Counter (gi_Metric (ic_Item ic)) (gi_Tags (ic_Item ic))) s' =
            Inr (Some (gi_DsType (ic_Item ic), gi_Step (ic_Item ic)), s')))
    \<and> (\<forall>key. gget (unIndexedItemCache s) key = None \<longrightarrow>
         gget (IndexedItemCache s') key = gget (IndexedItemCache s) key)"
proof -
  have "distinct (gkeys (unIndexedItemCache s))" using assms(3) by (simp add: gwf_def)
  moreover have "\<forall>k \<in> set (gkeys (unIndexedItemCache s)). gget (unIndexedItemCache s) k \<noteq> None"
    by (simp only: gget_keys) simp
  ultimately obtain s1 where r1:
    "incr_loop (gkeys (unIndexedItemCache s)) (0, s) = (0 + int (length (gkeys (unIndexedItemCache s))), s1)"
    "\<forall>k. gget (unIndexedItemCache s1) k =
       (if k \<in> set (gkeys (unIndexedItemCache s)) then None else gget (unIndexedItemCache s) k)"
    "\<forall>k. gget (IndexedItemCache s1) k =
       (if k \<in> set (gkeys (unIndexedItemCache s)) then gget (unIndexedItemCache s) k
        else gget (IndexedItemCache s) k)"
    using incr_loop_up [OF assms(1,2)] by blast
  have s1: "incr_loop (gkeys (unIndexedItemCache s)) (0, s) = (int (length (unIndexedItemCache s)), s1)"
    "\<And>k. gget (unIndexedItemCache s1) k = None"
    "\<And>k. gget (IndexedItemCache s1) k =
       (if gget (unIndexedItemCache s) k \<noteq> None then gget (unIndexedItemCache s) k else gget (IndexedItemCache s) k)"
    using r1 gget_keys [of "unIndexedItemCache s"] by (simp_all del: set_map map_of_eq_None_iff) (metis option.exhaust)
  have run: "n = int (length (unIndexedItemCache s))" "s' = s1 \<or> unIndexedItemCache s = [] \<and> s' = s"
    using assms(4) s1(1) by (auto simp: updateIndexIncr_def split: if_splits)
  have found: "GetTypeAndStep now (gi_Endpoint it) (Counter (gi_Metric it) (gi_Tags it)) s' =
      Inr (Some (gi_DsType it, gi_Step it), s')"
    if "gget (IndexedItemCache s') (GraphItem_Checksum it) = Some ic" "it = ic_Item ic" for it ic
    using that by (simp add: GetTypeAndStep_def GraphItem_Checksum_def Checksum_def PK_PK2 PK2_def)
  show ?thesis
  proof (cases "s' = s1")
    case True
    have "gget (unIndexedItemCache s1) = Map.empty" using s1(2) by (rule ext)
    then have "unIndexedItemCache s1 = []" by (simp only: map_of_eq_empty_iff)
    then show ?thesis using True run(1) s1(3) found by auto
  next
    case False
    then show ?thesis using run by simp
  qed
qed

definition demo_graph :: graph_state where
  "demo_graph = \<lparr>GraphItems = demo_items, HistoryCache = [], IndexedItemCache = [],
     unIndexedItemCache = [(''k'', \<lparr>ic_UUID = ''u'', ic_Item = demo_graph_item 60\<rparr>)],
     dbEndpointCache = [], dbEndpointCounterCache = [], Db = demo_db, Disk = [],
     flushrrd_timeout = False\<rparr>"

theorem index_incr_complete_witness:
  "\<exists>s'. updateIndexIncr True demo_graph = (1, s') \<and> gkeys (unIndexedItemCache s') = [] \<and>
    gget (IndexedItemCache s') ''k'' = Some \<lparr>ic_UUID = ''u'', ic_Item = demo_graph_item 60\<rparr>"
proof -
  obtain n s' where r: "updateIndexIncr True demo_graph = (n, s')" by force
  have "Up (Db demo_graph)" "good_db (Db demo_graph)" "gwf (unIndexedItemCache demo_graph)"
    by (simp_all add: demo_graph_def demo_db_def good_db_def gwf_def)
  from index_incr_complete [OF this r, of 0] r show ?thesis by (simp add: demo_graph_def)
qed

text \<open>
  The incremental task forgets what it cannot write. If a connection was obtained but the
  statements fail, every waiting item is removed and none of them is indexed: the series are not
  retried until they are reported again.
\<close>

theorem index_incr_drops:
  assumes "\<not> Up (Db s)" "updateIndexIncr True s = (n, s')"
  shows "IndexedItemCache s' = IndexedItemCache s \<and> (\<forall>key. gget (unIndexedItemCache s') key = None)"
proof -
  obtain m s1 where s1: "incr_loop (gkeys (unIndexedItemCache s)) (0, s) = (m, s1)"
    "IndexedItemCache s1 = IndexedItemCache s"
    "\<And>k. gget (unIndexedItemCache s1) k =
       (if k \<in> set (gkeys (unIndexedItemCache s)) then None else gget (unIndexedItemCache s) k)"
    using incr_loop_down [OF assms(1), of "gkeys (unIndexedItemCache s)" 0] by blast
  have "gget (unIndexedItemCache s1) k = None" for k
    using s1(3) [of k] gget_keys [of "unIndexedItemCache s" k] by (auto simp del: map_of_eq_None_iff set_map split: if_splits)
  then show ?thesis
    using assms(2) s1(1,2) by (auto simp: updateIndexIncr_def split: if_splits)
qed

theorem index_incr_drops_witness:
  "gget (unIndexedItemCache (snd (updateIndexIncr True (demo_graph\<lparr>Db := demo_db\<lparr>Up := False\<rparr>\<rparr>)))) ''k'' = None"
  using index_incr_drops [of "demo_graph\<lparr>Db := demo_db\<lparr>Up := False\<rparr>\<rparr>"]
  by (metis (no_types, lifting) graph_db.select_convs(1) graph_db.surjective graph_db.update_convs(1)
      graph_state.select_convs(7) graph_state.surjective graph_state.update_convs(7) prod.collapse)

text \<open>
  Daily cleaning keeps exactly the indexed series. \<open>DeleteInvalidItems\<close> removes a cache entry if
  and only if its key is made of three parts and no series with its checksum is indexed, and
  touches nothing else.
\<close>

theorem clean_items_exact:
  assumes "good_items (GraphItems s)"
  shows "good_items (GraphItems (snd (DeleteInvalidItems s)))
    \<and> GraphItemMap_Get (GraphItems (snd (DeleteInvalidItems s))) k =
        (if invalid_key (IndexedItemCache s) k then None else GraphItemMap_Get (GraphItems s) k)
    \<and> (CHR ''_'' \<notin> set dsType \<longrightarrow>
        (invalid_key (IndexedItemCache s) (FormRrdCacheKey (Md5 pk) dsType step) \<longleftrightarrow>
           gget (IndexedItemCache s) (Md5 pk) = None))"
proof -
  have "set [0..<Size (GraphItems s)] \<subseteq> {..<Size (GraphItems s)}" by auto
  note c = clean_all [OF assms this, of "IndexedItemCache s" 0]
  have "invalid_key (IndexedItemCache s) (FormRrdCacheKey (Md5 pk) dsType step) \<longleftrightarrow>
      gget (IndexedItemCache s) (Md5 pk) = None" if "CHR ''_'' \<notin> set dsType"
  proof -
    have "FormRrdCacheKey (Md5 pk) dsType step = Md5 pk @ CHR ''_'' # (dsType @ CHR ''_'' # itoa step)"
      by (simp add: FormRrdCacheKey_def)
    then have "split (CHR ''_'') (FormRrdCacheKey (Md5 pk) dsType step) = [Md5 pk, dsType, itoa step]"
      using that split_append itoa_no_underscore md5_no_underscore split_no_sep by metis
    then show ?thesis by (simp add: invalid_key_def)
  qed
  then show ?thesis
    using c idx_less [OF assms, of k] by (auto simp: DeleteInvalidItems_def split: prod.splits)
qed

theorem clean_items_exact_witness:
  "GraphItemMap_Get (GraphItems (snd (DeleteInvalidItems demo_graph))) ''k'' \<noteq> None"
  using clean_items_exact [of demo_graph "''k''" "[]" "[]" 0] demo_items_good
  by (simp add: demo_graph_def invalid_key_def)

end
