(* ===== verification/Graph_Rrd.thy ===== *)
theory Graph_Rrd
  imports Graph_Index
begin

text \<open>
  From memory to disk (\<open>modules/graph/rrdtool/rrdtool.go\<close>, \<open>sync_disk.go\<close>, \<open>utils.go\<close>) and, while a
  cluster is being extended, to and from the old owner of a series (\<open>migrate.go\<close>). The RRD library
  (cgo) is not modelled: a file is the list of values it was given, and the environment says which
  calls succeed and what a fetch returns. Tasks that the code hands to worker goroutines over
  channels, waiting for the answer, run in place.
\<close>

section \<open>Environment\<close>

record rrd_env =
  InsureDirOk :: "string \<Rightarrow> bool"
  CreateOk :: "string \<Rightarrow> bool"
  UpdateTakes :: "rrd_file \<Rightarrow> (int \<times> rrd_value) list \<Rightarrow> nat" \<comment> \<open>leading values accepted\<close>
  RrdFetch :: "rrd_file option \<Rightarrow> string \<Rightarrow> int \<Rightarrow> int \<Rightarrow> int \<Rightarrow> (int \<times> int \<times> f64 list) option"
    \<comment> \<open>start and step of the result in seconds, values\<close>
  IntOverflow :: "f64 \<Rightarrow> int" \<comment> \<open>\<open>int(x)\<close> where Go leaves it open\<close>
  ConsistentGet :: "string \<Rightarrow> string option"

section \<open>Workers (\<open>utils.go\<close>)\<close>

definition hex_val :: "char \<Rightarrow> nat option" where
  "hex_val c = (let n = of_char c in
     if 48 \<le> n \<and> n \<le> 57 then Some (n - 48)
     else if 97 \<le> n \<and> n \<le> 102 then Some (n - 87)
     else if 65 \<le> n \<and> n \<le> 70 then Some (n - 55)
     else None)"

fun hex_digits :: "nat \<Rightarrow> string \<Rightarrow> nat option" where
  "hex_digits acc [] = Some acc"
| "hex_digits acc (c # cs) = (case hex_val c of None \<Rightarrow> None | Some d \<Rightarrow> hex_digits (16 * acc + d) cs)"

text \<open>\<open>strconv.ParseInt(s, 16, 64)\<close>.\<close>

definition parse_hex :: "string \<Rightarrow> int res" where
  "parse_hex s =
     (let (neg, ds) = parse_sign s in
      if ds = [] then Inl (Err ''invalid syntax'')
      else case hex_digits 0 ds of
        None \<Rightarrow> Inl (Err ''invalid syntax'')
      | Some n \<Rightarrow> let i = (if neg then - int n else int n)
                   in if in_i64 i then Inr i else Inl (Err ''value out of range''))"

definition getIndex :: "graph_cfg \<Rightarrow> string \<Rightarrow> int res" where
  "getIndex cfg md5 =
     (let batchNum = IOWorkerNum cfg; firstBytesSize = FirstBytesSize cfg in
      if batchNum \<le> 1 \<or> int (length md5) < firstBytesSize \<or> firstBytesSize = 0 then Inr 0
      else bind_res (slice md5 0 firstBytesSize) (\<lambda>pre.
        case parse_hex pre of Inl e \<Rightarrow> Inr 0 | Inr m \<Rightarrow> go_mod m batchNum))"

text \<open>\<open>io_task_chans[getIndex(md5)]\<close>: there is one channel per worker.\<close>

definition io_worker :: "graph_cfg \<Rightarrow> string \<Rightarrow> int res" where
  "io_worker cfg md5 =
     bind_res (getIndex cfg md5) (\<lambda>i.
       if 0 \<le> i \<and> i < IOWorkerNum cfg then Inr i else Inl (Panic ''index out of range''))"

section \<open>Files (\<open>rrdtool.go\<close>)\<close>

definition RRA1PointCnt :: int where "RRA1PointCnt = 720"
definition RRA5PointCnt :: int where "RRA5PointCnt = 576"
definition RRA20PointCnt :: int where "RRA20PointCnt = 504"
definition RRA180PointCnt :: int where "RRA180PointCnt = 766"
definition RRA720PointCnt :: int where "RRA720PointCnt = 730"

definition create :: "rrd_env \<Rightarrow> string \<Rightarrow> graph_item \<Rightarrow> (string, rrd_file) gomap
    \<Rightarrow> go_error option \<times> (string, rrd_file) gomap" where
  "create env filename item disk =
     (if CreateOk env filename
      then (None, gput filename
        \<lparr>rf_Created = item,
         rf_Archives = [(''AVERAGE'', 1, RRA1PointCnt),
           (''AVERAGE'', 5, RRA5PointCnt), (''MAX'', 5, RRA5PointCnt), (''MIN'', 5, RRA5PointCnt),
           (''AVERAGE'', 20, RRA20PointCnt), (''MAX'', 20, RRA20PointCnt), (''MIN'', 20, RRA20PointCnt),
           (''AVERAGE'', 180, RRA180PointCnt), (''MAX'', 180, RRA180PointCnt), (''MIN'', 180, RRA180PointCnt),
           (''AVERAGE'', 720, RRA720PointCnt), (''MAX'', 720, RRA720PointCnt), (''MIN'', 720, RRA720PointCnt)],
         rf_Updates = []\<rparr> disk)
      else (Some (Err ''create''), disk))"

definition go_int :: "rrd_env \<Rightarrow> f64 \<Rightarrow> int" where
  "go_int env v =
     (case v of
        Fin q \<Rightarrow> let t = (if q < 0 then - \<lfloor>- q\<rfloor> else \<lfloor>q\<rfloor>) in if in_i64 t then t else IntOverflow env v
      | Zero _ \<Rightarrow> 0
      | _ \<Rightarrow> IntOverflow env v)"

text \<open>The values that \<open>update\<close> caches: too large and too small ones are left out.\<close>

definition cached :: "rrd_env \<Rightarrow> graph_item \<Rightarrow> (int \<times> rrd_value) option" where
  "cached env item =
     (let v = fabs (gi_Value item) in
      if flit (10 ^ 300) < v \<or> (v < flit (1 / 10 ^ 300) \<and> 0 < v) then None
      else if gi_DsType item = ''DERIVE'' \<or> gi_DsType item = ''COUNTER''
      then Some (gi_Timestamp item, RInt (go_int env (gi_Value item)))
      else Some (gi_Timestamp item, RFloat (gi_Value item)))"

definition update :: "rrd_env \<Rightarrow> string \<Rightarrow> graph_item list \<Rightarrow> (string, rrd_file) gomap
    \<Rightarrow> go_error option \<times> (string, rrd_file) gomap" where
  "update env filename items disk =
     (let vs = List.map_filter (cached env) items in
      case gget disk filename of
        None \<Rightarrow> (Some (Err ''no such file''), disk)
      | Some f \<Rightarrow>
          let n = UpdateTakes env f vs
          in (if n < length vs then Some (Err ''update'') else None,
              gput filename (f\<lparr>rf_Updates := rf_Updates f @ take n vs\<rparr>) disk))"

definition flushrrd :: "rrd_env \<Rightarrow> string \<Rightarrow> graph_item list \<Rightarrow> (string, rrd_file) gomap
    \<Rightarrow> go_error option \<times> (string, rrd_file) gomap" where
  "flushrrd env filename items disk =
     (case items of
        [] \<Rightarrow> (Some (Err ''empty items''), disk)
      | item0 # _ \<Rightarrow>
          if gget disk filename = None then
            if \<not> InsureDirOk env filename then (Some (Err ''mkdir''), disk)
            else (case create env filename item0 disk of
                (Some e, disk) \<Rightarrow> (Some e, disk)
              | (None, disk) \<Rightarrow> update env filename items disk)
          else update env filename items disk)"

definition FlushFile :: "rrd_env \<Rightarrow> graph_cfg \<Rightarrow> string \<Rightarrow> string \<Rightarrow> graph_item list \<Rightarrow> graph_state
    \<Rightarrow> (go_error option \<times> graph_state) res" where
  "FlushFile env cfg filename md5 items s =
     bind_res (io_worker cfg md5) (\<lambda>_.
       let (err, disk) = flushrrd env filename items (Disk s) in Inr (err, s\<lparr>Disk := disk\<rparr>))"

definition ReadFile :: "graph_cfg \<Rightarrow> string \<Rightarrow> string \<Rightarrow> graph_state \<Rightarrow> (rrd_file res) res" where
  "ReadFile cfg filename md5 s =
     bind_res (io_worker cfg md5) (\<lambda>_.
       Inr (case gget (Disk s) filename of None \<Rightarrow> Inl (Err ''no such file'') | Some f \<Rightarrow> Inr f))"

text \<open>\<open>writeFile\<close> opens with \<open>O_EXCL\<close>: an existing file is an error.\<close>

definition write_file :: "rrd_env \<Rightarrow> string \<Rightarrow> rrd_file \<Rightarrow> (string, rrd_file) gomap
    \<Rightarrow> go_error option \<times> (string, rrd_file) gomap" where
  "write_file env filename body disk =
     (if \<not> InsureDirOk env filename then (Some (Err ''mkdir''), disk)
      else if gget disk filename \<noteq> None then (Some (Err ''file exists''), disk)
      else (None, gput filename body disk))"

fun fetch_points :: "int \<Rightarrow> int \<Rightarrow> int \<Rightarrow> f64 list \<Rightarrow> rrd_data list" where
  "fetch_points start_ts step_s i [] = []"
| "fetch_points start_ts step_s i (v # vs) =
     NewRRDData (start_ts + (i + 1) * step_s) v # fetch_points start_ts step_s (i + 1) vs"

definition fetch :: "rrd_env \<Rightarrow> string \<Rightarrow> string \<Rightarrow> int \<Rightarrow> int \<Rightarrow> int \<Rightarrow> graph_state \<Rightarrow> rrd_data list" where
  "fetch env filename cf start end step s =
     (case RrdFetch env (gget (Disk s) filename) cf start end step of
        None \<Rightarrow> []
      | Some (start_ts, step_s, values) \<Rightarrow> fetch_points start_ts step_s 0 values)"

definition Fetch :: "rrd_env \<Rightarrow> graph_cfg \<Rightarrow> string \<Rightarrow> string \<Rightarrow> string \<Rightarrow> int \<Rightarrow> int \<Rightarrow> int \<Rightarrow> graph_state
    \<Rightarrow> rrd_data list res" where
  "Fetch env cfg filename md5 cf start end step s =
     bind_res (io_worker cfg md5) (\<lambda>_. Inr (fetch env filename cf start end step s))"

section \<open>Flushing\<close>

text \<open>The result of \<open>FlushFile\<close> is not looked at.\<close>

definition CommitByKey :: "rrd_env \<Rightarrow> graph_cfg \<Rightarrow> string \<Rightarrow> graph_state \<Rightarrow> graph_state res" where
  "CommitByKey env cfg key s =
     (case SplitRrdCacheKey key of
        Inl e \<Rightarrow> Inr s
      | Inr (md5, dsType, step) \<Rightarrow>
          bind_res (RrdFileName (Storage cfg) md5 dsType step) (\<lambda>filename.
            let (items, m) = GraphItemMap_PopAll key (GraphItems s); s = s\<lparr>GraphItems := m\<rparr> in
            if length items = 0 then Inr s
            else bind_res (FlushFile env cfg filename md5 items s) (\<lambda>(err, s). Inr s)))"

text \<open>A request to pull a series: the old owner and the key, handed to a network worker.\<close>

type_synonym pull = "string \<times> string"

definition PullByKey :: "rrd_env \<Rightarrow> string \<Rightarrow> graph_state \<Rightarrow> pull list" where
  "PullByKey env key s =
     (case GraphItemMap_First (GraphItems s) key of
        None \<Rightarrow> []
      | Some item \<Rightarrow>
          (case ConsistentGet env (GraphItem_PrimaryKey item) of
             None \<Rightarrow> []
           | Some node \<Rightarrow> [(node, key)]))"

definition shouldFlush :: "int \<Rightarrow> string \<Rightarrow> graph_state \<Rightarrow> bool" where
  "shouldFlush now key s =
     (if FLUSH_MIN_COUNT \<le> int (GraphItemMap_ItemCnt (GraphItems s) key) then True
      else let deadline = now - FLUSH_MAX_WAIT in
        (case GraphItemMap_Back (GraphItems s) key of
           None \<Rightarrow> False
         | Some back \<Rightarrow> gi_Timestamp back \<le> deadline))"

text \<open>\<open>slow key\<close>: more than a flush interval has passed when the loop comes to the key.\<close>

fun flush_keys ::
  "rrd_env \<Rightarrow> graph_cfg \<Rightarrow> (string \<Rightarrow> bool) \<Rightarrow> int \<Rightarrow> bool \<Rightarrow> string list \<Rightarrow> pull list \<times> graph_state
   \<Rightarrow> (pull list \<times> graph_state) res" where
  "flush_keys env cfg slow now force [] acc = Inr acc"
| "flush_keys env cfg slow now force (key # keys) (pulls, s) =
     (let flag = (case GraphItemMap_GetFlag (GraphItems s) key of Inr f \<Rightarrow> f | Inl e \<Rightarrow> 0) in
      if force = False \<and> MigrateEnabled cfg \<and> and flag GRAPH_F_MISS \<noteq> 0
      then let s = (if slow key then s\<lparr>flushrrd_timeout := True\<rparr> else s)
           in flush_keys env cfg slow now force keys (pulls @ PullByKey env key s, s)
      else if force \<or> shouldFlush now key s
      then bind_res (CommitByKey env cfg key s) (\<lambda>s. flush_keys env cfg slow now force keys (pulls, s))
      else flush_keys env cfg slow now force keys (pulls, s))"

definition FlushRRD ::
  "rrd_env \<Rightarrow> graph_cfg \<Rightarrow> (string \<Rightarrow> bool) \<Rightarrow> int \<Rightarrow> nat \<Rightarrow> bool \<Rightarrow> graph_state \<Rightarrow> (pull list \<times> graph_state) res" where
  "FlushRRD env cfg slow now i force s =
     (let s = s\<lparr>flushrrd_timeout := False\<rparr>; keys = GraphItemMap_KeysByIndex i (GraphItems s) in
      if length keys = 0 then Inr ([], s)
      else flush_keys env cfg slow now force keys ([], s))"

text \<open>The progress line is printed when \<open>i%n\<close> is zero.\<close>

fun flush_all_loop ::
  "rrd_env \<Rightarrow> graph_cfg \<Rightarrow> (string \<Rightarrow> bool) \<Rightarrow> int \<Rightarrow> bool \<Rightarrow> int \<Rightarrow> nat list \<Rightarrow> pull list \<times> graph_state
   \<Rightarrow> (pull list \<times> graph_state) res" where
  "flush_all_loop env cfg slow now force n [] acc = Inr acc"
| "flush_all_loop env cfg slow now force n (i # is) (pulls, s) =
     bind_res (FlushRRD env cfg slow now i force s) (\<lambda>(p, s).
     bind_res (go_mod (int i) n) (\<lambda>_. flush_all_loop env cfg slow now force n is (pulls @ p, s)))"

definition FlushAll ::
  "rrd_env \<Rightarrow> graph_cfg \<Rightarrow> (string \<Rightarrow> bool) \<Rightarrow> int \<Rightarrow> bool \<Rightarrow> graph_state \<Rightarrow> (pull list \<times> graph_state) res" where
  "FlushAll env cfg slow now force s =
     (let n = int (Size (GraphItems s)) div 10
      in flush_all_loop env cfg slow now force n [0..<Size (GraphItems s)] ([], s))"

section \<open>Migration (\<open>migrate.go\<close>)\<close>

text \<open>Up to three calls; \<open>ok i\<close> says whether the i-th succeeds. A shut down connection is dialled again.\<close>

fun three_calls :: "(nat \<Rightarrow> 'a option) \<Rightarrow> nat \<Rightarrow> nat \<Rightarrow> 'a option" where
  "three_calls call i 0 = None"
| "three_calls call i (Suc k) = (case call i of Some r \<Rightarrow> Some r | None \<Rightarrow> three_calls call (i + 1) k)"

definition set_flag :: "string \<Rightarrow> 32 word \<Rightarrow> graph_item_map \<Rightarrow> graph_item_map" where
  "set_flag key flag m = (case GraphItemMap_SetFlag key flag m of Inr m' \<Rightarrow> m' | Inl e \<Rightarrow> m)"

text \<open>The items delivered to the old owner are the second component of the result.\<close>

definition send_data ::
  "(nat \<Rightarrow> unit option) \<Rightarrow> string \<Rightarrow> graph_state \<Rightarrow> go_error option \<times> graph_item list \<times> graph_state" where
  "send_data call key s =
     (case GraphItemMap_GetFlag (GraphItems s) key of
        Inl e \<Rightarrow> (Some e, [], s)
      | Inr flag \<Rightarrow>
          let m = set_flag key (or flag GRAPH_F_SENDING) (GraphItems s);
              (items, m) = GraphItemMap_PopAll key m;
              (err, sent, m) =
                (if length items = 0 then (None, [], m)
                 else case three_calls call 0 3 of
                   Some _ \<Rightarrow> (None, items, m)
                 | None \<Rightarrow> (Some (Err ''call''), [],
                     (case GraphItemMap_PushAll key items m of Inr m' \<Rightarrow> m' | Inl e \<Rightarrow> m)));
              flag = and flag (not GRAPH_F_SENDING);
              m = set_flag key flag m
          in (err, sent, s\<lparr>GraphItems := m\<rparr>))"

text \<open>The results of \<open>SplitRrdCacheKey\<close> when its error is ignored.\<close>

definition key_parts :: "string \<Rightarrow> string \<times> string \<times> int" where
  "key_parts ckey =
     (case split (CHR ''_'') ckey of
        [md5, dsType, s] \<Rightarrow> (md5, dsType, case parse_int 32 s of Inr step \<Rightarrow> step | Inl e \<Rightarrow> 0)
      | _ \<Rightarrow> ([], [], 0))"

definition fetch_rrd ::
  "rrd_env \<Rightarrow> graph_cfg \<Rightarrow> (nat \<Rightarrow> rrd_file option) \<Rightarrow> string \<Rightarrow> graph_state \<Rightarrow> (go_error option \<times> graph_state) res" where
  "fetch_rrd env cfg call key s =
     (case GraphItemMap_GetFlag (GraphItems s) key of
        Inl e \<Rightarrow> Inr (Some e, s)
      | Inr flag \<Rightarrow>
          let m = set_flag key (or flag GRAPH_F_FETCHING) (GraphItems s);
              (md5, dsType, step) = key_parts key
          in bind_res (RrdFileName (Storage cfg) md5 dsType step) (\<lambda>filename.
             case three_calls call 0 3 of
               None \<Rightarrow>
                 let flag = and flag (not GRAPH_F_FETCHING)
                 in Inr (Some (Err ''call''), s\<lparr>GraphItems := set_flag key flag m\<rparr>)
             | Some body \<Rightarrow>
                 bind_res (io_worker cfg md5) (\<lambda>_.
                   let (err, disk) = write_file env filename body (Disk s);
                       flag = (if err \<noteq> None then flag else and flag (not GRAPH_F_MISS));
                       flag = and flag (not GRAPH_F_FETCHING)
                   in Inr (err, s\<lparr>GraphItems := set_flag key flag m, Disk := disk\<rparr>))))"

text \<open>
  What a network worker does with a request to pull: if the flush loop is late, the samples are sent
  to the old owner, otherwise its file is fetched; a file that does not exist there (\<open>os.IsNotExist\<close>)
  turns the series into a local one.
\<close>

definition pull_task ::
  "rrd_env \<Rightarrow> graph_cfg \<Rightarrow> (go_error \<Rightarrow> bool) \<Rightarrow> (nat \<Rightarrow> unit option) \<Rightarrow> (nat \<Rightarrow> rrd_file option) \<Rightarrow> string
   \<Rightarrow> graph_state \<Rightarrow> (go_error option \<times> graph_item list \<times> graph_state) res" where
  "pull_task env cfg IsNotExist send_call get_call key s =
     (if flushrrd_timeout s then Inr (send_data send_call key s)
      else bind_res (fetch_rrd env cfg get_call key s) (\<lambda>(err, s).
        case err of
          None \<Rightarrow> Inr (None, [], s)
        | Some e \<Rightarrow>
            if IsNotExist e
            then bind_res (CommitByKey env cfg key (s\<lparr>GraphItems := set_flag key 0 (GraphItems s)\<rparr>))
                   (\<lambda>s. Inr (err, [], s))
            else Inr (err, [], s)))"

section \<open>Facts\<close>

lemma set_flag_eq:
  "GraphItemMap_Get m key = Some sl \<Longrightarrow> set_flag key f m = GraphItemMap_Set key (sl\<lparr>Flag := f\<rparr>) m"
  by (simp add: set_flag_def GraphItemMap_SetFlag_def on_list_def)

lemma hex_digits_hex: "list_all is_hex s \<Longrightarrow> \<exists>n. hex_digits acc s = Some n"
proof (induction acc s rule: hex_digits.induct)
  case (2 acc c cs)
  then obtain d where "hex_val c = Some d"
    by (auto simp: hex_val_def is_hex_def is_digit_def Let_def)
  then show ?case using 2 by simp
qed simp

lemma parse_sign_hex: "list_all is_hex s \<Longrightarrow> parse_sign s = (False, s)"
proof (cases s)
  case (Cons c cs)
  assume "list_all is_hex s"
  then have "is_hex c" using Cons by simp
  moreover have "\<not> is_hex (CHR ''-'')" "\<not> is_hex (CHR ''+'')" by (simp_all add: is_hex_def)
  ultimately have "c \<noteq> CHR ''-''" "c \<noteq> CHR ''+''" by metis+
  then show ?thesis using Cons by (simp add: parse_sign_def)
qed (simp add: parse_sign_def)

lemma parse_hex_nonneg: "list_all is_hex s \<Longrightarrow> parse_hex s = Inr i \<Longrightarrow> 0 \<le> i"
  by (auto simp: parse_hex_def parse_sign_hex Let_def split: if_splits option.splits)

lemma getIndex_range:
  assumes "list_all is_hex md5" "1 \<le> IOWorkerNum cfg" "0 \<le> FirstBytesSize cfg"
  shows "\<exists>i. getIndex cfg md5 = Inr i \<and> 0 \<le> i \<and> i < IOWorkerNum cfg"
proof (cases "IOWorkerNum cfg \<le> 1 \<or> int (length md5) < FirstBytesSize cfg \<or> FirstBytesSize cfg = 0")
  case True
  then show ?thesis using assms(2) by (auto simp: getIndex_def)
next
  case False
  let ?pre = "take (nat (FirstBytesSize cfg)) md5"
  have pre: "slice md5 0 (FirstBytesSize cfg) = Inr ?pre" using False assms(3) by (simp add: slice_def)
  have hex: "list_all is_hex ?pre" using assms(1) by (auto simp: list_all_iff dest: in_set_takeD)
  show ?thesis
  proof (cases "parse_hex ?pre")
    case (Inl e)
    then show ?thesis using False pre assms(2) by (simp add: getIndex_def)
  next
    case (Inr m)
    have "0 \<le> m" by (rule parse_hex_nonneg [OF hex Inr])
    then show ?thesis
      using False pre assms(2) Inr
      by (simp add: getIndex_def go_mod_def smod_nonneg)
  qed
qed

lemma io_worker_md5:
  assumes "1 \<le> IOWorkerNum cfg" "0 \<le> FirstBytesSize cfg"
  shows "\<exists>i. io_worker cfg (Md5 pk) = Inr i"
  using getIndex_range [of "Md5 pk", OF _ assms] md5_hex_hex by (auto simp: io_worker_def Md5_def)

text \<open>What has been recorded of a series on disk.\<close>

definition recorded :: "string \<Rightarrow> graph_state \<Rightarrow> (int \<times> rrd_value) list" where
  "recorded filename s = (case gget (Disk s) filename of None \<Rightarrow> [] | Some f \<Rightarrow> rf_Updates f)"

definition healthy :: "rrd_env \<Rightarrow> bool" where
  "healthy env \<longleftrightarrow> (\<forall>f. InsureDirOk env f \<and> CreateOk env f) \<and> (\<forall>f vs. length vs \<le> UpdateTakes env f vs)"

lemma flushrrd_healthy:
  assumes "healthy env" "items \<noteq> []"
  shows "\<exists>disk'. flushrrd env filename items disk = (None, disk') \<and>
    (\<exists>f. gget disk' = (gget disk)(filename \<mapsto> f) \<and>
      rf_Updates f = (case gget disk filename of None \<Rightarrow> [] | Some g \<Rightarrow> rf_Updates g)
        @ List.map_filter (cached env) items)"
  using assms
  by (cases items; cases "gget disk filename")
     (auto simp: flushrrd_def update_def create_def healthy_def Let_def fun_eq_iff not_less)

section \<open>Properties\<close>


definition demo_rrd_env :: rrd_env where
  "demo_rrd_env = \<lparr>InsureDirOk = (\<lambda>f. True), CreateOk = (\<lambda>f. True), UpdateTakes = (\<lambda>f vs. length vs),
     RrdFetch = (\<lambda>f cf a b c. None), IntOverflow = (\<lambda>v. 0), ConsistentGet = (\<lambda>k. None)\<rparr>"


text \<open>
  A failing disk loses samples silently. If the file does not exist and cannot be created,
  \<open>CommitByKey\<close> still reports nothing, and the samples of the series are in memory no longer and
  in no file.
\<close>

theorem commit_loses:
  assumes "\<not> CreateOk env filename" "gget (Disk s) filename = None"
    and "good_items (GraphItems s)" "1 \<le> IOWorkerNum cfg" "0 \<le> FirstBytesSize cfg"
    and "CHR ''_'' \<notin> set dsType" "- (2 ^ 31) \<le> step" "step < 2 ^ 31"
    and "RrdFileName (Storage cfg) (Md5 pk) dsType step = Inr filename"
    and "key = FormRrdCacheKey (Md5 pk) dsType step"
    and "GraphItemMap_Get (GraphItems s) key = Some sl"
  shows "\<exists>s'. CommitByKey env cfg key s = Inr s' \<and> Disk s' = Disk s
    \<and> fst (GraphItemMap_FetchAll (GraphItems s') key) = []"
proof -
  have split: "SplitRrdCacheKey key = Inr (Md5 pk, dsType, step)"
    unfolding assms(10) by (rule SplitRrdCacheKey_Form [OF md5_no_underscore assms(6-8)])
  obtain w where w: "io_worker cfg (Md5 pk) = Inr w" using io_worker_md5 [OF assms(4,5)] by blast
  have m: "GraphItemMap_Get (GraphItemMap_Set key (sl\<lparr>L := []\<rparr>) (GraphItems s)) =
      (GraphItemMap_Get (GraphItems s))(key \<mapsto> sl\<lparr>L := []\<rparr>)"
    by (rule Get_Set [OF assms(3)])
  have "\<exists>e. flushrrd env filename items (Disk s) = (Some e, Disk s)" for items
    using assms(1,2) by (auto simp: flushrrd_def create_def split: list.splits)
  then obtain e where e: "flushrrd env filename (rev (L sl)) (Disk s) = (Some e, Disk s)" by blast
  show ?thesis
    using split assms(9,11) w m e
    by (cases "L sl = []")
       (simp_all add: CommitByKey_def GraphItemMap_PopAll_eq FlushFile_def GraphItemMap_FetchAll_eq)
qed

definition demo_key_graph :: graph_state where
  "demo_key_graph = demo_graph\<lparr>GraphItems := GraphItemMap_Set
     (FormRrdCacheKey (Md5 ''h1/cpu.idle'') ''GAUGE'' 60) \<lparr>Flag = 1, L = [demo_graph_item 60]\<rparr> demo_items\<rparr>"

lemma demo_key_graph:
  "good_items (GraphItems demo_key_graph)"
  "GraphItemMap_Get (GraphItems demo_key_graph) (FormRrdCacheKey (Md5 ''h1/cpu.idle'') ''GAUGE'' 60) =
     Some \<lparr>Flag = 1, L = [demo_graph_item 60]\<rparr>"
  by (simp_all add: demo_key_graph_def good_items_Set demo_items_good Get_Set)

theorem commit_loses_witness:
  "\<exists>s'. CommitByKey (demo_rrd_env\<lparr>CreateOk := \<lambda>f. False\<rparr>) demo_cfg
      (FormRrdCacheKey (Md5 ''h1/cpu.idle'') ''GAUGE'' 60) demo_key_graph = Inr s' \<and> Disk s' = []"
proof -
  have cfg: "1 \<le> IOWorkerNum demo_cfg" "0 \<le> FirstBytesSize demo_cfg" by (simp_all add: demo_cfg_def)
  obtain f where f: "RrdFileName (Storage demo_cfg) (Md5 ''h1/cpu.idle'') ''GAUGE'' 60 = Inr f"
    by (simp add: RrdFileName_def slice_def Md5_def)
  have "\<not> CreateOk (demo_rrd_env\<lparr>CreateOk := \<lambda>f. False\<rparr>) f" "gget (Disk demo_key_graph) f = None"
    by (simp_all add: demo_key_graph_def demo_graph_def)
  from commit_loses [OF this demo_key_graph(1) cfg _ _ _ f refl demo_key_graph(2)]
  have "\<exists>s'. CommitByKey (demo_rrd_env\<lparr>CreateOk := \<lambda>f. False\<rparr>) demo_cfg
      (FormRrdCacheKey (Md5 ''h1/cpu.idle'') ''GAUGE'' 60) demo_key_graph = Inr s' \<and> Disk s' = Disk demo_key_graph"
    by auto
  moreover have "Disk demo_key_graph = []" by (simp add: demo_key_graph_def demo_graph_def)
  ultimately show ?thesis by (simp only:)
qed

text \<open>
  C31: Sending a series to its old owner is all or nothing. \<open>send_data\<close> either delivers all samples of
  the series, oldest first, and keeps none, or reports an error and keeps all of them in their
  order; in both cases the sending flag is cleared, the other flags and all other series are as
  they were.
\<close>

theorem send_data_all_or_nothing:
  assumes "good_items (GraphItems s)" "GraphItemMap_Get (GraphItems s) key = Some sl"
    and "send_data call key s = (err, sent, s')"
  shows "good_items (GraphItems s')
    \<and> (\<forall>k. k \<noteq> key \<longrightarrow> GraphItemMap_Get (GraphItems s') k = GraphItemMap_Get (GraphItems s) k)
    \<and> GraphItemMap_Get (GraphItems s') key =
        Some \<lparr>Flag = and (Flag sl) (not GRAPH_F_SENDING), L = (if err = None then [] else L sl)\<rparr>
    \<and> sent = (if err = None then rev (L sl) else [])
    \<and> (err = None \<longleftrightarrow> L sl = [] \<or> (\<exists>i < 3. call i \<noteq> None))"
proof -
  let ?f1 = "or (Flag sl) GRAPH_F_SENDING" and ?f2 = "and (Flag sl) (not GRAPH_F_SENDING)"
  let ?m1 = "GraphItemMap_Set key (sl\<lparr>Flag := ?f1\<rparr>) (GraphItems s)"
  let ?m2 = "GraphItemMap_Set key (sl\<lparr>Flag := ?f1, L := []\<rparr>) ?m1"
  let ?m3 = "GraphItemMap_Set key (sl\<lparr>Flag := ?f1, L := L sl\<rparr>) ?m2"
  let ?done = "\<lambda>m l. GraphItemMap_Set key \<lparr>Flag = ?f2, L = l\<rparr> m"
  have sl: "sl\<lparr>Flag := f, L := l\<rparr> = \<lparr>Flag = f, L = l\<rparr>" "sl\<lparr>Flag := f\<rparr> = \<lparr>Flag = f, L = L sl\<rparr>" for f l
    by (cases sl; simp)+
  have good: "good_items ?m1" "good_items ?m2" "good_items ?m3"
    by (simp_all add: assms(1) good_items_Set)
  have get: "GraphItemMap_Get ?m1 key = Some (sl\<lparr>Flag := ?f1\<rparr>)"
    "GraphItemMap_Get ?m2 key = Some (sl\<lparr>Flag := ?f1, L := []\<rparr>)"
    "GraphItemMap_Get ?m3 key = Some (sl\<lparr>Flag := ?f1, L := L sl\<rparr>)"
    using good assms(1) by (simp_all add: Get_Set)
  have calls: "three_calls call 0 3 \<noteq> None \<longleftrightarrow> (\<exists>i < 3. call i \<noteq> None)"
    by (auto simp: numeral_3_eq_3 Ex_less_Suc split: option.splits)
  have flag: "GraphItemMap_GetFlag (GraphItems s) key = Inr (Flag sl)"
    by (simp add: GraphItemMap_GetFlag_def assms(2))
  have s1: "set_flag key ?f1 (GraphItems s) = ?m1" by (rule set_flag_eq [OF assms(2)])
  have pop: "GraphItemMap_PopAll key ?m1 = (rev (L sl), ?m2)"
    using GraphItemMap_PopAll_eq [OF get(1)] by simp
  have restored: "GraphItemMap_PushAll key (rev (L sl)) ?m2 = Inr ?m3"
    by (simp add: GraphItemMap_PushAll_def on_list_def get(2) PushAll_eq)
  have ends: "set_flag key ?f2 ?m2 = ?done ?m2 []" "set_flag key ?f2 ?m3 = ?done ?m3 (L sl)"
    using set_flag_eq [OF get(2), of ?f2] set_flag_eq [OF get(3), of ?f2] by (simp_all add: sl)
  have fin: "GraphItemMap_Get (?done ?m2 []) = (GraphItemMap_Get (GraphItems s))(key \<mapsto> \<lparr>Flag = ?f2, L = []\<rparr>)"
    "GraphItemMap_Get (?done ?m3 (L sl)) = (GraphItemMap_Get (GraphItems s))(key \<mapsto> \<lparr>Flag = ?f2, L = L sl\<rparr>)"
    using good assms(1) by (simp_all add: Get_Set)
  have run: "send_data call key s =
    (if L sl = [] then (None, [], s\<lparr>GraphItems := ?done ?m2 []\<rparr>)
     else case three_calls call 0 3 of
       Some _ \<Rightarrow> (None, rev (L sl), s\<lparr>GraphItems := ?done ?m2 []\<rparr>)
     | None \<Rightarrow> (Some (Err ''call''), [], s\<lparr>GraphItems := ?done ?m3 (L sl)\<rparr>))"
    by (simp only: send_data_def flag Let_def s1 pop restored ends sum.case prod.case list.size(3)
          length_0_conv rev_is_Nil_conv if_distrib split: option.split if_split) simp
  show ?thesis
  proof (cases "L sl = [] \<or> three_calls call 0 3 \<noteq> None")
    case True
    then have "err = None" "sent = rev (L sl)" "s' = s\<lparr>GraphItems := ?done ?m2 []\<rparr>"
      using assms(3) unfolding run by (auto split: option.splits if_splits)
    then show ?thesis using True fin(1) good_items_Set [OF good(2)] calls by auto
  next
    case False
    then have "err = Some (Err ''call'')" "sent = []" "s' = s\<lparr>GraphItems := ?done ?m3 (L sl)\<rparr>"
      using assms(3) unfolding run by (auto split: option.splits if_splits)
    then show ?thesis using False fin(2) good_items_Set [OF good(3)] calls by auto
  qed
qed

theorem send_data_all_or_nothing_witness:
  "\<exists>s'. send_data (\<lambda>i. None) (FormRrdCacheKey (Md5 ''h1/cpu.idle'') ''GAUGE'' 60) demo_key_graph =
      (Some (Err ''call''), [], s') \<and> good_items (GraphItems s')"
proof -
  obtain err sent s' where r: "send_data (\<lambda>i. None) (FormRrdCacheKey (Md5 ''h1/cpu.idle'') ''GAUGE'' 60) demo_key_graph =
      (err, sent, s')" by (metis prod_cases3)
  moreover have "err = None \<or> err = Some (Err ''call'')"
    using r demo_key_graph(2)
    by (auto simp: send_data_def GraphItemMap_GetFlag_def Let_def numeral_3_eq_3 split: prod.splits if_splits)
  ultimately show ?thesis
    using send_data_all_or_nothing [OF demo_key_graph r] by auto
qed

text \<open>
  Every series has an I/O worker. For the checksum of any series \<open>getIndex\<close> names one of the
  configured workers, so no task of a known series indexes out of the channel table.
\<close>

theorem io_worker_exists:
  assumes "1 \<le> IOWorkerNum cfg" "0 \<le> FirstBytesSize cfg"
  shows "\<exists>i. getIndex cfg (Md5 pk) = Inr i \<and> io_worker cfg (Md5 pk) = Inr i \<and> 0 \<le> i \<and> i < IOWorkerNum cfg"
  using getIndex_range [of "Md5 pk", OF _ assms] md5_hex_hex by (auto simp: io_worker_def Md5_def)

theorem io_worker_exists_witness: "\<exists>i. io_worker demo_cfg (Md5 ''h1/cpu.idle'') = Inr i \<and> i < 16"
  using io_worker_exists [of demo_cfg "''h1/cpu.idle''"] by (auto simp: demo_cfg_def)

end
