(* ===== verification/Graph_Api.thy ===== *)
theory Graph_Api
  imports Graph_Rrd
begin

text \<open>
  The RPC interface of the graph module (\<open>modules/graph/api/graph.go\<close>): receiving samples, answering
  queries from the file and the samples still in memory, the newest value of a series, and removal.
\<close>

section \<open>Receiving (\<open>handleItems\<close>)\<close>

text \<open>\<open>beyond\<close> is \<open>unicode.IsPrint\<close> beyond ASCII; a nil item is \<open>None\<close>.\<close>

definition handle_item ::
  "(nat \<Rightarrow> bool) \<Rightarrow> graph_cfg \<Rightarrow> graph_item option \<Rightarrow> graph_state \<Rightarrow> graph_state res" where
  "handle_item beyond cfg x s =
     (case x of None \<Rightarrow> Inr s
      | Some item \<Rightarrow>
          if \<not> IsValidString beyond (gi_Endpoint item) then Inr s
          else let counter = Counter (gi_Metric item) (gi_Tags item) in
            if \<not> IsValidString beyond counter then Inr s
            else let dsType = gi_DsType item; step = gi_Step item;
                     checksum = GraphItem_Checksum item; key = FormRrdCacheKey checksum dsType step in
              if (case GraphItemMap_First (GraphItems s) key of None \<Rightarrow> False
                  | Some first \<Rightarrow> gi_Timestamp item \<le> gi_Timestamp first) then Inr s
              else
                bind_res (GraphItemMap_PushFront cfg (\<lambda>f. gget (Disk s) f \<noteq> None) key item checksum (GraphItems s)) (\<lambda>m.
                bind_res (ReceiveItem cfg item checksum (s\<lparr>GraphItems := m\<rparr>)) (\<lambda>s.
                  Inr (s\<lparr>HistoryCache := AddItem checksum item (HistoryCache s)\<rparr>))))"

fun handleItems :: "(nat \<Rightarrow> bool) \<Rightarrow> graph_cfg \<Rightarrow> graph_item option list \<Rightarrow> graph_state \<Rightarrow> graph_state res" where
  "handleItems beyond cfg [] s = Inr s"
| "handleItems beyond cfg (x # xs) s = bind_res (handle_item beyond cfg x s) (handleItems beyond cfg xs)"

section \<open>Answering a query\<close>

text \<open>
  A call returns (\<open>Some\<close>) or not (\<open>None\<close>): the loops over time stamps advance by the step of the
  series, and would run forever on a step that is not positive.
\<close>

definition in_range :: "int \<Rightarrow> int \<Rightarrow> int \<Rightarrow> bool" where
  "in_range start_ts end_ts ts \<longleftrightarrow> start_ts \<le> ts \<and> ts \<le> end_ts"

text \<open>The samples in memory, oldest first, as points: rates for counters, values for gauges.\<close>

definition counter_val :: "graph_item list \<Rightarrow> int \<Rightarrow> int \<Rightarrow> nat \<Rightarrow> f64" where
  "counter_val items step ts i =
     (let val = (if ts = gi_Timestamp (items ! (i + 1)) - step
                 then fdiv (gi_Value (items ! (i + 1)) - gi_Value (items ! i)) (f64_of_int step)
                 else NaN)
      in if val < 0 then NaN else val)"

partial_function (option) counter_cache ::
  "graph_item list \<Rightarrow> int \<Rightarrow> int \<Rightarrow> int \<Rightarrow> int \<Rightarrow> int \<Rightarrow> nat \<Rightarrow> rrd_data list \<Rightarrow> rrd_data list option" where
  "counter_cache items step start_ts end_ts itemEndTs ts itemIdx cache =
     (if ts < itemEndTs then
        (let hit = (int itemIdx < int (length items) - 1 \<and> ts = gi_Timestamp (items ! itemIdx));
             val = (if hit then counter_val items step ts itemIdx else NaN);
             itemIdx = (if hit then itemIdx + 1 else itemIdx);
             cache = (if in_range start_ts end_ts ts then cache @ [NewRRDData ts val] else cache)
         in counter_cache items step start_ts end_ts itemEndTs (ts + step) itemIdx cache)
      else Some cache)"

partial_function (option) gauge_cache ::
  "graph_item list \<Rightarrow> int \<Rightarrow> int \<Rightarrow> int \<Rightarrow> int \<Rightarrow> int \<Rightarrow> nat \<Rightarrow> rrd_data list \<Rightarrow> rrd_data list option" where
  "gauge_cache items step start_ts end_ts itemEndTs ts itemIdx cache =
     (if ts \<le> itemEndTs then
        (let hit = (itemIdx < length items \<and> ts = gi_Timestamp (items ! itemIdx));
             val = (if hit then gi_Value (items ! itemIdx) else NaN);
             itemIdx = (if hit then itemIdx + 1 else itemIdx);
             cache = (if in_range start_ts end_ts ts then cache @ [NewRRDData ts val] else cache)
         in gauge_cache items step start_ts end_ts itemEndTs (ts + step) itemIdx cache)
      else Some cache)"

definition query_cache :: "string \<Rightarrow> int \<Rightarrow> int \<Rightarrow> int \<Rightarrow> graph_item list \<Rightarrow> rrd_data list option" where
  "query_cache dsType step start_ts end_ts items =
     (let ts = gi_Timestamp (hd items); itemEndTs = gi_Timestamp (last items) in
      if dsType = DERIVE \<or> dsType = COUNTER
      then counter_cache items step start_ts end_ts itemEndTs ts 0 []
      else if dsType = GAUGE
      then gauge_cache items step start_ts end_ts itemEndTs ts 0 []
      else Some [])"

text \<open>The last point of the file that is older than the first cached one, counted from the back.\<close>

fun junction :: "rrd_data list \<Rightarrow> int \<Rightarrow> nat \<Rightarrow> int" where
  "junction merged t 0 = -1"
| "junction merged t (Suc k) = (if rd_Timestamp (merged ! k) < t then int k else junction merged t k)"

partial_function (option) fix_missing :: "int \<Rightarrow> int \<Rightarrow> int \<Rightarrow> rrd_data list \<Rightarrow> rrd_data list option" where
  "fix_missing step t ts merged =
     (if ts < t then fix_missing step t (ts + step) (merged @ [NewRRDData ts NaN]) else Some merged)"

fun merge_loop :: "int \<Rightarrow> int \<Rightarrow> rrd_data list \<Rightarrow> rrd_data list \<Rightarrow> rrd_data list" where
  "merge_loop rrdDataSize rrdDataIdx merged [] = merged"
| "merge_loop rrdDataSize rrdDataIdx merged (c # cache) =
     (let merged = (if rrdDataIdx < rrdDataSize
                    then if \<not> is_nan (rd_Value c) then merged[nat rrdDataIdx := c] else merged
                    else merged @ [c])
      in merge_loop rrdDataSize (rrdDataIdx + 1) merged cache)"

definition query_merge :: "int \<Rightarrow> int \<Rightarrow> int \<Rightarrow> rrd_data list \<Rightarrow> rrd_data list \<Rightarrow> rrd_data list option" where
  "query_merge step start_ts end_ts datas cache =
     (let merged = filter (\<lambda>val. in_range start_ts end_ts (rd_Timestamp val)) datas in
      if cache = [] then Some merged
      else let rrdDataSize = int (length merged); t0 = rd_Timestamp (hd cache);
               rrdDataIdx = junction merged t0 (length merged);
               lastTs = (if 0 \<le> rrdDataIdx then rd_Timestamp (merged ! nat rrdDataIdx) else t0)
           in (case fix_missing step t0 (lastTs + step) merged of
                 None \<Rightarrow> None
               | Some merged \<Rightarrow> Some (merge_loop rrdDataSize (rrdDataIdx + 1) merged cache)))"

fun result_loop :: "rrd_data list \<Rightarrow> int \<Rightarrow> nat \<Rightarrow> int \<Rightarrow> nat \<Rightarrow> rrd_data list" where
  "result_loop merged step 0 ts mergedIdx = []"
| "result_loop merged step (Suc n) ts mergedIdx =
     (if mergedIdx < length merged \<and> ts = rd_Timestamp (merged ! mergedIdx)
      then merged ! mergedIdx # result_loop merged step n (ts + step) (mergedIdx + 1)
      else NewRRDData ts NaN # result_loop merged step n (ts + step) mergedIdx)"

text \<open>\<open>int64\<close> division truncates; a negative size of the result slice panics.\<close>

definition query_result :: "string \<Rightarrow> int \<Rightarrow> int \<Rightarrow> int \<Rightarrow> rrd_data list \<Rightarrow> rrd_data list res" where
  "query_result dsType step start_ts end_ts merged =
     (let ret_size = (end_ts - start_ts) sdiv step;
          ret_size = (if dsType = GAUGE then ret_size + 1 else ret_size)
      in if ret_size < 0 then Inl (Panic ''makeslice: len out of range'')
         else Inr (result_loop merged step (nat ret_size) start_ts 0))"

definition merged_answer ::
  "string \<Rightarrow> int \<Rightarrow> int \<Rightarrow> int \<Rightarrow> graph_item list \<Rightarrow> rrd_data list \<Rightarrow> rrd_data list res option" where
  "merged_answer dsType step start_ts end_ts items datas =
     (case query_cache dsType step start_ts end_ts items of
        None \<Rightarrow> None
      | Some cache \<Rightarrow>
          (case query_merge step start_ts end_ts datas cache of
             None \<Rightarrow> None
           | Some merged \<Rightarrow> Some (query_result dsType step start_ts end_ts merged)))"

text \<open>
  \<open>remote\<close> answers the query on the node that owned the series before a migration; without such a node
  the code sends on a nil channel and waits forever.
\<close>

definition query_datas ::
  "rrd_env \<Rightarrow> graph_cfg \<Rightarrow> (string \<Rightarrow> graph_query_param \<Rightarrow> rrd_data list) \<Rightarrow> graph_query_param
   \<Rightarrow> string \<Rightarrow> string \<Rightarrow> 32 word \<Rightarrow> int \<Rightarrow> int \<Rightarrow> int \<Rightarrow> graph_state \<Rightarrow> rrd_data list res option" where
  "query_datas env cfg remote param filename md5 flag start_ts end_ts step s =
     (if MigrateEnabled cfg \<and> and flag GRAPH_F_MISS \<noteq> 0
      then (case ConsistentGet env (qp_Endpoint param @ ''/'' @ qp_Counter param) of
              None \<Rightarrow> None
            | Some node \<Rightarrow> Some (Inr (remote node param)))
      else Some (Fetch env cfg filename md5 (qp_ConsolFun param) (start_ts - step) end_ts step s))"

definition empty_response :: "graph_query_param \<Rightarrow> string \<Rightarrow> int \<Rightarrow> graph_query_response" where
  "empty_response param dsType step =
     \<lparr>qr_Endpoint = qp_Endpoint param, qr_Counter = qp_Counter param, qr_DsType = dsType,
      qr_Step = step, qr_Values = []\<rparr>"

definition Query ::
  "rrd_env \<Rightarrow> graph_cfg \<Rightarrow> (string \<Rightarrow> graph_query_param \<Rightarrow> rrd_data list) \<Rightarrow> int \<Rightarrow> graph_query_param
   \<Rightarrow> graph_state \<Rightarrow> (graph_query_response \<times> graph_state) res option" where
  "Query env cfg remote nowTs param s =
     bind_out (Some (GetTypeAndStep nowTs (qp_Endpoint param) (qp_Counter param) s)) (\<lambda>(found, s).
       case found of
         None \<Rightarrow> Some (Inr (empty_response param [] 0, s))
       | Some (dsType, step) \<Rightarrow>
         bind_out (Some (go_mod (qp_Start param) step)) (\<lambda>r1.
         bind_out (Some (go_mod (qp_End param) step)) (\<lambda>r2.
           let start_ts = qp_Start param - r1; end_ts = qp_End param - r2 + step;
               resp = empty_response param dsType step in
           if end_ts - start_ts - step < 1 then Some (Inr (resp, s))
           else let md5 = Md5 (qp_Endpoint param @ ''/'' @ qp_Counter param);
                    key = FormRrdCacheKey md5 dsType step in
             bind_out (Some (RrdFileName (Storage cfg) md5 dsType step)) (\<lambda>filename.
             let (items, flag) = GraphItemMap_FetchAll (GraphItems s) key in
             bind_out (query_datas env cfg remote param filename md5 flag start_ts end_ts step s) (\<lambda>datas.
             bind_out (Some (go_mod nowTs step)) (\<lambda>r3.
               let lastUpTs = nowTs - r3; rra1StartTs = lastUpTs - RRA1PointCnt * step in
               if start_ts < rra1StartTs then Some (Inr (resp\<lparr>qr_Values := datas\<rparr>, s))
               else if length items < 1 then Some (Inr (resp\<lparr>qr_Values := datas\<rparr>, s))
               else bind_out (merged_answer dsType step start_ts end_ts items datas) (\<lambda>ret.
                 Some (Inr (resp\<lparr>qr_Values := ret\<rparr>, s)))))))))"

section \<open>The other calls\<close>

text \<open>The error of \<open>FlushFile\<close> is not looked at.\<close>

definition GetRrd :: "rrd_env \<Rightarrow> graph_cfg \<Rightarrow> string \<Rightarrow> graph_state \<Rightarrow> ((string \<times> rrd_file res) \<times> graph_state) res" where
  "GetRrd env cfg key s =
     bind_res (SplitRrdCacheKey key) (\<lambda>(md5, dsType, step).
     bind_res (RrdFileName (Storage cfg) md5 dsType step) (\<lambda>filename.
       let (items, m) = GraphItemMap_PopAll key (GraphItems s); s = s\<lparr>GraphItems := m\<rparr> in
       bind_res (if 0 < length items then FlushFile env cfg filename md5 items s else Inr (None, s)) (\<lambda>(err, s).
       bind_res (ReadFile cfg filename md5 s) (\<lambda>body. Inr ((filename, body), s)))))"

fun Delete :: "graph_cfg \<Rightarrow> graph_delete_param list \<Rightarrow> graph_state \<Rightarrow> graph_state res" where
  "Delete cfg [] s = Inr s"
| "Delete cfg (param # params) s =
     (case SplitTagsString (dp_Tags param) of
        (Some err, tags) \<Rightarrow> Delete cfg params s
      | (None, tags) \<Rightarrow>
          bind_res (RemoveItem cfg
            (empty_item\<lparr>gi_Endpoint := dp_Endpoint param, gi_Metric := dp_Metric param, gi_Tags := tags,
                        gi_DsType := dp_DsType param, gi_Step := dp_Step param\<rparr>) s)
            (Delete cfg params))"

definition Info :: "graph_cfg \<Rightarrow> int \<Rightarrow> string \<Rightarrow> string \<Rightarrow> graph_state \<Rightarrow> (graph_info_resp \<times> graph_state) res" where
  "Info cfg now endpoint counter s =
     bind_res (GetTypeAndStep now endpoint counter s) (\<lambda>(found, s).
       case found of
         None \<Rightarrow> Inr (\<lparr>ir_ConsolFun = [], ir_Step = 0, ir_Filename = []\<rparr>, s)
       | Some (dsType, step) \<Rightarrow>
           bind_res (RrdFileName (Storage cfg) (Md5 (endpoint @ ''/'' @ counter)) dsType step) (\<lambda>filename.
             Inr (\<lparr>ir_ConsolFun = dsType, ir_Step = step, ir_Filename = filename\<rparr>, s)))"

definition GetLastRaw :: "string \<Rightarrow> string \<Rightarrow> graph_state \<Rightarrow> rrd_data" where
  "GetLastRaw endpoint counter s =
     (let item = GetLastItem (HistoryCache s) (Md5 (endpoint @ ''/'' @ counter))
      in NewRRDData (gi_Timestamp item) (gi_Value item))"

definition counter_last :: "int \<Rightarrow> graph_item list \<Rightarrow> rrd_data" where
  "counter_last step items =
     (case items of
        f0 # f1 # _ \<Rightarrow>
          (let delta_ts = gi_Timestamp f0 - gi_Timestamp f1; delta_v = gi_Value f0 - gi_Value f1 in
           if delta_ts \<noteq> step \<or> delta_ts \<le> 0 then NewRRDData 0 0
           else let delta_v = (if delta_v < 0 then 0 else delta_v)
                in NewRRDData (gi_Timestamp f0) (fdiv delta_v (f64_of_int delta_ts)))
      | _ \<Rightarrow> NewRRDData 0 0)"

definition GetLast :: "int \<Rightarrow> string \<Rightarrow> string \<Rightarrow> graph_state \<Rightarrow> (rrd_data \<times> graph_state) res" where
  "GetLast now endpoint counter s =
     bind_res (GetTypeAndStep now endpoint counter s) (\<lambda>(found, s).
       case found of
         None \<Rightarrow> Inr (NewRRDData 0 0, s)
       | Some (dsType, step) \<Rightarrow>
           if dsType = GAUGE then Inr (GetLastRaw endpoint counter s, s)
           else if dsType = COUNTER \<or> dsType = DERIVE
           then Inr (counter_last step (GetAllItems (HistoryCache s) (Md5 (endpoint @ ''/'' @ counter))), s)
           else Inr (NewRRDData 0 0, s))"

definition Last :: "int \<Rightarrow> string \<Rightarrow> string \<Rightarrow> graph_state \<Rightarrow> (graph_last_resp \<times> graph_state) res" where
  "Last now endpoint counter s =
     bind_res (GetLast now endpoint counter s) (\<lambda>(v, s).
       Inr (\<lparr>lr_Endpoint = endpoint, lr_Counter = counter, lr_Value = Some v\<rparr>, s))"

definition LastRaw :: "string \<Rightarrow> string \<Rightarrow> graph_state \<Rightarrow> graph_last_resp" where
  "LastRaw endpoint counter s =
     \<lparr>lr_Endpoint = endpoint, lr_Counter = counter, lr_Value = Some (GetLastRaw endpoint counter s)\<rparr>"

section \<open>Facts: points on the grid of a series\<close>

text \<open>A run of points, one step apart, from the grid line \<open>a\<close> on.\<close>

definition grid :: "int \<Rightarrow> int \<Rightarrow> nat \<Rightarrow> int" where
  "grid start step k = start + int k * step"

definition points :: "int \<Rightarrow> int \<Rightarrow> nat \<Rightarrow> nat \<Rightarrow> (nat \<Rightarrow> f64) \<Rightarrow> rrd_data list" where
  "points start step a n V = map (\<lambda>k. NewRRDData (grid start step k) (V k)) [a..<a + n]"

lemma length_points [simp]: "length (points start step a n V) = n"
  by (simp add: points_def)

lemma nth_points [simp]: "i < n \<Longrightarrow> points start step a n V ! i = NewRRDData (grid start step (a + i)) (V (a + i))"
  by (simp add: points_def)

lemma rd_New [simp]: "rd_Timestamp (NewRRDData t v) = t" "rd_Value (NewRRDData t v) = v"
  by (simp_all add: NewRRDData_def)

lemma grid_less_iff [simp]: "0 < step \<Longrightarrow> grid start step i < grid start step j \<longleftrightarrow> i < j"
  by (simp add: grid_def)

lemma grid_eq_iff [simp]: "0 < step \<Longrightarrow> grid start step i = grid start step j \<longleftrightarrow> i = j"
  by (simp add: grid_def)

lemma grid_Suc: "grid start step k + step = grid start step (Suc k)"
  by (simp add: grid_def algebra_simps)

lemma points_split:
  "points start step a (n + m) V = points start step a n V @ points start step (a + n) m V"
proof -
  have "[a..<a + (n + m)] = [a..<a + n] @ [a + n..<a + n + m]"
    using upt_add_eq_append [of a "a + n" m] by (simp add: add.assoc)
  then show ?thesis by (simp add: points_def)
qed

lemma points_cong: "(\<And>k. a \<le> k \<Longrightarrow> k < a + n \<Longrightarrow> V k = W k) \<Longrightarrow> points start step a n V = points start step a n W"
  by (simp add: points_def)

lemma filter_points:
  assumes "0 < step" "end_ts = grid start step N"
  shows "filter (\<lambda>v. in_range start end_ts (rd_Timestamp v)) (points start step 0 n V) =
    points start step 0 (min n (N + 1)) V"
proof -
  have "in_range start end_ts (grid start step k) \<longleftrightarrow> k < N + 1" for k
    using assms by (auto simp: in_range_def grid_def)
  then have "filter (\<lambda>v. in_range start end_ts (rd_Timestamp v)) (points start step 0 n V) =
      map (\<lambda>k. NewRRDData (grid start step k) (V k)) (filter (\<lambda>k. k < N + 1) [0..<n])"
    by (simp add: points_def filter_map o_def)
  also have "filter (\<lambda>k. k < N + 1) [0..<n] = [0..<min n (N + 1)]"
    by (induction n) (auto simp: min_def not_le le_Suc_eq)
  finally show ?thesis by (simp add: points_def)
qed

lemma junction_points:
  "0 < step \<Longrightarrow> k \<le> n \<Longrightarrow>
   junction (points start step 0 n V) (grid start step t) k = int (min k t) - 1"
  by (induction k) auto

lemma fix_missing_points:
  assumes "0 < step"
  shows "fix_missing step (grid start step t) (grid start step a) merged =
    Some (merged @ points start step a (t - a) (\<lambda>k. NaN))"
proof (induction "t - a" arbitrary: a merged)
  case 0
  then show ?case using assms by (subst fix_missing.simps) (simp add: points_def)
next
  case (Suc d)
  then have "a < t" "d = t - Suc a" by auto
  then have "points start step a (t - a) (\<lambda>k. NaN) =
      NewRRDData (grid start step a) NaN # points start step (Suc a) (t - Suc a) (\<lambda>k. NaN)"
    by (simp add: points_def upt_conv_Cons)
  with Suc.hyps(1) [OF \<open>d = t - Suc a\<close>] \<open>a < t\<close> show ?case
    using assms by (subst fix_missing.simps) (simp add: grid_Suc)
qed

text \<open>Merging by position: a cached point that is a number replaces the point of the file.\<close>

fun combine :: "rrd_data list \<Rightarrow> rrd_data list \<Rightarrow> rrd_data list" where
  "combine ms [] = ms"
| "combine [] cs = cs"
| "combine (m # ms) (c # cs) = (if is_nan (rd_Value c) then m else c) # combine ms cs"

lemma merge_loop_append: "sz \<le> i \<Longrightarrow> merge_loop sz i merged cache = merged @ cache"
  by (induction cache arbitrary: i merged) (simp_all add: Let_def)

lemma merge_loop_combine:
  "i \<le> length merged \<Longrightarrow>
   merge_loop (int (length merged)) (int i) merged cache = take i merged @ combine (drop i merged) cache"
proof (induction cache arbitrary: i merged)
  case (Cons c cache)
  show ?case
  proof (cases "i < length merged")
    case True
    let ?m = "if \<not> is_nan (rd_Value c) then merged[i := c] else merged"
    have len: "length ?m = length merged" by simp
    have "merge_loop (int (length ?m)) (int (Suc i)) ?m cache = take (Suc i) ?m @ combine (drop (Suc i) ?m) cache"
      using True by (intro Cons.IH) simp
    moreover have "drop i merged = merged ! i # drop (Suc i) merged"
      using True by (rule Cons_nth_drop_Suc [symmetric])
    moreover have "drop (Suc i) ?m = drop (Suc i) merged" by simp
    moreover have "take (Suc i) ?m = take i merged @ [if is_nan (rd_Value c) then merged ! i else c]"
      using True by (simp add: take_Suc_conv_app_nth)
    ultimately show ?thesis
      using True by (cases "is_nan (rd_Value c)") (simp_all add: Let_def add.commute)
  next
    case False
    then have "i = length merged" using Cons.prems by simp
    then show ?thesis by (simp add: merge_loop_append)
  qed
qed simp

lemma length_combine: "length (combine ms cs) = max (length ms) (length cs)"
  by (induction ms cs rule: combine.induct) auto

lemma nth_combine:
  "i < max (length ms) (length cs) \<Longrightarrow> combine ms cs ! i =
     (if i < length cs \<and> (length ms \<le> i \<or> \<not> is_nan (rd_Value (cs ! i))) then cs ! i else ms ! i)"
proof (induction ms cs arbitrary: i rule: combine.induct)
  case (3 m ms c cs)
  then show ?case by (cases i) auto
qed auto

text \<open>The value on a grid line: the cached one if it is a number, else that of the file, else NaN.\<close>

definition answer :: "nat \<Rightarrow> nat \<Rightarrow> (nat \<Rightarrow> f64) \<Rightarrow> nat \<Rightarrow> (nat \<Rightarrow> f64) \<Rightarrow> nat \<Rightarrow> f64" where
  "answer k0 m C n D k =
     (if k0 \<le> k \<and> k < k0 + m \<and> \<not> is_nan (C k) then C k else if k < n then D k else NaN)"

lemma is_nan_iff: "is_nan v \<longleftrightarrow> v = NaN"
  by (cases v) simp_all

lemma combine_points:
  assumes "a \<le> k0" "k0 \<le> a + p"
  shows "points start step 0 a V @ combine (points start step a p V) (points start step a 0 C) = points start step 0 (a + p) V"
  using points_split [of start step 0 a p V] by (simp add: points_def)

lemma combine_grid:
  assumes "k0 \<le> p"
  shows "points start step 0 k0 V @ combine (points start step k0 (p - k0) V) (points start step k0 m C) =
    points start step 0 (max p (k0 + m)) (\<lambda>k. if k0 \<le> k \<and> k < k0 + m \<and> (p \<le> k \<or> \<not> is_nan (C k)) then C k else V k)"
    (is "?l = ?r")
proof (rule nth_equalityI)
  show "length ?l = length ?r" using assms by (auto simp: length_combine)
  show "?l ! i = ?r ! i" if "i < length ?l" for i
    using that assms
    by (cases "i < k0") (auto simp: length_combine nth_append nth_combine)
qed

lemma result_points:
  assumes "0 < step"
  shows "i = min (t - a) p \<Longrightarrow> result_loop (points start step a p V) step n (grid start step t) i =
    points start step t n (\<lambda>k. if a \<le> k \<and> k < a + p then V k else NaN)"
proof (induction n arbitrary: t i)
  case (Suc n)
  let ?W = "\<lambda>k. if a \<le> k \<and> k < a + p then V k else NaN"
  have cons: "points start step t (Suc n) ?W =
      NewRRDData (grid start step t) (?W t) # points start step (Suc t) n ?W"
    by (simp add: points_def upt_conv_Cons del: upt_Suc)
  have hit: "i < p \<and> grid start step t = rd_Timestamp (points start step a p V ! i) \<longleftrightarrow> a \<le> t \<and> t < a + p"
    using assms Suc.prems by auto
  show ?case
  proof (cases "a \<le> t \<and> t < a + p")
    case True
    then have "i + 1 = min (Suc t - a) p" "a + i = t" "i < p" using Suc.prems by auto
    then show ?thesis using True Suc.IH [of "i + 1" "Suc t"] by (simp add: cons grid_Suc)
  next
    case False
    then have "i = min (Suc t - a) p" using Suc.prems by auto
    then show ?thesis using False hit Suc.IH [of i "Suc t"] by (auto simp: cons grid_Suc)
  qed
qed (simp add: points_def)

text \<open>Both together: what the merged answer holds on every grid line.\<close>

lemma merge_grid:
  assumes "0 < step" "end_ts = grid start step N" "k0 + m \<le> N + 1" "R \<le> N + 1"
  shows "\<exists>merged. query_merge step start end_ts (points start step 0 n D) (points start step k0 m C) = Some merged \<and>
    result_loop merged step R start 0 = points start step 0 R (answer k0 m C n D)"
proof -
  define p where "p = min n (N + 1)"
  have start: "start = grid start step 0" by (simp add: grid_def)
  have filt: "filter (\<lambda>v. in_range start end_ts (rd_Timestamp v)) (points start step 0 n D) = points start step 0 p D"
    unfolding p_def by (rule filter_points [OF assms(1,2)])
  have res: "result_loop (points start step a q V) step R start 0 =
      points start step 0 R (\<lambda>k. if a \<le> k \<and> k < a + q then V k else NaN)" for a q V
    using result_points [OF assms(1), of 0 0 a q start V R] start by simp
  show ?thesis
  proof (cases "m = 0")
    case True
    have "query_merge step start end_ts (points start step 0 n D) (points start step k0 m C) = Some (points start step 0 p D)"
      using True filt by (simp add: query_merge_def points_def [of _ _ _ 0])
    moreover have "points start step 0 R (\<lambda>k. if k < p then D k else NaN) = points start step 0 R (answer k0 m C n D)"
      using assms(4) True by (intro points_cong) (auto simp: answer_def p_def)
    ultimately show ?thesis using res [of 0 p D] by simp
  next
    case False
    then have cache: "points start step k0 m C \<noteq> []" "rd_Timestamp (hd (points start step k0 m C)) = grid start step k0"
      by (simp_all add: hd_conv_nth flip: length_0_conv)
    have j: "junction (points start step 0 p D) (grid start step k0) p = int (min p k0) - 1"
      by (rule junction_points [OF assms(1)]) simp
    show ?thesis
    proof (cases "p = 0 \<or> k0 = 0")
      case nofill: True
      then have "int (min p k0) - 1 = -1" by auto
      then have q: "query_merge step start end_ts (points start step 0 n D) (points start step k0 m C) =
          Some (merge_loop (int p) 0 (points start step 0 p D) (points start step k0 m C))"
        using cache filt j fix_missing_points [OF assms(1), of start k0 "Suc k0" "points start step 0 p D"]
        by (simp add: query_merge_def Let_def grid_Suc points_def [of _ _ _ 0])
      show ?thesis
      proof (cases "p = 0")
        case True
        have "points start step 0 R (\<lambda>k. if k0 \<le> k \<and> k < k0 + m then C k else NaN) = points start step 0 R (answer k0 m C n D)"
          using True assms(4) by (intro points_cong) (auto simp: answer_def is_nan_iff p_def)
        then show ?thesis
          using q True res [of k0 m C] by (simp add: merge_loop_append points_def [of start step 0 0 D])
      next
        case False
        then have k0: "k0 = 0" using nofill by simp
        let ?V = "\<lambda>k. if k < m \<and> (p \<le> k \<or> \<not> is_nan (C k)) then C k else D k"
        have "merge_loop (int p) 0 (points start step 0 p D) (points start step k0 m C) =
            points start step 0 (max p m) ?V"
          using merge_loop_combine [of 0 "points start step 0 p D" "points start step 0 m C"]
            combine_grid [of 0 p start step D m C] k0 by (simp add: points_def [of _ _ 0 0])
        moreover have "points start step 0 R (\<lambda>k. if k < max p m then ?V k else NaN) =
            points start step 0 R (answer k0 m C n D)"
          using assms(4) k0 by (intro points_cong) (auto simp: answer_def is_nan_iff p_def)
        ultimately show ?thesis using q res by simp
      qed
    next
      case False
      then have pos: "0 < p" "0 < k0" by auto
      let ?a = "min p k0"
      let ?fill = "points start step ?a (k0 - ?a) (\<lambda>k. NaN)"
      let ?V = "\<lambda>k. if k < p then D k else NaN"
      have last: "rd_Timestamp (points start step 0 p D ! nat (int ?a - 1)) + step = grid start step ?a"
        using pos by (simp add: nat_diff_distrib grid_def algebra_simps of_nat_diff min_def)
      have q: "query_merge step start end_ts (points start step 0 n D) (points start step k0 m C) =
          Some (merge_loop (int p) (int ?a) (points start step 0 p D @ ?fill) (points start step k0 m C))"
        using cache filt j pos last fix_missing_points [OF assms(1), of start k0 ?a "points start step 0 p D"]
        by (simp add: query_merge_def Let_def)
      have "merge_loop (int p) (int ?a) (points start step 0 p D @ ?fill) (points start step k0 m C) =
          points start step 0 (max p (k0 + m)) (\<lambda>k. if k0 \<le> k \<and> k < k0 + m \<and> (p \<le> k \<or> \<not> is_nan (C k)) then C k else ?V k)"
        (is "?l = ?r")
      proof (cases "k0 \<le> p")
        case True
        then have "?fill = []" by (simp add: points_def)
        then have "?l = take k0 (points start step 0 p D) @ combine (drop k0 (points start step 0 p D)) (points start step k0 m C)"
          using merge_loop_combine [of k0 "points start step 0 p D" "points start step k0 m C"] True
          by (simp add: min_absorb2)
        moreover have "points start step 0 p D = points start step 0 (k0 + (p - k0)) ?V"
          using True by (intro nth_equalityI) auto
        then have "take k0 (points start step 0 p D) = points start step 0 k0 ?V"
          "drop k0 (points start step 0 p D) = points start step k0 (p - k0) ?V"
          unfolding points_split [of start step 0 k0 "p - k0" ?V] by simp_all
        ultimately show ?thesis using combine_grid [OF True, of start step ?V m C] by simp
      next
        case False
        then have "?l = (points start step 0 p D @ ?fill) @ points start step k0 m C"
          by (intro merge_loop_append) simp
        also have "\<dots> = ?r"
          using False by (intro nth_equalityI) (auto simp: nth_append)
        finally show ?thesis .
      qed
      moreover have "points start step 0 R (\<lambda>k. if k < max p (k0 + m) then
            (if k0 \<le> k \<and> k < k0 + m \<and> (p \<le> k \<or> \<not> is_nan (C k)) then C k else ?V k) else NaN) =
          points start step 0 R (answer k0 m C n D)"
        using assms(4) by (intro points_cong) (auto simp: answer_def is_nan_iff p_def)
      ultimately show ?thesis using q res by simp
    qed
  qed
qed

section \<open>Facts: samples in memory as points\<close>

text \<open>The value a gauge has at a time, and the rate of a counter from a time to the next sample.\<close>

definition sample_at :: "graph_item list \<Rightarrow> int \<Rightarrow> graph_item option" where
  "sample_at items t = find (\<lambda>it. gi_Timestamp it = t) items"

definition gauge_at :: "graph_item list \<Rightarrow> int \<Rightarrow> f64" where
  "gauge_at items t = (case sample_at items t of Some it \<Rightarrow> gi_Value it | None \<Rightarrow> NaN)"

definition rate_at :: "graph_item list \<Rightarrow> int \<Rightarrow> int \<Rightarrow> f64" where
  "rate_at items step t =
     (case (sample_at items t, sample_at items (t + step)) of
        (Some x, Some y) \<Rightarrow> let v = fdiv (gi_Value y - gi_Value x) (f64_of_int step) in if v < 0 then NaN else v
      | _ \<Rightarrow> NaN)"

definition on_grid :: "int \<Rightarrow> int \<Rightarrow> graph_item list \<Rightarrow> bool" where
  "on_grid start step items \<longleftrightarrow> sorted_wrt (\<lambda>a b. gi_Timestamp a < gi_Timestamp b) items \<and>
     (\<forall>it \<in> set items. \<exists>k. gi_Timestamp it = grid start step k)"

lemma sorted_nth_less:
  "sorted_wrt (\<lambda>a b. gi_Timestamp a < gi_Timestamp b) items \<Longrightarrow> i < j \<Longrightarrow> j < length items \<Longrightarrow>
     gi_Timestamp (items ! i) < gi_Timestamp (items ! j)"
  by (simp add: sorted_wrt_iff_nth_less)

lemma sample_at_nth:
  assumes "sorted_wrt (\<lambda>a b. gi_Timestamp a < gi_Timestamp b) items" "i < length items" "t = gi_Timestamp (items ! i)"
  shows "sample_at items t = Some (items ! i)"
  unfolding sample_at_def find_Some_iff using assms sorted_nth_less [OF assms(1)]
  by (intro exI [of _ i]) (auto simp: less_le)

lemma sample_at_none: "\<forall>j < length items. gi_Timestamp (items ! j) \<noteq> t \<Longrightarrow> sample_at items t = None"
  by (auto simp: sample_at_def find_None_iff in_set_conv_nth)

lemma gauge_at_nth:
  assumes "sorted_wrt (\<lambda>a b. gi_Timestamp a < gi_Timestamp b) items" "i < length items"
  shows "gauge_at items (gi_Timestamp (items ! i)) = gi_Value (items ! i)"
  using sample_at_nth [OF assms] by (simp add: gauge_at_def)

lemma gauge_at_none: "\<forall>j < length items. gi_Timestamp (items ! j) \<noteq> t \<Longrightarrow> gauge_at items t = NaN"
  by (simp add: gauge_at_def sample_at_none)

lemma rate_at_nth:
  assumes "0 < step" "on_grid start step items" "i < length items - 1"
  shows "rate_at items step (gi_Timestamp (items ! i)) = counter_val items step (gi_Timestamp (items ! i)) i"
proof -
  have srt: "sorted_wrt (\<lambda>a b. gi_Timestamp a < gi_Timestamp b) items" using assms(2) by (simp add: on_grid_def)
  define t where "t = gi_Timestamp (items ! i)"
  define u where "u = gi_Timestamp (items ! (i + 1))"
  have i: "i < length items" "i + 1 < length items" using assms(3) by auto
  have x: "sample_at items t = Some (items ! i)" using sample_at_nth [OF srt i(1)] by (simp add: t_def)
  have "t < u" using sorted_nth_less [OF srt _ i(2), of i] by (simp add: t_def u_def)
  obtain k l where kl: "t = grid start step k" "u = grid start step l"
    using assms(2) i unfolding on_grid_def t_def u_def by (meson nth_mem)
  have "k < l" using \<open>t < u\<close> kl grid_less_iff [OF assms(1)] by simp
  then have "int (Suc k) * step \<le> int l * step" using assms(1) by (intro mult_right_mono) auto
  then have next_le: "t + step \<le> u" unfolding kl grid_def by (simp add: algebra_simps)
  have y: "sample_at items (t + step) = (if t + step = u then Some (items ! (i + 1)) else None)"
  proof (cases "t + step = u")
    case True
    then show ?thesis using sample_at_nth [OF srt i(2)] by (simp add: u_def)
  next
    case False
    have "gi_Timestamp (items ! j) \<noteq> t + step" if j: "j < length items" for j
    proof (cases "j \<le> i")
      case True
      then have "gi_Timestamp (items ! j) \<le> t" using sorted_nth_less [OF srt _ i(1), of j] by (cases "j = i") (auto simp: t_def)
      then show ?thesis using assms(1) by simp
    next
      case le: False
      then have "u \<le> gi_Timestamp (items ! j)" using sorted_nth_less [OF srt _ j, of "i + 1"] by (cases "j = i + 1") (auto simp: u_def)
      then show ?thesis using next_le False by simp
    qed
    then show ?thesis using False sample_at_none by auto
  qed
  have "t + step = u \<longleftrightarrow> t = u - step" by auto
  then show ?thesis
    using x y by (cases "t + step = u") (simp_all add: rate_at_def counter_val_def t_def u_def Let_def)
qed

lemma rate_at_none:
  assumes "0 < step" "sorted_wrt (\<lambda>a b. gi_Timestamp a < gi_Timestamp b) items"
    and none: "\<forall>j < length items - 1. gi_Timestamp (items ! j) \<noteq> t"
  shows "rate_at items step t = NaN"
proof (cases "\<exists>j < length items. gi_Timestamp (items ! j) = t")
  case False
  then show ?thesis by (simp add: rate_at_def sample_at_none)
next
  case True
  then obtain j where j: "j < length items" "gi_Timestamp (items ! j) = t" by blast
  then have "\<not> j < length items - 1" using none by blast
  then have last: "j = length items - 1" using j(1) by simp
  have "gi_Timestamp (items ! i) \<noteq> t + step" if "i < length items" for i
  proof (cases "i = j")
    case False
    then have "i < j" using that last by simp
    then show ?thesis using sorted_nth_less [OF assms(2) _ j(1)] j(2) assms(1) by fastforce
  qed (use j assms(1) in simp)
  then show ?thesis by (simp add: rate_at_def sample_at_none split: option.splits)
qed

lemma on_grid_bounds:
  assumes "on_grid start step items" "it \<in> set items"
  shows "gi_Timestamp (hd items) \<le> gi_Timestamp it \<and> gi_Timestamp it \<le> gi_Timestamp (last items)"
proof -
  have srt: "sorted_wrt (\<lambda>a b. gi_Timestamp a < gi_Timestamp b) items" using assms(1) by (simp add: on_grid_def)
  obtain i where i: "i < length items" "it = items ! i" using assms(2) by (auto simp: in_set_conv_nth)
  then have "items \<noteq> []" by auto
  then have ends: "hd items = items ! 0" "last items = items ! (length items - 1)"
    by (simp_all add: hd_conv_nth last_conv_nth)
  have "gi_Timestamp (items ! 0) \<le> gi_Timestamp (items ! i)"
    using sorted_nth_less [OF srt, of 0 i] i by (cases "i = 0") auto
  moreover have "gi_Timestamp (items ! i) \<le> gi_Timestamp (items ! (length items - 1))"
  proof (cases "i = length items - 1")
    case False
    then have "i < length items - 1" "length items - 1 < length items" using i(1) by auto
    from sorted_nth_less [OF srt this] show ?thesis by simp
  qed simp
  ultimately show ?thesis using i(2) ends by simp
qed

text \<open>The loops walk the grid and the samples together: \<open>i\<close> counts the samples before the grid line.\<close>

definition before :: "int \<Rightarrow> int \<Rightarrow> graph_item list \<Rightarrow> nat \<Rightarrow> nat \<Rightarrow> bool" where
  "before start step items a i \<longleftrightarrow> (\<forall>j < length items. j < i \<longleftrightarrow> gi_Timestamp (items ! j) < grid start step a)"

lemma before_step:
  assumes "0 < step" "on_grid start step items" "before start step items a i" "i \<le> length items"
  shows "(i < length items \<and> grid start step a = gi_Timestamp (items ! i)) =
      (\<exists>j < length items. gi_Timestamp (items ! j) = grid start step a)" (is "?hit = ?ex")
    and "before start step items (Suc a)
      (if i < length items \<and> grid start step a = gi_Timestamp (items ! i) then i + 1 else i)"
proof -
  have srt: "sorted_wrt (\<lambda>a b. gi_Timestamp a < gi_Timestamp b) items"
    using assms(2) by (simp add: on_grid_def)
  have ge: "j < length items \<Longrightarrow> i \<le> j \<longleftrightarrow> grid start step a \<le> gi_Timestamp (items ! j)" for j
    using assms(3) by (auto simp: before_def not_less [symmetric])
  have first: "j = i" if "j < length items" "gi_Timestamp (items ! j) = grid start step a" for j
  proof (rule ccontr)
    assume "j \<noteq> i"
    moreover have "i \<le> j" using ge that by simp
    ultimately have "i < j" by simp
    then have "gi_Timestamp (items ! i) < grid start step a" "i < length items"
      using sorted_nth_less [OF srt] that by force+
    then show False using ge by force
  qed
  then show "?hit = ?ex" by force
  have next_line: "gi_Timestamp (items ! j) < grid start step (Suc a) \<longleftrightarrow> gi_Timestamp (items ! j) \<le> grid start step a"
    if j: "j < length items" for j
  proof -
    obtain k where "gi_Timestamp (items ! j) = grid start step k"
      using assms(2) nth_mem [OF j] unfolding on_grid_def by blast
    then show ?thesis
      using assms(1) grid_less_iff [OF assms(1), of start a k] by (simp add: less_Suc_eq_le not_less [symmetric])
  qed
  show "before start step items (Suc a)
      (if i < length items \<and> grid start step a = gi_Timestamp (items ! i) then i + 1 else i)"
    unfolding before_def
  proof (intro allI impI)
    fix j assume j: "j < length items"
    show "(j < (if i < length items \<and> grid start step a = gi_Timestamp (items ! i) then i + 1 else i)) =
        (gi_Timestamp (items ! j) < grid start step (Suc a))"
      using next_line [OF j] ge [OF j] first [OF j] j
      by (auto simp: less_Suc_eq le_less not_less)
  qed
qed

lemma gauge_cache_points:
  assumes "0 < step" "on_grid start step items" "end_ts = grid start step N"
  shows "before start step items a i \<Longrightarrow> i \<le> length items \<Longrightarrow> E = grid start step b \<Longrightarrow> b \<le> N \<Longrightarrow> a \<le> Suc b \<Longrightarrow>
    gauge_cache items step start end_ts E (grid start step a) i cache =
      Some (cache @ points start step a (Suc b - a) (\<lambda>k. gauge_at items (grid start step k)))"
proof (induction "Suc b - a" arbitrary: a i cache)
  case 0
  then have "grid start step b < grid start step a" using assms(1) by simp
  then show ?case using 0 by (subst gauge_cache.simps) (simp add: points_def)
next
  case (Suc d)
  let ?hit = "i < length items \<and> grid start step a = gi_Timestamp (items ! i)"
  let ?i = "if ?hit then i + 1 else i"
  let ?val = "if ?hit then gi_Value (items ! i) else NaN"
  have ab: "a \<le> b" "grid start step a \<le> E" using Suc assms(1) by (auto simp: not_less [symmetric])
  have rng: "in_range start end_ts (grid start step a)"
    using ab(1) Suc.prems(4) assms(1,3) by (auto simp: in_range_def grid_def)
  have srt: "sorted_wrt (\<lambda>a b. gi_Timestamp a < gi_Timestamp b) items"
    using assms(2) by (simp add: on_grid_def)
  have val: "?val = gauge_at items (grid start step a)"
    using before_step(1) [OF assms(1,2) Suc.prems(1,2)] gauge_at_nth [OF srt] gauge_at_none
    by (auto split: if_splits)
  have d: "d = Suc b - Suc a" "Suc a \<le> Suc b" using Suc.hyps(2) ab(1) by auto
  have i: "?i \<le> length items" using Suc.prems(2) by auto
  note ih = Suc.hyps(1) [OF d(1) before_step(2) [OF assms(1,2) Suc.prems(1,2)] i Suc.prems(3,4) d(2)]
  have "points start step a (Suc b - a) (\<lambda>k. gauge_at items (grid start step k)) =
      NewRRDData (grid start step a) ?val # points start step (Suc a) (Suc b - Suc a) (\<lambda>k. gauge_at items (grid start step k))"
    unfolding val using ab(1) by (simp add: points_def upt_conv_Cons del: upt_Suc)
  then show ?case
    using ab(2) rng ih by (subst gauge_cache.simps) (simp add: Let_def grid_Suc del: One_nat_def)
qed

lemma counter_cache_points:
  assumes "0 < step" "on_grid start step items" "end_ts = grid start step N"
  shows "before start step items a i \<Longrightarrow> i \<le> length items \<Longrightarrow> items \<noteq> [] \<Longrightarrow>
    gi_Timestamp (last items) = grid start step b \<Longrightarrow> b \<le> N \<Longrightarrow> a \<le> b \<Longrightarrow>
    counter_cache items step start end_ts (grid start step b) (grid start step a) i cache =
      Some (cache @ points start step a (b - a) (\<lambda>k. rate_at items step (grid start step k)))"
proof (induction "b - a" arbitrary: a i cache)
  case 0
  then show ?case using assms(1) by (subst counter_cache.simps) (simp add: points_def)
next
  case (Suc d)
  let ?hit = "i < length items \<and> grid start step a = gi_Timestamp (items ! i)"
  let ?i = "if ?hit then i + 1 else i"
  let ?val = "if ?hit then counter_val items step (grid start step a) i else NaN"
  have ab: "a < b" using Suc.hyps(2) by simp
  have rng: "in_range start end_ts (grid start step a)"
    using ab Suc.prems(5) assms(1,3) by (auto simp: in_range_def grid_def)
  have srt: "sorted_wrt (\<lambda>a b. gi_Timestamp a < gi_Timestamp b) items"
    using assms(2) by (simp add: on_grid_def)
  have last: "gi_Timestamp (items ! (length items - 1)) = grid start step b"
    using Suc.prems(3,4) by (simp add: last_conv_nth)
  have before_last: "j < length items - 1" if "j < length items" "gi_Timestamp (items ! j) = grid start step a" for j
    using that last ab assms(1) by (cases "j = length items - 1") auto
  have hit: "(int i < int (length items) - 1 \<and> grid start step a = gi_Timestamp (items ! i)) = ?hit"
    using before_last [of i] by auto
  have val: "?val = rate_at items step (grid start step a)"
  proof (cases ?hit)
    case True
    then show ?thesis using rate_at_nth [OF assms(1,2) before_last [of i]] by auto
  next
    case False
    then have "\<forall>j < length items - 1. gi_Timestamp (items ! j) \<noteq> grid start step a"
      using before_step(1) [OF assms(1,2) Suc.prems(1,2)] by auto
    then show ?thesis using False rate_at_none [OF assms(1) srt] by auto
  qed
  have d: "d = b - Suc a" "Suc a \<le> b" using Suc.hyps(2) ab by auto
  have i: "?i \<le> length items" using Suc.prems(2) by auto
  note ih = Suc.hyps(1) [OF d(1) before_step(2) [OF assms(1,2) Suc.prems(1,2)] i Suc.prems(3-5) d(2)]
  have "points start step a (b - a) (\<lambda>k. rate_at items step (grid start step k)) =
      NewRRDData (grid start step a) ?val # points start step (Suc a) (b - Suc a) (\<lambda>k. rate_at items step (grid start step k))"
    unfolding val using ab by (simp add: points_def upt_conv_Cons del: upt_Suc)
  then show ?case
    using ab assms(1) rng ih
    by (subst counter_cache.simps) (simp add: Let_def grid_Suc hit del: One_nat_def)
qed

section \<open>Facts: receiving\<close>

text \<open>The lists in memory are newest first, the history lists short.\<close>

definition good_graph :: "graph_state \<Rightarrow> bool" where
  "good_graph s \<longleftrightarrow> good_items (GraphItems s) \<and> short_lists (HistoryCache s) \<and>
     (\<forall>key sl. GraphItemMap_Get (GraphItems s) key = Some sl \<longrightarrow>
        sorted_wrt (\<lambda>a b. gi_Timestamp b < gi_Timestamp a) (L sl))"

definition guarded_push :: "graph_item \<Rightarrow> graph_item list \<Rightarrow> graph_item list" where
  "guarded_push v l = (if l \<noteq> [] \<and> gi_Timestamp v \<le> gi_Timestamp (hd l) then l else v # l)"

interpretation gp: timeline gi_Timestamp guarded_push
proof
  show "guarded_push v l = l \<or> (l = [] \<or> gi_Timestamp (hd l) < gi_Timestamp v) \<and>
      (\<exists>n. guarded_push v l = take n (v # l))" for v l
    by (cases "l \<noteq> [] \<and> gi_Timestamp v \<le> gi_Timestamp (hd l)")
       (auto simp: guarded_push_def intro: exI [of _ "Suc (length l)"])
qed

definition item_key :: "graph_item \<Rightarrow> string" where
  "item_key it = FormRrdCacheKey (GraphItem_Checksum it) (gi_DsType it) (gi_Step it)"

definition series :: "graph_state \<Rightarrow> string \<Rightarrow> graph_item list" where
  "series s key = (case GraphItemMap_Get (GraphItems s) key of None \<Rightarrow> [] | Some sl \<Rightarrow> L sl)"

definition valid_item :: "(nat \<Rightarrow> bool) \<Rightarrow> graph_item \<Rightarrow> bool" where
  "valid_item beyond it \<longleftrightarrow> IsValidString beyond (gi_Endpoint it) \<and>
     IsValidString beyond (Counter (gi_Metric it) (gi_Tags it))"

lemma RrdFileName_checksum: "\<exists>f. RrdFileName base (GraphItem_Checksum it) d st = Inr f"
  by (simp add: RrdFileName_def slice_def GraphItem_Checksum_def Checksum_def Md5_def)

lemma ReceiveItem_total:
  "\<exists>s'. ReceiveItem cfg it (GraphItem_Checksum it) s = Inr s' \<and> GraphItems s' = GraphItems s \<and>
     HistoryCache s' = HistoryCache s \<and> Disk s' = Disk s"
proof -
  obtain f where "RrdFileName (Storage cfg) (GraphItem_Checksum it) (gi_DsType it) (gi_Step it) = Inr f"
    using RrdFileName_checksum by blast
  then show ?thesis
    by (cases "gget (IndexedItemCache s) (GraphItem_Checksum it)"; cases "gget (Disk s) f")
       (simp_all add: ReceiveItem_def Let_def)
qed

lemma PushFront_total:
  assumes "good_items m"
  shows "\<exists>m' sl. GraphItemMap_PushFront cfg ex key it (GraphItem_Checksum it) m = Inr m' \<and> good_items m' \<and>
    GraphItemMap_Get m' = (GraphItemMap_Get m)(key \<mapsto> sl) \<and>
    L sl = it # (case GraphItemMap_Get m key of None \<Rightarrow> [] | Some sl \<Rightarrow> L sl)"
proof (cases "GraphItemMap_Get m key")
  case None
  obtain f where f: "RrdFileName (Storage cfg) (GraphItem_Checksum it) (gi_DsType it) (gi_Step it) = Inr f"
    using RrdFileName_checksum by blast
  show ?thesis
    using None f assms by (auto simp: GraphItemMap_PushFront_def Get_Set good_items_Set)
next
  case (Some sl)
  then show ?thesis
    using assms by (auto simp: push_existing Get_Set good_items_Set)
qed

lemma handle_item_ok:
  assumes "good_graph s"
  shows "\<exists>s'. handle_item beyond cfg x s = Inr s' \<and> good_graph s' \<and>
    (\<forall>key. series s' key = (case x of None \<Rightarrow> series s key | Some it \<Rightarrow>
       if valid_item beyond it \<and> item_key it = key then guarded_push it (series s key) else series s key)) \<and>
    (\<forall>it. x = Some it \<and> valid_item beyond it \<and>
        (series s (item_key it) = [] \<or> gi_Timestamp (hd (series s (item_key it))) < gi_Timestamp it) \<longrightarrow>
       HistoryCache s' = AddItem (GraphItem_Checksum it) it (HistoryCache s))"
proof (cases x)
  case None
  then show ?thesis using assms by (simp add: handle_item_def)
next
  case (Some it)
  show ?thesis
  proof (cases "valid_item beyond it \<and> (series s (item_key it) = [] \<or>
      gi_Timestamp (hd (series s (item_key it))) < gi_Timestamp it)")
    case False
    then have "handle_item beyond cfg x s = Inr s"
      using Some by (auto simp: handle_item_def valid_item_def series_def item_key_def GraphItemMap_First_def
          SafeLinkedList_Front_def Let_def not_less split: option.splits list.splits)
    then show ?thesis
      using False Some assms by (auto simp: guarded_push_def not_less)
  next
    case True
    let ?k = "item_key it"
    have g: "good_items (GraphItems s)" "short_lists (HistoryCache s)" using assms by (simp_all add: good_graph_def)
    obtain m' sl where m: "GraphItemMap_PushFront cfg (\<lambda>f. gget (Disk s) f \<noteq> None) ?k it (GraphItem_Checksum it) (GraphItems s) = Inr m'"
      "good_items m'" "GraphItemMap_Get m' = (GraphItemMap_Get (GraphItems s))(?k \<mapsto> sl)" "L sl = it # series s ?k"
      using PushFront_total [OF g(1)] unfolding series_def by blast
    obtain s1 where s1: "ReceiveItem cfg it (GraphItem_Checksum it) (s\<lparr>GraphItems := m'\<rparr>) = Inr s1"
      "GraphItems s1 = m'" "HistoryCache s1 = HistoryCache s"
      using ReceiveItem_total [of cfg it "s\<lparr>GraphItems := m'\<rparr>"] by auto
    let ?s = "s1\<lparr>HistoryCache := AddItem (GraphItem_Checksum it) it (HistoryCache s1)\<rparr>"
    have "\<not> (case GraphItemMap_First (GraphItems s) ?k of None \<Rightarrow> False
        | Some first \<Rightarrow> gi_Timestamp it \<le> gi_Timestamp first)"
      using True by (auto simp: GraphItemMap_First_def series_def SafeLinkedList_Front_def not_le
          split: option.splits list.splits)
    then have run: "handle_item beyond cfg x s = Inr ?s"
      using Some True m(1) s1(1) by (simp add: handle_item_def valid_item_def item_key_def Let_def)
    have push: "guarded_push it (series s ?k) = it # series s ?k"
      using True by (auto simp: guarded_push_def)
    have srt: "sorted_wrt (\<lambda>a b. gi_Timestamp b < gi_Timestamp a) (series s ?k)"
      using assms by (auto simp: series_def good_graph_def split: option.splits)
    have "sorted_wrt (\<lambda>a b. gi_Timestamp b < gi_Timestamp a) (L sl)"
      using gp.push_newest_first [OF srt, of it] unfolding push m(4) .
    then have "good_graph ?s"
      using assms m(2,3) s1(2,3) GetAllItems_AddItem(2) [OF g(2)] by (simp add: good_graph_def)
    moreover have "series ?s key = (if ?k = key then it # series s ?k else series s key)" for key
      using m(3,4) s1(2) by (simp add: series_def)
    ultimately show ?thesis
      using run Some True s1(3) push by (intro exI [of _ ?s]) auto
  qed
qed

section \<open>Properties\<close>

text \<open>
  C12: Receiving samples. For any batch, \<open>handleItems\<close> returns; afterwards the memory of every series
  holds what pushing the valid samples with its key gives, where a sample that is not newer than
  the newest one is dropped, and all lists are still strictly newest first.
\<close>

theorem handle_items_series:
  assumes "good_graph s"
  shows "\<exists>s'. handleItems beyond cfg xs s = Inr s' \<and> good_graph s' \<and>
    (\<forall>key. series s' key = foldl (\<lambda>l it. guarded_push it l) (series s key)
       (filter (\<lambda>it. valid_item beyond it \<and> item_key it = key) (List.map_filter id xs)))"
  using assms
proof (induction xs arbitrary: s)
  case (Cons x xs)
  obtain s1 where s1: "handle_item beyond cfg x s = Inr s1" "good_graph s1"
    "\<forall>key. series s1 key = (case x of None \<Rightarrow> series s key | Some it \<Rightarrow>
       if valid_item beyond it \<and> item_key it = key then guarded_push it (series s key) else series s key)"
    using handle_item_ok [OF Cons.prems] by blast
  then show ?case
    using Cons.IH [OF s1(2)] by (cases x) (auto simp: map_filter_simps)
qed (simp add: map_filter_simps)

definition empty_graph :: graph_state where
  "empty_graph = demo_graph\<lparr>GraphItems := \<lparr>A = replicate 4 [], Size = 4\<rparr>\<rparr>"

lemma good_empty_graph: "good_graph empty_graph" "series empty_graph key = []"
  by (auto simp: good_graph_def empty_graph_def demo_graph_def short_lists_def good_items_def
      GraphItemMap_Get_def idx_def series_def)

lemma demo_item_valid: "valid_item beyond (demo_graph_item t)"
  by (simp add: valid_item_def demo_graph_item_def empty_item_def Counter_def IsValidString_def is_print_def)

theorem handle_items_series_witness:
  "\<exists>s'. handleItems (\<lambda>r. False) demo_cfg [Some (demo_graph_item 60), None, Some (demo_graph_item 60),
      Some (demo_graph_item 120)] empty_graph = Inr s' \<and>
    series s' (item_key (demo_graph_item 60)) = [demo_graph_item 120, demo_graph_item 60]"
proof -
  have "item_key (demo_graph_item 120) = item_key (demo_graph_item 60)"
    by (simp add: item_key_def demo_graph_item_def GraphItem_Checksum_def)
  moreover have "gi_Timestamp (demo_graph_item t) = t" for t by (simp add: demo_graph_item_def)
  ultimately show ?thesis
    using handle_items_series [OF good_empty_graph(1), of "\<lambda>r. False" demo_cfg "[Some (demo_graph_item 60), None,
        Some (demo_graph_item 60), Some (demo_graph_item 120)]"]
    by (auto simp: map_filter_simps demo_item_valid guarded_push_def good_empty_graph)
qed

text \<open>
  What was sent can be read back at once. After a valid sample that is newer than the samples
  of its series is handled, \<open>LastRaw\<close> for its endpoint and counter answers with its time and value.
\<close>

theorem last_raw_roundtrip:
  assumes "good_graph s" "valid_item beyond it"
    and "series s (item_key it) = [] \<or> gi_Timestamp (hd (series s (item_key it))) < gi_Timestamp it"
    and "GetAllItems (HistoryCache s) (GraphItem_Checksum it) = [] \<or>
      gi_Timestamp (hd (GetAllItems (HistoryCache s) (GraphItem_Checksum it))) < gi_Timestamp it"
  shows "\<exists>s'. handleItems beyond cfg [Some it] s = Inr s' \<and>
    LastRaw (gi_Endpoint it) (Counter (gi_Metric it) (gi_Tags it)) s' =
      \<lparr>lr_Endpoint = gi_Endpoint it, lr_Counter = Counter (gi_Metric it) (gi_Tags it),
       lr_Value = Some (NewRRDData (gi_Timestamp it) (gi_Value it))\<rparr>"
proof -
  obtain s' where s': "handle_item beyond cfg (Some it) s = Inr s'"
    "HistoryCache s' = AddItem (GraphItem_Checksum it) it (HistoryCache s)"
    using handle_item_ok [OF assms(1), of beyond cfg "Some it"] assms(2,3) by blast
  have "short_lists (HistoryCache s)" using assms(1) by (simp add: good_graph_def)
  from GetAllItems_AddItem(1) [OF this, of "GraphItem_Checksum it" it]
  have all: "GetAllItems (HistoryCache s') (GraphItem_Checksum it) =
      history_push it (GetAllItems (HistoryCache s) (GraphItem_Checksum it))"
    by (simp add: s'(2))
  then have "GetLastItem (HistoryCache s') (GraphItem_Checksum it) = it"
    using assms(4)
    by (auto simp: history_push_def GetLastItem_def GetAllItems_def SafeList_Front_def SafeList_FrontAll_def
        split: option.splits list.splits if_splits)
  moreover have "Md5 (gi_Endpoint it @ ''/'' @ Counter (gi_Metric it) (gi_Tags it)) = GraphItem_Checksum it"
    by (simp add: GraphItem_Checksum_def Checksum_def PK_PK2 PK2_def)
  ultimately have "GetLastRaw (gi_Endpoint it) (Counter (gi_Metric it) (gi_Tags it)) s' =
      NewRRDData (gi_Timestamp it) (gi_Value it)"
    by (simp add: GetLastRaw_def)
  with s'(1) show ?thesis by (simp add: LastRaw_def)
qed

theorem last_raw_roundtrip_witness:
  "\<exists>s'. handleItems (\<lambda>r. False) demo_cfg [Some (demo_graph_item 60)] empty_graph = Inr s' \<and>
    lr_Value (LastRaw ''h1'' ''cpu.idle'' s') = Some (NewRRDData 60 0)"
proof -
  have "GetAllItems (HistoryCache empty_graph) (GraphItem_Checksum (demo_graph_item 60)) = []"
    by (simp add: empty_graph_def demo_graph_def GetAllItems_def)
  with last_raw_roundtrip [OF good_empty_graph(1) demo_item_valid, of 60 "\<lambda>r. False" demo_cfg]
  show ?thesis
    by (auto simp: good_empty_graph demo_graph_item_def empty_item_def Counter_def)
qed

text \<open>
  C13: A merged answer is exact for gauges. If the file gives one point per step from the start of
  the range, and the samples in memory lie on the same grid within the range, the merge returns,
  with one point for every step of the range; its value is the sample in memory if there is one
  that is a number, else the point of the file, else NaN.
\<close>

theorem gauge_answer:
  assumes "0 < step" "end_ts = grid start step N" "items \<noteq> []" "on_grid start step items"
    and "start \<le> gi_Timestamp (hd items)" "gi_Timestamp (last items) \<le> end_ts"
  shows "merged_answer GAUGE step start end_ts items (points start step 0 n D) =
    Some (Inr (points start step 0 (N + 1)
      (\<lambda>k. let v = gauge_at items (grid start step k) in
           if \<not> is_nan v then v else if k < n then D k else NaN)))"
proof -
  have srt: "sorted_wrt (\<lambda>a b. gi_Timestamp a < gi_Timestamp b) items" using assms(4) by (simp add: on_grid_def)
  obtain a b where a: "gi_Timestamp (hd items) = grid start step a" and b: "gi_Timestamp (last items) = grid start step b"
    using assms(3,4) unfolding on_grid_def by (meson hd_in_set last_in_set)
  note bound = on_grid_bounds [OF assms(4)]
  have ab: "a \<le> b" "b \<le> N"
    using bound [OF hd_in_set [OF assms(3)]] a b assms(1,2,6) by (auto simp: grid_def)
  have "before start step items a 0"
    using bound a by (auto simp: before_def not_less dest: nth_mem)
  from gauge_cache_points [OF assms(1,4,2) this _ refl ab(2), of "[]"]
  have cache: "query_cache GAUGE step start end_ts items =
      Some (points start step a (Suc b - a) (\<lambda>k. gauge_at items (grid start step k)))"
    using ab(1) a b by (simp add: query_cache_def GAUGE_def DERIVE_def COUNTER_def)
  have "a + (Suc b - a) \<le> N + 1" using ab by simp
  from merge_grid [OF assms(1,2) this order_refl] obtain merged where
    merged: "query_merge step start end_ts (points start step 0 n D)
        (points start step a (Suc b - a) (\<lambda>k. gauge_at items (grid start step k))) = Some merged"
      "result_loop merged step (N + 1) start 0 =
        points start step 0 (N + 1) (answer a (Suc b - a) (\<lambda>k. gauge_at items (grid start step k)) n D)"
    by blast
  have outside: "gauge_at items (grid start step k) = NaN" if "\<not> (a \<le> k \<and> k < a + (Suc b - a))" for k
  proof (rule gauge_at_none, intro allI impI)
    fix j assume "j < length items"
    then show "gi_Timestamp (items ! j) \<noteq> grid start step k"
      using bound [OF nth_mem] a b ab that grid_less_iff [OF assms(1), of start k a]
        grid_less_iff [OF assms(1), of start b k] by force
  qed
  have vals: "points start step 0 (N + 1) (answer a (Suc b - a) (\<lambda>k. gauge_at items (grid start step k)) n D) =
      points start step 0 (N + 1) (\<lambda>k. let v = gauge_at items (grid start step k) in
           if \<not> is_nan v then v else if k < n then D k else NaN)"
    using outside by (intro points_cong) (auto simp: answer_def Let_def)
  have "(end_ts - start) sdiv step = int N"
    using assms(1,2) by (simp add: grid_def signed_divide_int_def abs_mult sgn_if)
  then have "query_result GAUGE step start end_ts merged = Inr (result_loop merged step (N + 1) start 0)"
    by (simp add: query_result_def Let_def nat_add_distrib)
  then show ?thesis
    using cache merged vals by (simp add: merged_answer_def)
qed

theorem gauge_answer_witness:
  "merged_answer GAUGE 60 0 120 [demo_graph_item 60] [NewRRDData 0 (fint 1), NewRRDData 60 NaN] =
     Some (Inr [NewRRDData 0 (fint 1), NewRRDData 60 0, NewRRDData 120 NaN])"
proof -
  have "on_grid 0 60 [demo_graph_item 60]"
    by (auto simp: on_grid_def demo_graph_item_def grid_def intro: exI [of _ 1])
  moreover have "120 = grid 0 60 2" by (simp add: grid_def)
  ultimately have "merged_answer GAUGE 60 0 120 [demo_graph_item 60] (points 0 60 0 2 (\<lambda>k. if k = 0 then fint 1 else NaN)) =
    Some (Inr (points 0 60 0 (2 + 1) (\<lambda>k. let v = gauge_at [demo_graph_item 60] (grid 0 60 k) in
           if \<not> is_nan v then v else if k < 2 then (if k = 0 then fint 1 else NaN) else NaN)))"
    by (intro gauge_answer) (simp_all add: demo_graph_item_def)
  moreover have "points 0 60 0 2 (\<lambda>k. if k = 0 then fint 1 else NaN) = [NewRRDData 0 (fint 1), NewRRDData 60 NaN]"
    by (simp add: points_def grid_def numeral_2_eq_2)
  moreover have "points 0 60 0 (2 + 1) (\<lambda>k. let v = gauge_at [demo_graph_item 60] (grid 0 60 k) in
           if \<not> is_nan v then v else if k < 2 then (if k = 0 then fint 1 else NaN) else NaN) =
      [NewRRDData 0 (fint 1), NewRRDData 60 0, NewRRDData 120 NaN]"
    by (simp add: points_def grid_def numeral_2_eq_2 numeral_3_eq_3 gauge_at_def sample_at_def demo_graph_item_def
        empty_item_def Let_def zero_f64_def)
  ultimately show ?thesis by simp
qed

text \<open>
  C24: A merged answer is exact for counters. Under the same conditions, the value for a step is the
  rate from the sample in memory at that time to the one exactly one step later, if both are there
  and the rate is not negative; else the point of the file, else NaN.
\<close>

theorem counter_answer:
  assumes "0 < step" "end_ts = grid start step N" "items \<noteq> []" "on_grid start step items"
    and "start \<le> gi_Timestamp (hd items)" "gi_Timestamp (last items) \<le> end_ts"
    and "dsType = DERIVE \<or> dsType = COUNTER"
  shows "merged_answer dsType step start end_ts items (points start step 0 n D) =
    Some (Inr (points start step 0 N
      (\<lambda>k. let v = rate_at items step (grid start step k) in
           if \<not> is_nan v then v else if k < n then D k else NaN)))
    \<and> \<not> rate_at items step t < 0"
proof -
  have srt: "sorted_wrt (\<lambda>a b. gi_Timestamp a < gi_Timestamp b) items" using assms(4) by (simp add: on_grid_def)
  obtain a b where a: "gi_Timestamp (hd items) = grid start step a" and b: "gi_Timestamp (last items) = grid start step b"
    using assms(3,4) unfolding on_grid_def by (meson hd_in_set last_in_set)
  note bound = on_grid_bounds [OF assms(4)]
  have ab: "a \<le> b" "b \<le> N"
    using bound [OF hd_in_set [OF assms(3)]] a b assms(1,2,6) by (auto simp: grid_def)
  have "before start step items a 0"
    using bound a by (auto simp: before_def not_less dest: nth_mem)
  from counter_cache_points [OF assms(1,4,2) this _ assms(3) b ab(2,1), of "[]"]
  have cache: "query_cache dsType step start end_ts items =
      Some (points start step a (b - a) (\<lambda>k. rate_at items step (grid start step k)))"
    using assms(7) a b by (simp add: query_cache_def)
  have "a + (b - a) \<le> N + 1" "N \<le> N + 1" using ab by simp_all
  from merge_grid [OF assms(1,2) this] obtain merged where
    merged: "query_merge step start end_ts (points start step 0 n D)
        (points start step a (b - a) (\<lambda>k. rate_at items step (grid start step k))) = Some merged"
      "result_loop merged step N start 0 =
        points start step 0 N (answer a (b - a) (\<lambda>k. rate_at items step (grid start step k)) n D)"
    by blast
  have outside: "rate_at items step (grid start step k) = NaN" if "\<not> (a \<le> k \<and> k < a + (b - a))" for k
  proof (rule rate_at_none [OF assms(1) srt], intro allI impI)
    fix j assume j: "j < length items - 1"
    then have "gi_Timestamp (items ! j) < gi_Timestamp (last items)"
      using sorted_nth_less [OF srt, of j "length items - 1"] assms(3) by (simp add: last_conv_nth)
    moreover have "gi_Timestamp (hd items) \<le> gi_Timestamp (items ! j)" using bound [OF nth_mem, of j] j by simp
    ultimately show "gi_Timestamp (items ! j) \<noteq> grid start step k"
      using a b ab that grid_less_iff [OF assms(1), of start k a] grid_less_iff [OF assms(1), of start k b] by force
  qed
  have vals: "points start step 0 N (answer a (b - a) (\<lambda>k. rate_at items step (grid start step k)) n D) =
      points start step 0 N (\<lambda>k. let v = rate_at items step (grid start step k) in
           if \<not> is_nan v then v else if k < n then D k else NaN)"
    using outside by (intro points_cong) (auto simp: answer_def Let_def)
  have "(end_ts - start) sdiv step = int N"
    using assms(1,2) by (simp add: grid_def signed_divide_int_def abs_mult sgn_if)
  moreover have "dsType \<noteq> GAUGE" using assms(7) by (auto simp: GAUGE_def DERIVE_def COUNTER_def)
  ultimately have "query_result dsType step start end_ts merged = Inr (result_loop merged step N start 0)"
    by (simp add: query_result_def Let_def)
  moreover have "\<not> rate_at items step t < 0"
    by (auto simp: rate_at_def Let_def split: option.splits)
  ultimately show ?thesis
    using cache merged vals by (simp add: merged_answer_def)
qed

theorem counter_answer_witness:
  "\<exists>ret. merged_answer COUNTER 60 0 120 [demo_graph_item 60, demo_graph_item 120] (points 0 60 0 1 (\<lambda>k. fint 5)) =
     Some (Inr ret) \<and> map rd_Timestamp ret = [0, 60]"
proof -
  have time: "gi_Timestamp (demo_graph_item t) = t" for t by (simp add: demo_graph_item_def)
  have line: "60 = grid 0 60 1" "120 = grid 0 60 2" by (simp_all add: grid_def)
  then have "\<exists>k. 60 = grid 0 60 k" "\<exists>k. 120 = grid 0 60 k" by blast+
  then have "on_grid 0 60 [demo_graph_item 60, demo_graph_item 120]"
    by (simp add: on_grid_def time)
  then have "merged_answer COUNTER 60 0 120 [demo_graph_item 60, demo_graph_item 120] (points 0 60 0 1 (\<lambda>k. fint 5)) =
      Some (Inr (points 0 60 0 2
        (\<lambda>k. let v = rate_at [demo_graph_item 60, demo_graph_item 120] 60 (grid 0 60 k) in
             if \<not> is_nan v then v else if k < 1 then fint 5 else NaN)))"
    by (intro counter_answer [THEN conjunct1] line) (simp_all add: time)
  moreover have "map rd_Timestamp (points 0 60 0 2 V) = [0, 60]" for V
    by (simp add: points_def grid_def numeral_2_eq_2)
  ultimately show ?thesis by blast
qed

text \<open>
  A forged key takes the graph down. \<open>GetRrd\<close> called with a key whose checksum part starts with a
  minus sign and a digit computes a negative worker number and panics on the channel table,
  whatever the state, as soon as there are more than nine workers and two digits are looked at.
\<close>

theorem getrrd_forged_key:
  assumes "9 < IOWorkerNum cfg" "FirstBytesSize cfg = 2" "fst (GraphItemMap_PopAll ''-1_GAUGE_60'' (GraphItems s)) = []"
  shows "is_panic (GetRrd env cfg ''-1_GAUGE_60'' s)"
proof -
  have "FormRrdCacheKey ''-1'' ''GAUGE'' 60 = ''-1_GAUGE_60''" by code_simp
  moreover have "SplitRrdCacheKey (FormRrdCacheKey ''-1'' ''GAUGE'' 60) = Inr (''-1'', ''GAUGE'', 60)"
    by (rule SplitRrdCacheKey_Form) simp_all
  ultimately have split: "SplitRrdCacheKey ''-1_GAUGE_60'' = Inr (''-1'', ''GAUGE'', 60)" by simp
  have "parse_hex ''-1'' = Inr (-1)" by code_simp
  moreover have "(-1) smod IOWorkerNum cfg = -1"
    using assms(1) by (simp add: smod_nonneg)
  ultimately have "io_worker cfg ''-1'' = Inl (Panic ''index out of range'')"
    using assms(1,2) by (simp add: io_worker_def getIndex_def slice_def go_mod_def)
  moreover obtain m where "GraphItemMap_PopAll ''-1_GAUGE_60'' (GraphItems s) = ([], m)"
    using assms(3) by (metis prod.collapse)
  ultimately show ?thesis
    by (simp add: GetRrd_def split RrdFileName_def slice_def ReadFile_def Let_def)
qed

theorem getrrd_forged_key_witness:
  "is_panic (GetRrd demo_rrd_env demo_cfg ''-1_GAUGE_60'' empty_graph)"
proof (rule getrrd_forged_key)
  show "fst (GraphItemMap_PopAll ''-1_GAUGE_60'' (GraphItems empty_graph)) = []"
    using good_empty_graph(2) [of "''-1_GAUGE_60''"]
    by (simp add: series_def GraphItemMap_PopAll_def PopAll_eq split: option.splits)
qed (simp_all add: demo_cfg_def)

end
