(* ===== verification/Hash_Ring.thy ===== *)
theory Hash_Ring
  imports Go_Hash
begin

text \<open>
  The consistent hash ring that assigns series to nodes: transfer chooses the judge, graph and
  poly-metric node of a sample with it, judge the node of a combined alarm, graph the old owner of a
  series that migrates. The ring is \<open>src/vendor/github.com/toolkits/consistent\<close>, the hash MurmurHash3 with
  32 bits and seed 0 of \<open>src/vendor/github.com/spaolacci/murmur3\<close>.
\<close>

section \<open>MurmurHash3\<close>

definition rotl32 :: "nat \<Rightarrow> u32 \<Rightarrow> u32" where
  "rotl32 n w = push_bit n w OR drop_bit (32 - n) w"

definition murmur_mix :: "u32 \<Rightarrow> u32" where
  "murmur_mix k = rotl32 15 (k * 0xcc9e2d51) * 0x1b873593"

fun murmur_body :: "u32 \<Rightarrow> nat list \<Rightarrow> u32" where
  "murmur_body h (a # b # c # d # bs) =
     (let h = rotl32 13 (h XOR murmur_mix (of_nat (le_val [a, b, c, d])))
      in murmur_body (h * 4 + h + 0xe6546b64) bs)"
| "murmur_body h [] = h"
| "murmur_body h tail = h XOR murmur_mix (of_nat (le_val tail))"

definition murmur_final :: "u32 \<Rightarrow> u32" where
  "murmur_final h =
     (let h = (h XOR drop_bit 16 h) * 0x85ebca6b;
          h = (h XOR drop_bit 13 h) * 0xc2b2ae35
      in h XOR drop_bit 16 h)"

definition murmur3 :: "string \<Rightarrow> u32" where
  "murmur3 s = murmur_final (murmur_body 0 (map of_char s) XOR of_nat (length s))"

section \<open>The ring\<close>

record hash_ring =
  circle :: "(u32, string) gomap"
  members :: "(string, bool) gomap"
  sortedHashes :: "u32 list"
  NumberOfReplicas :: int
  node_count :: int

definition new_ring :: hash_ring where
  "new_ring = \<lparr>circle = [], members = [], sortedHashes = [], NumberOfReplicas = 20, node_count = 0\<rparr>"

definition eltKey :: "string \<Rightarrow> nat \<Rightarrow> string" where
  "eltKey elt i = itoa (int i) @ elt"

text \<open>The sort of distinct hashes. The test for a reallocation divides by four times the number of replicas.\<close>

definition updateSortedHashes :: "hash_ring \<Rightarrow> hash_ring res" where
  "updateSortedHashes c =
     (if NumberOfReplicas c = 0 then Inl (Panic ''integer divide by zero'')
      else Inr (c\<lparr>sortedHashes := sort (gkeys (circle c))\<rparr>))"

definition ring_add :: "string \<Rightarrow> hash_ring \<Rightarrow> hash_ring res" where
  "ring_add elt c =
     (let c = c\<lparr>circle := foldl (\<lambda>m i. gput (murmur3 (eltKey elt i)) elt m) (circle c) [0..<nat (NumberOfReplicas c)],
               members := gput elt True (members c)\<rparr>
      in bind_res (updateSortedHashes c) (\<lambda>c. Inr (c\<lparr>node_count := node_count c + 1\<rparr>)))"

fun add_nodes :: "string list \<Rightarrow> hash_ring \<Rightarrow> hash_ring res" where
  "add_nodes [] c = Inr c"
| "add_nodes (n # ns) c = bind_res (ring_add n c) (add_nodes ns)"

definition NewConsistentHashNodesRing :: "int \<Rightarrow> string list \<Rightarrow> hash_ring res" where
  "NewConsistentHashNodesRing replicas nodes = add_nodes nodes (new_ring\<lparr>NumberOfReplicas := replicas\<rparr>)"

text \<open>\<open>sort.Search\<close>: the binary search of the standard library for the first index where \<open>f\<close> holds.\<close>

function sort_search :: "(nat \<Rightarrow> bool) \<Rightarrow> nat \<Rightarrow> nat \<Rightarrow> nat" where
  "sort_search f i j =
     (if i < j then let h = (i + j) div 2 in if f h then sort_search f i h else sort_search f (h + 1) j
      else i)"
  by pat_completeness auto
termination
  by (relation "measure (\<lambda>(f, i, j). j - i)") (auto simp: Let_def)

declare sort_search.simps [simp del]

definition ring_search :: "u32 list \<Rightarrow> u32 \<Rightarrow> nat" where
  "ring_search hs key =
     (let i = sort_search (\<lambda>x. key < hs ! x) 0 (length hs)
      in if length hs \<le> i then 0 else i)"

definition GetNode :: "hash_ring \<Rightarrow> string \<Rightarrow> string res" where
  "GetNode c name =
     (if circle c = [] then Inl (Err ''empty circle'')
      else let h = sortedHashes c ! ring_search (sortedHashes c) (murmur3 name)
           in Inr (case gget (circle c) h of Some e \<Rightarrow> e | None \<Rightarrow> ''''))"

section \<open>Facts\<close>

lemma sort_search_first:
  assumes "i \<le> j" "\<forall>a b. a \<le> b \<longrightarrow> f a \<longrightarrow> f b" "\<forall>a < i. \<not> f a" "f j"
  shows "f (sort_search f i j) \<and> (\<forall>a < sort_search f i j. \<not> f a)"
  using assms
proof (induction f i j rule: sort_search.induct)
  case (1 f i j)
  show ?case
  proof (cases "i < j")
    case True
    define h where "h = (i + j) div 2"
    have h: "i \<le> h" "h + 1 \<le> j" using True by (auto simp: h_def)
    show ?thesis
    proof (cases "f h")
      case fh: True
      have "sort_search f i j = sort_search f i h"
        using True fh by (subst sort_search.simps) (simp add: Let_def h_def)
      then show ?thesis using 1(1) [OF True h_def fh h(1) 1(4,5) fh] by metis
    next
      case fh: False
      have "sort_search f i j = sort_search f (h + 1) j"
        using True fh by (subst sort_search.simps) (simp add: Let_def h_def)
      moreover have "\<forall>a < h + 1. \<not> f a"
        using 1(4) fh by (metis Suc_eq_plus1 less_Suc_eq_le)
      ultimately show ?thesis using 1(2) [OF True h_def fh h(2) 1(4) _ 1(6)] by metis
    qed
  next
    case False
    then have "i = j" using 1(3) by simp
    moreover have "sort_search f i j = i" using False by (subst sort_search.simps) simp
    ultimately show ?thesis using 1(5,6) by metis
  qed
qed

lemma sort_search_cong:
  "\<forall>x. i \<le> x \<and> x < j \<longrightarrow> f x = g x \<Longrightarrow> sort_search f i j = sort_search g i j"
proof (induction f i j rule: sort_search.induct)
  case (1 f i j)
  show ?case
  proof (cases "i < j")
    case True
    define h where "h = (i + j) div 2"
    have h: "i \<le> h" "h < j" using True by (auto simp: h_def)
    then have eq: "f h = g h" using 1(3) by blast
    have unf: "sort_search k i j = (if k h then sort_search k i h else sort_search k (h + 1) j)" for k
      using True by (subst sort_search.simps) (simp add: Let_def h_def)
    have "sort_search f i h = sort_search g i h" if "f h"
      using h 1(3) by (intro 1(1) [OF True h_def that]) (meson less_trans)
    moreover have "sort_search f (h + 1) j = sort_search g (h + 1) j" if "\<not> f h"
      using h 1(3) by (intro 1(2) [OF True h_def that]) (meson add_leE order_trans)
    ultimately show ?thesis unfolding unf eq by metis
  next
    case False
    then have "sort_search k i j = i" for k by (subst sort_search.simps) simp
    then show ?thesis by metis
  qed
qed

text \<open>The hash that follows a position on the circle: the next larger one, or the smallest.\<close>

definition succ_hash :: "u32 set \<Rightarrow> u32 \<Rightarrow> u32" where
  "succ_hash H key = (if \<exists>h \<in> H. key < h then Min {h \<in> H. key < h} else Min H)"

lemma ring_search_succ:
  assumes "sorted hs" "hs \<noteq> []"
  shows "hs ! ring_search hs key = succ_hash (set hs) key" "ring_search hs key < length hs"
proof -
  define f where "f = (\<lambda>x. length hs \<le> x \<or> key < hs ! x)"
  have mono: "f b" if "a \<le> b" "f a" for a b
  proof (cases "length hs \<le> b")
    case False
    then have "hs ! a \<le> hs ! b" "key < hs ! a"
      using that sorted_nth_mono [OF assms(1) that(1)] by (auto simp: f_def)
    then have "key < hs ! b" by (rule less_le_trans [rotated])
    then show ?thesis by (simp add: f_def)
  qed (simp add: f_def)
  define i where "i = sort_search f 0 (length hs)"
  have mono_all: "\<forall>a b. a \<le> b \<longrightarrow> f a \<longrightarrow> f b" using mono by blast
  have end_f: "f (length hs)" by (simp add: f_def)
  have "f i \<and> (\<forall>a < i. \<not> f a)"
    unfolding i_def by (rule sort_search_first [OF _ mono_all _ end_f]) simp_all
  then have i: "f i" "\<And>a. a < i \<Longrightarrow> \<not> f a" by blast+
  have "sort_search (\<lambda>x. key < hs ! x) 0 (length hs) = i"
    unfolding i_def by (rule sort_search_cong) (auto simp: f_def)
  then have code: "ring_search hs key = (if length hs \<le> i then 0 else i)"
    by (simp add: ring_search_def Let_def)
  show "ring_search hs key < length hs" using assms(2) by (simp add: code)
  show "hs ! ring_search hs key = succ_hash (set hs) key"
  proof (cases "length hs \<le> i")
    case True
    have none: "\<not> key < h" if mem: "h \<in> set hs" for h
    proof -
      obtain b where b: "b < length hs" "h = hs ! b" using mem unfolding in_set_conv_nth by blast
      then show ?thesis using i(2) [of b] True by (simp add: f_def)
    qed
    have "Min (set hs) = hs ! 0"
      using assms by (cases hs) (auto intro!: Min_eqI)
    moreover have "ring_search hs key = 0" using True code by simp
    moreover have "\<not> (\<exists>h \<in> set hs. key < h)" using none by blast
    ultimately show ?thesis by (simp only: succ_hash_def if_False)
  next
    case False
    have i': "key < hs ! i" "hs ! i \<in> set hs" using i(1) False by (auto simp: f_def)
    have least: "hs ! i \<le> h" if mem: "h \<in> set hs" "key < h" for h
    proof -
      obtain b where b: "b < length hs" "h = hs ! b" using mem(1) unfolding in_set_conv_nth by blast
      have "f b" using mem(2) b by (simp add: f_def)
      then have "i \<le> b" using i(2) [of b] by (cases "b < i") simp_all
      then show ?thesis using sorted_nth_mono [OF assms(1) _ b(1)] b(2) by simp
    qed
    have "Min {h \<in> set hs. key < h} = hs ! i"
      by (rule Min_eqI) (use i' least in simp_all)
    moreover have "ring_search hs key = i" using False code by simp
    moreover have "\<exists>h \<in> set hs. key < h" using i' by blast
    ultimately show ?thesis by (simp only: succ_hash_def if_True)
  qed
qed

lemma succ_hash_union:
  assumes "finite N" "finite H" "H \<noteq> {}" "succ_hash (N \<union> H) k \<notin> N"
  shows "succ_hash (N \<union> H) k = succ_hash H k"
proof -
  have min_in: "Min A \<in> A" if "A \<noteq> {}" "finite A" for A :: "u32 set" using that by simp
  show ?thesis
  proof (cases "\<exists>h \<in> N \<union> H. k < h")
    case True
    define A where "A = {h \<in> N \<union> H. k < h}"
    have A: "A \<noteq> {}" "finite A" using True assms(1,2) by (auto simp: A_def)
    have s: "succ_hash (N \<union> H) k = Min A" using True by (simp add: succ_hash_def A_def)
    then have inH: "Min A \<in> H" "k < Min A" using min_in [OF A] assms(4) by (auto simp: A_def)
    have "Min {h \<in> H. k < h} = Min A"
      using inH A assms(2) by (intro Min_eqI) (auto simp: A_def intro!: Min_le)
    then show ?thesis using s inH by (auto simp: succ_hash_def)
  next
    case False
    have s: "succ_hash (N \<union> H) k = Min (N \<union> H)" using False by (simp add: succ_hash_def)
    have inH: "Min (N \<union> H) \<in> H" using min_in [of "N \<union> H"] assms s by auto
    have "Min H = Min (N \<union> H)"
      using inH assms(1,2) by (intro Min_eqI) auto
    then show ?thesis using s False by (simp add: succ_hash_def)
  qed
qed

text \<open>What adding a node keeps: the hashes are those of the circle, and the circle names members only.\<close>

definition ring_ok :: "hash_ring \<Rightarrow> bool" where
  "ring_ok c \<longleftrightarrow> sortedHashes c = sort (gkeys (circle c)) \<and> (\<forall>h e. gget (circle c) h = Some e \<longrightarrow> gget (members c) e \<noteq> None)"

lemma ring_ok_new: "ring_ok (new_ring\<lparr>NumberOfReplicas := r\<rparr>)"
  by (simp add: ring_ok_def new_ring_def)

text \<open>The node of a name is the owner of the hash that follows.\<close>

lemma GetNode_succ:
  assumes "ring_ok c" "circle c \<noteq> []"
  shows "\<exists>e. GetNode c name = Inr e \<and>
    gget (circle c) (succ_hash (dom (gget (circle c))) (murmur3 name)) = Some e \<and> gget (members c) e \<noteq> None"
proof -
  define hs where "hs = sortedHashes c"
  have hs: "sorted hs" "hs \<noteq> []" "set hs = dom (gget (circle c))"
    using assms gkeys_dom [of "circle c"] by (auto simp: hs_def ring_ok_def)
  have "hs ! ring_search hs (murmur3 name) \<in> dom (gget (circle c))"
    using nth_mem [OF ring_search_succ(2) [OF hs(1,2)]] hs(3) by blast
  then obtain e where e: "gget (circle c) (hs ! ring_search hs (murmur3 name)) = Some e" by blast
  then have "gget (members c) e \<noteq> None" using assms(1) unfolding ring_ok_def by blast
  with e assms(2) show ?thesis
    by (simp add: GetNode_def Let_def hs_def [symmetric] ring_search_succ(1) [OF hs(1,2)] hs(3))
qed

lemma put_replicas:
  "gget (foldl (\<lambda>m i. gput (f i) e m) m is) h = (if h \<in> f ` set is then Some e else gget m h)"
  by (induction "is" arbitrary: m) auto

lemma ring_add_ok:
  assumes "ring_ok c" "0 < NumberOfReplicas c"
  obtains c' where "ring_add elt c = Inr c'" "ring_ok c'" "NumberOfReplicas c' = NumberOfReplicas c"
    "gget (circle c') = (\<lambda>h. if h \<in> (\<lambda>i. murmur3 (eltKey elt i)) ` {0..<nat (NumberOfReplicas c)} then Some elt else gget (circle c) h)"
    "gget (members c') = (gget (members c))(elt \<mapsto> True)" "circle c' \<noteq> []"
proof -
  define m where "m = foldl (\<lambda>m i. gput (murmur3 (eltKey elt i)) elt m) (circle c) [0..<nat (NumberOfReplicas c)]"
  have m: "gget m = (\<lambda>h. if h \<in> (\<lambda>i. murmur3 (eltKey elt i)) ` {0..<nat (NumberOfReplicas c)} then Some elt else gget (circle c) h)"
    unfolding m_def by (auto simp: put_replicas fun_eq_iff)
  then have "gget m (murmur3 (eltKey elt 0)) = Some elt" using assms(2) by auto
  then have ne: "m \<noteq> []" by auto
  define c' where "c' = c\<lparr>circle := m, members := gput elt True (members c), sortedHashes := sort (gkeys m),
    node_count := node_count c + 1\<rparr>"
  show ?thesis
  proof (rule that)
    show "ring_add elt c = Inr c'"
      using assms(2) by (simp add: ring_add_def updateSortedHashes_def Let_def m_def c'_def)
    show "ring_ok c'"
      using assms(1) by (auto simp: ring_ok_def c'_def m)
    show "gget (circle c') = (\<lambda>h. if h \<in> (\<lambda>i. murmur3 (eltKey elt i)) ` {0..<nat (NumberOfReplicas c)} then Some elt else gget (circle c) h)"
    proof -
      have "circle c' = m" by (simp add: c'_def)
      then show ?thesis by (simp only: m)
    qed
    show "gget (members c') = (gget (members c))(elt \<mapsto> True)"
    proof -
      have "members c' = gput elt True (members c)" by (simp add: c'_def)
      then show ?thesis by (simp only: gget_gput)
    qed
  qed (simp_all add: c'_def ne)
qed

lemma add_nodes_ok:
  assumes "ring_ok c" "0 < NumberOfReplicas c"
  shows "\<exists>c'. add_nodes nodes c = Inr c' \<and> ring_ok c' \<and> NumberOfReplicas c' = NumberOfReplicas c \<and>
    dom (gget (members c')) = dom (gget (members c)) \<union> set nodes \<and> (circle c \<noteq> [] \<or> nodes \<noteq> [] \<longrightarrow> circle c' \<noteq> [])"
  using assms
proof (induction nodes arbitrary: c)
  case (Cons n ns)
  obtain c1 where c1: "ring_add n c = Inr c1" "ring_ok c1" "NumberOfReplicas c1 = NumberOfReplicas c"
    "gget (members c1) = (gget (members c))(n \<mapsto> True)" "circle c1 \<noteq> []"
    using ring_add_ok [OF Cons.prems, of n] by metis
  have dom1: "dom (gget (members c1)) = insert n (dom (gget (members c)))" by (simp only: c1(4) dom_fun_upd) simp
  obtain c' where "add_nodes ns c1 = Inr c'" "ring_ok c'" "NumberOfReplicas c' = NumberOfReplicas c1"
    "dom (gget (members c')) = dom (gget (members c1)) \<union> set ns" "circle c' \<noteq> []"
    using Cons.IH [of c1] c1(2,3,5) Cons.prems(2) by metis
  then show ?case using c1(1,3) by (intro exI [of _ c']) (simp add: dom1)
qed auto

lemma add_nodes_append: "add_nodes (xs @ ys) r = bind_res (add_nodes xs r) (add_nodes ys)"
proof (induction xs arbitrary: r)
  case (Cons x xs)
  then show ?case by (cases "ring_add x r") simp_all
qed simp

lemma new_ring_exists: "0 < replicas \<Longrightarrow> nodes \<noteq> [] \<Longrightarrow> \<exists>c. NewConsistentHashNodesRing replicas nodes = Inr c"
  using add_nodes_ok [OF ring_ok_new, of replicas nodes] by (auto simp: NewConsistentHashNodesRing_def new_ring_def)

section \<open>Properties\<close>

text \<open>
  Every name has a node. A ring made from a non-empty list of nodes with at least one replica
  answers every name, and with one of those nodes.
\<close>

theorem ring_total:
  assumes "0 < replicas" "nodes \<noteq> []"
  shows "\<exists>c n. NewConsistentHashNodesRing replicas nodes = Inr c \<and> GetNode c name = Inr n \<and> n \<in> set nodes"
proof -
  obtain c where c: "NewConsistentHashNodesRing replicas nodes = Inr c" "ring_ok c"
    "dom (gget (members c)) = set nodes" "circle c \<noteq> []"
    using add_nodes_ok [OF ring_ok_new, of replicas nodes] assms
    by (auto simp: NewConsistentHashNodesRing_def new_ring_def)
  obtain e where "GetNode c name = Inr e" "gget (members c) e \<noteq> None"
    using GetNode_succ [OF c(2,4), of name] by blast
  with c show ?thesis by blast
qed

theorem ring_total_witness:
  "\<exists>c n. NewConsistentHashNodesRing 2 [''j0'', ''j1''] = Inr c \<and> GetNode c ''web01/cpu.idle'' = Inr n \<and>
    n \<in> {''j0'', ''j1''}"
  using ring_total [of 2 "[''j0'', ''j1'']" "''web01/cpu.idle''"] by simp

text \<open>
  C25: The ring is consistent. Adding a node to a ring leaves the node of every name as it was or
  moves the name to the new node; no name moves between the old nodes.
\<close>

theorem ring_consistent:
  assumes "NewConsistentHashNodesRing replicas nodes = Inr c" "0 < replicas" "nodes \<noteq> []"
    and "NewConsistentHashNodesRing replicas (nodes @ [n]) = Inr c'"
  shows "GetNode c' name = GetNode c name \<or> GetNode c' name = Inr n"
proof -
  have c: "ring_ok c" "NumberOfReplicas c = replicas" "circle c \<noteq> []"
    using add_nodes_ok [OF ring_ok_new, of replicas nodes] assms(1-3)
    by (auto simp: NewConsistentHashNodesRing_def new_ring_def)
  have pos: "0 < NumberOfReplicas c" using c(2) assms(2) by simp
  obtain c1 where c1: "ring_add n c = Inr c1" "ring_ok c1" "circle c1 \<noteq> []"
    "gget (circle c1) = (\<lambda>h. if h \<in> (\<lambda>i. murmur3 (eltKey n i)) ` {0..<nat replicas} then Some n else gget (circle c) h)"
    using ring_add_ok [OF c(1) pos, of n] unfolding c(2) by blast
  have "c' = c1" using assms(1,4) c1(1) by (simp add: NewConsistentHashNodesRing_def add_nodes_append)
  define N where "N = (\<lambda>i. murmur3 (eltKey n i)) ` {0..<nat replicas}"
  define H where "H = dom (gget (circle c))"
  define k where "k = murmur3 name"
  have fin: "finite N" "finite H" by (auto simp: N_def H_def finite_dom_map_of)
  have circle1: "gget (circle c1) h = (if h \<in> N then Some n else gget (circle c) h)" for h
    by (simp only: c1(4) N_def)
  have dom1: "dom (gget (circle c1)) = N \<union> H"
    by (rule set_eqI) (simp add: dom_def H_def circle1)
  obtain e where e: "GetNode c name = Inr e" "gget (circle c) (succ_hash H k) = Some e"
    using GetNode_succ [OF c(1,3), of name] by (auto simp: H_def k_def)
  obtain e' where e': "GetNode c1 name = Inr e'" "gget (circle c1) (succ_hash (N \<union> H) k) = Some e'"
    using GetNode_succ [OF c1(2,3), of name] by (auto simp: dom1 k_def)
  show ?thesis
  proof (cases "succ_hash (N \<union> H) k \<in> N")
    case True
    then have "e' = n" using e'(2) circle1 [of "succ_hash (N \<union> H) k"] by simp
    then show ?thesis using e'(1) \<open>c' = c1\<close> by simp
  next
    case False
    have "H \<noteq> {}" using e(2) by (auto simp: H_def)
    then have "succ_hash (N \<union> H) k = succ_hash H k"
      using False fin by (intro succ_hash_union)
    then have "e' = e" using e(2) e'(2) False circle1 [of "succ_hash (N \<union> H) k"] by simp
    then show ?thesis using e(1) e'(1) \<open>c' = c1\<close> by simp
  qed
qed

theorem ring_consistent_witness:
  "\<exists>c c'. NewConsistentHashNodesRing 2 [''j0''] = Inr c \<and> NewConsistentHashNodesRing 2 [''j0'', ''j1''] = Inr c' \<and>
    (GetNode c' ''web01/cpu.idle'' = GetNode c ''web01/cpu.idle'' \<or> GetNode c' ''web01/cpu.idle'' = Inr ''j1'')"
proof -
  obtain c where c: "NewConsistentHashNodesRing 2 [''j0''] = Inr c"
    using new_ring_exists [of 2 "[''j0'']"] by auto
  obtain c' where c': "NewConsistentHashNodesRing 2 ([''j0''] @ [''j1'']) = Inr c'"
    using new_ring_exists [of 2 "[''j0''] @ [''j1'']"] by auto
  show ?thesis using c c' ring_consistent [OF c _ _ c', of "''web01/cpu.idle''"] by simp
qed

end
