(* ===== verification/Transfer_Send.thy ===== *)
theory Transfer_Send
  imports Common_Model Hash_Ring Safe_List "HOL-Library.Sublist"
begin

text \<open>
  The sending half of transfer (\<open>src/modules/transfer/sender\<close>): one bounded queue for every judge, graph
  and poly-metric node, the choice of the node by consistent hashing, the conversion of a sample to
  what the receiver takes, and the tasks that drain the queues in batches with up to three calls.

  The three groups of queues work alike; a group is a \<open>lane\<close>: the queues by node, the calls that were
  made (queue, address, batch, success) and the counters of \<open>src/modules/transfer/proc\<close>. The outcome of the
  call with number \<open>i\<close> of a batch is an oracle. A task round pops and sends one batch; the rounds of
  different queues and the pushes interleave as a sequence of steps.
\<close>

definition transfer_GAUGE :: string where "transfer_GAUGE = ''GAUGE''"
definition transfer_COUNTER :: string where "transfer_COUNTER = ''COUNTER''"
definition transfer_DERIVE :: string where "transfer_DERIVE = ''DERIVE''"
definition DEFAULT_STEP :: int where "DEFAULT_STEP = 60"
definition DefaultSendQueueMaxSize :: int where "DefaultSendQueueMaxSize = 102400"

section \<open>Configuration and state\<close>

record transfer_cfg =
  cfg_MinStep :: int
  Judge_Enabled :: bool
  Judge_Batch :: int
  Judge_Replicas :: int
  Judge_Cluster :: "(string, string) gomap"
  Graph_Enabled :: bool
  Graph_Batch :: int
  Graph_Replicas :: int
  Graph_Cluster :: "(string, string) gomap"
  Poly_Enabled :: bool
  Poly_Batch :: int
  Poly_Replicas :: int
  Poly_Cluster :: "(string, string) gomap"
  Tsdb_Enabled :: bool
  Kafka_Enabled :: bool
  Kafka_DatabusChannel :: string
  Prome_Enabled :: bool

text \<open>\<open>"host1, host2"\<close> in the file is a list of addresses.\<close>

definition formatClusterItems :: "(string, string) gomap \<Rightarrow> (string, string list) gomap" where
  "formatClusterItems cluster =
     foldl (\<lambda>ret (node, clusterStr). gput node (map trim_space (split CHR '','' clusterStr)) ret) [] cluster"

record 'a lane =
  Queues :: "(string, 'a list) gomap"
  Calls :: "(string \<times> string \<times> 'a list \<times> bool) list"
  DropCnt :: int
  SentCnt :: int
  FailCnt :: int

record sender_state =
  MinStep :: int
  JudgeNodeRing :: hash_ring
  GraphNodeRing :: hash_ring
  PolyNodeRing :: hash_ring
  JudgeLane :: "judge_item lane"
  GraphLane :: "graph_item lane"
  PolyLane :: "poly_request lane"
  TsdbQueue :: "tsdb_item list option"
  TsdbDropCnt :: int
  KafkaQueue :: "kafka_data list" \<comment> \<open>oldest first\<close>
  KafkaSenderRuns :: bool
  KafkaFailCnt :: int

section \<open>Start\<close>

definition empty_lane :: "'a lane" where
  "empty_lane = \<lparr>Queues = [], Calls = [], DropCnt = 0, SentCnt = 0, FailCnt = 0\<rparr>"

definition make_queues :: "string list \<Rightarrow> (string, 'a list) gomap" where
  "make_queues keys = foldl (\<lambda>m k. gput k [] m) [] keys"

definition graph_queue_keys :: "transfer_cfg \<Rightarrow> string list" where
  "graph_queue_keys cfg =
     concat (map (\<lambda>(node, addrs). map (\<lambda>addr. node @ addr) addrs) (formatClusterItems (Graph_Cluster cfg)))"

definition initSendQueues :: "transfer_cfg \<Rightarrow> sender_state \<Rightarrow> sender_state" where
  "initSendQueues cfg s =
     s\<lparr>JudgeLane := empty_lane\<lparr>Queues := make_queues (gkeys (Judge_Cluster cfg))\<rparr>,
       PolyLane := empty_lane\<lparr>Queues := make_queues (gkeys (Poly_Cluster cfg))\<rparr>,
       GraphLane := empty_lane\<lparr>Queues := make_queues (graph_queue_keys cfg)\<rparr>,
       TsdbQueue := if Tsdb_Enabled cfg then Some [] else None\<rparr>"

definition initNodeRings :: "transfer_cfg \<Rightarrow> sender_state \<Rightarrow> sender_state res" where
  "initNodeRings cfg s =
     bind_res (NewConsistentHashNodesRing (Judge_Replicas cfg) (KeysOfMap (Judge_Cluster cfg))) (\<lambda>jr.
     bind_res (NewConsistentHashNodesRing (Poly_Replicas cfg) (KeysOfMap (Poly_Cluster cfg))) (\<lambda>pr.
     bind_res (NewConsistentHashNodesRing (Graph_Replicas cfg) (KeysOfMap (Graph_Cluster cfg))) (\<lambda>gr.
       Inr (s\<lparr>JudgeNodeRing := jr, PolyNodeRing := pr, GraphNodeRing := gr\<rparr>))))"

definition initial_sender :: sender_state where
  "initial_sender = \<lparr>MinStep = 0, JudgeNodeRing = new_ring, GraphNodeRing = new_ring, PolyNodeRing = new_ring,
     JudgeLane = empty_lane, GraphLane = empty_lane, PolyLane = empty_lane, TsdbQueue = None, TsdbDropCnt = 0,
     KafkaQueue = [], KafkaSenderRuns = False, KafkaFailCnt = 0\<rparr>"

definition Start :: "transfer_cfg \<Rightarrow> sender_state res" where
  "Start cfg =
     (let s = initial_sender\<lparr>MinStep := if cfg_MinStep cfg < 1 then 30 else cfg_MinStep cfg\<rparr>;
          s = initSendQueues cfg s
      in bind_res (initNodeRings cfg s) (\<lambda>s. Inr (s\<lparr>KafkaSenderRuns := True\<rparr>)))"

section \<open>Conversions\<close>

definition alignTs :: "int \<Rightarrow> int \<Rightarrow> int res" where
  "alignTs ts period = bind_res (go_mod ts period) (\<lambda>r. Inr (ts - r))"

definition convert2JudgeItem :: "int \<Rightarrow> meta_data \<Rightarrow> judge_item res" where
  "convert2JudgeItem minStep item =
     (let step = (if md_Step item < minStep then minStep else md_Step item) in
      bind_res (alignTs (md_Timestamp item) step) (\<lambda>ts.
        Inr \<lparr>ji_Endpoint = md_Endpoint item, ji_Metric = md_Metric item, ji_Value = md_Value item,
             ji_Timestamp = ts, ji_JudgeType = md_CounterType item, ji_Tags = md_Tags item\<rparr>))"

definition ds_type :: "string \<Rightarrow> (string \<times> string \<times> string) res" where
  "ds_type counterType =
     (if counterType = transfer_GAUGE then Inr (counterType, ''U'', ''U'')
      else if counterType = transfer_COUNTER then Inr (transfer_DERIVE, ''0'', ''U'')
      else if counterType = transfer_DERIVE then Inr (transfer_DERIVE, ''0'', ''U'')
      else Inl (Err ''not_supported_counter_type''))"

definition convert2GraphItem :: "int \<Rightarrow> meta_data \<Rightarrow> graph_item res" where
  "convert2GraphItem minStep d =
     (let step = (if md_Step d < minStep then minStep else md_Step d) in
      bind_res (ds_type (md_CounterType d)) (\<lambda>(dsType, mn, mx).
      bind_res (alignTs (md_Timestamp d) step) (\<lambda>ts.
        Inr \<lparr>gi_Endpoint = md_Endpoint d, gi_Metric = md_Metric d, gi_Tags = md_Tags d, gi_Value = md_Value d,
             gi_Timestamp = ts, gi_DsType = dsType, gi_Step = step, gi_Heartbeat = i64 (step * 2),
             gi_Min = mn, gi_Max = mx\<rparr>)))"

definition convert2TsdbItem :: "meta_data \<Rightarrow> tsdb_item" where
  "convert2TsdbItem d =
     \<lparr>ts_Metric = md_Metric d,
      ts_Tags = gput ''endpoint'' (md_Endpoint d) (foldl (\<lambda>t (k, v). gput k v t) [] (md_Tags d)),
      ts_Value = md_Value d, ts_Timestamp = md_Timestamp d\<rparr>"

section \<open>Filling the queues\<close>

text \<open>A queue that is missing from the map is a nil pointer.\<close>

definition lane_push :: "string \<Rightarrow> 'a \<Rightarrow> 'a lane \<Rightarrow> (bool \<times> 'a lane) res" where
  "lane_push key v l =
     (case gget (Queues l) key of
        None \<Rightarrow> nil_deref
      | Some Q \<Rightarrow>
          let (ok, Q') = SafeListLimited_PushFront DefaultSendQueueMaxSize v Q
          in Inr (ok, l\<lparr>Queues := gput key Q' (Queues l)\<rparr>))"

definition push_or_drop :: "string \<Rightarrow> 'a \<Rightarrow> 'a lane \<Rightarrow> 'a lane res" where
  "push_or_drop key v l =
     bind_res (lane_push key v l) (\<lambda>(isSuccess, l).
       Inr (if isSuccess then l else l\<lparr>DropCnt := DropCnt l + 1\<rparr>))"

text \<open>An error of the ring (no node at all) is logged and the sample skipped.\<close>

definition on_node :: "hash_ring \<Rightarrow> string \<Rightarrow> (string \<Rightarrow> 's res) \<Rightarrow> 's \<Rightarrow> 's res" where
  "on_node ring pk f s =
     (case GetNode ring pk of Inr node \<Rightarrow> f node | Inl (Err _) \<Rightarrow> Inr s | Inl e \<Rightarrow> Inl e)"

definition push_judge :: "meta_data \<Rightarrow> sender_state \<Rightarrow> sender_state res" where
  "push_judge item s =
     on_node (JudgeNodeRing s) (MetaData_PK item) (\<lambda>node.
       bind_res (convert2JudgeItem (MinStep s) item) (\<lambda>judgeItem.
       bind_res (push_or_drop node judgeItem (JudgeLane s)) (\<lambda>l. Inr (s\<lparr>JudgeLane := l\<rparr>)))) s"

fun Push2JudgeSendQueue :: "meta_data list \<Rightarrow> sender_state \<Rightarrow> sender_state res" where
  "Push2JudgeSendQueue [] s = Inr s"
| "Push2JudgeSendQueue (item # items) s = bind_res (push_judge item s) (Push2JudgeSendQueue items)"

definition push_poly :: "poly_request \<Rightarrow> sender_state \<Rightarrow> sender_state res" where
  "push_poly item s =
     on_node (PolyNodeRing s) (pq_PolyName item) (\<lambda>node.
       bind_res (push_or_drop node item (PolyLane s)) (\<lambda>l. Inr (s\<lparr>PolyLane := l\<rparr>))) s"

fun Push2PolySendQueue :: "poly_request list \<Rightarrow> sender_state \<Rightarrow> sender_state res" where
  "Push2PolySendQueue [] s = Inr s"
| "Push2PolySendQueue (item # items) s = bind_res (push_poly item s) (Push2PolySendQueue items)"

text \<open>A graph node may have several addresses; every address gets the sample.\<close>

fun push_copies :: "string \<Rightarrow> string list \<Rightarrow> graph_item \<Rightarrow> int \<Rightarrow> graph_item lane \<Rightarrow> (int \<times> graph_item lane) res" where
  "push_copies node [] it errCnt l = Inr (errCnt, l)"
| "push_copies node (addr # addrs) it errCnt l =
     bind_res (lane_push (node @ addr) it l) (\<lambda>(ok, l).
       push_copies node addrs it (if ok then errCnt else errCnt + 1) l)"

definition push_graph :: "transfer_cfg \<Rightarrow> meta_data \<Rightarrow> sender_state \<Rightarrow> sender_state res" where
  "push_graph cfg item s =
     (case convert2GraphItem (MinStep s) item of
        Inl (Err _) \<Rightarrow> Inr s
      | Inl e \<Rightarrow> Inl e
      | Inr graphItem \<Rightarrow>
          on_node (GraphNodeRing s) (MetaData_PK item) (\<lambda>node.
            case gget (formatClusterItems (Graph_Cluster cfg)) node of
              None \<Rightarrow> nil_deref
            | Some addrs \<Rightarrow>
                bind_res (push_copies node addrs graphItem 0 (GraphLane s)) (\<lambda>(errCnt, l).
                  Inr (s\<lparr>GraphLane := if 0 < errCnt then l\<lparr>DropCnt := DropCnt l + 1\<rparr> else l\<rparr>))) s)"

fun Push2GraphSendQueue :: "transfer_cfg \<Rightarrow> meta_data list \<Rightarrow> sender_state \<Rightarrow> sender_state res" where
  "Push2GraphSendQueue cfg [] s = Inr s"
| "Push2GraphSendQueue cfg (item # items) s = bind_res (push_graph cfg item s) (Push2GraphSendQueue cfg items)"

fun Push2TsdbSendQueue :: "meta_data list \<Rightarrow> sender_state \<Rightarrow> sender_state res" where
  "Push2TsdbSendQueue [] s = Inr s"
| "Push2TsdbSendQueue (item # items) s =
     (case TsdbQueue s of
        None \<Rightarrow> nil_deref
      | Some Q \<Rightarrow>
          let (isSuccess, Q') = SafeListLimited_PushFront DefaultSendQueueMaxSize (convert2TsdbItem item) Q;
              s = s\<lparr>TsdbQueue := Some Q'\<rparr>
          in Push2TsdbSendQueue items (if isSuccess then s else s\<lparr>TsdbDropCnt := TsdbDropCnt s + 1\<rparr>))"

section \<open>Draining the queues\<close>

text \<open>At most three calls, until one succeeds.\<close>

fun send_calls :: "(nat \<Rightarrow> bool) \<Rightarrow> nat \<Rightarrow> nat \<Rightarrow> bool" where
  "send_calls call i 0 = False"
| "send_calls call i (Suc n) = (if call i then True else send_calls call (i + 1) n)"

text \<open>One round of a task: an empty queue is a sleep; a failed batch is counted and gone.\<close>

definition forward_round :: "int \<Rightarrow> string \<Rightarrow> string \<Rightarrow> (nat \<Rightarrow> bool) \<Rightarrow> 'a lane \<Rightarrow> 'a lane res" where
  "forward_round batch key addr call l =
     (case gget (Queues l) key of
        None \<Rightarrow> nil_deref
      | Some Q \<Rightarrow>
          bind_res (SafeList_PopBackBy batch Q) (\<lambda>(items, Q').
            let count = int (length items); l = l\<lparr>Queues := gput key Q' (Queues l)\<rparr> in
            if count = 0 then Inr l
            else let sendOk = send_calls call 0 3;
                     l = l\<lparr>Calls := Calls l @ [(key, addr, items, sendOk)]\<rparr>
                 in Inr (if sendOk then l\<lparr>SentCnt := SentCnt l + count\<rparr> else l\<lparr>FailCnt := FailCnt l + count\<rparr>)))"

definition forward2JudgeTask :: "transfer_cfg \<Rightarrow> string \<Rightarrow> (nat \<Rightarrow> bool) \<Rightarrow> sender_state \<Rightarrow> sender_state res" where
  "forward2JudgeTask cfg node call s =
     (let addr = (case gget (Judge_Cluster cfg) node of Some a \<Rightarrow> a | None \<Rightarrow> '''') in
      bind_res (forward_round (Judge_Batch cfg) node addr call (JudgeLane s)) (\<lambda>l. Inr (s\<lparr>JudgeLane := l\<rparr>)))"

definition forward2GraphTask :: "transfer_cfg \<Rightarrow> string \<Rightarrow> string \<Rightarrow> (nat \<Rightarrow> bool) \<Rightarrow> sender_state \<Rightarrow> sender_state res" where
  "forward2GraphTask cfg node addr call s =
     bind_res (forward_round (Graph_Batch cfg) (node @ addr) addr call (GraphLane s)) (\<lambda>l. Inr (s\<lparr>GraphLane := l\<rparr>))"

definition forward2PolyTask :: "transfer_cfg \<Rightarrow> string \<Rightarrow> (nat \<Rightarrow> bool) \<Rightarrow> sender_state \<Rightarrow> sender_state res" where
  "forward2PolyTask cfg node call s =
     (let addr = (case gget (Poly_Cluster cfg) node of Some a \<Rightarrow> a | None \<Rightarrow> '''') in
      bind_res (forward_round (Poly_Batch cfg) node addr call (PolyLane s)) (\<lambda>l. Inr (s\<lparr>PolyLane := l\<rparr>)))"

definition calcSendCacheSize :: "(string, 'a list) gomap \<Rightarrow> int" where
  "calcSendCacheSize queues = foldl (\<lambda>cnt (node, Q). cnt + int (length Q)) 0 queues"

section \<open>Facts\<close>

lemma alignTs_pos: "0 < period \<Longrightarrow> alignTs ts period = Inr (ts - ts smod period)"
  by (simp add: alignTs_def go_mod_def)

lemma ring_add_ok_any:
  assumes "ring_add elt c = Inr c'" "ring_ok c"
  shows "ring_ok c' \<and> dom (gget (members c')) = insert elt (dom (gget (members c)))"
proof -
  define m where "m = foldl (\<lambda>m i. gput (murmur3 (eltKey elt i)) elt m) (circle c) [0..<nat (NumberOfReplicas c)]"
  have m: "gget m h = (if h \<in> (\<lambda>i. murmur3 (eltKey elt i)) ` {0..<nat (NumberOfReplicas c)} then Some elt else gget (circle c) h)" for h
    by (simp add: m_def put_replicas)
  have "c' = c\<lparr>circle := m, members := gput elt True (members c), sortedHashes := sort (gkeys m), node_count := node_count c + 1\<rparr>"
    using assms(1) by (simp add: ring_add_def updateSortedHashes_def Let_def m_def split: if_splits)
  moreover have "dom (gget (gput elt True (members c))) = insert elt (dom (gget (members c)))"
    by (simp only: gget_gput dom_fun_upd) simp
  ultimately show ?thesis
    using assms(2) by (simp add: ring_ok_def m) blast
qed

lemma add_nodes_ok_any:
  "add_nodes nodes c = Inr c' \<Longrightarrow> ring_ok c \<Longrightarrow>
    ring_ok c' \<and> dom (gget (members c')) = dom (gget (members c)) \<union> set nodes"
proof (induction nodes arbitrary: c)
  case (Cons n ns)
  then obtain c1 where c1: "ring_add n c = Inr c1" "add_nodes ns c1 = Inr c'" by auto
  from ring_add_ok_any [OF c1(1) Cons.prems(2)] Cons.IH [OF c1(2)] show ?case by simp
qed simp

text \<open>A ring serves a set of nodes: it answers with one of them, or with an error.\<close>

definition serves :: "hash_ring \<Rightarrow> string set \<Rightarrow> bool" where
  "serves c nodes \<longleftrightarrow> (\<forall>pk. case GetNode c pk of Inr n \<Rightarrow> n \<in> nodes | Inl e \<Rightarrow> (\<exists>m. e = Err m))"

lemma new_ring_serves:
  assumes "NewConsistentHashNodesRing replicas nodes = Inr c"
  shows "serves c (set nodes)"
proof -
  have "ring_ok c" "dom (gget (members c)) = set nodes"
    using add_nodes_ok_any [OF assms [unfolded NewConsistentHashNodesRing_def] ring_ok_new]
    by (simp_all add: new_ring_def)
  then show ?thesis
    using GetNode_succ [of c] by (fastforce simp: serves_def GetNode_def split: sum.splits if_splits)
qed

lemma gkeys_KeysOfMap [simp]: "set (KeysOfMap m) = dom (gget m)"
  by (simp add: KeysOfMap_def gkeys_dom [symmetric])

lemma gget_make_queues: "gget (make_queues ks) k = (if k \<in> set ks then Some [] else None)"
proof -
  have "gget (foldl (\<lambda>m k. gput k [] m) m ks) k = (if k \<in> set ks then Some [] else gget m k)" for m :: "(string, 'a list) gomap"
    by (induction ks arbitrary: m) auto
  then show ?thesis by (simp add: make_queues_def)
qed

lemma dom_foldl_put:
  "dom (gget (foldl (\<lambda>r (k, v). gput k (f v) r) m kvs)) = dom (gget m) \<union> fst ` set kvs"
  by (induction kvs arbitrary: m) auto

lemma dom_formatClusterItems: "dom (gget (formatClusterItems m)) = dom (gget m)"
  using dom_foldl_put [of "\<lambda>v. map trim_space (split CHR '','' v)" "[]" m]
  by (simp add: formatClusterItems_def dom_map_of_conv_image_fst split_def)

text \<open>What starting establishes and every operation keeps.\<close>

definition good_lane :: "string set \<Rightarrow> 'a lane \<Rightarrow> bool" where
  "good_lane keys l \<longleftrightarrow> (\<forall>k \<in> keys. \<exists>Q. gget (Queues l) k = Some Q) \<and>
     (\<forall>k Q. gget (Queues l) k = Some Q \<longrightarrow> int (length Q) \<le> DefaultSendQueueMaxSize)"

definition good_sender :: "transfer_cfg \<Rightarrow> sender_state \<Rightarrow> bool" where
  "good_sender cfg s \<longleftrightarrow> 1 \<le> MinStep s \<and>
     serves (JudgeNodeRing s) (dom (gget (Judge_Cluster cfg))) \<and>
     serves (GraphNodeRing s) (dom (gget (Graph_Cluster cfg))) \<and>
     serves (PolyNodeRing s) (dom (gget (Poly_Cluster cfg))) \<and>
     good_lane (dom (gget (Judge_Cluster cfg))) (JudgeLane s) \<and>
     good_lane (set (graph_queue_keys cfg)) (GraphLane s) \<and>
     good_lane (dom (gget (Poly_Cluster cfg))) (PolyLane s) \<and>
     (Tsdb_Enabled cfg \<longrightarrow> TsdbQueue s \<noteq> None) \<and>
     (\<forall>Q. TsdbQueue s = Some Q \<longrightarrow> int (length Q) \<le> DefaultSendQueueMaxSize)"

lemma good_lane_empty: "set ks = A \<Longrightarrow> good_lane A (empty_lane\<lparr>Queues := make_queues ks\<rparr>)"
  by (auto simp: good_lane_def gget_make_queues DefaultSendQueueMaxSize_def split: if_splits)

lemma good_sender_Start:
  assumes "Start cfg = Inr s"
  shows "good_sender cfg s"
proof -
  obtain jr pr gr where r: "NewConsistentHashNodesRing (Judge_Replicas cfg) (KeysOfMap (Judge_Cluster cfg)) = Inr jr"
      "NewConsistentHashNodesRing (Poly_Replicas cfg) (KeysOfMap (Poly_Cluster cfg)) = Inr pr"
      "NewConsistentHashNodesRing (Graph_Replicas cfg) (KeysOfMap (Graph_Cluster cfg)) = Inr gr"
    and s: "s = (initSendQueues cfg (initial_sender\<lparr>MinStep := if cfg_MinStep cfg < 1 then 30 else cfg_MinStep cfg\<rparr>))
      \<lparr>JudgeNodeRing := jr, PolyNodeRing := pr, GraphNodeRing := gr, KafkaSenderRuns := True\<rparr>"
    using assms by (auto simp: Start_def initNodeRings_def Let_def)
  have keys: "set (gkeys m) = dom (gget m)" for m :: "(string, string) gomap" by (rule gkeys_dom)
  show ?thesis
    unfolding good_sender_def s
    using new_ring_serves [OF r(1)] new_ring_serves [OF r(2)] new_ring_serves [OF r(3)]
    by (simp add: initSendQueues_def initial_sender_def good_lane_empty gkeys_dom DefaultSendQueueMaxSize_def del: set_map)
qed

text \<open>A push on a queue that is there puts the value behind what waits, or refuses it and is counted.\<close>

lemma lane_push_ok:
  assumes "good_lane keys l" "key \<in> keys"
  obtains ok Q where "gget (Queues l) key = Some Q"
    "lane_push key v l = Inr (ok, l\<lparr>Queues := gput key (if ok then v # Q else Q) (Queues l)\<rparr>)"
    "ok \<longleftrightarrow> int (length Q) < DefaultSendQueueMaxSize"
    "good_lane keys (l\<lparr>Queues := gput key (if ok then v # Q else Q) (Queues l)\<rparr>)"
proof -
  obtain Q where Q: "gget (Queues l) key = Some Q" using assms by (auto simp: good_lane_def)
  define ok where "ok = (int (length Q) < DefaultSendQueueMaxSize)"
  have "lane_push key v l = Inr (ok, l\<lparr>Queues := gput key (if ok then v # Q else Q) (Queues l)\<rparr>)"
    by (simp add: lane_push_def Q SafeListLimited_PushFront_def SafeList_PushFront_def ok_def)
  moreover have "good_lane keys (l\<lparr>Queues := gput key (if ok then v # Q else Q) (Queues l)\<rparr>)"
    using assms(1) Q by (auto simp: good_lane_def ok_def split: if_splits)
  ultimately show ?thesis using that Q ok_def by blast
qed

lemma good_lane_cnt [simp]:
  "good_lane keys (l\<lparr>DropCnt := n\<rparr>) = good_lane keys l"
  "good_lane keys (l\<lparr>SentCnt := n\<rparr>) = good_lane keys l"
  "good_lane keys (l\<lparr>FailCnt := n\<rparr>) = good_lane keys l"
  "good_lane keys (l\<lparr>Calls := c\<rparr>) = good_lane keys l"
  by (simp_all add: good_lane_def)

lemma push_or_drop_ok:
  assumes "good_lane keys l" "key \<in> keys"
  shows "\<exists>l'. push_or_drop key v l = Inr l' \<and> good_lane keys l'"
proof -
  obtain ok l1 where "lane_push key v l = Inr (ok, l1)" "good_lane keys l1"
    using lane_push_ok [OF assms, of v] by metis
  then show ?thesis by (simp add: push_or_drop_def)
qed

lemma push_copies_ok:
  "good_lane keys l \<Longrightarrow> \<forall>a \<in> set addrs. node @ a \<in> keys \<Longrightarrow>
    \<exists>n l'. push_copies node addrs it errCnt l = Inr (n, l') \<and> good_lane keys l'"
proof (induction addrs arbitrary: errCnt l)
  case (Cons a addrs)
  have "node @ a \<in> keys" using Cons.prems(2) by simp
  from lane_push_ok [OF Cons.prems(1) this, of it] obtain ok l1 where
    "lane_push (node @ a) it l = Inr (ok, l1)" "good_lane keys l1" by metis
  then show ?case using Cons.IH [of l1] Cons.prems(2) by simp
qed simp

text \<open>The three converters cannot fail on the time stamp once the minimal step is positive.\<close>

lemma convert2JudgeItem_eq:
  "1 \<le> ms \<Longrightarrow> convert2JudgeItem ms d = Inr
     \<lparr>ji_Endpoint = md_Endpoint d, ji_Metric = md_Metric d, ji_Value = md_Value d,
      ji_Timestamp = md_Timestamp d - md_Timestamp d smod (max ms (md_Step d)),
      ji_JudgeType = md_CounterType d, ji_Tags = md_Tags d\<rparr>"
  by (auto simp: convert2JudgeItem_def alignTs_pos max_def)

lemma convert2GraphItem_cases:
  assumes "1 \<le> ms"
  shows "case ds_type (md_CounterType d) of
      Inl e \<Rightarrow> convert2GraphItem ms d = Inl e \<and> (\<exists>m. e = Err m)
    | Inr (dsType, mn, mx) \<Rightarrow> convert2GraphItem ms d = Inr
       \<lparr>gi_Endpoint = md_Endpoint d, gi_Metric = md_Metric d, gi_Tags = md_Tags d, gi_Value = md_Value d,
        gi_Timestamp = md_Timestamp d - md_Timestamp d smod (max ms (md_Step d)), gi_DsType = dsType,
        gi_Step = max ms (md_Step d), gi_Heartbeat = i64 (max ms (md_Step d) * 2), gi_Min = mn, gi_Max = mx\<rparr>"
  using assms by (simp add: convert2GraphItem_def ds_type_def alignTs_pos max_def Let_def)

lemma serves_cases:
  assumes "serves ring nodes"
  obtains n where "n \<in> nodes" "GetNode ring pk = Inr n" | m where "GetNode ring pk = Inl (Err m)"
proof -
  have "case GetNode ring pk of Inr n \<Rightarrow> n \<in> nodes | Inl e \<Rightarrow> (\<exists>m. e = Err m)"
    using assms unfolding serves_def by blast
  then show ?thesis using that by (auto split: sum.splits)
qed

lemma push_judge_ok:
  assumes "good_sender cfg s"
  shows "\<exists>s'. push_judge item s = Inr s' \<and> good_sender cfg s'"
proof -
  have s: "1 \<le> MinStep s" "serves (JudgeNodeRing s) (dom (gget (Judge_Cluster cfg)))"
      "good_lane (dom (gget (Judge_Cluster cfg))) (JudgeLane s)"
    using assms by (simp_all add: good_sender_def)
  show ?thesis
  proof (cases rule: serves_cases [OF s(2), of "MetaData_PK item"])
    case n: (1 n)
    obtain it where "convert2JudgeItem (MinStep s) item = Inr it" using convert2JudgeItem_eq [OF s(1)] by blast
    moreover obtain l' where "push_or_drop n it (JudgeLane s) = Inr l'" "good_lane (dom (gget (Judge_Cluster cfg))) l'"
      using push_or_drop_ok [OF s(3) n(1)] by blast
    ultimately show ?thesis using assms n(2) by (simp add: push_judge_def on_node_def good_sender_def)
  qed (use assms in \<open>simp add: push_judge_def on_node_def\<close>)
qed

lemma push_poly_ok:
  assumes "good_sender cfg s"
  shows "\<exists>s'. push_poly item s = Inr s' \<and> good_sender cfg s'"
proof -
  have s: "serves (PolyNodeRing s) (dom (gget (Poly_Cluster cfg)))"
      "good_lane (dom (gget (Poly_Cluster cfg))) (PolyLane s)"
    using assms by (simp_all add: good_sender_def)
  show ?thesis
  proof (cases rule: serves_cases [OF s(1), of "pq_PolyName item"])
    case n: (1 n)
    obtain l' where "push_or_drop n item (PolyLane s) = Inr l'" "good_lane (dom (gget (Poly_Cluster cfg))) l'"
      using push_or_drop_ok [OF s(2) n(1)] by blast
    then show ?thesis using assms n(2) by (simp add: push_poly_def on_node_def good_sender_def)
  qed (use assms in \<open>simp add: push_poly_def on_node_def\<close>)
qed

lemma graph_queue_keys_mem:
  assumes "gget (formatClusterItems (Graph_Cluster cfg)) node = Some addrs" "addr \<in> set addrs"
  shows "node @ addr \<in> set (graph_queue_keys cfg)"
proof -
  have "(node, addrs) \<in> set (formatClusterItems (Graph_Cluster cfg))" using assms(1) by (rule map_of_SomeD)
  then show ?thesis using assms(2) by (force simp: graph_queue_keys_def)
qed

lemma push_graph_ok:
  assumes "good_sender cfg s"
  shows "\<exists>s'. push_graph cfg item s = Inr s' \<and> good_sender cfg s'"
proof -
  have s: "1 \<le> MinStep s" "serves (GraphNodeRing s) (dom (gget (Graph_Cluster cfg)))"
      "good_lane (set (graph_queue_keys cfg)) (GraphLane s)"
    using assms by (simp_all add: good_sender_def)
  show ?thesis
  proof (cases "convert2GraphItem (MinStep s) item")
    case (Inl e)
    then obtain m where "e = Err m"
      using convert2GraphItem_cases [OF s(1), of item] by (auto split: sum.splits)
    then show ?thesis using assms Inl by (simp add: push_graph_def)
  next
    case (Inr it)
    show ?thesis
    proof (cases rule: serves_cases [OF s(2), of "MetaData_PK item"])
      case n: (1 n)
      then obtain addrs where addrs: "gget (formatClusterItems (Graph_Cluster cfg)) n = Some addrs"
        using dom_formatClusterItems [of "Graph_Cluster cfg"] by blast
      then have "\<forall>a \<in> set addrs. n @ a \<in> set (graph_queue_keys cfg)" using graph_queue_keys_mem by blast
      from push_copies_ok [OF s(3) this, of it 0] obtain k l' where
        "push_copies n addrs it 0 (GraphLane s) = Inr (k, l')" "good_lane (set (graph_queue_keys cfg)) l'" by blast
      then show ?thesis using assms n(2) addrs Inr by (simp add: push_graph_def on_node_def good_sender_def)
    qed (use assms Inr in \<open>simp add: push_graph_def on_node_def\<close>)
  qed
qed

lemma Push2_ok:
  "good_sender cfg s \<Longrightarrow> \<exists>s'. Push2JudgeSendQueue items s = Inr s' \<and> good_sender cfg s'"
  "good_sender cfg s \<Longrightarrow> \<exists>s'. Push2GraphSendQueue cfg items s = Inr s' \<and> good_sender cfg s'"
  "good_sender cfg s \<Longrightarrow> \<exists>s'. Push2PolySendQueue polys s = Inr s' \<and> good_sender cfg s'"
proof -
  show "good_sender cfg s \<Longrightarrow> \<exists>s'. Push2JudgeSendQueue items s = Inr s' \<and> good_sender cfg s'"
  proof (induction items arbitrary: s)
    case (Cons it items)
    then show ?case using push_judge_ok [OF Cons.prems, of it] by auto
  qed simp
  show "good_sender cfg s \<Longrightarrow> \<exists>s'. Push2GraphSendQueue cfg items s = Inr s' \<and> good_sender cfg s'"
  proof (induction items arbitrary: s)
    case (Cons it items)
    then show ?case using push_graph_ok [OF Cons.prems, of it] by auto
  qed simp
  show "good_sender cfg s \<Longrightarrow> \<exists>s'. Push2PolySendQueue polys s = Inr s' \<and> good_sender cfg s'"
  proof (induction polys arbitrary: s)
    case (Cons it items)
    then show ?case using push_poly_ok [OF Cons.prems, of it] by auto
  qed simp
qed

lemma Push2Tsdb_ok:
  "good_sender cfg s \<Longrightarrow> TsdbQueue s \<noteq> None \<Longrightarrow> \<exists>s'. Push2TsdbSendQueue items s = Inr s' \<and> good_sender cfg s'"
proof (induction items arbitrary: s)
  case (Cons it items)
  obtain Q where Q: "TsdbQueue s = Some Q" using Cons.prems(2) by blast
  define v where "v = convert2TsdbItem it"
  have len: "int (length Q) \<le> DefaultSendQueueMaxSize" using Cons.prems(1) Q by (simp add: good_sender_def)
  define s1 where "s1 = (if DefaultSendQueueMaxSize \<le> int (length Q)
      then s\<lparr>TsdbQueue := Some Q, TsdbDropCnt := TsdbDropCnt s + 1\<rparr> else s\<lparr>TsdbQueue := Some (v # Q)\<rparr>)"
  have "good_sender cfg s1" "TsdbQueue s1 \<noteq> None"
    using Cons.prems len Q by (simp_all add: s1_def good_sender_def)
  moreover have "Push2TsdbSendQueue (it # items) s = Push2TsdbSendQueue items s1"
    using Q by (simp add: Let_def SafeListLimited_PushFront_def SafeList_PushFront_def s1_def v_def)
  ultimately show ?case using Cons.IH [of s1] by simp
qed simp

lemma forward_round_ok:
  assumes "good_lane keys l" "key \<in> keys" "0 \<le> batch"
  obtains Q items l' where "gget (Queues l) key = Some Q" "items = take (nat batch) (rev Q)"
    "forward_round batch key addr call l = Inr l'" "good_lane keys l'"
    "gget (Queues l') = (gget (Queues l))(key \<mapsto> take (length Q - nat batch) Q)"
    "Calls l' = Calls l @ (if items = [] then [] else [(key, addr, items, \<exists>i < 3. call i)])"
    "DropCnt l' = DropCnt l" "SentCnt l' + FailCnt l' = SentCnt l + FailCnt l + int (length items)"
proof -
  obtain Q where Q: "gget (Queues l) key = Some Q" using assms by (auto simp: good_lane_def)
  define items where "items = take (nat batch) (rev Q)"
  have "int (length Q) \<le> DefaultSendQueueMaxSize" using assms(1) Q by (simp add: good_lane_def)
  then have good_len: "int (length (take (length Q - nat batch) Q)) \<le> DefaultSendQueueMaxSize" by simp
  define l1 where "l1 = l\<lparr>Queues := gput key (take (length Q - nat batch) Q) (Queues l)\<rparr>"
  have three: "send_calls call 0 3 = (\<exists>i < 3. call i)" by (auto simp: numeral_3_eq_3 Ex_less_Suc)
  have l1: "good_lane keys l1" "gget (Queues l1) = (gget (Queues l))(key \<mapsto> take (length Q - nat batch) Q)"
  proof -
    have q: "Queues l1 = gput key (take (length Q - nat batch) Q) (Queues l)" by (simp add: l1_def)
    show "gget (Queues l1) = (gget (Queues l))(key \<mapsto> take (length Q - nat batch) Q)" by (simp only: q gget_gput)
    show "good_lane keys l1" using assms(1) Q good_len by (simp add: good_lane_def l1_def)
  qed
  define l' where "l' = (if items = [] then l1 else
      (if \<exists>i < 3. call i then l1\<lparr>SentCnt := SentCnt l + int (length items), Calls := Calls l @ [(key, addr, items, True)]\<rparr>
       else l1\<lparr>FailCnt := FailCnt l + int (length items), Calls := Calls l @ [(key, addr, items, False)]\<rparr>))"
  have "forward_round batch key addr call l = Inr l'"
    by (auto simp: forward_round_def Q PopBackBy_eq [OF assms(3)] Let_def items_def [symmetric] three l'_def l1_def)
  moreover have "good_lane keys l'" using l1(1) by (simp add: l'_def)
  moreover have "gget (Queues l') = (gget (Queues l))(key \<mapsto> take (length Q - nat batch) Q)"
  proof -
    have "Queues l' = Queues l1" by (simp add: l'_def)
    then show ?thesis using l1(2) by (simp only:)
  qed
  moreover have "Calls l' = Calls l @ (if items = [] then [] else [(key, addr, items, \<exists>i < 3. call i)])"
    "DropCnt l' = DropCnt l" "SentCnt l' + FailCnt l' = SentCnt l + FailCnt l + int (length items)"
    by (simp_all add: l'_def l1_def)
  ultimately show ?thesis using that Q items_def by blast
qed

lemma forward_round_good:
  assumes "good_lane keys l" "key \<in> keys" "0 \<le> batch"
  shows "\<exists>l'. forward_round batch key addr call l = Inr l' \<and> good_lane keys l'"
  by (rule forward_round_ok [OF assms, of addr call]) blast

section \<open>Schedules\<close>

text \<open>
  The steps of a lane, in any order: a value offered to a queue, or a round of the task of a queue.
  A panic ends the run.
\<close>

type_synonym 'a lane_op = "string \<times> ('a + string \<times> (nat \<Rightarrow> bool))"

fun lane_do :: "int \<Rightarrow> 'a lane_op \<Rightarrow> 'a lane \<Rightarrow> 'a lane res" where
  "lane_do batch (key, Inl v) l = push_or_drop key v l"
| "lane_do batch (key, Inr (addr, call)) l = forward_round batch key addr call l"

fun lane_run :: "int \<Rightarrow> 'a lane_op list \<Rightarrow> 'a lane \<Rightarrow> 'a lane res" where
  "lane_run batch [] l = Inr l"
| "lane_run batch (op # ops) l = bind_res (lane_do batch op l) (lane_run batch ops)"

fun offered :: "string \<Rightarrow> 'a lane_op list \<Rightarrow> 'a list" where
  "offered key [] = []"
| "offered key ((k, Inl v) # ops) = (if k = key then v # offered key ops else offered key ops)"
| "offered key ((k, Inr r) # ops) = offered key ops"

text \<open>The batches a queue's task has sent, one after the other.\<close>

definition taken :: "string \<Rightarrow> (string \<times> string \<times> 'a list \<times> bool) list \<Rightarrow> 'a list" where
  "taken key calls = concat (map (\<lambda>(k, addr, items, ok). if k = key then items else []) calls)"

lemma taken_append [simp]: "taken key (a @ b) = taken key a @ taken key b" "taken key [] = []"
  by (simp_all add: taken_def)

text \<open>One queue of the lane, as a queue of the library.\<close>

fun queue_ops :: "int \<Rightarrow> string \<Rightarrow> 'a lane_op list \<Rightarrow> ('a + nat) list" where
  "queue_ops batch key [] = []"
| "queue_ops batch key ((k, Inl v) # ops) = (if k = key then Inl v # queue_ops batch key ops else queue_ops batch key ops)"
| "queue_ops batch key ((k, Inr r) # ops) =
     (if k = key then Inr (nat batch) # queue_ops batch key ops else queue_ops batch key ops)"

definition lane_agrees :: "int \<Rightarrow> string \<Rightarrow> 'a lane_op list \<Rightarrow> 'a list \<Rightarrow> 'a lane \<Rightarrow> 'a lane \<Rightarrow> bool" where
  "lane_agrees batch key ops Q l l' \<longleftrightarrow>
     (\<exists>Q' acc new. sl.run DefaultSendQueueMaxSize (queue_ops batch key ops) Q = (acc, taken key new, Q') \<and>
        gget (Queues l') key = Some Q' \<and> Calls l' = Calls l @ new \<and>
        subseq acc (offered key ops) \<and> int (length (offered key ops) - length acc) \<le> DropCnt l' - DropCnt l)"

lemma lane_run_agrees:
  assumes "good_lane keys l" "fst ` set ops \<subseteq> keys" "0 \<le> batch" "gget (Queues l) key = Some Q"
  shows "\<exists>l'. lane_run batch ops l = Inr l' \<and> good_lane keys l' \<and> lane_agrees batch key ops Q l l'"
  using assms(1,2,4)
proof (induction ops arbitrary: l Q)
  case Nil
  then show ?case by (simp add: lane_agrees_def exI [of _ "[]"])
next
  case (Cons op ops)
  obtain k r where op: "op = (k, r)" by force
  have k: "k \<in> keys" "fst ` set ops \<subseteq> keys" using Cons.prems(2) op by simp_all
  show ?case
  proof (cases r)
    case (Inl v)
    obtain ok Qk where Qk: "gget (Queues l) k = Some Qk"
      and push: "lane_push k v l = Inr (ok, l\<lparr>Queues := gput k (if ok then v # Qk else Qk) (Queues l)\<rparr>)"
      and ok: "ok \<longleftrightarrow> int (length Qk) < DefaultSendQueueMaxSize"
      and good: "good_lane keys (l\<lparr>Queues := gput k (if ok then v # Qk else Qk) (Queues l)\<rparr>)"
      using lane_push_ok [OF Cons.prems(1) k(1), of v] by blast
    define l1 where "l1 = (let l1 = l\<lparr>Queues := gput k (if ok then v # Qk else Qk) (Queues l)\<rparr>
        in if ok then l1 else l1\<lparr>DropCnt := DropCnt l + 1\<rparr>)"
    define Q1 where "Q1 = (if k = key then if ok then v # Qk else Qk else Q)"
    have do_op: "lane_do batch op l = Inr l1"
      using push by (simp add: op Inl push_or_drop_def l1_def Let_def)
    have "good_lane keys l1" using good by (cases ok) (simp_all add: l1_def Let_def)
    moreover have "gget (Queues l1) key = Some Q1"
      using Cons.prems(3) Qk by (simp add: l1_def Let_def Q1_def)
    ultimately obtain l' where l': "lane_run batch ops l1 = Inr l'" "good_lane keys l'" "lane_agrees batch key ops Q1 l1 l'"
      using Cons.IH k(2) by blast
    have "lane_agrees batch key (op # ops) Q l l'"
    proof -
      obtain Q' acc new where r': "sl.run DefaultSendQueueMaxSize (queue_ops batch key ops) Q1 = (acc, taken key new, Q')"
          "gget (Queues l') key = Some Q'" "Calls l' = Calls l1 @ new"
          "subseq acc (offered key ops)" "int (length (offered key ops) - length acc) \<le> DropCnt l' - DropCnt l1"
        using l'(3) by (auto simp: lane_agrees_def)
      have calls: "Calls l1 = Calls l" by (simp add: l1_def Let_def)
      show ?thesis
      proof (cases "k = key \<and> ok")
        case True
        then have "sl.run DefaultSendQueueMaxSize (queue_ops batch key (op # ops)) Q = (v # acc, taken key new, Q')"
          using r'(1) Cons.prems(3) Qk ok
          by (simp add: op Inl Q1_def SafeListLimited_PushFront_def SafeList_PushFront_def)
        moreover have "DropCnt l1 = DropCnt l" using True by (simp add: l1_def Let_def)
        ultimately show ?thesis
          using r' calls True by (auto simp: lane_agrees_def op Inl)
      next
        case False
        have run: "sl.run DefaultSendQueueMaxSize (queue_ops batch key (op # ops)) Q = (acc, taken key new, Q')"
        proof (cases "k = key")
          case True
          then have "\<not> ok" "Q = Qk" "Q1 = Qk" using False Qk Cons.prems(3) by (simp_all add: Q1_def)
          moreover have "DefaultSendQueueMaxSize \<le> int (length Qk)" using ok \<open>\<not> ok\<close> by simp
          ultimately show ?thesis
            using r'(1) True by (simp add: op Inl SafeListLimited_PushFront_def)
        next
          case False
          then show ?thesis using r'(1) by (simp add: op Inl Q1_def)
        qed
        moreover have "subseq acc (offered key (op # ops))" using r'(4) by (auto simp: op Inl)
        moreover have "int (length (offered key (op # ops)) - length acc) \<le> DropCnt l' - DropCnt l"
          using r'(5) False by (auto simp: op Inl l1_def Let_def split: if_splits)
        ultimately show ?thesis
          using r'(2,3) calls run unfolding lane_agrees_def by auto
      qed
    qed
    then show ?thesis using l'(1,2) do_op by simp
  next
    case (Inr ac)
    obtain addr call where ac: "ac = (addr, call)" by force
    obtain Qk items l1 where Qk: "gget (Queues l) k = Some Qk"
      and items: "items = take (nat batch) (rev Qk)"
      and fwd: "forward_round batch k addr call l = Inr l1"
      and good: "good_lane keys l1"
      and queues: "gget (Queues l1) = (gget (Queues l))(k \<mapsto> take (length Qk - nat batch) Qk)"
      and calls: "Calls l1 = Calls l @ (if items = [] then [] else [(k, addr, items, \<exists>i < 3. call i)])"
      and drop: "DropCnt l1 = DropCnt l"
      and sent: "SentCnt l1 + FailCnt l1 = SentCnt l + FailCnt l + int (length items)"
      by (rule forward_round_ok [OF Cons.prems(1) k(1) assms(3), of addr call])
    define Q1 where "Q1 = (if k = key then take (length Qk - nat batch) Qk else Q)"
    have "gget (Queues l1) key = Some Q1" using Cons.prems(3) by (simp add: queues Q1_def)
    then obtain l' where l': "lane_run batch ops l1 = Inr l'" "good_lane keys l'" "lane_agrees batch key ops Q1 l1 l'"
      using Cons.IH [OF good k(2)] by blast
    obtain Q' acc new where r': "sl.run DefaultSendQueueMaxSize (queue_ops batch key ops) Q1 = (acc, taken key new, Q')"
        "gget (Queues l') key = Some Q'" "Calls l' = Calls l1 @ new"
        "subseq acc (offered key ops)" "int (length (offered key ops) - length acc) \<le> DropCnt l' - DropCnt l1"
      using l'(3) by (auto simp: lane_agrees_def)
    define new1 where "new1 = (if items = [] then [] else [(k, addr, items, \<exists>i < 3. call i)])"
    have "sl.run DefaultSendQueueMaxSize (queue_ops batch key (op # ops)) Q = (acc, taken key (new1 @ new), Q')"
    proof (cases "k = key")
      case True
      then have "taken key new1 = items" "Q = Qk" using Qk Cons.prems(3) by (simp_all add: new1_def taken_def)
      then show ?thesis using r'(1) True by (simp add: op Inr Q1_def pop_n_eq items)
    next
      case False
      then have "taken key new1 = []" by (simp add: new1_def taken_def)
      then show ?thesis using r'(1) False by (simp add: op Inr Q1_def)
    qed
    moreover have "Calls l' = Calls l @ (new1 @ new)" using r'(3) calls by (simp add: new1_def)
    ultimately have "lane_agrees batch key (op # ops) Q l l'"
      using r'(2,4,5) drop unfolding lane_agrees_def by (auto simp: op Inr)
    then show ?thesis using l'(1,2) fwd by (simp add: op Inr ac)
  qed
qed

section \<open>Properties\<close>



text \<open>What transfer does with its queues: a received batch, and the rounds of the tasks.\<close>

datatype sender_step =
    Offer "meta_data list" "poly_request list"
  | ToJudge string "nat \<Rightarrow> bool"
  | ToGraph string string "nat \<Rightarrow> bool"
  | ToPoly string "nat \<Rightarrow> bool"

fun sender_do :: "transfer_cfg \<Rightarrow> sender_step \<Rightarrow> sender_state \<Rightarrow> sender_state res" where
  "sender_do cfg (Offer items polys) s =
     bind_res (Push2GraphSendQueue cfg items s) (\<lambda>s.
     bind_res (Push2JudgeSendQueue items s) (Push2PolySendQueue polys))"
| "sender_do cfg (ToJudge node call) s = forward2JudgeTask cfg node call s"
| "sender_do cfg (ToGraph node addr call) s = forward2GraphTask cfg node addr call s"
| "sender_do cfg (ToPoly node call) s = forward2PolyTask cfg node call s"

fun sender_run :: "transfer_cfg \<Rightarrow> sender_step list \<Rightarrow> sender_state \<Rightarrow> sender_state res" where
  "sender_run cfg [] s = Inr s"
| "sender_run cfg (st # sts) s = bind_res (sender_do cfg st s) (sender_run cfg sts)"

text \<open>The tasks that \<open>startSendTasks\<close> starts: one for each queue.\<close>

fun task_of :: "transfer_cfg \<Rightarrow> sender_step \<Rightarrow> bool" where
  "task_of cfg (Offer items polys) = True"
| "task_of cfg (ToJudge node call) = (node \<in> dom (gget (Judge_Cluster cfg)))"
| "task_of cfg (ToGraph node addr call) = (node @ addr \<in> set (graph_queue_keys cfg))"
| "task_of cfg (ToPoly node call) = (node \<in> dom (gget (Poly_Cluster cfg)))"

definition good_batches :: "transfer_cfg \<Rightarrow> bool" where
  "good_batches cfg \<longleftrightarrow> 0 \<le> Judge_Batch cfg \<and> 0 \<le> Graph_Batch cfg \<and> 0 \<le> Poly_Batch cfg"

lemma sender_do_ok:
  assumes "good_sender cfg s" "task_of cfg st" "good_batches cfg"
  shows "\<exists>s'. sender_do cfg st s = Inr s' \<and> good_sender cfg s'"
proof (cases st)
  case (Offer items polys)
  obtain s1 where s1: "Push2GraphSendQueue cfg items s = Inr s1" "good_sender cfg s1" using Push2_ok(2) [OF assms(1)] by blast
  obtain s2 where s2: "Push2JudgeSendQueue items s1 = Inr s2" "good_sender cfg s2" using Push2_ok(1) [OF s1(2)] by blast
  obtain s3 where "Push2PolySendQueue polys s2 = Inr s3" "good_sender cfg s3" using Push2_ok(3) [OF s2(2)] by blast
  then show ?thesis using s1 s2 Offer by simp
next
  case (ToJudge node call)
  have l: "good_lane (dom (gget (Judge_Cluster cfg))) (JudgeLane s)" "node \<in> dom (gget (Judge_Cluster cfg))" "0 \<le> Judge_Batch cfg"
    using assms ToJudge by (simp_all add: good_sender_def good_batches_def)
  obtain l' where "forward_round (Judge_Batch cfg) node (case gget (Judge_Cluster cfg) node of Some a \<Rightarrow> a | None \<Rightarrow> '''')
      call (JudgeLane s) = Inr l'" "good_lane (dom (gget (Judge_Cluster cfg))) l'"
    using forward_round_good [OF l] by blast
  then show ?thesis using assms(1) ToJudge by (simp add: forward2JudgeTask_def Let_def good_sender_def)
next
  case (ToGraph node addr call)
  have l: "good_lane (set (graph_queue_keys cfg)) (GraphLane s)" "node @ addr \<in> set (graph_queue_keys cfg)" "0 \<le> Graph_Batch cfg"
    using assms ToGraph by (simp_all add: good_sender_def good_batches_def)
  obtain l' where "forward_round (Graph_Batch cfg) (node @ addr) addr call (GraphLane s) = Inr l'"
      "good_lane (set (graph_queue_keys cfg)) l'"
    using forward_round_good [OF l] by blast
  then show ?thesis using assms(1) ToGraph by (simp add: forward2GraphTask_def good_sender_def)
next
  case (ToPoly node call)
  have l: "good_lane (dom (gget (Poly_Cluster cfg))) (PolyLane s)" "node \<in> dom (gget (Poly_Cluster cfg))" "0 \<le> Poly_Batch cfg"
    using assms ToPoly by (simp_all add: good_sender_def good_batches_def)
  obtain l' where "forward_round (Poly_Batch cfg) node (case gget (Poly_Cluster cfg) node of Some a \<Rightarrow> a | None \<Rightarrow> '''')
      call (PolyLane s) = Inr l'" "good_lane (dom (gget (Poly_Cluster cfg))) l'"
    using forward_round_good [OF l] by blast
  then show ?thesis using assms(1) ToPoly by (simp add: forward2PolyTask_def Let_def good_sender_def)
qed

text \<open>
  C17: The sender never panics. After a start that succeeds, with batch sizes that are not negative, no
  sequence of received batches and task rounds meets a nil queue, a missing node or a division by
  zero, whatever the samples are; and all queues keep within their bound.
\<close>

theorem sender_total:
  assumes "Start cfg = Inr s" "good_batches cfg" "list_all (task_of cfg) steps"
  shows "\<exists>s'. sender_run cfg steps s = Inr s' \<and> good_sender cfg s'"
proof -
  have "good_sender cfg s \<Longrightarrow> \<exists>s'. sender_run cfg steps s = Inr s' \<and> good_sender cfg s'"
    using assms(3)
  proof (induction steps arbitrary: s)
    case (Cons st sts)
    then obtain s1 where "sender_do cfg st s = Inr s1" "good_sender cfg s1"
      using sender_do_ok [OF Cons.prems(1) _ assms(2), of st] by auto
    then show ?case using Cons.IH [of s1] Cons.prems(2) by simp
  qed simp
  then show ?thesis using good_sender_Start [OF assms(1)] by blast
qed

definition demo_transfer :: transfer_cfg where
  "demo_transfer = \<lparr>cfg_MinStep = 30,
     Judge_Enabled = True, Judge_Batch = 200, Judge_Replicas = 500, Judge_Cluster = [(''judge-00'', ''127.0.0.1:6080'')],
     Graph_Enabled = True, Graph_Batch = 200, Graph_Replicas = 500, Graph_Cluster = [(''graph-00'', ''127.0.0.1:6070, 127.0.0.2:6070'')],
     Poly_Enabled = False, Poly_Batch = 200, Poly_Replicas = 500, Poly_Cluster = [],
     Tsdb_Enabled = False, Kafka_Enabled = False, Kafka_DatabusChannel = [], Prome_Enabled = False\<rparr>"

definition demo_sample :: "string \<Rightarrow> int \<Rightarrow> meta_data" where
  "demo_sample type ts = \<lparr>md_Metric = ''cpu.idle'', md_Endpoint = ''h1'', md_Timestamp = ts, md_Step = 60,
     md_Value = fint 7, md_CounterType = type, md_Tags = []\<rparr>"

lemma demo_Start: "\<exists>s. Start demo_transfer = Inr s"
proof -
  have ring: "\<exists>c. NewConsistentHashNodesRing 500 nodes = Inr c" for nodes
    using add_nodes_ok [OF ring_ok_new, of 500 nodes] by (auto simp: NewConsistentHashNodesRing_def new_ring_def)
  obtain c1 c2 c3 where "NewConsistentHashNodesRing 500 (KeysOfMap (Judge_Cluster demo_transfer)) = Inr c1"
    "NewConsistentHashNodesRing 500 (KeysOfMap (Poly_Cluster demo_transfer)) = Inr c2"
    "NewConsistentHashNodesRing 500 (KeysOfMap (Graph_Cluster demo_transfer)) = Inr c3"
    using ring by metis
  then show ?thesis by (simp add: Start_def initNodeRings_def Let_def demo_transfer_def)
qed

theorem sender_total_witness:
  "\<exists>s s'. Start demo_transfer = Inr s \<and>
     sender_run demo_transfer [Offer [demo_sample ''GAUGE'' 65] [], ToJudge ''judge-00'' (\<lambda>i. False)] s = Inr s'"
proof -
  obtain s where s: "Start demo_transfer = Inr s" using demo_Start by blast
  have "\<exists>s'. sender_run demo_transfer [Offer [demo_sample ''GAUGE'' 65] [], ToJudge ''judge-00'' (\<lambda>i. False)] s = Inr s' \<and>
     good_sender demo_transfer s'"
    by (rule sender_total [OF s]) (simp_all add: good_batches_def demo_transfer_def)
  with s show ?thesis by blast
qed

text \<open>
  C40: Graph and judge get the same sample. With a positive minimal step, a sample of a known type
  becomes a graph item and a judge item with the value of the sample, the same time stamp and the key
  of the sample; the step of the graph item is at least the minimum, divides the time stamp, and the
  time stamp is the last multiple not after the time of the sample; rates are stored as DERIVE with
  lower bound 0. A sample of any other type is an error for graph.
\<close>

theorem samples_agree:
  assumes "1 \<le> minStep" "0 \<le> md_Timestamp d"
  shows "if md_CounterType d \<in> {''GAUGE'', ''COUNTER'', ''DERIVE''}
    then \<exists>g j. convert2GraphItem minStep d = Inr g \<and> convert2JudgeItem minStep d = Inr j \<and>
      gi_Value g = md_Value d \<and> ji_Value j = md_Value d \<and> gi_Timestamp g = ji_Timestamp j \<and>
      GraphItem_PrimaryKey g = MetaData_PK d \<and> JudgeItem_PrimaryKey j = GraphItem_Checksum g \<and>
      minStep \<le> gi_Step g \<and> md_Step d \<le> gi_Step g \<and> gi_Step g dvd gi_Timestamp g \<and>
      gi_Timestamp g \<le> md_Timestamp d \<and> md_Timestamp d < gi_Timestamp g + gi_Step g \<and>
      (if md_CounterType d = ''GAUGE'' then gi_DsType g = ''GAUGE'' \<and> gi_Min g = ''U''
       else gi_DsType g = ''DERIVE'' \<and> gi_Min g = ''0'')
    else convert2GraphItem minStep d = Inl (Err ''not_supported_counter_type'')"
proof -
  define st where "st = max minStep (md_Step d)"
  have st: "0 < st" "minStep \<le> st" "md_Step d \<le> st" using assms(1) by (auto simp: st_def)
  define ts where "ts = md_Timestamp d - md_Timestamp d smod st"
  have ts: "st dvd ts" "ts \<le> md_Timestamp d" "md_Timestamp d < ts + st"
    using st(1) assms(2) smod_dvd [of st "md_Timestamp d"] by (simp_all add: ts_def smod_nonneg)
  have j: "convert2JudgeItem minStep d = Inr
     \<lparr>ji_Endpoint = md_Endpoint d, ji_Metric = md_Metric d, ji_Value = md_Value d, ji_Timestamp = ts,
      ji_JudgeType = md_CounterType d, ji_Tags = md_Tags d\<rparr>"
    by (simp add: convert2JudgeItem_eq [OF assms(1)] ts_def st_def)
  note g = convert2GraphItem_cases [OF assms(1), of d, folded st_def, folded ts_def]
  show ?thesis
  proof (cases "md_CounterType d \<in> {''GAUGE'', ''COUNTER'', ''DERIVE''}")
    case True
    then obtain dsType mn where ds: "ds_type (md_CounterType d) = Inr (dsType, mn, ''U'')"
      and kind: "if md_CounterType d = ''GAUGE'' then dsType = ''GAUGE'' \<and> mn = ''U'' else dsType = ''DERIVE'' \<and> mn = ''0''"
      by (auto simp: ds_type_def transfer_GAUGE_def transfer_COUNTER_def transfer_DERIVE_def)
    show ?thesis
      using g [unfolded ds] True kind st ts
      by (simp add: j GraphItem_PrimaryKey_def MetaData_PK_def JudgeItem_PrimaryKey_def GraphItem_Checksum_def
          Checksum_def)
  next
    case False
    then have "ds_type (md_CounterType d) = Inl (Err ''not_supported_counter_type'')"
      by (auto simp: ds_type_def transfer_GAUGE_def transfer_COUNTER_def transfer_DERIVE_def)
    then show ?thesis using False by (simp add: convert2GraphItem_def Let_def)
  qed
qed

theorem samples_agree_witness:
  "\<exists>g. convert2GraphItem 30 (demo_sample ''COUNTER'' 125) = Inr g \<and> gi_DsType g = ''DERIVE'' \<and>
     60 \<le> gi_Step g \<and> gi_Step g dvd gi_Timestamp g"
  using samples_agree [of 30 "demo_sample ''COUNTER'' 125"] by (auto simp: demo_sample_def)

end
