(* ===== verification/Transfer_Recv.thy ===== *)
theory Transfer_Recv
  imports Transfer_Send
begin

text \<open>
  The receiving half of transfer (\<open>src/modules/transfer/receiver\<close>): the check of what agents report, its
  conversion to samples, the split to the poly-metric, Kafka and Prometheus channels, the telnet
  protocol, and the Kafka sender that reads its channel. The clock and the table of poly-metric
  strategies (read from redis) are the record \<open>recv_env\<close>; the samples kept for rates of counters are a
  map that a batch reads and extends. A call that waits for a full channel is \<open>None\<close>.
\<close>

definition PolyStringSep :: string where "PolyStringSep = ''||''"
definition MultiPolySep :: string where "MultiPolySep = ''@@''"
definition KafkaQueueSize :: nat where "KafkaQueueSize = 64000"

section \<open>Poly-metric strategies\<close>

type_synonym end_poly_map = "(string, string) gomap"

text \<open>Two reads of redis: the name of the current hash, then the hash; each may fail.\<close>

definition SyncEndPolyFromRedis :: "string option \<Rightarrow> (string \<Rightarrow> end_poly_map option) \<Rightarrow> end_poly_map \<Rightarrow> end_poly_map" where
  "SyncEndPolyFromRedis key hgetall m =
     (case key of None \<Rightarrow> m
      | Some mapKey \<Rightarrow> (case hgetall mapKey of None \<Rightarrow> m | Some res \<Rightarrow> res))"

definition EndPolyCache_Get :: "end_poly_map \<Rightarrow> string \<Rightarrow> string" where
  "EndPolyCache_Get m key = (case gget m key of Some v \<Rightarrow> v | None \<Rightarrow> '''')"

record recv_env =
  recv_now :: int
  EndPolyCache :: end_poly_map
  recv_latency :: int

section \<open>One reported value\<close>

record recv_acc =
  acc_Invalid :: int
  acc_items :: "meta_data list"
  acc_dynamic :: "meta_data list"
  acc_poly :: "poly_request list"
  acc_prome :: "prome_meta_data list"
  PolyCounterCache :: "(string, meta_data) gomap"

definition recv_check :: "metric_value \<Rightarrow> bool" where
  "recv_check v \<longleftrightarrow>
     \<not> mv_Metric v = ''kernel.hostname'' \<and>
     \<not> (mv_Metric v = '''' \<or> mv_Endpoint v = '''') \<and>
     \<not> (mv_Type v \<noteq> transfer_COUNTER \<and> mv_Type v \<noteq> transfer_GAUGE \<and> mv_Type v \<noteq> transfer_DERIVE) \<and>
     \<not> mv_Value v = VString '''' \<and>
     \<not> mv_Step v \<le> 0 \<and>
     \<not> 510 < length (mv_Metric v) + length (mv_Tags v)"

definition recv_timestamp :: "int \<Rightarrow> metric_value \<Rightarrow> int" where
  "recv_timestamp now v =
     (if mv_Timestamp v \<le> 0 \<or> i64 (now + i64 (3 * mv_Step v)) < mv_Timestamp v \<or>
         mv_Timestamp v < i64 (now - i64 (3 * mv_Step v))
      then now else mv_Timestamp v)"

fun recv_value :: "any_value \<Rightarrow> f64 option" where
  "recv_value (VString cv) = (case parse_float cv of Inr vv \<Rightarrow> Some vv | Inl e \<Rightarrow> None)"
| "recv_value (VFloat cv) = Some cv"
| "recv_value (VInt cv) = Some (f64_of_int cv)"
| "recv_value VOther = None"

definition make_meta :: "int \<Rightarrow> metric_value \<Rightarrow> f64 \<Rightarrow> meta_data" where
  "make_meta now v vv =
     \<lparr>md_Metric = mv_Metric v, md_Endpoint = mv_Endpoint v, md_Timestamp = recv_timestamp now v,
      md_Step = mv_Step v, md_Value = vv, md_CounterType = mv_Type v, md_Tags = DictedTagstring (mv_Tags v)\<rparr>"

text \<open>
  The value for the poly-metric strategies and the cache of first samples: a COUNTER becomes a rate
  against the sample in the cache; without one it is stored, and there is no value.
\<close>

definition poly_value :: "meta_data \<Rightarrow> string \<Rightarrow> (string, meta_data) gomap \<Rightarrow> f64 option \<times> (string, meta_data) gomap" where
  "poly_value fv counter cache =
     (if md_CounterType fv = ''COUNTER'' then
        let endCounterKey = md_Endpoint fv @ counter in
        case gget cache endCounterKey of
          Some lastV \<Rightarrow>
            if i64 (md_Timestamp fv - md_Timestamp lastV) \<le> 0 then (None, cache)
            else (Some (fdiv (md_Value fv - md_Value lastV) (f64_of_int (i64 (md_Timestamp fv - md_Timestamp lastV)))), cache)
        | None \<Rightarrow> (None, gput endCounterKey fv cache)
      else (Some (md_Value fv), cache))"

definition recv_sample :: "transfer_cfg \<Rightarrow> recv_env \<Rightarrow> meta_data \<Rightarrow> recv_acc \<Rightarrow> recv_acc" where
  "recv_sample cfg env fv a =
     (let counter = Counter (md_Metric fv) (md_Tags fv);
          polyStrategy = EndPolyCache_Get (EndPolyCache env) (md_Endpoint fv @ PolyStringSep @ counter)
      in if polyStrategy = '''' then a\<lparr>acc_items := acc_items a @ [fv]\<rparr>
         else let (pv, cache) = poly_value fv counter (PolyCounterCache a);
                  a = a\<lparr>PolyCounterCache := cache\<rparr>
              in case pv of None \<Rightarrow> a
                 | Some polyValue \<Rightarrow>
                     let polys = split_str MultiPolySep polyStrategy;
                         a = a\<lparr>acc_poly := acc_poly a @ map (\<lambda>poly.
                               \<lparr>pq_PolyName = poly, pq_EndPoint = md_Endpoint fv, pq_Type = md_CounterType fv,
                                pq_Value = polyValue\<rparr>) polys\<rparr>;
                         a = (if Prome_Enabled cfg \<and> 1 \<le> length polys
                              then a\<lparr>acc_prome := acc_prome a @ [\<lparr>pr_FalconMetaData = fv, pr_Polys = polys\<rparr>]\<rparr> else a)
                     in a\<lparr>acc_items := acc_items a @ [fv]\<rparr>)"

definition recv_one :: "transfer_cfg \<Rightarrow> recv_env \<Rightarrow> metric_value option \<Rightarrow> recv_acc \<Rightarrow> recv_acc" where
  "recv_one cfg env arg a =
     (case arg of None \<Rightarrow> a\<lparr>acc_Invalid := acc_Invalid a + 1\<rparr>
      | Some v \<Rightarrow>
          if \<not> recv_check v then a\<lparr>acc_Invalid := acc_Invalid a + 1\<rparr>
          else case recv_value (mv_Value v) of None \<Rightarrow> a\<lparr>acc_Invalid := acc_Invalid a + 1\<rparr>
            | Some vv \<Rightarrow>
                let fv = make_meta (recv_now env) v vv in
                if gget (md_Tags fv) ''DynamicMetric'' = Some ''true''
                then a\<lparr>acc_dynamic := acc_dynamic a @ [fv]\<rparr>
                else recv_sample cfg env fv a)"

fun recv_loop :: "transfer_cfg \<Rightarrow> recv_env \<Rightarrow> metric_value option list \<Rightarrow> recv_acc \<Rightarrow> recv_acc" where
  "recv_loop cfg env [] a = a"
| "recv_loop cfg env (x # xs) a = recv_loop cfg env xs (recv_one cfg env x a)"

section \<open>Kafka\<close>

text \<open>One record for the batch: the endpoint and time of its first sample, the values by counter.\<close>

definition extract_one :: "meta_data \<Rightarrow> kafka_data \<Rightarrow> kafka_data" where
  "extract_one item kv =
     (let counter = Counter (md_Metric item) (md_Tags item) in
      if kd_Endpoint kv = '''' then
        \<lparr>kd_Endpoint = md_Endpoint item, kd_Timestamp = md_Timestamp item, kd_MetricValue = [(counter, md_Value item)]\<rparr>
      else kv\<lparr>kd_MetricValue := gput counter (md_Value item) (kd_MetricValue kv)\<rparr>)"

definition ExtractKafkaItemNew :: "meta_data list \<Rightarrow> kafka_data \<Rightarrow> kafka_data" where
  "ExtractKafkaItemNew items kv = foldl (\<lambda>kv item. extract_one item kv) kv items"

definition Push2KafkaSendQueue :: "meta_data list \<Rightarrow> sender_state \<Rightarrow> sender_state res option" where
  "Push2KafkaSendQueue items s =
     (let kv = ExtractKafkaItemNew items \<lparr>kd_Endpoint = '''', kd_Timestamp = 0, kd_MetricValue = []\<rparr> in
      if kd_Endpoint kv \<noteq> '''' then
        if length (KafkaQueue s) < KafkaQueueSize then Some (Inr (s\<lparr>KafkaQueue := KafkaQueue s @ [kv]\<rparr>)) else None
      else Some (Inr s))"

text \<open>
  One round of the goroutine that reads the channel. A record that cannot be written as JSON (a value
  that is NaN or infinite) makes it return, and nothing starts it again.
\<close>

definition kafka_json_ok :: "kafka_data \<Rightarrow> bool" where
  "kafka_json_ok kv \<longleftrightarrow> list_all (\<lambda>(k, v). is_fin v) (kd_MetricValue kv)"

definition kafka_round :: "bool \<Rightarrow> sender_state \<Rightarrow> sender_state" where
  "kafka_round sendOk s =
     (if \<not> KafkaSenderRuns s then s
      else case KafkaQueue s of [] \<Rightarrow> s
        | items # q \<Rightarrow>
            let s = s\<lparr>KafkaQueue := q\<rparr> in
            if \<not> kafka_json_ok items then s\<lparr>KafkaSenderRuns := False\<rparr>
            else if sendOk then s else s\<lparr>KafkaFailCnt := KafkaFailCnt s + 1\<rparr>)"

section \<open>Prometheus\<close>

text \<open>The metrics are registered one after the other; the answer of a registration is an oracle.\<close>

record prome_metric =
  pm_Name :: string
  pm_Counter :: bool
  pm_Labels :: tags
  pm_Value :: f64

definition dot_to_underscore :: "string \<Rightarrow> string" where
  "dot_to_underscore s = map (\<lambda>c. if c = CHR ''.'' then CHR ''_'' else c) s"

fun group_labels :: "string list \<Rightarrow> tags \<Rightarrow> tags res" where
  "group_labels [] m = Inr m"
| "group_labels (poly # polys) m =
     (case split_str PolyStringSep poly of
        a # groupName # ws \<Rightarrow>
          let newGrpName = dot_to_underscore groupName
          in group_labels polys (gput (''falcon_group_'' @ newGrpName) newGrpName m)
      | _ \<Rightarrow> Inl (Panic ''index out of range''))"

definition prome_labels :: "prome_meta_data \<Rightarrow> tags res" where
  "prome_labels p =
     (let d = pr_FalconMetaData p in
      bind_res (group_labels (pr_Polys p) (foldl (\<lambda>m (k, v). gput k v m) [] (md_Tags d))) (\<lambda>m.
        Inr (gput ''endpoint'' (md_Endpoint d) m)))"

fun prome_loop :: "(nat \<Rightarrow> bool) \<Rightarrow> prome_meta_data list \<Rightarrow> prome_metric list \<Rightarrow> (bool \<times> prome_metric list) res" where
  "prome_loop register [] regs = Inr (True, regs)"
| "prome_loop register (p # ps) regs =
     bind_res (prome_labels p) (\<lambda>labels.
       let d = pr_FalconMetaData p;
           m = \<lparr>pm_Name = dot_to_underscore (md_Metric d), pm_Counter = (md_CounterType d = ''COUNTER''),
                pm_Labels = labels, pm_Value = md_Value d\<rparr>
       in if md_CounterType d = ''GAUGE'' then
            if register (length regs) then prome_loop register ps (regs @ [m]) else Inr (False, regs)
          else if md_CounterType d = ''COUNTER'' then
            if md_Value d < 0 then Inl (Panic ''counter cannot decrease in value'')
            else if register (length regs) then prome_loop register ps (regs @ [m]) else Inr (False, regs)
          else prome_loop register ps regs)"

text \<open>What is sent to the push gateway: the job name and the metrics.\<close>

definition PromeWork :: "(nat \<Rightarrow> bool) \<Rightarrow> prome_meta_data list \<Rightarrow> (string \<times> prome_metric list) option res" where
  "PromeWork register dataS =
     (case dataS of [] \<Rightarrow> Inr None
      | d # ds \<Rightarrow>
          let thisEnd = md_Endpoint (pr_FalconMetaData d) in
          if thisEnd = '''' then Inr None
          else bind_res (prome_loop register dataS []) (\<lambda>(ok, regs).
                 Inr (if ok then Some (''falcon_transfer_'' @ thisEnd, regs) else None)))"

section \<open>A batch\<close>

text \<open>The reply, the samples kept for rates, the sender, and what is handed to \<open>PromeWork\<close>.\<close>

definition if_enabled :: "bool \<Rightarrow> ('s \<Rightarrow> 's res) \<Rightarrow> 's \<Rightarrow> 's res" where
  "if_enabled b f s = (if b then f s else Inr s)"

definition RecvMetricValues ::
  "transfer_cfg \<Rightarrow> recv_env \<Rightarrow> metric_value option list \<Rightarrow> (string, meta_data) gomap \<Rightarrow> sender_state \<Rightarrow>
   (transfer_response \<times> (string, meta_data) gomap \<times> sender_state \<times> prome_meta_data list) res option" where
  "RecvMetricValues cfg env args cache s =
     (let a = recv_loop cfg env args \<lparr>acc_Invalid = 0, acc_items = [], acc_dynamic = [], acc_poly = [], acc_prome = [],
                                      PolyCounterCache = cache\<rparr> in
      bind_out (Some (if_enabled (Graph_Enabled cfg) (Push2GraphSendQueue cfg (acc_items a)) s)) (\<lambda>s.
      bind_out (Some (if_enabled (Judge_Enabled cfg) (Push2JudgeSendQueue (acc_items a)) s)) (\<lambda>s.
      bind_out (Some (if_enabled (Poly_Enabled cfg) (Push2PolySendQueue (acc_poly a)) s)) (\<lambda>s.
      bind_out (Some (if_enabled (Tsdb_Enabled cfg) (Push2TsdbSendQueue (acc_items a)) s)) (\<lambda>s.
      bind_out (if Kafka_Enabled cfg \<and> Kafka_DatabusChannel cfg \<noteq> '''' then Push2KafkaSendQueue (acc_items a) s
                else Some (Inr s)) (\<lambda>s.
        Some (Inr (\<lparr>tr_Message = ''ok'', tr_Total = int (length args), tr_Invalid = acc_Invalid a,
                    tr_Latency = recv_latency env\<rparr>,
                   PolyCounterCache a, s, if Prome_Enabled cfg then acc_prome a else []))))))))"

section \<open>The telnet protocol\<close>

definition convertLine2MetaData :: "string list \<Rightarrow> meta_data res" where
  "convertLine2MetaData fs =
     (if length fs \<noteq> 4 \<and> length fs \<noteq> 5 \<and> length fs \<noteq> 6 then Inl (Err ''not_enough_fileds'')
      else bind_res (atoi (fs ! 2)) (\<lambda>ts.
           bind_res (parse_float (fs ! 3)) (\<lambda>v.
           let type = (if 5 \<le> length fs then fs ! 4 else transfer_COUNTER) in
           if type \<noteq> transfer_DERIVE \<and> type \<noteq> transfer_GAUGE \<and> type \<noteq> transfer_COUNTER
           then Inl (Err ''invalid_counter_type'')
           else bind_res
             (if length fs = 6 then
                let dst_args = split CHR '':'' (fs ! 5) in
                if length dst_args = 1 then atoi (dst_args ! 0)
                else if length dst_args = 4 then atoi (dst_args ! 3)
                else Inl (Err ''invalid_counter_step'')
              else Inr DEFAULT_STEP) (\<lambda>step.
             Inr \<lparr>md_Metric = fs ! 1, md_Endpoint = fs ! 0, md_Timestamp = ts, md_Step = step, md_Value = v,
                  md_CounterType = type, md_Tags = []\<rparr>))))"

definition trim_newline :: "string \<Rightarrow> string" where
  "trim_newline s = (let nl = (\<lambda>c. c = CHR 0x0A) in rev (dropWhile nl (rev (dropWhile nl s))))"

text \<open>The lines of a connection up to its end, an error or a timeout.\<close>

fun telnet_lines :: "string list \<Rightarrow> meta_data list \<Rightarrow> meta_data list" where
  "telnet_lines [] items = items"
| "telnet_lines (l # ls) items =
     (let line = trim_newline l in
      if line = ''quit'' then items
      else if line = '''' then telnet_lines ls items
      else let t = Go_Strings.fields line in
        if length t < 2 then telnet_lines ls items
        else if hd t \<noteq> ''update'' then telnet_lines ls items
        else case convertLine2MetaData (tl t) of
            Inl e \<Rightarrow> telnet_lines ls items
          | Inr item \<Rightarrow> telnet_lines ls (items @ [item]))"

definition socketTelnetHandle :: "transfer_cfg \<Rightarrow> string list \<Rightarrow> sender_state \<Rightarrow> sender_state res" where
  "socketTelnetHandle cfg lines s =
     (let items = telnet_lines lines [] in
      bind_res (if_enabled (Graph_Enabled cfg) (Push2GraphSendQueue cfg items) s)
        (if_enabled (Judge_Enabled cfg) (Push2JudgeSendQueue items)))"

section \<open>Facts\<close>

text \<open>What a reported value is: invalid, a sample for the dynamic channel only, or a sample.\<close>

datatype recv_class = Invalid | Dynamic meta_data | Sample meta_data

definition classify :: "recv_env \<Rightarrow> metric_value option \<Rightarrow> recv_class" where
  "classify env arg =
     (case arg of None \<Rightarrow> Invalid
      | Some v \<Rightarrow>
          if \<not> recv_check v then Invalid
          else case recv_value (mv_Value v) of None \<Rightarrow> Invalid
            | Some vv \<Rightarrow>
                let fv = make_meta (recv_now env) v vv
                in if gget (md_Tags fv) ''DynamicMetric'' = Some ''true'' then Dynamic fv else Sample fv)"

definition samples :: "recv_env \<Rightarrow> metric_value option list \<Rightarrow> meta_data list" where
  "samples env args = List.map_filter (\<lambda>x. case classify env x of Sample fv \<Rightarrow> Some fv | _ \<Rightarrow> None) args"

definition dynamics :: "recv_env \<Rightarrow> metric_value option list \<Rightarrow> meta_data list" where
  "dynamics env args = List.map_filter (\<lambda>x. case classify env x of Dynamic fv \<Rightarrow> Some fv | _ \<Rightarrow> None) args"

definition invalids :: "recv_env \<Rightarrow> metric_value option list \<Rightarrow> int" where
  "invalids env args = int (length (filter (\<lambda>x. classify env x = Invalid) args))"

lemma recv_one_class:
  "recv_one cfg env x a =
     (case classify env x of Invalid \<Rightarrow> a\<lparr>acc_Invalid := acc_Invalid a + 1\<rparr>
      | Dynamic fv \<Rightarrow> a\<lparr>acc_dynamic := acc_dynamic a @ [fv]\<rparr>
      | Sample fv \<Rightarrow> recv_sample cfg env fv a)"
  by (simp add: recv_one_def classify_def Let_def split: option.splits)

text \<open>The strategies of a sample, and the samples that are always passed on.\<close>

definition poly_strategy :: "recv_env \<Rightarrow> meta_data \<Rightarrow> string" where
  "poly_strategy env fv =
     EndPolyCache_Get (EndPolyCache env) (md_Endpoint fv @ PolyStringSep @ Counter (md_Metric fv) (md_Tags fv))"

definition plain :: "recv_env \<Rightarrow> meta_data \<Rightarrow> bool" where
  "plain env fv \<longleftrightarrow> poly_strategy env fv = '''' \<or> md_CounterType fv \<noteq> ''COUNTER''"

lemma recv_sample_items:
  "acc_items (recv_sample cfg env fv a) = acc_items a @
     (if poly_strategy env fv = [] \<or> fst (poly_value fv (Counter (md_Metric fv) (md_Tags fv)) (PolyCounterCache a)) \<noteq> None
      then [fv] else [])"
  by (cases "poly_value fv (Counter (md_Metric fv) (md_Tags fv)) (PolyCounterCache a)")
     (simp add: recv_sample_def poly_strategy_def Let_def split: option.splits)

lemma recv_sample_cases:
  obtains (passed) "acc_items (recv_sample cfg env fv a) = acc_items a @ [fv]"
    | (withheld) "\<not> plain env fv" "acc_items (recv_sample cfg env fv a) = acc_items a"
proof (cases "poly_strategy env fv = [] \<or> fst (poly_value fv (Counter (md_Metric fv) (md_Tags fv)) (PolyCounterCache a)) \<noteq> None")
  case True
  then show ?thesis by (intro passed) (simp only: recv_sample_items if_True)
next
  case False
  then have "\<not> plain env fv" by (cases "md_CounterType fv = ''COUNTER''") (simp_all add: plain_def poly_value_def)
  then show ?thesis using False by (intro withheld) (simp_all only: recv_sample_items if_False append_Nil2 not_False_eq_True)
qed

lemma recv_sample_rest [simp]:
  "acc_Invalid (recv_sample cfg env fv a) = acc_Invalid a"
  "acc_dynamic (recv_sample cfg env fv a) = acc_dynamic a"
  by (simp_all add: recv_sample_def Let_def split: prod.splits option.splits)

lemma recv_loop_class:
  "acc_Invalid (recv_loop cfg env args a) = acc_Invalid a + invalids env args \<and>
   acc_dynamic (recv_loop cfg env args a) = acc_dynamic a @ dynamics env args \<and>
   (\<exists>new. acc_items (recv_loop cfg env args a) = acc_items a @ new \<and> subseq new (samples env args) \<and>
     filter (plain env) new = filter (plain env) (samples env args))"
proof (induction args arbitrary: a)
  case Nil
  then show ?case by (simp add: invalids_def dynamics_def samples_def map_filter_simps)
next
  case (Cons x args)
  define a1 where "a1 = recv_one cfg env x a"
  obtain new where new: "acc_items (recv_loop cfg env args a1) = acc_items a1 @ new" "subseq new (samples env args)"
      "filter (plain env) new = filter (plain env) (samples env args)"
    and rest: "acc_Invalid (recv_loop cfg env args a1) = acc_Invalid a1 + invalids env args"
      "acc_dynamic (recv_loop cfg env args a1) = acc_dynamic a1 @ dynamics env args"
    using Cons.IH [of a1] by blast
  show ?case
  proof (cases "classify env x")
    case (Sample fv)
    then have s: "samples env (x # args) = fv # samples env args" "dynamics env (x # args) = dynamics env args"
        "invalids env (x # args) = invalids env args"
      by (simp_all add: samples_def dynamics_def invalids_def map_filter_simps)
    have a1: "a1 = recv_sample cfg env fv a" using Sample by (simp add: a1_def recv_one_class)
    show ?thesis
    proof (cases rule: recv_sample_cases [of cfg env fv a])
      case passed
      then show ?thesis using new rest by (simp add: s a1_def [symmetric]) (simp add: a1)
    next
      case withheld
      then show ?thesis using new rest
        by (simp add: s a1_def [symmetric]) (simp add: a1 list_emb_Cons)
    qed
  qed (use new rest in \<open>simp_all add: samples_def dynamics_def invalids_def map_filter_simps a1_def recv_one_class\<close>)
qed

text \<open>What the check guarantees of a sample.\<close>

definition good_sample :: "int \<Rightarrow> meta_data \<Rightarrow> bool" where
  "good_sample now fv \<longleftrightarrow>
     md_Metric fv \<noteq> '''' \<and> md_Endpoint fv \<noteq> '''' \<and> length (md_Metric fv) \<le> 510 \<and>
     md_CounterType fv \<in> {''GAUGE'', ''COUNTER'', ''DERIVE''} \<and> 0 < md_Step fv \<and> 0 < md_Timestamp fv \<and>
     (in_i64 (now + 3 * md_Step fv) \<longrightarrow> \<bar>md_Timestamp fv - now\<bar> \<le> 3 * md_Step fv)"

lemma make_meta_good:
  assumes "recv_check v" "0 < now" "in_i64 now"
  shows "good_sample now (make_meta now v vv)"
proof -
  have v: "mv_Metric v \<noteq> ''''" "mv_Endpoint v \<noteq> ''''" "mv_Type v \<in> {''GAUGE'', ''COUNTER'', ''DERIVE''}"
      "0 < mv_Step v" "length (mv_Metric v) \<le> 510"
    using assms(1) by (auto simp: recv_check_def transfer_GAUGE_def transfer_COUNTER_def transfer_DERIVE_def)
  have ts: "0 < recv_timestamp now v" using assms(2) by (auto simp: recv_timestamp_def)
  have "\<bar>recv_timestamp now v - now\<bar> \<le> 3 * mv_Step v" if "in_i64 (now + 3 * mv_Step v)"
  proof -
    have "in_i64 (3 * mv_Step v)" "in_i64 (now - 3 * mv_Step v)"
      using that assms(2,3) v(4) by (auto simp: in_i64_def)
    then have "i64 (3 * mv_Step v) = 3 * mv_Step v" "i64 (now + 3 * mv_Step v) = now + 3 * mv_Step v"
        "i64 (now - 3 * mv_Step v) = now - 3 * mv_Step v"
      using that by (simp_all add: i64_id)
    then show ?thesis using v(4) by (auto simp: recv_timestamp_def abs_le_iff)
  qed
  with v ts show ?thesis by (simp add: good_sample_def make_meta_def)
qed

lemma classify_good:
  "0 < recv_now env \<Longrightarrow> in_i64 (recv_now env) \<Longrightarrow> classify env x = Sample fv \<or> classify env x = Dynamic fv \<Longrightarrow>
    good_sample (recv_now env) fv"
  using make_meta_good by (auto simp: classify_def Let_def split: option.splits if_splits)

lemma samples_good:
  assumes "0 < recv_now env" "in_i64 (recv_now env)"
  shows "list_all (good_sample (recv_now env)) (samples env args)"
proof (induction args)
  case (Cons x args)
  then show ?case
    using classify_good [OF assms, of x]
    by (cases "classify env x") (simp_all add: samples_def map_filter_simps)
qed (simp add: samples_def map_filter_simps)

definition empty_acc :: "(string, meta_data) gomap \<Rightarrow> recv_acc" where
  "empty_acc cache = \<lparr>acc_Invalid = 0, acc_items = [], acc_dynamic = [], acc_poly = [], acc_prome = [], PolyCounterCache = cache\<rparr>"

section \<open>Properties\<close>


definition demo_value :: "string \<Rightarrow> int \<Rightarrow> any_value \<Rightarrow> metric_value" where
  "demo_value type ts val = \<lparr>mv_Endpoint = ''h1'', mv_Metric = ''cpu.idle'', mv_Value = val, mv_Step = 60,
     mv_Type = type, mv_Tags = '''', mv_Timestamp = ts\<rparr>"

definition demo_recv :: "string \<Rightarrow> recv_env" where
  "demo_recv strategy = \<lparr>recv_now = 1000, EndPolyCache = [(''h1||cpu.idle'', strategy)], recv_latency = 0\<rparr>"

lemma demo_check: "type \<in> {''GAUGE'', ''COUNTER'', ''DERIVE''} \<Longrightarrow> recv_check (demo_value type ts (VInt k))"
  by (auto simp: recv_check_def demo_value_def transfer_GAUGE_def transfer_COUNTER_def transfer_DERIVE_def)


lemma if_enabled_kafka:
  "(\<And>s s'. f s = Inr s' \<Longrightarrow> KafkaQueue s' = KafkaQueue s) \<Longrightarrow> if_enabled b f s = Inr s' \<Longrightarrow> KafkaQueue s' = KafkaQueue s"
  by (auto simp: if_enabled_def split: if_splits)

lemma enabled_ok:
  assumes "good_sender cfg s"
  shows "\<exists>s'. if_enabled b (Push2GraphSendQueue cfg items) s = Inr s' \<and> good_sender cfg s'"
    "\<exists>s'. if_enabled b (Push2JudgeSendQueue items) s = Inr s' \<and> good_sender cfg s'"
    "\<exists>s'. if_enabled b (Push2PolySendQueue polys) s = Inr s' \<and> good_sender cfg s'"
    "(b \<Longrightarrow> TsdbQueue s \<noteq> None) \<Longrightarrow> \<exists>s'. if_enabled b (Push2TsdbSendQueue items) s = Inr s' \<and> good_sender cfg s'"
  using Push2_ok [OF assms] Push2Tsdb_ok [OF assms] assms by (cases b; simp add: if_enabled_def)+

lemma Push2Kafka_cases:
  "Push2KafkaSendQueue items s = None \<and> KafkaQueueSize \<le> length (KafkaQueue s) \<or>
   (\<exists>s'. Push2KafkaSendQueue items s = Some (Inr s') \<and> (\<forall>cfg. good_sender cfg s' = good_sender cfg s))"
  by (simp add: Push2KafkaSendQueue_def Let_def good_sender_def)

lemma on_node_Inr: "on_node ring pk f s = Inr s' \<Longrightarrow> s' = s \<or> (\<exists>n. f n = Inr s')"
  by (auto simp: on_node_def split: sum.splits go_error.splits)

lemma Push2Judge_kafka: "Push2JudgeSendQueue items s = Inr s' \<Longrightarrow> KafkaQueue s' = KafkaQueue s"
proof (induction items arbitrary: s)
  case (Cons it items)
  then obtain s1 where s1: "push_judge it s = Inr s1" "Push2JudgeSendQueue items s1 = Inr s'" by auto
  then have "KafkaQueue s1 = KafkaQueue s" by (auto simp: push_judge_def dest!: on_node_Inr)
  then show ?case using Cons.IH [OF s1(2)] by simp
qed simp

lemma Push2Poly_kafka: "Push2PolySendQueue items s = Inr s' \<Longrightarrow> KafkaQueue s' = KafkaQueue s"
proof (induction items arbitrary: s)
  case (Cons it items)
  then obtain s1 where s1: "push_poly it s = Inr s1" "Push2PolySendQueue items s1 = Inr s'" by auto
  then have "KafkaQueue s1 = KafkaQueue s" by (auto simp: push_poly_def dest!: on_node_Inr)
  then show ?case using Cons.IH [OF s1(2)] by simp
qed simp

lemma Push2Graph_kafka: "Push2GraphSendQueue cfg items s = Inr s' \<Longrightarrow> KafkaQueue s' = KafkaQueue s"
proof (induction items arbitrary: s)
  case (Cons it items)
  then obtain s1 where s1: "push_graph cfg it s = Inr s1" "Push2GraphSendQueue cfg items s1 = Inr s'" by auto
  then have "KafkaQueue s1 = KafkaQueue s"
    by (auto simp: push_graph_def nil_deref_def split: sum.splits go_error.splits option.splits dest!: on_node_Inr)
  then show ?case using Cons.IH [OF s1(2)] by simp
qed simp

lemma Push2Tsdb_kafka: "Push2TsdbSendQueue items s = Inr s' \<Longrightarrow> KafkaQueue s' = KafkaQueue s"
proof (induction items arbitrary: s)
  case (Cons it items)
  then obtain Q where "TsdbQueue s = Some Q" by (auto simp: nil_deref_def split: option.splits)
  with Cons show ?case by (fastforce simp: Let_def split: prod.splits if_splits)
qed simp

text \<open>
  C39: Receiving is total. From a good state of the sender, a batch of any content (nil pointers and
  malformed values included) is answered with the number of its values and leaves the sender good,
  or it waits for the Kafka channel; it waits only if that channel is enabled and full.
\<close>

theorem recv_total:
  assumes "good_sender cfg s"
  shows "case RecvMetricValues cfg env args cache s of
      None \<Rightarrow> Kafka_Enabled cfg \<and> length (KafkaQueue s) \<ge> KafkaQueueSize
    | Some (Inl e) \<Rightarrow> False
    | Some (Inr (reply, cache', s', prome)) \<Rightarrow> good_sender cfg s' \<and> tr_Total reply = int (length args)"
proof -
  define a where "a = recv_loop cfg env args (empty_acc cache)"
  obtain s1 where s1: "if_enabled (Graph_Enabled cfg) (Push2GraphSendQueue cfg (acc_items a)) s = Inr s1" "good_sender cfg s1"
    using enabled_ok(1) [OF assms] by blast
  obtain s2 where s2: "if_enabled (Judge_Enabled cfg) (Push2JudgeSendQueue (acc_items a)) s1 = Inr s2" "good_sender cfg s2"
    using enabled_ok(2) [OF s1(2)] by blast
  obtain s3 where s3: "if_enabled (Poly_Enabled cfg) (Push2PolySendQueue (acc_poly a)) s2 = Inr s3" "good_sender cfg s3"
    using enabled_ok(3) [OF s2(2)] by blast
  have "Tsdb_Enabled cfg \<Longrightarrow> TsdbQueue s3 \<noteq> None" using s3(2) by (simp add: good_sender_def)
  then obtain s4 where s4: "if_enabled (Tsdb_Enabled cfg) (Push2TsdbSendQueue (acc_items a)) s3 = Inr s4" "good_sender cfg s4"
    using enabled_ok(4) [OF s3(2)] by blast
  have kafka: "KafkaQueue s4 = KafkaQueue s"
    using if_enabled_kafka [OF Push2Graph_kafka s1(1)] if_enabled_kafka [OF Push2Judge_kafka s2(1)]
      if_enabled_kafka [OF Push2Poly_kafka s3(1)] if_enabled_kafka [OF Push2Tsdb_kafka s4(1)] by simp
  show ?thesis
    unfolding RecvMetricValues_def empty_acc_def [symmetric] a_def [symmetric] Let_def s1(1) s2(1) s3(1) s4(1) bind_out_simps
    using Push2Kafka_cases [of "acc_items a" s4] s4(2) kafka by auto
qed

theorem recv_total_witness:
  "\<exists>s r. Start demo_transfer = Inr s \<and> RecvMetricValues demo_transfer (demo_recv ''g||x'') [None] [] s = Some (Inr r)"
proof -
  obtain s where s: "Start demo_transfer = Inr s" using demo_Start by blast
  show ?thesis
    using s recv_total [OF good_sender_Start [OF s], where env = "demo_recv ''g||x''" and args = "[None]" and cache = "[]"]
    by (auto simp: demo_transfer_def split: option.splits sum.splits)
qed

lemma recv_loop_append: "recv_loop cfg env (xs @ ys) a = recv_loop cfg env ys (recv_loop cfg env xs a)"
  by (induction xs arbitrary: a) simp_all

lemma poly_value_keeps: "gget cache key = Some v0 \<Longrightarrow> gget (snd (poly_value fv counter cache)) key = Some v0"
  by (auto simp: poly_value_def Let_def split: option.splits)

lemma recv_loop_keeps:
  "gget (PolyCounterCache a) key = Some v0 \<Longrightarrow> gget (PolyCounterCache (recv_loop cfg env args a)) key = Some v0"
proof (induction args arbitrary: a)
  case (Cons x args)
  have "gget (PolyCounterCache (recv_one cfg env x a)) key = Some v0"
  proof (cases "classify env x")
    case (Sample fv)
    obtain pv cache where pv: "poly_value fv (Counter (md_Metric fv) (md_Tags fv)) (PolyCounterCache a) = (pv, cache)" by force
    then have "gget cache key = Some v0" using poly_value_keeps [OF Cons.prems, of fv] by (metis snd_conv)
    then show ?thesis
      using Sample Cons.prems pv by (auto simp: recv_one_class recv_sample_def Let_def split: option.splits)
  qed (use Cons.prems in \<open>simp_all add: recv_one_class\<close>)
  then show ?case using Cons.IH by simp
qed simp

text \<open>
  Rates are taken against the first sample ever seen. Once a COUNTER series has an entry in the
  cache, no batch changes it, so that the value sent to the poly-metric nodes for a later sample is
  the mean rate since that first sample, not the rate since the previous one.
\<close>

theorem rates_from_first_sample:
  assumes "gget (PolyCounterCache a) (md_Endpoint fv @ Counter (md_Metric fv) (md_Tags fv)) = Some v0"
    and "classify env x = Sample fv" "md_CounterType fv = ''COUNTER''" "poly_strategy env fv \<noteq> ''''"
    and "0 < i64 (md_Timestamp fv - md_Timestamp v0)"
  shows "acc_poly (recv_loop cfg env (args @ [x]) a) = acc_poly (recv_loop cfg env args a) @
    map (\<lambda>poly. \<lparr>pq_PolyName = poly, pq_EndPoint = md_Endpoint fv, pq_Type = ''COUNTER'',
      pq_Value = fdiv (md_Value fv - md_Value v0) (f64_of_int (i64 (md_Timestamp fv - md_Timestamp v0)))\<rparr>)
      (split_str MultiPolySep (poly_strategy env fv))"
proof -
  define b where "b = recv_loop cfg env args a"
  have "gget (PolyCounterCache b) (md_Endpoint fv @ Counter (md_Metric fv) (md_Tags fv)) = Some v0"
    unfolding b_def by (rule recv_loop_keeps [OF assms(1)])
  then have "poly_value fv (Counter (md_Metric fv) (md_Tags fv)) (PolyCounterCache b) =
      (Some (fdiv (md_Value fv - md_Value v0) (f64_of_int (i64 (md_Timestamp fv - md_Timestamp v0)))), PolyCounterCache b)"
    using assms(3,5) by (simp add: poly_value_def)
  then have "acc_poly (recv_sample cfg env fv b) = acc_poly b @
    map (\<lambda>poly. \<lparr>pq_PolyName = poly, pq_EndPoint = md_Endpoint fv, pq_Type = md_CounterType fv,
      pq_Value = fdiv (md_Value fv - md_Value v0) (f64_of_int (i64 (md_Timestamp fv - md_Timestamp v0)))\<rparr>)
      (split_str MultiPolySep (poly_strategy env fv))"
    using assms(4) by (simp add: recv_sample_def poly_strategy_def Let_def)
  then show ?thesis
    using assms(2,3) by (simp add: recv_loop_append recv_one_class b_def)
qed

lemma demo_classify:
  assumes "type \<in> {''GAUGE'', ''COUNTER'', ''DERIVE''}" "820 \<le> ts" "ts \<le> 1180"
  shows "classify (demo_recv strategy) (Some (demo_value type ts (VInt k))) =
    Sample ((demo_sample type ts)\<lparr>md_Value := f64_of_int k\<rparr>)"
proof -
  have "recv_timestamp 1000 (demo_value type ts (VInt k)) = ts"
    using assms(2,3) by (simp add: recv_timestamp_def demo_value_def i64_id in_i64_def)
  then show ?thesis
    using demo_check [OF assms(1), of ts k]
    by (simp add: classify_def Let_def make_meta_def demo_recv_def)
       (simp add: demo_value_def demo_sample_def DictedTagstring_def make_meta_def Let_def)
qed

lemma demo_strategy [simp]: "poly_strategy (demo_recv strategy) ((demo_sample type ts)\<lparr>md_Value := v\<rparr>) = strategy"
proof -
  have "''h1'' @ PolyStringSep @ Counter ''cpu.idle'' [] = ''h1||cpu.idle''"
    by (simp add: PolyStringSep_def Counter_def)
  then show ?thesis
    by (simp add: poly_strategy_def demo_recv_def demo_sample_def EndPolyCache_Get_def)
qed

theorem rates_from_first_sample_witness:
  "\<exists>v0 ts k. acc_poly (recv_loop demo_transfer (demo_recv ''g'')
      [Some (demo_value ''COUNTER'' 900 (VInt 3)), Some (demo_value ''COUNTER'' 960 (VInt 9)), Some (demo_value ''COUNTER'' ts (VInt k))]
      (empty_acc [(''h1cpu.idle'', v0)])) \<noteq> []"
proof -
  define v0 where "v0 = (demo_sample ''COUNTER'' 840)\<lparr>md_Value := f64_of_int 1\<rparr>"
  define fv where "fv = (demo_sample ''COUNTER'' 1020)\<lparr>md_Value := f64_of_int 12\<rparr>"
  have "gget (PolyCounterCache (empty_acc [(''h1cpu.idle'', v0)])) (md_Endpoint fv @ Counter (md_Metric fv) (md_Tags fv)) = Some v0"
    by (simp add: empty_acc_def fv_def demo_sample_def Counter_def)
  moreover have "classify (demo_recv ''g'') (Some (demo_value ''COUNTER'' 1020 (VInt 12))) = Sample fv"
    unfolding fv_def by (rule demo_classify) simp_all
  moreover have "md_CounterType fv = ''COUNTER''" by (simp add: fv_def demo_sample_def)
  moreover have "poly_strategy (demo_recv ''g'') fv \<noteq> ''''" unfolding fv_def by (simp only: demo_strategy) simp
  moreover have "0 < i64 (md_Timestamp fv - md_Timestamp v0)"
    by (simp add: fv_def v0_def demo_sample_def i64_id in_i64_def)
  ultimately have "acc_poly (recv_loop demo_transfer (demo_recv ''g'')
      ([Some (demo_value ''COUNTER'' 900 (VInt 3)), Some (demo_value ''COUNTER'' 960 (VInt 9))] @ [Some (demo_value ''COUNTER'' 1020 (VInt 12))])
      (empty_acc [(''h1cpu.idle'', v0)])) = acc_poly (recv_loop demo_transfer (demo_recv ''g'')
      [Some (demo_value ''COUNTER'' 900 (VInt 3)), Some (demo_value ''COUNTER'' 960 (VInt 9))]
      (empty_acc [(''h1cpu.idle'', v0)])) @
    map (\<lambda>poly. \<lparr>pq_PolyName = poly, pq_EndPoint = md_Endpoint fv, pq_Type = ''COUNTER'',
      pq_Value = fdiv (md_Value fv - md_Value v0) (f64_of_int (i64 (md_Timestamp fv - md_Timestamp v0)))\<rparr>)
      (split_str MultiPolySep (poly_strategy (demo_recv ''g'') fv))"
    by (rule rates_from_first_sample)
  moreover have "split_str MultiPolySep (poly_strategy (demo_recv ''g'') fv) \<noteq> []"
    by (subst split_str.simps) (simp split: list.splits)
  ultimately show ?thesis by (intro exI [of _ v0] exI [of _ 1020] exI [of _ 12]) simp
qed

text \<open>
  The first point of a rate is lost. A COUNTER sample with a poly-metric strategy whose series is not
  in the cache yet is stored there and goes nowhere: no queue of graph, judge or any other channel
  gets it, and the reply still says that nothing was invalid.
\<close>

theorem counter_first_point_lost:
  assumes "classify env (Some v) = Sample fv" "md_CounterType fv = ''COUNTER''" "poly_strategy env fv \<noteq> ''''"
    and "gget cache (md_Endpoint fv @ Counter (md_Metric fv) (md_Tags fv)) = None"
    and "Tsdb_Enabled cfg \<longrightarrow> TsdbQueue s \<noteq> None"
  shows "RecvMetricValues cfg env [Some v] cache s =
    Some (Inr (\<lparr>tr_Message = ''ok'', tr_Total = 1, tr_Invalid = 0, tr_Latency = recv_latency env\<rparr>,
      gput (md_Endpoint fv @ Counter (md_Metric fv) (md_Tags fv)) fv cache, s, []))"
proof -
  have pv: "poly_value fv (Counter (md_Metric fv) (md_Tags fv)) cache =
      (None, gput (md_Endpoint fv @ Counter (md_Metric fv) (md_Tags fv)) fv cache)"
    using assms(2,4) by (simp add: poly_value_def)
  have "recv_loop cfg env [Some v] (empty_acc cache) =
      (empty_acc cache)\<lparr>PolyCounterCache := gput (md_Endpoint fv @ Counter (md_Metric fv) (md_Tags fv)) fv cache\<rparr>"
    using assms(1,3) pv by (simp add: recv_one_class recv_sample_def poly_strategy_def Let_def empty_acc_def)
  then show ?thesis
    unfolding RecvMetricValues_def empty_acc_def [symmetric] Let_def
    by (simp add: if_enabled_def Push2KafkaSendQueue_def ExtractKafkaItemNew_def empty_acc_def)
qed

theorem counter_first_point_lost_witness:
  "\<exists>s cache. Start demo_transfer = Inr s \<and>
     RecvMetricValues demo_transfer (demo_recv ''g'') [Some (demo_value ''COUNTER'' 900 (VInt 3))] [] s =
       Some (Inr (\<lparr>tr_Message = ''ok'', tr_Total = 1, tr_Invalid = 0, tr_Latency = 0\<rparr>, cache, s, []))"
proof -
  obtain s where s: "Start demo_transfer = Inr s" using demo_Start by blast
  define fv where "fv = (demo_sample ''COUNTER'' 900)\<lparr>md_Value := f64_of_int 3\<rparr>"
  have "classify (demo_recv ''g'') (Some (demo_value ''COUNTER'' 900 (VInt 3))) = Sample fv"
    unfolding fv_def by (rule demo_classify) simp_all
  moreover have "md_CounterType fv = ''COUNTER''" by (simp add: fv_def demo_sample_def)
  moreover have "poly_strategy (demo_recv ''g'') fv \<noteq> ''''" unfolding fv_def by (simp only: demo_strategy) simp
  ultimately have "RecvMetricValues demo_transfer (demo_recv ''g'') [Some (demo_value ''COUNTER'' 900 (VInt 3))] [] s =
    Some (Inr (\<lparr>tr_Message = ''ok'', tr_Total = 1, tr_Invalid = 0, tr_Latency = recv_latency (demo_recv ''g'')\<rparr>,
      gput (md_Endpoint fv @ Counter (md_Metric fv) (md_Tags fv)) fv [], s, []))"
    by (rule counter_first_point_lost) (simp_all add: demo_transfer_def)
  with s show ?thesis by (simp add: demo_recv_def)
qed

text \<open>
  A client can bring transfer down. With the Prometheus channel on, a COUNTER sample with a negative
  value, a poly-metric strategy and an older first sample in the cache is accepted, and the goroutine
  that the batch starts panics in the metrics library (or on a strategy name without separator).
\<close>

theorem negative_counter_panics:
  assumes "classify env (Some v) = Sample fv" "md_CounterType fv = ''COUNTER''" "poly_strategy env fv \<noteq> ''''"
    and "gget cache (md_Endpoint fv @ Counter (md_Metric fv) (md_Tags fv)) = Some v0"
    and "0 < i64 (md_Timestamp fv - md_Timestamp v0)" "md_Value fv < 0" "Prome_Enabled cfg"
    and "RecvMetricValues cfg env [Some v] cache s = Some (Inr (reply, cache', s', prome))"
  shows "is_panic (PromeWork register prome)"
proof -
  define polys where "polys = split_str MultiPolySep (poly_strategy env fv)"
  have "polys \<noteq> []" unfolding polys_def by (subst split_str.simps) (simp split: list.splits)
  then have len: "Suc 0 \<le> length polys" by (cases polys) simp_all
  have "poly_value fv (Counter (md_Metric fv) (md_Tags fv)) cache =
      (Some (fdiv (md_Value fv - md_Value v0) (f64_of_int (i64 (md_Timestamp fv - md_Timestamp v0)))), cache)"
    using assms(2,4,5) by (simp add: poly_value_def)
  then have "acc_prome (recv_loop cfg env [Some v] (empty_acc cache)) = [\<lparr>pr_FalconMetaData = fv, pr_Polys = polys\<rparr>]"
    using assms(1,3,7) len
    by (simp add: recv_one_class recv_sample_def poly_strategy_def [symmetric] Let_def empty_acc_def polys_def)
  moreover have "prome = acc_prome (recv_loop cfg env [Some v] (empty_acc cache))"
    using assms(7,8) unfolding RecvMetricValues_def empty_acc_def [symmetric] Let_def
    by (auto simp: bind_out_def split: option.splits sum.splits)
  ultimately have prome: "prome = [\<lparr>pr_FalconMetaData = fv, pr_Polys = polys\<rparr>]" by simp
  have end_ne: "md_Endpoint fv \<noteq> ''''"
    using assms(1) by (auto simp: classify_def Let_def make_meta_def recv_check_def split: option.splits if_splits)
  have groups: "(\<exists>e. group_labels ps m = Inl (Panic e)) \<or> (\<exists>m'. group_labels ps m = Inr m')" for ps m
    by (induction ps arbitrary: m) (auto simp: Let_def split: list.splits)
  obtain e where "prome_loop register [\<lparr>pr_FalconMetaData = fv, pr_Polys = polys\<rparr>] [] = Inl (Panic e)"
    using groups [of polys "foldl (\<lambda>m (k, v). gput k v m) [] (md_Tags fv)"] assms(2,6)
    by (auto simp: prome_labels_def Let_def)
  then show ?thesis
    using end_ne by (simp add: PromeWork_def prome Let_def)
qed

lemma lane_room_Start: "Start cfg = Inr s \<Longrightarrow> KafkaQueue s = [] \<and> KafkaSenderRuns s"
  by (auto simp: Start_def initNodeRings_def initSendQueues_def initial_sender_def Let_def)

definition prome_cfg :: transfer_cfg where
  "prome_cfg = demo_transfer\<lparr>Graph_Enabled := False, Judge_Enabled := False, Prome_Enabled := True\<rparr>"

theorem negative_counter_panics_witness:
  "\<exists>v0 prome r. RecvMetricValues prome_cfg (demo_recv ''g'') [Some (demo_value ''COUNTER'' 900 (VInt (-3)))]
     [(''h1cpu.idle'', v0)] initial_sender = Some (Inr (r, [(''h1cpu.idle'', v0)], initial_sender, prome)) \<and>
     is_panic (PromeWork (\<lambda>i. True) prome)"
proof -
  define v0 where "v0 = (demo_sample ''COUNTER'' 840)\<lparr>md_Value := f64_of_int 1\<rparr>"
  define fv where "fv = (demo_sample ''COUNTER'' 900)\<lparr>md_Value := f64_of_int (-3)\<rparr>"
  have c: "classify (demo_recv ''g'') (Some (demo_value ''COUNTER'' 900 (VInt (-3)))) = Sample fv"
    unfolding fv_def by (rule demo_classify) simp_all
  have t: "md_CounterType fv = ''COUNTER''" by (simp add: fv_def demo_sample_def)
  have p: "poly_strategy (demo_recv ''g'') fv \<noteq> ''''" unfolding fv_def by (simp only: demo_strategy) simp
  have k: "gget [(''h1cpu.idle'', v0)] (md_Endpoint fv @ Counter (md_Metric fv) (md_Tags fv)) = Some v0"
    by (simp add: fv_def demo_sample_def Counter_def)
  have d: "0 < i64 (md_Timestamp fv - md_Timestamp v0)"
    by (simp add: fv_def v0_def demo_sample_def i64_id in_i64_def)
  have n: "md_Value fv < 0"
  proof -
    have "f64_of_int (-3) = fint (-3)" "fint 0 = 0"
      by (simp_all add: f64_of_int_exact fint_def zero_f64_def)
    moreover have "fint (-3) < fint 0" by (simp only: fint_less)
    ultimately show ?thesis by (simp add: fv_def)
  qed
  have keep: "PolyCounterCache (recv_loop prome_cfg (demo_recv ''g'') [Some (demo_value ''COUNTER'' 900 (VInt (-3)))]
      (empty_acc [(''h1cpu.idle'', v0)])) = [(''h1cpu.idle'', v0)]"
    using c t p k d by (simp add: recv_one_class recv_sample_def poly_strategy_def [symmetric] poly_value_def Let_def empty_acc_def)
  have nopoly: "\<not> Poly_Enabled prome_cfg \<and> \<not> Tsdb_Enabled prome_cfg \<and> \<not> Kafka_Enabled prome_cfg \<and>
      \<not> Graph_Enabled prome_cfg \<and> \<not> Judge_Enabled prome_cfg"
    by (simp add: prome_cfg_def demo_transfer_def)
  obtain r prome where r: "RecvMetricValues prome_cfg (demo_recv ''g'') [Some (demo_value ''COUNTER'' 900 (VInt (-3)))]
      [(''h1cpu.idle'', v0)] initial_sender = Some (Inr (r, [(''h1cpu.idle'', v0)], initial_sender, prome))"
    using keep nopoly unfolding RecvMetricValues_def empty_acc_def [symmetric] Let_def by (simp add: if_enabled_def)
  have "is_panic (PromeWork (\<lambda>i. True) prome)"
    by (rule negative_counter_panics [OF c t p k d n _ r]) (simp add: prome_cfg_def)
  with r show ?thesis by blast
qed

text \<open>The Kafka channel as a schedule of batches and rounds of the reader; \<open>None\<close> is a batch that waits.\<close>

datatype kafka_op = Batch "meta_data list" | Round bool

fun kafka_run :: "kafka_op list \<Rightarrow> sender_state \<Rightarrow> sender_state option" where
  "kafka_run [] s = Some s"
| "kafka_run (Batch items # ops) s =
     (case Push2KafkaSendQueue items s of Some (Inr s') \<Rightarrow> kafka_run ops s' | _ \<Rightarrow> None)"
| "kafka_run (Round sendOk # ops) s = kafka_run ops (kafka_round sendOk s)"

definition kafka_record :: "meta_data list \<Rightarrow> kafka_data" where
  "kafka_record items = ExtractKafkaItemNew items \<lparr>kd_Endpoint = '''', kd_Timestamp = 0, kd_MetricValue = []\<rparr>"

fun puts_record :: "kafka_op \<Rightarrow> bool" where
  "puts_record (Batch items) = (kd_Endpoint (kafka_record items) \<noteq> '''')"
| "puts_record (Round b) = False"

lemma kafka_dead:
  "\<not> KafkaSenderRuns s \<Longrightarrow> KafkaQueueSize < length (filter puts_record ops) + length (KafkaQueue s) \<Longrightarrow>
    length (KafkaQueue s) \<le> KafkaQueueSize \<Longrightarrow> kafka_run ops s = None"
proof (induction ops arbitrary: s)
  case (Cons op ops)
  show ?case
  proof (cases op)
    case (Batch items)
    show ?thesis
    proof (cases "kd_Endpoint (kafka_record items) = [] \<or> length (KafkaQueue s) < KafkaQueueSize")
      case True
      define s1 where "s1 = (if kd_Endpoint (kafka_record items) = [] then s
        else s\<lparr>KafkaQueue := KafkaQueue s @ [kafka_record items]\<rparr>)"
      have "Push2KafkaSendQueue items s = Some (Inr s1)"
        using True by (auto simp: Push2KafkaSendQueue_def kafka_record_def [symmetric] Let_def s1_def)
      moreover have "kafka_run ops s1 = None"
        using Cons.prems True Batch by (intro Cons.IH) (auto simp: s1_def)
      ultimately show ?thesis by (simp add: Batch)
    qed (simp add: Batch Push2KafkaSendQueue_def kafka_record_def [symmetric] Let_def)
  next
    case (Round b)
    then show ?thesis using Cons by (simp add: kafka_round_def)
  qed
qed simp

text \<open>
  One bad number stops the Kafka channel, and then all of transfer. If a batch with a value that is
  NaN or infinite meets an empty channel, the goroutine that reads the channel ends with it; from then
  on every schedule that puts more records than the channel holds ends in a batch that waits forever.
\<close>

theorem nan_stops_kafka:
  assumes "KafkaSenderRuns s" "KafkaQueue s = []"
    and "kd_Endpoint (kafka_record items) \<noteq> ''''" "\<not> kafka_json_ok (kafka_record items)"
    and "KafkaQueueSize < length (filter puts_record ops)"
  shows "kafka_run (Batch items # Round sendOk # ops) s = None"
proof -
  have "Push2KafkaSendQueue items s = Some (Inr (s\<lparr>KafkaQueue := [kafka_record items]\<rparr>))"
    using assms(2,3) by (simp add: Push2KafkaSendQueue_def kafka_record_def [symmetric] Let_def KafkaQueueSize_def)
  moreover have "kafka_round sendOk (s\<lparr>KafkaQueue := [kafka_record items]\<rparr>) = s\<lparr>KafkaQueue := [], KafkaSenderRuns := False\<rparr>"
    using assms(1,4) by (simp add: kafka_round_def Let_def)
  moreover have "kafka_run ops (s\<lparr>KafkaQueue := [], KafkaSenderRuns := False\<rparr>) = None"
    using assms(5) by (intro kafka_dead) simp_all
  ultimately show ?thesis by simp
qed

theorem nan_stops_kafka_witness:
  "\<exists>s. Start demo_transfer = Inr s \<and>
     kafka_run (Batch [(demo_sample ''GAUGE'' 60)\<lparr>md_Value := NaN\<rparr>] # Round True #
       replicate 64001 (Batch [demo_sample ''GAUGE'' 120])) s = None"
proof -
  obtain s where s: "Start demo_transfer = Inr s" using demo_Start by blast
  have rec: "kafka_record [(demo_sample ''GAUGE'' t)\<lparr>md_Value := v\<rparr>] =
      \<lparr>kd_Endpoint = ''h1'', kd_Timestamp = t, kd_MetricValue = [(''cpu.idle'', v)]\<rparr>" for t v
    by (simp add: kafka_record_def ExtractKafkaItemNew_def extract_one_def demo_sample_def Counter_def)
  have plain_rec: "puts_record (Batch [demo_sample ''GAUGE'' 120])"
    by (simp add: kafka_record_def ExtractKafkaItemNew_def extract_one_def demo_sample_def)
  have "kafka_run (Batch [(demo_sample ''GAUGE'' 60)\<lparr>md_Value := NaN\<rparr>] # Round True #
       replicate 64001 (Batch [demo_sample ''GAUGE'' 120])) s = None"
    using lane_room_Start [OF s] plain_rec
    by (intro nan_stops_kafka) (simp_all only: rec filter_replicate, simp_all add: kafka_json_ok_def KafkaQueueSize_def)
  with s show ?thesis by blast
qed

section \<open>The telnet line\<close>

lemma digits_no_space: "list_all is_digit w \<Longrightarrow> list_all (\<lambda>c. \<not> is_space c) w"
  by (auto simp: list_all_iff is_digit_def is_space_def)

lemma trim_newline_line:
  assumes "w \<noteq> []" "hd w \<noteq> CHR 0x0A" "last w \<noteq> CHR 0x0A"
  shows "trim_newline (w @ [CHR 0x0A]) = w"
proof -
  have "dropWhile (\<lambda>c. c = CHR 0x0A) (w @ [CHR 0x0A]) = w @ [CHR 0x0A]"
    using assms(1,2) by (cases w) simp_all
  moreover have "dropWhile (\<lambda>c. c = CHR 0x0A) (rev w) = rev w"
    using assms(1,3) by (cases "rev w") (auto simp: last_rev hd_rev [symmetric])
  ultimately show ?thesis by (simp add: trim_newline_def Let_def)
qed

definition telnet_line :: "string \<Rightarrow> string \<Rightarrow> nat \<Rightarrow> nat \<Rightarrow> string" where
  "telnet_line endpoint metric ts v =
     ''update '' @ endpoint @ '' '' @ metric @ '' '' @ nat_dec ts @ '' '' @ nat_dec v @ [CHR 0x0A]"

text \<open>
  A telnet line is read back. The line with the word \<open>update\<close>, an endpoint and a counter without white
  space, a time stamp and an integer value becomes the sample with these fields; it has the type COUNTER
  (the comment in the code says DERIVE) and the step 60. A line \<open>quit\<close> after it ends the session.
\<close>

theorem telnet_roundtrip:
  assumes "list_all (\<lambda>c. \<not> is_space c) endpoint" "endpoint \<noteq> []"
    and "list_all (\<lambda>c. \<not> is_space c) metric" "metric \<noteq> []" "ts < 2 ^ 63" "v < 2 ^ 53"
  shows "telnet_lines (telnet_line endpoint metric ts v # ''quit'' # rest) items = items @
    [\<lparr>md_Metric = metric, md_Endpoint = endpoint, md_Timestamp = int ts, md_Step = 60, md_Value = fint (int v),
      md_CounterType = ''COUNTER'', md_Tags = []\<rparr>]"
proof -
  define w where "w = ''update '' @ endpoint @ '' '' @ metric @ '' '' @ nat_dec ts @ '' '' @ nat_dec v"
  have dig: "list_all (\<lambda>c. \<not> is_space c) (nat_dec n)" for n by (rule digits_no_space [OF nat_dec_digits])
  have "last w = last (nat_dec v)" by (simp add: w_def)
  moreover have "last (nat_dec v) \<in> set (nat_dec v)" by simp
  ultimately have "\<not> is_space (last w)" using dig [of v] by (simp add: list_all_iff)
  then have "last w \<noteq> CHR 0x0A" by (auto simp: is_space_def)
  then have line: "trim_newline (telnet_line endpoint metric ts v) = w"
    using trim_newline_line [of w] by (simp add: telnet_line_def w_def)
  have upd: "list_all (\<lambda>c. \<not> is_space c) ''update''" by (simp add: is_space_def)
  have "Go_Strings.fields w = [''update'', endpoint, metric, nat_dec ts, nat_dec v]"
    using fields_word [OF upd] fields_word [OF assms(1,2)] fields_word [OF assms(3,4)]
      fields_word [OF dig [of ts]] fields_word [OF dig [of v]]
    by (simp add: w_def)
  moreover have "atoi (nat_dec ts) = Inr (int ts)"
    using parse_int_itoa [of 64 "int ts"] assms(5) by (simp add: atoi_def itoa_def)
  then have "convertLine2MetaData [endpoint, metric, nat_dec ts, nat_dec v] = Inr
    \<lparr>md_Metric = metric, md_Endpoint = endpoint, md_Timestamp = int ts, md_Step = 60, md_Value = fint (int v),
      md_CounterType = ''COUNTER'', md_Tags = []\<rparr>"
    using parse_float_nat [OF assms(6)]
    by (simp add: convertLine2MetaData_def Let_def transfer_COUNTER_def transfer_DERIVE_def transfer_GAUGE_def
        DEFAULT_STEP_def numeral_2_eq_2 numeral_3_eq_3)
  moreover have "w \<noteq> ''quit''" "w \<noteq> ''''" by (simp_all add: w_def)
  moreover have "trim_newline ''quit'' = ''quit''" by code_simp
  ultimately show ?thesis using line by (simp add: Let_def)
qed

theorem telnet_roundtrip_witness:
  "telnet_lines [telnet_line ''h1'' ''net.in'' 60 7, ''quit''] [] =
    [\<lparr>md_Metric = ''net.in'', md_Endpoint = ''h1'', md_Timestamp = 60, md_Step = 60, md_Value = fint 7,
      md_CounterType = ''COUNTER'', md_Tags = []\<rparr>]"
  using telnet_roundtrip [of "''h1''" "''net.in''" 60 7 "[]" "[]"] by (simp add: is_space_def)

section \<open>Delivery\<close>

lemma push_copies_room:
  assumes "distinct addrs" "\<forall>a \<in> set addrs. \<exists>Q. gget (Queues l) (node @ a) = Some Q \<and> int (length Q) < DefaultSendQueueMaxSize"
  shows "\<exists>l'. push_copies node addrs it e l = Inr (e, l') \<and>
    (\<forall>a \<in> set addrs. \<forall>Q. gget (Queues l) (node @ a) = Some Q \<longrightarrow> gget (Queues l') (node @ a) = Some (it # Q)) \<and>
    (\<forall>k. (\<forall>a \<in> set addrs. k \<noteq> node @ a) \<longrightarrow> gget (Queues l') k = gget (Queues l) k)"
  using assms
proof (induction addrs arbitrary: l)
  case (Cons b addrs)
  obtain Q where Q: "gget (Queues l) (node @ b) = Some Q" "int (length Q) < DefaultSendQueueMaxSize"
    using Cons.prems(2) by auto
  define l1 where "l1 = l\<lparr>Queues := gput (node @ b) (it # Q) (Queues l)\<rparr>"
  have push: "lane_push (node @ b) it l = Inr (True, l1)"
    using Q by (simp add: lane_push_def SafeListLimited_PushFront_def SafeList_PushFront_def l1_def)
  have q1: "gget (Queues l1) k = (if k = node @ b then Some (it # Q) else gget (Queues l) k)" for k
    by (simp add: l1_def)
  have "\<forall>a \<in> set addrs. \<exists>Q. gget (Queues l1) (node @ a) = Some Q \<and> int (length Q) < DefaultSendQueueMaxSize"
    using Cons.prems by (auto simp: q1)
  then obtain l' where l': "push_copies node addrs it e l1 = Inr (e, l')"
    "\<forall>a \<in> set addrs. \<forall>Q. gget (Queues l1) (node @ a) = Some Q \<longrightarrow> gget (Queues l') (node @ a) = Some (it # Q)"
    "\<forall>k. (\<forall>a \<in> set addrs. k \<noteq> node @ a) \<longrightarrow> gget (Queues l') k = gget (Queues l1) k"
    using Cons.IH [of l1] Cons.prems(1) by auto
  have "gget (Queues l') (node @ b) = Some (it # Q)" using l'(3) Cons.prems(1) by (auto simp: q1)
  moreover have "gget (Queues l') (node @ a) = Some (it # Qa)"
    if "a \<in> set addrs" "gget (Queues l) (node @ a) = Some Qa" for a Qa
  proof -
    have "a \<noteq> b" using that(1) Cons.prems(1) by auto
    then have "gget (Queues l1) (node @ a) = Some Qa" using that(2) by (simp add: q1)
    then show ?thesis using l'(2) that(1) by blast
  qed
  moreover have "\<forall>k. (\<forall>a \<in> set (b # addrs). k \<noteq> node @ a) \<longrightarrow> gget (Queues l') k = gget (Queues l) k"
    using l'(3) by (simp add: q1)
  ultimately show ?case
    using l'(1) push Q(1) by (intro exI [of _ l'] conjI) simp_all
qed simp


lemma single_node:
  assumes "NewConsistentHashNodesRing r [n] = Inr c" "0 < r"
  shows "GetNode c pk = Inr n"
proof -
  obtain c' where c': "add_nodes [n] (new_ring\<lparr>NumberOfReplicas := r\<rparr>) = Inr c'" "ring_ok c'"
    "dom (gget (members c')) = {n}" "circle c' \<noteq> []"
    using add_nodes_ok [OF ring_ok_new, of r "[n]"] assms(2) by (auto simp: new_ring_def)
  then have "c' = c" using assms(1) by (simp add: NewConsistentHashNodesRing_def)
  then obtain e where e: "GetNode c pk = Inr e" "gget (members c) e \<noteq> None"
    using GetNode_succ [of c pk] c'(2,4) by metis
  then have "e \<in> dom (gget (members c))" by blast
  then show ?thesis using e(1) c'(3) \<open>c' = c\<close> by simp
qed


end
