(* ===== verification/Nodata_Config.thy ===== *)
theory Nodata_Config
  imports Common_Model Go_Map
begin

text \<open>
  The configuration of the nodata module (\<open>src/modules/nodata/config\<close>): the rows of table \<open>mockcfg\<close>, expanded
  to one configuration per endpoint, and the map of configurations by series that a synchronisation
  puts in place. The database is the record \<open>nodata_db\<close>: the rows a query returns, \<open>None\<close> for a row that
  cannot be scanned, and \<open>None\<close> for a query that fails.
\<close>

section \<open>Rows and endpoints (\<open>service/mockcfg.go\<close>, \<open>service/host.go\<close>)\<close>

record mock_cfg =
  mc_Id :: int
  mc_Name :: string
  mc_Obj :: string
  mc_ObjType :: string
  mc_Metric :: string
  mc_Tags :: tags
  mc_Type :: string
  mc_Step :: int
  mc_Mock :: f64

record nodata_db =
  MockCfgs :: "(mock_cfg \<times> string) option list option" \<comment> \<open>a row and its column tags\<close>
  GrpHosts :: "string \<Rightarrow> (int \<times> string) option list option" \<comment> \<open>hosts of a group that are not in maintenance\<close>

definition checkMockCfg :: "mock_cfg \<Rightarrow> unit res" where
  "checkMockCfg mc =
     (if length (mc_Metric mc) < 1 then Inl (Err ''bad mockcfg, metric empty'')
      else if mc_Type mc \<noteq> ''GAUGE'' then Inl (Err ''bad mockcfg, type illegal'')
      else if mc_Step mc < 1 then Inl (Err ''bad mockcfg, step illegal'')
      else Inr ())"

definition isSpuerNodataCfg :: "nodata_config \<Rightarrow> nodata_config \<Rightarrow> bool" where
  "isSpuerNodataCfg a b \<longleftrightarrow> \<not> (nc_ObjType a = ''group'' \<and> nc_ObjType b = ''host'')"

fun host_rows :: "(int \<times> string) option list \<Rightarrow> (string, int) gomap \<Rightarrow> (string, int) gomap" where
  "host_rows [] hosts = hosts"
| "host_rows (None # rows) hosts = host_rows rows hosts"
| "host_rows (Some (hid, hostname) # rows) hosts =
     (if hid < 0 \<or> hostname = '''' then host_rows rows hosts else host_rows rows (gput hostname hid hosts))"

definition GetHostsFromGroup :: "nodata_db \<Rightarrow> string \<Rightarrow> (string, int) gomap" where
  "GetHostsFromGroup db grpName = (case GrpHosts db grpName of None \<Rightarrow> [] | Some rows \<Rightarrow> host_rows rows [])"

fun trim_names :: "string list \<Rightarrow> string list" where
  "trim_names [] = []"
| "trim_names (host # hlist) = (let nh = trim_space host in if nh \<noteq> '''' then nh # trim_names hlist else trim_names hlist)"

definition getEndpointFromHosts :: "string \<Rightarrow> string list" where
  "getEndpointFromHosts hosts = trim_names (split (CHR 0x0A) hosts)"

fun group_hosts :: "nodata_db \<Rightarrow> string list \<Rightarrow> (string, string) gomap \<Rightarrow> (string, string) gomap" where
  "group_hosts db [] hosts = hosts"
| "group_hosts db (grp # grplist) hosts =
     (let ngrp = trim_space grp in
      if length ngrp < 1 then group_hosts db grplist hosts
      else group_hosts db grplist
        (foldl (\<lambda>hosts hostname. if hostname \<noteq> '''' then gput hostname hostname hosts else hosts) hosts
          (gkeys (GetHostsFromGroup db grp))))"

definition getEndpointFromGroups :: "nodata_db \<Rightarrow> string \<Rightarrow> string list" where
  "getEndpointFromGroups db grps = gkeys (group_hosts db (split (CHR 0x0A) grps) [])"

definition getEndpointFromOther :: "string \<Rightarrow> string list" where
  "getEndpointFromOther other = getEndpointFromHosts other"

definition getEndpoint :: "nodata_db \<Rightarrow> string \<Rightarrow> string \<Rightarrow> string list" where
  "getEndpoint db objType obj =
     (if objType = ''host'' then getEndpointFromHosts obj
      else if objType = ''group'' then getEndpointFromGroups db obj
      else if objType = ''other'' then getEndpointFromOther obj
      else [])"

text \<open>One endpoint of a row: the first configuration of a series stays, unless it came from a group and this one from a host.\<close>

definition put_config :: "mock_cfg \<Rightarrow> string \<Rightarrow> (string, nodata_config) gomap \<Rightarrow> (string, nodata_config) gomap" where
  "put_config t ep ret =
     (let uuid = PK ep (mc_Metric t) (mc_Tags t);
          ncfg = NewNodataConfig (mc_Id t) (mc_Name t) (mc_ObjType t) ep (mc_Metric t) (mc_Tags t)
                   (mc_Type t) (mc_Step t) (mc_Mock t)
      in case gget ret uuid of
           None \<Rightarrow> gput uuid ncfg ret
         | Some val \<Rightarrow> if isSpuerNodataCfg val ncfg then ret else gput uuid ncfg ret)"

fun config_rows :: "nodata_db \<Rightarrow> (mock_cfg \<times> string) option list \<Rightarrow> (string, nodata_config) gomap
    \<Rightarrow> (string, nodata_config) gomap" where
  "config_rows db [] ret = ret"
| "config_rows db (None # rows) ret = config_rows db rows ret"
| "config_rows db (Some (t, tagtext) # rows) ret =
     (let t = t\<lparr>mc_Tags := DictedTagstring tagtext\<rparr> in
      case checkMockCfg t of
        Inl e \<Rightarrow> config_rows db rows ret
      | Inr _ \<Rightarrow>
          let endpoints = getEndpoint db (mc_ObjType t) (mc_Obj t) in
          if length endpoints < 1 then config_rows db rows ret
          else config_rows db rows (foldl (\<lambda>ret ep. put_config t ep ret) ret endpoints))"

definition GetMockCfgFromDB :: "nodata_db \<Rightarrow> (string, nodata_config) gomap" where
  "GetMockCfgFromDB db = (case MockCfgs db of None \<Rightarrow> [] | Some rows \<Rightarrow> config_rows db rows [])"

section \<open>The map of configurations (\<open>config_cron.go\<close>, \<open>config.go\<close>)\<close>

fun sync_loop :: "(string, nodata_config) gomap \<Rightarrow> (string, nodata_config) gomap \<Rightarrow> (string, nodata_config) gomap" where
  "sync_loop [] nm = nm"
| "sync_loop ((k, ndc) # configs) nm =
     (if nc_Endpoint ndc = '''' then sync_loop configs nm
      else sync_loop configs (gput (PK (nc_Endpoint ndc) (nc_Metric ndc) (nc_Tags ndc)) ndc nm))"

text \<open>The new map, which replaces the old one, and its size.\<close>

definition syncNdConfig :: "nodata_db \<Rightarrow> (string, nodata_config) gomap \<times> int" where
  "syncNdConfig db = (let nm = sync_loop (GetMockCfgFromDB db) [] in (nm, int (length nm)))"

section \<open>Facts\<close>

definition config_of :: "mock_cfg \<Rightarrow> string \<Rightarrow> nodata_config" where
  "config_of t ep = NewNodataConfig (mc_Id t) (mc_Name t) (mc_ObjType t) ep (mc_Metric t) (mc_Tags t)
     (mc_Type t) (mc_Step t) (mc_Mock t)"

definition config_key :: "nodata_config \<Rightarrow> string" where
  "config_key c = PK (nc_Endpoint c) (nc_Metric c) (nc_Tags c)"

text \<open>The configurations of the accepted rows, in the order of the rows.\<close>

fun expand_rows :: "nodata_db \<Rightarrow> (mock_cfg \<times> string) option list \<Rightarrow> nodata_config list" where
  "expand_rows db [] = []"
| "expand_rows db (None # rows) = expand_rows db rows"
| "expand_rows db (Some (t, tagtext) # rows) =
     (let t = t\<lparr>mc_Tags := DictedTagstring tagtext\<rparr> in
      if mc_Metric t \<noteq> '''' \<and> mc_Type t = ''GAUGE'' \<and> 1 \<le> mc_Step t
      then map (config_of t) (getEndpoint db (mc_ObjType t) (mc_Obj t)) @ expand_rows db rows
      else expand_rows db rows)"

text \<open>Among the configurations of one series the first one counts, but a host comes before a group.\<close>

fun preferred :: "nodata_config list \<Rightarrow> nodata_config option" where
  "preferred [] = None"
| "preferred (c # cs) =
     Some (if nc_ObjType c = ''group''
           then (case find (\<lambda>d. nc_ObjType d = ''host'') cs of Some d \<Rightarrow> d | None \<Rightarrow> c) else c)"

definition usable :: "nodata_config \<Rightarrow> bool" where
  "usable c \<longleftrightarrow> nc_Endpoint c \<noteq> '''' \<and> nc_Metric c \<noteq> '''' \<and> nc_Type c = ''GAUGE'' \<and> 1 \<le> nc_Step c"

definition pick_config :: "nodata_config \<Rightarrow> (string, nodata_config) gomap \<Rightarrow> (string, nodata_config) gomap" where
  "pick_config c ret =
     (case gget ret (config_key c) of
        None \<Rightarrow> gput (config_key c) c ret
      | Some v \<Rightarrow> if isSpuerNodataCfg v c then ret else gput (config_key c) c ret)"

lemma put_config_pick: "put_config t ep = pick_config (config_of t ep)"
  by (simp add: fun_eq_iff put_config_def pick_config_def config_of_def config_key_def NewNodataConfig_def Let_def
      split: option.split)

lemma config_rows_expand:
  "config_rows db rows ret = foldl (\<lambda>ret c. pick_config c ret) ret (expand_rows db rows)"
  by (induction db rows ret rule: config_rows.induct)
     (auto simp: checkMockCfg_def Let_def put_config_pick foldl_map less_Suc_eq_0_disj)

lemma gwf_pick_config: "gwf ret \<Longrightarrow> gwf (pick_config c ret)"
  by (simp add: pick_config_def split: option.splits)

lemma preferred_pick:
  "preferred (v # c # cs) = preferred ((if isSpuerNodataCfg v c then v else c) # cs)"
  by (auto simp: isSpuerNodataCfg_def)

lemma get_pick_configs:
  "gget (foldl (\<lambda>ret c. pick_config c ret) ret cs) k =
     preferred ((case gget ret k of None \<Rightarrow> [] | Some v \<Rightarrow> [v]) @ filter (\<lambda>c. config_key c = k) cs)"
proof (induction cs arbitrary: ret)
  case Nil
  then show ?case by (simp split: option.splits)
next
  case (Cons c cs)
  show ?case
  proof (cases "config_key c = k")
    case False
    then have "gget (pick_config c ret) k = gget ret k"
      by (simp add: pick_config_def split: option.splits)
    then show ?thesis using Cons.IH False by simp
  next
    case True
    then have "gget (pick_config c ret) k =
        Some (case gget ret k of None \<Rightarrow> c | Some v \<Rightarrow> if isSpuerNodataCfg v c then v else c)"
      by (auto simp: pick_config_def split: option.splits)
    then show ?thesis
      using Cons.IH True by (cases "gget ret k") (simp_all add: preferred_pick del: preferred.simps(2))
  qed
qed

lemma gwf_pick_configs: "gwf ret \<Longrightarrow> gwf (foldl (\<lambda>ret c. pick_config c ret) ret cs)"
  by (induction cs arbitrary: ret) (simp_all add: gwf_pick_config)

lemma preferred_member: "preferred cs = Some c \<Longrightarrow> c \<in> set cs"
  by (cases cs) (auto split: if_splits option.splits simp: find_Some_iff)

lemma trim_names_nonempty: "'''' \<notin> set (trim_names ws)"
  by (induction ws) (auto simp: Let_def)

lemma foldl_names_nonempty:
  "'''' \<notin> dom (gget hosts) \<Longrightarrow>
   '''' \<notin> dom (gget (foldl (\<lambda>hosts h. if h \<noteq> '''' then gput h h hosts else hosts) hosts names))"
  by (induction names arbitrary: hosts) simp_all

lemma group_hosts_nonempty: "'''' \<notin> dom (gget hosts) \<Longrightarrow> '''' \<notin> dom (gget (group_hosts db grps hosts))"
proof (induction db grps hosts rule: group_hosts.induct)
  case (2 db grp grps hosts)
  show ?case
    using 2 foldl_names_nonempty [OF 2(3), of "gkeys (GetHostsFromGroup db grp)"]
    by (cases "length (trim_space grp) < 1") (simp_all add: Let_def)
qed simp

lemma getEndpoint_nonempty: "'''' \<notin> set (getEndpoint db ty obj)"
  using group_hosts_nonempty [of "[]" db "split (CHR 0x0A) obj"]
  by (simp add: getEndpoint_def getEndpointFromHosts_def getEndpointFromGroups_def getEndpointFromOther_def
      trim_names_nonempty gm.keys_dom gkeys_dom del: set_map)

lemma expand_rows_usable: "\<forall>c \<in> set (expand_rows db rows). usable c"
proof (induction db rows rule: expand_rows.induct)
  case (3 db t tagtext rows)
  have "usable (config_of u ep)" if "mc_Metric u \<noteq> ''''" "mc_Type u = ''GAUGE''" "1 \<le> mc_Step u" "ep \<noteq> ''''" for u ep
    using that by (simp add: usable_def config_of_def NewNodataConfig_def)
  moreover have "\<forall>ep \<in> set (getEndpoint db ty obj). ep \<noteq> ''''" for ty obj
    using getEndpoint_nonempty by metis
  ultimately show ?case using 3 by (auto simp: Let_def)
qed simp_all

lemma sync_loop_same:
  "\<forall>(k, c) \<in> set m. config_key c = k \<and> nc_Endpoint c \<noteq> '''' \<Longrightarrow>
     sync_loop m nm = foldl (\<lambda>a (k, v). gput k v a) nm m"
  by (induction m nm rule: sync_loop.induct) (auto simp: config_key_def)

definition configs_of :: "nodata_db \<Rightarrow> nodata_config list" where
  "configs_of db = (case MockCfgs db of None \<Rightarrow> [] | Some rows \<Rightarrow> expand_rows db rows)"

lemma GetMockCfgFromDB_configs: "GetMockCfgFromDB db = foldl (\<lambda>ret c. pick_config c ret) [] (configs_of db)"
  by (simp add: GetMockCfgFromDB_def configs_of_def config_rows_expand split: option.splits)

lemma GetMockCfgFromDB_get:
  "gget (GetMockCfgFromDB db) key = preferred (filter (\<lambda>c. config_key c = key) (configs_of db))"
  by (simp add: GetMockCfgFromDB_configs get_pick_configs)

lemma configs_of_usable: "c \<in> set (configs_of db) \<Longrightarrow> usable c"
  using expand_rows_usable by (auto simp: configs_of_def split: option.splits)

lemma syncNdConfig_map:
  "gwf (fst (syncNdConfig db)) \<and> gget (fst (syncNdConfig db)) = gget (GetMockCfgFromDB db)"
proof -
  let ?m = "GetMockCfgFromDB db"
  have m: "gwf ?m" by (simp add: GetMockCfgFromDB_configs gwf_pick_configs)
  have "config_key c = k \<and> nc_Endpoint c \<noteq> ''''" if "(k, c) \<in> set ?m" for k c
  proof -
    have "gget ?m k = Some c" using m that by (simp add: gwf_def)
    then have "c \<in> set (filter (\<lambda>c. config_key c = k) (configs_of db))"
      unfolding GetMockCfgFromDB_get by (rule preferred_member)
    then show ?thesis using configs_of_usable by (auto simp: usable_def)
  qed
  then have "\<forall>(k, c) \<in> set ?m. config_key c = k \<and> nc_Endpoint c \<noteq> ''''" by blast
  from sync_loop_same [OF this, of "[]"]
  have "fst (syncNdConfig db) = foldl (\<lambda>a (k, v). gput k v a) [] ?m" by (simp add: syncNdConfig_def Let_def)
  then show ?thesis
    using gm.inv_put_all [of "[]" ?m] gm.get_put_all [of "[]" ?m] map_of_rev [OF m] by simp
qed

section \<open>Properties\<close>

text \<open>
  Which mock configuration a series gets. After a synchronisation, whatever the rows, the
  configuration of a series is the first one of the accepted rows for it, except that the first one
  of a host comes before one of a group; it has an endpoint, a metric, type GAUGE and a positive
  step, and stands under its own key.
\<close>

theorem nodata_config_choice:
  "gget (fst (syncNdConfig db)) key = preferred (filter (\<lambda>c. config_key c = key) (configs_of db))
   \<and> (gget (fst (syncNdConfig db)) key = Some c \<longrightarrow> usable c \<and> config_key c = key)"
proof -
  have eq: "gget (fst (syncNdConfig db)) key = preferred (filter (\<lambda>c. config_key c = key) (configs_of db))"
    using syncNdConfig_map [of db] GetMockCfgFromDB_get by simp
  moreover have "usable c \<and> config_key c = key" if "gget (fst (syncNdConfig db)) key = Some c"
    using preferred_member [OF that [unfolded eq]] configs_of_usable by auto
  ultimately show ?thesis by blast
qed

definition demo_row :: "string \<Rightarrow> string \<Rightarrow> int \<Rightarrow> (mock_cfg \<times> string) option" where
  "demo_row ty obj step = Some (\<lparr>mc_Id = step, mc_Name = ''m'', mc_Obj = obj, mc_ObjType = ty, mc_Metric = ''cpu'',
     mc_Tags = [], mc_Type = ''GAUGE'', mc_Step = step, mc_Mock = Zero True\<rparr>, '''')"

definition demo_nodata_db :: nodata_db where
  "demo_nodata_db = \<lparr>MockCfgs = Some [demo_row ''group'' ''web'' 60, demo_row ''host'' ''h1'' 30],
     GrpHosts = (\<lambda>g. if g = ''web'' then Some [Some (1, ''h1''), None] else None)\<rparr>"

lemma demo_endpoints:
  "getEndpoint demo_nodata_db ''group'' ''web'' = [''h1'']" "getEndpoint demo_nodata_db ''host'' ''h1'' = [''h1'']"
  by code_simp+

lemma demo_key: "DictedTagstring '''' = []" "PK ''h1'' ''cpu'' [] = ''h1/cpu''"
  by code_simp+

lemma demo_configs: "configs_of demo_nodata_db =
  map (\<lambda>(ty, st). config_of \<lparr>mc_Id = st, mc_Name = ''m'', mc_Obj = (if ty = ''group'' then ''web'' else ''h1''), mc_ObjType = ty,
     mc_Metric = ''cpu'', mc_Tags = [], mc_Type = ''GAUGE'', mc_Step = st, mc_Mock = Zero True\<rparr> ''h1'') [(''group'', 60), (''host'', 30)]"
proof -
  have rows: "MockCfgs demo_nodata_db = Some [demo_row ''group'' ''web'' 60, demo_row ''host'' ''h1'' 30]"
    by (simp add: demo_nodata_db_def)
  show ?thesis
    by (simp add: configs_of_def rows demo_row_def Let_def demo_endpoints demo_key)
qed

lemma demo_synced: "\<exists>c. gget (fst (syncNdConfig demo_nodata_db)) ''h1/cpu'' = Some c"
proof -
  have "preferred (filter (\<lambda>c. config_key c = ''h1/cpu'') (configs_of demo_nodata_db)) \<noteq> None"
    by (simp add: demo_configs config_of_def config_key_def NewNodataConfig_def demo_key)
  then show ?thesis using syncNdConfig_map [of demo_nodata_db] GetMockCfgFromDB_get [of demo_nodata_db] by simp
qed

theorem nodata_config_choice_witness:
  "map_option nc_Step (gget (fst (syncNdConfig demo_nodata_db)) ''h1/cpu'') = Some 30
   \<and> (\<exists>c. gget (fst (syncNdConfig demo_nodata_db)) ''h1/cpu'' = Some c \<and> usable c)"
proof -
  have "map_option nc_Step (preferred (filter (\<lambda>c. config_key c = ''h1/cpu'') (configs_of demo_nodata_db))) = Some 30"
    by (simp add: demo_configs config_of_def config_key_def NewNodataConfig_def demo_key)
  then have eq: "map_option nc_Step (gget (fst (syncNdConfig demo_nodata_db)) ''h1/cpu'') = Some 30"
    unfolding nodata_config_choice [THEN conjunct1] .
  then obtain c where c: "gget (fst (syncNdConfig demo_nodata_db)) ''h1/cpu'' = Some c" by blast
  have "usable c" using nodata_config_choice [THEN conjunct2, rule_format, OF c] by (rule conjunct1)
  then show ?thesis using eq c by blast
qed

end
