(* ===== verification/Nodata_Judge.thy ===== *)
theory Nodata_Judge
  imports Nodata_Config Safe_List
begin

text \<open>
  The nodata module at work (\<open>src/modules/nodata\<close>): it asks for the newest point of every configured
  series (\<open>collector\<close>), judges which series have stopped reporting and makes mock samples for them
  (\<open>judge\<close>), and posts the mock samples to transfer (\<open>sender\<close>). The state is the record \<open>nodata_state\<close>;
  the API of queries and the POST to transfer are oracles whose calls are logged. The goroutines of
  a collection are run one after the other; a call that never returns is \<open>None\<close>.
\<close>

section \<open>State\<close>

record data_item =
  di_Ts :: int
  di_Value :: f64
  di_FStatus :: string
  di_FTs :: int

record nodata_status =
  ns_Key :: string
  ns_Status :: string
  ns_Cnt :: int
  ns_Ts :: int

record nodata_state =
  NdConfigMap :: "(string, nodata_config) gomap"
  ItemMap :: "(string, data_item list) gomap"
  StatusMap :: "(string, nodata_status) gomap"
  MockMap :: "(string, json_meta_data) gomap"
  Queries :: "graph_last_param list list" \<comment> \<open>what was asked of the API\<close>
  Posts :: "(json_meta_data list \<times> bool) list" \<comment> \<open>what was posted to transfer, and whether it was taken\<close>

text \<open>\<open>s[lo:hi]\<close> of any slice.\<close>

definition slice_list :: "'a list \<Rightarrow> int \<Rightarrow> int \<Rightarrow> 'a list res" where
  "slice_list s lo hi =
     (if 0 \<le> lo \<and> lo \<le> hi \<and> hi \<le> int (length s) then Inr (take (nat (hi - lo)) (drop (nat lo) s))
      else Inl (Panic ''slice bounds out of range''))"

section \<open>Collecting (\<open>collector\<close>)\<close>

definition NewDataItem :: "int \<Rightarrow> f64 \<Rightarrow> string \<Rightarrow> int \<Rightarrow> data_item" where
  "NewDataItem ts val fstatus fts = \<lparr>di_Ts = ts, di_Value = val, di_FStatus = fstatus, di_FTs = fts\<rparr>"

definition GetFirstItem :: "string \<Rightarrow> nodata_state \<Rightarrow> data_item option" where
  "GetFirstItem key s = (case gget (ItemMap s) key of None \<Rightarrow> None | Some listv \<Rightarrow> SafeList_Front listv)"

definition collector_AddItem :: "string \<Rightarrow> data_item \<Rightarrow> nodata_state \<Rightarrow> nodata_state" where
  "collector_AddItem key val s =
     (case gget (ItemMap s) key of
        None \<Rightarrow> s\<lparr>ItemMap := gput key (SafeListLimited_PushFrontViolently 3 val []) (ItemMap s)\<rparr>
      | Some listv \<Rightarrow> s\<lparr>ItemMap := gput key (SafeListLimited_PushFrontViolently 3 val listv) (ItemMap s)\<rparr>)"

definition GetNdConfig :: "string \<Rightarrow> nodata_state \<Rightarrow> nodata_config option" where
  "GetNdConfig key s = gget (NdConfigMap s) key"

fun last_args :: "nodata_state \<Rightarrow> string list \<Rightarrow> graph_last_param list" where
  "last_args s [] = []"
| "last_args s (key # keys) =
     (case GetNdConfig key s of
        None \<Rightarrow> last_args s keys
      | Some ndcfg \<Rightarrow>
          \<lparr>lp_Endpoint = nc_Endpoint ndcfg, lp_Counter = Counter (nc_Metric ndcfg) (nc_Tags ndcfg)\<rparr> # last_args s keys)"

fun store_items :: "int \<Rightarrow> graph_last_resp option list \<Rightarrow> nodata_state \<Rightarrow> nodata_state" where
  "store_items fts [] s = s"
| "store_items fts (None # resp) s = store_items fts resp s"
| "store_items fts (Some glr # resp) s =
     (case lr_Value glr of
        None \<Rightarrow> store_items fts resp s
      | Some v \<Rightarrow> store_items fts resp
          (collector_AddItem (PK2 (lr_Endpoint glr) (lr_Counter glr))
             (NewDataItem (rd_Timestamp v) (rd_Value v) ''OK'' fts) s))"

type_synonym last_api = "nat \<Rightarrow> graph_last_param list \<Rightarrow> graph_last_resp option list option"

definition fetchItemsAndStore :: "last_api \<Rightarrow> int \<Rightarrow> string list \<Rightarrow> int \<Rightarrow> nodata_state \<Rightarrow> int \<times> nodata_state" where
  "fetchItemsAndStore api now fetchKeys fetchSize s =
     (if fetchSize < 1 then (0, s)
      else let args = last_args s fetchKeys in
        if length args < 1 then (0, s)
        else let answer = api (length (Queries s)) args; s = s\<lparr>Queries := Queries s @ [args]\<rparr> in
          case answer of None \<Rightarrow> (0, s) | Some resp \<Rightarrow> (int (length resp), store_items now resp s))"

partial_function (option) collect_loop ::
  "last_api \<Rightarrow> int \<Rightarrow> int \<Rightarrow> string list \<Rightarrow> int \<Rightarrow> int list \<Rightarrow> nodata_state \<Rightarrow> (int list \<times> nodata_state) res option" where
  "collect_loop api now batch keys i rch s =
     (if i < int (length keys) then
        (let leftLen = int (length keys) - i;
             fetchSize = (if leftLen < batch then leftLen else batch)
         in case slice_list keys i (i + fetchSize) of
              Inl e \<Rightarrow> Some (Inl e)
            | Inr fetchKeys \<Rightarrow>
                (let (size, s') = fetchItemsAndStore api now fetchKeys fetchSize s
                 in collect_loop api now batch keys (i + fetchSize) (rch @ [size]) s'))
      else Some (Inr (rch, s)))"

text \<open>Receiving \<open>n\<close> sizes waits forever if there are fewer.\<close>

fun receive :: "nat \<Rightarrow> int list \<Rightarrow> int \<Rightarrow> int option" where
  "receive 0 rch cnt = Some cnt"
| "receive (Suc n) [] cnt = None"
| "receive (Suc n) (x # rch) cnt = receive n rch (cnt + x)"

definition collectDataOnce :: "last_api \<Rightarrow> int \<Rightarrow> int \<Rightarrow> nodata_state \<Rightarrow> (int \<times> nodata_state) res option" where
  "collectDataOnce api now cfgBatch s =
     (let keys = gkeys (NdConfigMap s);
          batch = (if cfgBatch < 100 \<or> 1000 < cfgBatch then 200 else cfgBatch);
          batchCnt = (int (length keys) + batch - 1) sdiv batch
      in bind_out (collect_loop api now batch keys 0 [] s) (\<lambda>(rch, s).
           case receive (nat batchCnt) rch 0 of None \<Rightarrow> None | Some cnt \<Rightarrow> Some (Inr (cnt, s))))"

section \<open>Sending mock samples (\<open>sender\<close>)\<close>

definition AddMock :: "string \<Rightarrow> string \<Rightarrow> string \<Rightarrow> string \<Rightarrow> int \<Rightarrow> string \<Rightarrow> int \<Rightarrow> any_value
    \<Rightarrow> nodata_state \<Rightarrow> nodata_state" where
  "AddMock key endpoint metric tagtext ts dstype step v s =
     s\<lparr>MockMap := gput key \<lparr>jm_Metric = metric, jm_Endpoint = endpoint, jm_Timestamp = ts, jm_Step = step,
         jm_Value = v, jm_CounterType = dstype, jm_Tags = tagtext\<rparr> (MockMap s)\<rparr>"

text \<open>\<open>json.Marshal\<close> fails on a number that is NaN or infinite.\<close>

definition mock_json_ok :: "json_meta_data \<Rightarrow> bool" where
  "mock_json_ok m = (case jm_Value m of VFloat v \<Rightarrow> is_fin v | _ \<Rightarrow> True)"

definition sendItemsToTransfer :: "(nat \<Rightarrow> bool) \<Rightarrow> json_meta_data list \<Rightarrow> nodata_state \<Rightarrow> int res \<times> nodata_state" where
  "sendItemsToTransfer post items s =
     (if length items < 1 then (Inr 0, s)
      else if \<not> list_all mock_json_ok items then (Inl (Err ''json''), s)
      else let ok = post (length (Posts s)) in
        (if ok then Inr (int (length items)) else Inl (Err ''post''), s\<lparr>Posts := Posts s @ [(items, ok)]\<rparr>))"

partial_function (option) send_loop ::
  "(nat \<Rightarrow> bool) \<Rightarrow> int \<Rightarrow> json_meta_data list \<Rightarrow> int \<Rightarrow> int \<Rightarrow> nodata_state \<Rightarrow> (int \<times> nodata_state) res option" where
  "send_loop post batch mocks i cnt s =
     (if i < int (length mocks) then
        (let leftLen = int (length mocks) - i;
             sendSize = (if leftLen < batch then leftLen else batch)
         in case slice_list mocks i (i + sendSize) of
              Inl e \<Rightarrow> Some (Inl e)
            | Inr items \<Rightarrow>
                (let (sent, s') = sendItemsToTransfer post items s;
                     cnt' = (case sent of Inr n \<Rightarrow> cnt + n | Inl _ \<Rightarrow> cnt)
                 in send_loop post batch mocks (i + sendSize) cnt' s'))
      else Some (Inr (cnt, s)))"

definition sendMock :: "(nat \<Rightarrow> bool) \<Rightarrow> int \<Rightarrow> nodata_state \<Rightarrow> (int \<times> nodata_state) res option" where
  "sendMock post batch s =
     (let mocks = map snd (MockMap s) in send_loop post batch mocks 0 0 (s\<lparr>MockMap := []\<rparr>))"

definition SendMockOnce :: "(nat \<Rightarrow> bool) \<Rightarrow> bool \<Rightarrow> int \<Rightarrow> bool \<Rightarrow> nodata_state \<Rightarrow> (int \<times> nodata_state) res option" where
  "SendMockOnce post enabled batch busy s =
     (if busy then Some (Inr (-1, s))
      else if \<not> enabled then Some (Inr (0, s))
      else sendMock post batch s)"

section \<open>Judging (\<open>judge/status.go\<close>, \<open>judge/judge_cron.go\<close>)\<close>

definition LastTs :: "string \<Rightarrow> nodata_state \<Rightarrow> int" where
  "LastTs key s = (case gget (StatusMap s) key of None \<Rightarrow> 0 | Some v \<Rightarrow> ns_Ts v)"

definition NewNodataStatus :: "string \<Rightarrow> string \<Rightarrow> int \<Rightarrow> int \<Rightarrow> nodata_status" where
  "NewNodataStatus key status cnt ts = \<lparr>ns_Key = key, ns_Status = status, ns_Cnt = cnt, ns_Ts = ts\<rparr>"

definition TurnOk :: "string \<Rightarrow> int \<Rightarrow> nodata_state \<Rightarrow> nodata_state" where
  "TurnOk key ts s =
     (case gget (StatusMap s) key of
        None \<Rightarrow> s\<lparr>StatusMap := gput key (NewNodataStatus key ''OK'' 0 ts) (StatusMap s)\<rparr>
      | Some ns \<Rightarrow> s\<lparr>StatusMap := gput key (ns\<lparr>ns_Status := ''OK'', ns_Cnt := 0, ns_Ts := ts\<rparr>) (StatusMap s)\<rparr>)"

definition TurnNodata :: "string \<Rightarrow> int \<Rightarrow> nodata_state \<Rightarrow> nodata_state" where
  "TurnNodata key ts s =
     (case gget (StatusMap s) key of
        None \<Rightarrow> s\<lparr>StatusMap := gput key (NewNodataStatus key ''NODATA'' 1 ts) (StatusMap s)\<rparr>
      | Some ns \<Rightarrow> s\<lparr>StatusMap :=
          gput key (ns\<lparr>ns_Status := ''NODATA'', ns_Cnt := ns_Cnt ns + 1, ns_Ts := ts\<rparr>) (StatusMap s)\<rparr>)"

definition GetNodataStatus :: "string \<Rightarrow> nodata_state \<Rightarrow> nodata_status" where
  "GetNodataStatus key s =
     (case gget (StatusMap s) key of None \<Rightarrow> NewNodataStatus '''' '''' 0 0 | Some v \<Rightarrow> v)"

definition GetAllNodataStatus :: "nodata_state \<Rightarrow> nodata_status list" where
  "GetAllNodataStatus s = List.map_filter (gget (StatusMap s)) (gkeys (StatusMap s))"

definition genTs :: "int \<Rightarrow> int \<Rightarrow> int" where
  "genTs nowTs step = (let step = (if step < 1 then 60 else step) in nowTs - nowTs smod step - 2 * step)"

definition getTimeout :: "int \<Rightarrow> int" where
  "getTimeout step = (if step < 60 then 180 else step * 3)"

definition minfloat64 :: f64 where
  "minfloat64 = flit (1 / 1000000)"

definition fCompare :: "f64 \<Rightarrow> f64 \<Rightarrow> int" where
  "fCompare left right =
     (let d = left - right in
      if - minfloat64 < d \<and> d < minfloat64 then 0 else if minfloat64 \<le> d then 1 else -1)"

definition genMock :: "int \<Rightarrow> string \<Rightarrow> nodata_config \<Rightarrow> nodata_state \<Rightarrow> nodata_state" where
  "genMock ts key ndcfg s =
     AddMock key (nc_Endpoint ndcfg) (nc_Metric ndcfg) (SortedTags (nc_Tags ndcfg)) ts (nc_Type ndcfg) (nc_Step ndcfg)
       (VFloat (nc_Mock ndcfg)) s"

definition judge_key :: "int \<Rightarrow> string \<Rightarrow> nodata_state \<Rightarrow> nodata_state" where
  "judge_key now key s =
     (case GetNdConfig key s of
        None \<Rightarrow> s
      | Some ndcfg \<Rightarrow>
          (let step = nc_Step ndcfg; mock = nc_Mock ndcfg in
           case GetFirstItem key s of
             None \<Rightarrow> s
           | Some item \<Rightarrow>
               let lastTs = now - getTimeout step in
               if di_FStatus item \<noteq> ''OK'' \<or> di_FTs item < lastTs then s
               else if fCompare mock (di_Value item) = 0 then
                 (if LastTs key s + step \<le> now
                  then genMock (genTs now step) key ndcfg (TurnNodata key now s) else s)
               else if di_Ts item < lastTs then
                 (if LastTs key s + step \<le> now
                  then genMock (genTs now step) key ndcfg (TurnNodata key now s) else s)
               else TurnOk key now s))"

definition nodata_judge :: "int \<Rightarrow> nodata_state \<Rightarrow> nodata_state" where
  "nodata_judge now s = foldl (\<lambda>s key. judge_key now key s) s (gkeys (NdConfigMap s))"

section \<open>Facts: one round of judging\<close>

text \<open>What a round decides on a series, from its configuration and its newest collected point.\<close>

datatype verdict = Skipped | Missing | Reporting

definition verdict_of :: "int \<Rightarrow> nodata_config \<Rightarrow> data_item \<Rightarrow> verdict" where
  "verdict_of now c it =
     (if di_FStatus it \<noteq> ''OK'' \<or> di_FTs it < now - getTimeout (nc_Step c) then Skipped
      else if fCompare (nc_Mock c) (di_Value it) = 0 \<or> di_Ts it < now - getTimeout (nc_Step c) then Missing
      else Reporting)"

definition series_verdict :: "int \<Rightarrow> nodata_state \<Rightarrow> string \<Rightarrow> verdict" where
  "series_verdict now s key =
     (case (gget (NdConfigMap s) key, GetFirstItem key s) of
        (Some c, Some it) \<Rightarrow> verdict_of now c it | _ \<Rightarrow> Skipped)"

text \<open>A missing series gets a mock sample when a step has passed since its last verdict.\<close>

definition mock_due :: "int \<Rightarrow> nodata_state \<Rightarrow> string \<Rightarrow> bool" where
  "mock_due now s key \<longleftrightarrow> series_verdict now s key = Missing \<and>
     (\<exists>c. gget (NdConfigMap s) key = Some c \<and> LastTs key s + nc_Step c \<le> now)"

definition mock_sample :: "int \<Rightarrow> nodata_config \<Rightarrow> json_meta_data" where
  "mock_sample now c = \<lparr>jm_Metric = nc_Metric c, jm_Endpoint = nc_Endpoint c, jm_Timestamp = genTs now (nc_Step c),
     jm_Step = nc_Step c, jm_Value = VFloat (nc_Mock c), jm_CounterType = nc_Type c, jm_Tags = SortedTags (nc_Tags c)\<rparr>"

definition status_now :: "string \<Rightarrow> string \<Rightarrow> int \<Rightarrow> int \<Rightarrow> nodata_status option \<Rightarrow> nodata_status" where
  "status_now key st cnt now old =
     (case old of None \<Rightarrow> \<lparr>ns_Key = key, ns_Status = st, ns_Cnt = cnt, ns_Ts = now\<rparr>
      | Some ns \<Rightarrow> ns\<lparr>ns_Status := st, ns_Cnt := cnt, ns_Ts := now\<rparr>)"

definition nodata_count :: "nodata_state \<Rightarrow> string \<Rightarrow> int" where
  "nodata_count s key = (case gget (StatusMap s) key of None \<Rightarrow> 0 | Some ns \<Rightarrow> ns_Cnt ns)"

definition round_status :: "int \<Rightarrow> nodata_state \<Rightarrow> string \<Rightarrow> nodata_status option" where
  "round_status now s key =
     (if mock_due now s key
      then Some (status_now key ''NODATA'' (nodata_count s key + 1) now (gget (StatusMap s) key))
      else if series_verdict now s key = Reporting
      then Some (status_now key ''OK'' 0 now (gget (StatusMap s) key))
      else gget (StatusMap s) key)"

definition round_mock :: "int \<Rightarrow> nodata_state \<Rightarrow> string \<Rightarrow> json_meta_data option" where
  "round_mock now s key =
     (if mock_due now s key then map_option (mock_sample now) (gget (NdConfigMap s) key) else gget (MockMap s) key)"

lemmas round_defs = mock_due_def series_verdict_def verdict_of_def GetNdConfig_def Let_def

lemma TurnOk_eq:
  "TurnOk key now s = s\<lparr>StatusMap := gput key (status_now key ''OK'' 0 now (gget (StatusMap s) key)) (StatusMap s)\<rparr>"
  by (simp add: TurnOk_def status_now_def NewNodataStatus_def split: option.split)

lemma TurnNodata_eq:
  "TurnNodata key now s = s\<lparr>StatusMap :=
     gput key (status_now key ''NODATA'' (nodata_count s key + 1) now (gget (StatusMap s) key)) (StatusMap s)\<rparr>"
  by (simp add: TurnNodata_def status_now_def NewNodataStatus_def nodata_count_def split: option.split)

lemma genMock_eq:
  "genMock (genTs now (nc_Step c)) key c s = s\<lparr>MockMap := gput key (mock_sample now c) (MockMap s)\<rparr>"
  by (simp add: genMock_def AddMock_def mock_sample_def)

text \<open>One key: the three cases, by the verdict.\<close>

lemma judge_key_cases:
  "judge_key now key s =
     (if mock_due now s key
      then (case gget (NdConfigMap s) key of None \<Rightarrow> s | Some c \<Rightarrow> genMock (genTs now (nc_Step c)) key c (TurnNodata key now s))
      else if series_verdict now s key = Reporting then TurnOk key now s else s)"
proof (cases "gget (NdConfigMap s) key")
  case None
  then show ?thesis by (simp add: judge_key_def round_defs)
next
  case (Some c)
  then show ?thesis by (cases "GetFirstItem key s") (simp_all add: judge_key_def round_defs)
qed

lemma judge_key_status:
  "gget (StatusMap (judge_key now key s)) = (gget (StatusMap s))(key := round_status now s key)"
proof (cases "mock_due now s key")
  case True
  then obtain c where "gget (NdConfigMap s) key = Some c" by (auto simp: mock_due_def)
  then show ?thesis using True by (simp add: judge_key_cases round_status_def genMock_eq TurnNodata_eq fun_eq_iff)
next
  case False
  then show ?thesis by (simp add: judge_key_cases round_status_def TurnOk_eq fun_eq_iff)
qed

lemma judge_key_mock:
  "gget (MockMap (judge_key now key s)) = (gget (MockMap s))(key := round_mock now s key)"
proof (cases "mock_due now s key")
  case True
  then obtain c where "gget (NdConfigMap s) key = Some c" by (auto simp: mock_due_def)
  then show ?thesis using True by (simp add: judge_key_cases round_mock_def genMock_eq TurnNodata_eq fun_eq_iff)
next
  case False
  then show ?thesis by (simp add: judge_key_cases round_mock_def TurnOk_eq)
qed

lemma judge_key_rest [simp]:
  "NdConfigMap (judge_key now key s) = NdConfigMap s" "ItemMap (judge_key now key s) = ItemMap s"
  "Queries (judge_key now key s) = Queries s" "Posts (judge_key now key s) = Posts s"
  by (simp_all add: judge_key_cases genMock_eq TurnNodata_eq TurnOk_eq split: option.split)

lemma judge_key_gwf:
  "gwf (MockMap s) \<Longrightarrow> gwf (MockMap (judge_key now key s))"
  by (simp add: judge_key_cases genMock_eq TurnNodata_eq TurnOk_eq split: option.split)

text \<open>The decisions on a series depend on what the state holds under its key.\<close>

lemma round_cong:
  assumes "NdConfigMap s' = NdConfigMap s" "ItemMap s' = ItemMap s"
    "gget (StatusMap s') key = gget (StatusMap s) key" "gget (MockMap s') key = gget (MockMap s) key"
  shows "round_status now s' key = round_status now s key" "round_mock now s' key = round_mock now s key"
    "mock_due now s' key = mock_due now s key"
proof -
  have parts: "series_verdict now s' key = series_verdict now s key" "LastTs key s' = LastTs key s"
    "nodata_count s' key = nodata_count s key"
    using assms by (simp_all add: series_verdict_def GetFirstItem_def LastTs_def nodata_count_def)
  then show due: "mock_due now s' key = mock_due now s key" using assms(1) by (simp add: mock_due_def)
  show "round_status now s' key = round_status now s key" "round_mock now s' key = round_mock now s key"
    by (simp_all only: round_status_def round_mock_def due parts assms)
qed

lemma judge_keys:
  assumes "distinct keys"
  shows "gget (StatusMap (foldl (\<lambda>s key. judge_key now key s) s keys)) k =
      (if k \<in> set keys then round_status now s k else gget (StatusMap s) k)"
    "gget (MockMap (foldl (\<lambda>s key. judge_key now key s) s keys)) k =
      (if k \<in> set keys then round_mock now s k else gget (MockMap s) k)"
  using assms
proof (induction keys arbitrary: s)
  case (Cons key keys)
  {
    case 1
    then show ?case
      using Cons.IH(1) [of "judge_key now key s"] round_cong(1) [of "judge_key now key s" s k now]
      by (cases "k = key") (simp_all add: judge_key_status judge_key_mock)
  next
    case 2
    then show ?case
      using Cons.IH(2) [of "judge_key now key s"] round_cong(2) [of "judge_key now key s" s k now]
      by (cases "k = key") (simp_all add: judge_key_status judge_key_mock)
  }
qed simp_all

lemma judge_keys_rest [simp]:
  "NdConfigMap (foldl (\<lambda>s key. judge_key now key s) s keys) = NdConfigMap s"
  "ItemMap (foldl (\<lambda>s key. judge_key now key s) s keys) = ItemMap s"
  "Queries (foldl (\<lambda>s key. judge_key now key s) s keys) = Queries s"
  "Posts (foldl (\<lambda>s key. judge_key now key s) s keys) = Posts s"
  by (induction keys arbitrary: s) simp_all

lemma judge_maps:
  assumes "gwf (NdConfigMap s)"
  shows "gget (StatusMap (nodata_judge now s)) key = round_status now s key"
    "gget (MockMap (nodata_judge now s)) key = round_mock now s key"
proof -
  have d: "distinct (gkeys (NdConfigMap s))" using assms by (simp add: gwf_def)
  have "round_status now s key = gget (StatusMap s) key" "round_mock now s key = gget (MockMap s) key"
    if "key \<notin> set (gkeys (NdConfigMap s))"
    using that unfolding gkeys_dom
    by (auto simp: round_status_def round_mock_def mock_due_def series_verdict_def domIff)
  then show "gget (StatusMap (nodata_judge now s)) key = round_status now s key"
    "gget (MockMap (nodata_judge now s)) key = round_mock now s key"
    using judge_keys [OF d, of now s key] by (auto simp: nodata_judge_def)
qed

section \<open>Facts: mock samples over time\<close>

text \<open>
  What can happen to the module between two rounds: collecting stores a point of a series, the
  sender empties the map of mocks, a round judges at a time.
\<close>

datatype nodata_step = Judge int | Collect string data_item | Drain

fun nodata_do :: "nodata_step \<Rightarrow> nodata_state \<Rightarrow> nodata_state" where
  "nodata_do (Judge now) s = nodata_judge now s"
| "nodata_do (Collect key it) s = collector_AddItem key it s"
| "nodata_do Drain s = s\<lparr>MockMap := []\<rparr>"

text \<open>The time stamps of the mock samples a schedule makes for a series.\<close>

fun mock_times :: "string \<Rightarrow> nodata_step list \<Rightarrow> nodata_state \<Rightarrow> int list" where
  "mock_times key [] s = []"
| "mock_times key (st # sts) s =
     (case st of
        Judge now \<Rightarrow>
          (case gget (MockMap (nodata_judge now (s\<lparr>MockMap := []\<rparr>))) key of
             Some m \<Rightarrow> jm_Timestamp m # mock_times key sts (nodata_do st s)
           | None \<Rightarrow> mock_times key sts (nodata_do st s))
      | _ \<Rightarrow> mock_times key sts (nodata_do st s))"

definition judge_times :: "nodata_step list \<Rightarrow> int list" where
  "judge_times sts = List.map_filter (\<lambda>st. case st of Judge now \<Rightarrow> Some now | _ \<Rightarrow> None) sts"

lemma AddItem_rest [simp]:
  "NdConfigMap (collector_AddItem key it s) = NdConfigMap s" "StatusMap (collector_AddItem key it s) = StatusMap s"
  "MockMap (collector_AddItem key it s) = MockMap s" "Queries (collector_AddItem key it s) = Queries s"
  "Posts (collector_AddItem key it s) = Posts s"
  by (simp_all add: collector_AddItem_def split: option.split)

lemma genTs_bounds:
  assumes "1 \<le> step" "0 \<le> now"
  shows "genTs now step mod step = 0" "genTs now step \<le> now - 2 * step" "now - 3 * step < genTs now step"
  using assms pos_mod_bound [of step now] by (simp_all add: genTs_def smod_nonneg mod_diff_eq [symmetric])

lemma genTs_div: "1 \<le> step \<Longrightarrow> 0 \<le> now \<Longrightarrow> genTs now step = (now div step - 2) * step"
  by (simp add: genTs_def Let_def smod_nonneg minus_mod_eq_div_mult algebra_simps)

lemma genTs_mono: "1 \<le> step \<Longrightarrow> 0 \<le> t \<Longrightarrow> t \<le> now \<Longrightarrow> genTs t step \<le> genTs now step"
  by (simp add: genTs_div zdiv_mono1)

lemma genTs_step:
  assumes "1 \<le> step" "0 \<le> t" "t + step \<le> now"
  shows "genTs t step + step \<le> genTs now step"
proof -
  have "(t + step) div step = t div step + 1" using assms(1) by simp
  then have "t div step + 1 \<le> now div step" using zdiv_mono1 [OF assms(3), of step] assms(1) by simp
  then have "(t div step + 1) * step \<le> now div step * step" using assms(1) by (intro mult_right_mono) simp_all
  then show ?thesis using assms by (simp add: genTs_div algebra_simps)
qed

lemma mock_due_drain: "mock_due now (s\<lparr>MockMap := m\<rparr>) key = mock_due now s key"
  by (simp add: mock_due_def series_verdict_def GetFirstItem_def LastTs_def)

lemma mock_due_cases:
  assumes "gwf (NdConfigMap s)"
  shows "gget (MockMap (nodata_judge now (s\<lparr>MockMap := []\<rparr>))) key =
     (if mock_due now s key then map_option (mock_sample now) (gget (NdConfigMap s) key) else None)"
  using judge_maps(2) [of "s\<lparr>MockMap := []\<rparr>" now key] assms by (simp add: round_mock_def mock_due_drain)

lemma LastTs_round:
  assumes "gwf (NdConfigMap s)"
  shows "LastTs key (nodata_judge now s) = LastTs key s \<or> LastTs key (nodata_judge now s) = now"
    and "mock_due now s key \<Longrightarrow> LastTs key (nodata_judge now s) = now"
  using judge_maps(1) [OF assms, of now key]
  by (auto simp: LastTs_def round_status_def status_now_def split: option.splits if_splits)

lemma mock_times_spaced:
  assumes "gwf (NdConfigMap s)" "gget (NdConfigMap s) key = Some c" "1 \<le> nc_Step c"
    "sorted (judge_times sts)" "\<forall>t \<in> set (judge_times sts). LastTs key s \<le> t" "0 \<le> LastTs key s"
  shows "sorted_wrt (\<lambda>a b. a + nc_Step c \<le> b) (mock_times key sts s) \<and>
    (\<forall>m \<in> set (mock_times key sts s).
       genTs (LastTs key s) (nc_Step c) + nc_Step c \<le> m \<and> (\<exists>now \<in> set (judge_times sts). m = genTs now (nc_Step c)))"
  using assms
proof (induction sts arbitrary: s)
  case (Cons st sts)
  show ?case
  proof (cases st)
    case (Judge now)
    let ?s = "nodata_judge now s"
    have times: "sorted (judge_times sts)" "\<forall>t \<in> set (judge_times sts). now \<le> t" "LastTs key s \<le> now"
      using Cons.prems(4,5) Judge by (auto simp: judge_times_def List.map_filter_simps)
    have s: "gwf (NdConfigMap ?s)" "gget (NdConfigMap ?s) key = Some c"
      using Cons.prems(1,2) by (simp_all add: nodata_judge_def)
    have last: "0 \<le> LastTs key ?s" "\<forall>t \<in> set (judge_times sts). LastTs key ?s \<le> t" "LastTs key s \<le> LastTs key ?s"
      using LastTs_round(1) [OF Cons.prems(1), of key now] times Cons.prems(6) by force+
    note ih = Cons.IH [OF s Cons.prems(3) times(1) last(2,1)]
    have mono: "genTs (LastTs key s) (nc_Step c) \<le> genTs (LastTs key ?s) (nc_Step c)"
      using genTs_mono [OF Cons.prems(3,6) last(3)] .
    show ?thesis
    proof (cases "mock_due now s key")
      case True
      then have due: "LastTs key s + nc_Step c \<le> now" using Cons.prems(2) by (auto simp: mock_due_def)
      have "mock_times key (st # sts) s = genTs now (nc_Step c) # mock_times key sts ?s"
        using True Judge mock_due_cases [OF Cons.prems(1), of now key] Cons.prems(2) by (simp add: mock_sample_def)
      moreover have "genTs (LastTs key s) (nc_Step c) + nc_Step c \<le> genTs now (nc_Step c)"
        using genTs_step [OF Cons.prems(3,6) due] .
      moreover have "LastTs key ?s = now" using LastTs_round(2) [OF Cons.prems(1) True] .
      ultimately show ?thesis
        using ih Judge Cons.prems(3) by (auto simp: judge_times_def List.map_filter_simps)
    next
      case False
      then have "mock_times key (st # sts) s = mock_times key sts ?s"
        using Judge mock_due_cases [OF Cons.prems(1), of now key] by simp
      then show ?thesis
        using ih mono Judge by (fastforce simp: judge_times_def List.map_filter_simps)
    qed
  next
    case (Collect k it)
    then show ?thesis
      using Cons.IH [of "collector_AddItem k it s"] Cons.prems
      by (simp add: judge_times_def List.map_filter_simps LastTs_def)
  next
    case Drain
    then show ?thesis
      using Cons.IH [of "s\<lparr>MockMap := []\<rparr>"] Cons.prems
      by (simp add: judge_times_def List.map_filter_simps LastTs_def)
  qed
qed simp

section \<open>Facts: batches\<close>

function batches :: "nat \<Rightarrow> 'a list \<Rightarrow> 'a list list" where
  "batches n xs = (if n = 0 \<or> xs = [] then [] else take n xs # batches n (drop n xs))"
  by pat_completeness auto
termination by (relation "measure (\<lambda>(n, xs). length xs)") (auto simp: neq_Nil_conv)

declare batches.simps [simp del]

lemma concat_batches: "0 < n \<Longrightarrow> concat (batches n xs) = xs"
  by (induction n xs rule: batches.induct) (subst batches.simps, auto)

lemma batches_size: "ys \<in> set (batches n xs) \<Longrightarrow> ys \<noteq> [] \<and> length ys \<le> n"
proof (induction n xs rule: batches.induct)
  case (1 n xs)
  then show ?case
    by (cases "n = 0 \<or> xs = []") (auto simp: batches.simps [of n xs])
qed

lemma length_batches: "0 < n \<Longrightarrow> length (batches n xs) = (length xs + n - 1) div n"
proof (induction n xs rule: batches.induct)
  case (1 n xs)
  show ?case
  proof (cases "xs = []")
    case True
    then show ?thesis using 1 by (simp add: batches.simps)
  next
    case False
    then have ih: "length (batches n (drop n xs)) = (length xs - n + n - 1) div n" using 1 by simp
    have shift: "(length xs + n - 1) div n = Suc ((length xs - 1) div n)"
    proof -
      have "length xs + n - 1 = (length xs - 1) + n" using False by (cases xs) simp_all
      then show ?thesis using 1(2) by (simp only: div_add_self2)
    qed
    have "length (batches n (drop n xs)) = (length xs - 1) div n"
    proof (cases "n \<le> length xs")
      case le: False
      then have "length xs - 1 < n" by simp
      then show ?thesis using le by (simp add: batches.simps)
    qed (use ih in simp)
    then show ?thesis using False 1(2) shift by (subst batches.simps) (simp del: One_nat_def)
  qed
qed

lemma slice_list_chunk:
  assumes "0 < batch" "i < length xs"
  shows "(if int (length xs) - int i < batch then int (length xs) - int i else batch)
      = int (length (take (nat batch) (drop i xs)))"
    and "slice_list xs (int i) (int i + int (length (take (nat batch) (drop i xs)))) = Inr (take (nat batch) (drop i xs))"
  using assms by (auto simp: slice_list_def min_def)

definition collect_chunk :: "last_api \<Rightarrow> int \<Rightarrow> int list \<times> nodata_state \<Rightarrow> string list \<Rightarrow> int list \<times> nodata_state" where
  "collect_chunk api now a ks =
     (let (size, s') = fetchItemsAndStore api now ks (int (length ks)) (snd a) in (fst a @ [size], s'))"

lemma collect_loop_batches:
  assumes "0 < batch"
  shows "i \<le> length keys \<Longrightarrow> collect_loop api now batch keys (int i) rch s =
    Some (Inr (foldl (collect_chunk api now) (rch, s) (batches (nat batch) (drop i keys))))"
proof (induction "length keys - i" arbitrary: i rch s rule: less_induct)
  case less
  show ?case
  proof (cases "i < length keys")
    case True
    let ?ks = "take (nat batch) (drop i keys)"
    let ?j = "i + length ?ks"
    obtain size s' where f: "fetchItemsAndStore api now ?ks (int (length ?ks)) s = (size, s')" by force
    have j: "?j \<le> length keys" "length keys - ?j < length keys - i" using True assms by auto
    have d: "drop (nat batch) (drop i keys) = drop ?j keys" using True by (simp add: min_def add.commute)
    note sl = slice_list_chunk [OF assms True]
    show ?thesis
      using less.hyps [OF j(2,1), of "rch @ [size]" s'] True assms f
      unfolding collect_loop.simps [of _ _ _ _ "int i"] batches.simps [of _ "drop i keys"] Let_def sl(1)
      by (simp only: sl(2)) (simp add: collect_chunk_def d del: drop_drop length_take)
  next
    case False
    then show ?thesis using less.prems by (subst collect_loop.simps) (simp add: batches.simps)
  qed
qed

definition send_chunk :: "(nat \<Rightarrow> bool) \<Rightarrow> int \<times> nodata_state \<Rightarrow> json_meta_data list \<Rightarrow> int \<times> nodata_state" where
  "send_chunk post a items =
     (let (sent, s') = sendItemsToTransfer post items (snd a)
      in ((case sent of Inr n \<Rightarrow> fst a + n | Inl _ \<Rightarrow> fst a), s'))"

lemma send_loop_batches:
  assumes "0 < batch"
  shows "i \<le> length mocks \<Longrightarrow> send_loop post batch mocks (int i) cnt s =
    Some (Inr (foldl (send_chunk post) (cnt, s) (batches (nat batch) (drop i mocks))))"
proof (induction "length mocks - i" arbitrary: i cnt s rule: less_induct)
  case less
  show ?case
  proof (cases "i < length mocks")
    case True
    let ?ks = "take (nat batch) (drop i mocks)"
    let ?j = "i + length ?ks"
    obtain sent s' where f: "sendItemsToTransfer post ?ks s = (sent, s')" by force
    have j: "?j \<le> length mocks" "length mocks - ?j < length mocks - i" using True assms by auto
    have d: "drop (nat batch) (drop i mocks) = drop ?j mocks" using True by (simp add: min_def add.commute)
    note sl = slice_list_chunk [OF assms True]
    show ?thesis
      using less.hyps [OF j(2,1), of "case sent of Inr n \<Rightarrow> cnt + n | Inl _ \<Rightarrow> cnt" s'] True assms f
      unfolding send_loop.simps [of _ _ _ "int i"] batches.simps [of _ "drop i mocks"] Let_def sl(1)
      by (simp only: sl(2)) (simp add: send_chunk_def d del: drop_drop length_take split: sum.split)
  next
    case False
    then show ?thesis using less.prems by (subst send_loop.simps) (simp add: batches.simps)
  qed
qed

section \<open>Facts: collecting\<close>

lemma store_items_rest [simp]:
  "NdConfigMap (store_items now resp s) = NdConfigMap s" "StatusMap (store_items now resp s) = StatusMap s"
  "MockMap (store_items now resp s) = MockMap s" "Queries (store_items now resp s) = Queries s"
  "Posts (store_items now resp s) = Posts s"
  by (induction now resp s rule: store_items.induct) (auto split: option.split)

lemma last_args_cong: "NdConfigMap s' = NdConfigMap s \<Longrightarrow> last_args s' keys = last_args s keys"
  by (induction keys) (simp_all add: GetNdConfig_def split: option.split)

lemma last_args_append: "last_args s (a @ b) = last_args s a @ last_args s b"
  by (induction a) (simp_all split: option.split)

lemma length_last_args: "length (last_args s keys) \<le> length keys"
  by (induction keys) (auto split: option.split)

lemma fetch_rest:
  assumes "fetchItemsAndStore api now keys n s = (m, s')"
  shows "NdConfigMap s' = NdConfigMap s \<and> StatusMap s' = StatusMap s \<and> MockMap s' = MockMap s \<and> Posts s' = Posts s"
  using assms by (auto simp: fetchItemsAndStore_def Let_def split: if_splits option.splits)

lemma fetch_Queries:
  assumes "fetchItemsAndStore api now keys (int (length keys)) s = (m, s')" "keys \<noteq> []"
  shows "Queries s' = Queries s @ filter (\<lambda>q. q \<noteq> []) [last_args s keys]"
  using assms by (auto simp: fetchItemsAndStore_def Let_def split: if_splits option.splits)

lemma collect_chunk_step:
  "fetchItemsAndStore api now ks (int (length ks)) s = (m, s') \<Longrightarrow> collect_chunk api now (rch, s) ks = (rch @ [m], s')"
  by (simp add: collect_chunk_def)

lemma collect_chunks_queries:
  "\<forall>ks \<in> set kss. ks \<noteq> [] \<Longrightarrow> foldl (collect_chunk api now) (rch, s) kss = (rch', s') \<Longrightarrow>
     length rch' = length rch + length kss \<and> NdConfigMap s' = NdConfigMap s \<and>
     StatusMap s' = StatusMap s \<and> MockMap s' = MockMap s \<and> Posts s' = Posts s \<and>
     Queries s' = Queries s @ filter (\<lambda>q. q \<noteq> []) (map (last_args s) kss)"
proof (induction kss arbitrary: rch s)
  case (Cons ks kss)
  obtain m s1 where f: "fetchItemsAndStore api now ks (int (length ks)) s = (m, s1)" by force
  have step: "foldl (collect_chunk api now) (rch @ [m], s1) kss = (rch', s')"
    using Cons.prems(2) by (simp add: collect_chunk_step [OF f])
  have "NdConfigMap s1 = NdConfigMap s" using fetch_rest [OF f] by simp
  then have args: "last_args s1 = last_args s" using last_args_cong by blast
  have "ks \<noteq> []" "\<forall>ks \<in> set kss. ks \<noteq> []" using Cons.prems(1) by simp_all
  from Cons.IH [OF this(2) step] show ?case
    using fetch_rest [OF f] fetch_Queries [OF f \<open>ks \<noteq> []\<close>] args by simp
qed simp

lemma receive_all: "receive (length rch) rch cnt = Some (cnt + sum_list rch)"
  by (induction rch arbitrary: cnt) simp_all

lemma concat_filter_args: "concat (filter (\<lambda>q. q \<noteq> []) (map (last_args s) kss)) = last_args s (concat kss)"
  by (induction kss) (simp_all add: last_args_append)

lemma sdiv_batches:
  "0 < b \<Longrightarrow> nat ((int n + b - 1) sdiv b) = (n + nat b - 1) div nat b"
proof -
  assume b: "0 < b"
  have "int n + b - 1 = int (n + nat b - 1)" "b = int (nat b)" using b by auto
  moreover have "int k sdiv int m = int (k div m)" for k m
    by (simp add: signed_divide_int_def sgn_if zdiv_int)
  ultimately show ?thesis by (metis nat_int)
qed

definition norm_batch :: "int \<Rightarrow> int" where
  "norm_batch cfgBatch = (if cfgBatch < 100 \<or> 1000 < cfgBatch then 200 else cfgBatch)"

lemma norm_batch_bounds: "0 < norm_batch b" "norm_batch b \<le> 1000"
  by (simp_all add: norm_batch_def)

text \<open>The channel gets one size per goroutine, so the loop that receives them ends.\<close>

lemma collectDataOnce_eq:
  defines "B \<equiv> \<lambda>b s. batches (nat (norm_batch b)) (gkeys (NdConfigMap s))"
  assumes "foldl (collect_chunk api now) ([], s) (B cfgBatch s) = (rch, s')"
  shows "collectDataOnce api now cfgBatch s = Some (Inr (sum_list rch, s'))"
proof -
  have n: "0 < nat (norm_batch cfgBatch)" using norm_batch_bounds by simp
  have "\<forall>ks \<in> set (B cfgBatch s). ks \<noteq> []" using batches_size by (auto simp: B_def)
  from collect_chunks_queries [OF this assms(2)] have "length rch = length (B cfgBatch s)" by simp
  then have cnt: "nat ((int (length (gkeys (NdConfigMap s))) + norm_batch cfgBatch - 1) sdiv norm_batch cfgBatch) = length rch"
    by (simp only: B_def sdiv_batches [OF norm_batch_bounds(1)] length_batches [OF n])
  have loop: "collect_loop api now (norm_batch cfgBatch) (gkeys (NdConfigMap s)) 0 [] s = Some (Inr (rch, s'))"
    using collect_loop_batches [OF norm_batch_bounds(1) le0, of api now cfgBatch "gkeys (NdConfigMap s)" "[]" s] assms(2)
    by (simp add: B_def)
  show ?thesis
    unfolding collectDataOnce_def Let_def norm_batch_def [symmetric] loop bind_out_simps prod.case cnt receive_all by simp
qed

text \<open>What the API answers when it knows the newest point \<open>f p\<close> of every series \<open>p\<close>.\<close>

definition answering :: "(graph_last_param \<Rightarrow> rrd_data) \<Rightarrow> last_api" where
  "answering f n args = Some (map (\<lambda>p. Some \<lparr>lr_Endpoint = lp_Endpoint p, lr_Counter = lp_Counter p, lr_Value = Some (f p)\<rparr>) args)"

definition param_of :: "nodata_config \<Rightarrow> graph_last_param" where
  "param_of c = \<lparr>lp_Endpoint = nc_Endpoint c, lp_Counter = Counter (nc_Metric c) (nc_Tags c)\<rparr>"

definition collected :: "(graph_last_param \<Rightarrow> rrd_data) \<Rightarrow> int \<Rightarrow> nodata_config \<Rightarrow> data_item" where
  "collected f now c = NewDataItem (rd_Timestamp (f (param_of c))) (rd_Value (f (param_of c))) ''OK'' now"

lemma first_AddItem: "GetFirstItem k (collector_AddItem key it s) = (if k = key then Some it else GetFirstItem k s)"
  by (auto simp: GetFirstItem_def collector_AddItem_def SafeListLimited_PushFrontViolently_def SafeList_PushFront_def
      SafeList_PopBack_def SafeList_Front_def Let_def split: option.split list.split)

lemma store_answers:
  assumes "\<forall>k c. gget (NdConfigMap s) k = Some c \<longrightarrow> config_key c = k" "gget (NdConfigMap s) key = Some c"
    and "NdConfigMap s' = NdConfigMap s"
  shows "GetFirstItem key (store_items now (the (answering f n (last_args s keys))) s') =
     (if key \<in> set keys then Some (collected f now c) else GetFirstItem key s')"
  using assms(3)
proof (induction keys arbitrary: s')
  case Nil
  then show ?case by (simp add: answering_def)
next
  case (Cons k keys)
  show ?case
  proof (cases "gget (NdConfigMap s) k")
    case None
    then have "k \<noteq> key" using assms(2) by auto
    then show ?thesis using Cons None by (simp add: GetNdConfig_def)
  next
    case (Some d)
    let ?it = "collected f now d"
    have "PK2 (nc_Endpoint d) (Counter (nc_Metric d) (nc_Tags d)) = k"
      using assms(1) Some by (simp add: PK_PK2 [symmetric] config_key_def)
    then have step: "store_items now (the (answering f n (last_args s (k # keys)))) s' =
        store_items now (the (answering f n (last_args s keys))) (collector_AddItem k ?it s')"
      using Some by (simp add: GetNdConfig_def answering_def collected_def param_of_def)
    show ?thesis
      unfolding step using Cons.IH [of "collector_AddItem k ?it s'"] Cons.prems Some assms(2)
      by (cases "k = key") (auto simp: first_AddItem)
  qed
qed

lemma fetch_answers:
  assumes "\<forall>k c. gget (NdConfigMap s) k = Some c \<longrightarrow> config_key c = k" "gget (NdConfigMap s) key = Some c" "keys \<noteq> []"
    and "fetchItemsAndStore (answering f) now keys (int (length keys)) s = (m, s')"
  shows "GetFirstItem key s' = (if key \<in> set keys then Some (collected f now c) else GetFirstItem key s)"
proof (cases "last_args s keys = []")
  case True
  then have "s' = s" using assms(3,4) by (simp add: fetchItemsAndStore_def Let_def)
  moreover have "key \<in> set keys \<Longrightarrow> last_args s keys \<noteq> []"
    using assms(2) by (induction keys) (auto simp: GetNdConfig_def split: option.split)
  ultimately show ?thesis using True by auto
next
  case False
  let ?q = "s\<lparr>Queries := Queries s @ [last_args s keys]\<rparr>"
  have "s' = store_items now (the (answering f (length (Queries s)) (last_args s keys))) ?q"
    using False assms(3,4) by (auto simp: fetchItemsAndStore_def Let_def answering_def)
  then show ?thesis
    using store_answers [OF assms(1,2), of ?q now f "length (Queries s)" keys] by (simp add: GetFirstItem_def)
qed

lemma collect_chunks_items:
  assumes "\<forall>k c. gget (NdConfigMap s) k = Some c \<longrightarrow> config_key c = k" "gget (NdConfigMap s) key = Some c"
  shows "\<forall>ks \<in> set kss. ks \<noteq> [] \<Longrightarrow> NdConfigMap s1 = NdConfigMap s \<Longrightarrow>
    foldl (collect_chunk (answering f) now) (rch, s1) kss = (rch', s') \<Longrightarrow>
    GetFirstItem key s' = (if key \<in> set (concat kss) then Some (collected f now c) else GetFirstItem key s1)"
proof (induction kss arbitrary: rch s1)
  case (Cons ks kss)
  obtain m s2 where f: "fetchItemsAndStore (answering f) now ks (int (length ks)) s1 = (m, s2)" by force
  have step: "foldl (collect_chunk (answering f) now) (rch @ [m], s2) kss = (rch', s')"
    using Cons.prems(3) by (simp add: collect_chunk_step [OF f])
  have ne: "ks \<noteq> []" "\<forall>ks \<in> set kss. ks \<noteq> []" using Cons.prems(1) by simp_all
  have map2: "NdConfigMap s2 = NdConfigMap s" using fetch_rest [OF f] Cons.prems(2) by simp
  have "GetFirstItem key s2 = (if key \<in> set ks then Some (collected f now c) else GetFirstItem key s1)"
    using fetch_answers [OF _ _ ne(1) f, of key c] assms Cons.prems(2) by simp
  then show ?case using Cons.IH [OF ne(2) map2 step] by auto
qed simp

section \<open>Facts: posting\<close>

definition taken :: "(json_meta_data list \<times> bool) list \<Rightarrow> int" where
  "taken posts = sum_list (map (\<lambda>(items, ok). if ok then int (length items) else 0) posts)"

lemma send_chunks:
  "\<forall>ks \<in> set kss. ks \<noteq> [] \<Longrightarrow> foldl (send_chunk post) (cnt, s) kss = (cnt', s') \<Longrightarrow>
   \<exists>posts. s' = s\<lparr>Posts := Posts s @ posts\<rparr> \<and> cnt' = cnt + taken posts \<and>
     map fst posts = filter (list_all mock_json_ok) kss"
proof (induction kss arbitrary: cnt s)
  case Nil
  then show ?case by (intro exI [of _ "[]"]) (simp add: taken_def)
next
  case (Cons ks kss)
  let ?ok = "post (length (Posts s))"
  have ne: "ks \<noteq> []" "\<forall>ks \<in> set kss. ks \<noteq> []" using Cons.prems(1) by simp_all
  show ?case
  proof (cases "list_all mock_json_ok ks")
    case False
    then have "send_chunk post (cnt, s) ks = (cnt, s)"
      using ne(1) by (simp add: send_chunk_def sendItemsToTransfer_def)
    then show ?thesis using Cons.IH [OF ne(2), of cnt s] Cons.prems(2) False by simp
  next
    case True
    let ?s = "s\<lparr>Posts := Posts s @ [(ks, ?ok)]\<rparr>"
    let ?cnt = "if ?ok then cnt + int (length ks) else cnt"
    have "send_chunk post (cnt, s) ks = (?cnt, ?s)"
      using ne(1) True by (simp add: send_chunk_def sendItemsToTransfer_def Let_def)
    then have "foldl (send_chunk post) (?cnt, ?s) kss = (cnt', s')" using Cons.prems(2) by simp
    from Cons.IH [OF ne(2) this] obtain posts where
      posts: "s' = ?s\<lparr>Posts := Posts ?s @ posts\<rparr>" "cnt' = ?cnt + taken posts"
        "map fst posts = filter (list_all mock_json_ok) kss" by blast
    then show ?thesis
      using True by (intro exI [of _ "(ks, ?ok) # posts"]) (simp add: taken_def)
  qed
qed

lemma sendMock_eq:
  assumes "0 < batch"
  shows "\<exists>posts. sendMock post batch s = Some (Inr (taken posts, s\<lparr>MockMap := [], Posts := Posts s @ posts\<rparr>)) \<and>
    map fst posts = filter (list_all mock_json_ok) (batches (nat batch) (map snd (MockMap s)))"
proof -
  let ?bs = "batches (nat batch) (map snd (MockMap s))" and ?s = "s\<lparr>MockMap := []\<rparr>"
  obtain cnt s' where r: "foldl (send_chunk post) (0, ?s) ?bs = (cnt, s')" by force
  have "\<forall>ks \<in> set ?bs. ks \<noteq> []" using batches_size by auto
  from send_chunks [OF this r] obtain posts where
    "s' = ?s\<lparr>Posts := Posts ?s @ posts\<rparr>" "cnt = taken posts" "map fst posts = filter (list_all mock_json_ok) ?bs"
    by auto
  moreover have "sendMock post batch s = Some (Inr (cnt, s'))"
    using send_loop_batches [OF assms le0, of post "map snd (MockMap s)" 0 ?s] r by (simp add: sendMock_def Let_def)
  ultimately show ?thesis by (intro exI [of _ posts]) simp
qed

lemma send_loop_stuck:
  assumes "send_loop post batch mocks i cnt s = Some r"
  shows "batch = 0 \<longrightarrow> \<not> (0 \<le> i \<and> i < int (length mocks))"
proof (rule send_loop.raw_induct [OF _ assms, where P = "\<lambda>post batch mocks i cnt s r. batch = 0 \<longrightarrow> \<not> (0 \<le> i \<and> i < int (length mocks))"])
  fix f :: "(nat \<Rightarrow> bool) \<Rightarrow> int \<Rightarrow> json_meta_data list \<Rightarrow> int \<Rightarrow> int \<Rightarrow> nodata_state \<Rightarrow> (int \<times> nodata_state) res option"
    and post batch mocks i cnt s r
  assume ih: "\<And>post batch mocks i cnt s r. f post batch mocks i cnt s = Some r \<Longrightarrow>
      batch = 0 \<longrightarrow> \<not> (0 \<le> i \<and> i < int (length mocks))"
    and body: "(if i < int (length mocks) then
        (let leftLen = int (length mocks) - i;
             sendSize = (if leftLen < batch then leftLen else batch)
         in case slice_list mocks i (i + sendSize) of
              Inl e \<Rightarrow> Some (Inl e)
            | Inr items \<Rightarrow>
                (let (sent, s') = sendItemsToTransfer post items s;
                     cnt' = (case sent of Inr n \<Rightarrow> cnt + n | Inl _ \<Rightarrow> cnt)
                 in f post batch mocks (i + sendSize) cnt' s'))
      else Some (Inr (cnt, s))) = Some r"
  show "batch = 0 \<longrightarrow> \<not> (0 \<le> i \<and> i < int (length mocks))"
  proof (rule impI, rule notI)
    assume b: "batch = 0" and i: "0 \<le> i \<and> i < int (length mocks)"
    then have sl: "slice_list mocks i (i + 0) = Inr []" by (simp add: slice_list_def)
    obtain sent s' where q: "sendItemsToTransfer post [] s = (sent, s')" by force
    from body have "\<exists>c. f post 0 mocks i c s' = Some r"
      using b i sl q by (auto simp: Let_def)
    then show False using ih i by blast
  qed
qed

section \<open>Properties\<close>

text \<open>
  C21: A round of judging. For every series, whatever the order of the map: a series without
  configuration or collected point, or whose point was not fetched lately, is left alone; a series
  whose newest point is too old or is the mock value itself is missing, and if a step has passed
  since its last verdict it becomes NODATA, its count goes up and its mock sample is put in line
  for sending; any other series becomes OK with count 0. Nothing else changes.
\<close>

theorem nodata_round:
  assumes "gwf (NdConfigMap s)"
  shows "gget (StatusMap (nodata_judge now s)) key =
      (case (gget (NdConfigMap s) key, GetFirstItem key s) of
         (Some c, Some it) \<Rightarrow>
           (case verdict_of now c it of
              Skipped \<Rightarrow> gget (StatusMap s) key
            | Missing \<Rightarrow> if LastTs key s + nc_Step c \<le> now
                then Some (status_now key ''NODATA'' (nodata_count s key + 1) now (gget (StatusMap s) key))
                else gget (StatusMap s) key
            | Reporting \<Rightarrow> Some (status_now key ''OK'' 0 now (gget (StatusMap s) key)))
       | _ \<Rightarrow> gget (StatusMap s) key)
    \<and> gget (MockMap (nodata_judge now s)) key =
      (case (gget (NdConfigMap s) key, GetFirstItem key s) of
         (Some c, Some it) \<Rightarrow>
           if verdict_of now c it = Missing \<and> LastTs key s + nc_Step c \<le> now
           then Some (mock_sample now c) else gget (MockMap s) key
       | _ \<Rightarrow> gget (MockMap s) key)
    \<and> NdConfigMap (nodata_judge now s) = NdConfigMap s \<and> ItemMap (nodata_judge now s) = ItemMap s \<and>
      Posts (nodata_judge now s) = Posts s"
  using judge_maps [OF assms, of now key]
  by (auto simp: round_status_def round_mock_def mock_due_def series_verdict_def nodata_judge_def
      split: option.splits verdict.splits)

text \<open>
  Mock samples never crowd. Along any schedule of rounds (at times that do not go back),
  collected points and sending, the mock samples made for a series with a fixed step are at
  least that step apart, aligned to it, at least two steps and less than three behind the round that
  made them; so each one is newer than the mock samples before it and older than what the series
  reports when it comes back.
\<close>

theorem mocks_spaced:
  assumes "gwf (NdConfigMap s)" "gget (NdConfigMap s) key = Some c" "1 \<le> nc_Step c"
    and "sorted (judge_times sts)" "\<forall>t \<in> set (judge_times sts). LastTs key s \<le> t" "0 \<le> LastTs key s"
  shows "sorted_wrt (\<lambda>a b. a + nc_Step c \<le> b) (mock_times key sts s) \<and>
    (\<forall>m \<in> set (mock_times key sts s). m mod nc_Step c = 0 \<and>
      (\<exists>now \<in> set (judge_times sts). m \<le> now - 2 * nc_Step c \<and> now - 3 * nc_Step c < m))"
proof -
  note spaced = mock_times_spaced [OF assms]
  have "m mod nc_Step c = 0 \<and> (\<exists>now \<in> set (judge_times sts). m \<le> now - 2 * nc_Step c \<and> now - 3 * nc_Step c < m)"
    if m: "m \<in> set (mock_times key sts s)" for m
  proof -
    obtain now where now: "now \<in> set (judge_times sts)" "m = genTs now (nc_Step c)" using bspec [OF conjunct2 [OF spaced] m] by blast
    then have "0 \<le> now" using assms(5,6) by force
    note b = genTs_bounds [OF assms(3) this]
    show ?thesis using b now by (intro conjI bexI [of _ now]) simp_all
  qed
  then show ?thesis using conjunct1 [OF spaced] by simp
qed

text \<open>
  What is collected is what is judged. With a configuration as a synchronisation puts it in
  place and an API that knows the newest point of every series, a collection returns, whatever the
  batch size; then the newest collected point of every configured series is that point, fetched
  now, and until its timeout the series counts as missing exactly if the point is the mock value
  or too old, as reporting otherwise.
\<close>

theorem nodata_collects:
  assumes "NdConfigMap s = fst (syncNdConfig db)" "gget (NdConfigMap s) key = Some c" "later \<le> now + getTimeout (nc_Step c)"
  shows "\<exists>cnt s'. collectDataOnce (answering f) now cfgBatch s = Some (Inr (cnt, s')) \<and>
    GetFirstItem key s' = Some (collected f now c) \<and>
    series_verdict later s' key =
      (if fCompare (nc_Mock c) (rd_Value (f (param_of c))) = 0 \<or>
          rd_Timestamp (f (param_of c)) < later - getTimeout (nc_Step c)
       then Missing else Reporting)"
proof -
  let ?bs = "batches (nat (norm_batch cfgBatch)) (gkeys (NdConfigMap s))"
  have keyed: "\<forall>k c. gget (NdConfigMap s) k = Some c \<longrightarrow> config_key c = k"
    unfolding assms(1) using syncNdConfig_map [of db] GetMockCfgFromDB_get preferred_member by fastforce
  obtain rch s' where r: "foldl (collect_chunk (answering f) now) ([], s) ?bs = (rch, s')" by force
  have ne: "\<forall>ks \<in> set ?bs. ks \<noteq> []" using batches_size by auto
  have "concat ?bs = gkeys (NdConfigMap s)" using norm_batch_bounds by (intro concat_batches) simp
  moreover have "key \<in> set (gkeys (NdConfigMap s))" using assms(2) by (simp add: gkeys_dom domI del: set_map)
  ultimately have first: "GetFirstItem key s' = Some (collected f now c)"
    using collect_chunks_items [OF keyed assms(2) ne refl r] by simp
  have "NdConfigMap s' = NdConfigMap s" using collect_chunks_queries [OF ne r] by simp
  then have "series_verdict later s' key = verdict_of later c (collected f now c)"
    using assms(2) first by (simp add: series_verdict_def)
  then show ?thesis
    using collectDataOnce_eq [OF r] first assms(3) by (auto simp: verdict_of_def collected_def NewDataItem_def)
qed

text \<open>
  Every configured series is asked for once. Whatever the configuration, the batch size and the
  answers of the API, a collection ends, and its requests hold, in order, one entry for every
  configured series; no request is empty or has more than 1000 entries.
\<close>

theorem nodata_asks_once:
  "\<exists>cnt s' qs. collectDataOnce api now cfgBatch s = Some (Inr (cnt, s')) \<and>
     Queries s' = Queries s @ qs \<and> concat qs = last_args s (gkeys (NdConfigMap s)) \<and>
     list_all (\<lambda>q. q \<noteq> [] \<and> length q \<le> 1000) qs"
proof -
  let ?bs = "batches (nat (norm_batch cfgBatch)) (gkeys (NdConfigMap s))"
  let ?qs = "filter (\<lambda>q. q \<noteq> []) (map (last_args s) ?bs)"
  obtain rch s' where r: "foldl (collect_chunk api now) ([], s) ?bs = (rch, s')" by force
  have "\<forall>ks \<in> set ?bs. ks \<noteq> []" using batches_size by auto
  from collect_chunks_queries [OF this r] have q: "Queries s' = Queries s @ ?qs" by simp
  have "0 < nat (norm_batch cfgBatch)" using norm_batch_bounds by simp
  then have all: "concat ?qs = last_args s (gkeys (NdConfigMap s))"
    by (simp only: concat_filter_args concat_batches)
  have "length (last_args s ks) \<le> 1000" if "ks \<in> set ?bs" for ks
    using batches_size [OF that] length_last_args [of s ks] norm_batch_bounds(2) [of cfgBatch] by linarith
  then have "list_all (\<lambda>q. q \<noteq> [] \<and> length q \<le> 1000) ?qs" by (auto simp: list_all_iff)
  then show ?thesis using collectDataOnce_eq [OF r] q all by blast
qed

text \<open>
  Mock samples are posted once. With a positive batch size, \<open>sendMock\<close> returns, the map of mock
  samples is empty afterwards, the batches that can be written as JSON have each been posted once,
  together with all mock samples if all can be written; the count is that of the samples in the
  batches that were taken. A batch that was not taken is not kept.
\<close>

theorem mocks_posted:
  assumes "0 < batch"
  shows "\<exists>posts. sendMock post batch s = Some (Inr (taken posts, s\<lparr>MockMap := [], Posts := Posts s @ posts\<rparr>)) \<and>
    list_all (\<lambda>(items, ok). items \<noteq> [] \<and> int (length items) \<le> batch) posts \<and>
    (list_all mock_json_ok (map snd (MockMap s)) \<longrightarrow> concat (map fst posts) = map snd (MockMap s))"
proof -
  let ?bs = "batches (nat batch) (map snd (MockMap s))"
  obtain posts where posts: "sendMock post batch s = Some (Inr (taken posts, s\<lparr>MockMap := [], Posts := Posts s @ posts\<rparr>))"
      "map fst posts = filter (list_all mock_json_ok) ?bs"
    using sendMock_eq [OF assms] by blast
  have all: "concat ?bs = map snd (MockMap s)" using assms by (simp add: concat_batches)
  have "q \<noteq> [] \<and> int (length q) \<le> batch" if q: "q \<in> set (map fst posts)" for q
  proof -
    have "q \<in> set ?bs" using q by (simp only: posts(2) set_filter) simp
    from batches_size [OF this] show ?thesis using assms by linarith
  qed
  then have sizes: "list_all (\<lambda>(items, ok). items \<noteq> [] \<and> int (length items) \<le> batch) posts"
    by (force simp: list_all_iff)
  have "concat (map fst posts) = map snd (MockMap s)" if ok: "list_all mock_json_ok (map snd (MockMap s))"
  proof -
    have "list_all mock_json_ok (concat ?bs)" using ok by (simp only: all)
    then have "list_all mock_json_ok q" if "q \<in> set ?bs" for q using that by (auto simp: list_all_iff)
    then have "filter (list_all mock_json_ok) ?bs = ?bs" by (simp add: filter_id_conv)
    then show ?thesis using posts(2) all by simp
  qed
  then show ?thesis using posts(1) sizes by blast
qed

text \<open>
  A batch size of zero in the configuration hangs the sender. As soon as there is a mock sample to
  send, \<open>SendMockOnce\<close> never returns and holds the semaphore, so that every later call gives up at
  once; a negative batch size panics.
\<close>

theorem zero_batch_hangs:
  assumes "MockMap s \<noteq> []"
  shows "SendMockOnce post True 0 False s = None \<and> SendMockOnce post True b True s = Some (Inr (-1, s)) \<and>
    (b < 0 \<longrightarrow> (\<exists>e. SendMockOnce post True b False s = Some (Inl (Panic e))))"
proof -
  have "send_loop post 0 (map snd (MockMap s)) 0 0 (s\<lparr>MockMap := []\<rparr>) = Some r \<Longrightarrow> False" for r
    using send_loop_stuck assms by fastforce
  then have "SendMockOnce post True 0 False s = None"
    by (cases "sendMock post 0 s") (auto simp: SendMockOnce_def sendMock_def Let_def)
  moreover have "\<exists>e. SendMockOnce post True b False s = Some (Inl (Panic e))" if "b < 0"
    using that assms by (simp add: SendMockOnce_def sendMock_def Let_def send_loop.simps slice_list_def)
  ultimately show ?thesis by (simp add: SendMockOnce_def)
qed

section \<open>Concrete inputs\<close>

definition demo_nodata :: "f64 \<Rightarrow> int \<Rightarrow> nodata_state" where
  "demo_nodata v ts = \<lparr>
     NdConfigMap = [(''h1/cpu'', NewNodataConfig 1 ''m'' ''host'' ''h1'' ''cpu'' [] ''GAUGE'' 60 (fint (-1)))],
     ItemMap = [(''h1/cpu'', [NewDataItem ts v ''OK'' 1000])], StatusMap = [], MockMap = [], Queries = [], Posts = []\<rparr>"

theorem nodata_round_witness:
  "gget (MockMap (nodata_judge 1001 (demo_nodata (fint 3) 500))) ''h1/cpu'' =
     Some \<lparr>jm_Metric = ''cpu'', jm_Endpoint = ''h1'', jm_Timestamp = 840, jm_Step = 60, jm_Value = VFloat (fint (-1)),
       jm_CounterType = ''GAUGE'', jm_Tags = ''''\<rparr>"
proof -
  let ?s = "demo_nodata (fint 3) 500"
  have "gwf (NdConfigMap ?s)" by (simp add: demo_nodata_def gwf_def)
  from nodata_round [OF this, of 1001 "''h1/cpu''"] show ?thesis
    by (simp add: demo_nodata_def GetFirstItem_def SafeList_Front_def NewDataItem_def NewNodataConfig_def verdict_of_def
        getTimeout_def LastTs_def mock_sample_def genTs_def Let_def smod_nonneg SortedTags_def)
qed

theorem mocks_spaced_witness:
  "sorted_wrt (\<lambda>a b. a + 60 \<le> b)
     (mock_times ''h1/cpu'' [Judge 1001, Drain, Judge 1061, Collect ''h1/cpu'' (NewDataItem 1060 (fint 1) ''OK'' 1062), Judge 1121]
       (demo_nodata (fint 3) 500))"
  using mocks_spaced [of "demo_nodata (fint 3) 500" "''h1/cpu''" "NewNodataConfig 1 ''m'' ''host'' ''h1'' ''cpu'' [] ''GAUGE'' 60 (fint (-1))"
      "[Judge 1001, Drain, Judge 1061, Collect ''h1/cpu'' (NewDataItem 1060 (fint 1) ''OK'' 1062), Judge 1121]"]
  by (simp add: demo_nodata_def gwf_def NewNodataConfig_def judge_times_def List.map_filter_simps LastTs_def)

theorem nodata_collects_witness:
  "\<exists>cnt s'. collectDataOnce (answering (\<lambda>p. NewRRDData 1000 (fint 5))) 1010 0
       (demo_nodata (fint 3) 500\<lparr>NdConfigMap := fst (syncNdConfig demo_nodata_db)\<rparr>) = Some (Inr (cnt, s')) \<and>
     series_verdict 1020 s' ''h1/cpu'' \<noteq> Skipped"
proof -
  let ?s = "demo_nodata (fint 3) 500\<lparr>NdConfigMap := fst (syncNdConfig demo_nodata_db)\<rparr>"
  obtain c where c: "gget (fst (syncNdConfig demo_nodata_db)) ''h1/cpu'' = Some c"
    using demo_synced by blast
  have "1020 \<le> 1010 + getTimeout (nc_Step c)" by (simp add: getTimeout_def)
  with nodata_collects [of ?s demo_nodata_db "''h1/cpu''" c 1020 1010 "\<lambda>p. NewRRDData 1000 (fint 5)" 0] c
  show ?thesis by (force split: if_splits)
qed

theorem mocks_posted_witness:
  "\<exists>posts. sendMock (\<lambda>_. True) 10 (nodata_judge 1001 (demo_nodata (fint 3) 500)) =
     Some (Inr (taken posts, (nodata_judge 1001 (demo_nodata (fint 3) 500))\<lparr>MockMap := [],
       Posts := Posts (nodata_judge 1001 (demo_nodata (fint 3) 500)) @ posts\<rparr>))"
  using mocks_posted [of 10 "\<lambda>_. True" "nodata_judge 1001 (demo_nodata (fint 3) 500)"] by auto

theorem zero_batch_hangs_witness:
  "SendMockOnce (\<lambda>_. True) True 0 False
     (demo_nodata (fint 3) 500\<lparr>MockMap := [(''h1/cpu'', mock_sample 1001 (NewNodataConfig 1 ''m'' ''host'' ''h1'' ''cpu'' [] ''GAUGE'' 60 0))]\<rparr>)
   = None"
  using zero_batch_hangs [of "demo_nodata (fint 3) 500\<lparr>MockMap := [(''h1/cpu'', mock_sample 1001
      (NewNodataConfig 1 ''m'' ''host'' ''h1'' ''cpu'' [] ''GAUGE'' 60 0))]\<rparr>"] by simp

end
