(* ===== verification/Go_Regex.thy ===== *)
theory Go_Regex
  imports Go_Strings
begin

text \<open>
  The part of Go's package \<open>regexp\<close> that the program uses: patterns anchored at both ends, matched with
  derivatives, what the matcher accepts as an inductive relation, and splitting at runs of bytes
  of a class. A negated class of ASCII characters matches a string of runes exactly when it matches
  its bytes one by one.
\<close>

section \<open>Patterns and the matcher\<close>

datatype rx = Nul | Eps | Cls "char \<Rightarrow> bool" | Seq rx rx | Alt rx rx | Star rx

fun nullable :: "rx \<Rightarrow> bool" where
  "nullable Nul = False"
| "nullable Eps = True"
| "nullable (Cls p) = False"
| "nullable (Seq r q) = (nullable r \<and> nullable q)"
| "nullable (Alt r q) = (nullable r \<or> nullable q)"
| "nullable (Star r) = True"

fun deriv :: "char \<Rightarrow> rx \<Rightarrow> rx" where
  "deriv c Nul = Nul"
| "deriv c Eps = Nul"
| "deriv c (Cls p) = (if p c then Eps else Nul)"
| "deriv c (Seq r q) = (if nullable r then Alt (Seq (deriv c r) q) (deriv c q) else Seq (deriv c r) q)"
| "deriv c (Alt r q) = Alt (deriv c r) (deriv c q)"
| "deriv c (Star r) = Seq (deriv c r) (Star r)"

fun rx_match :: "rx \<Rightarrow> string \<Rightarrow> bool" where
  "rx_match r [] = nullable r"
| "rx_match r (c # s) = rx_match (deriv c r) s"

definition Plus :: "rx \<Rightarrow> rx" where
  "Plus r = Seq r (Star r)"

definition Opt :: "rx \<Rightarrow> rx" where
  "Opt r = Alt r Eps"

definition chr :: "char \<Rightarrow> rx" where
  "chr c = Cls (\<lambda>x. x = c)"

fun lit :: "string \<Rightarrow> rx" where
  "lit [] = Eps"
| "lit (c # s) = Seq (chr c) (lit s)"

section \<open>What a pattern means\<close>

inductive matches :: "rx \<Rightarrow> string \<Rightarrow> bool" where
  m_eps: "matches Eps []"
| m_cls: "p c \<Longrightarrow> matches (Cls p) [c]"
| m_seq: "matches r a \<Longrightarrow> matches q b \<Longrightarrow> matches (Seq r q) (a @ b)"
| m_left: "matches r a \<Longrightarrow> matches (Alt r q) a"
| m_right: "matches q a \<Longrightarrow> matches (Alt r q) a"
| m_nil: "matches (Star r) []"
| m_cons: "matches r a \<Longrightarrow> matches (Star r) b \<Longrightarrow> matches (Star r) (a @ b)"

inductive_simps matches_Nul [simp]: "matches Nul s"
inductive_simps matches_Eps [simp]: "matches Eps s"
inductive_simps matches_Cls [simp]: "matches (Cls p) s"
inductive_simps matches_Seq: "matches (Seq r q) s"
inductive_simps matches_Alt [simp]: "matches (Alt r q) s"
inductive_cases matches_StarE: "matches (Star r) s"

lemma nullable_matches: "nullable r \<longleftrightarrow> matches r []"
proof (induction r)
  case (Star r)
  then show ?case by (simp add: m_nil)
qed (auto simp: matches_Seq)

lemma star_cons:
  assumes "matches (Star r) (c # s)"
  shows "\<exists>a b. s = a @ b \<and> matches r (c # a) \<and> matches (Star r) b"
proof -
  have "matches q t \<Longrightarrow> q = Star r \<Longrightarrow> t = c # s \<Longrightarrow> \<exists>a b. s = a @ b \<and> matches r (c # a) \<and> matches (Star r) b" for q t
  proof (induction arbitrary: rule: matches.induct)
    case (m_cons q a b)
    then show ?case by (cases a) auto
  qed auto
  then show ?thesis using assms by blast
qed

lemma seq_cons:
  "matches (Seq r q) (c # s) \<longleftrightarrow>
     (\<exists>a b. s = a @ b \<and> matches r (c # a) \<and> matches q b) \<or> (matches r [] \<and> matches q (c # s))"
  by (auto simp: matches_Seq Cons_eq_append_conv)

lemma deriv_matches: "matches (deriv c r) s \<longleftrightarrow> matches r (c # s)"
proof (induction r arbitrary: s)
  case (Seq r q)
  have "matches (Seq (deriv c r) q) s \<longleftrightarrow> (\<exists>a b. s = a @ b \<and> matches r (c # a) \<and> matches q b)" for s
    using Seq(1) by (auto simp: matches_Seq)
  then show ?case using Seq(2) by (auto simp: seq_cons nullable_matches)
next
  case (Star r)
  have "matches (Star r) (c # s)" if "s = a @ b" "matches r (c # a)" "matches (Star r) b" for a b
    using m_cons [OF that(2,3)] that(1) by simp
  then show ?case using Star star_cons by (auto simp: matches_Seq)
qed auto

lemma rx_match_iff: "rx_match r s \<longleftrightarrow> matches r s"
  by (induction s arbitrary: r) (simp_all add: nullable_matches deriv_matches)

lemma matches_chr [simp]: "matches (chr c) s \<longleftrightarrow> s = [c]"
  by (auto simp: chr_def)

lemma matches_lit [simp]: "matches (lit w) s \<longleftrightarrow> s = w"
  by (induction w arbitrary: s) (auto simp: matches_Seq)

lemma matches_Plus: "matches (Plus r) s \<longleftrightarrow> (\<exists>a b. s = a @ b \<and> matches r a \<and> matches (Star r) b)"
  by (auto simp: Plus_def matches_Seq)

lemma matches_Opt [simp]: "matches (Opt r) s \<longleftrightarrow> s = [] \<or> matches r s"
  by (auto simp: Opt_def)

lemma star_Cls: "matches (Star (Cls p)) s \<longleftrightarrow> list_all p s"
proof
  have "matches q t \<Longrightarrow> q = Star (Cls p) \<Longrightarrow> list_all p t" for q t
    by (induction rule: matches.induct) auto
  then show "matches (Star (Cls p)) s \<Longrightarrow> list_all p s" by blast
next
  show "list_all p s \<Longrightarrow> matches (Star (Cls p)) s"
  proof (induction s)
    case (Cons c s)
    then show ?case using m_cons [of "Cls p" "[c]" s] by simp
  qed (simp add: m_nil)
qed

lemma plus_Cls: "matches (Plus (Cls p)) s \<longleftrightarrow> s \<noteq> [] \<and> list_all p s"
proof
  show "matches (Plus (Cls p)) s \<Longrightarrow> s \<noteq> [] \<and> list_all p s"
    by (auto simp: matches_Plus star_Cls)
next
  assume "s \<noteq> [] \<and> list_all p s"
  then obtain c cs where "s = [c] @ cs" "p c" "list_all p cs" by (cases s) auto
  then show "matches (Plus (Cls p)) s" unfolding matches_Plus star_Cls by (metis matches_Cls)
qed

text \<open>A string of a starred pattern is a concatenation of its words.\<close>

lemma star_words: "matches (Star r) s \<longleftrightarrow> (\<exists>ws. s = concat ws \<and> list_all (matches r) ws)"
proof
  have "matches q t \<Longrightarrow> q = Star r \<Longrightarrow> \<exists>ws. t = concat ws \<and> list_all (matches r) ws" for q t
  proof (induction rule: matches.induct)
    case (m_nil q)
    then show ?case by (intro exI [of _ "[]"]) simp
  next
    case (m_cons q a b)
    then obtain ws where "b = concat ws" "list_all (matches r) ws" by blast
    then show ?case using m_cons by (intro exI [of _ "a # ws"]) simp
  qed auto
  then show "matches (Star r) s \<Longrightarrow> \<exists>ws. s = concat ws \<and> list_all (matches r) ws" by blast
next
  have "list_all (matches r) ws \<Longrightarrow> matches (Star r) (concat ws)" for ws
    by (induction ws) (auto intro: m_nil m_cons)
  then show "\<exists>ws. s = concat ws \<and> list_all (matches r) ws \<Longrightarrow> matches (Star r) s" by blast
qed

section \<open>Splitting at runs\<close>

text \<open>\<open>Split(s, -1)\<close> of a pattern \<open>[..]+\<close>: the pieces between maximal runs of bytes of the class.\<close>

function split_runs :: "(char \<Rightarrow> bool) \<Rightarrow> string \<Rightarrow> string list" where
  "split_runs p s =
     (let w = takeWhile (\<lambda>c. \<not> p c) s; r = dropWhile (\<lambda>c. \<not> p c) s
      in if r = [] then [w] else w # split_runs p (dropWhile p r))"
  by pat_completeness auto
termination
proof (relation "measure (\<lambda>(p, s). length s)")
  fix p s w r
  assume r: "r = dropWhile (\<lambda>c. \<not> p c) s" "r \<noteq> []"
  then have hd: "p (hd r)" using hd_dropWhile [of "\<lambda>c. \<not> p c" s] by simp
  obtain c cs where "r = c # cs" using r(2) by (cases r) auto
  with hd have "r = c # cs" "p c" by simp_all
  then have "length (dropWhile p r) < length r" using length_dropWhile_le [of p cs] by simp
  also have "length r \<le> length s" unfolding r(1) by (rule length_dropWhile_le)
  finally show "((p, dropWhile p r), p, s) \<in> measure (\<lambda>(p, s). length s)" by simp
qed simp

declare split_runs.simps [simp del]

lemma split_runs_last: "list_all (\<lambda>c. \<not> p c) w \<Longrightarrow> split_runs p w = [w]"
  by (subst split_runs.simps) (simp add: Let_def list_all_iff takeWhile_eq_all_conv [THEN iffD2] dropWhile_eq_Nil_conv [THEN iffD2])

lemma split_runs_cut:
  assumes "list_all (\<lambda>c. \<not> p c) w" "list_all p d" "d \<noteq> []" "s = [] \<or> \<not> p (hd s)"
  shows "split_runs p (w @ d @ s) = w # split_runs p s"
proof -
  obtain c cs where d: "d = c # cs" "p c" using assms(2,3) by (cases d) auto
  have "takeWhile (\<lambda>c. \<not> p c) (w @ d @ s) = w" "dropWhile (\<lambda>c. \<not> p c) (w @ d @ s) = d @ s"
    using assms(1) d by (simp_all add: list_all_iff)
  moreover have "dropWhile p (d @ s) = s"
    using assms(2,4) by (cases s) (auto simp: list_all_iff dropWhile_append2)
  ultimately show ?thesis using assms(3) by (subst split_runs.simps) (simp add: Let_def)
qed

lemma split_runs_length: "split_runs p s \<noteq> []" "(\<exists>c \<in> set s. p c) \<Longrightarrow> 2 \<le> length (split_runs p s)"
proof -
  show ne: "split_runs p t \<noteq> []" for t by (subst split_runs.simps) (simp add: Let_def)
  assume "\<exists>c \<in> set s. p c"
  then have "dropWhile (\<lambda>c. \<not> p c) s \<noteq> []" by (auto simp: dropWhile_eq_Nil_conv)
  then show "2 \<le> length (split_runs p s)"
    using ne [of "dropWhile p (dropWhile (\<lambda>c. \<not> p c) s)"]
    by (subst split_runs.simps) (cases "split_runs p (dropWhile p (dropWhile (\<lambda>c. \<not> p c) s))", simp_all add: Let_def)
qed

end
