(* ===== verification/Agg_Expr.thy ===== *)
theory Agg_Expr
  imports Go_Regex Go_Float
begin

text \<open>
  The expressions of the aggregator (\<open>src/modules/aggregator/cron/run.go\<close>, \<open>computer.go\<close>): which numerators
  and denominators are accepted, how they are taken apart, and their value on one host. The regular
  expressions of the code are the patterns \<open>matchMode0\<close> to \<open>matchMode3\<close>.
\<close>

section \<open>Checking (\<open>run.go\<close>)\<close>

text \<open>\<open>strings.Replace(s, c, "", -1)\<close> for one byte.\<close>

definition remove_all :: "char \<Rightarrow> string \<Rightarrow> string" where
  "remove_all c s = filter (\<lambda>x. x \<noteq> c) s"

definition cleanParam :: "string \<Rightarrow> string" where
  "cleanParam val =
     (let val = trim_space val; val = remove_all (CHR '' '') val; val = remove_all (CHR 0x0D) val;
          val = remove_all (CHR 0x0A) val
      in remove_all (CHR 0x09) val)"

fun contains :: "string \<Rightarrow> string \<Rightarrow> bool" where
  "contains w [] = (w = [])"
| "contains w (c # s) = (starts_with w (c # s) \<or> contains w s)"

definition needCompute :: "string \<Rightarrow> bool" where
  "needCompute val = contains ''$('' val"

definition not_paren :: "char \<Rightarrow> bool" where
  "not_paren c \<longleftrightarrow> c \<noteq> CHR ''('' \<and> c \<noteq> CHR '')''"

definition rx_operand :: rx where
  "rx_operand = Seq (lit ''$('') (Seq (Plus (Cls not_paren)) (lit '')''))"

definition rx_sum :: rx where
  "rx_sum = Seq (Star (Seq rx_operand (Cls (\<lambda>c. c = CHR ''+'' \<or> c = CHR ''-'')))) rx_operand"

definition rx_number :: rx where
  "rx_number = Seq (Plus (Cls is_digit)) (Opt (Seq (lit ''.'') (Plus (Cls is_digit))))"

definition rx_cmp_op :: rx where
  "rx_cmp_op = Alt (lit ''>'') (Alt (lit ''='') (Alt (lit ''<'') (Alt (lit ''>='') (lit ''<=''))))"

definition rx_compare :: rx where
  "rx_compare = Seq rx_cmp_op rx_number"

definition matchMode0 :: rx where
  "matchMode0 = rx_sum"

definition matchMode1 :: rx where
  "matchMode1 = Seq rx_operand rx_compare"

definition matchMode2 :: rx where
  "matchMode2 = Seq (lit ''('') (Seq rx_sum (Seq (lit '')'') rx_compare))"

definition matchMode3 :: rx where
  "matchMode3 = Plus (Cls is_digit)"

text \<open>The two full-width parentheses in UTF-8.\<close>

definition wide_open :: string where
  "wide_open = [CHR 0xEF, CHR 0xBC, CHR 0x88]"

definition wide_close :: string where
  "wide_close = [CHR 0xEF, CHR 0xBC, CHR 0x89]"

definition expressionValid :: "string \<Rightarrow> bool" where
  "expressionValid val =
     (if contains wide_open val \<or> contains wide_close val then False
      else if val = ''$#'' then True
      else if rx_match matchMode0 val then True
      else if rx_match matchMode1 val then True
      else if rx_match matchMode2 val then True
      else rx_match matchMode3 val)"

definition operatorsValid :: "string list \<Rightarrow> bool" where
  "operatorsValid ops \<longleftrightarrow> list_all (\<lambda>op. op = ''+'' \<or> op = ''-'') ops"

section \<open>Taking apart (\<open>run.go\<close>)\<close>

definition is_cut :: "char \<Rightarrow> bool" where
  "is_cut c \<longleftrightarrow> c = CHR ''$'' \<or> c = CHR ''('' \<or> c = CHR '')''"

text \<open>The items at even places are operands, those at odd places operators.\<close>

fun deal :: "'a list \<Rightarrow> 'a list \<times> 'a list" where
  "deal [] = ([], [])"
| "deal [x] = ([x], [])"
| "deal (x # y # zs) = (let (a, b) = deal zs in (x # a, y # b))"

text \<open>\<open>items[1 : count-1]\<close> panics if there is one item only.\<close>

definition parse :: "string \<Rightarrow> bool \<Rightarrow> (string list \<times> string list \<times> string) res" where
  "parse expression need =
     (if \<not> need then Inr ([], [], '''')
      else let items = split_runs is_cut expression; count = length items in
        if count < 2 then Inl (Panic ''slice bounds out of range'')
        else let (operands, operators) = deal (take (count - 2) (drop 1 items))
             in Inr (operands, operators, items ! (count - 1)))"

section \<open>Computing (\<open>computer.go\<close>)\<close>

fun queryOperands :: "string list \<Rightarrow> string \<Rightarrow> (string, f64) gomap \<Rightarrow> f64 list" where
  "queryOperands [] endpoint valMap = []"
| "queryOperands (counter # counters) endpoint valMap =
     (case gget valMap (endpoint @ counter) of
        Some v \<Rightarrow> v # queryOperands counters endpoint valMap
      | None \<Rightarrow> queryOperands counters endpoint valMap)"

fun sum_loop :: "string list \<Rightarrow> nat \<Rightarrow> f64 list \<Rightarrow> f64 \<Rightarrow> f64 res" where
  "sum_loop operators i [] res = Inr res"
| "sum_loop operators i (v # vals) res =
     (if i < length operators
      then sum_loop operators (i + 1) vals (if operators ! i = ''+'' then res + v else res - v)
      else Inl (Panic ''index out of range''))"

text \<open>
  The leftmost match of \<open>([><=]+)([\d\.]+)\<close>: both classes are disjoint, so the first group is a
  maximal run, and the second one too.
\<close>

definition is_cmp :: "char \<Rightarrow> bool" where
  "is_cmp c \<longleftrightarrow> c = CHR ''>'' \<or> c = CHR ''<'' \<or> c = CHR ''=''"

definition num_char :: "char \<Rightarrow> bool" where
  "num_char c \<longleftrightarrow> is_digit c \<or> c = CHR ''.''"

fun find_compare :: "string \<Rightarrow> (string \<times> string) option" where
  "find_compare [] = None"
| "find_compare (c # s) =
     (let mode = takeWhile is_cmp (c # s); v = takeWhile num_char (dropWhile is_cmp (c # s))
      in if mode \<noteq> [] \<and> v \<noteq> [] then Some (mode, v) else find_compare s)"

text \<open>The number that \<open>ParseFloat\<close> leaves when its error is ignored.\<close>

definition parse_float_or :: "string \<Rightarrow> f64" where
  "parse_float_or s =
     (case parse_float s of Inr v \<Rightarrow> v
      | Inl e \<Rightarrow> if e = Err ''value out of range'' then Inf (fst (parse_sign s)) else 0)"

definition compareSum :: "f64 \<Rightarrow> string \<Rightarrow> bool res" where
  "compareSum res computeMode =
     (case find_compare computeMode of
        None \<Rightarrow> Inl (Panic ''index out of range'')
      | Some (mode, v) \<Rightarrow>
          let val = parse_float_or v in
          Inr (mode = ''>'' \<and> val < res \<or> mode = ''<'' \<and> res < val \<or> mode = ''='' \<and> feq res val \<or>
               mode = ''>='' \<and> val \<le> res \<or> mode = ''<='' \<and> res \<le> val))"

definition compute :: "string list \<Rightarrow> string list \<Rightarrow> string \<Rightarrow> string \<Rightarrow> (string, f64) gomap \<Rightarrow> f64 res" where
  "compute operands operators computeMode hostname valMap =
     (let count = length operands in
      if count = 0 then Inl (Err ''counter not found'')
      else let vals = queryOperands operands hostname valMap in
        if length vals \<noteq> count then Inl (Err ''value invalid'')
        else bind_res (sum_loop operators 0 (tl vals) (hd vals)) (\<lambda>res.
          if computeMode \<noteq> '''' then
            bind_res (compareSum res computeMode) (\<lambda>hit. Inr (if hit then f64_of_int 1 else 0))
          else Inr res))"

section \<open>Facts: accepted expressions\<close>

lemma matches_operand: "matches rx_operand s \<longleftrightarrow> (\<exists>w. s = ''$('' @ w @ '')'' \<and> w \<noteq> [] \<and> list_all not_paren w)"
  by (auto simp: rx_operand_def matches_Seq plus_Cls)

lemma matches_signed:
  "matches (Seq rx_operand (Cls (\<lambda>c. c = CHR ''+'' \<or> c = CHR ''-''))) s \<longleftrightarrow>
     (\<exists>w c. s = ''$('' @ w @ '')'' @ [c] \<and> w \<noteq> [] \<and> list_all not_paren w \<and> (c = CHR ''+'' \<or> c = CHR ''-''))" (is "?l \<longleftrightarrow> ?r")
proof
  show "?l \<Longrightarrow> ?r" by (fastforce simp: matches_Seq matches_operand)
next
  assume ?r
  then obtain w c where w: "s = (''$('' @ w @ '')'') @ [c]" "matches rx_operand (''$('' @ w @ '')'')"
      "c = CHR ''+'' \<or> c = CHR ''-''" by (auto simp: matches_operand)
  show ?l unfolding w(1) by (rule m_seq [OF w(2)]) (simp add: w(3))
qed

text \<open>A number as the comparison wants it.\<close>

definition number :: "string \<Rightarrow> bool" where
  "number s \<longleftrightarrow> (\<exists>a b. s = a @ b \<and> a \<noteq> [] \<and> list_all is_digit a \<and>
     (b = [] \<or> (\<exists>d. b = CHR ''.'' # d \<and> d \<noteq> [] \<and> list_all is_digit d)))"

lemma matches_number: "matches rx_number s \<longleftrightarrow> number s"
  unfolding rx_number_def number_def matches_Seq plus_Cls matches_Opt matches_lit by auto

lemma matches_cmp_op: "matches rx_cmp_op m \<longleftrightarrow> m \<in> {''>'', ''='', ''<'', ''>='', ''<=''}"
  by (simp only: rx_cmp_op_def matches_Alt matches_lit insert_iff empty_iff simp_thms)

lemma matches_compare:
  "matches rx_compare s \<longleftrightarrow> (\<exists>m v. s = m @ v \<and> m \<in> {''>'', ''='', ''<'', ''>='', ''<=''} \<and> number v)"
  by (simp only: rx_compare_def matches_Seq matches_number matches_cmp_op)

lemma number_num: "number v \<Longrightarrow> v \<noteq> [] \<and> list_all num_char v"
  by (auto simp: number_def num_char_def list_all_iff)

text \<open>A comparison is found by \<open>compareSum\<close>, and has no parenthesis or dollar sign.\<close>

lemma takeWhile_split:
  "list_all p m \<Longrightarrow> v = [] \<or> \<not> p (hd v) \<Longrightarrow> takeWhile p (m @ v) = m \<and> dropWhile p (m @ v) = v"
  by (induction m) (auto simp: takeWhile_eq_Nil_iff dropWhile_eq_self_iff)

lemma compare_found:
  assumes "m \<in> {''>'', ''='', ''<'', ''>='', ''<=''}" "number v"
  shows "find_compare (m @ v) = Some (m, v)" "list_all (\<lambda>c. \<not> is_cut c) (m @ v)"
proof -
  have v: "v \<noteq> []" "list_all num_char v" using number_num [OF assms(2)] by simp_all
  have num: "num_char c \<Longrightarrow> \<not> is_cmp c \<and> \<not> is_cut c" for c
    by (auto simp: num_char_def is_cmp_def is_cut_def is_digit_def)
  have m: "list_all is_cmp m" "m \<noteq> []" "list_all (\<lambda>c. \<not> is_cut c) m" using assms(1) by (auto simp: is_cmp_def is_cut_def)
  have "num_char (hd v)" using v by (cases v) simp_all
  then have cut: "takeWhile is_cmp (m @ v) = m \<and> dropWhile is_cmp (m @ v) = v"
    using num by (intro takeWhile_split m(1)) simp
  have all: "takeWhile num_char v = v" using takeWhile_split [OF v(2), of "[]"] by simp
  obtain c s where cs: "m @ v = c # s" using m(2) by (cases m) auto
  show "find_compare (m @ v) = Some (m, v)"
    using find_compare.simps(2) [of c s, folded cs] by (simp only: Let_def cut all m(2) v(1) simp_thms if_True)
  show "list_all (\<lambda>c. \<not> is_cut c) (m @ v)"
    using m(3) v(2) num by (auto simp: list_all_iff)
qed

section \<open>Facts: no panic\<close>

lemma split_runs_ends:
  assumes "p c" "list_all (\<lambda>c. \<not> p c) v"
  shows "last (split_runs p (u @ c # v)) = v"
proof (induction "length u" arbitrary: u rule: less_induct)
  case less
  define d where "d = dropWhile (\<lambda>c. \<not> p c) u"
  have r: "dropWhile (\<lambda>c. \<not> p c) (u @ c # v) = d @ c # v"
    unfolding d_def using assms(1) by (induction u) auto
  have v: "dropWhile p v = v" using assms(2) by (cases v) auto
  have "last (split_runs p (dropWhile p (d @ c # v))) = v"
  proof (cases "list_all p d")
    case True
    then have "dropWhile p (d @ c # v) = dropWhile p (c # v)" by (intro dropWhile_append2) (simp add: list_all_iff)
    then show ?thesis using assms(1) v split_runs_last [OF assms(2)] by simp
  next
    case False
    then obtain x where x: "x \<in> set d" "\<not> p x" by (auto simp: list_all_iff)
    have t: "dropWhile p (d @ c # v) = dropWhile p d @ c # v" using x by (rule dropWhile_append1)
    obtain y ys where d: "d = y # ys" using x(1) by (cases d) auto
    have "hd d = y" "d \<noteq> []" by (simp_all add: d)
    then have "p y" using hd_dropWhile [of "\<lambda>c. \<not> p c" u] unfolding d_def [symmetric] by simp
    then have "length (dropWhile p d) \<le> length ys" using length_dropWhile_le [of p ys] by (simp add: d)
    moreover have "length d \<le> length u" unfolding d_def by (rule length_dropWhile_le)
    ultimately have "length (dropWhile p d) < length u" by (simp add: d)
    from less.hyps [OF this] show ?thesis by (simp only: t)
  qed
  moreover have "split_runs p (u @ c # v) = takeWhile (\<lambda>c. \<not> p c) (u @ c # v) # split_runs p (dropWhile p (d @ c # v))"
    by (subst split_runs.simps) (simp only: Let_def r append_is_Nil_conv list.distinct simp_thms if_False)
  ultimately show ?case using split_runs_length(1) by simp
qed

lemma deal_length: "deal xs = (a, b) \<Longrightarrow> length b \<le> length a \<and> length a \<le> length b + 1"
  by (induction xs arbitrary: a b rule: deal.induct) (auto split: prod.splits)

lemma sum_loop_total:
  "length vs + i \<le> length ops \<Longrightarrow>
     sum_loop ops i vs v = Inr (foldl (\<lambda>a (op, x). if op = ''+'' then a + x else a - x) v (zip (drop i ops) vs))"
proof (induction vs arbitrary: i v)
  case (Cons x vs)
  then have "drop i ops = ops ! i # drop (Suc i) ops" by (simp add: Cons_nth_drop_Suc)
  then show ?case using Cons by simp
qed simp

lemma contains_cut: "contains w s \<Longrightarrow> set w \<subseteq> set s"
proof (induction s)
  case (Cons c s)
  have "starts_with w t \<Longrightarrow> set w \<subseteq> set t" for t
    unfolding starts_with_def by (metis set_take_subset)
  then show ?case using Cons by fastforce
qed simp

text \<open>What a valid expression ends with: a parenthesis, followed by nothing or a comparison.\<close>

lemma valid_ends:
  assumes "expressionValid e" "needCompute e"
  shows "\<exists>u v. e = u @ CHR '')'' # v \<and> list_all (\<lambda>c. \<not> is_cut c) v \<and> (v = [] \<or> find_compare v \<noteq> None)"
proof -
  have cut: "CHR ''$'' \<in> set e" "CHR ''('' \<in> set e" using contains_cut assms(2) by (force simp: needCompute_def)+
  have "\<not> is_digit (CHR ''$'')" by (simp add: is_digit_def)
  then have "\<not> matches matchMode3 e" using cut(1) by (auto simp: matchMode3_def plus_Cls list_all_iff)
  moreover have "e \<noteq> ''$#''" using cut by auto
  ultimately have m: "matches matchMode0 e \<or> matches matchMode1 e \<or> matches matchMode2 e"
    using assms(1) by (auto simp: expressionValid_def rx_match_iff split: if_splits)
  have sum: "\<exists>u. s = u @ [CHR '')'']" if "matches rx_operand s \<or> matches rx_sum s" for s
    using that by (fastforce simp: rx_sum_def matches_Seq matches_operand)
  have cmp: "list_all (\<lambda>c. \<not> is_cut c) v \<and> find_compare v \<noteq> None" if "matches rx_compare v" for v
    using that compare_found by (fastforce simp: matches_compare)
  from m show ?thesis
  proof (elim disjE)
    assume "matches matchMode0 e"
    then show ?thesis using sum by (fastforce simp: matchMode0_def)
  next
    assume "matches matchMode1 e"
    then obtain a v where "e = a @ v" "matches rx_operand a" "matches rx_compare v"
      by (auto simp: matchMode1_def matches_Seq)
    then show ?thesis using sum [of a] cmp [of v] by fastforce
  next
    assume "matches matchMode2 e"
    then obtain a v where "e = ''('' @ a @ '')'' @ v" "matches rx_compare v"
      unfolding matchMode2_def matches_Seq matches_lit by blast
    then show ?thesis using cmp [of v] by (intro exI [of _ "''('' @ a"] exI [of _ v]) simp
  qed
qed

lemma parse_total:
  assumes "expressionValid e" "needCompute e"
  shows "\<exists>a b m. parse e True = Inr (a, b, m) \<and> length a \<le> length b + 1 \<and> (m = [] \<or> find_compare m \<noteq> None)"
proof -
  obtain u v where e: "e = u @ CHR '')'' # v" "list_all (\<lambda>c. \<not> is_cut c) v" "v = [] \<or> find_compare v \<noteq> None"
    using valid_ends [OF assms] by blast
  have cut: "is_cut (CHR '')'')" by (simp add: is_cut_def)
  have two: "2 \<le> length (split_runs is_cut e)" using cut by (intro split_runs_length(2)) (auto simp: e(1))
  then have "split_runs is_cut e ! (length (split_runs is_cut e) - 1) = v"
    using split_runs_ends [OF cut e(2), of u] split_runs_length(1) [of is_cut e] by (simp add: e(1) last_conv_nth)
  then show ?thesis
    using two e(3) deal_length by (fastforce simp: parse_def Let_def split: prod.splits)
qed

text \<open>Computing a parsed expression gives a value or one of the two errors of the code.\<close>

lemma queryOperands_length: "length (queryOperands counters h vm) \<le> length counters"
  by (induction counters) (auto split: option.split)

lemma compute_total:
  assumes "length a \<le> length b + 1" "m = [] \<or> find_compare m \<noteq> None"
  shows "\<not> is_panic (compute a b m h vm)"
proof (cases "a = [] \<or> length (queryOperands a h vm) \<noteq> length a")
  case True
  then show ?thesis by (auto simp: compute_def Let_def)
next
  case False
  then have "length (tl (queryOperands a h vm)) + 0 \<le> length b" using assms(1) by simp
  from sum_loop_total [OF this, of "hd (queryOperands a h vm)"] show ?thesis
    using False assms(2) by (auto simp: compute_def Let_def compareSum_def split: option.split prod.split)
qed

section \<open>Facts: expressions as they are documented\<close>

text \<open>
  The expressions of the documentation: a sum or difference of counters, or the comparison of one
  with a number. \<open>Sum ts w\<close> has the operands \<open>map fst ts @ [w]\<close>, each but the last with the operator after it.
\<close>

datatype agg_expr =
    Sum "(string \<times> char) list" string
  | Compare "(string \<times> char) list" string string string

fun show_sum :: "(string \<times> char) list \<Rightarrow> string \<Rightarrow> string" where
  "show_sum [] w = ''$('' @ w @ '')''"
| "show_sum ((u, c) # ts) w = ''$('' @ u @ '')'' @ [c] @ show_sum ts w"

fun show_expr :: "agg_expr \<Rightarrow> string" where
  "show_expr (Sum ts w) = show_sum ts w"
| "show_expr (Compare ts w m v) = (if ts = [] then show_sum ts w @ m @ v else ''('' @ show_sum ts w @ '')'' @ m @ v)"

fun expr_parts :: "agg_expr \<Rightarrow> string list \<times> string list \<times> string" where
  "expr_parts (Sum ts w) = (map fst ts @ [w], map (\<lambda>(u, c). [c]) ts, '''')"
| "expr_parts (Compare ts w m v) = (map fst ts @ [w], map (\<lambda>(u, c). [c]) ts, m @ v)"

text \<open>A counter in an expression: no parenthesis, no dollar sign, and not the first byte of a wide parenthesis.\<close>

definition clean_operand :: "string \<Rightarrow> bool" where
  "clean_operand w \<longleftrightarrow> w \<noteq> [] \<and> list_all (\<lambda>c. \<not> is_cut c \<and> c \<noteq> CHR 0xEF) w"

definition clean_terms :: "(string \<times> char) list \<Rightarrow> bool" where
  "clean_terms ts \<longleftrightarrow> list_all (\<lambda>(u, c). clean_operand u \<and> (c = CHR ''+'' \<or> c = CHR ''-'')) ts"

fun clean_expr :: "agg_expr \<Rightarrow> bool" where
  "clean_expr (Sum ts w) \<longleftrightarrow> clean_terms ts \<and> clean_operand w"
| "clean_expr (Compare ts w m v) \<longleftrightarrow> clean_terms ts \<and> clean_operand w \<and>
     m \<in> {''>'', ''='', ''<'', ''>='', ''<=''} \<and> number v"

lemma matches_show_sum:
  assumes "clean_terms ts" "clean_operand w"
  shows "matches rx_sum (show_sum ts w)" "ts = [] \<Longrightarrow> matches rx_operand (show_sum ts w)"
proof -
  have op: "matches rx_operand (''$('' @ u @ '')'')" if "clean_operand u" for u
    unfolding matches_operand using that by (intro exI [of _ u]) (auto simp: clean_operand_def list_all_iff not_paren_def is_cut_def)
  have "\<exists>x. show_sum ts w = x @ ''$('' @ w @ '')'' \<and> matches (Star (Seq rx_operand (Cls (\<lambda>c. c = CHR ''+'' \<or> c = CHR ''-'')))) x"
    using assms(1)
  proof (induction ts)
    case Nil
    then show ?case by (intro exI [of _ "[]"]) (simp add: m_nil)
  next
    case (Cons t ts)
    obtain u c where t: "t = (u, c)" by force
    have u: "clean_operand u" "c = CHR ''+'' \<or> c = CHR ''-''" "clean_terms ts" using Cons.prems t by (auto simp: clean_terms_def)
    obtain x where x: "show_sum ts w = x @ ''$('' @ w @ '')''"
        "matches (Star (Seq rx_operand (Cls (\<lambda>c. c = CHR ''+'' \<or> c = CHR ''-'')))) x" using Cons.IH [OF u(3)] by blast
    have "matches (Seq rx_operand (Cls (\<lambda>c. c = CHR ''+'' \<or> c = CHR ''-''))) ((''$('' @ u @ '')'') @ [c])"
      by (rule m_seq [OF op [OF u(1)]]) (simp add: u(2))
    from m_cons [OF this x(2)] show ?case using x(1) t by (intro exI [of _ "((''$('' @ u @ '')'') @ [c]) @ x"]) simp
  qed
  then show "matches rx_sum (show_sum ts w)" unfolding rx_sum_def using op [OF assms(2)] by (auto intro: m_seq)
  show "ts = [] \<Longrightarrow> matches rx_operand (show_sum ts w)" using op [OF assms(2)] by simp
qed

fun cut_items :: "(string \<times> char) list \<Rightarrow> string \<Rightarrow> string list" where
  "cut_items [] w = [w]"
| "cut_items ((u, c) # ts) w = u # [c] # cut_items ts w"

lemma deal_items: "deal (cut_items ts w) = (map fst ts @ [w], map (\<lambda>(u, c). [c]) ts)"
  by (induction ts w rule: cut_items.induct) simp_all

lemma split_show_sum:
  assumes "clean_terms ts" "clean_operand w" "list_all is_cut close" "list_all (\<lambda>c. \<not> is_cut c) m"
  shows "list_all (\<lambda>c. \<not> is_cut c) x \<Longrightarrow> split_runs is_cut (x @ show_sum ts w @ close @ m) = x # cut_items ts w @ [m]"
  using assms(1)
proof (induction ts arbitrary: x)
  case Nil
  have w: "list_all (\<lambda>c. \<not> is_cut c) w" "w \<noteq> []" using assms(2) by (auto simp: clean_operand_def list_all_iff)
  have m: "m = [] \<or> \<not> is_cut (hd m)" using assms(4) by (cases m) auto
  have c: "list_all is_cut ''$(''" "list_all is_cut ('')'' @ close)" using assms(3) by (simp_all add: is_cut_def)
  have "split_runs is_cut (x @ ''$('' @ (w @ ('')'' @ close) @ m)) = x # split_runs is_cut (w @ ('')'' @ close) @ m)"
    using w by (intro split_runs_cut Nil(1) c(1)) (auto simp: neq_Nil_conv)
  also have "split_runs is_cut (w @ ('')'' @ close) @ m) = w # [m]"
    using split_runs_cut [OF w(1) c(2) _ m] split_runs_last [OF assms(4)] by simp
  finally show ?case by simp
next
  case (Cons t ts)
  obtain u c where t: "t = (u, c)" by force
  have u: "list_all (\<lambda>c. \<not> is_cut c) u" "u \<noteq> []" "list_all (\<lambda>c. \<not> is_cut c) [c]" "clean_terms ts"
    using Cons.prems(2) t by (auto simp: clean_operand_def list_all_iff is_cut_def clean_terms_def)
  have d: "list_all is_cut ''$(''" "list_all is_cut '')''" by (simp_all add: is_cut_def)
  have "split_runs is_cut (x @ ''$('' @ (u @ '')'' @ ([c] @ show_sum ts w @ close @ m))) =
      x # split_runs is_cut (u @ '')'' @ ([c] @ show_sum ts w @ close @ m))"
    using u by (intro split_runs_cut Cons.prems(1) d(1)) (auto simp: neq_Nil_conv)
  also have "split_runs is_cut (u @ '')'' @ ([c] @ show_sum ts w @ close @ m)) =
      u # split_runs is_cut ([c] @ show_sum ts w @ close @ m)"
    using u by (intro split_runs_cut u(1) d(2)) auto
  also have "split_runs is_cut ([c] @ show_sum ts w @ close @ m) = [c] # cut_items ts w @ [m]"
    by (rule Cons.IH [OF u(3,4)])
  finally show ?case using t by simp
qed

lemma show_sum_start: "\<exists>r. show_sum ts w = ''$('' @ r"
  by (cases ts) auto

lemma split_open: "split_runs is_cut (''('' @ ''$('' @ r) = split_runs is_cut (''$('' @ r)"
  by (simp add: split_runs.simps [of is_cut "CHR ''('' # s" for s] split_runs.simps [of is_cut "CHR ''$'' # s" for s]
      is_cut_def Let_def)

lemma parse_show:
  assumes "clean_expr e"
  shows "parse (show_expr e) True = Inr (expr_parts e)"
proof -
  have result: "parse s True = Inr (map fst ts @ [w], map (\<lambda>(u, c). [c]) ts, m)"
    if "split_runs is_cut s = '''' # cut_items ts w @ [m]" for s ts w m
    using that deal_items [of ts w] by (simp add: parse_def Let_def nth_append)
  show ?thesis
  proof (cases e)
    case (Sum ts w)
    then have "split_runs is_cut ('''' @ show_sum ts w @ '''' @ '''') = '''' # cut_items ts w @ ['''']"
      using assms by (intro split_show_sum) simp_all
    then show ?thesis using result [of "show_sum ts w"] Sum by simp
  next
    case (Compare ts w m v)
    have c: "clean_terms ts" "clean_operand w" "list_all (\<lambda>c. \<not> is_cut c) (m @ v)"
      using assms Compare compare_found(2) by auto
    show ?thesis
    proof (cases "ts = []")
      case True
      have "split_runs is_cut ('''' @ show_sum ts w @ '''' @ (m @ v)) = '''' # cut_items ts w @ [m @ v]"
        using c by (intro split_show_sum) simp_all
      then show ?thesis using result [of "show_expr e" ts w "m @ v"] Compare True by simp
    next
      case False
      obtain r where r: "show_sum ts w = ''$('' @ r" using show_sum_start by blast
      have "split_runs is_cut ('''' @ show_sum ts w @ '')'' @ (m @ v)) = '''' # cut_items ts w @ [m @ v]"
        using c by (intro split_show_sum) (simp_all add: is_cut_def)
      then have "split_runs is_cut (show_expr e) = '''' # cut_items ts w @ [m @ v]"
        using split_open [of "r @ '')'' @ (m @ v)"] r Compare False by simp
      then show ?thesis using result [of "show_expr e" ts w "m @ v"] Compare by simp
    qed
  qed
qed

lemma clean_operand_byte: "clean_operand w \<Longrightarrow> CHR 0xEF \<notin> set w"
  by (auto simp: clean_operand_def list_all_iff)

lemma show_sum_chars:
  assumes "clean_terms ts" "clean_operand w"
  shows "CHR 0xEF \<notin> set (show_sum ts w)"
  using assms(1)
proof (induction ts)
  case Nil
  then show ?case using clean_operand_byte [OF assms(2)] by simp
next
  case (Cons t ts)
  obtain u c where t: "t = (u, c)" by force
  then have "CHR 0xEF \<notin> set u" "c = CHR ''+'' \<or> c = CHR ''-''" "CHR 0xEF \<notin> set (show_sum ts w)"
    using Cons clean_operand_byte [of u] by (auto simp: clean_terms_def)
  then show ?case by (auto simp: t)
qed

lemma valid_show:
  assumes "clean_expr e"
  shows "expressionValid (show_expr e) \<and> needCompute (show_expr e)"
proof -
  have ef: "CHR 0xEF \<notin> set (show_expr e)"
  proof (cases e)
    case (Compare ts w m v)
    have "CHR 0xEF \<notin> set v" using number_num [of v] assms Compare
      by (auto simp: list_all_iff num_char_def is_digit_def dest!: bspec)
    then show ?thesis using assms Compare show_sum_chars [of ts w] by auto
  qed (use assms show_sum_chars in auto)
  then have wide: "\<not> contains wide_open (show_expr e)" "\<not> contains wide_close (show_expr e)"
    using contains_cut by (force simp: wide_open_def wide_close_def)+
  have "matches matchMode0 (show_expr e) \<or> matches matchMode1 (show_expr e) \<or> matches matchMode2 (show_expr e)"
  proof (cases e)
    case (Sum ts w)
    then show ?thesis using assms matches_show_sum(1) by (simp add: matchMode0_def)
  next
    case (Compare ts w m v)
    have c: "matches rx_compare (m @ v)" 
      unfolding matches_compare by (intro exI [of _ m] exI [of _ v]) (use assms Compare in simp)
    show ?thesis
    proof (cases "ts = []")
      case True
      have "matches rx_operand (show_sum ts w)" using assms Compare matches_show_sum(2) True by simp
      from m_seq [OF this c] show ?thesis using Compare True by (simp add: matchMode1_def)
    next
      case False
      have "matches rx_sum (show_sum ts w)" using assms Compare matches_show_sum(1) by simp
      from m_seq [OF _ m_seq [OF this m_seq [OF _ c]], of "lit ''(''" "''(''" "lit '')''" "'')''"]
      show ?thesis using Compare False by (simp add: matchMode2_def del: lit.simps)
    qed
  qed
  moreover have "contains ''$('' (show_expr e)"
  proof -
    have app: "contains w s \<Longrightarrow> contains w (a @ s)" for w a s by (induction a) simp_all
    have "contains ''$('' (show_sum ts w @ x)" for ts w x
      using show_sum_start [of ts w] by (auto simp: starts_with_def)
    then have sum: "contains ''$('' (show_sum ts w @ x)" for ts w x .
    show ?thesis
    proof (cases e)
      case (Sum ts w)
      then show ?thesis using sum [of ts w "[]"] by simp
    next
      case (Compare ts w m v)
      then show ?thesis using sum [of ts w "m @ v"] app [OF sum [of ts w "'')'' @ m @ v"], of "''(''"]
        by (cases "ts = []") (simp_all del: contains.simps)
    qed
  qed
  ultimately show ?thesis using wide by (auto simp: expressionValid_def rx_match_iff needCompute_def)
qed

lemma expression_facts:
  assumes "clean_expr e"
  shows "expressionValid (show_expr e)" "needCompute (show_expr e)" "parse (show_expr e) True = Inr (expr_parts e)"
    "operatorsValid (fst (snd (expr_parts e)))"
proof -
  show "operatorsValid (fst (snd (expr_parts e)))"
    using assms by (cases e) (auto simp: operatorsValid_def clean_terms_def list_all_iff)
qed (simp_all add: valid_show [OF assms] parse_show [OF assms])

section \<open>Properties\<close>

text \<open>
  C28: A documented expression is accepted and taken apart as it was written: its operands, the
  operators between them and the comparison, for counters without parentheses, dollar signs and the
  first byte of a wide parenthesis.
\<close>

theorem expression_roundtrip:
  assumes "clean_expr e"
  shows "expressionValid (show_expr e) \<and> needCompute (show_expr e) \<and> parse (show_expr e) True = Inr (expr_parts e) \<and>
    operatorsValid (fst (snd (expr_parts e)))"
  using expression_facts [OF assms] by simp

theorem expression_roundtrip_witness:
  "parse ''($(cpu.busy)+$(cpu.idle)-$(cpu.nice))>80'' True = Inr ([''cpu.busy'', ''cpu.idle'', ''cpu.nice''], [''+'', ''-''], ''>80'')"
proof -
  let ?e = "Compare [(''cpu.busy'', CHR ''+''), (''cpu.idle'', CHR ''-'')] ''cpu.nice'' ''>'' ''80''"
  have "number ''80''" unfolding number_def by (intro exI [of _ "''80''"] exI [of _ "''''"]) (simp add: is_digit_def)
  then have "clean_expr ?e" by (simp add: clean_terms_def clean_operand_def is_cut_def)
  from expression_roundtrip [OF this] show ?thesis by simp
qed

text \<open>
  No expression makes a worker panic. Whatever text was accepted as an expression, taking it apart
  succeeds, and computing what came out on any host and any values gives a value or an error.
\<close>

theorem expression_never_panics:
  assumes "expressionValid e" "needCompute e"
  shows "\<exists>a b m. parse e True = Inr (a, b, m) \<and> (\<forall>h vm. \<not> is_panic (compute a b m h vm))"
  using parse_total [OF assms] compute_total by blast

theorem expression_never_panics_witness:
  "\<exists>a b m. parse ''$(a$b)>=1'' True = Inr (a, b, m) \<and> \<not> is_panic (compute a b m ''h1'' [(''h1a'', 0)])"
proof -
  have op: "matches rx_operand ''$(a$b)''"
    unfolding matches_operand by (intro exI [of _ "''a$b''"]) (simp add: not_paren_def)
  have cmp: "matches rx_compare ''>=1''"
    unfolding matches_compare number_def
    by (intro exI [of _ "''>=''"] exI [of _ "''1''"] conjI exI [of _ "''''"]) (simp_all add: is_digit_def)
  have "rx_match matchMode1 ''$(a$b)>=1''"
    using m_seq [OF op cmp] by (simp add: rx_match_iff matchMode1_def)
  moreover have "\<not> contains wide_open ''$(a$b)>=1''" "\<not> contains wide_close ''$(a$b)>=1''"
    by (simp_all add: starts_with_def wide_open_def wide_close_def)
  ultimately have "expressionValid ''$(a$b)>=1''" unfolding expressionValid_def by simp
  moreover have "needCompute ''$(a$b)>=1''" by (simp add: needCompute_def starts_with_def)
  ultimately show ?thesis using expression_never_panics by blast
qed

text \<open>
  The value of an expression on a host. If the host has a value for every counter, it is the sum
  with the signs of the operators, from left to right, or with a comparison 1 or 0 as the sum
  satisfies it or not; if a counter has no value, there is none.
\<close>

theorem compute_value:
  fixes h :: string and valMap :: "(string, f64) gomap"
  assumes "clean_expr e" "expr_parts e = (operands, operators, mode)"
  defines "val \<equiv> \<lambda>w. gget valMap (h @ w)"
  shows "compute operands operators mode h valMap =
    (if \<exists>w \<in> set operands. val w = None then Inl (Err ''value invalid'')
     else let acc = foldl (\<lambda>a (op, w). if op = ''+'' then a + the (val w) else a - the (val w))
                (the (val (hd operands))) (zip operators (tl operands))
          in case e of Sum ts w \<Rightarrow> Inr acc
             | Compare ts w m v \<Rightarrow> let bound = parse_float_or v in
                 Inr (if m = ''>'' \<and> bound < acc \<or> m = ''<'' \<and> acc < bound \<or> m = ''='' \<and> feq acc bound \<or>
                         m = ''>='' \<and> bound \<le> acc \<or> m = ''<='' \<and> acc \<le> bound
                      then f64_of_int 1 else 0))"
proof -
  have query: "queryOperands ws h valMap = map (\<lambda>w. the (val w)) (filter (\<lambda>w. val w \<noteq> None) ws)" for ws
    by (induction ws) (auto simp: val_def)
  have ne: "operands \<noteq> []" "length operands = length operators + 1" using assms(2) by (cases e; auto)+
  show ?thesis
  proof (cases "\<exists>w \<in> set operands. val w = None")
    case True
    then have "length (filter (\<lambda>w. val w \<noteq> None) operands) < length operands"
      by (metis (mono_tags, lifting) length_filter_less)
    then show ?thesis using True ne(1) by (simp add: compute_def query)
  next
    case False
    then have all: "filter (\<lambda>w. val w \<noteq> None) operands = operands" by (auto simp: filter_id_conv)
    obtain w0 ws where ws: "operands = w0 # ws" using ne(1) by (cases operands) auto
    have "sum_loop operators 0 (map (\<lambda>w. the (val w)) ws) (the (val w0)) =
        Inr (foldl (\<lambda>a (op, x). if op = ''+'' then a + x else a - x) (the (val w0)) (zip operators (map (\<lambda>w. the (val w)) ws)))"
      using sum_loop_total [of "map (\<lambda>w. the (val w)) ws" 0 operators "the (val w0)"] ne(2) ws by simp
    also have "foldl (\<lambda>a (op, x). if op = ''+'' then a + x else a - x) (the (val w0)) (zip operators (map (\<lambda>w. the (val w)) ws)) =
        foldl (\<lambda>a (op, w). if op = ''+'' then a + the (val w) else a - the (val w)) (the (val w0)) (zip operators ws)"
      by (simp add: zip_map2 foldl_map case_prod_unfold cong: if_cong)
    finally have acc: "sum_loop operators 0 (map (\<lambda>w. the (val w)) ws) (the (val w0)) =
        Inr (foldl (\<lambda>a (op, w). if op = ''+'' then a + the (val w) else a - the (val w)) (the (val w0)) (zip operators ws))" .
    show ?thesis
    proof (cases e)
      case (Sum ts w)
      then have "mode = ''''" using assms(2) by simp
      then show ?thesis using False acc Sum ws all query [of operands] by (simp add: compute_def Let_def)
    next
      case (Compare ts w m v)
      then have m: "mode = m @ v" "m \<in> {''>'', ''='', ''<'', ''>='', ''<=''}" "number v" using assms(1,2) by auto
      have "mode \<noteq> ''''" using m(1,2) by auto
      then show ?thesis
        using False acc Compare ws all query [of operands] compare_found(1) [OF m(2,3)] m(1)
        by (simp add: compute_def compareSum_def Let_def)
    qed
  qed
qed

theorem compute_value_witness:
  "compute [''a'', ''b''] [''-''] '''' ''h'' [(''ha'', fint 7), (''hb'', fint 5)] = Inr (fint 2)"
proof -
  have "clean_expr (Sum [(''a'', CHR ''-'')] ''b'')" by (simp add: clean_terms_def clean_operand_def is_cut_def)
  from compute_value [OF this, of "[''a'', ''b'']" "[''-'']" "''''" "''h''" "[(''ha'', fint 7), (''hb'', fint 5)]"]
  show ?thesis by (simp add: fint_diff)
qed

end
