(* ===== verification/Sdk_Sender.thy ===== *)
theory Sdk_Sender
  imports Common_Model Safe_List
begin

text \<open>
  The sender that modules other than transfer share (\<open>src/common/sdk/sender\<close>): samples are made with
  the defaults of the package, queue up in \<open>MetaDataQueue\<close> (front first) and are posted to an agent or
  transfer in batches of 200. The POST is an oracle; every attempt is logged with its outcome.
\<close>

section \<open>Making samples (\<open>make.go\<close>)\<close>

definition MakeMetaData :: "int \<Rightarrow> string \<Rightarrow> string \<Rightarrow> string \<Rightarrow> any_value \<Rightarrow> string \<Rightarrow> int list \<Rightarrow> json_meta_data" where
  "MakeMetaData now endpoint metric tagtext val counterType step_and_ts =
     (let md = \<lparr>jm_Metric = metric, jm_Endpoint = endpoint, jm_Timestamp = 0, jm_Step = 0, jm_Value = val,
                jm_CounterType = counterType, jm_Tags = tagtext\<rparr>
      in case step_and_ts of
           [] \<Rightarrow> md\<lparr>jm_Step := 60, jm_Timestamp := now\<rparr>
         | [step] \<Rightarrow> md\<lparr>jm_Step := step, jm_Timestamp := now\<rparr>
         | [step, ts] \<Rightarrow> md\<lparr>jm_Step := step, jm_Timestamp := ts\<rparr>
         | _ \<Rightarrow> md)"

definition MakeGaugeValue :: "int \<Rightarrow> string \<Rightarrow> string \<Rightarrow> string \<Rightarrow> any_value \<Rightarrow> int list \<Rightarrow> json_meta_data" where
  "MakeGaugeValue now endpoint metric tagtext val step_and_ts = MakeMetaData now endpoint metric tagtext val ''GAUGE'' step_and_ts"

definition MakeCounterValue :: "int \<Rightarrow> string \<Rightarrow> string \<Rightarrow> string \<Rightarrow> any_value \<Rightarrow> int list \<Rightarrow> json_meta_data" where
  "MakeCounterValue now endpoint metric tagtext val step_and_ts = MakeMetaData now endpoint metric tagtext val ''COUNTER'' step_and_ts"

section \<open>The queue (\<open>linkedlist.go\<close>, \<open>push.go\<close>)\<close>

definition sdk_PushFront :: "'a \<Rightarrow> 'a list \<Rightarrow> 'a list" where
  "sdk_PushFront v l = v # l"

definition sdk_PopBack :: "int \<Rightarrow> 'a list \<Rightarrow> ('a list \<times> 'a list) res" where
  "sdk_PopBack limit l =
     (let sz = int (length l) in
      if sz = 0 then Inr ([], l)
      else let limit = (if sz < limit then sz else limit) in
        if limit < 0 then Inl (Panic ''makeslice: cap out of range'') else Inr (pop_loop (nat limit) [] l))"

record sdk_sender =
  MetaDataQueue :: "json_meta_data list"
  Attempts :: "(json_meta_data list \<times> bool) list"

definition PushGauge :: "int \<Rightarrow> string \<Rightarrow> string \<Rightarrow> string \<Rightarrow> any_value \<Rightarrow> int list \<Rightarrow> sdk_sender \<Rightarrow> sdk_sender" where
  "PushGauge now endpoint metric tagtext val step_and_ts s =
     s\<lparr>MetaDataQueue := sdk_PushFront (MakeGaugeValue now endpoint metric tagtext val step_and_ts) (MetaDataQueue s)\<rparr>"

definition PushCounter :: "int \<Rightarrow> string \<Rightarrow> string \<Rightarrow> string \<Rightarrow> any_value \<Rightarrow> int list \<Rightarrow> sdk_sender \<Rightarrow> sdk_sender" where
  "PushCounter now endpoint metric tagtext val step_and_ts s =
     s\<lparr>MetaDataQueue := sdk_PushFront (MakeCounterValue now endpoint metric tagtext val step_and_ts) (MetaDataQueue s)\<rparr>"

definition Push :: "int \<Rightarrow> string \<Rightarrow> string \<Rightarrow> string \<Rightarrow> any_value \<Rightarrow> string \<Rightarrow> int list \<Rightarrow> sdk_sender \<Rightarrow> sdk_sender" where
  "Push now endpoint metric tagtext val counterType step_and_ts s =
     s\<lparr>MetaDataQueue := sdk_PushFront (MakeMetaData now endpoint metric tagtext val counterType step_and_ts) (MetaDataQueue s)\<rparr>"

section \<open>Posting (\<open>sender.go\<close>)\<close>

definition LIMIT :: int where
  "LIMIT = 200"

definition meta_json_ok :: "json_meta_data \<Rightarrow> bool" where
  "meta_json_ok m = (case jm_Value m of VFloat v \<Rightarrow> is_fin v | _ \<Rightarrow> True)"

text \<open>The answer of the server is its status code; \<open>None\<close> is a connection that fails.\<close>

definition PostPush :: "int option \<Rightarrow> json_meta_data list \<Rightarrow> unit res" where
  "PostPush answer l =
     (if \<not> list_all meta_json_ok l then Inl (Err ''json'')
      else case answer of None \<Rightarrow> Inl (Err ''post'')
      | Some status \<Rightarrow> if status \<noteq> 200 then Inl (Err ''status code'') else Inr ())"

text \<open>One turn of the endless loop of \<open>startSender\<close>.\<close>

definition sender_round :: "int option \<Rightarrow> sdk_sender \<Rightarrow> sdk_sender res" where
  "sender_round answer s =
     bind_res (sdk_PopBack LIMIT (MetaDataQueue s)) (\<lambda>(l, q).
       let s = s\<lparr>MetaDataQueue := q\<rparr> in
       if length l = 0 then Inr s
       else Inr (s\<lparr>Attempts := Attempts s @ [(l, PostPush answer l = Inr ())]\<rparr>))"

section \<open>Facts\<close>

lemma sdk_PopBack_eq:
  "0 \<le> limit \<Longrightarrow> sdk_PopBack limit l = Inr (take (nat limit) (rev l), take (length l - nat limit) l)"
  by (auto simp: sdk_PopBack_def pop_loop_eq Let_def nat_less_iff)

definition sdk_pop :: "nat \<Rightarrow> 'a list \<Rightarrow> 'a list \<times> 'a list" where
  "sdk_pop n l = (case sdk_PopBack (int n) l of Inr r \<Rightarrow> r | Inl e \<Rightarrow> ([], l))"

interpretation sq: fifo "\<lambda>v q. (True, sdk_PushFront v q)" sdk_pop rev
proof unfold_locales
  show "fst (sdk_pop n q) @ rev (snd (sdk_pop n q)) = rev q" for n and q :: "'a list"
    by (cases "n \<le> length q") (simp_all add: sdk_pop_def sdk_PopBack_eq rev_take)
qed (simp add: sdk_PushFront_def)

text \<open>A schedule: samples that are pushed and turns of the sender.\<close>

datatype sdk_step = Offer json_meta_data | Turn "int option"

fun sdk_run :: "sdk_step list \<Rightarrow> sdk_sender \<Rightarrow> sdk_sender res" where
  "sdk_run [] s = Inr s"
| "sdk_run (Offer m # ops) s = sdk_run ops (s\<lparr>MetaDataQueue := sdk_PushFront m (MetaDataQueue s)\<rparr>)"
| "sdk_run (Turn a # ops) s = bind_res (sender_round a s) (sdk_run ops)"

text \<open>The schedule as the queue sees it.\<close>

fun queue_ops :: "sdk_step list \<Rightarrow> (json_meta_data + nat) list" where
  "queue_ops [] = []"
| "queue_ops (Offer m # ops) = Inl m # queue_ops ops"
| "queue_ops (Turn a # ops) = Inr 200 # queue_ops ops"

fun offers :: "sdk_step list \<Rightarrow> json_meta_data list" where
  "offers [] = []"
| "offers (Offer m # ops) = m # offers ops"
| "offers (Turn a # ops) = offers ops"

lemma sender_round_eq:
  "sender_round a s =
     (let (l, q) = sdk_pop 200 (MetaDataQueue s) in
      Inr (s\<lparr>MetaDataQueue := q, Attempts := Attempts s @ (if l = [] then [] else [(l, PostPush a l = Inr ())])\<rparr>))"
  by (simp add: sender_round_def sdk_pop_def sdk_PopBack_eq LIMIT_def Let_def)

lemma sdk_run_queue:
  "\<exists>s' tries. sdk_run ops s = Inr s' \<and> Attempts s' = Attempts s @ tries \<and>
     sq.run (queue_ops ops) (MetaDataQueue s) = (offers ops, concat (map fst tries), MetaDataQueue s') \<and>
     list_all (\<lambda>(l, ok). l \<noteq> [] \<and> length l \<le> 200) tries"
proof (induction ops arbitrary: s)
  case (Cons op ops)
  show ?case
  proof (cases op)
    case (Offer m)
    then show ?thesis using Cons.IH [of "s\<lparr>MetaDataQueue := sdk_PushFront m (MetaDataQueue s)\<rparr>"] by auto
  next
    case (Turn a)
    obtain l q where p: "sdk_pop 200 (MetaDataQueue s) = (l, q)" by force
    define t where "t = (if l = [] then [] else [(l, PostPush a l = Inr ())])"
    define s1 where "s1 = s\<lparr>MetaDataQueue := q, Attempts := Attempts s @ t\<rparr>"
    have round: "sender_round a s = Inr s1" using p by (simp add: sender_round_eq s1_def t_def)
    have size: "length l \<le> 200" using p by (auto simp: sdk_pop_def sdk_PopBack_eq)
    obtain s' tries where ih: "sdk_run ops s1 = Inr s'" "Attempts s' = Attempts s1 @ tries"
        "sq.run (queue_ops ops) (MetaDataQueue s1) = (offers ops, concat (map fst tries), MetaDataQueue s')"
        "list_all (\<lambda>(l, ok). l \<noteq> [] \<and> length l \<le> 200) tries"
      using Cons.IH [of s1] by blast
    have "MetaDataQueue s1 = q" "Attempts s1 = Attempts s @ t" by (simp_all add: s1_def)
    then show ?thesis
      using ih Turn round p size by (intro exI [of _ s'] exI [of _ "t @ tries"]) (auto simp: t_def)
  qed
qed simp

section \<open>Properties\<close>

text \<open>
  The shared sender keeps the order and tries everything once. Whatever the order of pushes and
  turns, the run does not fail; the batches that were tried have one to 200 samples, and put together
  with what still waits they are what was waiting and what was pushed, in order. A batch that is
  refused, or has a value JSON cannot write, is not tried again.
\<close>

theorem sdk_sender_order:
  "\<exists>s' tries. sdk_run ops s = Inr s' \<and> Attempts s' = Attempts s @ tries \<and>
     concat (map fst tries) @ rev (MetaDataQueue s') = rev (MetaDataQueue s) @ offers ops \<and>
     list_all (\<lambda>(l, ok). l \<noteq> [] \<and> length l \<le> 200) tries"
proof -
  obtain s' tries where r: "sdk_run ops s = Inr s'" "Attempts s' = Attempts s @ tries"
      "sq.run (queue_ops ops) (MetaDataQueue s) = (offers ops, concat (map fst tries), MetaDataQueue s')"
      "list_all (\<lambda>(l, ok). l \<noteq> [] \<and> length l \<le> 200) tries"
    using sdk_run_queue by blast
  from sq.run_conserves [OF r(3)] r show ?thesis by blast
qed

end
