(* ===== verification/Aggregator.thy ===== *)
theory Aggregator
  imports Agg_Expr Sdk_Sender Go_Map
begin

text \<open>
  The aggregator (\<open>src/modules/aggregator\<close>): one worker per cluster item computes a value from the newest
  points of the hosts of a group and pushes it as a sample. The API for hosts and points is the
  record \<open>agg_env\<close>; the rows of table \<open>cluster\<close> are what the database returns, with the time of the last
  update as the text it is printed as.
\<close>

section \<open>State\<close>

record cluster =
  cl_Id :: int
  cl_GroupId :: int
  cl_Numerator :: string
  cl_Denominator :: string
  cl_Endpoint :: string
  cl_Metric :: string
  cl_Tags :: string
  cl_DsType :: string
  cl_Step :: int
  cl_LastUpdate :: string

record agg_env =
  HostApi :: "int \<Rightarrow> nat \<Rightarrow> string list option" \<comment> \<open>hosts of a group, by attempt\<close>
  LastPointApi :: "graph_last_param list \<Rightarrow> graph_last_resp option list option"

record agg_state =
  DbHostGroupCache :: "(string, string list \<times> int) gomap" \<comment> \<open>with the time of expiry\<close>
  Sender :: sdk_sender
  Workers :: "(string, cluster) gomap"
  Dropped :: "string list" \<comment> \<open>workers whose quit channel was closed\<close>

section \<open>Hosts and points (\<open>sdk/sdk.go\<close>, \<open>cron/query.go\<close>)\<close>

definition agg_CacheTTl :: int where
  "agg_CacheTTl = 3600"

fun retry_hosts :: "(nat \<Rightarrow> string list option) \<Rightarrow> nat \<Rightarrow> nat \<Rightarrow> string list" where
  "retry_hosts api rS 0 = []"
| "retry_hosts api rS (Suc left) = (case api rS of None \<Rightarrow> retry_hosts api (rS + 1) left | Some hostnames \<Rightarrow> hostnames)"

text \<open>The error is set on every path.\<close>

definition CurlHostnamesByID :: "agg_env \<Rightarrow> int \<Rightarrow> string list \<times> go_error option" where
  "CurlHostnamesByID env groupId = (retry_hosts (HostApi env groupId) 0 3, Some (Err ''CurlHostnamesByID failed''))"

definition HostnamesByID :: "agg_env \<Rightarrow> int \<Rightarrow> int \<Rightarrow> agg_state \<Rightarrow> string list \<times> agg_state" where
  "HostnamesByID env now groupId s =
     (let gidStr = itoa groupId in
      case gget (DbHostGroupCache s) gidStr of
        Some (hosts, expiration) \<Rightarrow>
          if now \<le> expiration then (hosts, s)
          else (let (hosts, err) = CurlHostnamesByID env groupId in
            (hosts, if err = None then s\<lparr>DbHostGroupCache := gput gidStr (hosts, now + agg_CacheTTl) (DbHostGroupCache s)\<rparr> else s))
      | None \<Rightarrow>
          (let (hosts, err) = CurlHostnamesByID env groupId in
            (hosts, if err = None then s\<lparr>DbHostGroupCache := gput gidStr (hosts, now + agg_CacheTTl) (DbHostGroupCache s)\<rparr> else s)))"

definition QueryLastPoints :: "agg_env \<Rightarrow> string list \<Rightarrow> string list \<Rightarrow> graph_last_resp option list option" where
  "QueryLastPoints env endpoints counters =
     LastPointApi env (concat (map (\<lambda>e. map (\<lambda>c. \<lparr>lp_Endpoint = e, lp_Counter = c\<rparr>) counters) endpoints))"

fun last_loop :: "int \<Rightarrow> int \<Rightarrow> graph_last_resp option list \<Rightarrow> (string, f64) gomap \<Rightarrow> (string, f64) gomap res" where
  "last_loop begin_ts end_ts [] ret = Inr ret"
| "last_loop begin_ts end_ts (None # resp) ret = Inl (Panic ''nil pointer dereference'')"
| "last_loop begin_ts end_ts (Some r # resp) ret =
     (case lr_Value r of
        None \<Rightarrow> Inl (Panic ''nil pointer dereference'')
      | Some v \<Rightarrow>
          if rd_Timestamp v < begin_ts \<or> end_ts < rd_Timestamp v then last_loop begin_ts end_ts resp ret
          else last_loop begin_ts end_ts resp (gput (lr_Endpoint r @ lr_Counter r) (rd_Value v) ret))"

definition queryCounterLast :: "agg_env \<Rightarrow> string list \<Rightarrow> string list \<Rightarrow> string list \<Rightarrow> int \<Rightarrow> int \<Rightarrow> (string, f64) gomap res" where
  "queryCounterLast env numeratorOperands denominatorOperands hostnames begin_ts end_ts =
     (case QueryLastPoints env hostnames (numeratorOperands @ denominatorOperands) of
        None \<Rightarrow> Inl (Err ''QueryLastPoints'')
      | Some resp \<Rightarrow> last_loop begin_ts end_ts resp [])"

section \<open>One run of a worker (\<open>cron/run.go\<close>)\<close>

type_synonym parsed = "string list \<times> string list \<times> string"

text \<open>What a host adds: \<open>None\<close> for a host that is passed over.\<close>

definition part_value :: "bool \<Rightarrow> parsed \<Rightarrow> string \<Rightarrow> (string, f64) gomap \<Rightarrow> f64 option res" where
  "part_value need p hostname valueMap =
     (if need then
        (case compute (fst p) (fst (snd p)) (snd (snd p)) hostname valueMap of
           Inr v \<Rightarrow> Inr (Some v)
         | Inl (Err e) \<Rightarrow> Inr None
         | Inl (Panic e) \<Rightarrow> Inl (Panic e))
      else Inr (Some 0))"

fun host_loop :: "bool \<Rightarrow> parsed \<Rightarrow> bool \<Rightarrow> parsed \<Rightarrow> (string, f64) gomap \<Rightarrow> string list \<Rightarrow> f64 \<times> f64 \<times> int
    \<Rightarrow> (f64 \<times> f64 \<times> int) res" where
  "host_loop needN pN needD pD vm [] acc = Inr acc"
| "host_loop needN pN needD pD vm (hostname # hosts) (numerator, denominator, validCount) =
     bind_res (part_value needN pN hostname vm) (\<lambda>n.
       case n of None \<Rightarrow> host_loop needN pN needD pD vm hosts (numerator, denominator, validCount)
       | Some numeratorVal \<Rightarrow>
           bind_res (part_value needD pD hostname vm) (\<lambda>d.
             case d of None \<Rightarrow> host_loop needN pN needD pD vm hosts (numerator, denominator, validCount)
             | Some denominatorVal \<Rightarrow>
                 host_loop needN pN needD pD vm hosts
                   (numerator + numeratorVal, denominator + denominatorVal, validCount + 1)))"

text \<open>A side that is not computed: the number of hosts that counted, or a number.\<close>

definition fixed_side :: "bool \<Rightarrow> string \<Rightarrow> int \<Rightarrow> f64 \<Rightarrow> f64 res" where
  "fixed_side need text validCount val =
     (if need then Inr val
      else if text = ''$#'' then Inr (f64_of_int validCount)
      else parse_float text)"

text \<open>The sample to push; an error is a run that ends without one.\<close>

definition cluster_value :: "agg_env \<Rightarrow> int \<Rightarrow> cluster \<Rightarrow> agg_state \<Rightarrow> f64 res \<times> agg_state" where
  "cluster_value env now item s =
     (let numeratorStr = cleanParam (cl_Numerator item); denominatorStr = cleanParam (cl_Denominator item) in
      if \<not> expressionValid numeratorStr \<or> \<not> expressionValid denominatorStr then (Inl (Err ''invalid numerator or denominator''), s)
      else let needN = needCompute numeratorStr; needD = needCompute denominatorStr in
        if \<not> needN \<and> \<not> needD then (Inl (Err ''no need compute''), s)
        else case (parse numeratorStr needN, parse denominatorStr needD) of
          (Inl e, _) \<Rightarrow> (Inl e, s)
        | (Inr _, Inl e) \<Rightarrow> (Inl e, s)
        | (Inr pN, Inr pD) \<Rightarrow>
            if \<not> operatorsValid (fst (snd pN)) \<or> \<not> operatorsValid (fst (snd pD)) then (Inl (Err ''operators invalid''), s)
            else let (hostnames, s) = HostnamesByID env now (cl_GroupId item) s in
              if length hostnames = 0 then (Inl (Err ''get 0 record hostname item''), s)
              else (bind_res (queryCounterLast env (fst pN) (fst pD) hostnames (now - cl_Step item * 2) now) (\<lambda>valueMap.
                bind_res (host_loop needN pN needD pD valueMap hostnames (0, 0, 0)) (\<lambda>(numerator, denominator, validCount).
                bind_res (fixed_side needN numeratorStr validCount numerator) (\<lambda>numerator.
                bind_res (fixed_side needD denominatorStr validCount denominator) (\<lambda>denominator.
                  if feq denominator 0 then Inl (Err ''denominator == 0'')
                  else if validCount = 0 then Inl (Err ''validCount == 0'')
                  else Inr (fdiv numerator denominator))))), s))"

definition WorkerRun :: "agg_env \<Rightarrow> int \<Rightarrow> int \<Rightarrow> cluster \<Rightarrow> agg_state \<Rightarrow> agg_state res" where
  "WorkerRun env now pushed item s =
     (case cluster_value env now item s of
        (Inl (Panic e), s) \<Rightarrow> Inl (Panic e)
      | (Inl (Err e), s) \<Rightarrow> Inr s
      | (Inr v, s) \<Rightarrow> Inr (s\<lparr>Sender := Push pushed (cl_Endpoint item) (cl_Metric item) (cl_Tags item) (VFloat v)
          (cl_DsType item) [cl_Step item] (Sender s)\<rparr>))"

section \<open>Which workers run (\<open>cron/worker.go\<close>, \<open>cron/updater.go\<close>, \<open>db/reader.go\<close>)\<close>

fun read_rows :: "cluster option list \<Rightarrow> (string, cluster) gomap \<Rightarrow> (string, cluster) gomap" where
  "read_rows [] m = m"
| "read_rows (None # rows) m = read_rows rows m"
| "read_rows (Some c # rows) m = read_rows rows (gput (itoa (cl_Id c) @ cl_LastUpdate c) c m)"

definition ReadClusterMonitorItems :: "cluster option list option \<Rightarrow> (string, cluster) gomap option" where
  "ReadClusterMonitorItems db = (case db of None \<Rightarrow> None | Some rows \<Rightarrow> Some (read_rows rows []))"

definition deleteNoUseWorker :: "(string, cluster) gomap \<Rightarrow> agg_state \<Rightarrow> agg_state" where
  "deleteNoUseWorker m s =
     (let del = filter (\<lambda>key. gget m key = None) (gkeys (Workers s))
      in s\<lparr>Workers := foldl (\<lambda>w key. gdel key w) (Workers s) del, Dropped := Dropped s @ del\<rparr>)"

fun create_workers :: "(string, cluster) gomap \<Rightarrow> (string, cluster) gomap \<Rightarrow> (string, cluster) gomap" where
  "create_workers [] w = w"
| "create_workers ((key, item) # m) w =
     (case gget w key of
        Some _ \<Rightarrow> create_workers m w
      | None \<Rightarrow> if cl_Step item \<le> 0 then create_workers m w else create_workers m (gput key item w))"

definition createWorkerIfNeed :: "(string, cluster) gomap \<Rightarrow> agg_state \<Rightarrow> agg_state" where
  "createWorkerIfNeed m s = s\<lparr>Workers := create_workers m (Workers s)\<rparr>"

definition updateItems :: "cluster option list option \<Rightarrow> agg_state \<Rightarrow> agg_state" where
  "updateItems db s =
     (case ReadClusterMonitorItems db of
        None \<Rightarrow> s
      | Some items \<Rightarrow> createWorkerIfNeed items (deleteNoUseWorker items s))"

section \<open>Facts\<close>

lemma HostnamesByID_state: "snd (HostnamesByID env now g s) = s"
  by (auto simp: HostnamesByID_def CurlHostnamesByID_def Let_def split: option.split)

lemma last_loop_total:
  "list_all (\<lambda>r. \<exists>x v. r = Some x \<and> lr_Value x = Some v) resp \<Longrightarrow> \<exists>m. last_loop b e resp ret = Inr m"
  by (induction b e resp ret rule: last_loop.induct) auto

lemma host_loop_total:
  assumes "\<And>h. \<exists>r. part_value needN pN h vm = Inr r" "\<And>h. \<exists>r. part_value needD pD h vm = Inr r"
  shows "\<exists>r. host_loop needN pN needD pD vm hosts acc = Inr r"
proof (induction hosts arbitrary: acc)
  case Nil
  then show ?case by (cases acc) simp
next
  case (Cons h hosts)
  obtain a b c where acc: "acc = (a, b, c)" by (cases acc)
  obtain n d where "part_value needN pN h vm = Inr n" "part_value needD pD h vm = Inr d" using assms by blast
  then show ?case using Cons.IH by (cases n; cases d) (simp_all add: acc)
qed

lemma part_value_total:
  assumes "expressionValid e" "parse e (needCompute e) = Inr p"
  shows "\<exists>r. part_value (needCompute e) p h vm = Inr r"
proof (cases "needCompute e")
  case True
  obtain a b m where p: "p = (a, b, m)" by (metis prod_cases3)
  have "length a \<le> length b + 1 \<and> (m = [] \<or> find_compare m \<noteq> None)"
    using parse_total [OF assms(1) True] assms(2) True p by auto
  then have "\<not> is_panic (compute a b m h vm)" using compute_total by blast
  then show ?thesis using True p by (cases "compute a b m h vm") (auto simp: part_value_def split: go_error.split)
qed (simp add: part_value_def)

lemma parse_float_err: "\<not> is_panic (parse_float s)"
proof -
  obtain neg r where 1: "parse_sign s = (neg, r)" by force
  obtain ip r2 where 2: "span_digits r = (ip, r2)" by force
  obtain fp r3 where 3: "(if starts_with ''.'' r2 then span_digits (tl r2) else ([], r2)) = (fp, r3)" by force
  show ?thesis
  proof (cases "special_float s")
    case None
    show ?thesis
    proof (cases "parse_exp r3")
      case None: None
      show ?thesis unfolding parse_float_def \<open>special_float s = None\<close> 1 Let_def prod.case 2 3 None by simp
    next
      case (Some e)
      show ?thesis unfolding parse_float_def \<open>special_float s = None\<close> 1 Let_def prod.case 2 3 Some
        by (simp split: f64.split)
    qed
  qed (simp add: parse_float_def)
qed

lemma fixed_side_err: "\<not> is_panic (fixed_side need t n v)"
  by (simp add: fixed_side_def parse_float_err)

lemma bind_no_panic: "\<not> is_panic r \<Longrightarrow> (\<And>x. r = Inr x \<Longrightarrow> \<not> is_panic (f x)) \<Longrightarrow> \<not> is_panic (bind_res r f)"
proof (cases r)
  case (Inl e)
  then show "\<not> is_panic r \<Longrightarrow> \<not> is_panic (bind_res r f)" by (cases e) simp_all
qed simp

lemma gwf_read_rows: "gwf m \<Longrightarrow> gwf (read_rows rows m)"
  by (induction rows m rule: read_rows.induct) auto

lemma create_workers_get:
  "gwf m \<Longrightarrow> gget (create_workers m w) key =
     (case gget w key of Some x \<Rightarrow> Some x
      | None \<Rightarrow> (case gget m key of Some item \<Rightarrow> if cl_Step item \<le> 0 then None else Some item | None \<Rightarrow> None))"
proof (induction m w rule: create_workers.induct)
  case (1 w)
  then show ?case by (simp split: option.split)
next
  case (2 k item m w)
  have m: "gwf m" "gget m k = None" using 2(4) by (auto simp: gwf_def map_of_eq_None_iff)
  show ?case
  proof (cases "gget w k")
    case (Some x)
    then show ?thesis using 2(3) [OF Some m(1)] m by (auto split: option.split)
  next
    case None
    show ?thesis
    proof (cases "cl_Step item \<le> 0")
      case True
      then show ?thesis using 2(1) [OF None True m(1)] None m by (auto split: option.split)
    next
      case False
      then show ?thesis using 2(2) [OF None False m(1)] None m by (auto split: option.split)
    qed
  qed
qed

text \<open>The value of a clean expression on a host, if it has one.\<close>

definition host_value :: "agg_expr \<Rightarrow> string \<Rightarrow> (string, f64) gomap \<Rightarrow> f64 option" where
  "host_value e h vm =
     (case compute (fst (expr_parts e)) (fst (snd (expr_parts e))) (snd (snd (expr_parts e))) h vm of
        Inr v \<Rightarrow> Some v | Inl _ \<Rightarrow> None)"

lemma expr_compute_total:
  assumes "clean_expr e"
  shows "\<not> is_panic (compute (fst (expr_parts e)) (fst (snd (expr_parts e))) (snd (snd (expr_parts e))) h vm)"
proof (rule compute_total)
  show "length (fst (expr_parts e)) \<le> length (fst (snd (expr_parts e))) + 1" by (cases e) simp_all
  show "snd (snd (expr_parts e)) = [] \<or> find_compare (snd (snd (expr_parts e))) \<noteq> None"
    using assms compare_found(1) by (cases e) auto
qed

lemma part_value_expr:
  assumes "clean_expr e"
  shows "part_value True (expr_parts e) h vm = Inr (host_value e h vm)"
  using expr_compute_total [OF assms, of h vm]
  by (cases "compute (fst (expr_parts e)) (fst (snd (expr_parts e))) (snd (snd (expr_parts e))) h vm")
     (auto simp: part_value_def host_value_def split: go_error.split)

lemma part_value_fixed: "part_value False p h vm = Inr (Some 0)"
  by (simp add: part_value_def)

lemma host_loop_sum:
  assumes "clean_expr e"
  shows "host_loop True (expr_parts e) False p vm hosts (n, d, k) =
    (let vs = List.map_filter (\<lambda>h. host_value e h vm) hosts in
     Inr (foldl (+) n vs, foldl (\<lambda>d v. d + 0) d vs, k + int (length vs)))"
proof (induction hosts arbitrary: n d k)
  case Nil
  then show ?case by (simp add: List.map_filter_simps)
next
  case (Cons h hosts)
  then show ?case
    by (cases "host_value e h vm")
       (simp_all add: part_value_expr [OF assms] part_value_fixed List.map_filter_simps Let_def)
qed

lemma feq_fint: "feq (fint k) 0 \<longleftrightarrow> k = 0"
  by (simp add: fint_def zero_f64_def)

lemma hosts_count: "expressionValid ''$#''" "\<not> needCompute ''$#''"
  by (simp_all add: expressionValid_def needCompute_def starts_with_def wide_open_def wide_close_def)

lemma sides_no_panic:
  "\<not> is_panic (bind_res (fixed_side a t k n) (\<lambda>n. bind_res (fixed_side b u k d) (\<lambda>d.
     if feq d 0 then Inl (Err x) else if k = 0 then Inl (Err y) else Inr (fdiv n d))))"
  by (intro bind_no_panic fixed_side_err) simp

lemma WorkerRun_returns:
  assumes "\<forall>args resp. LastPointApi env args = Some resp \<longrightarrow> list_all (\<lambda>r. \<exists>x v. r = Some x \<and> lr_Value x = Some v) resp"
  shows "\<exists>s'. WorkerRun env now pushed item s = Inr s'"
proof -
  have query: "\<not> is_panic (queryCounterLast env a b h t u)" for a b h t u
  proof (cases "QueryLastPoints env h (a @ b)")
    case (Some resp)
    then have "list_all (\<lambda>r. \<exists>x v. r = Some x \<and> lr_Value x = Some v) resp"
      using assms unfolding QueryLastPoints_def by blast
    then show ?thesis using Some last_loop_total [of resp t u "[]"] by (auto simp: queryCounterLast_def)
  qed (simp add: queryCounterLast_def)
  let ?n = "cleanParam (cl_Numerator item)" and ?d = "cleanParam (cl_Denominator item)"
  have parse: "\<exists>p. parse e (needCompute e) = Inr p" if "expressionValid e" for e
    using parse_total [OF that] by (cases "needCompute e") (auto simp: parse_def)
  have "\<not> is_panic (fst (cluster_value env now item s))"
  proof (cases "expressionValid ?n \<and> expressionValid ?d")
    case True
    then obtain pN pD where p: "parse ?n (needCompute ?n) = Inr pN" "parse ?d (needCompute ?d) = Inr pD"
      using parse by blast
    have loop: "\<exists>r. host_loop (needCompute ?n) pN (needCompute ?d) pD vm hosts acc = Inr r" for vm hosts acc
      using host_loop_total part_value_total p True by blast
    have inner: "\<not> is_panic (bind_res (host_loop (needCompute ?n) pN (needCompute ?d) pD vm hosts (0, 0, 0)) (\<lambda>(n, d, k).
        bind_res (fixed_side (needCompute ?n) ?n k n) (\<lambda>n. bind_res (fixed_side (needCompute ?d) ?d k d) (\<lambda>d.
          if feq d 0 then Inl (Err ''denominator == 0'')
          else if k = 0 then Inl (Err ''validCount == 0'') else Inr (fdiv n d)))))" for vm hosts
      using loop [of vm hosts "(0, 0, 0)"] sides_no_panic by (auto split: prod.split)
    obtain hosts s1 where h: "HostnamesByID env now (cl_GroupId item) s = (hosts, s1)" by force
    show ?thesis
      using True p h bind_no_panic [OF query inner]
      by (cases "needCompute ?n"; cases "needCompute ?d") (simp_all add: cluster_value_def Let_def)
  qed (auto simp: cluster_value_def Let_def)
  then show ?thesis
    by (auto simp: WorkerRun_def split: prod.split sum.split go_error.split)
qed

section \<open>Properties\<close>


text \<open>
  A run never panics on the texts of an item. Whatever the numerator, the denominator and the
  values are, a run returns, as long as the API does not put nulls into its answers.
\<close>

theorem worker_total:
  assumes "\<forall>args resp. LastPointApi env args = Some resp \<longrightarrow> list_all (\<lambda>r. \<exists>x v. r = Some x \<and> lr_Value x = Some v) resp"
  shows "\<exists>s'. WorkerRun env now pushed item s = Inr s'"
  by (rule WorkerRun_returns [OF assms])

text \<open>
  A null in the answer of the API brings the aggregator down: the run of any item with an accepted
  numerator over \<open>$#\<close> that asks for points panics.
\<close>

theorem null_answer_panics:
  assumes "clean_expr e" "cleanParam (cl_Numerator item) = show_expr e" "cleanParam (cl_Denominator item) = ''$#''"
    and "fst (HostnamesByID env now (cl_GroupId item) s) = hosts" "hosts \<noteq> []"
    and "QueryLastPoints env hosts (fst (expr_parts e)) = Some (None # resp)"
  shows "WorkerRun env now pushed item s = Inl (Panic ''nil pointer dereference'')"
proof -
  note valid = expression_facts [OF assms(1)]
  have h: "HostnamesByID env now (cl_GroupId item) s = (hosts, s)"
    using assms(4) HostnamesByID_state [of env now "cl_GroupId item" s] by (metis prod.collapse)
  have "fst (cluster_value env now item s) = Inl (Panic ''nil pointer dereference'')"
    using assms(5,6) valid hosts_count h
    by (simp add: cluster_value_def assms(2,3) Let_def queryCounterLast_def operatorsValid_def parse_def)
  then show ?thesis by (auto simp: WorkerRun_def split: prod.split)
qed

text \<open>
  Hosts are never cached. Because \<open>CurlHostnamesByID\<close> reports an error even when it has the hosts,
  no run ever writes the cache that is meant to spare the API; every run asks the API again.
\<close>

theorem hosts_never_cached:
  assumes "WorkerRun env now pushed item s = Inr s'"
  shows "DbHostGroupCache s' = DbHostGroupCache s \<and>
    (DbHostGroupCache s = [] \<longrightarrow> fst (HostnamesByID env now g s) = retry_hosts (HostApi env g) 0 3)"
proof -
  have "snd (cluster_value env now item s) = s"
    using HostnamesByID_state [of env now "cl_GroupId item" s]
    by (auto simp: cluster_value_def Let_def split: prod.split sum.split)
  then have "DbHostGroupCache s' = DbHostGroupCache s"
    using assms by (auto simp: WorkerRun_def split: prod.splits sum.splits go_error.splits)
  then show ?thesis by (simp add: HostnamesByID_def CurlHostnamesByID_def Let_def)
qed

text \<open>
  Values are confused between hosts. The points are kept under host and counter written together,
  so that a host gets the point of another host whose name and counter make the same text.
\<close>

theorem host_counter_confused:
  assumes "h @ c = h' @ c'" "begin_ts \<le> rd_Timestamp v" "rd_Timestamp v \<le> end_ts"
  shows "\<exists>vm. last_loop begin_ts end_ts [Some \<lparr>lr_Endpoint = h', lr_Counter = c', lr_Value = Some v\<rparr>] [] = Inr vm \<and>
    compute [c] [] '''' h vm = Inr (rd_Value v)"
  using assms by (simp add: compute_def)


section \<open>Concrete inputs\<close>

definition demo_cluster :: cluster where
  "demo_cluster = \<lparr>cl_Id = 1, cl_GroupId = 7, cl_Numerator = ''$(load)'', cl_Denominator = ''$#'', cl_Endpoint = ''web'',
     cl_Metric = ''load.avg'', cl_Tags = '''', cl_DsType = ''GAUGE'', cl_Step = 60, cl_LastUpdate = ''now''\<rparr>"

definition demo_agg_env :: agg_env where
  "demo_agg_env = \<lparr>HostApi = (\<lambda>g n. Some [''h1'', ''h2'']),
     LastPointApi = (\<lambda>args. Some (map (\<lambda>p. Some \<lparr>lr_Endpoint = lp_Endpoint p, lr_Counter = lp_Counter p,
       lr_Value = Some (NewRRDData 990 (fint 4))\<rparr>) args))\<rparr>"

definition empty_agg :: agg_state where
  "empty_agg = \<lparr>DbHostGroupCache = [], Sender = \<lparr>MetaDataQueue = [], Attempts = []\<rparr>, Workers = [], Dropped = []\<rparr>"


theorem worker_total_witness:
  "\<exists>s'. WorkerRun demo_agg_env 1000 1001 demo_cluster empty_agg = Inr s'"
  using worker_total [of demo_agg_env 1000 1001 demo_cluster empty_agg] by (auto simp: demo_agg_env_def list_all_iff)

lemma demo_cluster_parts:
  "clean_expr (Sum [] ''load'')" "cleanParam (cl_Numerator demo_cluster) = show_expr (Sum [] ''load'')"
  "cleanParam (cl_Denominator demo_cluster) = ''$#''"
  "fst (HostnamesByID (demo_agg_env\<lparr>LastPointApi := api\<rparr>) 1000 (cl_GroupId demo_cluster) empty_agg) = [''h1'', ''h2'']"
proof -
  show "clean_expr (Sum [] ''load'')" by (simp add: clean_terms_def clean_operand_def is_cut_def)
  have "cleanParam ''$(load)'' = ''$(load)''" "cleanParam ''$#'' = ''$#''" by code_simp+
  then show "cleanParam (cl_Numerator demo_cluster) = show_expr (Sum [] ''load'')"
    "cleanParam (cl_Denominator demo_cluster) = ''$#''" by (simp_all add: demo_cluster_def)
  show "fst (HostnamesByID (demo_agg_env\<lparr>LastPointApi := api\<rparr>) 1000 (cl_GroupId demo_cluster) empty_agg) = [''h1'', ''h2'']"
    by (simp add: HostnamesByID_def empty_agg_def CurlHostnamesByID_def demo_agg_env_def numeral_3_eq_3 Let_def)
qed

theorem null_answer_panics_witness:
  "WorkerRun (demo_agg_env\<lparr>LastPointApi := (\<lambda>_. Some [None])\<rparr>) 1000 1001 demo_cluster empty_agg =
     Inl (Panic ''nil pointer dereference'')"
  by (rule null_answer_panics [OF demo_cluster_parts, of _ "[]"]) (simp_all add: QueryLastPoints_def)

theorem hosts_never_cached_witness:
  "\<exists>s'. WorkerRun demo_agg_env 1000 1001 demo_cluster empty_agg = Inr s' \<and> DbHostGroupCache s' = []"
proof -
  obtain s' where "WorkerRun demo_agg_env 1000 1001 demo_cluster empty_agg = Inr s'"
    using WorkerRun_returns [of demo_agg_env 1000 1001 demo_cluster empty_agg] by (auto simp: demo_agg_env_def list_all_iff)
  from hosts_never_cached [OF this] this show ?thesis by (auto simp: empty_agg_def)
qed

theorem host_counter_confused_witness:
  "\<exists>vm. last_loop 880 1000 [Some \<lparr>lr_Endpoint = ''web1'', lr_Counter = ''1.load'', lr_Value = Some (NewRRDData 990 (fint 9))\<rparr>] [] = Inr vm \<and>
     compute [''.load''] [] '''' ''web11'' vm = Inr (fint 9)"
  using host_counter_confused [of "''web11''" "''.load''" "''web1''" "''1.load''" 880 "NewRRDData 990 (fint 9)" 1000]
  by (simp add: NewRRDData_def)


end
