(* ===== verification/Hbs_Strategy.thy ===== *)
theory Hbs_Strategy
  imports Common_Model
begin

text \<open>
  Module hbs, \<open>cache/strategies.go\<close> and \<open>rpc/hbs.go\<close>: the templates a host inherits from and the
  strategies that are in force on it. Templates form chains through \<open>ParentId\<close>; a strategy of a child
  replaces those of its ancestors for the same metric and tags.

  The maps that \<open>CalcInheritStrategies\<close> builds and iterates over are walked in the order that the
  argument \<open>ord\<close> gives for the template concerned; the theorems hold for every \<open>ord\<close> that permutes.
\<close>

section \<open>Definitions\<close>

record host =
  h_Id :: int
  h_Name :: string

type_synonym templates = "(int, template) gomap"
type_synonym tpl_strategies = "(int, strategy list) gomap"
type_synonym uuid_map = "(string, strategy list) gomap"
type_synonym map_order = "int \<Rightarrow> uuid_map \<Rightarrow> uuid_map"

text \<open>The loop of \<open>ParentIds\<close>; the last argument is 10 less the depth.\<close>

fun parent_loop :: "templates \<Rightarrow> int \<Rightarrow> int list \<Rightarrow> nat \<Rightarrow> int list option" where
  "parent_loop allTpls tid ret 0 = None"
| "parent_loop allTpls tid ret (Suc n) =
     (if tid \<le> 0 then Some ret
      else case gget allTpls tid of
             Some t \<Rightarrow> if n = 0 then None else parent_loop allTpls (tpl_ParentId t) (ret @ [tid]) n
           | None \<Rightarrow> Some ret)"

definition ParentIds :: "templates \<Rightarrow> int \<Rightarrow> int list" where
  "ParentIds allTpls tid =
     (case parent_loop allTpls tid [] 10 of
        None \<Rightarrow> []
      | Some ret \<Rightarrow> if length ret \<le> 1 then ret else rev ret)"

definition gpush :: "'k \<Rightarrow> 'v \<Rightarrow> ('k, 'v list) gomap \<Rightarrow> ('k, 'v list) gomap" where
  "gpush k v m = (case gget m k of Some vs \<Rightarrow> gput k (vs @ [v]) m | None \<Rightarrow> gput k [v] m)"

fun tpl2_loop :: "(int \<times> strategy option) list \<Rightarrow> tpl_strategies \<Rightarrow> tpl_strategies" where
  "tpl2_loop [] ret = ret"
| "tpl2_loop ((_, None) # ss) ret = tpl2_loop ss ret"
| "tpl2_loop ((_, Some s) # ss) ret =
     (case st_Tpl s of
        None \<Rightarrow> tpl2_loop ss ret
      | Some t \<Rightarrow> tpl2_loop ss (gpush (tpl_Id t) s ret))"

definition Tpl2Strategies :: "(int, strategy option) gomap \<Rightarrow> tpl_strategies" where
  "Tpl2Strategies strategies = tpl2_loop strategies []"

fun slice_int_contains :: "int list \<Rightarrow> int \<Rightarrow> bool" where
  "slice_int_contains [] target = False"
| "slice_int_contains (b # bs) target = (if b = target then True else slice_int_contains bs target)"

fun slice_int_eq :: "int list \<Rightarrow> int list \<Rightarrow> bool" where
  "slice_int_eq a b =
     (if length a \<noteq> length b then False else list_all (\<lambda>i. a ! i = b ! i) [0..<length a])"

fun slice_int_lt :: "int list \<Rightarrow> int list \<Rightarrow> bool" where
  "slice_int_lt [] b = True"
| "slice_int_lt (i # a) b = (if \<not> slice_int_contains b i then False else slice_int_lt a b)"

text \<open>The chains of the host's templates; one that is part of another chain is dropped.\<close>

fun tpl_buckets :: "templates \<Rightarrow> int list \<Rightarrow> int list list" where
  "tpl_buckets allTpls [] = []"
| "tpl_buckets allTpls (tid # tids) =
     (let ids = ParentIds allTpls tid
      in if length ids \<le> 0 then tpl_buckets allTpls tids else ids # tpl_buckets allTpls tids)"

fun bucket_valid :: "int list list \<Rightarrow> nat \<Rightarrow> nat list \<Rightarrow> bool" where
  "bucket_valid bs i [] = True"
| "bucket_valid bs i (j # js) =
     (if i = j then bucket_valid bs i js
      else if slice_int_eq (bs ! i) (bs ! j) then True
      else if slice_int_lt (bs ! i) (bs ! j) then False
      else bucket_valid bs i js)"

definition uniq_buckets :: "int list list \<Rightarrow> int list list" where
  "uniq_buckets bs =
     map (\<lambda>i. bs ! i) (filter (\<lambda>i. bucket_valid bs i [0..<length bs]) [0..<length bs])"

definition stra_uuid :: "strategy \<Rightarrow> string" where
  "stra_uuid s = ''metric:'' @ st_Metric s @ ''/tags:'' @ SortedTags (st_Tags s)"

definition the_tid_stras :: "tpl_strategies \<Rightarrow> int \<Rightarrow> uuid_map" where
  "the_tid_stras t2s tid =
     foldl (\<lambda>m s. gpush (stra_uuid s) s m) [] (case gget t2s tid of Some ss \<Rightarrow> ss | None \<Rightarrow> [])"

text \<open>One bucket, the oldest template first, so that a younger one overrides.\<close>

fun bucket_stras :: "map_order \<Rightarrow> tpl_strategies \<Rightarrow> int list \<Rightarrow> uuid_map \<Rightarrow> uuid_map" where
  "bucket_stras ord t2s [] m = m"
| "bucket_stras ord t2s (tid # tids) m =
     bucket_stras ord t2s tids
       (foldl (\<lambda>m (uuid, ss). gput uuid ss m) m (ord tid (the_tid_stras t2s tid)))"

fun emit_stras :: "templates \<Rightarrow> int \<Rightarrow> strategy list \<Rightarrow> strategy list \<times> int list
    \<Rightarrow> (strategy list \<times> int list) res" where
  "emit_stras allTpls last_tid [] acc = Inr acc"
| "emit_stras allTpls last_tid (s # ss) (strategies, ids) =
     (if st_Id s \<in> set ids then emit_stras allTpls last_tid ss (strategies, ids)
      else case st_Tpl s of
             None \<Rightarrow> nil_deref
           | Some t \<Rightarrow>
               let v = (if tpl_Id t \<noteq> last_tid then s\<lparr>st_Tpl := gget allTpls last_tid\<rparr> else s)
               in emit_stras allTpls last_tid ss (strategies @ [v], ids @ [st_Id v]))"

fun bucket_loop :: "map_order \<Rightarrow> templates \<Rightarrow> tpl_strategies \<Rightarrow> int list list
    \<Rightarrow> strategy list \<times> int list \<Rightarrow> (strategy list \<times> int list) res" where
  "bucket_loop ord allTpls t2s [] acc = Inr acc"
| "bucket_loop ord allTpls t2s (bucket # bs) acc =
     (let last_tid = bucket ! (length bucket - 1);
          m = ord last_tid (bucket_stras ord t2s bucket [])
      in bind_res (emit_stras allTpls last_tid (concat (map snd m)) acc)
           (\<lambda>acc. bucket_loop ord allTpls t2s bs acc))"

definition CalcInheritStrategies ::
  "map_order \<Rightarrow> templates \<Rightarrow> int list \<Rightarrow> tpl_strategies \<Rightarrow> strategy list res" where
  "CalcInheritStrategies ord allTpls tids t2s =
     bind_res (bucket_loop ord allTpls t2s (uniq_buckets (tpl_buckets allTpls tids)) ([], []))
       (\<lambda>(strategies, _). Inr strategies)"

text \<open>The answers to judge: the strategies of all hosts that are not in maintenance, or of one.\<close>

record hbs_maps =
  HostTemplateIds :: "(int, int list) gomap"
  MonitoredHosts :: "(int, host) gomap"
  TemplateCache :: templates
  Strategies :: "(int, strategy option) gomap"

fun host_strategies :: "map_order \<Rightarrow> hbs_maps \<Rightarrow> tpl_strategies \<Rightarrow> (int \<times> int list) list
    \<Rightarrow> host_strategy list res" where
  "host_strategies ord c t2s [] = Inr []"
| "host_strategies ord c t2s ((hostId, tplIds) # hs) =
     (case gget (MonitoredHosts c) hostId of
        None \<Rightarrow> host_strategies ord c t2s hs
      | Some h \<Rightarrow>
          bind_res (CalcInheritStrategies ord (TemplateCache c) tplIds t2s) (\<lambda>ss.
            if length ss \<le> 0 then host_strategies ord c t2s hs
            else bind_res (host_strategies ord c t2s hs) (\<lambda>rest.
              Inr (\<lparr>hs_Hostname = h_Name h, hs_Strategies = ss\<rparr> # rest))))"

definition GetStrategies :: "map_order \<Rightarrow> hbs_maps \<Rightarrow> host_strategy list res" where
  "GetStrategies ord c =
     (if length (HostTemplateIds c) = 0 \<or> length (MonitoredHosts c) = 0
        \<or> length (TemplateCache c) = 0 \<or> length (Strategies c) = 0 then Inr []
      else host_strategies ord c (Tpl2Strategies (Strategies c)) (HostTemplateIds c))"

fun one_strategies :: "map_order \<Rightarrow> hbs_maps \<Rightarrow> tpl_strategies \<Rightarrow> string \<Rightarrow> (int \<times> int list) list
    \<Rightarrow> host_strategy list res" where
  "one_strategies ord c t2s name [] = Inr []"
| "one_strategies ord c t2s name ((hostId, tplIds) # hs) =
     (case gget (MonitoredHosts c) hostId of
        None \<Rightarrow> one_strategies ord c t2s name hs
      | Some h \<Rightarrow>
          bind_res (CalcInheritStrategies ord (TemplateCache c) tplIds t2s) (\<lambda>ss.
            if length ss \<le> 0 then one_strategies ord c t2s name hs
            else if name = h_Name h then Inr [\<lparr>hs_Hostname = h_Name h, hs_Strategies = ss\<rparr>]
            else one_strategies ord c t2s name hs))"

definition GetStrategiesOne :: "map_order \<Rightarrow> hbs_maps \<Rightarrow> string \<Rightarrow> host_strategy list res" where
  "GetStrategiesOne ord c name =
     (if length (HostTemplateIds c) = 0 \<or> length (MonitoredHosts c) = 0
        \<or> length (TemplateCache c) = 0 \<or> length (Strategies c) = 0 then Inr []
      else one_strategies ord c (Tpl2Strategies (Strategies c)) name (HostTemplateIds c))"

section \<open>Chains of templates\<close>

text \<open>The chain of a template: itself, its parent and so on, until there is none.\<close>

inductive lineage :: "templates \<Rightarrow> int \<Rightarrow> int list \<Rightarrow> bool" for tpls where
  stop: "tid \<le> 0 \<or> gget tpls tid = None \<Longrightarrow> lineage tpls tid []"
| up: "0 < tid \<Longrightarrow> gget tpls tid = Some t \<Longrightarrow> lineage tpls (tpl_ParentId t) xs \<Longrightarrow>
    lineage tpls tid (tid # xs)"

inductive_cases lineage_NilE: "lineage tpls tid []"
inductive_cases lineage_ConsE: "lineage tpls tid (x # xs)"

lemma lineage_unique: "lineage tpls tid xs \<Longrightarrow> lineage tpls tid ys \<Longrightarrow> xs = ys"
proof (induction arbitrary: ys rule: lineage.induct)
  case (stop tid)
  from stop(2) show ?case by cases (use stop(1) in simp_all)
next
  case (up tid t xs)
  from up(5) show ?case
  proof cases
    case (up t' xs')
    then show ?thesis using \<open>gget tpls tid = Some t\<close> up.IH by simp
  qed (use up(1,2) in simp)
qed

lemma lineage_suffix: "lineage tpls tid (a @ p # b) \<Longrightarrow> lineage tpls p (p # b)"
proof (induction a arbitrary: tid)
  case Nil
  then have "lineage tpls tid (p # b)" by simp
  then show ?case by cases (auto intro: lineage.up)
next
  case (Cons x a)
  then show ?case by (auto elim: lineage_ConsE)
qed

lemma lineage_distinct: "lineage tpls tid xs \<Longrightarrow> distinct xs"
proof (rule ccontr)
  assume l: "lineage tpls tid xs" and "\<not> distinct xs"
  then obtain a p b c where xs: "xs = a @ [p] @ b @ [p] @ c"
    by (auto dest!: not_distinct_decomp)
  have "lineage tpls p (p # b @ p # c)" "lineage tpls p (p # c)"
    using l lineage_suffix [of tpls tid a p "b @ p # c"] lineage_suffix [of tpls tid "a @ p # b" p c]
    by (simp_all add: xs)
  then have "p # b @ p # c = p # c" by (rule lineage_unique)
  then have "length (p # b @ p # c) = length (p # c)" by (rule arg_cong)
  then show False by simp
qed

lemma lineage_hd: "lineage tpls tid xs \<Longrightarrow> xs \<noteq> [] \<Longrightarrow> hd xs = tid"
  by (cases rule: lineage.cases) auto

lemma parent_loop_lineage:
  "lineage tpls tid xs \<Longrightarrow>
     parent_loop tpls tid ret n = (if length xs < n then Some (ret @ xs) else None)"
proof (induction arbitrary: ret n rule: lineage.induct)
  case (stop tid)
  then show ?case by (cases n) auto
next
  case (up tid t xs)
  show ?case
  proof (cases n)
    case (Suc k)
    then show ?thesis using up.hyps up.IH [of "ret @ [tid]" k] by auto
  qed simp
qed

lemma parent_loop_endless: "\<nexists>xs. lineage tpls tid xs \<Longrightarrow> parent_loop tpls tid ret n = None"
proof (induction n arbitrary: tid ret)
  case (Suc n)
  have pos: "0 < tid" using Suc.prems lineage.stop [of tid tpls] by force
  obtain t where t: "gget tpls tid = Some t" using Suc.prems lineage.stop [of tid tpls] by auto
  have "\<nexists>xs. lineage tpls (tpl_ParentId t) xs"
    using Suc.prems lineage.up [OF pos t] by blast
  then show ?case using Suc.IH pos t by simp
qed simp

lemma ParentIds_lineage:
  "lineage tpls tid xs \<Longrightarrow> ParentIds tpls tid = (if length xs < 10 then rev xs else [])"
proof -
  assume l: "lineage tpls tid xs"
  have "xs = rev xs" if "length xs \<le> 1" using that by (cases xs) simp_all
  then show ?thesis by (simp add: ParentIds_def parent_loop_lineage [OF l] del: parent_loop.simps)
qed

lemma ParentIds_endless: "\<nexists>xs. lineage tpls tid xs \<Longrightarrow> ParentIds tpls tid = []"
  by (simp add: ParentIds_def parent_loop_endless del: parent_loop.simps)

section \<open>Grouping\<close>

lemma gget_gpush:
  "gget (gpush k v m) = (gget m)(k \<mapsto> (case gget m k of Some vs \<Rightarrow> vs | None \<Rightarrow> []) @ [v])"
  by (simp add: gpush_def fun_eq_iff split: option.split)

lemma gwf_gpush [falcon_inv, simp]: "gwf m \<Longrightarrow> gwf (gpush k v m)"
  by (simp add: gpush_def fun_eq_iff split: option.split)

lemma gwf_group: "gwf m \<Longrightarrow> gwf (foldl (\<lambda>m s. gpush (f s) s m) m ss)"
  by (induction ss arbitrary: m) simp_all

lemma gget_group:
  "gget (foldl (\<lambda>m s. gpush (f s) s m) m ss) u =
     (if filter (\<lambda>s. f s = u) ss = [] then gget m u
      else Some ((case gget m u of Some vs \<Rightarrow> vs | None \<Rightarrow> []) @ filter (\<lambda>s. f s = u) ss))"
  by (induction ss arbitrary: m) (auto simp: gget_gpush)

lemma map_of_perm: "gwf m \<Longrightarrow> mset m' = mset m \<Longrightarrow> map_of (rev m') = gget m"
proof -
  assume m: "gwf m" and p: "mset m' = mset m"
  have "mset (map fst m') = mset (map fst m)" using p by (simp add: mset_map)
  then have "distinct (map fst m')" using m by (metis gwf_def mset_eq_imp_distinct_iff)
  moreover have "set m' = set m" using p by (rule mset_eq_setD)
  ultimately show ?thesis using m by (subst map_of_inject_set) (simp_all add: gwf_def rev_map [symmetric])
qed

section \<open>The strategies in force\<close>

definition own_stras :: "(int, strategy option) gomap \<Rightarrow> int \<Rightarrow> strategy list" where
  "own_stras strategies tid =
     concat (map (\<lambda>(_, os). case os of
         Some s \<Rightarrow> (case st_Tpl s of Some t \<Rightarrow> if tpl_Id t = tid then [s] else [] | None \<Rightarrow> [])
       | None \<Rightarrow> []) strategies)"

text \<open>
  Along a chain, the youngest first, the strategies for a metric with tags are those of the first
  template that has any.
\<close>

fun in_force :: "(int, strategy option) gomap \<Rightarrow> int list \<Rightarrow> string \<Rightarrow> strategy list" where
  "in_force strategies [] u = []"
| "in_force strategies (tid # older) u =
     (let own = filter (\<lambda>s. stra_uuid s = u) (own_stras strategies tid)
      in if own \<noteq> [] then own else in_force strategies older u)"

lemma tpl2_loop_get:
  "gget (tpl2_loop ss ret) tid =
     (if own_stras ss tid = [] then gget ret tid
      else Some ((case gget ret tid of Some vs \<Rightarrow> vs | None \<Rightarrow> []) @ own_stras ss tid))"
  by (induction ss ret rule: tpl2_loop.induct)
     (auto simp: own_stras_def gget_gpush split: option.split)

lemma Tpl2Strategies_get:
  "(case gget (Tpl2Strategies ss) tid of Some vs \<Rightarrow> vs | None \<Rightarrow> []) = own_stras ss tid"
  by (simp add: Tpl2Strategies_def tpl2_loop_get)

lemma gwf_the_tid_stras: "gwf (the_tid_stras t2s tid)"
  unfolding the_tid_stras_def by (rule gwf_group) simp

lemma gget_the_tid_stras:
  "gget (the_tid_stras (Tpl2Strategies ss) tid) u =
     (let own = filter (\<lambda>s. stra_uuid s = u) (own_stras ss tid) in if own = [] then None else Some own)"
  by (simp add: the_tid_stras_def Tpl2Strategies_get gget_group)

definition permutes :: "map_order \<Rightarrow> bool" where
  "permutes ord \<longleftrightarrow> (\<forall>tid m. mset (ord tid m) = mset m)"

lemma bucket_stras_append:
  "bucket_stras ord t2s (a @ b) m = bucket_stras ord t2s b (bucket_stras ord t2s a m)"
  by (induction a arbitrary: m) simp_all

lemma gwf_bucket_stras: "gwf m \<Longrightarrow> gwf (bucket_stras ord t2s b m)"
  by (induction b arbitrary: m) (simp_all add: gm.inv_put_all)

lemma gget_bucket_stras:
  assumes "permutes ord"
  shows "gget (bucket_stras ord (Tpl2Strategies ss) (rev xs) []) u =
    (if in_force ss xs u = [] then None else Some (in_force ss xs u))"
proof (induction xs)
  case (Cons tid xs)
  let ?m = "bucket_stras ord (Tpl2Strategies ss) (rev xs) []"
  let ?t = "the_tid_stras (Tpl2Strategies ss) tid"
  have "gget (bucket_stras ord (Tpl2Strategies ss) (rev (tid # xs)) []) u = (gget ?m ++ gget ?t) u"
    using gm.get_put_all [OF gwf_bucket_stras [OF gwf_empty], of ord "Tpl2Strategies ss" "rev xs" "ord tid ?t"]
      map_of_perm [OF gwf_the_tid_stras] assms
    by (simp add: bucket_stras_append permutes_def)
  then show ?case using Cons.IH by (auto simp: map_add_def gget_the_tid_stras Let_def)
qed simp

lemma in_force_uuid: "s \<in> set (in_force ss xs u) \<Longrightarrow> stra_uuid s = u"
  by (induction xs) (auto simp: Let_def split: if_splits)

lemma in_force_own: "s \<in> set (in_force ss xs u) \<Longrightarrow> \<exists>tid \<in> set xs. s \<in> set (own_stras ss tid)"
  by (induction xs) (auto simp: Let_def split: if_splits)

lemma own_stras_tpl: "s \<in> set (own_stras ss tid) \<Longrightarrow> \<exists>t. st_Tpl s = Some t \<and> tpl_Id t = tid"
  by (auto simp: own_stras_def dest: sym split: option.splits if_splits)

lemma own_stras_mem: "s \<in> set (own_stras ss tid) \<Longrightarrow> \<exists>i. (i, Some s) \<in> set ss"
  by (auto simp: own_stras_def split: option.splits if_splits)

definition bucket_list :: "map_order \<Rightarrow> (int, strategy option) gomap \<Rightarrow> int list \<Rightarrow> strategy list" where
  "bucket_list ord ss b =
     concat (map snd (ord (b ! (length b - 1)) (bucket_stras ord (Tpl2Strategies ss) b [])))"

lemma set_bucket_list:
  assumes "permutes ord"
  shows "s \<in> set (bucket_list ord ss (rev xs)) \<longleftrightarrow> s \<in> set (in_force ss xs (stra_uuid s))"
proof -
  let ?m = "bucket_stras ord (Tpl2Strategies ss) (rev xs) []"
  have "set (ord t ?m) = set ?m" for t
    using assms by (metis permutes_def mset_eq_setD)
  then have "s \<in> set (bucket_list ord ss (rev xs)) \<longleftrightarrow> (\<exists>u l. (u, l) \<in> set ?m \<and> s \<in> set l)"
    by (force simp: bucket_list_def)
  also have "\<dots> \<longleftrightarrow> (\<exists>u l. gget ?m u = Some l \<and> s \<in> set l)"
    using gwf_bucket_stras [OF gwf_empty, of ord "Tpl2Strategies ss" "rev xs"]
    by (simp add: gwf_def)
  also have "\<dots> \<longleftrightarrow> s \<in> set (in_force ss xs (stra_uuid s))"
    by (auto simp: gget_bucket_stras [OF assms] dest: in_force_uuid intro!: exI [of _ "stra_uuid s"]
        split: if_splits)
  finally show ?thesis .
qed

section \<open>Collecting the strategies of a bucket\<close>

definition retarget :: "templates \<Rightarrow> int \<Rightarrow> strategy \<Rightarrow> strategy" where
  "retarget tpls tid s =
     (if \<exists>t. st_Tpl s = Some t \<and> tpl_Id t \<noteq> tid then s\<lparr>st_Tpl := gget tpls tid\<rparr> else s)"

lemma retarget_id [simp]: "st_Id (retarget tpls tid s) = st_Id s"
  by (simp add: retarget_def)

definition fresh_ids :: "strategy list \<Rightarrow> strategy list \<Rightarrow> strategy list \<Rightarrow> bool" where
  "fresh_ids acc ss out \<longleftrightarrow> st_Id ` set (acc @ out) = st_Id ` (set acc \<union> set ss) \<and>
     (distinct (map st_Id acc) \<longrightarrow> distinct (map st_Id (acc @ out)))"

lemma fresh_stra_ids_append:
  "fresh_ids acc ss out \<Longrightarrow> fresh_ids (acc @ out) ss' out' \<Longrightarrow> fresh_ids acc (ss @ ss') (out @ out')"
  unfolding fresh_ids_def by (auto simp: image_Un)

lemma emit_stras_spec:
  "\<forall>s \<in> set ss. st_Tpl s \<noteq> None \<Longrightarrow>
     \<exists>out. emit_stras tpls last_tid ss (acc, map st_Id acc) = Inr (acc @ out, map st_Id (acc @ out))
       \<and> (\<forall>v \<in> set out. \<exists>s \<in> set ss. v = retarget tpls last_tid s) \<and> fresh_ids acc ss out"
proof (induction ss arbitrary: acc)
  case Nil
  show ?case by (rule exI [of _ "[]"]) (simp add: fresh_ids_def)
next
  case (Cons s ss)
  from Cons.prems obtain t where t: "st_Tpl s = Some t" by auto
  show ?case
  proof (cases "st_Id s \<in> set (map st_Id acc)")
    case True
    from Cons obtain out where
      "emit_stras tpls last_tid ss (acc, map st_Id acc) = Inr (acc @ out, map st_Id (acc @ out))"
      "\<forall>v \<in> set out. \<exists>s \<in> set ss. v = retarget tpls last_tid s" "fresh_ids acc ss out"
      by fastforce
    then show ?thesis using True by (intro exI [of _ out]) (auto simp: fresh_ids_def image_iff)
  next
    case False
    let ?v = "retarget tpls last_tid s"
    from Cons obtain out where out:
      "emit_stras tpls last_tid ss (acc @ [?v], map st_Id (acc @ [?v]))
         = Inr ((acc @ [?v]) @ out, map st_Id ((acc @ [?v]) @ out))"
      "\<forall>v \<in> set out. \<exists>s \<in> set ss. v = retarget tpls last_tid s" "fresh_ids (acc @ [?v]) ss out"
      by fastforce
    have "fresh_ids acc [s] [?v]" using False by (auto simp: fresh_ids_def)
    from fresh_stra_ids_append [OF this out(3)] have "fresh_ids acc (s # ss) (?v # out)" by simp
    moreover have "emit_stras tpls last_tid (s # ss) (acc, map st_Id acc)
        = Inr (acc @ ?v # out, map st_Id (acc @ ?v # out))"
      using out(1) False t by (simp add: retarget_def Let_def)
    ultimately show ?thesis using out(2) by (intro exI [of _ "?v # out"]) auto
  qed
qed

lemma bucket_loop_spec:
  "\<forall>b \<in> set bs. \<forall>s \<in> set (bucket_list ord ss b). st_Tpl s \<noteq> None \<Longrightarrow>
     \<exists>out. bucket_loop ord tpls (Tpl2Strategies ss) bs (acc, map st_Id acc)
         = Inr (acc @ out, map st_Id (acc @ out))
       \<and> (\<forall>v \<in> set out. \<exists>b \<in> set bs. \<exists>s \<in> set (bucket_list ord ss b).
            v = retarget tpls (b ! (length b - 1)) s)
       \<and> fresh_ids acc (concat (map (bucket_list ord ss) bs)) out"
proof (induction bs arbitrary: acc)
  case Nil
  show ?case by (rule exI [of _ "[]"]) (simp add: fresh_ids_def)
next
  case (Cons b bs)
  from Cons.prems emit_stras_spec [of "bucket_list ord ss b" tpls "b ! (length b - 1)" acc]
  obtain o1 where o1:
    "emit_stras tpls (b ! (length b - 1)) (bucket_list ord ss b) (acc, map st_Id acc)
       = Inr (acc @ o1, map st_Id (acc @ o1))"
    "\<forall>v \<in> set o1. \<exists>s \<in> set (bucket_list ord ss b). v = retarget tpls (b ! (length b - 1)) s"
    "fresh_ids acc (bucket_list ord ss b) o1" by auto
  from Cons.prems Cons.IH [of "acc @ o1"] obtain o2 where o2:
    "bucket_loop ord tpls (Tpl2Strategies ss) bs (acc @ o1, map st_Id (acc @ o1))
       = Inr ((acc @ o1) @ o2, map st_Id ((acc @ o1) @ o2))"
    "\<forall>v \<in> set o2. \<exists>b \<in> set bs. \<exists>s \<in> set (bucket_list ord ss b).
       v = retarget tpls (b ! (length b - 1)) s"
    "fresh_ids (acc @ o1) (concat (map (bucket_list ord ss) bs)) o2" by auto
  show ?case
  proof (rule exI [of _ "o1 @ o2"], intro conjI)
    show "bucket_loop ord tpls (Tpl2Strategies ss) (b # bs) (acc, map st_Id acc)
        = Inr (acc @ o1 @ o2, map st_Id (acc @ o1 @ o2))"
      using o1(1) o2(1) by (simp add: Let_def bucket_list_def)
    show "fresh_ids acc (concat (map (bucket_list ord ss) (b # bs))) (o1 @ o2)"
      using fresh_stra_ids_append [OF o1(3) o2(3)] by simp
  qed (use o1(2) o2(2) in auto)
qed

section \<open>Chains that are part of another\<close>

lemma slice_int_contains_iff: "slice_int_contains bs x \<longleftrightarrow> x \<in> set bs"
  by (induction bs) auto

lemma slice_int_lt_iff: "slice_int_lt a b \<longleftrightarrow> set a \<subseteq> set b"
  by (induction a) (auto simp: slice_int_contains_iff)

lemma slice_int_eq_iff: "slice_int_eq a b \<longleftrightarrow> a = b"
  by (auto simp: list_all_iff intro: nth_equalityI)

lemma bucket_valid_iff:
  "\<forall>j \<in> set js. i \<noteq> j \<longrightarrow> bs ! i \<noteq> bs ! j \<Longrightarrow>
     bucket_valid bs i js \<longleftrightarrow> (\<forall>j \<in> set js. i \<noteq> j \<longrightarrow> \<not> set (bs ! i) \<subseteq> set (bs ! j))"
  by (induction js) (auto simp: slice_int_lt_iff slice_int_eq_iff simp del: slice_int_eq.simps)

lemma set_uniq_buckets:
  assumes "distinct bs"
  shows "set (uniq_buckets bs) = {b \<in> set bs. \<forall>b' \<in> set bs. b' \<noteq> b \<longrightarrow> \<not> set b \<subseteq> set b'}"
proof -
  have v: "bucket_valid bs i [0..<length bs] \<longleftrightarrow>
      (\<forall>j < length bs. i \<noteq> j \<longrightarrow> \<not> set (bs ! i) \<subseteq> set (bs ! j))" if "i < length bs" for i
    using that assms by (subst bucket_valid_iff) (auto simp: nth_eq_iff_index_eq)
  have iff: "b \<in> set (uniq_buckets bs) \<longleftrightarrow>
      (\<exists>i < length bs. b = bs ! i \<and> bucket_valid bs i [0..<length bs])" for b
    by (auto simp: uniq_buckets_def)
  have all: "(\<forall>j < length bs. i \<noteq> j \<longrightarrow> P (bs ! j)) \<longleftrightarrow> (\<forall>b' \<in> set bs. b' \<noteq> bs ! i \<longrightarrow> P b')"
    if "i < length bs" for i P
    using that assms by (auto simp: all_set_conv_all_nth nth_eq_iff_index_eq)
  have valid: "bucket_valid bs i [0..<length bs] \<longleftrightarrow>
      (\<forall>b' \<in> set bs. b' \<noteq> bs ! i \<longrightarrow> \<not> set (bs ! i) \<subseteq> set b')" if "i < length bs" for i
    using v [OF that] all [OF that, of "\<lambda>b'. \<not> set (bs ! i) \<subseteq> set b'"] by (rule trans)
  show ?thesis
  proof (rule set_eqI)
    fix b
    have "b \<in> set (uniq_buckets bs) \<longleftrightarrow> (\<exists>i < length bs. b = bs ! i \<and>
        (\<forall>b' \<in> set bs. b' \<noteq> bs ! i \<longrightarrow> \<not> set (bs ! i) \<subseteq> set b'))"
      unfolding iff by (intro ex_cong1) (auto simp: valid)
    then show "b \<in> set (uniq_buckets bs) \<longleftrightarrow>
        b \<in> {b \<in> set bs. \<forall>b' \<in> set bs. b' \<noteq> b \<longrightarrow> \<not> set b \<subseteq> set b'}"
      by (auto simp: in_set_conv_nth)
  qed
qed

lemma tpl_buckets_filter: "tpl_buckets tpls tids = filter (\<lambda>b. b \<noteq> []) (map (ParentIds tpls) tids)"
  by (induction tids) (simp_all add: Let_def)

section \<open>Inheritance\<close>

definition short_chains :: "templates \<Rightarrow> int list \<Rightarrow> bool" where
  "short_chains tpls tids \<longleftrightarrow> (\<forall>tid \<in> set tids. \<exists>xs. lineage tpls tid xs \<and> length xs < 10)"

text \<open>A template of the host from which no other template of the host inherits.\<close>

definition youngest :: "templates \<Rightarrow> int list \<Rightarrow> int \<Rightarrow> bool" where
  "youngest tpls tids tid \<longleftrightarrow> tid \<in> set tids \<and> 0 < tid \<and> gget tpls tid \<noteq> None \<and>
     (\<forall>tid' \<in> set tids. tid' \<noteq> tid \<longrightarrow> (\<forall>xs. lineage tpls tid' xs \<longrightarrow> tid \<notin> set xs))"

definition in_force_on :: "templates \<Rightarrow> (int, strategy option) gomap \<Rightarrow> int \<Rightarrow> strategy \<Rightarrow> bool" where
  "in_force_on tpls ss tid s \<longleftrightarrow> (\<exists>xs. lineage tpls tid xs \<and> s \<in> set (in_force ss xs (stra_uuid s)))"

lemma lineage_nonempty: "lineage tpls tid xs \<Longrightarrow> xs \<noteq> [] \<longleftrightarrow> 0 < tid \<and> gget tpls tid \<noteq> None"
  by (erule lineage.cases) auto

lemma lineage_mem: "lineage tpls tid xs \<Longrightarrow> lineage tpls tid' ys \<Longrightarrow> ys \<noteq> [] \<Longrightarrow>
    set ys \<subseteq> set xs \<longleftrightarrow> tid' \<in> set xs"
proof
  assume l: "lineage tpls tid xs" "lineage tpls tid' ys" and "tid' \<in> set xs"
  then obtain a b where xs: "xs = a @ tid' # b" by (auto dest: split_list)
  then have "lineage tpls tid' (tid' # b)" using l(1) lineage_suffix by simp
  then have "ys = tid' # b" using l(2) lineage_unique by simp
  then show "set ys \<subseteq> set xs" using xs by auto
qed (use lineage_hd in fastforce)

lemma kept_chains:
  assumes c: "\<forall>tid \<in> set tids. lineage tpls tid (c tid) \<and> length (c tid) < 10" and d: "distinct tids"
  shows "set (uniq_buckets (tpl_buckets tpls tids)) = (\<lambda>tid. rev (c tid)) ` {tid. youngest tpls tids tid}"
proof -
  let ?ts = "filter (\<lambda>tid. c tid \<noteq> []) tids"
  have hd: "hd (c tid) = tid" if "tid \<in> set ?ts" for tid
    using that c lineage_hd by auto
  have bs: "tpl_buckets tpls tids = map (\<lambda>tid. rev (c tid)) ?ts"
  proof -
    have "ParentIds tpls tid = rev (c tid)" if "tid \<in> set tids" for tid
      using c that ParentIds_lineage [of tpls tid "c tid"] by simp
    then have "map (ParentIds tpls) tids = map (\<lambda>tid. rev (c tid)) tids" by simp
    then show ?thesis by (simp only: tpl_buckets_filter) (simp add: filter_map o_def)
  qed
  have inj: "inj_on (\<lambda>tid. rev (c tid)) (set ?ts)"
    by (rule inj_onI) (metis hd rev_rev_ident)
  have kept: "(\<forall>tid' \<in> set ?ts. rev (c tid') \<noteq> rev (c tid) \<longrightarrow> \<not> set (rev (c tid)) \<subseteq> set (rev (c tid')))
      \<longleftrightarrow> youngest tpls tids tid" if t: "tid \<in> set ?ts" for tid
  proof -
    have "set (c tid) \<subseteq> set (c tid') \<longleftrightarrow> tid \<in> set (c tid')" if "tid' \<in> set ?ts" for tid'
      using that t c by (intro lineage_mem) auto
    moreover have "c tid' = c tid \<longleftrightarrow> tid' = tid" if "tid' \<in> set ?ts" for tid'
      using hd that t by metis
    ultimately show ?thesis
      using t c lineage_nonempty lineage_unique by (auto simp: youngest_def) (metis empty_iff empty_set)+
  qed
  have dist: "distinct (tpl_buckets tpls tids)"
    using inj d by (simp add: bs distinct_map)
  have image: "{b \<in> f ` A. \<forall>b' \<in> f ` A. b' \<noteq> b \<longrightarrow> P b b'} = f ` {a \<in> A. \<forall>a' \<in> A. f a' \<noteq> f a \<longrightarrow> P (f a) (f a')}"
    for f :: "int \<Rightarrow> int list" and A P by auto
  have "set (uniq_buckets (tpl_buckets tpls tids)) =
      (\<lambda>tid. rev (c tid)) ` {tid \<in> set ?ts. youngest tpls tids tid}"
    unfolding set_uniq_buckets [OF dist] unfolding bs set_map image using kept
    by (intro arg_cong [where f = "image _"] Collect_cong conj_cong refl) simp
  also have "{tid \<in> set ?ts. youngest tpls tids tid} = {tid. youngest tpls tids tid}"
    using c lineage_nonempty by (auto simp: youngest_def) blast
  finally show ?thesis .
qed

lemma inherit_core:
  assumes perm: "permutes ord" and d: "distinct tids" and short: "short_chains tpls tids"
  shows "\<exists>out. CalcInheritStrategies ord tpls tids (Tpl2Strategies ss) = Inr out \<and>
    distinct (map st_Id out) \<and>
    st_Id ` set out = {st_Id s |s tid. youngest tpls tids tid \<and> in_force_on tpls ss tid s} \<and>
    (\<forall>v \<in> set out. \<exists>tid s. youngest tpls tids tid \<and> in_force_on tpls ss tid s \<and> v = retarget tpls tid s)"
proof -
  obtain c where c: "\<forall>tid \<in> set tids. lineage tpls tid (c tid) \<and> length (c tid) < 10"
    using bchoice [OF short [unfolded short_chains_def]] by auto
  let ?bs = "uniq_buckets (tpl_buckets tpls tids)"
  note kept = kept_chains [OF c d]
  have force: "in_force_on tpls ss tid s \<longleftrightarrow> s \<in> set (bucket_list ord ss (rev (c tid)))"
    if y: "youngest tpls tids tid" for tid s
  proof -
    have "lineage tpls tid (c tid)" using c y by (simp add: youngest_def)
    then have "lineage tpls tid xs \<longleftrightarrow> xs = c tid" for xs using lineage_unique by blast
    then show ?thesis by (simp add: in_force_on_def set_bucket_list [OF perm])
  qed
  have last_c: "rev (c tid) ! (length (rev (c tid)) - 1) = tid" if y: "youngest tpls tids tid" for tid
  proof -
    have l: "lineage tpls tid (c tid)" using c y by (simp add: youngest_def)
    then have "c tid \<noteq> []" using y lineage_nonempty by (auto simp: youngest_def)
    then show ?thesis using lineage_hd [OF l] by (simp add: rev_nth hd_conv_nth)
  qed
  have "\<forall>b \<in> set ?bs. \<forall>s \<in> set (bucket_list ord ss b). st_Tpl s \<noteq> None"
    unfolding kept by (auto simp: set_bucket_list [OF perm] dest!: in_force_own own_stras_tpl)
  from bucket_loop_spec [OF this, of tpls "[]"] obtain out where out:
    "bucket_loop ord tpls (Tpl2Strategies ss) ?bs ([], []) = Inr (out, map st_Id out)"
    "\<forall>v \<in> set out. \<exists>b \<in> set ?bs. \<exists>s \<in> set (bucket_list ord ss b). v = retarget tpls (b ! (length b - 1)) s"
    "fresh_ids [] (concat (map (bucket_list ord ss) ?bs)) out" by auto
  have ids: "st_Id ` set out = st_Id ` (\<Union>b \<in> set ?bs. set (bucket_list ord ss b))"
    and dist: "distinct (map st_Id out)"
    using out(3) by (simp_all add: fresh_ids_def)
  show ?thesis
  proof (rule exI [of _ out], intro conjI)
    show "CalcInheritStrategies ord tpls tids (Tpl2Strategies ss) = Inr out"
      using out(1) by (simp add: CalcInheritStrategies_def)
    show "st_Id ` set out = {st_Id s |s tid. youngest tpls tids tid \<and> in_force_on tpls ss tid s}"
      unfolding ids kept using force by auto
    show "\<forall>v \<in> set out. \<exists>tid s. youngest tpls tids tid \<and> in_force_on tpls ss tid s \<and> v = retarget tpls tid s"
    proof
      fix v
      assume "v \<in> set out"
      with out(2) kept obtain tid s where y: "youngest tpls tids tid"
        and s: "s \<in> set (bucket_list ord ss (rev (c tid)))"
        and v: "v = retarget tpls (rev (c tid) ! (length (rev (c tid)) - 1)) s" by auto
      show "\<exists>tid s. youngest tpls tids tid \<and> in_force_on tpls ss tid s \<and> v = retarget tpls tid s"
        using y s force [OF y] v last_c [OF y] by (intro exI [of _ tid] exI [of _ s]) simp
    qed
  qed (rule dist)
qed

text \<open>
  C22: On a host with the templates \<open>tids\<close>, whose chains of parents are shorter than 10, the
  strategies that \<open>CalcInheritStrategies\<close> returns are, by id and without repetition, exactly those in
  force on the youngest templates: of each chain, for every metric with tags, those of the youngest
  template that has any. Each carries the youngest template, so its action is the one that alarms use.
  This holds for every order in which Go walks the maps.
\<close>

theorem inherit_overrides:
  assumes "permutes ord" "distinct tids" "short_chains tpls tids"
  shows "\<exists>out. CalcInheritStrategies ord tpls tids (Tpl2Strategies ss) = Inr out \<and>
    distinct (map st_Id out) \<and>
    st_Id ` set out = {st_Id s |s tid. youngest tpls tids tid \<and> in_force_on tpls ss tid s} \<and>
    (\<forall>v \<in> set out. \<exists>tid s. youngest tpls tids tid \<and> in_force_on tpls ss tid s \<and> v = retarget tpls tid s)"
  using assms by (rule inherit_core)

definition demo_tpl :: "int \<Rightarrow> int \<Rightarrow> template" where
  "demo_tpl i parent =
     \<lparr>tpl_Id = i, tpl_Name = ''t'', tpl_ParentId = parent, tpl_ActionId = i, tpl_Creator = ''root''\<rparr>"

definition demo_stra :: "int \<Rightarrow> string \<Rightarrow> template \<Rightarrow> strategy" where
  "demo_stra i metric t =
     \<lparr>st_Id = i, st_Metric = metric, st_Tags = [], st_Func = ''all(#3)'', st_Operator = ''>'',
      st_RightValue = 0, st_MaxStep = 3, st_Priority = 0, st_Note = '''', st_Tpl = Some t,
      st_UnionStrategyId = 0\<rparr>"

text \<open>Template 2 inherits from 1 and redefines \<open>cpu\<close>, not \<open>mem\<close>.\<close>

definition demo_tpls :: templates where
  "demo_tpls = [(1, demo_tpl 1 0), (2, demo_tpl 2 1)]"

definition demo_stras :: "(int, strategy option) gomap" where
  "demo_stras =
     [(11, Some (demo_stra 11 ''cpu'' (demo_tpl 1 0))), (12, Some (demo_stra 12 ''mem'' (demo_tpl 1 0))),
      (21, Some (demo_stra 21 ''cpu'' (demo_tpl 2 1)))]"

lemma demo_lineage: "lineage demo_tpls 1 [1]" "lineage demo_tpls 2 [2, 1]"
proof -
  show one: "lineage demo_tpls 1 [1]"
    by (rule lineage.up [where t = "demo_tpl 1 0"]) (simp_all add: demo_tpls_def demo_tpl_def lineage.stop)
  show "lineage demo_tpls 2 [2, 1]"
    by (rule lineage.up [where t = "demo_tpl 2 1"]) (use one in \<open>simp_all add: demo_tpls_def demo_tpl_def\<close>)
qed

lemma demo_get: "gget demo_tpls 1 = Some (demo_tpl 1 0)" "gget demo_tpls 2 = Some (demo_tpl 2 1)"
  by (simp_all add: demo_tpls_def)

lemma demo_lineage_iff:
  "lineage demo_tpls 1 xs \<longleftrightarrow> xs = [1]" "lineage demo_tpls 2 xs \<longleftrightarrow> xs = [2, 1]"
  using demo_lineage lineage_unique by blast+

lemma demo_stra_simps [simp]:
  "st_Id (demo_stra i m t) = i" "st_Metric (demo_stra i m t) = m" "st_Tpl (demo_stra i m t) = Some t"
  "st_Tags (demo_stra i m t) = []" "tpl_Id (demo_tpl i p) = i" "tpl_ParentId (demo_tpl i p) = p"
  by (simp_all add: demo_stra_def demo_tpl_def)

lemma demo_in_force:
  "in_force demo_stras [2, 1] u =
     (if u = ''metric:cpu/tags:'' then [demo_stra 21 ''cpu'' (demo_tpl 2 1)]
      else if u = ''metric:mem/tags:'' then [demo_stra 12 ''mem'' (demo_tpl 1 0)] else [])"
proof -
  have "own_stras demo_stras 2 = [demo_stra 21 ''cpu'' (demo_tpl 2 1)]"
    "own_stras demo_stras 1 = [demo_stra 11 ''cpu'' (demo_tpl 1 0), demo_stra 12 ''mem'' (demo_tpl 1 0)]"
    by (simp_all add: own_stras_def demo_stras_def)
  then show ?thesis by (simp add: stra_uuid_def SortedTags_def)
qed

theorem inherit_overrides_witness:
  "\<exists>out. CalcInheritStrategies (\<lambda>_ m. m) demo_tpls [2, 1] (Tpl2Strategies demo_stras) = Inr out \<and>
     st_Id ` set out = {12, 21}"
proof -
  have "permutes (\<lambda>_ m. m)" by (simp add: permutes_def)
  moreover have "short_chains demo_tpls [2, 1]"
    by (simp add: short_chains_def demo_lineage_iff)
  moreover have y: "youngest demo_tpls [2, 1] tid \<longleftrightarrow> tid = 2" for tid
    by (auto simp: youngest_def demo_lineage_iff demo_get)
  moreover have "in_force_on demo_tpls demo_stras 2 s \<longleftrightarrow>
      s \<in> {demo_stra 12 ''mem'' (demo_tpl 1 0), demo_stra 21 ''cpu'' (demo_tpl 2 1)}" for s
  proof -
    have "in_force_on demo_tpls demo_stras 2 s \<longleftrightarrow> s \<in> set (in_force demo_stras [2, 1] (stra_uuid s))"
      by (simp add: in_force_on_def demo_lineage_iff del: in_force.simps)
    then show ?thesis
      by (auto simp: demo_in_force simp del: in_force.simps) (simp_all add: stra_uuid_def SortedTags_def)
  qed
  moreover have "{st_Id s |s. s = demo_stra 12 ''mem'' (demo_tpl 1 0) \<or> s = demo_stra 21 ''cpu'' (demo_tpl 2 1)}
      = {12, 21}" by force
  ultimately show ?thesis
    using inherit_overrides [of "\<lambda>_ m. m" "[2, 1]" demo_tpls demo_stras] by auto
qed

text \<open>
  \<open>ParentIds\<close> returns for every map of templates, cyclic ones included: the chain with the oldest
  template first if it is shorter than 10, and nothing if it is longer or endless.
\<close>

theorem parent_ids_chain:
  "ParentIds tpls tid =
     (if \<exists>xs. lineage tpls tid xs \<and> length xs < 10 then rev (THE xs. lineage tpls tid xs) else []) \<and>
   distinct (ParentIds tpls tid)"
proof (cases "\<exists>xs. lineage tpls tid xs")
  case True
  then obtain xs where l: "lineage tpls tid xs" by auto
  then have "(THE xs. lineage tpls tid xs) = xs"
    using lineage_unique by blast
  moreover have "(\<exists>xs. lineage tpls tid xs \<and> length xs < 10) \<longleftrightarrow> length xs < 10"
    using l lineage_unique by blast
  ultimately show ?thesis using ParentIds_lineage [OF l] lineage_distinct [OF l] by simp
qed (auto simp: ParentIds_endless)

text \<open>The entry of one host.\<close>

definition served :: "map_order \<Rightarrow> hbs_maps \<Rightarrow> int \<times> int list \<Rightarrow> host_strategy list" where
  "served ord c = (\<lambda>(hostId, tids).
     case (gget (MonitoredHosts c) hostId,
           CalcInheritStrategies ord (TemplateCache c) tids (Tpl2Strategies (Strategies c))) of
       (Some h, Inr (s # ss)) \<Rightarrow> [\<lparr>hs_Hostname = h_Name h, hs_Strategies = s # ss\<rparr>]
     | _ \<Rightarrow> [])"

lemma calc_total:
  assumes "permutes ord"
  shows "\<exists>out. CalcInheritStrategies ord tpls tids (Tpl2Strategies ss) = Inr out"
proof -
  have "st_Tpl s \<noteq> None" if "s \<in> set (bucket_list ord ss b)" for s b
    using that set_bucket_list [OF assms, of s ss "rev b"]
    by (auto dest!: in_force_own own_stras_tpl)
  then show ?thesis
    using bucket_loop_spec [of "uniq_buckets (tpl_buckets tpls tids)" ord ss tpls "[]"]
    by (auto simp: CalcInheritStrategies_def)
qed

lemma host_strategies_served:
  assumes "permutes ord"
  shows "host_strategies ord c (Tpl2Strategies (Strategies c)) hs = Inr (concat (map (served ord c) hs)) \<and>
    one_strategies ord c (Tpl2Strategies (Strategies c)) name hs =
      Inr (take 1 (filter (\<lambda>r. hs_Hostname r = name) (concat (map (served ord c) hs))))"
proof (induction hs)
  case (Cons ht hs)
  obtain hostId tids where ht: "ht = (hostId, tids)" by (cases ht)
  obtain out where "CalcInheritStrategies ord (TemplateCache c) tids (Tpl2Strategies (Strategies c)) = Inr out"
    using calc_total [OF assms] by blast
  then show ?case
    using Cons.IH by (cases out) (auto simp: ht served_def split: option.split)
qed simp

text \<open>
  Whatever the maps hold, \<open>GetStrategies\<close> answers: one entry for each monitored host with
  strategies, those that \<open>CalcInheritStrategies\<close> gives for its templates, and none for a host in
  maintenance; and \<open>GetStrategiesOne\<close> gives the first of these entries with the name.
\<close>

theorem monitored_hosts_served:
  assumes "permutes ord"
  shows "GetStrategies ord c =
      Inr (if Strategies c = [] then [] else concat (map (served ord c) (HostTemplateIds c))) \<and>
    GetStrategiesOne ord c name = Inr (take 1 (filter (\<lambda>r. hs_Hostname r = name)
      (if Strategies c = [] then [] else concat (map (served ord c) (HostTemplateIds c)))))"
proof -
  have "served ord c ht = []" if "MonitoredHosts c = [] \<or> TemplateCache c = []" for ht
  proof -
    obtain hostId tids where "ht = (hostId, tids)" by (cases ht)
    moreover have "CalcInheritStrategies ord [] tids t2s = Inr []" for t2s
    proof -
      have "ParentIds [] tid = []" for tid
        using ParentIds_lineage [OF lineage.stop, of tid "[]"] by simp
      then have "tpl_buckets [] tids = []" by (induction tids) simp_all
      then show ?thesis by (simp add: CalcInheritStrategies_def uniq_buckets_def)
    qed
    ultimately show ?thesis using that by (auto simp: served_def split: option.split)
  qed
  then show ?thesis
    using host_strategies_served [OF assms, of c "HostTemplateIds c" name]
    by (auto simp: GetStrategies_def GetStrategiesOne_def)
qed

definition demo_hbs :: hbs_maps where
  "demo_hbs = \<lparr>HostTemplateIds = [(7, [2, 1]), (8, [1])],
     MonitoredHosts = [(7, \<lparr>h_Id = 7, h_Name = ''web''\<rparr>)],
     TemplateCache = demo_tpls, Strategies = demo_stras\<rparr>"

theorem monitored_hosts_served_witness:
  "\<exists>r. GetStrategies (\<lambda>_ m. m) demo_hbs = Inr r \<and> GetStrategiesOne (\<lambda>_ m. m) demo_hbs ''db'' = Inr [] \<and>
     (\<forall>h \<in> set r. hs_Hostname h = ''web'')"
proof -
  have p: "permutes (\<lambda>_ m. m)" by (simp add: permutes_def)
  have name: "hs_Hostname h = ''web''" if "h \<in> set (concat (map (served ord demo_hbs) (HostTemplateIds demo_hbs)))" for ord h
    using that by (auto simp: demo_hbs_def served_def split: sum.splits list.splits)
  then have "filter (\<lambda>h. hs_Hostname h = ''db'') (concat (map (served ord demo_hbs) (HostTemplateIds demo_hbs))) = []" for ord
    by (auto simp: filter_empty_conv)
  moreover have "Strategies demo_hbs \<noteq> []" by (simp add: demo_hbs_def demo_stras_def)
  ultimately show ?thesis
    using monitored_hosts_served [OF p, of demo_hbs "''db''"] name by simp
qed

text \<open>
  A host in two groups with the same template has it twice in its list. Then a chain that a longer
  one covers is kept: the comparison with its own copy ends the search. The overridden strategy of
  the parent comes back.
\<close>

theorem duplicate_template_undoes_override:
  "\<exists>out. CalcInheritStrategies (\<lambda>_ m. m) demo_tpls [1, 1, 2] (Tpl2Strategies demo_stras) = Inr out \<and>
     11 \<in> st_Id ` set out \<and> 21 \<in> st_Id ` set out \<and>
     \<not> (\<exists>tid. youngest demo_tpls [1, 1, 2] tid \<and>
          in_force_on demo_tpls demo_stras tid (demo_stra 11 ''cpu'' (demo_tpl 1 0)))"
proof -
  have par: "ParentIds demo_tpls 1 = [1]" "ParentIds demo_tpls 2 = [1, 2]"
    using ParentIds_lineage [OF demo_lineage(1)] ParentIds_lineage [OF demo_lineage(2)] by simp_all
  have bs: "uniq_buckets (tpl_buckets demo_tpls [1, 1, 2]) = [[1], [1], [1, 2]]"
  proof -
    have "uniq_buckets [[1], [1], [1, 2]] = [[1], [1], [1, 2]]" by code_simp
    then show ?thesis by (simp add: par Let_def)
  qed
  have t2s: "Tpl2Strategies demo_stras =
      [(1, [demo_stra 11 ''cpu'' (demo_tpl 1 0), demo_stra 12 ''mem'' (demo_tpl 1 0)]),
       (2, [demo_stra 21 ''cpu'' (demo_tpl 2 1)])]"
    by (simp add: Tpl2Strategies_def demo_stras_def gpush_def)
  have y: "youngest demo_tpls [1, 1, 2] tid \<Longrightarrow> tid = 2" for tid
    by (auto simp: youngest_def demo_lineage_iff demo_get)
  have "\<not> in_force_on demo_tpls demo_stras 2 (demo_stra 11 ''cpu'' (demo_tpl 1 0))"
    by (simp add: in_force_on_def demo_lineage_iff demo_in_force stra_uuid_def SortedTags_def
        del: in_force.simps) (simp add: demo_stra_def)
  then have none: "\<not> (\<exists>tid. youngest demo_tpls [1, 1, 2] tid \<and>
      in_force_on demo_tpls demo_stras tid (demo_stra 11 ''cpu'' (demo_tpl 1 0)))"
    using y by blast
  let ?o = "\<lambda>(_::int) (m::uuid_map). m" and ?t = "Tpl2Strategies demo_stras"
  have own: "the_tid_stras ?t 1 = [(''metric:cpu/tags:'', [demo_stra 11 ''cpu'' (demo_tpl 1 0)]),
        (''metric:mem/tags:'', [demo_stra 12 ''mem'' (demo_tpl 1 0)])]"
    "the_tid_stras ?t 2 = [(''metric:cpu/tags:'', [demo_stra 21 ''cpu'' (demo_tpl 2 1)])]"
    by (simp_all add: t2s the_tid_stras_def gpush_def stra_uuid_def SortedTags_def)
  have "CalcInheritStrategies ?o demo_tpls [1, 1, 2] ?t =
     Inr [demo_stra 11 ''cpu'' (demo_tpl 1 0), demo_stra 12 ''mem'' (demo_tpl 1 0),
          demo_stra 21 ''cpu'' (demo_tpl 2 1)]"
    unfolding CalcInheritStrategies_def bs by (simp add: own Let_def)
  with none show ?thesis by simp
qed

end
