(* ===== verification/Hbs_Redis.thy ===== *)
theory Hbs_Redis
  imports Hbs_Strategy
begin

text \<open>
  Module hbs, package \<open>redi\<close>: the servers of hbs share what one of them read from the database. It
  writes a map as a hash under a fresh name, in batches, and then points a well-known key to it; the
  others read the hash back.

  Commands are a log; \<open>fail n\<close> tells whether the \<open>n\<close>-th command of a call fails. A JSON text is the
  value it encodes, and encoding fails on a float64 that is no number, as \<open>encoding/json\<close> does.
\<close>

section \<open>Definitions\<close>

datatype 'v rcmd = HMSET string "(string \<times> 'v) list" | EXPIRE string int | SET string string

definition SEP :: string where
  "SEP = ''|||''"

definition TIMEOUT :: int where
  "TIMEOUT = 60 * 20"

text \<open>
  The loops over a map that fill a batch and send it. \<open>inc\<close> is what the loop adds to its counter for
  an entry, \<open>full\<close> the test of the counter, \<open>enc\<close> the field and value of an entry, if it has any.
\<close>

fun hset_loop :: "(nat \<Rightarrow> bool) \<Rightarrow> nat \<Rightarrow> (nat \<Rightarrow> bool) \<Rightarrow> ('a \<Rightarrow> (string \<times> 'v) option) \<Rightarrow> string \<Rightarrow> 'a list
    \<Rightarrow> (string \<times> 'v) list \<Rightarrow> nat \<Rightarrow> 'v rcmd list
    \<Rightarrow> bool \<times> (string \<times> 'v) list \<times> nat \<times> 'v rcmd list" where
  "hset_loop fail inc full enc key [] buf i cmds = (False, buf, i, cmds)"
| "hset_loop fail inc full enc key (x # xs) buf i cmds =
     (let i = i + inc
      in case enc x of
           None \<Rightarrow> hset_loop fail inc full enc key xs buf i cmds
         | Some fv \<Rightarrow>
             (let buf = buf @ [fv]
              in if full i
                 then (if fail (length cmds) then (True, buf, i, cmds @ [HMSET key buf])
                       else hset_loop fail inc full enc key xs [] 0 (cmds @ [HMSET key buf]))
                 else hset_loop fail inc full enc key xs buf i cmds))"

definition hset_publish :: "(nat \<Rightarrow> bool) \<Rightarrow> string \<Rightarrow> string \<Rightarrow> 'v rcmd list \<Rightarrow> 'v rcmd list" where
  "hset_publish fail name key cmds =
     (let cmds' = cmds @ [EXPIRE key TIMEOUT]
      in if fail (length cmds) then cmds' else cmds' @ [SET name key])"

definition hset_rest :: "(nat \<Rightarrow> bool) \<Rightarrow> string \<Rightarrow> string
    \<Rightarrow> bool \<times> (string \<times> 'v) list \<times> nat \<times> 'v rcmd list \<Rightarrow> 'v rcmd list" where
  "hset_rest fail name key = (\<lambda>(err, buf, i, cmds).
     if err then cmds
     else if 0 < i
     then (if fail (length cmds) then cmds @ [HMSET key buf]
           else hset_publish fail name key (cmds @ [HMSET key buf]))
     else hset_publish fail name key cmds)"

text \<open>Where the loop declares its own \<open>err\<close>, the code after it sees none.\<close>

definition shadowed :: "bool \<times> 'b \<Rightarrow> bool \<times> 'b" where
  "shadowed = (\<lambda>(err, r). (False, r))"

definition redis_key :: "string \<Rightarrow> string \<Rightarrow> int \<Rightarrow> string" where
  "redis_key name hostName nano = name @ ''_'' @ hostName @ ''_'' @ itoa nano"

definition join_ids :: "int list \<Rightarrow> string" where
  "join_ids ids = join SEP (map itoa ids)"

definition SetHost2Redis :: "(nat \<Rightarrow> bool) \<Rightarrow> string \<Rightarrow> int \<Rightarrow> (string, int) gomap \<Rightarrow> string rcmd list" where
  "SetHost2Redis fail hostName nano m =
     (let key = redis_key ''host'' hostName nano
      in hset_rest fail ''host'' key
           (hset_loop fail 1 (\<lambda>i. i = 500) (\<lambda>(host, id). Some (host, itoa id)) key m [] 0 []))"

definition SetMonitoredHost2Redis :: "(nat \<Rightarrow> bool) \<Rightarrow> string \<Rightarrow> int \<Rightarrow> (int, host) gomap \<Rightarrow> string rcmd list" where
  "SetMonitoredHost2Redis fail hostName nano m =
     (let key = redis_key ''monitored_host'' hostName nano
      in hset_rest fail ''monitored_host'' key
           (hset_loop fail 1 (\<lambda>i. i = 500) (\<lambda>(id, h). Some (itoa id, h_Name h)) key m [] 0 []))"

definition SetHostGroup2Redis :: "(nat \<Rightarrow> bool) \<Rightarrow> string \<Rightarrow> int \<Rightarrow> (int, int list) gomap \<Rightarrow> string rcmd list" where
  "SetHostGroup2Redis fail hostName nano m =
     (let key = redis_key ''group'' hostName nano
      in hset_rest fail ''group'' key
           (hset_loop fail 1 (\<lambda>i. i = 500) (\<lambda>(gid, hids). Some (itoa gid, join_ids hids)) key m [] 0 []))"

definition SetGroupTemplate2Redis :: "(nat \<Rightarrow> bool) \<Rightarrow> string \<Rightarrow> int \<Rightarrow> (int, int list) gomap \<Rightarrow> string rcmd list" where
  "SetGroupTemplate2Redis fail hostName nano m =
     (let key = redis_key ''template'' hostName nano
      in hset_rest fail ''template'' key
           (hset_loop fail 0 (\<lambda>i. 500 \<le> i) (\<lambda>(gid, tids). Some (itoa gid, join_ids tids)) key m [] 0 []))"

definition SetTPL2Redis :: "(nat \<Rightarrow> bool) \<Rightarrow> string \<Rightarrow> int \<Rightarrow> templates \<Rightarrow> template rcmd list" where
  "SetTPL2Redis fail hostName nano m =
     (let key = redis_key ''tpl'' hostName nano
      in hset_rest fail ''tpl'' key (shadowed
           (hset_loop fail 1 (\<lambda>i. i = 500) (\<lambda>(id, tpl). Some (itoa id, tpl)) key m [] 0 [])))"

definition SetHostTemplate2Redis :: "(nat \<Rightarrow> bool) \<Rightarrow> string \<Rightarrow> int \<Rightarrow> (int, int list) gomap \<Rightarrow> string rcmd list" where
  "SetHostTemplate2Redis fail hostName nano m =
     (let key = redis_key ''host_template'' hostName nano
      in hset_rest fail ''host_template'' key (shadowed
           (hset_loop fail 1 (\<lambda>i. i = 1000) (\<lambda>(tid, hids). Some (itoa tid, join_ids hids)) key m [] 0 [])))"

definition stra_json :: "strategy \<Rightarrow> strategy option" where
  "stra_json s = (if is_fin (st_RightValue s) then Some s else None)"

definition SetStrategies2Redis :: "(nat \<Rightarrow> bool) \<Rightarrow> string \<Rightarrow> int \<Rightarrow> (int, strategy) gomap \<Rightarrow> strategy rcmd list" where
  "SetStrategies2Redis fail hostName nano m =
     (let key = redis_key ''strategies'' hostName nano
      in hset_rest fail ''strategies'' key (shadowed
           (hset_loop fail 1 (\<lambda>i. 500 \<le> i) (\<lambda>(id, s). map_option (\<lambda>v. (itoa id, v)) (stra_json s)) key m
              [] 0 [])))"

fun stras_json :: "strategy list \<Rightarrow> strategy list option" where
  "stras_json [] = Some []"
| "stras_json (s # ss) =
     (case stra_json s of None \<Rightarrow> None | Some v \<Rightarrow> map_option ((#) v) (stras_json ss))"

definition SetUnionStrategies2Redis ::
  "(nat \<Rightarrow> bool) \<Rightarrow> string \<Rightarrow> int \<Rightarrow> (int, strategy list) gomap \<Rightarrow> strategy list rcmd list" where
  "SetUnionStrategies2Redis fail hostName nano m =
     (let key = redis_key ''union_strategies'' hostName nano
      in hset_rest fail ''union_strategies'' key (shadowed
           (hset_loop fail 1 (\<lambda>i. 500 \<le> i) (\<lambda>(id, ss). map_option (\<lambda>v. (itoa id, v)) (stras_json ss)) key m
              [] 0 [])))"

definition SetHostService2Redis :: "(nat \<Rightarrow> bool) \<Rightarrow> int \<Rightarrow> (string, string) gomap \<Rightarrow> string rcmd list" where
  "SetHostService2Redis fail nano m =
     (let key = ''host_Service'' @ itoa nano
      in hset_rest fail ''host_Service'' key (shadowed
           (hset_loop fail 1 (\<lambda>i. i = 1000) Some key m [] 0 [])))"

text \<open>The small maps go in one command.\<close>

definition hset_once :: "(nat \<Rightarrow> bool) \<Rightarrow> string \<Rightarrow> string \<Rightarrow> (string \<times> 'v) list \<Rightarrow> 'v rcmd list" where
  "hset_once fail name key fvs =
     (if fail 0 then [HMSET key fvs] else hset_publish fail name key [HMSET key fvs])"

definition SetPlugins2Redis :: "(nat \<Rightarrow> bool) \<Rightarrow> int \<Rightarrow> (int, string list) gomap \<Rightarrow> string rcmd list" where
  "SetPlugins2Redis fail nano m =
     hset_once fail ''plugin'' (''plugin'' @ itoa nano) (map (\<lambda>(grpid, dir). (itoa grpid, join SEP dir)) m)"

definition expr_json :: "expression \<Rightarrow> expression option" where
  "expr_json e = (if is_fin (ex_RightValue e) then Some e else None)"

definition SetExpressions2Redis :: "(nat \<Rightarrow> bool) \<Rightarrow> int \<Rightarrow> expression list \<Rightarrow> expression rcmd list" where
  "SetExpressions2Redis fail nano m =
     hset_once fail ''expressions'' (''expressions'' @ itoa nano)
       (concat (map (\<lambda>e. case expr_json e of Some v \<Rightarrow> [(itoa (ex_Id e), v)] | None \<Rightarrow> []) m))"

text \<open>
  Reading. The arguments are the answers of \<open>GET\<close> and \<open>HGETALL\<close>, \<open>None\<close> for an error; the second
  error is not reported.
\<close>

definition hget :: "string option \<Rightarrow> (string \<Rightarrow> (string \<times> 'v) list option) \<Rightarrow> ((string \<times> 'v) list \<Rightarrow> 'm) \<Rightarrow> 'm \<Rightarrow> 'm res" where
  "hget mapKey hgetall parse m0 =
     (case mapKey of
        None \<Rightarrow> Inl (Err ''redis'')
      | Some k \<Rightarrow> (case hgetall k of None \<Rightarrow> Inr m0 | Some r \<Rightarrow> Inr (parse r)))"

fun get_ints :: "'k \<Rightarrow> string list \<Rightarrow> ('k, int list) gomap \<Rightarrow> ('k, int list) gomap" where
  "get_ints k [] m = m"
| "get_ints k (w # ws) m = (case atoi w of Inr i \<Rightarrow> get_ints k ws (gpush k i m) | Inl _ \<Rightarrow> get_ints k ws m)"

fun get_id_lists :: "(string \<times> string) list \<Rightarrow> (int, int list) gomap \<Rightarrow> (int, int list) gomap" where
  "get_id_lists [] m = m"
| "get_id_lists ((f, v) # r) m =
     (case atoi f of Inl _ \<Rightarrow> get_id_lists r m
      | Inr gid \<Rightarrow> get_id_lists r (get_ints gid (split_str SEP v) m))"

fun get_hosts :: "(string \<times> string) list \<Rightarrow> (string, int) gomap \<Rightarrow> (string, int) gomap" where
  "get_hosts [] m = m"
| "get_hosts ((h, v) # r) m = (case atoi v of Inl _ \<Rightarrow> get_hosts r m | Inr n \<Rightarrow> get_hosts r (gput h n m))"

fun get_by_id :: "(int \<Rightarrow> 'v \<Rightarrow> 'w) \<Rightarrow> (string \<times> 'v) list \<Rightarrow> (int, 'w) gomap \<Rightarrow> (int, 'w) gomap" where
  "get_by_id g [] m = m"
| "get_by_id g ((f, v) # r) m =
     (case atoi f of Inl _ \<Rightarrow> get_by_id g r m | Inr n \<Rightarrow> get_by_id g r (gput n (g n v) m))"

fun get_services :: "(string \<times> string) list \<Rightarrow> (string, string) gomap \<Rightarrow> (string, string) gomap" where
  "get_services [] m = m"
| "get_services ((h, v) # r) m =
     (case gget m h of Some w \<Rightarrow> get_services r (gput h (w @ '','' @ v) m)
      | None \<Rightarrow> get_services r (gput h v m))"

definition GetHostFromRedis :: "string option \<Rightarrow> (string \<Rightarrow> (string \<times> string) list option) \<Rightarrow> (string, int) gomap res" where
  "GetHostFromRedis k r = hget k r (\<lambda>r. get_hosts r []) []"

definition GetMonitoredHostFromRedis :: "string option \<Rightarrow> (string \<Rightarrow> (string \<times> string) list option) \<Rightarrow> (int, host) gomap res" where
  "GetMonitoredHostFromRedis k r = hget k r (\<lambda>r. get_by_id (\<lambda>id name. \<lparr>h_Id = id, h_Name = name\<rparr>) r []) []"

definition GetHostGroupFromRedis :: "string option \<Rightarrow> (string \<Rightarrow> (string \<times> string) list option) \<Rightarrow> (int, int list) gomap res" where
  "GetHostGroupFromRedis k r = hget k r (\<lambda>r. get_id_lists r []) []"

definition GetGroupTemplateFromRedis :: "string option \<Rightarrow> (string \<Rightarrow> (string \<times> string) list option) \<Rightarrow> (int, int list) gomap res" where
  "GetGroupTemplateFromRedis k r = hget k r (\<lambda>r. get_id_lists r []) []"

definition GetHostTemplateFromRedis :: "string option \<Rightarrow> (string \<Rightarrow> (string \<times> string) list option) \<Rightarrow> (int, int list) gomap res" where
  "GetHostTemplateFromRedis k r = hget k r (\<lambda>r. get_id_lists r []) []"

definition GetTPLFromRedis :: "string option \<Rightarrow> (string \<Rightarrow> (string \<times> template) list option) \<Rightarrow> templates res" where
  "GetTPLFromRedis k r = hget k r (\<lambda>r. get_by_id (\<lambda>_ t. t) r []) []"

definition GetStrategiesFromRedis :: "string option \<Rightarrow> (string \<Rightarrow> (string \<times> strategy) list option) \<Rightarrow> (int, strategy) gomap res" where
  "GetStrategiesFromRedis k r = hget k r (\<lambda>r. get_by_id (\<lambda>_ s. s) r []) []"

definition GetUnionStrategiesFromRedis ::
  "string option \<Rightarrow> (string \<Rightarrow> (string \<times> strategy list) list option) \<Rightarrow> (int, strategy list) gomap res" where
  "GetUnionStrategiesFromRedis k r = hget k r (\<lambda>r. get_by_id (\<lambda>_ s. s) r []) []"

definition GetHostServiceFromRedis :: "string option \<Rightarrow> (string \<Rightarrow> (string \<times> string) list option) \<Rightarrow> (string, string) gomap res" where
  "GetHostServiceFromRedis k r = hget k r (\<lambda>r. get_services r []) []"

definition GetPluginsFromRedis :: "string option \<Rightarrow> (string \<Rightarrow> (string \<times> string) list option) \<Rightarrow> (int, string list) gomap res" where
  "GetPluginsFromRedis k r = hget k r (\<lambda>r. get_by_id (\<lambda>_ dir. split_str SEP dir) r []) []"

definition GetExpressionsFromRedis :: "string option \<Rightarrow> (string \<Rightarrow> (string \<times> expression) list option) \<Rightarrow> expression list res" where
  "GetExpressionsFromRedis k r = hget k r (map snd) []"

text \<open>
  The lock. The answers of \<open>SETNX\<close> and \<open>GET\<close> are arguments; the result says whether the caller has
  the lock and whether it renewed the expiry.
\<close>

definition GetLock :: "int \<Rightarrow> int \<Rightarrow> int option \<Rightarrow> int option \<Rightarrow> bool \<times> bool" where
  "GetLock now Timeout setRes getRes =
     (case setRes of
        None \<Rightarrow> (False, False)
      | Some r \<Rightarrow>
          if r = 1 then (True, True)
          else if r = 0 then
            (case getRes of
               None \<Rightarrow> (False, False)
             | Some v \<Rightarrow> if now - v > Timeout then (True, True) else (False, False))
          else (False, False))"

section \<open>What is published is complete\<close>

text \<open>
  The fields a hash has after the commands: those of its \<open>HMSET\<close>s that did not fail. \<open>HGETALL\<close>
  answers with them, in any order.
\<close>

fun stored_from :: "(nat \<Rightarrow> bool) \<Rightarrow> nat \<Rightarrow> 'v rcmd list \<Rightarrow> string \<Rightarrow> (string \<times> 'v) list" where
  "stored_from fail n [] key = []"
| "stored_from fail n (HMSET k fvs # cs) key =
     (if k = key \<and> \<not> fail n then fvs else []) @ stored_from fail (Suc n) cs key"
| "stored_from fail n (c # cs) key = stored_from fail (Suc n) cs key"

abbreviation stored :: "(nat \<Rightarrow> bool) \<Rightarrow> 'v rcmd list \<Rightarrow> string \<Rightarrow> (string \<times> 'v) list" where
  "stored fail \<equiv> stored_from fail 0"

definition answers :: "(string \<Rightarrow> (string \<times> 'v) list option) \<Rightarrow> (nat \<Rightarrow> bool) \<Rightarrow> 'v rcmd list \<Rightarrow> string \<Rightarrow> bool" where
  "answers hgetall fail cmds key \<longleftrightarrow>
     (\<exists>r. hgetall key = Some r \<and> gwf r \<and> gget r = map_of (rev (stored fail cmds key)))"

definition hset_fields :: "('a \<Rightarrow> (string \<times> 'v) option) \<Rightarrow> 'a list \<Rightarrow> (string \<times> 'v) list" where
  "hset_fields enc xs = concat (map (\<lambda>x. case enc x of Some fv \<Rightarrow> [fv] | None \<Rightarrow> []) xs)"

definition no_set :: "'v rcmd list \<Rightarrow> bool" where
  "no_set cmds \<longleftrightarrow> (\<forall>a b. SET a b \<notin> set cmds)"

lemma stored_append:
  "stored_from fail n (a @ b) key = stored_from fail n a key @ stored_from fail (n + length a) b key"
  by (induction fail n a key rule: stored_from.induct) simp_all

lemma hset_loop_stored:
  assumes "hset_loop fail inc full enc key xs buf i cmds = (err, buf', i', cmds')"
  shows "(no_set cmds \<longrightarrow> no_set cmds') \<and>
    (\<not> err \<longrightarrow> stored fail cmds' key @ buf' = stored fail cmds key @ buf @ hset_fields enc xs) \<and>
    (0 < inc \<longrightarrow> (i = 0 \<longrightarrow> buf = []) \<longrightarrow> \<not> err \<longrightarrow> (i' = 0 \<longrightarrow> buf' = []))"
  using assms
proof (induction xs arbitrary: buf i cmds)
  case (Cons x xs)
  show ?case
  proof (cases "enc x")
    case None
    then show ?thesis
      using Cons.prems Cons.IH [of buf "i + inc" cmds] by (auto simp: Let_def hset_fields_def)
  next
    case (Some fv)
    show ?thesis
    proof (cases "full (i + inc)")
      case True
      have ns: "no_set cmds \<Longrightarrow> no_set (cmds @ [HMSET key (buf @ [fv])])"
        by (auto simp: no_set_def)
      show ?thesis
        using Cons.prems Some True ns Cons.IH [of "[]" 0 "cmds @ [HMSET key (buf @ [fv])]"]
        by (auto simp: Let_def hset_fields_def stored_append split: if_splits)
    next
      case False
      then show ?thesis
        using Cons.prems Some Cons.IH [of "buf @ [fv]" "i + inc" cmds]
        by (auto simp: Let_def hset_fields_def)
    qed
  qed
qed (auto simp: hset_fields_def)

lemma hset_publish_set:
  "no_set cmds \<Longrightarrow> SET a b \<in> set (hset_publish fail name key cmds) \<Longrightarrow>
     a = name \<and> b = key \<and> stored fail (hset_publish fail name key cmds) k = stored fail cmds k"
  by (auto simp: hset_publish_def no_set_def Let_def stored_append split: if_splits)

lemma published_fields:
  assumes s: "SET a b \<in> set (hset_rest fail name key (hset_loop fail (Suc n) full enc key xs [] 0 []))"
  shows "a = name \<and> b = key \<and>
    stored fail (hset_rest fail name key (hset_loop fail (Suc n) full enc key xs [] 0 [])) key = hset_fields enc xs"
proof -
  obtain err buf i cmds where l: "hset_loop fail (Suc n) full enc key xs [] 0 [] = (err, buf, i, cmds)"
    by (metis prod_cases4)
  note st = hset_loop_stored [OF l]
  have ns: "no_set cmds" using st by (simp add: no_set_def)
  then have e: "\<not> err" using s by (auto simp: l hset_rest_def no_set_def split: if_splits)
  have ns': "no_set (cmds @ [HMSET key buf])" using ns by (auto simp: no_set_def)
  show ?thesis
  proof (cases "0 < i")
    case True
    then have "\<not> fail (length cmds)"
      using s e ns' by (auto simp: l hset_rest_def no_set_def split: if_splits)
    then show ?thesis
      using s e True st hset_publish_set [OF ns', of a b fail name key key]
      by (auto simp: l hset_rest_def stored_append)
  next
    case False
    then show ?thesis
      using s e st hset_publish_set [OF ns, of a b fail name key key] by (auto simp: l hset_rest_def)
  qed
qed

section \<open>Identifiers joined and split\<close>

lemma split_str_SEP_none: "CHR ''|'' \<notin> set w \<Longrightarrow> split_str SEP w = [w]"
  by (simp add: SEP_def split_str_none)

lemma split_str_SEP: "CHR ''|'' \<notin> set w \<Longrightarrow> split_str SEP (w @ SEP @ s) = w # split_str SEP s"
  using split_str_cut [of "CHR ''|''" w "''||''" s] by (simp add: SEP_def)

lemma split_str_join_SEP:
  "ws \<noteq> [] \<Longrightarrow> \<forall>w \<in> set ws. CHR ''|'' \<notin> set w \<Longrightarrow> split_str SEP (join SEP ws) = ws"
  by (simp add: SEP_def split_str_join)

lemma itoa_no_bar: "CHR ''|'' \<notin> set (itoa i)"
  using itoa_chars [of "CHR ''|''" i] by (auto simp: is_digit_def)

lemma atoi_itoa_i64: "in_i64 i \<Longrightarrow> atoi (itoa i) = Inr i"
  unfolding atoi_def in_i64_def by (rule parse_int_itoa) simp_all

lemma split_join_ids: "ids \<noteq> [] \<Longrightarrow> split_str SEP (join_ids ids) = map itoa ids"
  by (simp add: join_ids_def split_str_join_SEP itoa_no_bar)

lemma get_ints_map:
  "list_all in_i64 ids \<Longrightarrow> get_ints k (map itoa ids) m = foldl (\<lambda>m i. gpush k i m) m ids"
  by (induction ids arbitrary: m) (simp_all add: atoi_itoa_i64)

lemma gget_get_ints:
  "ids \<noteq> [] \<Longrightarrow> list_all in_i64 ids \<Longrightarrow> gget m k = None \<Longrightarrow>
     gget (get_ints k (split_str SEP (join_ids ids)) m) = (gget m)(k \<mapsto> ids)"
  using gget_group [of "\<lambda>_. k" m ids]
  by (auto simp: split_join_ids get_ints_map fun_eq_iff)

section \<open>Reading back what was written\<close>

text \<open>The answer of \<open>HGETALL\<close> is the written map in some order.\<close>

lemma answer_perm:
  assumes m: "gwf m" and inj: "\<And>i v j w. fst (e (i, v)) = fst (e (j, w)) \<longleftrightarrow> i = j"
    and r: "gwf r" "gget r = map_of (rev (map e m))"
  obtains m' where "r = map e m'" "gwf m'" "gget m' = gget m" "set m' = set m"
proof -
  have inj_keys: "gwf (map e l) \<longleftrightarrow> gwf l" for l
    unfolding gwf_def by (induction l) (auto simp: inj image_iff)
  have "gwf (map e m)" using m inj_keys by simp
  then have "gget r = map_of (map e m)" using r(2) map_of_rev by metis
  then have sets: "set r = set (map e m)"
    using r(1) \<open>gwf (map e m)\<close> by (simp add: gwf_def map_of_inject_set)
  obtain m' where m': "r = map e m'" "set m' \<subseteq> set m"
  proof -
    have "\<forall>x \<in> set r. \<exists>y \<in> set m. x = e y" using sets by auto
    then have "\<exists>m'. r = map e m' \<and> set m' \<subseteq> set m"
    proof (induction r)
      case (Cons x r)
      then obtain y m' where "y \<in> set m" "x = e y" "r = map e m'" "set m' \<subseteq> set m" by auto
      then show ?case by (intro exI [of _ "y # m'"]) auto
    qed simp
    then show ?thesis using that by blast
  qed
  have "inj_on e (set m)"
  proof (rule inj_onI)
    fix x y
    assume xy: "x \<in> set m" "y \<in> set m" "e x = e y"
    obtain i v j w where p: "x = (i, v)" "y = (j, w)" by (cases x; cases y)
    then have "i = j" using inj [of i v j w] xy(3) by simp
    then show "x = y" using m xy(1,2) p eq_key_imp_eq_value unfolding gwf_def by fastforce
  qed
  moreover have "e ` set m' = e ` set m" using sets m'(1) by simp
  ultimately have "set m' = set m" using m'(2) by (simp add: inj_on_image_eq_iff)
  moreover have "gwf m'" using r(1) inj_keys m'(1) by simp
  ultimately show ?thesis using that m' m by (simp add: gwf_def map_of_inject_set)
qed

lemma get_hosts_map:
  "\<forall>(h, i) \<in> set m. in_i64 i \<Longrightarrow>
     get_hosts (map (\<lambda>(h, i). (h, itoa i)) m) acc = foldl (\<lambda>a (k, v). gput k v a) acc m"
  by (induction m arbitrary: acc) (auto simp: atoi_itoa_i64)

lemma get_by_id_map:
  "\<forall>(i, v) \<in> set m. in_i64 i \<and> g i (f v) = v \<Longrightarrow>
     get_by_id g (map (\<lambda>(i, v). (itoa i, f v)) m) acc = foldl (\<lambda>a (k, v). gput k v a) acc m"
  by (induction m arbitrary: acc) (auto simp: atoi_itoa_i64)

lemma gget_get_id_lists:
  "\<forall>(i, ids) \<in> set m. in_i64 i \<and> ids \<noteq> [] \<and> list_all in_i64 ids \<Longrightarrow> gwf m \<Longrightarrow>
     \<forall>i \<in> set (gkeys m). gget acc i = None \<Longrightarrow>
     gget (get_id_lists (map (\<lambda>(i, ids). (itoa i, join_ids ids)) m) acc) = gget acc ++ gget m"
proof (induction m arbitrary: acc)
  case (Cons x m)
  obtain i ids where x: "x = (i, ids)" by (cases x)
  let ?acc = "get_ints i (split_str SEP (join_ids ids)) acc"
  have acc: "gget ?acc = (gget acc)(i \<mapsto> ids)"
    using Cons.prems x by (intro gget_get_ints) auto
  have "gget (get_id_lists (map (\<lambda>(i, ids). (itoa i, join_ids ids)) m) ?acc) = gget ?acc ++ gget m"
    using Cons.prems x by (intro Cons.IH) (auto simp: acc gwf_def)
  moreover have "i \<notin> dom (gget m)" using Cons.prems(2) x by (simp add: gwf_def dom_map_of_conv_image_fst)
  ultimately show ?case
    using Cons.prems x by (auto simp: atoi_itoa_i64 acc fun_eq_iff map_add_def split: option.split)
qed simp

lemma gget_put_all_empty: "gwf m \<Longrightarrow> gget (foldl (\<lambda>a (k, v). gput k v a) [] m) = gget m"
  by (simp add: gm.get_put_all map_of_rev)

text \<open>
  Whatever commands fail: when a server has pointed the well-known key to its hash, every server
  that reads the hash gets the map that the first one read from the database. This holds for the
  hosts, the monitored hosts and the groups of the hosts, for any number of them, in batches of 500.
\<close>

theorem shared_maps_complete:
  assumes m: "gwf hosts" "gwf monitored" "gwf groups"
    and ids: "\<forall>(h, i) \<in> set hosts. in_i64 i" "\<forall>(i, h) \<in> set monitored. in_i64 i \<and> h_Id h = i"
      "\<forall>(i, ids) \<in> set groups. in_i64 i \<and> ids \<noteq> [] \<and> list_all in_i64 ids"
    and ans: "answers r1 fail (SetHost2Redis fail hn nano hosts) k"
      "answers r2 fail (SetMonitoredHost2Redis fail hn nano monitored) k"
      "answers r3 fail (SetHostGroup2Redis fail hn nano groups) k"
  shows "(SET ''host'' k \<in> set (SetHost2Redis fail hn nano hosts) \<longrightarrow>
      (\<exists>m. GetHostFromRedis (Some k) r1 = Inr m \<and> gget m = gget hosts)) \<and>
    (SET ''monitored_host'' k \<in> set (SetMonitoredHost2Redis fail hn nano monitored) \<longrightarrow>
      (\<exists>m. GetMonitoredHostFromRedis (Some k) r2 = Inr m \<and> gget m = gget monitored)) \<and>
    (SET ''group'' k \<in> set (SetHostGroup2Redis fail hn nano groups) \<longrightarrow>
      (\<exists>m. GetHostGroupFromRedis (Some k) r3 = Inr m \<and> gget m = gget groups))"
proof (intro conjI impI)
  have itoa_eq: "itoa i = itoa j \<longleftrightarrow> i = j" for i j using itoa_inj by blast
  have fields: "hset_fields (\<lambda>x. Some (e x)) xs = map e xs" for e :: "'x \<Rightarrow> string \<times> 'y" and xs
    by (induction xs) (simp_all add: hset_fields_def)
  note pub = published_fields [where n = 0, unfolded One_nat_def [symmetric]]
  {
    assume "SET ''host'' k \<in> set (SetHost2Redis fail hn nano hosts)"
    from pub [OF this [unfolded SetHost2Redis_def Let_def]] ans(1)
    obtain r where r: "r1 k = Some r" "gwf r" "gget r = map_of (rev (map (\<lambda>(h, i). (h, itoa i)) hosts))"
      by (auto simp: answers_def SetHost2Redis_def Let_def case_prod_unfold fields)
    obtain m' where m': "r = map (\<lambda>(h, i). (h, itoa i)) m'" "gwf m'" "gget m' = gget hosts" "set m' = set hosts"
      by (rule answer_perm [OF m(1) _ r(2,3)]) auto
    show "\<exists>m. GetHostFromRedis (Some k) r1 = Inr m \<and> gget m = gget hosts"
      using m' ids(1) r(1) get_hosts_map [of m' "[]"] gget_put_all_empty [OF m'(2)]
      by (simp add: GetHostFromRedis_def hget_def)
  }
  {
    assume "SET ''monitored_host'' k \<in> set (SetMonitoredHost2Redis fail hn nano monitored)"
    from pub [OF this [unfolded SetMonitoredHost2Redis_def Let_def]] ans(2)
    obtain r where r: "r2 k = Some r" "gwf r" "gget r = map_of (rev (map (\<lambda>(i, h). (itoa i, h_Name h)) monitored))"
      by (auto simp: answers_def SetMonitoredHost2Redis_def Let_def case_prod_unfold fields)
    obtain m' where m': "r = map (\<lambda>(i, h). (itoa i, h_Name h)) m'" "gwf m'" "gget m' = gget monitored"
      "set m' = set monitored"
      by (rule answer_perm [OF m(2) _ r(2,3)]) (auto simp: itoa_eq)
    show "\<exists>m. GetMonitoredHostFromRedis (Some k) r2 = Inr m \<and> gget m = gget monitored"
    proof -
      have "\<forall>(i, h) \<in> set m'. in_i64 i \<and> \<lparr>h_Id = i, h_Name = h_Name h\<rparr> = h"
        using ids(2) m'(4) by auto
      from get_by_id_map [where g = "\<lambda>i name. \<lparr>h_Id = i, h_Name = name\<rparr>" and f = h_Name, OF this, of "[]"] show ?thesis
        using m' r(1) gget_put_all_empty [OF m'(2)] by (simp add: GetMonitoredHostFromRedis_def hget_def)
    qed
  }
  {
    assume "SET ''group'' k \<in> set (SetHostGroup2Redis fail hn nano groups)"
    from pub [OF this [unfolded SetHostGroup2Redis_def Let_def]] ans(3)
    obtain r where r: "r3 k = Some r" "gwf r" "gget r = map_of (rev (map (\<lambda>(i, ids). (itoa i, join_ids ids)) groups))"
      by (auto simp: answers_def SetHostGroup2Redis_def Let_def case_prod_unfold fields)
    obtain m' where m': "r = map (\<lambda>(i, ids). (itoa i, join_ids ids)) m'" "gwf m'" "gget m' = gget groups"
      "set m' = set groups"
      by (rule answer_perm [OF m(3) _ r(2,3)]) (auto simp: itoa_eq)
    show "\<exists>m. GetHostGroupFromRedis (Some k) r3 = Inr m \<and> gget m = gget groups"
      using m' ids(3) r(1) gget_get_id_lists [of m' "[]"]
      by (simp add: GetHostGroupFromRedis_def hget_def)
  }
qed

text \<open>
  \<open>SetGroupTemplate2Redis\<close> never counts its entries: nothing is ever written, and the well-known key
  points to a hash that does not exist.
\<close>

theorem group_templates_never_written:
  "SetGroupTemplate2Redis (\<lambda>_. False) hn nano m =
     [EXPIRE (redis_key ''template'' hn nano) TIMEOUT, SET ''template'' (redis_key ''template'' hn nano)]"
proof -
  have "\<exists>buf. hset_loop (\<lambda>_. False) 0 (\<lambda>i. 500 \<le> i) enc key m b 0 [] = (False, buf, 0, [])"
    for enc key and b :: "(string \<times> string) list"
    by (induction m arbitrary: b) (auto simp: Let_def split: option.split)
  then obtain buf where
    "hset_loop (\<lambda>_. False) 0 (\<lambda>i. 500 \<le> i) (\<lambda>(gid, tids). Some (itoa gid, join_ids tids))
       (redis_key ''template'' hn nano) m [] 0 [] = (False, buf, 0, [])" by blast
  then show ?thesis by (simp add: SetGroupTemplate2Redis_def hset_rest_def hset_publish_def Let_def)
qed

lemma hset_loop_fill:
  "\<forall>x \<in> set xs. enc x \<noteq> None \<Longrightarrow> i + length xs < n \<Longrightarrow>
     hset_loop fail (Suc 0) (\<lambda>i. n \<le> i) enc key (xs @ ys) buf i cmds =
     hset_loop fail (Suc 0) (\<lambda>i. n \<le> i) enc key ys (buf @ hset_fields enc xs) (i + length xs) cmds"
  by (induction xs arbitrary: buf i) (auto simp: Let_def hset_fields_def)

text \<open>
  The strategies lose this: a failed batch ends the loop with an error that the code after it does
  not see. It sends the batch again and publishes the hash, without the strategies that come after.
\<close>

theorem strategies_published_partial:
  assumes m: "gwf m" "500 < length m" and fin: "\<forall>(i, s) \<in> set m. in_i64 i \<and> is_fin (st_RightValue s)"
    and ans: "answers r (\<lambda>n. n = 0) (SetStrategies2Redis (\<lambda>n. n = 0) hn nano m) k"
  shows "SET ''strategies'' (redis_key ''strategies'' hn nano) \<in> set (SetStrategies2Redis (\<lambda>n. n = 0) hn nano m) \<and>
    (k = redis_key ''strategies'' hn nano \<longrightarrow>
      (\<exists>m'. GetStrategiesFromRedis (Some k) r = Inr m' \<and> gget m' = gget (take 500 m)))"
proof -
  let ?e = "\<lambda>(i, s). map_option (\<lambda>v. (itoa i, v)) (stra_json s)" and ?key = "redis_key ''strategies'' hn nano"
  define a where "a = take 499 m"
  define x where "x = m ! 499"
  define ys where "ys = drop (Suc 499) m"
  have m_eq: "m = a @ x # ys" and la: "length a = 499"
    unfolding a_def x_def ys_def by (rule id_take_nth_drop) (use m(2) in simp_all)
  have enc: "?e y \<noteq> None" if "y \<in> set m" for y
    using fin that by (cases y) (auto simp: stra_json_def)
  have fields: "hset_fields ?e zs = map (\<lambda>(i, s). (itoa i, s)) zs" if "set zs \<subseteq> set m" for zs
    using that fin by (induction zs) (auto simp: hset_fields_def stra_json_def)
  have take: "take 500 m = a @ [x]" using la by (simp add: m_eq)
  let ?buf = "map (\<lambda>(i, s). (itoa i, s)) (take 500 m)"
  have "hset_loop (\<lambda>n. n = 0) 1 (\<lambda>i. 500 \<le> i) ?e ?key m [] 0 [] = (True, ?buf, 500, [HMSET ?key ?buf])"
  proof -
    obtain fv where fv: "?e x = Some fv" using enc [of x] by (auto simp: m_eq)
    then have "hset_fields ?e [x] = [fv]" by (simp add: hset_fields_def)
    moreover have "set a \<subseteq> set m" "set [x] \<subseteq> set m" by (auto simp: m_eq)
    ultimately have "hset_fields ?e a @ [fv] = ?buf"
      using fields [of a] fields [of "[x]"] unfolding take by simp
    then show ?thesis
      using hset_loop_fill [of a ?e 0 500 "\<lambda>n. n = 0" ?key "x # ys" "[]" "[]"] enc la fv
      by (simp add: m_eq Let_def)
  qed
  then have cmds: "SetStrategies2Redis (\<lambda>n. n = 0) hn nano m =
      [HMSET ?key ?buf, HMSET ?key ?buf, EXPIRE ?key TIMEOUT, SET ''strategies'' ?key]"
    by (simp add: SetStrategies2Redis_def shadowed_def hset_rest_def hset_publish_def Let_def)
  have "\<exists>m'. GetStrategiesFromRedis (Some k) r = Inr m' \<and> gget m' = gget (take 500 m)" if k: "k = ?key"
  proof -
    from ans k obtain res where res: "r ?key = Some res" "gwf res" "gget res = map_of (rev ?buf)"
      by (auto simp: answers_def cmds)
    have g: "gwf (take 500 m)" using m(1) by (simp add: gwf_def take_map [symmetric] del: take_map)
    have itoa_eq: "itoa i = itoa j \<longleftrightarrow> i = j" for i j using itoa_inj by blast
    obtain m' where m': "res = map (\<lambda>(i, s). (itoa i, s)) m'" "gwf m'" "gget m' = gget (take 500 m)"
      "set m' = set (take 500 m)"
      by (rule answer_perm [OF g _ res(2,3)]) (auto simp: itoa_eq)
    have "\<forall>(i, v) \<in> set m'. in_i64 i \<and> v = v" using fin m'(4) by (auto dest: in_set_takeD)
    from get_by_id_map [where f = "\<lambda>v. v" and g = "\<lambda>_ s. s", OF this, of "[]"] show ?thesis
      using m' k res(1) gget_put_all_empty [OF m'(2)] by (auto simp: GetStrategiesFromRedis_def hget_def)
  qed
  then show ?thesis by (simp add: cmds)
qed

definition demo_many :: "(int, strategy) gomap" where
  "demo_many = map (\<lambda>i. (int i, demo_stra (int i) ''cpu'' (demo_tpl 1 0))) [1..<502]"

theorem strategies_published_partial_witness:
  "\<exists>r m'. GetStrategiesFromRedis (Some (redis_key ''strategies'' ''h'' 7)) r = Inr m' \<and>
     gget demo_many 501 \<noteq> None \<and> gget m' 501 = None"
proof -
  let ?c = "SetStrategies2Redis (\<lambda>n. n = 0) ''h'' 7 demo_many" and ?k = "redis_key ''strategies'' ''h'' 7"
  define r where "r = (\<lambda>_::string. Some (foldl (\<lambda>a (k, v). gput k v a) [] (stored (\<lambda>n. n = 0) ?c ?k)))"
  have "answers r (\<lambda>n. n = 0) ?c ?k"
    by (simp add: answers_def r_def gm.inv_put_all gm.get_put_all)
  moreover have "gwf demo_many" "500 < length demo_many"
    by (simp_all add: gwf_def demo_many_def o_def distinct_map inj_on_def)
  moreover have "\<forall>(i, s) \<in> set demo_many. in_i64 i \<and> is_fin (st_RightValue s)"
    by (auto simp: demo_many_def in_i64_def demo_stra_def zero_f64_def)
  ultimately obtain m' where m': "GetStrategiesFromRedis (Some ?k) r = Inr m'" "gget m' = gget (take 500 demo_many)"
    using strategies_published_partial [of demo_many r "''h''" 7 ?k] by blast
  have "take 500 demo_many = map (\<lambda>i. (int i, demo_stra (int i) ''cpu'' (demo_tpl 1 0))) [1..<501]"
    by (simp add: demo_many_def take_map)
  then have "gget m' 501 = None" unfolding m'(2) by (simp add: map_of_eq_None_iff image_iff)
  moreover have "gget demo_many 501 \<noteq> None"
    by (simp add: demo_many_def map_of_eq_None_iff image_image)
  ultimately show ?thesis using m'(1) by blast
qed

theorem shared_maps_complete_witness:
  "\<exists>r m. GetHostGroupFromRedis (Some (redis_key ''group'' ''h'' 7)) r = Inr m \<and> gget m 3 = Some [4, 5]"
proof -
  let ?g = "[(3, [4, 5])] :: (int, int list) gomap" and ?f = "\<lambda>_::nat. False" and ?k = "redis_key ''group'' ''h'' 7"
  let ?c1 = "SetHost2Redis ?f ''h'' 7 []" and ?c2 = "SetMonitoredHost2Redis ?f ''h'' 7 []"
    and ?c3 = "SetHostGroup2Redis ?f ''h'' 7 ?g"
  define ans where "ans = (\<lambda>c (_::string). Some (foldl (\<lambda>a (k, v). gput k v a) [] (stored ?f (c :: string rcmd list) ?k)))"
  have "answers (ans c) ?f c ?k" for c
    by (simp add: answers_def ans_def gm.inv_put_all gm.get_put_all)
  moreover have "SET ''group'' ?k \<in> set ?c3"
    by (simp add: SetHostGroup2Redis_def hset_rest_def hset_publish_def Let_def)
  moreover have "gwf ?g" by (simp add: gwf_def)
  ultimately have "\<exists>m. GetHostGroupFromRedis (Some ?k) (ans ?c3) = Inr m \<and> gget m = gget ?g"
    using shared_maps_complete [of "[]" "[]" ?g "ans ?c1" ?f "''h''" 7 ?k "ans ?c2" "ans ?c3"]
    by (simp add: in_i64_def)
  then show ?thesis by (intro exI [of _ "ans ?c3"]) auto
qed

end
