(* ===== verification/Hbs_Query.thy ===== *)
theory Hbs_Query
  imports Hbs_Redis
begin

text \<open>
  Module hbs, package \<open>db\<close>: what is read from the database. The answer of a query is a list of rows,
  \<open>None\<close> for a row that cannot be scanned, or no list at all when the query fails. For the queries of
  the strategies of one host the SQL text itself is modelled, on tables as lists of rows.
\<close>

section \<open>Rows into maps\<close>

type_synonym 'r answer = "'r option list option"

fun fold_rows :: "('r \<Rightarrow> 'm \<Rightarrow> 'm) \<Rightarrow> 'r option list \<Rightarrow> 'm \<Rightarrow> 'm" where
  "fold_rows f [] m = m"
| "fold_rows f (None # rows) m = fold_rows f rows m"
| "fold_rows f (Some r # rows) m = fold_rows f rows (f r m)"

definition query_rows :: "('r \<Rightarrow> 'm \<Rightarrow> 'm) \<Rightarrow> 'm \<Rightarrow> 'r answer \<Rightarrow> 'm res" where
  "query_rows f m ans = (case ans of None \<Rightarrow> Inl (Err ''query'') | Some rows \<Rightarrow> Inr (fold_rows f rows m))"

definition queryHosts :: "(int \<times> string) answer \<Rightarrow> (string, int) gomap res" where
  "queryHosts = query_rows (\<lambda>(i, hostname) m. gput hostname i m) []"

definition queryMonitoredHosts :: "(int \<times> string) answer \<Rightarrow> (int, host) gomap res" where
  "queryMonitoredHosts = query_rows (\<lambda>(i, n) m. gput i \<lparr>h_Id = i, h_Name = n\<rparr> m) []"

definition queryHostGroups :: "(int \<times> int) answer \<Rightarrow> (int, int list) gomap res" where
  "queryHostGroups = query_rows (\<lambda>(gid, hid) m. gpush hid gid m) []"

definition queryGroupTemplates :: "(int \<times> int) answer \<Rightarrow> (int, int list) gomap res" where
  "queryGroupTemplates = query_rows (\<lambda>(gid, tid) m. gpush gid tid m) []"

definition queryTemplates :: "template answer \<Rightarrow> templates res" where
  "queryTemplates = query_rows (\<lambda>t m. gput (tpl_Id t) t m) []"

definition queryHostTemplateIds :: "(int \<times> int) answer \<Rightarrow> (int, int list) gomap res" where
  "queryHostTemplateIds = query_rows (\<lambda>(tid, hid) m. gpush hid tid m) []"

definition queryPlugins :: "(int \<times> string) answer \<Rightarrow> (int, string list) gomap res" where
  "queryPlugins = query_rows (\<lambda>(i, dir) m. gpush i dir m) []"

definition queryHostServices :: "(string \<times> string) answer \<Rightarrow> (string, string) gomap res" where
  "queryHostServices = query_rows (\<lambda>(sname, hname) m.
     case gget m hname of Some v \<Rightarrow> gput hname (v @ '','' @ sname) m | None \<Rightarrow> gput hname sname m) []"

record dynamic_config =
  dc_Id :: int
  dc_EndPoint :: string
  dc_Metrics :: string
  dc_Tag :: string
  dc_Interval :: int

definition queryDynamicConfig :: "dynamic_config answer \<Rightarrow> (string, dynamic_config list) gomap res" where
  "queryDynamicConfig = query_rows (\<lambda>t m. gpush (dc_EndPoint t) t m) []"

definition QueryPluginsForEnd :: "string answer \<Rightarrow> string list" where
  "QueryPluginsForEnd ans =
     (case ans of None \<Rightarrow> [] | Some rows \<Rightarrow> fold_rows (\<lambda>p ps. ps @ [p]) rows [])"

text \<open>The first row that can be scanned decides; a failed query leaves a nil pointer.\<close>

fun maintain_rows :: "string \<Rightarrow> (int \<times> string) option list \<Rightarrow> bool" where
  "maintain_rows hostname [] = False"
| "maintain_rows hostname (None # rows) = maintain_rows hostname rows"
| "maintain_rows hostname (Some (i, name) # rows) = (if name = hostname then True else False)"

definition QueryHostMaintain :: "(int \<times> string) answer \<Rightarrow> string \<Rightarrow> bool res" where
  "QueryHostMaintain ans hostname =
     (case ans of None \<Rightarrow> nil_deref | Some rows \<Rightarrow> Inr (maintain_rows hostname rows))"

section \<open>One server reads the database for all\<close>

text \<open>
  With the lock the database is read and the result written to redis; without it the result is
  read from redis, and from the database when that fails.
\<close>

definition shared_query :: "bool \<Rightarrow> 'm res \<Rightarrow> 'm res \<Rightarrow> ('m \<Rightarrow> 'v rcmd list) \<Rightarrow> 'm res \<times> 'v rcmd list" where
  "shared_query lock dbm redism write =
     (if lock then (case dbm of Inl e \<Rightarrow> (Inl e, []) | Inr m \<Rightarrow> (Inr m, write m))
      else (case redism of Inr m \<Rightarrow> (Inr m, []) | Inl e \<Rightarrow> (dbm, [])))"

record 'v redis_io =
  io_fail :: "nat \<Rightarrow> bool"
  io_host :: string
  io_nano :: int
  io_get :: "string option"
  io_hgetall :: "string \<Rightarrow> (string \<times> 'v) list option"

definition QueryHosts :: "bool \<Rightarrow> (int \<times> string) answer \<Rightarrow> string redis_io \<Rightarrow> (string, int) gomap res \<times> string rcmd list" where
  "QueryHosts lock ans io = shared_query lock (queryHosts ans)
     (GetHostFromRedis (io_get io) (io_hgetall io)) (SetHost2Redis (io_fail io) (io_host io) (io_nano io))"

definition QueryMonitoredHosts :: "bool \<Rightarrow> (int \<times> string) answer \<Rightarrow> string redis_io \<Rightarrow> (int, host) gomap res \<times> string rcmd list" where
  "QueryMonitoredHosts lock ans io = shared_query lock (queryMonitoredHosts ans)
     (GetMonitoredHostFromRedis (io_get io) (io_hgetall io))
     (SetMonitoredHost2Redis (io_fail io) (io_host io) (io_nano io))"

definition QueryHostGroups :: "bool \<Rightarrow> (int \<times> int) answer \<Rightarrow> string redis_io \<Rightarrow> (int, int list) gomap res \<times> string rcmd list" where
  "QueryHostGroups lock ans io = shared_query lock (queryHostGroups ans)
     (GetHostGroupFromRedis (io_get io) (io_hgetall io)) (SetHostGroup2Redis (io_fail io) (io_host io) (io_nano io))"

definition QueryGroupTemplates :: "bool \<Rightarrow> (int \<times> int) answer \<Rightarrow> string redis_io \<Rightarrow> (int, int list) gomap res \<times> string rcmd list" where
  "QueryGroupTemplates lock ans io = shared_query lock (queryGroupTemplates ans)
     (GetGroupTemplateFromRedis (io_get io) (io_hgetall io))
     (SetGroupTemplate2Redis (io_fail io) (io_host io) (io_nano io))"

definition QueryTemplates :: "bool \<Rightarrow> template answer \<Rightarrow> template redis_io \<Rightarrow> templates res \<times> template rcmd list" where
  "QueryTemplates lock ans io = shared_query lock (queryTemplates ans)
     (GetTPLFromRedis (io_get io) (io_hgetall io)) (SetTPL2Redis (io_fail io) (io_host io) (io_nano io))"

definition QueryHostTemplateIds :: "bool \<Rightarrow> (int \<times> int) answer \<Rightarrow> string redis_io \<Rightarrow> (int, int list) gomap res \<times> string rcmd list" where
  "QueryHostTemplateIds lock ans io = shared_query lock (queryHostTemplateIds ans)
     (GetHostTemplateFromRedis (io_get io) (io_hgetall io))
     (SetHostTemplate2Redis (io_fail io) (io_host io) (io_nano io))"

definition QueryPlugins :: "bool \<Rightarrow> (int \<times> string) answer \<Rightarrow> string redis_io \<Rightarrow> (int, string list) gomap res \<times> string rcmd list" where
  "QueryPlugins lock ans io = shared_query lock (queryPlugins ans)
     (GetPluginsFromRedis (io_get io) (io_hgetall io)) (SetPlugins2Redis (io_fail io) (io_nano io))"

definition QueryServices :: "bool \<Rightarrow> (string \<times> string) answer \<Rightarrow> string redis_io \<Rightarrow> (string, string) gomap res \<times> string rcmd list" where
  "QueryServices lock ans io = shared_query lock (queryHostServices ans)
     (GetHostServiceFromRedis (io_get io) (io_hgetall io)) (SetHostService2Redis (io_fail io) (io_nano io))"

section \<open>Strategies\<close>

record stra_row =
  sr_id :: int
  sr_metric :: string
  sr_tags :: string
  sr_func :: string
  sr_op :: string
  sr_right_value :: f64
  sr_max_step :: int
  sr_priority :: int
  sr_note :: string
  sr_tpl_id :: int
  sr_union_strategy_id :: int

definition row_strategy :: "stra_row \<Rightarrow> tags \<Rightarrow> template option \<Rightarrow> strategy" where
  "row_strategy r tt t =
     \<lparr>st_Id = sr_id r, st_Metric = sr_metric r, st_Tags = tt, st_Func = sr_func r,
      st_Operator = sr_op r, st_RightValue = sr_right_value r, st_MaxStep = sr_max_step r,
      st_Priority = sr_priority r, st_Note = sr_note r, st_Tpl = t,
      st_UnionStrategyId = sr_union_strategy_id r\<rparr>"

definition scan_joined :: "(stra_row \<times> template) answer \<Rightarrow> strategy list" where
  "scan_joined ans =
     (case ans of None \<Rightarrow> []
      | Some rows \<Rightarrow>
          fold_rows (\<lambda>(r, t) ss. ss @ [row_strategy r (snd (SplitTagsString (sr_tags r))) (Some t)]) rows [])"

record hbs_tables =
  t_strategy :: "stra_row list"
  t_tpl :: "template list"
  t_grp :: "int list"
  t_grp_tpl :: "(int \<times> int) list"  \<comment> \<open>group, template\<close>
  t_grp_host :: "(int \<times> int) list" \<comment> \<open>group, host\<close>
  t_host :: "(int \<times> string) list"

text \<open>The templates bound to a group of the host, once for each way to get there.\<close>

definition bound_tpls :: "hbs_tables \<Rightarrow> string \<Rightarrow> template list" where
  "bound_tpls db endpoint =
     concat (map (\<lambda>t. concat (map (\<lambda>g. concat (map (\<lambda>(gt_grp, gt_tpl). concat (map (\<lambda>(gh_grp, gh_host).
       concat (map (\<lambda>(h_id, hostname).
         if tpl_Id t = gt_tpl \<and> gt_grp = g \<and> gh_grp = g \<and> gh_host = h_id \<and> hostname = endpoint
         then [t] else []) (t_host db)))
       (t_grp_host db))) (t_grp_tpl db))) (t_grp db))) (t_tpl db))"

definition sql_one_end :: "hbs_tables \<Rightarrow> string \<Rightarrow> (stra_row \<times> template) list" where
  "sql_one_end db endpoint =
     concat (map (\<lambda>sy. map (\<lambda>t. (sy, t)) (filter (\<lambda>t. sr_tpl_id sy = tpl_Id t) (bound_tpls db endpoint)))
       (t_strategy db)) @
     concat (map (\<lambda>sy. map (\<lambda>t. (sy, t)) (filter (\<lambda>t. sr_tpl_id sy = tpl_ParentId t) (bound_tpls db endpoint)))
       (t_strategy db))"

definition QueryStrategiesForOneEnd :: "hbs_tables option \<Rightarrow> string \<Rightarrow> strategy list" where
  "QueryStrategiesForOneEnd db endpoint =
     scan_joined (map_option (\<lambda>db. map Some (sql_one_end db endpoint)) db)"

definition sql_union :: "hbs_tables \<Rightarrow> int \<Rightarrow> (stra_row \<times> template) list" where
  "sql_union db unionId =
     concat (map (\<lambda>sy. map (\<lambda>t. (sy, t)) (filter (\<lambda>t. sr_tpl_id sy = tpl_Id t \<and> sr_union_strategy_id sy = unionId)
       (t_tpl db))) (t_strategy db))"

definition QueryUnionStrategiesByUnionId :: "hbs_tables option \<Rightarrow> int \<Rightarrow> strategy list" where
  "QueryUnionStrategiesByUnionId db unionId =
     scan_joined (map_option (\<lambda>db. map Some (sql_union db unionId)) db)"

text \<open>All strategies, for the templates that exist; tags that are no pair are skipped.\<close>

fun loose_tags :: "string list \<Rightarrow> tags \<Rightarrow> tags" where
  "loose_tags [] tt = tt"
| "loose_tags (tag # arr) tt =
     (case split2 (CHR ''='') tag of [k, v] \<Rightarrow> loose_tags arr (gput k v tt) | _ \<Rightarrow> loose_tags arr tt)"

text \<open>\<open>ParseInt\<close> with its error ignored: 0, or the bound that was passed.\<close>

definition parse_int_lax :: "string \<Rightarrow> int" where
  "parse_int_lax s =
     (case parse_int 64 s of
        Inr v \<Rightarrow> v
      | Inl e \<Rightarrow> if e = Err ''value out of range'' then (if fst (parse_sign s) then - (2 ^ 63) else 2 ^ 63 - 1) else 0)"

fun union_chain :: "(int, strategy) gomap \<Rightarrow> string list \<Rightarrow> strategy list" where
  "union_chain ret [] = []"
| "union_chain ret (oneId # ids) =
     (case gget ret (parse_int_lax oneId) of Some s \<Rightarrow> s # union_chain ret ids | None \<Rightarrow> union_chain ret ids)"

definition put_union :: "(int, strategy) gomap \<Rightarrow> int \<times> string \<Rightarrow> (int, strategy list) gomap \<Rightarrow> (int, strategy list) gomap" where
  "put_union ret = (\<lambda>(uid, ids) m.
     let sChain = union_chain ret (split (CHR '','') ids)
     in if length sChain > 1 then gput uid sChain m else m)"

definition put_strategy :: "templates \<Rightarrow> stra_row \<Rightarrow> (int, strategy) gomap \<Rightarrow> (int, strategy) gomap" where
  "put_strategy tpls r m =
     (let tt = (if sr_tags r \<noteq> [] then loose_tags (split (CHR '','') (sr_tags r)) [] else [])
      in case gget tpls (sr_tpl_id r) of
           None \<Rightarrow> m
         | Some t \<Rightarrow> gput (sr_id r) (row_strategy r tt (Some t)) m)"

definition queryStrategies :: "templates \<Rightarrow> stra_row answer \<Rightarrow> (int \<times> string) answer
    \<Rightarrow> ((int, strategy) gomap \<times> (int, strategy list) gomap) res" where
  "queryStrategies tpls ans ansU =
     (if length tpls = 0 then Inl (Err ''illegal argument'')
      else case ans of
        None \<Rightarrow> Inl (Err ''query'')
      | Some rows \<Rightarrow>
          (let ret = fold_rows (put_strategy tpls) rows []
           in case ansU of
                None \<Rightarrow> nil_deref
              | Some rowsU \<Rightarrow> Inr (ret, fold_rows (put_union ret) rowsU [])))"

definition QueryStrategies :: "bool \<Rightarrow> templates \<Rightarrow> stra_row answer \<Rightarrow> (int \<times> string) answer
    \<Rightarrow> strategy redis_io \<Rightarrow> strategy list redis_io
    \<Rightarrow> ((int, strategy) gomap \<times> (int, strategy list) gomap) res \<times> strategy rcmd list \<times> strategy list rcmd list" where
  "QueryStrategies lock tpls ans ansU io ioU =
     (if lock then
        (case queryStrategies tpls ans ansU of
           Inl e \<Rightarrow> (Inl e, [], [])
         | Inr (dbm, uniondbM) \<Rightarrow>
             (Inr (dbm, uniondbM), SetStrategies2Redis (io_fail io) (io_host io) (io_nano io) dbm,
              SetUnionStrategies2Redis (io_fail ioU) (io_host ioU) (io_nano ioU) uniondbM))
      else
        (case (GetStrategiesFromRedis (io_get io) (io_hgetall io),
               GetUnionStrategiesFromRedis (io_get ioU) (io_hgetall ioU)) of
           (Inr redism, Inr redisUnM) \<Rightarrow> (Inr (redism, redisUnM), [], [])
         | _ \<Rightarrow> (queryStrategies tpls ans ansU, [], [])))"

section \<open>Expressions\<close>

fun expr_tags :: "string list \<Rightarrow> tags \<Rightarrow> tags res" where
  "expr_tags [] m = Inr m"
| "expr_tags (item # arr) m =
     (case split (CHR ''='') item of
        [k, v] \<Rightarrow> expr_tags arr (gput (trim_space k) (trim_space v) m)
      | _ \<Rightarrow> Inl (Err ''parse fail''))"

definition parseExpression :: "string \<Rightarrow> (string \<times> tags) res" where
  "parseExpression exp_str =
     (let left = index_of (CHR ''('') exp_str; right = index_of (CHR '')'') exp_str
      in bind_res (slice exp_str (left + 1) right) (\<lambda>inner.
           let arr = Go_Strings.fields (trim_space inner)
           in if length arr < 2 then Inl (Err ''tag not enough'')
              else bind_res (expr_tags arr []) (\<lambda>tags.
                case gget tags ''metric'' of
                  None \<Rightarrow> Inl (Err ''no metric give'')
                | Some metric \<Rightarrow> Inr (metric, gdel ''metric'' tags))))"

fun expression_rows :: "(expression \<times> string) option list \<Rightarrow> expression list \<Rightarrow> expression list res" where
  "expression_rows [] ret = Inr ret"
| "expression_rows (None # rows) ret = expression_rows rows ret"
| "expression_rows (Some (e, exp_str) # rows) ret =
     (case parseExpression exp_str of
        Inr (metric, tags) \<Rightarrow> expression_rows rows (ret @ [e\<lparr>ex_Metric := metric, ex_Tags := tags\<rparr>])
      | Inl (Err _) \<Rightarrow> expression_rows rows ret
      | Inl (Panic p) \<Rightarrow> Inl (Panic p))"

definition queryExpressions :: "(expression \<times> string) answer \<Rightarrow> expression list res" where
  "queryExpressions ans = (case ans of None \<Rightarrow> Inl (Err ''query'') | Some rows \<Rightarrow> expression_rows rows [])"

definition QueryExpressions :: "bool \<Rightarrow> (expression \<times> string) answer \<Rightarrow> expression redis_io
    \<Rightarrow> expression list res \<times> expression rcmd list" where
  "QueryExpressions lock ans io = shared_query lock (queryExpressions ans)
     (GetExpressionsFromRedis (io_get io) (io_hgetall io)) (SetExpressions2Redis (io_fail io) (io_nano io))"

text \<open>The metrics that need a plugin of the agent, each pair of metric and tags once.\<close>

record builtin_metric =
  bm_Metric :: string
  bm_Tags :: string

definition put_builtin :: "builtin_metric \<Rightarrow> builtin_metric list \<times> string list \<Rightarrow> builtin_metric list \<times> string list" where
  "put_builtin b = (\<lambda>(ret, seen).
     let k = bm_Metric b @ bm_Tags b
     in if k \<in> set seen then (ret, seen) else (ret @ [b], seen @ [k]))"

definition QueryHostSpecialMetric :: "builtin_metric answer \<Rightarrow> builtin_metric list" where
  "QueryHostSpecialMetric ans =
     (case ans of None \<Rightarrow> [] | Some rows \<Rightarrow> fst (fold_rows put_builtin rows ([], [])))"

definition QueryBuiltinMetrics :: "builtin_metric answer \<Rightarrow> builtin_metric list res" where
  "QueryBuiltinMetrics ans =
     (case ans of None \<Rightarrow> Inl (Err ''query'') | Some rows \<Rightarrow> Inr (fst (fold_rows put_builtin rows ([], []))))"

section \<open>Expressions as text\<close>

definition clean_word :: "string \<Rightarrow> bool" where
  "clean_word w \<longleftrightarrow> list_all (\<lambda>c. \<not> is_space c \<and> c \<notin> {CHR ''='', CHR ''('', CHR '')''}) w"

definition pair_text :: "string \<times> string \<Rightarrow> string" where
  "pair_text = (\<lambda>(k, v). k @ ''='' @ v)"

lemma trim_space_ends:
  assumes "s \<noteq> []" "\<not> is_space (hd s)" "\<not> is_space (last s)"
  shows "trim_space s = s"
proof -
  have "dropWhile is_space s = s" using assms by (cases s) simp_all
  moreover have "dropWhile is_space (rev s) = rev s"
  proof (cases "rev s")
    case (Cons c cs)
    then have "c = last s" using assms(1) by (metis hd_rev list.sel(1))
    then show ?thesis unfolding Cons using assms(3) by simp
  qed simp
  ultimately show ?thesis by (simp add: trim_space_def)
qed

lemma trim_space_id: "list_all (\<lambda>c. \<not> is_space c) w \<Longrightarrow> trim_space w = w"
proof (cases "w = []")
  case False
  then have "hd w \<in> set w" "last w \<in> set w" by simp_all
  then show "list_all (\<lambda>c. \<not> is_space c) w \<Longrightarrow> trim_space w = w"
    using False by (intro trim_space_ends) (auto simp: list_all_iff)
qed (simp add: trim_space_def)

lemma clean_word_facts:
  assumes "clean_word w"
  shows "CHR ''='' \<notin> set w" "trim_space w = w"
proof -
  show "CHR ''='' \<notin> set w" using assms unfolding clean_word_def list_all_iff by blast
  show "trim_space w = w"
    by (rule trim_space_id) (use assms in \<open>simp add: clean_word_def list_all_iff\<close>)
qed

lemma expr_tags_pairs:
  "\<forall>(k, v) \<in> set kvs. clean_word k \<and> clean_word v \<Longrightarrow>
     expr_tags (map pair_text kvs) m = Inr (foldl (\<lambda>a (k, v). gput k v a) m kvs)"
proof (induction kvs arbitrary: m)
  case (Cons x kvs)
  obtain k v where x: "x = (k, v)" by (cases x)
  have kv: "clean_word k" "clean_word v" using Cons.prems x by auto
  then have "split (CHR ''='') (k @ CHR ''='' # v) = [k, v]"
    by (simp add: split_append split_no_sep clean_word_facts)
  moreover have "trim_space k = k" "trim_space v = v"
    using kv by (simp_all add: clean_word_facts)
  ultimately show ?case using Cons x by (simp add: pair_text_def)
qed simp

lemma slice_inner:
  "CHR ''('' \<notin> set pre \<Longrightarrow> CHR '')'' \<notin> set pre \<Longrightarrow> CHR '')'' \<notin> set inner \<Longrightarrow>
     slice (pre @ ''('' @ inner @ '')'' @ rest)
       (index_of (CHR ''('') (pre @ ''('' @ inner @ '')'' @ rest) + 1)
       (index_of (CHR '')'') (pre @ ''('' @ inner @ '')'' @ rest)) = Inr inner"
  using index_of_cut [of "CHR '')''" "pre @ ''('' @ inner" rest]
  by (simp add: index_of_cut slice_def nat_add_distrib)

definition expr_result :: "tags \<Rightarrow> (string \<times> tags) res" where
  "expr_result tags =
     (case gget tags ''metric'' of
        None \<Rightarrow> Inl (Err ''no metric give'')
      | Some metric \<Rightarrow> Inr (metric, gdel ''metric'' tags))"

lemma parse_words:
  assumes pre: "CHR ''('' \<notin> set pre" "CHR '')'' \<notin> set pre" and n: "2 \<le> length ws"
    and words: "\<forall>w \<in> set ws. w \<noteq> [] \<and> list_all (\<lambda>c. \<not> is_space c \<and> c \<noteq> CHR '')'') w"
  shows "parseExpression (pre @ ''('' @ join '' '' ws @ '')'' @ rest) = bind_res (expr_tags ws []) expr_result"
proof -
  have ends: "join '' '' vs \<noteq> [] \<and> hd (join '' '' vs) = hd (hd vs) \<and> last (join '' '' vs) = last (last vs) \<and>
      CHR '')'' \<notin> set (join '' '' vs)"
    if "vs \<noteq> []" "\<forall>w \<in> set vs. w \<noteq> [] \<and> CHR '')'' \<notin> set w" for vs
    using that
  proof (induction vs)
    case (Cons v vs)
    then show ?case by (cases vs) auto
  qed simp
  have ws: "ws \<noteq> []" using n by auto
  moreover have "\<forall>w \<in> set ws. w \<noteq> [] \<and> CHR '')'' \<notin> set w"
    using words by (auto simp: list_all_iff)
  ultimately have e: "join '' '' ws \<noteq> []" "hd (join '' '' ws) = hd (hd ws)"
    "last (join '' '' ws) = last (last ws)" "CHR '')'' \<notin> set (join '' '' ws)"
    using ends by blast+
  have "\<not> is_space (hd (hd ws))" "\<not> is_space (last (last ws))"
    using words hd_in_set [OF ws] last_in_set [OF ws] hd_in_set last_in_set by (auto simp: list_all_iff)
  then have "trim_space (join '' '' ws) = join '' '' ws"
    using e by (intro trim_space_ends) simp_all
  moreover have "Go_Strings.fields (join '' '' ws) = ws"
    by (rule fields_join) (use words in \<open>auto simp: list_all_iff\<close>)
  ultimately show ?thesis
    using slice_inner [OF pre e(4), of rest] n
    by (simp add: parseExpression_def expr_result_def [abs_def] Let_def)
qed

text \<open>
  The text of an expression, \<open>each(metric=... k=v ...)\<close>, is read as the metric and the tags it names,
  whatever stands before and after the parentheses.
\<close>

theorem expression_text_roundtrip:
  assumes pre: "CHR ''('' \<notin> set pre" "CHR '')'' \<notin> set pre" and metric: "clean_word metric"
    and kvs: "kvs \<noteq> []" "gwf kvs" "\<forall>(k, v) \<in> set kvs. clean_word k \<and> clean_word v \<and> k \<noteq> ''metric''"
  shows "\<exists>tags. parseExpression
       (pre @ ''('' @ join '' '' (map pair_text ((''metric'', metric) # kvs)) @ '')'' @ rest) = Inr (metric, tags) \<and>
     gget tags = gget kvs"
proof -
  define ps where "ps = (''metric'', metric) # kvs"
  have clean: "\<forall>(k, v) \<in> set ps. clean_word k \<and> clean_word v"
    using kvs(3) metric by (auto simp: ps_def clean_word_def is_space_def)
  have "\<forall>w \<in> set (map pair_text ps). w \<noteq> [] \<and> list_all (\<lambda>c. \<not> is_space c \<and> c \<noteq> CHR '')'') w"
    using clean by (fastforce simp: pair_text_def clean_word_def list_all_iff is_space_def)
  moreover have "2 \<le> length (map pair_text ps)" using kvs(1) by (cases kvs) (simp_all add: ps_def)
  ultimately have "parseExpression (pre @ ''('' @ join '' '' (map pair_text ps) @ '')'' @ rest) =
      bind_res (expr_tags (map pair_text ps) []) expr_result"
    using pre by (intro parse_words)
  moreover have "gwf ps" using kvs(2,3) by (auto simp: ps_def gwf_def)
  then have "gget (foldl (\<lambda>a (k, v). gput k v a) [] ps) = gget ps"
    by (simp add: gm.get_put_all map_of_rev)
  moreover have "gget ps ''metric'' = Some metric" by (simp add: ps_def)
  moreover have "(gget ps)(''metric'' := None) = gget kvs"
  proof -
    have "gget kvs ''metric'' = None" using kvs(3) by (auto simp: map_of_eq_None_iff)
    then show ?thesis by (simp add: ps_def fun_eq_iff)
  qed
  ultimately show ?thesis
    using expr_tags_pairs [OF clean, of "[]"] by (simp add: expr_result_def ps_def)
qed

lemma expression_rows_panic:
  "Some (e, txt) \<in> set rows \<Longrightarrow> CHR '')'' \<notin> set txt \<Longrightarrow> is_panic (expression_rows rows ret)"
proof (induction rows ret rule: expression_rows.induct)
  case (3 e' txt' rows ret)
  show ?case
  proof (cases "txt' = txt")
    case True
    have "parseExpression txt = Inl (Panic ''slice bounds out of range'')"
      using \<open>CHR '')'' \<notin> set txt\<close> by (auto simp: parseExpression_def Let_def slice_def index_of_def)
    then show ?thesis using True by simp
  next
    case False
    then have "Some (e, txt) \<in> set rows" using 3 by auto
    then show ?thesis using 3 by (auto split: sum.split go_error.split)
  qed
qed auto

text \<open>
  A row of the table of expressions without a closing parenthesis stops hbs: the slice is taken
  without a look at the positions.
\<close>

theorem bad_expression_stops_hbs:
  assumes "Some (e, txt) \<in> set rows" "CHR '')'' \<notin> set txt"
  shows "is_panic (queryExpressions (Some rows)) \<and> is_panic (fst (QueryExpressions True (Some rows) io))"
proof -
  have p: "is_panic (queryExpressions (Some rows))"
    using expression_rows_panic [OF assms] by (simp add: queryExpressions_def)
  then show ?thesis by (cases "queryExpressions (Some rows)") (simp_all add: QueryExpressions_def shared_query_def)
qed

section \<open>The strategies of one host\<close>

definition db_tpls :: "hbs_tables \<Rightarrow> templates" where
  "db_tpls db = map (\<lambda>t. (tpl_Id t, t)) (t_tpl db)"

definition db_stra :: "hbs_tables \<Rightarrow> stra_row \<Rightarrow> strategy" where
  "db_stra db r = row_strategy r (snd (SplitTagsString (sr_tags r))) (gget (db_tpls db) (sr_tpl_id r))"

definition db_stras :: "hbs_tables \<Rightarrow> (int, strategy option) gomap" where
  "db_stras db = map (\<lambda>r. (sr_id r, Some (db_stra db r))) (t_strategy db)"

definition host_tids :: "hbs_tables \<Rightarrow> string \<Rightarrow> int list" where
  "host_tids db endpoint = remdups (map tpl_Id (bound_tpls db endpoint))"

text \<open>Keys are unique and positive, strategies belong to a template that exists.\<close>

definition sound_tables :: "hbs_tables \<Rightarrow> bool" where
  "sound_tables db \<longleftrightarrow> distinct (map tpl_Id (t_tpl db)) \<and> (\<forall>t \<in> set (t_tpl db). 0 < tpl_Id t) \<and>
     (\<forall>r \<in> set (t_strategy db). gget (db_tpls db) (sr_tpl_id r) \<noteq> None)"

text \<open>Inheritance over one level, and nothing redefined.\<close>

definition flat_inheritance :: "hbs_tables \<Rightarrow> string \<Rightarrow> bool" where
  "flat_inheritance db endpoint \<longleftrightarrow> (\<forall>t \<in> set (bound_tpls db endpoint).
     (\<forall>p. gget (db_tpls db) (tpl_ParentId t) = Some p \<longrightarrow> tpl_ParentId p \<le> 0) \<and>
     (\<forall>r \<in> set (t_strategy db). \<forall>r' \<in> set (t_strategy db).
        sr_tpl_id r = tpl_Id t \<longrightarrow> sr_tpl_id r' = tpl_ParentId t \<longrightarrow>
        stra_uuid (db_stra db r) \<noteq> stra_uuid (db_stra db r')))"

lemma gget_db_tpls:
  "sound_tables db \<Longrightarrow> gget (db_tpls db) i = Some t \<longleftrightarrow> t \<in> set (t_tpl db) \<and> tpl_Id t = i"
  unfolding sound_tables_def db_tpls_def
  by (subst map_of_eq_Some_iff) (auto simp: o_def)

lemma bound_tpls_sub: "t \<in> set (bound_tpls db endpoint) \<Longrightarrow> t \<in> set (t_tpl db)"
  by (auto simp: bound_tpls_def split: if_splits)

lemma db_stra_id [simp]: "st_Id (db_stra db r) = sr_id r"
  by (simp add: db_stra_def row_strategy_def)

lemma own_db_stras:
  "sound_tables db \<Longrightarrow> s \<in> set (own_stras (db_stras db) tid) \<longleftrightarrow>
     (\<exists>r \<in> set (t_strategy db). sr_tpl_id r = tid \<and> s = db_stra db r)"
proof -
  assume s: "sound_tables db"
  have tp: "\<exists>t. st_Tpl (db_stra db r) = Some t \<and> tpl_Id t = sr_tpl_id r" if "r \<in> set (t_strategy db)" for r
  proof -
    have "gget (db_tpls db) (sr_tpl_id r) \<noteq> None"
      using that s by (simp add: sound_tables_def)
    then obtain t where t: "gget (db_tpls db) (sr_tpl_id r) = Some t" by (rule not_None_eq [THEN iffD1, THEN exE])
    then have "tpl_Id t = sr_tpl_id r" by (simp add: gget_db_tpls [OF s])
    with t show ?thesis by (simp add: db_stra_def row_strategy_def)
  qed
  have one: "s \<in> set (case st_Tpl (db_stra db r) of Some t \<Rightarrow> if tpl_Id t = tid then [db_stra db r] else []
      | None \<Rightarrow> []) \<longleftrightarrow> sr_tpl_id r = tid \<and> s = db_stra db r" if "r \<in> set (t_strategy db)" for r
    using tp [OF that] by (elim exE conjE) auto
  have mem: "s \<in> set (own_stras (db_stras db) tid) \<longleftrightarrow> (\<exists>r \<in> set (t_strategy db).
      s \<in> set (case st_Tpl (db_stra db r) of Some t \<Rightarrow> if tpl_Id t = tid then [db_stra db r] else [] | None \<Rightarrow> []))"
    by (simp add: own_stras_def db_stras_def)
  show ?thesis unfolding mem by (intro bex_cong refl one)
qed

definition flat_chain :: "hbs_tables \<Rightarrow> template \<Rightarrow> int list" where
  "flat_chain db t =
     (if gget (db_tpls db) (tpl_ParentId t) = None then [tpl_Id t] else [tpl_Id t, tpl_ParentId t])"

lemma flat_lineage:
  assumes s: "sound_tables db" and f: "flat_inheritance db endpoint" and t: "t \<in> set (bound_tpls db endpoint)"
  shows "lineage (db_tpls db) (tpl_Id t) (flat_chain db t)"
proof -
  have gt: "gget (db_tpls db) (tpl_Id t) = Some t" "0 < tpl_Id t"
    using bound_tpls_sub [OF t] s gget_db_tpls [OF s] by (auto simp: sound_tables_def)
  show ?thesis
  proof (cases "gget (db_tpls db) (tpl_ParentId t)")
    case None
    then have "lineage (db_tpls db) (tpl_ParentId t) []" by (simp add: lineage.stop)
    from lineage.up [OF gt(2,1) this] show ?thesis by (simp add: flat_chain_def None)
  next
    case (Some p)
    then have "tpl_ParentId p \<le> 0" "0 < tpl_ParentId t"
      using f t s gget_db_tpls [OF s] by (auto simp: flat_inheritance_def sound_tables_def)
    then have "lineage (db_tpls db) (tpl_ParentId t) [tpl_ParentId t]"
      using Some by (intro lineage.up [OF _ Some] lineage.stop) simp_all
    from lineage.up [OF gt(2,1) this] show ?thesis by (simp add: flat_chain_def Some)
  qed
qed

lemma flat_in_force:
  assumes s: "sound_tables db" and f: "flat_inheritance db endpoint" and t: "t \<in> set (bound_tpls db endpoint)"
  shows "in_force_on (db_tpls db) (db_stras db) (tpl_Id t) v \<longleftrightarrow>
    (\<exists>r \<in> set (t_strategy db). v = db_stra db r \<and> (sr_tpl_id r = tpl_Id t \<or> sr_tpl_id r = tpl_ParentId t))"
    (is "_ \<longleftrightarrow> ?rhs")
proof -
  have "in_force_on (db_tpls db) (db_stras db) (tpl_Id t) v \<longleftrightarrow>
      v \<in> set (in_force (db_stras db) (flat_chain db t) (stra_uuid v))"
    using flat_lineage [OF s f t] lineage_unique unfolding in_force_on_def by blast
  also have "\<dots> \<longleftrightarrow> v \<in> set (own_stras (db_stras db) (tpl_Id t)) \<or> v \<in> set (own_stras (db_stras db) (tpl_ParentId t))"
  proof (cases "gget (db_tpls db) (tpl_ParentId t)")
    case None
    then have "v \<notin> set (own_stras (db_stras db) (tpl_ParentId t))"
      using s by (auto simp: own_db_stras [OF s] sound_tables_def)
    then show ?thesis by (auto simp: flat_chain_def None Let_def filter_empty_conv)
  next
    case (Some p)
    have "filter (\<lambda>s. stra_uuid s = stra_uuid v) (own_stras (db_stras db) (tpl_Id t)) = []"
      if "v \<in> set (own_stras (db_stras db) (tpl_ParentId t))"
      using that f t by (fastforce simp: own_db_stras [OF s] filter_empty_conv flat_inheritance_def)
    then show ?thesis by (auto simp: flat_chain_def Some Let_def filter_empty_conv)
  qed
  also have "\<dots> \<longleftrightarrow> ?rhs" by (auto simp: own_db_stras [OF s])
  finally show ?thesis .
qed

lemma flat_parent:
  assumes s: "sound_tables db" and f: "flat_inheritance db endpoint"
    and t: "t \<in> set (bound_tpls db endpoint)" "t' \<in> set (bound_tpls db endpoint)"
    and p: "tpl_Id t' = tpl_ParentId t"
  shows "tpl_ParentId t' \<le> 0"
proof -
  have "gget (db_tpls db) (tpl_ParentId t) = Some t'"
    using bound_tpls_sub [OF t(2)] p by (simp add: gget_db_tpls [OF s])
  then show ?thesis using f t(1) by (simp add: flat_inheritance_def)
qed

lemma flat_youngest:
  assumes s: "sound_tables db" and f: "flat_inheritance db endpoint"
  shows "youngest (db_tpls db) (host_tids db endpoint) tid \<longleftrightarrow>
    (\<exists>t \<in> set (bound_tpls db endpoint). tpl_Id t = tid \<and>
       (\<forall>t' \<in> set (bound_tpls db endpoint). tpl_Id t' \<noteq> tid \<longrightarrow> tpl_ParentId t' \<noteq> tid))"
proof -
  have pos: "0 < tpl_Id t \<and> gget (db_tpls db) (tpl_Id t) = Some t" if "t \<in> set (bound_tpls db endpoint)" for t
    using bound_tpls_sub [OF that] s gget_db_tpls [OF s] by (auto simp: sound_tables_def)
  have chain: "(\<forall>xs. lineage (db_tpls db) (tpl_Id t') xs \<longrightarrow> tpl_Id t \<notin> set xs) \<longleftrightarrow> tpl_ParentId t' \<noteq> tpl_Id t"
    if "t \<in> set (bound_tpls db endpoint)" "t' \<in> set (bound_tpls db endpoint)" "tpl_Id t' \<noteq> tpl_Id t" for t t'
  proof -
    have "lineage (db_tpls db) (tpl_Id t') xs \<longleftrightarrow> xs = flat_chain db t'" for xs
      using flat_lineage [OF s f that(2)] lineage_unique by blast
    then have "(\<forall>xs. lineage (db_tpls db) (tpl_Id t') xs \<longrightarrow> tpl_Id t \<notin> set xs) \<longleftrightarrow> tpl_Id t \<notin> set (flat_chain db t')"
      by simp
    also have "\<dots> \<longleftrightarrow> tpl_ParentId t' \<noteq> tpl_Id t"
      using that(3) pos [OF that(1)] by (auto simp: flat_chain_def)
    finally show ?thesis .
  qed
  show ?thesis
  proof
    assume "youngest (db_tpls db) (host_tids db endpoint) tid"
    then obtain t where t: "t \<in> set (bound_tpls db endpoint)" "tpl_Id t = tid"
      and y: "\<forall>t' \<in> set (bound_tpls db endpoint). tpl_Id t' \<noteq> tid \<longrightarrow>
        (\<forall>xs. lineage (db_tpls db) (tpl_Id t') xs \<longrightarrow> tid \<notin> set xs)"
      by (auto simp: youngest_def host_tids_def)
    have "\<forall>t' \<in> set (bound_tpls db endpoint). tpl_Id t' \<noteq> tid \<longrightarrow> tpl_ParentId t' \<noteq> tid"
      using y chain [OF t(1)] unfolding t(2) by blast
    with t show "\<exists>t \<in> set (bound_tpls db endpoint). tpl_Id t = tid \<and>
        (\<forall>t' \<in> set (bound_tpls db endpoint). tpl_Id t' \<noteq> tid \<longrightarrow> tpl_ParentId t' \<noteq> tid)" by blast
  next
    assume "\<exists>t \<in> set (bound_tpls db endpoint). tpl_Id t = tid \<and>
        (\<forall>t' \<in> set (bound_tpls db endpoint). tpl_Id t' \<noteq> tid \<longrightarrow> tpl_ParentId t' \<noteq> tid)"
    then obtain t where t: "t \<in> set (bound_tpls db endpoint)" "tpl_Id t = tid"
      "\<forall>t' \<in> set (bound_tpls db endpoint). tpl_Id t' \<noteq> tid \<longrightarrow> tpl_ParentId t' \<noteq> tid" by blast
    then have "\<forall>t' \<in> set (bound_tpls db endpoint). tpl_Id t' \<noteq> tid \<longrightarrow>
        (\<forall>xs. lineage (db_tpls db) (tpl_Id t') xs \<longrightarrow> tid \<notin> set xs)"
      using chain [OF t(1)] by blast
    then show "youngest (db_tpls db) (host_tids db endpoint) tid"
      using pos [OF t(1)] t by (auto simp: youngest_def host_tids_def)
  qed
qed

lemma fold_rows_some: "fold_rows f (map Some rs) m = foldl (\<lambda>m r. f r m) m rs"
  by (induction rs arbitrary: m) simp_all

lemma foldl_snoc_map: "foldl (\<lambda>ss x. ss @ [g x]) acc xs = acc @ map g xs"
  by (induction xs arbitrary: acc) simp_all

lemma live_ids:
  "st_Id ` set (QueryStrategiesForOneEnd (Some db) endpoint) =
     {sr_id r |r t. r \<in> set (t_strategy db) \<and> t \<in> set (bound_tpls db endpoint) \<and>
        (sr_tpl_id r = tpl_Id t \<or> sr_tpl_id r = tpl_ParentId t)}"
proof -
  have "QueryStrategiesForOneEnd (Some db) endpoint =
      map (\<lambda>x. row_strategy (fst x) (snd (SplitTagsString (sr_tags (fst x)))) (Some (snd x))) (sql_one_end db endpoint)"
    using foldl_snoc_map [of "\<lambda>x. row_strategy (fst x) (snd (SplitTagsString (sr_tags (fst x)))) (Some (snd x))" "[]"]
    by (simp add: QueryStrategiesForOneEnd_def scan_joined_def fold_rows_some case_prod_unfold)
  then have "st_Id ` set (QueryStrategiesForOneEnd (Some db) endpoint) = (sr_id \<circ> fst) ` set (sql_one_end db endpoint)"
    by (simp add: image_image row_strategy_def o_def)
  also have "\<dots> = {sr_id r |r t. r \<in> set (t_strategy db) \<and> t \<in> set (bound_tpls db endpoint) \<and>
        (sr_tpl_id r = tpl_Id t \<or> sr_tpl_id r = tpl_ParentId t)}"
    by (force simp: sql_one_end_def image_iff)
  finally show ?thesis .
qed


definition demo_row :: "int \<Rightarrow> string \<Rightarrow> int \<Rightarrow> stra_row" where
  "demo_row i metric tid =
     \<lparr>sr_id = i, sr_metric = metric, sr_tags = '''', sr_func = ''all(#3)'', sr_op = ''>'',
      sr_right_value = 0, sr_max_step = 3, sr_priority = 0, sr_note = '''', sr_tpl_id = tid,
      sr_union_strategy_id = 0\<rparr>"

definition demo_tables :: "stra_row list \<Rightarrow> hbs_tables" where
  "demo_tables rows =
     \<lparr>t_strategy = rows, t_tpl = [demo_tpl 1 0, demo_tpl 2 1], t_grp = [5], t_grp_tpl = [(5, 2)],
      t_grp_host = [(5, 7)], t_host = [(7, ''web'')]\<rparr>"

lemma demo_tables_facts:
  "bound_tpls (demo_tables rows) ''web'' = [demo_tpl 2 1]" "db_tpls (demo_tables rows) = demo_tpls"
  "t_strategy (demo_tables rows) = rows"
  "sound_tables (demo_tables rows) \<longleftrightarrow> (\<forall>r \<in> set rows. gget demo_tpls (sr_tpl_id r) \<noteq> None)"
  by (simp_all add: bound_tpls_def demo_tables_def db_tpls_def demo_tpls_def sound_tables_def)

lemma demo_row_uuid: "sr_tpl_id (demo_row i m tid) = tid" "sr_id (demo_row i m tid) = i"
  "stra_uuid (db_stra db (demo_row i m tid)) = ''metric:'' @ m @ ''/tags:''"
  by (simp_all add: demo_row_def db_stra_def row_strategy_def stra_uuid_def SplitTagsString_def
      remove_spaces_def SortedTags_def)

lemma demo_live:
  "\<forall>r \<in> set rows. sr_tpl_id r \<in> {1, 2} \<Longrightarrow>
     st_Id ` set (QueryStrategiesForOneEnd (Some (demo_tables rows)) ''web'') = sr_id ` set rows"
  by (auto simp: live_ids demo_tables_facts)


text \<open>
  Where a child redefines a strategy of its parent, the query for one host returns both: judge raises
  alarms by the rule that the child was to replace.
\<close>

theorem live_strategies_not_overridden:
  "\<exists>db out. sound_tables db \<and> st_Id ` set (QueryStrategiesForOneEnd (Some db) ''web'') = {11, 21} \<and>
     CalcInheritStrategies (\<lambda>_ m. m) (db_tpls db) (host_tids db ''web'') (Tpl2Strategies (db_stras db)) = Inr out \<and>
     st_Id ` set out = {21}"
proof -
  let ?db = "demo_tables [demo_row 11 ''cpu'' 1, demo_row 21 ''cpu'' 2]"
  have s: "sound_tables ?db" by (simp add: demo_tables_facts demo_row_uuid demo_get)
  have tids: "host_tids ?db ''web'' = [2]" by (simp add: host_tids_def demo_tables_facts)
  have "short_chains demo_tpls [2]" by (simp add: short_chains_def demo_lineage_iff)
  from inherit_core [of "\<lambda>_ m. m" "[2]" demo_tpls "db_stras ?db", OF _ _ this] obtain out where out:
    "CalcInheritStrategies (\<lambda>_ m. m) demo_tpls [2] (Tpl2Strategies (db_stras ?db)) = Inr out"
    "st_Id ` set out = {st_Id v |v tid. youngest demo_tpls [2] tid \<and> in_force_on demo_tpls (db_stras ?db) tid v}"
    by (auto simp: permutes_def)
  have y: "youngest demo_tpls [2] tid \<longleftrightarrow> tid = 2" for tid
    by (auto simp: youngest_def demo_get)
  have own: "own_stras (db_stras ?db) 2 = [db_stra ?db (demo_row 21 ''cpu'' 2)]"
    "own_stras (db_stras ?db) 1 = [db_stra ?db (demo_row 11 ''cpu'' 1)]"
    by (simp_all add: own_stras_def db_stras_def demo_tables_facts db_stra_def row_strategy_def demo_get
        demo_row_def)
  have "in_force_on demo_tpls (db_stras ?db) 2 v \<longleftrightarrow> v = db_stra ?db (demo_row 21 ''cpu'' 2)" for v
    by (auto simp: in_force_on_def demo_lineage_iff own demo_row_uuid Let_def split: if_splits)
  then have "st_Id ` set out = {21}" unfolding out(2) y by (auto simp: demo_row_uuid)
  moreover have "st_Id ` set (QueryStrategiesForOneEnd (Some ?db) ''web'') = {11, 21}"
    by (simp add: demo_live demo_row_uuid)
  ultimately show ?thesis
    using s out(1) by (intro exI [of _ ?db] exI [of _ out]) (simp add: tids demo_tables_facts(2))
qed

theorem expression_text_roundtrip_witness:
  "\<exists>tags. parseExpression ''each(metric=cpu.idle module=judge)'' = Inr (''cpu.idle'', tags) \<and>
     gget tags = [''module'' \<mapsto> ''judge'']"
proof -
  have "\<exists>tags. parseExpression
      (''each'' @ ''('' @ join '' '' (map pair_text ((''metric'', ''cpu.idle'') # [(''module'', ''judge'')])) @ '')'' @ '''') =
        Inr (''cpu.idle'', tags) \<and> gget tags = gget [(''module'', ''judge'')]"
    by (rule expression_text_roundtrip) (simp_all add: clean_word_def is_space_def gwf_def)
  then show ?thesis by (simp add: pair_text_def fun_upd_def cong: if_cong)
qed

theorem bad_expression_stops_hbs_witness:
  "is_panic (queryExpressions (Some [Some (e, ''each(metric=cpu module=judge'')]))"
  using bad_expression_stops_hbs [of e "''each(metric=cpu module=judge''" "[Some (e, ''each(metric=cpu module=judge'')]"]
  by simp

end
