(* ===== verification/Go_Cache.thy ===== *)
theory Go_Cache
  imports Falcon_Prelude
begin

text \<open>
  The vendored cache with expiry, \<open>src/vendor/github.com/patrickmn/go-cache\<close>, behind the caches of hbs
  and of alarm. Times are in nanoseconds. The sweep that frees the memory of expired items changes no
  answer and is left out.
\<close>

record 'v cache_item =
  ci_Object :: 'v
  ci_Expiration :: int

type_synonym 'v gocache = "(string, 'v cache_item) gomap"

definition cache_Get :: "int \<Rightarrow> string \<Rightarrow> 'v gocache \<Rightarrow> 'v option" where
  "cache_Get now k c =
     (case gget c k of
        None \<Rightarrow> None
      | Some item \<Rightarrow>
          if ci_Expiration item > 0 then (if now > ci_Expiration item then None else Some (ci_Object item))
          else Some (ci_Object item))"

text \<open>The default expiry of a cache (none when it was made with 0), and a store with the duration \<open>d\<close>.\<close>

definition default_expiration :: "int \<Rightarrow> int" where
  "default_expiration de = (if de = 0 then -1 else de)"

definition cache_Set :: "int \<Rightarrow> int \<Rightarrow> string \<Rightarrow> 'v \<Rightarrow> int \<Rightarrow> 'v gocache \<Rightarrow> 'v gocache" where
  "cache_Set de now k x d c =
     (let d = (if d = 0 then default_expiration de else d);
          e = (if d > 0 then now + d else 0)
      in gput k \<lparr>ci_Object = x, ci_Expiration = e\<rparr> c)"

lemma cache_Set_other: "k' \<noteq> k \<Longrightarrow> cache_Get now k' (cache_Set de t k x d c) = cache_Get now k' c"
  by (simp add: cache_Get_def cache_Set_def Let_def)

lemma cache_Set_same:
  "0 < d \<Longrightarrow> 0 \<le> t \<Longrightarrow> cache_Get now k (cache_Set de t k x d c) = (if t + d < now then None else Some x)"
  by (simp add: cache_Get_def cache_Set_def Let_def)

section \<open>How old an answer can be\<close>

text \<open>
  A cache is honest at a time when every item in it is the answer of the source at a moment that
  is not later and a time to live before the expiry.
\<close>

definition honest :: "(int \<Rightarrow> string \<Rightarrow> 'v res) \<Rightarrow> int \<Rightarrow> int \<Rightarrow> 'v gocache \<Rightarrow> bool" where
  "honest query ttl now c \<longleftrightarrow> (\<forall>k item. gget c k = Some item \<longrightarrow>
     (\<exists>t. 0 \<le> t \<and> t \<le> now \<and> ci_Expiration item = t + ttl \<and> query t k = Inr (ci_Object item)))"

lemma honest_mono: "honest query ttl now c \<Longrightarrow> now \<le> now' \<Longrightarrow> honest query ttl now' c"
  unfolding honest_def by (meson order_trans)

lemma honest_empty [simp]: "honest query ttl now []"
  by (simp add: honest_def)

lemma honest_Set:
  assumes h: "honest query ttl now c" and ttl: "0 < ttl" and now: "0 \<le> now"
    and q: "query now k = Inr v"
  shows "honest query ttl now (cache_Set de now k v ttl c)"
  unfolding honest_def
proof (intro allI impI)
  fix k' item
  assume get: "gget (cache_Set de now k v ttl c) k' = Some item"
  show "\<exists>t. 0 \<le> t \<and> t \<le> now \<and> ci_Expiration item = t + ttl \<and> query t k' = Inr (ci_Object item)"
  proof (cases "k' = k")
    case True
    then show ?thesis using get ttl now q
      by (intro exI [of _ now]) (auto simp: cache_Set_def Let_def)
  next
    case False
    then have "gget c k' = Some item" using get by (simp add: cache_Set_def Let_def)
    then show ?thesis using h by (simp add: honest_def)
  qed
qed

lemma honest_Get:
  assumes h: "honest query ttl now c" and ttl: "0 < ttl" and g: "cache_Get now k c = Some v"
  shows "\<exists>t. now - ttl \<le> t \<and> t \<le> now \<and> query t k = Inr v"
proof -
  obtain item where item: "gget c k = Some item" "ci_Object item = v"
    "\<not> (ci_Expiration item > 0 \<and> now > ci_Expiration item)"
    using g by (auto simp: cache_Get_def split: option.splits if_splits)
  from h item(1) obtain t where t: "0 \<le> t" "t \<le> now" "ci_Expiration item = t + ttl" "query t k = Inr v"
    unfolding honest_def item(2) [symmetric] by blast
  have "now - ttl \<le> t" using item(3) t(1,3) ttl by auto
  with t show ?thesis by blast
qed

end
