(* ===== verification/Hbs_Agent.thy ===== *)
theory Hbs_Agent
  imports Hbs_Query Go_Cache
begin

text \<open>
  Module hbs, packages \<open>cache\<close> and \<open>rpc\<close>: what the heartbeats of agents and the requests of judge are
  answered with. Five caches (vendored \<open>go-cache\<close>) keep the answers of the database for a time; the
  table of agents, the agents that are being upgraded (a set in redis, seen through the answers of
  its commands), the checksum of the metrics an agent has to collect. Times of the caches are in
  nanoseconds.
\<close>

section \<open>Answers through a cache\<close>

text \<open>A lookup that asks the database when the cache has no answer, which may panic. The caches are
  made before the configuration is read, so their default is no expiry; the time to live that is read
  later is positive.\<close>

definition through_cache :: "int \<Rightarrow> int \<Rightarrow> string \<Rightarrow> 'v res \<Rightarrow> 'v gocache \<Rightarrow> ('v \<times> 'v gocache) res" where
  "through_cache now ttl k query c =
     (case cache_Get now k c of
        Some v \<Rightarrow> Inr (v, c)
      | None \<Rightarrow> bind_res query (\<lambda>v. Inr (v, cache_Set 0 now k v ttl c)))"

section \<open>State\<close>

record agent_report =
  ar_Hostname :: string
  ar_IP :: string
  ar_AgentVersion :: string
  ar_PluginVersion :: string
  ar_InUpgrading :: bool

record agent_info =
  ai_LastUpdate :: int
  ai_ReportRequest :: agent_report

record upgrade_args =
  up_Type :: int
  up_WgetUrl :: string
  up_Version :: string
  up_BinFileMd5 :: string
  up_CfgFileMd5 :: string

record hbs_state =
  HostMaintainCache :: "bool gocache"
  HostSSCache :: "strategy list gocache"
  UnionStrategiesCache :: "strategy list gocache"
  HostSpecialMetricCache :: "builtin_metric list gocache"
  HostPluginCache :: "string list gocache"
  hb_Agents :: "(string, agent_info) gomap"
  NewAgentUpgradeArgs :: upgrade_args
  NowAgentVersionMap :: "(string, string) gomap"
  HostMap :: "(string, int) gomap"
  HostGroupsMap :: "(int, int list) gomap"
  GroupTemplates :: "(int, int list) gomap"
  GroupPlugins :: "(int, string list) gomap"
  hb_DynamicConfig :: "(string, dynamic_config list) gomap"
  hb_Services :: "(string, string) gomap"
  hb_Expressions :: "expression list"
  hb_Maps :: hbs_maps
  hb_UnionStrategies :: "(int, strategy list) gomap"

text \<open>The database, as the requests see it: \<open>None\<close> when its query fails.\<close>

record hbs_db =
  db_maintain :: "string \<Rightarrow> (int \<times> string) answer"
  db_tables :: "hbs_tables option"
  db_special :: "string \<Rightarrow> builtin_metric answer"
  db_plugins :: "string \<Rightarrow> string answer"

definition JudgeHostMaintain :: "hbs_db \<Rightarrow> int \<Rightarrow> int \<Rightarrow> string \<Rightarrow> hbs_state \<Rightarrow> (bool \<times> hbs_state) res" where
  "JudgeHostMaintain db now ttl hostname s =
     bind_res (through_cache now ttl hostname (QueryHostMaintain (db_maintain db hostname) hostname) (HostMaintainCache s))
       (\<lambda>(v, c). Inr (v, s\<lparr>HostMaintainCache := c\<rparr>))"

definition JudgeHostStrategies1 :: "hbs_db \<Rightarrow> int \<Rightarrow> int \<Rightarrow> string \<Rightarrow> hbs_state \<Rightarrow> (strategy list \<times> hbs_state) res" where
  "JudgeHostStrategies1 db now ttl hostname s =
     bind_res (through_cache now ttl hostname (Inr (QueryStrategiesForOneEnd (db_tables db) hostname)) (HostSSCache s))
       (\<lambda>(v, c). Inr (v, s\<lparr>HostSSCache := c\<rparr>))"

definition JudgeUnionStrategies :: "hbs_db \<Rightarrow> int \<Rightarrow> int \<Rightarrow> int \<Rightarrow> hbs_state \<Rightarrow> (strategy list \<times> hbs_state) res" where
  "JudgeUnionStrategies db now ttl unionId s =
     bind_res (through_cache now ttl (itoa unionId) (Inr (QueryUnionStrategiesByUnionId (db_tables db) unionId))
         (UnionStrategiesCache s))
       (\<lambda>(v, c). Inr (v, s\<lparr>UnionStrategiesCache := c\<rparr>))"

definition JudgeHostSpecialMetric :: "hbs_db \<Rightarrow> int \<Rightarrow> int \<Rightarrow> string \<Rightarrow> hbs_state \<Rightarrow> (builtin_metric list \<times> hbs_state) res" where
  "JudgeHostSpecialMetric db now ttl hostname s =
     bind_res (through_cache now ttl hostname (Inr (QueryHostSpecialMetric (db_special db hostname)))
         (HostSpecialMetricCache s))
       (\<lambda>(v, c). Inr (v, s\<lparr>HostSpecialMetricCache := c\<rparr>))"

definition JudgeHostPlugin :: "hbs_db \<Rightarrow> int \<Rightarrow> int \<Rightarrow> string \<Rightarrow> hbs_state \<Rightarrow> (string list \<times> hbs_state) res" where
  "JudgeHostPlugin db now ttl hostname s =
     bind_res (through_cache now ttl hostname (Inr (QueryPluginsForEnd (db_plugins db hostname))) (HostPluginCache s))
       (\<lambda>(v, c). Inr (v, s\<lparr>HostPluginCache := c\<rparr>))"

section \<open>Requests of judge\<close>

definition GetOneEndStrategies :: "hbs_db \<Rightarrow> int \<Rightarrow> int \<Rightarrow> string \<Rightarrow> hbs_state \<Rightarrow> (strategy list \<times> hbs_state) res" where
  "GetOneEndStrategies db now ttl endpoint s =
     bind_res (JudgeHostMaintain db now ttl endpoint s) (\<lambda>(r, s).
       if r then Inr ([], s) else JudgeHostStrategies1 db now ttl endpoint s)"

definition GetOneUnionStrategies :: "hbs_db \<Rightarrow> int \<Rightarrow> int \<Rightarrow> int \<Rightarrow> hbs_state \<Rightarrow> (strategy list \<times> hbs_state) res" where
  "GetOneUnionStrategies db now ttl i s = JudgeUnionStrategies db now ttl i s"

definition GetExpressions :: "hbs_state \<Rightarrow> expression list" where
  "GetExpressions s = hb_Expressions s"

definition GetUnionStrategies :: "hbs_state \<Rightarrow> (int, strategy list) gomap" where
  "GetUnionStrategies s = hb_UnionStrategies s"

section \<open>The maps that are refreshed once a minute\<close>

text \<open>An error leaves the old map in place.\<close>

definition refresh :: "'m res \<Rightarrow> 'm \<Rightarrow> 'm" where
  "refresh r m = (case r of Inl e \<Rightarrow> m | Inr m' \<Rightarrow> m')"

definition ExpressionCache_Init :: "expression list res \<Rightarrow> hbs_state \<Rightarrow> hbs_state" where
  "ExpressionCache_Init r s = s\<lparr>hb_Expressions := refresh r (hb_Expressions s)\<rparr>"

definition Services_Init :: "(string, string) gomap res \<Rightarrow> hbs_state \<Rightarrow> hbs_state" where
  "Services_Init r s = s\<lparr>hb_Services := refresh r (hb_Services s)\<rparr>"

definition HostMap_Init :: "(string, int) gomap res \<Rightarrow> hbs_state \<Rightarrow> hbs_state" where
  "HostMap_Init r s = s\<lparr>HostMap := refresh r (HostMap s)\<rparr>"

definition HostGroupsMap_Init :: "(int, int list) gomap res \<Rightarrow> hbs_state \<Rightarrow> hbs_state" where
  "HostGroupsMap_Init r s = s\<lparr>HostGroupsMap := refresh r (HostGroupsMap s)\<rparr>"

definition GroupTemplates_Init :: "(int, int list) gomap res \<Rightarrow> hbs_state \<Rightarrow> hbs_state" where
  "GroupTemplates_Init r s = s\<lparr>GroupTemplates := refresh r (GroupTemplates s)\<rparr>"

definition GroupPlugins_Init :: "(int, string list) gomap res \<Rightarrow> hbs_state \<Rightarrow> hbs_state" where
  "GroupPlugins_Init r s = s\<lparr>GroupPlugins := refresh r (GroupPlugins s)\<rparr>"

definition DynamicConfig_Init :: "(string, dynamic_config list) gomap res \<Rightarrow> hbs_state \<Rightarrow> hbs_state" where
  "DynamicConfig_Init r s = s\<lparr>hb_DynamicConfig := refresh r (hb_DynamicConfig s)\<rparr>"

definition TemplateCache_Init :: "templates res \<Rightarrow> hbs_state \<Rightarrow> hbs_state" where
  "TemplateCache_Init r s = s\<lparr>hb_Maps := (hb_Maps s)\<lparr>TemplateCache := refresh r (TemplateCache (hb_Maps s))\<rparr>\<rparr>"

definition HostTemplateIds_Init :: "(int, int list) gomap res \<Rightarrow> hbs_state \<Rightarrow> hbs_state" where
  "HostTemplateIds_Init r s = s\<lparr>hb_Maps := (hb_Maps s)\<lparr>HostTemplateIds := refresh r (HostTemplateIds (hb_Maps s))\<rparr>\<rparr>"

definition MonitoredHosts_Init :: "(int, host) gomap res \<Rightarrow> hbs_state \<Rightarrow> hbs_state" where
  "MonitoredHosts_Init r s = s\<lparr>hb_Maps := (hb_Maps s)\<lparr>MonitoredHosts := refresh r (MonitoredHosts (hb_Maps s))\<rparr>\<rparr>"

definition Strategies_Init :: "((int, strategy) gomap \<times> (int, strategy list) gomap) res \<Rightarrow> hbs_state \<Rightarrow> hbs_state" where
  "Strategies_Init r s =
     (case r of
        Inl e \<Rightarrow> s
      | Inr (m, unionM) \<Rightarrow>
          s\<lparr>hb_UnionStrategies := unionM, hb_Maps := (hb_Maps s)\<lparr>Strategies := map (\<lambda>(i, x). (i, Some x)) m\<rparr>\<rparr>)"

fun add_all :: "'a list \<Rightarrow> 'a list \<Rightarrow> 'a list" where
  "add_all [] set1 = set1"
| "add_all (x # xs) set1 = add_all xs (if x \<in> set set1 then set1 else set1 @ [x])"

fun groups_items :: "(int, 'a list) gomap \<Rightarrow> int list \<Rightarrow> 'a list \<Rightarrow> 'a list" where
  "groups_items m [] acc = acc"
| "groups_items m (gid # gids) acc =
     (case gget m gid of None \<Rightarrow> groups_items m gids acc | Some xs \<Rightarrow> groups_items m gids (add_all xs acc))"

text \<open>The templates whose metrics a host has to collect: those bound to it and all their ancestors.\<close>

definition builtin_tids :: "hbs_state \<Rightarrow> string \<Rightarrow> int list" where
  "builtin_tids s hostname =
     (case gget (HostMap s) hostname of
        None \<Rightarrow> []
      | Some hid \<Rightarrow>
          (case gget (HostGroupsMap s) hid of
             None \<Rightarrow> []
           | Some gids \<Rightarrow>
               let tids = groups_items (GroupTemplates s) gids []
               in foldl (\<lambda>acc tid. add_all (ParentIds (TemplateCache (hb_Maps s)) tid) acc) tids tids))"

definition GetBuiltinMetrics :: "(int list \<Rightarrow> builtin_metric answer) \<Rightarrow> string \<Rightarrow> hbs_state \<Rightarrow> builtin_metric list res" where
  "GetBuiltinMetrics query hostname s =
     (if builtin_tids s hostname = [] then Inr [] else QueryBuiltinMetrics (query (builtin_tids s hostname)))"

definition GetPlugins :: "string \<Rightarrow> hbs_state \<Rightarrow> string list" where
  "GetPlugins hostname s =
     (case gget (HostMap s) hostname of
        None \<Rightarrow> []
      | Some hid \<Rightarrow>
          (case gget (HostGroupsMap s) hid of
             None \<Rightarrow> []
           | Some gids \<Rightarrow> sort (groups_items (GroupPlugins s) gids [])))"

section \<open>Agents\<close>

text \<open>The row of the host table is updated when an agent is seen for the first time.\<close>

definition Agents_Put :: "int \<Rightarrow> agent_report \<Rightarrow> hbs_state \<Rightarrow> agent_info option \<times> hbs_state" where
  "Agents_Put now req s =
     (let val = \<lparr>ai_LastUpdate = now, ai_ReportRequest = req\<rparr>;
          upd = (case gget (hb_Agents s) (ar_Hostname req) of None \<Rightarrow> Some val | Some _ \<Rightarrow> None)
      in (upd, s\<lparr>hb_Agents := gput (ar_Hostname req) val (hb_Agents s)\<rparr>))"

definition Agents_Get :: "string \<Rightarrow> hbs_state \<Rightarrow> agent_info option" where
  "Agents_Get hostname s = gget (hb_Agents s) hostname"

definition Agents_Delete :: "string \<Rightarrow> hbs_state \<Rightarrow> hbs_state" where
  "Agents_Delete hostname s = s\<lparr>hb_Agents := gdel hostname (hb_Agents s)\<rparr>"

definition Agents_Keys :: "hbs_state \<Rightarrow> string list" where
  "Agents_Keys s = gkeys (hb_Agents s)"

definition AgentVersions :: "hbs_state \<Rightarrow> (string, string) gomap" where
  "AgentVersions s = map (\<lambda>(h, i). (h, ar_AgentVersion (ai_ReportRequest i))) (hb_Agents s)"

definition GetAgents :: "hbs_state \<Rightarrow> string list" where
  "GetAgents s = Agents_Keys s"

fun stale_loop :: "int \<Rightarrow> string list \<Rightarrow> hbs_state \<Rightarrow> hbs_state res" where
  "stale_loop before [] s = Inr s"
| "stale_loop before (k # ks) s =
     (case Agents_Get k s of
        None \<Rightarrow> nil_deref
      | Some info \<Rightarrow>
          if ai_LastUpdate info < before
          then stale_loop before ks
                 (Agents_Delete (ar_Hostname (ai_ReportRequest info))
                    (s\<lparr>NowAgentVersionMap := gdel (ar_Hostname (ai_ReportRequest info)) (NowAgentVersionMap s)\<rparr>))
          else stale_loop before ks s)"

definition deleteStaleAgents :: "int \<Rightarrow> int \<Rightarrow> hbs_state \<Rightarrow> hbs_state res" where
  "deleteStaleAgents now cleanInterval s =
     (let before = now - 60 * 10 * cleanInterval; keys = Agents_Keys s
      in if length keys = 0 then Inr s else stale_loop before keys s)"

section \<open>Requests of agents\<close>

text \<open>Commands on the set of agents in upgrade; the answers are arguments, \<open>None\<close> for an error.\<close>

datatype upgrade_cmd = SREM string | SCARD | SADD string | EXPIRE_SET int

record report_reply =
  rr_Code :: int
  rr_Args :: "upgrade_args option"

definition ReportStatus :: "int \<Rightarrow> int \<Rightarrow> int \<Rightarrow> int option \<Rightarrow> bool \<Rightarrow> agent_report \<Rightarrow> hbs_state
    \<Rightarrow> report_reply \<times> upgrade_cmd list \<times> hbs_state" where
  "ReportStatus now queueLength setExpire scard sadd_ok args s =
     (if ar_Hostname args = '''' then (\<lparr>rr_Code = 1, rr_Args = None\<rparr>, [], s)
      else
        let s = s\<lparr>NowAgentVersionMap := gput (ar_Hostname args) (ar_AgentVersion args) (NowAgentVersionMap s)\<rparr>;
            s = snd (Agents_Put now args s);
            no = \<lparr>rr_Code = 0, rr_Args = None\<rparr>
        in if up_Version (NewAgentUpgradeArgs s) = '''' then (no, [], s)
           else if ar_AgentVersion args = up_Version (NewAgentUpgradeArgs s)
           then (no, [SREM (ar_Hostname args)], s)
           else if ar_InUpgrading args then (no, [], s)
           else
             (let inUpgradeNum = (case scard of None \<Rightarrow> 0 | Some n \<Rightarrow> n)
              in if 0 \<le> inUpgradeNum \<and> inUpgradeNum < queueLength
                 then (if \<not> sadd_ok then (no, [SCARD, SADD (ar_Hostname args)], s)
                       else (\<lparr>rr_Code = 0, rr_Args = Some (NewAgentUpgradeArgs s)\<rparr>,
                             [SCARD, SADD (ar_Hostname args), EXPIRE_SET setExpire], s))
                 else (no, [SCARD], s)))"

definition MinePlugins :: "hbs_db \<Rightarrow> int \<Rightarrow> int \<Rightarrow> string \<Rightarrow> hbs_state \<Rightarrow> (string list \<times> hbs_state) res" where
  "MinePlugins db now ttl hostname s =
     (if hostname = '''' then Inr ([], s) else JudgeHostPlugin db now ttl hostname s)"

definition BuiltinMetric_String :: "builtin_metric \<Rightarrow> string" where
  "BuiltinMetric_String b = bm_Metric b @ ''/'' @ bm_Tags b"

definition DigestBuiltinMetrics :: "builtin_metric list \<Rightarrow> string" where
  "DigestBuiltinMetrics ms = Md5 (concat (map BuiltinMetric_String (sort_key BuiltinMetric_String ms)))"

record builtin_reply =
  br_Metrics :: "builtin_metric list"
  br_Checksum :: string

text \<open>The digest sorts in place, so what the cache holds is sorted too.\<close>

definition sort_cached :: "string \<Rightarrow> hbs_state \<Rightarrow> hbs_state" where
  "sort_cached hostname s =
     (case gget (HostSpecialMetricCache s) hostname of
        None \<Rightarrow> s
      | Some item \<Rightarrow> s\<lparr>HostSpecialMetricCache := gput hostname
            (item\<lparr>ci_Object := sort_key BuiltinMetric_String (ci_Object item)\<rparr>) (HostSpecialMetricCache s)\<rparr>)"

definition BuiltinMetrics :: "hbs_db \<Rightarrow> int \<Rightarrow> int \<Rightarrow> string \<Rightarrow> string \<Rightarrow> hbs_state \<Rightarrow> (builtin_reply \<times> hbs_state) res" where
  "BuiltinMetrics db now ttl hostname sum1 s =
     (if hostname = '''' then Inr (\<lparr>br_Metrics = [], br_Checksum = ''''\<rparr>, s)
      else bind_res (JudgeHostSpecialMetric db now ttl hostname s) (\<lambda>(metrics, s).
        let checksum = (if length metrics > 0 then DigestBuiltinMetrics metrics else '''');
            s = sort_cached hostname s
        in if sum1 = checksum then Inr (\<lparr>br_Metrics = [], br_Checksum = checksum\<rparr>, s)
           else Inr (\<lparr>br_Metrics = sort_key BuiltinMetric_String metrics, br_Checksum = checksum\<rparr>, s)))"

definition DynamicMonitoring :: "string \<Rightarrow> hbs_state \<Rightarrow> int \<times> (string, int) gomap" where
  "DynamicMonitoring hostname s =
     (if hostname = '''' then (1, [])
      else (0, foldl (\<lambda>m cfg. gput (dc_Metrics cfg) (dc_Interval cfg) m) []
              (case gget (hb_DynamicConfig s) hostname of None \<Rightarrow> [] | Some cfgs \<Rightarrow> cfgs)))"

definition SyncServiceNames :: "string \<Rightarrow> hbs_state \<Rightarrow> int \<times> string" where
  "SyncServiceNames hostname s =
     (if hostname = '''' then (1, '''')
      else case gget (hb_Services s) hostname of
             None \<Rightarrow> (2, '''')
           | Some svns \<Rightarrow> if svns = '''' then (2, '''') else (0, svns))"

definition TrustableIps :: "string list \<Rightarrow> string" where
  "TrustableIps trustable = join '','' trustable"

text \<open>The page that starts or cancels an upgrade; the answer is the status code.\<close>

definition agent_upgrade :: "string \<Rightarrow> string \<Rightarrow> upgrade_args option \<Rightarrow> hbs_state \<Rightarrow> int \<times> hbs_state" where
  "agent_upgrade meth remoteAddr body s =
     (if meth = ''DELETE''
      then (200, s\<lparr>NewAgentUpgradeArgs := \<lparr>up_Type = 0, up_WgetUrl = '''', up_Version = '''',
              up_BinFileMd5 = '''', up_CfgFileMd5 = ''''\<rparr>\<rparr>)
      else if meth \<noteq> ''POST'' then (405, s)
      else if \<not> starts_with ''127.0.0.1'' remoteAddr then (403, s)
      else case body of
        None \<Rightarrow> (400, s)
      | Some args \<Rightarrow>
          if up_WgetUrl args = '''' \<or> up_Version args = '''' then (400, s)
          else if up_Type args = 0 \<and> up_BinFileMd5 args = '''' then (400, s)
          else if up_Type args = 1 \<and> up_CfgFileMd5 args = '''' then (400, s)
          else if up_Type args = 2 \<and> (up_BinFileMd5 args = '''' \<or> up_CfgFileMd5 args = '''') then (400, s)
          else (200, s\<lparr>NewAgentUpgradeArgs := args\<rparr>))"

section \<open>How old an answer can be\<close>

lemma through_cache_honest:
  assumes h: "honest query ttl now c" and "0 < ttl" "0 \<le> now"
    and r: "through_cache now ttl k (query now k) c = Inr (v, c')"
  shows "honest query ttl now c' \<and> (\<exists>t. now - ttl \<le> t \<and> t \<le> now \<and> query t k = Inr v)"
proof (cases "cache_Get now k c")
  case None
  then have "query now k = Inr v" "c' = cache_Set 0 now k v ttl c"
    using r by (auto simp: through_cache_def)
  with honest_Set [OF h assms(2,3), of k v 0] assms(2,3) show ?thesis
    by (auto intro!: exI [of _ now])
next
  case (Some w)
  then have "c' = c" "w = v" using r by (auto simp: through_cache_def)
  with h honest_Get [OF h assms(2) Some] show ?thesis by simp
qed

text \<open>The requests of judge for hosts, one after the other; the database changes over time.\<close>

fun serve_ends :: "(int \<Rightarrow> hbs_db) \<Rightarrow> int \<Rightarrow> (int \<times> string) list \<Rightarrow> hbs_state \<Rightarrow> strategy list list res" where
  "serve_ends D ttl [] s = Inr []"
| "serve_ends D ttl ((now, endpoint) # reqs) s =
     bind_res (GetOneEndStrategies (D now) now ttl endpoint s) (\<lambda>(ss, s).
       bind_res (serve_ends D ttl reqs s) (\<lambda>rest. Inr (ss # rest)))"

definition maintain_at :: "(int \<Rightarrow> hbs_db) \<Rightarrow> int \<Rightarrow> string \<Rightarrow> bool res" where
  "maintain_at D t h = QueryHostMaintain (db_maintain (D t) h) h"

definition strategies_at :: "(int \<Rightarrow> hbs_db) \<Rightarrow> int \<Rightarrow> string \<Rightarrow> strategy list res" where
  "strategies_at D t h = Inr (QueryStrategiesForOneEnd (db_tables (D t)) h)"

text \<open>An answer is right when the host was in maintenance, or had these strategies, a moment ago.\<close>

definition recent_answer :: "(int \<Rightarrow> hbs_db) \<Rightarrow> int \<Rightarrow> int \<times> string \<Rightarrow> strategy list \<Rightarrow> bool" where
  "recent_answer D ttl = (\<lambda>(now, h) ss.
     \<exists>t1 t2. {t1, t2} \<subseteq> {now - ttl..now} \<and>
       (maintain_at D t1 h = Inr True \<and> ss = [] \<or>
        maintain_at D t1 h = Inr False \<and> strategies_at D t2 h = Inr ss))"

definition honest_hbs :: "(int \<Rightarrow> hbs_db) \<Rightarrow> int \<Rightarrow> int \<Rightarrow> hbs_state \<Rightarrow> bool" where
  "honest_hbs D ttl now s \<longleftrightarrow> honest (maintain_at D) ttl now (HostMaintainCache s) \<and>
     honest (strategies_at D) ttl now (HostSSCache s)"

lemma one_end_step:
  assumes h: "honest_hbs D ttl now s" and t: "0 < ttl" "0 \<le> now"
    and r: "GetOneEndStrategies (D now) now ttl endpoint s = Inr (ss, s')"
  shows "honest_hbs D ttl now s' \<and> recent_answer D ttl (now, endpoint) ss"
proof -
  from r obtain b c where b: "through_cache now ttl endpoint (maintain_at D now endpoint) (HostMaintainCache s) = Inr (b, c)"
    and rest: "(if b then Inr ([], s\<lparr>HostMaintainCache := c\<rparr>)
      else JudgeHostStrategies1 (D now) now ttl endpoint (s\<lparr>HostMaintainCache := c\<rparr>)) = Inr (ss, s')"
    by (auto simp: GetOneEndStrategies_def JudgeHostMaintain_def maintain_at_def)
  from h have hm: "honest (maintain_at D) ttl now (HostMaintainCache s)"
    and hs: "honest (strategies_at D) ttl now (HostSSCache s)" by (simp_all add: honest_hbs_def)
  from through_cache_honest [OF hm t b] obtain t1 where c: "honest (maintain_at D) ttl now c"
    and t1: "now - ttl \<le> t1" "t1 \<le> now" "maintain_at D t1 endpoint = Inr b" by blast
  show ?thesis
  proof (cases b)
    case True
    then show ?thesis using rest c hs t1 by (auto simp: honest_hbs_def recent_answer_def)
  next
    case False
    with rest obtain c2 where c2: "through_cache now ttl endpoint (strategies_at D now endpoint) (HostSSCache s) = Inr (ss, c2)"
      and s': "s' = s\<lparr>HostMaintainCache := c, HostSSCache := c2\<rparr>"
      by (auto simp: JudgeHostStrategies1_def strategies_at_def)
    from through_cache_honest [OF hs t c2] obtain t2 where "honest (strategies_at D) ttl now c2"
      "now - ttl \<le> t2" "t2 \<le> now" "strategies_at D t2 endpoint = Inr ss" by blast
    then show ?thesis using s' c t1 False by (auto simp: honest_hbs_def recent_answer_def)
  qed
qed

lemma honest_hbs_mono: "honest_hbs D ttl now s \<Longrightarrow> now \<le> now' \<Longrightarrow> honest_hbs D ttl now' s"
  unfolding honest_hbs_def by (simp add: honest_mono [of _ ttl now _ now'])

text \<open>
  C27: Whatever the database does over time, every answer to judge for a host is at most a time to live
  old: maintenance begins and ends, and rules change, within it.
\<close>

theorem answers_recent:
  assumes "0 < ttl" and "sorted (map fst reqs)" "\<forall>(t, h) \<in> set reqs. 0 \<le> t"
    and "HostMaintainCache s = []" "HostSSCache s = []" and "serve_ends D ttl reqs s = Inr outs"
  shows "list_all2 (recent_answer D ttl) reqs outs"
proof -
  have "list_all2 (recent_answer D ttl) reqs outs"
    if "honest_hbs D ttl t0 s" "\<forall>(t, h) \<in> set reqs. t0 \<le> t" "sorted (map fst reqs)"
      "\<forall>(t, h) \<in> set reqs. 0 \<le> t" "serve_ends D ttl reqs s = Inr outs" for t0
    using that
  proof (induction reqs arbitrary: s outs t0)
    case (Cons r reqs)
    obtain now h where r: "r = (now, h)" by (cases r)
    from Cons.prems(5) r obtain ss s' rest where step: "GetOneEndStrategies (D now) now ttl h s = Inr (ss, s')"
      and rest: "serve_ends D ttl reqs s' = Inr rest" and ans: "outs = ss # rest" by auto
    have "honest_hbs D ttl now s" using Cons.prems(1,2) r honest_hbs_mono by auto
    from one_end_step [OF this assms(1) _ step] Cons.prems(4) r
    have s': "honest_hbs D ttl now s'" and "recent_answer D ttl (now, h) ss" by auto
    moreover have "list_all2 (recent_answer D ttl) reqs rest"
      by (rule Cons.IH [OF s' _ _ _ rest]) (use Cons.prems(3,4) r in auto)
    ultimately show ?case by (simp add: ans r)
  qed simp
  moreover have "honest_hbs D ttl 0 s" using assms(4,5) by (simp add: honest_hbs_def)
  ultimately show ?thesis using assms by fast
qed

text \<open>When the query for maintenance fails, the request panics, and with it the server.\<close>

theorem failed_query_panics:
  assumes "cache_Get now endpoint (HostMaintainCache s) = None" "db_maintain db endpoint = None"
  shows "is_panic (GetOneEndStrategies db now ttl endpoint s)"
  using assms by (simp add: GetOneEndStrategies_def JudgeHostMaintain_def through_cache_def QueryHostMaintain_def nil_deref_def)

section \<open>The checksum of the metrics\<close>

lemma map_sort_key: "map f (sort_key f xs) = sort (map f xs)"
proof -
  have "sorted (map f (sort_key f xs))" by simp
  moreover have "mset (map f (sort_key f xs)) = mset (map f xs)" by simp
  ultimately show ?thesis using properties_for_sort [of "map f (sort_key f xs)" "map f xs"] by simp
qed

text \<open>
  The checksum does not depend on the order in which the database or the cache holds the metrics,
  and an agent that has it is sent nothing.
\<close>

theorem digest_canonical:
  "(mset ms = mset ms' \<longrightarrow> DigestBuiltinMetrics ms = DigestBuiltinMetrics ms') \<and>
   (BuiltinMetrics db now ttl h c s = Inr (r, s') \<longrightarrow> h \<noteq> '''' \<longrightarrow>
      (br_Metrics r = [] \<or> br_Checksum r = DigestBuiltinMetrics (br_Metrics r) \<and> br_Checksum r \<noteq> c) \<and>
      (\<exists>s2. BuiltinMetrics db now ttl h (br_Checksum r) s = Inr (\<lparr>br_Metrics = [], br_Checksum = br_Checksum r\<rparr>, s2)))"
proof (intro conjI impI)
  have cong: "DigestBuiltinMetrics ms = DigestBuiltinMetrics ms'" if "mset ms = mset ms'" for ms ms'
  proof -
    have "sort (map BuiltinMetric_String ms) = sort (map BuiltinMetric_String ms')"
      by (rule properties_for_sort) (simp_all add: that)
    then show ?thesis by (simp add: DigestBuiltinMetrics_def map_sort_key)
  qed
  then show "DigestBuiltinMetrics ms = DigestBuiltinMetrics ms'" if "mset ms = mset ms'" using that .
  assume r: "BuiltinMetrics db now ttl h c s = Inr (r, s')" "h \<noteq> ''''"
  then obtain ms s1 where j: "JudgeHostSpecialMetric db now ttl h s = Inr (ms, s1)"
    by (auto simp: BuiltinMetrics_def)
  define cs where "cs = (if length ms > 0 then DigestBuiltinMetrics ms else '''')"
  have reply: "BuiltinMetrics db now ttl h x s = Inr
      (\<lparr>br_Metrics = (if x = cs then [] else sort_key BuiltinMetric_String ms), br_Checksum = cs\<rparr>, sort_cached h s1)" for x
    using r(2) j by (simp add: BuiltinMetrics_def Let_def cs_def)
  have sorted_digest: "DigestBuiltinMetrics (sort_key BuiltinMetric_String ms) = DigestBuiltinMetrics ms"
    by (rule cong) simp
  show "br_Metrics r = [] \<or> br_Checksum r = DigestBuiltinMetrics (br_Metrics r) \<and> br_Checksum r \<noteq> c"
    using r(1) sorted_digest unfolding reply by (cases ms) (auto simp: cs_def split: if_splits)
  show "\<exists>s2. BuiltinMetrics db now ttl h (br_Checksum r) s = Inr (\<lparr>br_Metrics = [], br_Checksum = br_Checksum r\<rparr>, s2)"
    using r(1) unfolding reply by auto
qed

section \<open>The table of agents\<close>

definition agents_wf :: "hbs_state \<Rightarrow> bool" where
  "agents_wf s \<longleftrightarrow> gwf (hb_Agents s) \<and>
     (\<forall>h i. gget (hb_Agents s) h = Some i \<longrightarrow> ar_Hostname (ai_ReportRequest i) = h)"

lemma agents_wf_put: "agents_wf s \<Longrightarrow> agents_wf (snd (Agents_Put now req s))"
  by (simp add: agents_wf_def Agents_Put_def Let_def)

lemma stale_loop_spec:
  "agents_wf s \<Longrightarrow> distinct ks \<Longrightarrow> set ks \<subseteq> dom (gget (hb_Agents s)) \<Longrightarrow>
     \<exists>s'. stale_loop before ks s = Inr s' \<and> agents_wf s' \<and>
       (\<forall>h. gget (hb_Agents s') h =
          (if h \<in> set ks \<and> (\<exists>i. gget (hb_Agents s) h = Some i \<and> ai_LastUpdate i < before) then None
           else gget (hb_Agents s) h))"
proof (induction ks arbitrary: s)
  case (Cons k ks)
  from Cons.prems(3) obtain i where i: "gget (hb_Agents s) k = Some i" by auto
  have host: "ar_Hostname (ai_ReportRequest i) = k" using Cons.prems(1) i by (simp add: agents_wf_def)
  show ?case
  proof (cases "ai_LastUpdate i < before")
    case True
    let ?s = "Agents_Delete k (s\<lparr>NowAgentVersionMap := gdel k (NowAgentVersionMap s)\<rparr>)"
    have wf: "agents_wf ?s" using Cons.prems(1) by (auto simp: agents_wf_def Agents_Delete_def)
    have dom: "distinct ks" "set ks \<subseteq> dom (gget (hb_Agents ?s))"
      using Cons.prems(2,3) by (auto simp: Agents_Delete_def)
    have step: "stale_loop before (k # ks) s = stale_loop before ks ?s"
      using i host True by (simp add: Agents_Get_def)
    from Cons.IH [OF wf dom] show ?thesis
      unfolding step using i True by (elim exE) (auto simp: Agents_Delete_def)
  next
    case False
    then show ?thesis using Cons.IH [OF Cons.prems(1)] Cons.prems(2,3) i
      by (fastforce simp: Agents_Get_def)
  qed
qed simp

text \<open>
  The sweep never fails and removes exactly the agents whose last heartbeat is older than ten times
  the interval in minutes; the table stays keyed by host name under reports and sweeps.
\<close>

theorem stale_agents_exact:
  assumes "agents_wf s"
  shows "(\<exists>s'. deleteStaleAgents now interval s = Inr s' \<and> agents_wf s' \<and>
      (\<forall>h. gget (hb_Agents s') h =
         (case gget (hb_Agents s) h of
            None \<Rightarrow> None
          | Some i \<Rightarrow> if ai_LastUpdate i < now - 600 * interval then None else Some i))) \<and>
    (\<forall>t q e c a args. agents_wf (snd (snd (ReportStatus t q e c a args s))))"
proof
  have "distinct (Agents_Keys s)" "set (Agents_Keys s) \<subseteq> dom (gget (hb_Agents s))"
    using assms by (auto simp: agents_wf_def Agents_Keys_def gwf_def dom_map_of_conv_image_fst)
  from stale_loop_spec [OF assms this, of "now - 60 * 10 * interval"] obtain s' where s':
    "stale_loop (now - 60 * 10 * interval) (Agents_Keys s) s = Inr s'" "agents_wf s'"
    "\<forall>h. gget (hb_Agents s') h =
       (if h \<in> set (Agents_Keys s) \<and> (\<exists>i. gget (hb_Agents s) h = Some i \<and> ai_LastUpdate i < now - 60 * 10 * interval)
        then None else gget (hb_Agents s) h)" by blast
  have "deleteStaleAgents now interval s = Inr s'"
    using s'(1) by (auto simp: deleteStaleAgents_def Let_def)
  moreover have "gget (hb_Agents s') h =
      (case gget (hb_Agents s) h of None \<Rightarrow> None
       | Some i \<Rightarrow> if ai_LastUpdate i < now - 600 * interval then None else Some i)" for h
  proof (cases "gget (hb_Agents s) h")
    case (Some i)
    then have "h \<in> set (Agents_Keys s)" unfolding Agents_Keys_def gkeys_dom by blast
    then show ?thesis using s'(3) Some by simp
  qed (use s'(3) in simp)
  ultimately show "\<exists>s'. deleteStaleAgents now interval s = Inr s' \<and> agents_wf s' \<and>
      (\<forall>h. gget (hb_Agents s') h =
         (case gget (hb_Agents s) h of
            None \<Rightarrow> None
          | Some i \<Rightarrow> if ai_LastUpdate i < now - 600 * interval then None else Some i))"
    using s'(2) by blast
  show "\<forall>t q e c a args. agents_wf (snd (snd (ReportStatus t q e c a args s)))"
    using assms by (auto simp: ReportStatus_def Let_def agents_wf_def Agents_Put_def)
qed

section \<open>Agents in upgrade\<close>

text \<open>The members of the set in redis after the commands of the reports.\<close>

fun upgrade_members :: "upgrade_cmd list \<Rightarrow> string set \<Rightarrow> string set" where
  "upgrade_members [] S = S"
| "upgrade_members (SREM h # cs) S = upgrade_members cs (S - {h})"
| "upgrade_members (SADD h # cs) S = upgrade_members cs (insert h S)"
| "upgrade_members (_ # cs) S = upgrade_members cs S"

text \<open>Reports one after the other, with the true number of members as the answer of \<open>SCARD\<close>.\<close>

datatype hbs_event = Report int agent_report | Set_Expired | Upgrade "upgrade_args option" | Sweep int

fun upgrade_step :: "int \<Rightarrow> int \<Rightarrow> hbs_event \<Rightarrow> string set \<times> hbs_state
    \<Rightarrow> report_reply option \<times> string set \<times> hbs_state" where
  "upgrade_step q e (Report now args) (S, s) =
     (let (r, cs, s) = ReportStatus now q e (Some (int (card S))) True args s
      in (Some r, upgrade_members cs S, s))"
| "upgrade_step q e Set_Expired (S, s) = (None, {}, s)"
| "upgrade_step q e (Upgrade a) (S, s) = (None, S, snd (agent_upgrade ''POST'' ''127.0.0.1:80'' a s))"
| "upgrade_step q e (Sweep now) (S, s) =
     (None, S, (case deleteStaleAgents now 1 s of Inr s \<Rightarrow> s | Inl _ \<Rightarrow> s))"

fun upgrade_run :: "int \<Rightarrow> int \<Rightarrow> hbs_event list \<Rightarrow> string set \<times> hbs_state \<Rightarrow> (string set \<times> report_reply option) list" where
  "upgrade_run q e [] st = []"
| "upgrade_run q e (ev # evs) st =
     (let (r, S, s) = upgrade_step q e ev st in (S, r) # upgrade_run q e evs (S, s))"

lemma upgrade_step_bound:
  assumes "upgrade_step q e ev (S, s) = (r, S', s')" "finite S" "int (card S) \<le> q"
  shows "finite S' \<and> int (card S') \<le> q \<and>
    (\<forall>now args a. ev = Report now args \<longrightarrow> r = Some a \<longrightarrow> rr_Args a \<noteq> None \<longrightarrow> ar_Hostname args \<in> S')"
proof (cases ev)
  case (Report now args)
  have "card (S - {h}) \<le> card S" for h using assms(2) by (simp add: card_Diff1_le)
  moreover have "int (card (insert h S)) \<le> q" if "int (card S) < q" for h
    using that card_insert_le_m1 assms(2) by (simp add: card_insert_if)
  ultimately show ?thesis
    using assms Report
    by (auto simp: ReportStatus_def Let_def split: if_splits) (meson of_nat_mono order_trans)+
qed (use assms in \<open>auto simp: split: prod.splits\<close>)

text \<open>
  Served one after the other, reports never bring more than the configured number of agents into
  upgrade at one time, and an agent that is told to upgrade is one of them.
\<close>

theorem upgrades_bounded:
  assumes "finite S" "int (card S) \<le> q"
  shows "\<forall>(S', r) \<in> set (upgrade_run q e evs (S, s)). finite S' \<and> int (card S') \<le> q \<and>
    (\<forall>a. r = Some a \<longrightarrow> rr_Args a \<noteq> None \<longrightarrow> S' \<noteq> {})"
  using assms
proof (induction evs arbitrary: S s)
  case (Cons ev evs)
  obtain r S' s' where step: "upgrade_step q e ev (S, s) = (r, S', s')" by (metis prod_cases3)
  note b = upgrade_step_bound [OF step Cons.prems]
  have "S' \<noteq> {}" if "r = Some a" "rr_Args a \<noteq> None" for a
    using b that step by (cases ev) auto
  then show ?case using b Cons.IH [of S' s'] by (simp add: step)
qed simp

section \<open>Plugins and metrics of a host\<close>

lemma set_add_all: "set (add_all xs acc) = set acc \<union> set xs"
  by (induction xs arbitrary: acc) auto

lemma distinct_add_all: "distinct acc \<Longrightarrow> distinct (add_all xs acc)"
  by (induction xs arbitrary: acc) auto

lemma groups_items_facts:
  "set (groups_items m gids acc) = set acc \<union> (\<Union>g \<in> set gids. case gget m g of None \<Rightarrow> {} | Some xs \<Rightarrow> set xs)"
  "distinct acc \<Longrightarrow> distinct (groups_items m gids acc)"
  by (induction gids arbitrary: acc) (auto simp: set_add_all distinct_add_all split: option.splits)

lemma foldl_add_all:
  "set (foldl (\<lambda>acc t. add_all (f t) acc) acc ts) = set acc \<union> (\<Union>t \<in> set ts. set (f t))"
  by (induction ts arbitrary: acc) (auto simp: set_add_all)

definition groups_of :: "hbs_state \<Rightarrow> string \<Rightarrow> int list" where
  "groups_of s hostname =
     (case gget (HostMap s) hostname of None \<Rightarrow> []
      | Some hid \<Rightarrow> (case gget (HostGroupsMap s) hid of None \<Rightarrow> [] | Some gids \<Rightarrow> gids))"

text \<open>
  A host gets the plugins of its groups, sorted and each once; and it collects the metrics of the
  templates of its groups and of all their ancestors.
\<close>

theorem host_plugins_and_templates:
  "sorted (GetPlugins h s) \<and> distinct (GetPlugins h s) \<and>
   set (GetPlugins h s) = (\<Union>g \<in> set (groups_of s h). case gget (GroupPlugins s) g of None \<Rightarrow> {} | Some ps \<Rightarrow> set ps) \<and>
   set (builtin_tids s h) = (\<Union>g \<in> set (groups_of s h). \<Union>t \<in> (case gget (GroupTemplates s) g of None \<Rightarrow> {} | Some ts \<Rightarrow> set ts).
      insert t (set (ParentIds (TemplateCache (hb_Maps s)) t)))"
proof (intro conjI)
  show "sorted (GetPlugins h s)" "distinct (GetPlugins h s)"
    by (auto simp: GetPlugins_def groups_items_facts split: option.split)
  show "set (GetPlugins h s) = (\<Union>g \<in> set (groups_of s h). case gget (GroupPlugins s) g of None \<Rightarrow> {} | Some ps \<Rightarrow> set ps)"
    by (cases "gget (HostMap s) h"; cases "gget (HostGroupsMap s) (the (gget (HostMap s) h))")
       (simp_all add: GetPlugins_def groups_of_def groups_items_facts)
  show "set (builtin_tids s h) = (\<Union>g \<in> set (groups_of s h). \<Union>t \<in> (case gget (GroupTemplates s) g of None \<Rightarrow> {} | Some ts \<Rightarrow> set ts).
      insert t (set (ParentIds (TemplateCache (hb_Maps s)) t)))"
    by (cases "gget (HostMap s) h"; cases "gget (HostGroupsMap s) (the (gget (HostMap s) h))")
       (simp_all add: builtin_tids_def groups_of_def groups_items_facts foldl_add_all Let_def UN_insert_distrib, blast?)
qed

section \<open>Examples\<close>

definition demo_hbs_state :: hbs_state where
  "demo_hbs_state =
     \<lparr>HostMaintainCache = [], HostSSCache = [], UnionStrategiesCache = [], HostSpecialMetricCache = [],
      HostPluginCache = [],
      hb_Agents = [(''web'', \<lparr>ai_LastUpdate = 100, ai_ReportRequest =
        \<lparr>ar_Hostname = ''web'', ar_IP = '''', ar_AgentVersion = ''1'', ar_PluginVersion = '''', ar_InUpgrading = False\<rparr>\<rparr>)],
      NewAgentUpgradeArgs = \<lparr>up_Type = 0, up_WgetUrl = ''u'', up_Version = ''2'', up_BinFileMd5 = ''m'', up_CfgFileMd5 = ''''\<rparr>,
      NowAgentVersionMap = [], HostMap = [], HostGroupsMap = [], GroupTemplates = [], GroupPlugins = [],
      hb_DynamicConfig = [], hb_Services = [], hb_Expressions = [], hb_Maps = demo_hbs, hb_UnionStrategies = []\<rparr>"

definition demo_hbs_db :: "int \<Rightarrow> hbs_db" where
  "demo_hbs_db t =
     \<lparr>db_maintain = (\<lambda>h. Some (if t < 50 then [] else [Some (7, h)])),
      db_tables = Some (demo_tables [demo_row 11 ''cpu'' 1]), db_special = (\<lambda>_. Some []), db_plugins = (\<lambda>_. Some [])\<rparr>"

text \<open>Maintenance begins at 50; the answer at 60 is still the one of 10, the one at 80 is not.\<close>

theorem answers_recent_witness:
  "\<exists>a b c. serve_ends demo_hbs_db 60 [(10, ''web''), (60, ''web''), (80, ''web'')] demo_hbs_state = Inr [a, b, c] \<and>
     a \<noteq> [] \<and> c = [] \<and> recent_answer demo_hbs_db 60 (60, ''web'') b"
proof -
  let ?live = "QueryStrategiesForOneEnd (Some (demo_tables [demo_row 11 ''cpu'' 1])) ''web''"
  have run: "serve_ends demo_hbs_db 60 [(10, ''web''), (60, ''web''), (80, ''web'')] demo_hbs_state = Inr [?live, ?live, []]"
    by (simp add: GetOneEndStrategies_def JudgeHostMaintain_def JudgeHostStrategies1_def through_cache_def
        cache_Get_def cache_Set_def QueryHostMaintain_def demo_hbs_db_def demo_hbs_state_def)
  have "list_all2 (recent_answer demo_hbs_db 60) [(10, ''web''), (60, ''web''), (80, ''web'')] [?live, ?live, []]"
    by (rule answers_recent [OF _ _ _ _ _ run]) (simp_all add: demo_hbs_state_def)
  moreover have "?live \<noteq> []"
    using demo_live [of "[demo_row 11 ''cpu'' 1]"] by (auto simp: demo_row_uuid)
  ultimately show ?thesis
    using run by (intro exI [of _ ?live] exI [of _ "[] :: strategy list"] conjI) (simp_all del: serve_ends.simps)
qed

theorem failed_query_panics_witness:
  "is_panic (GetOneEndStrategies (demo_hbs_db 0\<lparr>db_maintain := \<lambda>_. None\<rparr>) 10 60 ''web'' demo_hbs_state)"
  by (rule failed_query_panics) (simp_all add: cache_Get_def demo_hbs_state_def)

theorem digest_canonical_witness:
  "DigestBuiltinMetrics [\<lparr>bm_Metric = ''proc.num'', bm_Tags = ''name=a''\<rparr>, \<lparr>bm_Metric = ''du.bs'', bm_Tags = ''path=/''\<rparr>] =
   DigestBuiltinMetrics [\<lparr>bm_Metric = ''du.bs'', bm_Tags = ''path=/''\<rparr>, \<lparr>bm_Metric = ''proc.num'', bm_Tags = ''name=a''\<rparr>]"
  using digest_canonical [of "[\<lparr>bm_Metric = ''proc.num'', bm_Tags = ''name=a''\<rparr>, \<lparr>bm_Metric = ''du.bs'', bm_Tags = ''path=/''\<rparr>]"
      "[\<lparr>bm_Metric = ''du.bs'', bm_Tags = ''path=/''\<rparr>, \<lparr>bm_Metric = ''proc.num'', bm_Tags = ''name=a''\<rparr>]"]
  by (simp add: add_mset_commute)

theorem stale_agents_exact_witness:
  "\<exists>s'. deleteStaleAgents 701 1 demo_hbs_state = Inr s' \<and> gget (hb_Agents s') ''web'' = None"
proof -
  have "agents_wf demo_hbs_state" by (simp add: agents_wf_def demo_hbs_state_def gwf_def)
  from stale_agents_exact [OF this, of 701 1] show ?thesis
    by (auto simp: demo_hbs_state_def split: if_splits)
qed

theorem upgrades_bounded_witness:
  "\<exists>S' r. upgrade_run 1 70 [Report 1 (ai_ReportRequest (snd (hd (hb_Agents demo_hbs_state))))] ({}, demo_hbs_state) = [(S', r)] \<and>
     card S' \<le> 1"
proof -
  let ?ev = "Report 1 (ai_ReportRequest (snd (hd (hb_Agents demo_hbs_state))))"
  obtain r S' s' where "upgrade_step 1 70 ?ev ({}, demo_hbs_state) = (r, S', s')" by (metis prod_cases3)
  then have run: "upgrade_run 1 70 [?ev] ({}, demo_hbs_state) = [(S', r)]" by simp
  then have "card S' \<le> 1"
    using upgrades_bounded [of "{}" 1 70 "[?ev]" demo_hbs_state] unfolding run by simp
  with run show ?thesis by blast
qed

end
