(* ===== verification/Go_Json.thy ===== *)
theory Go_Json
  imports Go_Strings
begin

text \<open>
  \<open>encoding/json\<close> as the alarm module uses it: the text of a value, and the value of a text that was
  written so. A struct is an object with its fields in the order of the declaration, a Go map one with
  its keys sorted. Strings are valid UTF-8; numbers are those of int.
\<close>

datatype json =
    JStr string
  | JInt int
  | JBool bool
  | JArr "json list"
  | JObj "(string \<times> json) list"

text \<open>An object made from a map, whose keys the encoder sorts.\<close>

definition jmap :: "(string \<times> json) list \<Rightarrow> json" where
  "jmap kvs = JObj (sort_key fst kvs)"

section \<open>The text of a string\<close>

definition hex_digit :: "nat \<Rightarrow> char" where
  "hex_digit n = (if n < 10 then char_of (48 + n) else char_of (87 + n))"

text \<open>\<open>encodeState.string\<close> escapes quotes, control characters and what has a meaning in HTML.\<close>

definition esc_char :: "char \<Rightarrow> string" where
  "esc_char c =
     (let n = (of_char c :: nat) in
      if c = CHR 0x22 \<or> c = CHR 0x5C then [CHR 0x5C, c]
      else if c = CHR 0x0A then [CHR 0x5C, CHR ''n'']
      else if c = CHR 0x0D then [CHR 0x5C, CHR ''r'']
      else if c = CHR 0x09 then [CHR 0x5C, CHR ''t'']
      else if n < 32 \<or> c = CHR ''<'' \<or> c = CHR ''>'' \<or> c = CHR ''&''
        then [CHR 0x5C, CHR ''u'', CHR ''0'', CHR ''0'', hex_digit (n div 16), hex_digit (n mod 16)]
      else [c])"

text \<open>The line separators U+2028 and U+2029 are escaped too.\<close>

fun esc :: "string \<Rightarrow> string" where
  "esc [] = []"
| "esc (c # cs) =
     (if c = CHR 0xE2 \<and> take 2 cs = [CHR 0x80, CHR 0xA8] then CHR 0x5C # ''u2028'' @ esc (drop 2 cs)
      else if c = CHR 0xE2 \<and> take 2 cs = [CHR 0x80, CHR 0xA9] then CHR 0x5C # ''u2029'' @ esc (drop 2 cs)
      else esc_char c @ esc cs)"

definition quoted :: "string \<Rightarrow> string" where
  "quoted s = CHR 0x22 # esc s @ [CHR 0x22]"

section \<open>The text of a value\<close>

fun marshal :: "json \<Rightarrow> string" where
  "marshal (JStr s) = quoted s"
| "marshal (JInt i) = itoa i"
| "marshal (JBool b) = (if b then ''true'' else ''false'')"
| "marshal (JArr js) = ''['' @ join '','' (map marshal js) @ '']''"
| "marshal (JObj kvs) = ''{'' @ join '','' (map (\<lambda>(k, j). quoted k @ '':'' @ marshal j) kvs) @ ''}''"

section \<open>Reading a string back\<close>

definition hex_val :: "char \<Rightarrow> nat" where
  "hex_val c = (let n = (of_char c :: nat) in if n < 58 then n - 48 else n - 87)"

text \<open>
  The contents of a string literal up to its closing quote and what follows it, for the escapes that
  the encoder writes.
\<close>

function unquote :: "string \<Rightarrow> (string \<times> string) option" where
  "unquote s =
     (case s of
        [] \<Rightarrow> None
      | c # cs \<Rightarrow>
          if c = CHR 0x22 then Some ([], cs)
          else if c = CHR 0x5C then
            (case cs of
               [] \<Rightarrow> None
             | e # es \<Rightarrow>
                 if e = CHR ''u'' then
                   (let h = map hex_val (take 4 es); rest = unquote (drop 4 es) in
                    if length h < 4 then None
                    else if take 2 h = [2, 0] \<and> drop 2 h = [2, 8]
                      then map_option (map_prod ((@) [CHR 0xE2, CHR 0x80, CHR 0xA8]) (\<lambda>r. r)) rest
                    else if take 2 h = [2, 0] \<and> drop 2 h = [2, 9]
                      then map_option (map_prod ((@) [CHR 0xE2, CHR 0x80, CHR 0xA9]) (\<lambda>r. r)) rest
                    else map_option (map_prod ((#) (char_of (16 * (h ! 2) + h ! 3))) (\<lambda>r. r)) rest)
                 else
                   map_option (map_prod ((#) (if e = CHR ''n'' then CHR 0x0A else if e = CHR ''r'' then CHR 0x0D
                      else if e = CHR ''t'' then CHR 0x09 else e)) (\<lambda>r. r)) (unquote es))
          else map_option (map_prod ((#) c) (\<lambda>r. r)) (unquote cs))"
  by pat_completeness auto
termination
  by (relation "measure length") auto

declare unquote.simps [simp del]

lemma unquote_plain:
  "c \<noteq> CHR 0x22 \<Longrightarrow> c \<noteq> CHR 0x5C \<Longrightarrow> unquote (c # cs) = map_option (map_prod ((#) c) (\<lambda>r. r)) (unquote cs)"
  by (subst unquote.simps) simp

lemma unquote_escape:
  "e \<noteq> CHR ''u'' \<Longrightarrow> unquote (CHR 0x5C # e # es) =
     map_option (map_prod ((#) (if e = CHR ''n'' then CHR 0x0A else if e = CHR ''r'' then CHR 0x0D
        else if e = CHR ''t'' then CHR 0x09 else e)) (\<lambda>r. r)) (unquote es)"
  by (subst unquote.simps) simp

lemma unquote_hex:
  "unquote (CHR 0x5C # CHR ''u'' # CHR ''0'' # CHR ''0'' # a # b # es) =
     map_option (map_prod ((#) (char_of (16 * hex_val a + hex_val b))) (\<lambda>r. r)) (unquote es)"
  by (subst unquote.simps) (simp add: hex_val_def)

lemma unquote_2028:
  "unquote (CHR 0x5C # ''u2028'' @ es) = map_option (map_prod ((@) [CHR 0xE2, CHR 0x80, CHR 0xA8]) (\<lambda>r. r)) (unquote es)"
  by (subst unquote.simps) (simp add: hex_val_def)

lemma unquote_2029:
  "unquote (CHR 0x5C # ''u2029'' @ es) = map_option (map_prod ((@) [CHR 0xE2, CHR 0x80, CHR 0xA9]) (\<lambda>r. r)) (unquote es)"
  by (subst unquote.simps) (simp add: hex_val_def)

lemma hex_val_digit: "n < 16 \<Longrightarrow> hex_val (hex_digit n) = n"
  by (auto simp: hex_val_def hex_digit_def Let_def)

lemma unquote_esc_char:
  "unquote (esc_char c @ es) = map_option (map_prod ((#) c) (\<lambda>r. r)) (unquote es)"
proof -
  define n where "n = (of_char c :: nat)"
  have n: "n < 256" unfolding n_def by simp
  have c: "c = char_of n" by (simp add: n_def)
  have h: "16 * hex_val (hex_digit (n div 16)) + hex_val (hex_digit (n mod 16)) = n"
    using n by (simp add: hex_val_digit less_mult_imp_div_less)
  have hex: "unquote (CHR 0x5C # CHR ''u'' # CHR ''0'' # CHR ''0'' # hex_digit (n div 16) # hex_digit (n mod 16) # es)
      = map_option (map_prod ((#) c) (\<lambda>r. r)) (unquote es)"
    by (simp add: unquote_hex h c)
  show ?thesis
    using hex unfolding esc_char_def Let_def n_def [symmetric]
    by (simp add: unquote_escape unquote_plain)
qed

text \<open>A string is read back from its text, whatever follows: no content can end the literal early.\<close>

lemma unquote_esc: "unquote (esc s @ CHR 0x22 # rest) = Some (s, rest)"
proof (induction s rule: esc.induct)
  case 1
  then show ?case by (subst unquote.simps) simp
next
  case (2 c cs)
  have cut: "cs = take 2 cs @ drop 2 cs" by simp
  consider (ls) "c = CHR 0xE2" "take 2 cs = [CHR 0x80, CHR 0xA8]" | (ps) "c = CHR 0xE2" "take 2 cs = [CHR 0x80, CHR 0xA9]"
    | (other) "\<not> (c = CHR 0xE2 \<and> take 2 cs = [CHR 0x80, CHR 0xA8])" "\<not> (c = CHR 0xE2 \<and> take 2 cs = [CHR 0x80, CHR 0xA9])"
    by blast
  then show ?case
  proof cases
    case ls
    have "unquote (esc (drop 2 cs) @ CHR 0x22 # rest) = Some (drop 2 cs, rest)"
      by (rule 2(1)) (use ls in simp)
    with ls cut show ?thesis using unquote_2028 [of "esc (drop 2 cs) @ CHR 0x22 # rest"] by simp
  next
    case ps
    have "unquote (esc (drop 2 cs) @ CHR 0x22 # rest) = Some (drop 2 cs, rest)"
      by (rule 2(2)) (use ps in simp_all)
    with ps cut show ?thesis using unquote_2029 [of "esc (drop 2 cs) @ CHR 0x22 # rest"] by simp
  next
    case other
    then show ?thesis using 2(3) by (auto simp: unquote_esc_char)
  qed
qed

lemma quoted_inj: "quoted s @ r = quoted t @ r' \<Longrightarrow> s = t \<and> r = r'"
proof -
  assume "quoted s @ r = quoted t @ r'"
  then have eq: "esc s @ CHR 0x22 # r = esc t @ CHR 0x22 # r'" by (simp add: quoted_def)
  have "Some (s, r) = unquote (esc s @ CHR 0x22 # r)" by (rule unquote_esc [symmetric])
  also have "\<dots> = Some (t, r')" unfolding eq by (rule unquote_esc)
  finally show ?thesis by blast
qed

section \<open>Fields of an object\<close>

text \<open>
  \<open>json.Unmarshal\<close> of an object into a struct: a field that the text does not have keeps its zero
  value, one of another type is an error.
\<close>

definition str_field :: "string \<Rightarrow> (string \<times> json) list \<Rightarrow> string option" where
  "str_field n fs = (case map_of fs n of None \<Rightarrow> Some [] | Some (JStr s) \<Rightarrow> Some s | Some _ \<Rightarrow> None)"

definition int_field :: "string \<Rightarrow> (string \<times> json) list \<Rightarrow> int option" where
  "int_field n fs = (case map_of fs n of None \<Rightarrow> Some 0 | Some (JInt i) \<Rightarrow> Some i | Some _ \<Rightarrow> None)"

definition bool_field :: "string \<Rightarrow> (string \<times> json) list \<Rightarrow> bool option" where
  "bool_field n fs = (case map_of fs n of None \<Rightarrow> Some False | Some (JBool b) \<Rightarrow> Some b | Some _ \<Rightarrow> None)"

end
