(* ===== verification/Alarm_Redis.thy ===== *)
theory Alarm_Redis
  imports Go_Json Safe_List Common_Model
begin

text \<open>
  Module alarm, packages \<open>redi\<close> and \<open>model\<close> and the reading half of \<open>cron/combiner.go\<close> and
  \<open>cron/event_reader.go\<close>: the lists in redis that connect the stages of an alarm. Judge pushes events,
  the consumers push messages per channel, low events go through a list per channel of messages to be
  combined, and the senders pop. A list is kept front first: LPUSH adds at the front, RPOP takes from
  the back. The n-th command succeeds when \<open>up n\<close>; one that fails has no effect.
\<close>

text \<open>The domain of the mail addresses of the company (\<open>g/g.go\<close>).\<close>

definition BYTEMAIL :: string where
  "BYTEMAIL = ''@xxx.com''"

section \<open>The messages\<close>

record sms =
  sms_Tos :: string
  sms_Content :: string

record mail =
  ml_Tos :: string
  ml_Subject :: string
  ml_Content :: string

record im =
  im_Tos :: string
  im_Content :: string
  im_IsCard :: bool

record sms_dto =
  sd_Priority :: int
  sd_Metric :: string
  sd_Content :: string
  sd_Phone :: string
  sd_Status :: string

record mail_dto =
  md_Priority :: int
  md_Metric :: string
  md_Subject :: string
  md_Content :: string
  md_Email :: string
  md_Status :: string

record im_dto =
  id_Priority :: int
  id_Metric :: string
  id_Content :: string
  id_IM :: string
  id_Name :: string
  id_Status :: string
  id_LarkCardContent :: string

text \<open>What \<open>json.Marshal\<close> makes of them, by their field tags, and what \<open>json.Unmarshal\<close> reads.\<close>

definition sms_json :: "sms \<Rightarrow> json" where
  "sms_json m = JObj [(''tos'', JStr (sms_Tos m)), (''content'', JStr (sms_Content m))]"

definition mail_json :: "mail \<Rightarrow> json" where
  "mail_json m = JObj [(''tos'', JStr (ml_Tos m)), (''subject'', JStr (ml_Subject m)), (''content'', JStr (ml_Content m))]"

definition im_json :: "im \<Rightarrow> json" where
  "im_json m = JObj [(''tos'', JStr (im_Tos m)), (''content'', JStr (im_Content m)), (''is_card'', JBool (im_IsCard m))]"

definition sms_dto_json :: "sms_dto \<Rightarrow> json" where
  "sms_dto_json d = JObj [(''priority'', JInt (sd_Priority d)), (''metric'', JStr (sd_Metric d)),
     (''content'', JStr (sd_Content d)), (''phone'', JStr (sd_Phone d)), (''status'', JStr (sd_Status d))]"

definition mail_dto_json :: "mail_dto \<Rightarrow> json" where
  "mail_dto_json d = JObj [(''priority'', JInt (md_Priority d)), (''metric'', JStr (md_Metric d)),
     (''subject'', JStr (md_Subject d)), (''content'', JStr (md_Content d)), (''email'', JStr (md_Email d)),
     (''status'', JStr (md_Status d))]"

definition im_dto_json :: "im_dto \<Rightarrow> json" where
  "im_dto_json d = JObj [(''priority'', JInt (id_Priority d)), (''metric'', JStr (id_Metric d)),
     (''content'', JStr (id_Content d)), (''im'', JStr (id_IM d)), (''name'', JStr (id_Name d)),
     (''status'', JStr (id_Status d)), (''lark_card_content'', JStr (id_LarkCardContent d))]"

fun sms_of :: "json \<Rightarrow> sms option" where
  "sms_of (JObj fs) =
     (case (str_field ''tos'' fs, str_field ''content'' fs) of
        (Some t, Some c) \<Rightarrow> Some \<lparr>sms_Tos = t, sms_Content = c\<rparr>
      | _ \<Rightarrow> None)"
| "sms_of _ = None"

fun mail_of :: "json \<Rightarrow> mail option" where
  "mail_of (JObj fs) =
     (case (str_field ''tos'' fs, str_field ''subject'' fs, str_field ''content'' fs) of
        (Some t, Some s, Some c) \<Rightarrow> Some \<lparr>ml_Tos = t, ml_Subject = s, ml_Content = c\<rparr>
      | _ \<Rightarrow> None)"
| "mail_of _ = None"

fun im_of :: "json \<Rightarrow> im option" where
  "im_of (JObj fs) =
     (case (str_field ''tos'' fs, str_field ''content'' fs, bool_field ''is_card'' fs) of
        (Some t, Some c, Some b) \<Rightarrow> Some \<lparr>im_Tos = t, im_Content = c, im_IsCard = b\<rparr>
      | _ \<Rightarrow> None)"
| "im_of _ = None"

fun sms_dto_of :: "json \<Rightarrow> sms_dto option" where
  "sms_dto_of (JObj fs) =
     (case (int_field ''priority'' fs, str_field ''metric'' fs, str_field ''content'' fs, str_field ''phone'' fs,
            str_field ''status'' fs) of
        (Some p, Some m, Some c, Some ph, Some s) \<Rightarrow>
          Some \<lparr>sd_Priority = p, sd_Metric = m, sd_Content = c, sd_Phone = ph, sd_Status = s\<rparr>
      | _ \<Rightarrow> None)"
| "sms_dto_of _ = None"

fun mail_dto_of :: "json \<Rightarrow> mail_dto option" where
  "mail_dto_of (JObj fs) =
     (case (int_field ''priority'' fs, str_field ''metric'' fs, str_field ''subject'' fs, str_field ''content'' fs,
            str_field ''email'' fs, str_field ''status'' fs) of
        (Some p, Some m, Some sb, Some c, Some e, Some s) \<Rightarrow>
          Some \<lparr>md_Priority = p, md_Metric = m, md_Subject = sb, md_Content = c, md_Email = e, md_Status = s\<rparr>
      | _ \<Rightarrow> None)"
| "mail_dto_of _ = None"

fun im_dto_of :: "json \<Rightarrow> im_dto option" where
  "im_dto_of (JObj fs) =
     (case (int_field ''priority'' fs, str_field ''metric'' fs, str_field ''content'' fs, str_field ''im'' fs,
            str_field ''name'' fs, str_field ''status'' fs, str_field ''lark_card_content'' fs) of
        (Some p, Some m, Some c, Some i, Some n, Some s, Some l) \<Rightarrow>
          Some \<lparr>id_Priority = p, id_Metric = m, id_Content = c, id_IM = i, id_Name = n, id_Status = s,
                id_LarkCardContent = l\<rparr>
      | _ \<Rightarrow> None)"
| "im_dto_of _ = None"

lemmas field_defs = str_field_def int_field_def bool_field_def

lemma message_roundtrips [simp]:
  "sms_of (sms_json m) = Some m" "mail_of (mail_json a) = Some a" "im_of (im_json i) = Some i"
  "sms_dto_of (sms_dto_json d) = Some d" "mail_dto_of (mail_dto_json e) = Some e"
  "im_dto_of (im_dto_json f) = Some f"
  by (simp_all add: sms_json_def mail_json_def im_json_def sms_dto_json_def mail_dto_json_def im_dto_json_def field_defs)

section \<open>The lists\<close>

text \<open>
  An element of a list of messages is the text of a value, or a text that is not JSON of an object;
  an element of a list of events is the text of an event or one that is not.
\<close>

datatype entry = Json json | Raw string
datatype event_text = EvText event | EvRaw string

record alarm_redis =
  Lists :: "string \<Rightarrow> entry list"
  Events :: "string \<Rightarrow> event_text list"
  Calls :: nat

definition lpush :: "(nat \<Rightarrow> bool) \<Rightarrow> string \<Rightarrow> entry \<Rightarrow> alarm_redis \<Rightarrow> alarm_redis" where
  "lpush up queue message r =
     (if up (Calls r)
      then r\<lparr>Calls := Calls r + 1, Lists := (Lists r)(queue := message # Lists r queue)\<rparr>
      else r\<lparr>Calls := Calls r + 1\<rparr>)"

text \<open>RPOP: nothing when the command fails or the list is empty.\<close>

definition rpop :: "(nat \<Rightarrow> bool) \<Rightarrow> string \<Rightarrow> alarm_redis \<Rightarrow> entry option \<times> alarm_redis" where
  "rpop up queue r =
     (if up (Calls r) \<and> Lists r queue \<noteq> []
      then (Some (last (Lists r queue)), r\<lparr>Calls := Calls r + 1, Lists := (Lists r)(queue := butlast (Lists r queue))\<rparr>)
      else (None, r\<lparr>Calls := Calls r + 1\<rparr>))"

text \<open>
  The loop of every reader: pop until redis has no more or fails, and leave out what cannot be read.
\<close>

definition read_entry :: "(json \<Rightarrow> 'm option) \<Rightarrow> entry \<Rightarrow> 'm option" where
  "read_entry dec t = (case t of Raw s \<Rightarrow> None | Json j \<Rightarrow> dec j)"

function pop_all :: "(json \<Rightarrow> 'm option) \<Rightarrow> (nat \<Rightarrow> bool) \<Rightarrow> string \<Rightarrow> alarm_redis \<Rightarrow> 'm list \<times> alarm_redis" where
  "pop_all dec up queue r =
     (case rpop up queue r of
        (None, r) \<Rightarrow> ([], r)
      | (Some t, r) \<Rightarrow>
          (let (ms, r) = pop_all dec up queue r
           in (case read_entry dec t of None \<Rightarrow> ms | Some m \<Rightarrow> m # ms, r)))"
  by pat_completeness auto
termination
  by (relation "measure (\<lambda>(dec, up, queue, r). length (Lists r queue))") (auto simp: rpop_def split: if_splits)

declare pop_all.simps [simp del]

definition SMS_QUEUE_NAME :: string where "SMS_QUEUE_NAME = ''/sms''"
definition MAIL_QUEUE_NAME :: string where "MAIL_QUEUE_NAME = ''/mail''"
definition IM_QUEUE_NAME :: string where "IM_QUEUE_NAME = ''/im''"
definition PHONE_QUEUE_NAME :: string where "PHONE_QUEUE_NAME = ''/phone''"
definition FAILED_IM_QUEUE_NAME :: string where "FAILED_IM_QUEUE_NAME = ''/failed/im''"
definition FINALLY_FAILED_IM_QUEUE_NAME :: string where "FINALLY_FAILED_IM_QUEUE_NAME = ''/finally_failed/im''"

lemmas queue_names = SMS_QUEUE_NAME_def MAIL_QUEUE_NAME_def IM_QUEUE_NAME_def PHONE_QUEUE_NAME_def
  FAILED_IM_QUEUE_NAME_def FINALLY_FAILED_IM_QUEUE_NAME_def

definition PopAllSms :: "(nat \<Rightarrow> bool) \<Rightarrow> alarm_redis \<Rightarrow> sms list \<times> alarm_redis" where
  "PopAllSms up r = pop_all sms_of up SMS_QUEUE_NAME r"

definition PopAllPhone :: "(nat \<Rightarrow> bool) \<Rightarrow> alarm_redis \<Rightarrow> sms list \<times> alarm_redis" where
  "PopAllPhone up r = pop_all sms_of up PHONE_QUEUE_NAME r"

definition PopAllIM :: "(nat \<Rightarrow> bool) \<Rightarrow> string \<Rightarrow> alarm_redis \<Rightarrow> im list \<times> alarm_redis" where
  "PopAllIM up queue r = pop_all im_of up queue r"

definition PopAllMail :: "(nat \<Rightarrow> bool) \<Rightarrow> alarm_redis \<Rightarrow> mail list \<times> alarm_redis" where
  "PopAllMail up r = pop_all mail_of up MAIL_QUEUE_NAME r"

definition popAllSmsDto :: "(nat \<Rightarrow> bool) \<Rightarrow> string \<Rightarrow> alarm_redis \<Rightarrow> sms_dto list \<times> alarm_redis" where
  "popAllSmsDto up queue r = pop_all sms_dto_of up queue r"

definition popAllMailDto :: "(nat \<Rightarrow> bool) \<Rightarrow> string \<Rightarrow> alarm_redis \<Rightarrow> mail_dto list \<times> alarm_redis" where
  "popAllMailDto up queue r = pop_all mail_dto_of up queue r"

definition popAllImDto :: "(nat \<Rightarrow> bool) \<Rightarrow> string \<Rightarrow> alarm_redis \<Rightarrow> im_dto list \<times> alarm_redis" where
  "popAllImDto up queue r = pop_all im_dto_of up queue r"

section \<open>Writing\<close>

definition WriteSmsModel :: "(nat \<Rightarrow> bool) \<Rightarrow> sms \<Rightarrow> alarm_redis \<Rightarrow> alarm_redis" where
  "WriteSmsModel up m r = lpush up SMS_QUEUE_NAME (Json (sms_json m)) r"

definition WriteIMModel :: "(nat \<Rightarrow> bool) \<Rightarrow> im \<Rightarrow> string \<Rightarrow> alarm_redis \<Rightarrow> alarm_redis" where
  "WriteIMModel up m queue r = lpush up queue (Json (im_json m)) r"

definition WriteMailModel :: "(nat \<Rightarrow> bool) \<Rightarrow> mail \<Rightarrow> alarm_redis \<Rightarrow> alarm_redis" where
  "WriteMailModel up m r = lpush up MAIL_QUEUE_NAME (Json (mail_json m)) r"

definition WritePhoneModel :: "(nat \<Rightarrow> bool) \<Rightarrow> sms \<Rightarrow> alarm_redis \<Rightarrow> alarm_redis" where
  "WritePhoneModel up m r = lpush up PHONE_QUEUE_NAME (Json (sms_json m)) r"

definition WriteSms :: "(nat \<Rightarrow> bool) \<Rightarrow> string list \<Rightarrow> string \<Rightarrow> alarm_redis \<Rightarrow> alarm_redis" where
  "WriteSms up tos content r =
     (if tos = [] then r else WriteSmsModel up \<lparr>sms_Tos = join '','' tos, sms_Content = content\<rparr> r)"

definition WriteIM :: "(nat \<Rightarrow> bool) \<Rightarrow> string list \<Rightarrow> string \<Rightarrow> alarm_redis \<Rightarrow> alarm_redis" where
  "WriteIM up tos content r =
     (if tos = [] then r
      else WriteIMModel up \<lparr>im_Tos = join '','' tos, im_Content = content, im_IsCard = False\<rparr> IM_QUEUE_NAME r)"

definition WriteImCard :: "(nat \<Rightarrow> bool) \<Rightarrow> (string, string) gomap \<Rightarrow> alarm_redis \<Rightarrow> alarm_redis" where
  "WriteImCard up conMap r =
     foldl (\<lambda>r (userMail, content).
       WriteIMModel up \<lparr>im_Tos = userMail, im_Content = content, im_IsCard = True\<rparr> IM_QUEUE_NAME r) r conMap"

definition WriteMail :: "(nat \<Rightarrow> bool) \<Rightarrow> string list \<Rightarrow> string \<Rightarrow> string \<Rightarrow> alarm_redis \<Rightarrow> alarm_redis" where
  "WriteMail up tos subject content r =
     (if tos = [] then r
      else WriteMailModel up \<lparr>ml_Tos = join '','' tos, ml_Subject = subject, ml_Content = content\<rparr> r)"

definition WritePhone :: "(nat \<Rightarrow> bool) \<Rightarrow> string list \<Rightarrow> string \<Rightarrow> alarm_redis \<Rightarrow> alarm_redis" where
  "WritePhone up tos content r =
     (if tos = [] then r else WritePhoneModel up \<lparr>sms_Tos = join '','' tos, sms_Content = content\<rparr> r)"

section \<open>Reading events\<close>

text \<open>
  RPOP on the list of events; the text of an event is not empty. A reply is taken when it is not the
  empty string: the comparison of the error with \<open>Nilp\<close>, an error made on the spot, is always true.
\<close>

definition rpop_event :: "(nat \<Rightarrow> bool) \<Rightarrow> string \<Rightarrow> alarm_redis \<Rightarrow> event_text \<times> alarm_redis" where
  "rpop_event up q r =
     (if up (Calls r) \<and> Events r q \<noteq> []
      then (last (Events r q), r\<lparr>Calls := Calls r + 1, Events := (Events r)(q := butlast (Events r q))\<rparr>)
      else (EvRaw '''', r\<lparr>Calls := Calls r + 1\<rparr>))"

fun pop_pass :: "(nat \<Rightarrow> bool) \<Rightarrow> string list \<Rightarrow> alarm_redis \<Rightarrow> event_text option \<times> alarm_redis" where
  "pop_pass up [] r = (None, r)"
| "pop_pass up (q # qs) r =
     (case rpop_event up q r of
        (reply, r) \<Rightarrow> if reply \<noteq> EvRaw '''' then (Some reply, r) else pop_pass up qs r)"

text \<open>
  The loop asks the queues in turn and sleeps; what others do in redis before a pass is an element of
  \<open>rounds\<close>. Without a result the reader is still waiting when the rounds are over.
\<close>

fun popEvent :: "(nat \<Rightarrow> bool) \<Rightarrow> string list \<Rightarrow> (alarm_redis \<Rightarrow> alarm_redis) list \<Rightarrow> alarm_redis
    \<Rightarrow> event res option \<times> alarm_redis" where
  "popEvent up queues [] r = (None, r)"
| "popEvent up queues (others # rounds) r =
     (case pop_pass up queues (others r) of
        (None, r) \<Rightarrow> popEvent up queues rounds r
      | (Some (EvText e), r) \<Rightarrow> (Some (Inr e), r)
      | (Some (EvRaw s), r) \<Rightarrow> (Some (Inl (Err ''parse alarm event'')), r))"

section \<open>The lists are queues\<close>

text \<open>Up to \<open>n\<close> pops in a row, as a reader makes them.\<close>

fun rpop_n :: "(nat \<Rightarrow> bool) \<Rightarrow> string \<Rightarrow> nat \<Rightarrow> alarm_redis \<Rightarrow> entry list \<times> alarm_redis" where
  "rpop_n up q 0 r = ([], r)"
| "rpop_n up q (Suc n) r =
     (case rpop up q r of
        (None, r) \<Rightarrow> ([], r)
      | (Some t, r) \<Rightarrow> (let (ts, r) = rpop_n up q n r in (t # ts, r)))"

lemma rpop_waiting:
  "rev (Lists r q) = (case fst (rpop up q r) of None \<Rightarrow> [] | Some t \<Rightarrow> [t]) @ rev (Lists (snd (rpop up q r)) q)"
  by (cases "Lists r q" rule: rev_cases) (auto simp: rpop_def)

lemma rpop_n_waiting: "fst (rpop_n up q n r) @ rev (Lists (snd (rpop_n up q n r)) q) = rev (Lists r q)"
proof (induction n arbitrary: r)
  case (Suc n)
  obtain o' r' where p: "rpop up q r = (o', r')" by force
  show ?case
    using Suc [of r'] rpop_waiting [of r q up]
    by (cases "rpop_n up q n r'") (simp add: p split: option.split)
qed simp

interpretation rq: fifo "\<lambda>t r. (up (Calls r), lpush up q t r)" "rpop_n up q" "\<lambda>r. rev (Lists r q)"
  for up and q :: string
  by unfold_locales (auto simp: lpush_def rpop_n_waiting)

text \<open>A reader that pops everything makes some pops in a row, and keeps what it can read.\<close>

lemma pop_all_rpop_n:
  "\<exists>n. pop_all dec up q r = (List.map_filter (read_entry dec) (fst (rpop_n up q n r)), snd (rpop_n up q n r))"
proof (induction dec up q r rule: pop_all.induct)
  case (1 dec up q r)
  show ?case
  proof (cases "rpop up q r")
    case (Pair o' r')
    show ?thesis
    proof (cases o')
      case None
      then show ?thesis using Pair
        by (intro exI [of _ 1]) (simp add: pop_all.simps [of dec up q r] map_filter_def)
    next
      case (Some t)
      from 1 [OF Pair [symmetric] Some] obtain n where "pop_all dec up q r' =
          (List.map_filter (read_entry dec) (fst (rpop_n up q n r')), snd (rpop_n up q n r'))" by blast
      then show ?thesis using Pair Some
        by (intro exI [of _ "Suc n"])
           (simp add: pop_all.simps [of dec up q r] map_filter_simps split: option.split prod.split)
    qed
  qed
qed

lemma pop_all_up:
  assumes "\<forall>n. up n"
  shows "pop_all dec up q r =
     (List.map_filter (read_entry dec) (rev (Lists r q)),
      r\<lparr>Lists := (Lists r)(q := []), Calls := Calls r + length (Lists r q) + 1\<rparr>)"
proof (induction "length (Lists r q)" arbitrary: r)
  case 0
  then show ?case using assms
    by (subst pop_all.simps) (simp add: rpop_def map_filter_simps fun_upd_idem)
next
  case (Suc n)
  then obtain ts t where l: "Lists r q = ts @ [t]" by (cases "Lists r q" rule: rev_cases) auto
  define r' where "r' = r\<lparr>Calls := Calls r + 1, Lists := (Lists r)(q := ts)\<rparr>"
  have p: "rpop up q r = (Some t, r')" using assms l by (simp add: rpop_def r'_def)
  have "pop_all dec up q r' = (List.map_filter (read_entry dec) (rev ts),
      r'\<lparr>Lists := (Lists r')(q := []), Calls := Calls r' + length ts + 1\<rparr>)"
    using Suc(1) [of r'] Suc(2) l by (simp add: r'_def)
  then show ?case using l
    by (subst pop_all.simps) (simp add: p map_filter_simps r'_def split: option.split)
qed

text \<open>Writing several messages with redis up.\<close>

lemma lpush_up: "up (Calls r) \<Longrightarrow>
    lpush up q t r = r\<lparr>Calls := Calls r + 1, Lists := (Lists r)(q := t # Lists r q)\<rparr>"
  by (simp add: lpush_def)

lemma WriteSms_up: "up (Calls r) \<Longrightarrow> Lists (WriteSms up tos c r) SMS_QUEUE_NAME =
    (if tos = [] then [] else [Json (sms_json \<lparr>sms_Tos = join '','' tos, sms_Content = c\<rparr>)]) @ Lists r SMS_QUEUE_NAME"
  by (simp add: WriteSms_def WriteSmsModel_def lpush_def)

lemma writes_sms:
  assumes "\<forall>n. up n"
  shows "Lists (foldl (\<lambda>r (tos, c). WriteSms up tos c r) r ws) SMS_QUEUE_NAME =
    rev (map (\<lambda>(tos, c). Json (sms_json \<lparr>sms_Tos = join '','' tos, sms_Content = c\<rparr>)) (filter (\<lambda>(tos, _). tos \<noteq> []) ws))
      @ Lists r SMS_QUEUE_NAME"
  by (induction ws arbitrary: r) (auto simp: WriteSms_up assms)

lemma map_filter_read:
  "(\<And>m. dec (enc m) = Some m) \<Longrightarrow> List.map_filter (read_entry dec) (map (\<lambda>m. Json (enc m)) ms) = ms"
  by (induction ms) (simp_all add: map_filter_simps read_entry_def)

section \<open>Properties\<close>

text \<open>
  what is written for the short message channel while redis answers is what its sender pops
  next, message by message, in the order of writing, with the receivers joined by commas; writes
  without receivers leave nothing, and the list is empty afterwards.
\<close>

theorem sms_written_read:
  assumes "\<forall>n. up n" "Lists r SMS_QUEUE_NAME = []"
  shows "let (ms, r') = PopAllSms up (foldl (\<lambda>r (tos, c). WriteSms up tos c r) r ws) in
    ms = map (\<lambda>(tos, c). \<lparr>sms_Tos = join '','' tos, sms_Content = c\<rparr>) (filter (\<lambda>(tos, _). tos \<noteq> []) ws) \<and>
    Lists r' SMS_QUEUE_NAME = []"
proof -
  define ms where "ms = map (\<lambda>(tos, c). \<lparr>sms_Tos = join '','' tos, sms_Content = c\<rparr>) (filter (\<lambda>(tos, _). tos \<noteq> []) ws)"
  have "Lists (foldl (\<lambda>r (tos, c). WriteSms up tos c r) r ws) SMS_QUEUE_NAME = rev (map (\<lambda>m. Json (sms_json m)) ms)"
    unfolding writes_sms [OF assms(1)] using assms(2) by (simp add: ms_def case_prod_beta' comp_def)
  then show ?thesis
    by (simp add: PopAllSms_def pop_all_up assms(1) map_filter_read [of sms_of] ms_def [symmetric])
qed

definition demo_redis :: alarm_redis where
  "demo_redis = \<lparr>Lists = \<lambda>_. [], Events = \<lambda>_. [], Calls = 0\<rparr>"

theorem sms_written_read_witness:
  "fst (PopAllSms (\<lambda>_. True) (foldl (\<lambda>r (tos, c). WriteSms (\<lambda>_. True) tos c r) demo_redis
     [([''ann'', ''bob''], ''x''), ([], ''y''), ([''ann''], ''z'')])) =
   [\<lparr>sms_Tos = ''ann,bob'', sms_Content = ''x''\<rparr>, \<lparr>sms_Tos = ''ann'', sms_Content = ''z''\<rparr>]"
  using sms_written_read [of "\<lambda>_. True" demo_redis "[([''ann'', ''bob''], ''x''), ([], ''y''), ([''ann''], ''z'')]"]
  by (simp add: demo_redis_def case_prod_beta' Let_def)

definition demo_up :: "nat \<Rightarrow> bool" where
  "demo_up n \<longleftrightarrow> n \<noteq> 1"

lemma redis_commands:
  "lpush up q t \<lparr>Lists = l, Events = e, Calls = c\<rparr> =
     (if up c then \<lparr>Lists = l(q := t # l q), Events = e, Calls = c + 1\<rparr> else \<lparr>Lists = l, Events = e, Calls = c + 1\<rparr>)"
  "rpop up q \<lparr>Lists = l, Events = e, Calls = c\<rparr> =
     (if up c \<and> l q \<noteq> [] then (Some (last (l q)), \<lparr>Lists = l(q := butlast (l q)), Events = e, Calls = c + 1\<rparr>)
      else (None, \<lparr>Lists = l, Events = e, Calls = c + 1\<rparr>))"
  by (simp_all add: lpush_def rpop_def)

text \<open>
  whatever commands fail and however the writers of a list and its reader interleave, the
  reader gets the messages that were accepted, each once and in their order.
\<close>

theorem alarm_list_fifo:
  "rq.run up q ops r = (accepted, popped, r') \<Longrightarrow> popped @ rev (Lists r' q) = rev (Lists r q) @ accepted"
  by (rule rq.run_conserves)

theorem alarm_list_fifo_witness:
  "\<exists>popped (r' :: alarm_redis). popped @ rev (Lists r' ''/im'') = [Raw ''a'', Raw ''c'', Raw ''d''] \<and> popped = [Raw ''a'', Raw ''c'']"
proof -
  have run: "rq.run demo_up ''/im'' [Inl (Raw ''a''), Inl (Raw ''b''), Inl (Raw ''c''), Inr (Suc (Suc 0)), Inl (Raw ''d'')] demo_redis =
     ([Raw ''a'', Raw ''c'', Raw ''d''], [Raw ''a'', Raw ''c''],
      \<lparr>Lists = (\<lambda>_. [])(''/im'' := [Raw ''d'']), Events = \<lambda>_. [], Calls = 6\<rparr>)"
    unfolding rq.run.simps demo_redis_def by (simp add: redis_commands demo_up_def)
  show ?thesis
    using alarm_list_fifo [OF run]
    by (intro exI [of _ "[Raw ''a'', Raw ''c'']"]
        exI [of _ "\<lparr>Lists = (\<lambda>_. [])(''/im'' := [Raw ''d'']), Events = \<lambda>_. [], Calls = 6\<rparr>"])
       (simp add: demo_redis_def)
qed

text \<open>
  a pass of the event reader takes the oldest event of the first queue in its list that has
  one, which is how events of a higher priority overtake, leaves all other queues as they are, and
  waits exactly when every queue is empty.
\<close>

theorem popEvent_highest_first:
  assumes "\<forall>n. up n" "\<forall>q. EvRaw '''' \<notin> set (Events (others r) q)"
  shows "case find (\<lambda>q. Events (others r) q \<noteq> []) queues of
      None \<Rightarrow> \<exists>r'. popEvent up queues (others # rounds) r = popEvent up queues rounds r' \<and> Events r' = Events (others r)
    | Some q \<Rightarrow> \<exists>r'. popEvent up queues (others # rounds) r =
          (Some (case last (Events (others r) q) of EvText e \<Rightarrow> Inr e | EvRaw s \<Rightarrow> Inl (Err ''parse alarm event'')), r') \<and>
        Events r' = (Events (others r))(q := butlast (Events (others r) q))"
proof -
  have pass: "case find (\<lambda>q. Events s q \<noteq> []) queues of
      None \<Rightarrow> \<exists>r'. pop_pass up queues s = (None, r') \<and> Events r' = Events s
    | Some q \<Rightarrow> \<exists>r'. pop_pass up queues s = (Some (last (Events s q)), r') \<and>
        Events r' = (Events s)(q := butlast (Events s q))"
    if "\<forall>q. EvRaw '''' \<notin> set (Events s q)" for s
    using that
  proof (induction queues arbitrary: s)
    case (Cons q qs)
    show ?case
    proof (cases "Events s q = []")
      case True
      then have "pop_pass up (q # qs) s = pop_pass up qs (s\<lparr>Calls := Calls s + 1\<rparr>)" by (simp add: rpop_event_def)
      then show ?thesis using True Cons.IH [of "s\<lparr>Calls := Calls s + 1\<rparr>"] Cons.prems
        by (simp add: fun_upd_def del: pop_pass.simps split: option.splits)
    next
      case False
      then have "last (Events s q) \<noteq> EvRaw ''''" using Cons.prems last_in_set by metis
      then have "pop_pass up (q # qs) s = (Some (last (Events s q)),
          s\<lparr>Calls := Calls s + 1, Events := (Events s)(q := butlast (Events s q))\<rparr>)"
        using False by (simp add: rpop_event_def assms(1))
      then show ?thesis using False by (simp del: pop_pass.simps)
    qed
  qed simp
  show ?thesis
    using pass [OF assms(2)]
    by (auto split: option.splits event_text.splits)
qed

definition demo_alarm :: "int \<Rightarrow> event" where
  "demo_alarm p = Event ''s_1'' None (Some \<lparr>ex_Id = 1, ex_Metric = ''qps'', ex_Tags = [], ex_Func = ''all(#1)'',
     ex_Operator = ''>'', ex_RightValue = Zero False, ex_MaxStep = 3, ex_Priority = p, ex_Note = '''', ex_ActionId = 7\<rparr>)
     ''PROBLEM'' ''h1'' (Zero False) 1 60 [] [] False"

theorem popEvent_highest_first_witness:
  "\<exists>r'. popEvent (\<lambda>_. True) [''p0'', ''p1''] [\<lambda>r. r\<lparr>Events := (\<lambda>_. [])(''p1'' := [EvText (demo_alarm 1)])\<rparr>] demo_redis =
    (Some (Inr (demo_alarm 1)), r')"
  using popEvent_highest_first [of "\<lambda>_. True" "\<lambda>r. r\<lparr>Events := (\<lambda>_. [])(''p1'' := [EvText (demo_alarm 1)])\<rparr>"
      demo_redis "[''p0'', ''p1'']" "[]"]
  by (auto simp: demo_redis_def)

end
