(* ===== verification/Alarm_Api.thy ===== *)
theory Alarm_Api
  imports Go_Cache Alarm_Redis
begin

text \<open>
  Module alarm, package \<open>api\<close> (\<open>uic.go\<close>, \<open>portal.go\<close>): who is to be told and how, asked from the api server
  and from the directory of hosts, at most three times, and kept in caches for half an hour. What the
  servers answer to the k-th attempt is part of the environment, \<open>None\<close> an error. Times are in
  nanoseconds.
\<close>

section \<open>Data\<close>

record user =
  us_Name :: string
  us_Email :: string
  us_Phone :: string

record action =
  ac_Id :: int
  ac_Uic :: string
  ac_LarkGroupId :: string
  ac_Url :: string
  ac_Callback :: int
  ac_BeforeCallbackSms :: int
  ac_BeforeCallbackMail :: int
  ac_AfterCallbackSms :: int
  ac_AfterCallbackMail :: int

text \<open>The cache of actions holds values of any type: the tags of hosts are stored in it too.\<close>

datatype cache_entry = CAction action | CString string

record alarm_caches =
  UserCache :: "user list gocache"
  ActionsCache :: "cache_entry gocache"
  EndTplGroupCache :: "string gocache"
  EndTagsCache :: "string gocache"

record alarm_api =
  ap_Now :: int
  ap_Team :: "string \<Rightarrow> nat \<Rightarrow> user list option"
  ap_Action :: "int \<Rightarrow> nat \<Rightarrow> action option"
  ap_TplGroups :: "int \<Rightarrow> string \<Rightarrow> nat \<Rightarrow> string list option"
  ap_Tags :: "string \<Rightarrow> nat \<Rightarrow> string list option"

definition CacheTTl :: int where
  "CacheTTl = 30 * 60 * 1000000000"

section \<open>Three attempts\<close>

fun attempts :: "(nat \<Rightarrow> 'a option) \<Rightarrow> nat \<Rightarrow> nat \<Rightarrow> 'a option" where
  "attempts ask k 0 = None"
| "attempts ask k (Suc n) = (case ask k of Some x \<Rightarrow> Some x | None \<Rightarrow> attempts ask (k + 1) n)"

definition HttpCurlUic :: "alarm_api \<Rightarrow> string \<Rightarrow> user list" where
  "HttpCurlUic api team =
     (if team = '''' then [] else case attempts (ap_Team api team) 0 3 of Some us \<Rightarrow> us | None \<Rightarrow> [])"

definition HttpGetAction :: "alarm_api \<Rightarrow> int \<Rightarrow> action option" where
  "HttpGetAction api i = attempts (ap_Action api i) 0 3"

definition CurlAction :: "alarm_api \<Rightarrow> int \<Rightarrow> action option" where
  "CurlAction api i = (if i \<le> 0 then None else HttpGetAction api i)"

text \<open>
  The names are appended to a slice that already has one empty name per group, unless there is
  exactly one group.
\<close>

definition HttpGetEndpointTplGroups :: "alarm_api \<Rightarrow> int \<Rightarrow> string \<Rightarrow> string" where
  "HttpGetEndpointTplGroups api tplId endpoint =
     (case attempts (ap_TplGroups api tplId endpoint) 0 3 of
        None \<Rightarrow> ''''
      | Some names \<Rightarrow>
          if length names = 1 then hd names else join '','' (replicate (length names) '''' @ names))"

definition getAmsTag :: "alarm_api \<Rightarrow> string \<Rightarrow> nat \<Rightarrow> string" where
  "getAmsTag api endpoint k = (case ap_Tags api endpoint k of None \<Rightarrow> '''' | Some ts \<Rightarrow> join '';'' (sort ts))"

definition HttpGetTag :: "alarm_api \<Rightarrow> string \<Rightarrow> string" where
  "HttpGetTag api endpoint =
     (case attempts (\<lambda>k. if getAmsTag api endpoint k \<noteq> '''' then Some (getAmsTag api endpoint k) else None) 0 3 of
        Some res \<Rightarrow> res | None \<Rightarrow> '''')"

section \<open>Through the caches\<close>

definition UsersOf :: "alarm_api \<Rightarrow> string \<Rightarrow> alarm_caches \<Rightarrow> user list \<times> alarm_caches" where
  "UsersOf api team c =
     (case cache_Get (ap_Now api) team (UserCache c) of
        Some us \<Rightarrow> (us, c)
      | None \<Rightarrow>
          (let curlRes = HttpCurlUic api team
           in (curlRes, c\<lparr>UserCache := cache_Set CacheTTl (ap_Now api) team curlRes 0 (UserCache c)\<rparr>)))"

fun users_loop :: "alarm_api \<Rightarrow> string list \<Rightarrow> (string, user) gomap \<Rightarrow> alarm_caches \<Rightarrow> (string, user) gomap \<times> alarm_caches" where
  "users_loop api [] m c = (m, c)"
| "users_loop api (team # teams) m c =
     (if team = '''' then users_loop api teams m c
      else (let (users, c) = UsersOf api team c
            in users_loop api teams (foldl (\<lambda>m u. gput (us_Name u) u m) m users) c))"

definition GetUsers :: "alarm_api \<Rightarrow> string \<Rightarrow> alarm_caches \<Rightarrow> (string, user) gomap \<times> alarm_caches" where
  "GetUsers api teams c = users_loop api (split (CHR '','') teams) [] c"

text \<open>The two sets of strings have the names of the users and their mail addresses at the company.\<close>

definition ParseTeams :: "alarm_api \<Rightarrow> string \<Rightarrow> alarm_caches \<Rightarrow> (string list \<times> string list) \<times> alarm_caches" where
  "ParseTeams api teams c =
     (if teams = '''' then (([], []), c)
      else (let (userMap, c) = GetUsers api teams c;
                names = remdups (map (\<lambda>(k, u). us_Name u) userMap)
            in ((names, map (\<lambda>n. n @ BYTEMAIL) names), c)))"

text \<open>A text in the cache of actions fails the type assertion.\<close>

definition GetAction :: "alarm_api \<Rightarrow> int \<Rightarrow> alarm_caches \<Rightarrow> (action option \<times> alarm_caches) res" where
  "GetAction api i c =
     (case cache_Get (ap_Now api) (itoa i) (ActionsCache c) of
        Some (CAction a) \<Rightarrow> Inr (Some a, c)
      | Some (CString s) \<Rightarrow> Inl (Panic ''interface conversion'')
      | None \<Rightarrow>
          (case CurlAction api i of
             None \<Rightarrow> Inr (None, c)
           | Some a \<Rightarrow> Inr (Some a, c\<lparr>ActionsCache := cache_Set CacheTTl (ap_Now api) (itoa i) (CAction a) 0 (ActionsCache c)\<rparr>)))"

definition GetEndpointTplGroups :: "alarm_api \<Rightarrow> int \<Rightarrow> string \<Rightarrow> alarm_caches \<Rightarrow> string \<times> alarm_caches" where
  "GetEndpointTplGroups api tplId endpoint c =
     (let key = itoa tplId @ ''_'' @ endpoint in
      case cache_Get (ap_Now api) key (EndTplGroupCache c) of
        Some res \<Rightarrow> (res, c)
      | None \<Rightarrow>
          (let grps = HttpGetEndpointTplGroups api tplId endpoint in
           if grps = '''' then ('''', c)
           else (grps, c\<lparr>EndTplGroupCache := cache_Set CacheTTl (ap_Now api) key grps 0 (EndTplGroupCache c)\<rparr>)))"

definition GetAmsTag :: "alarm_api \<Rightarrow> string \<Rightarrow> alarm_caches \<Rightarrow> string \<times> alarm_caches" where
  "GetAmsTag api endpoint c =
     (case cache_Get (ap_Now api) endpoint (EndTagsCache c) of
        Some res \<Rightarrow> (res, c)
      | None \<Rightarrow>
          (let res = HttpGetTag api endpoint in
           if res = '''' then ('''', c)
           else (res, c\<lparr>ActionsCache := cache_Set CacheTTl (ap_Now api) endpoint (CString res) 0 (ActionsCache c)\<rparr>)))"

section \<open>Who is told\<close>

text \<open>
  The directory at a moment is one list of members per team. The cache answers from it with at
  most half an hour of delay.
\<close>

lemma UsersOf_recent:
  assumes h: "honest (\<lambda>t team. Inr (HttpCurlUic (A t) team)) CacheTTl now (UserCache c)"
    and now: "ap_Now (A now) = now" "0 \<le> now"
  shows "honest (\<lambda>t team. Inr (HttpCurlUic (A t) team)) CacheTTl now (UserCache (snd (UsersOf (A now) team c))) \<and>
    (\<exists>t. now - CacheTTl \<le> t \<and> t \<le> now \<and> fst (UsersOf (A now) team c) = HttpCurlUic (A t) team)"
proof (cases "cache_Get now team (UserCache c)")
  case None
  have d: "cache_Set CacheTTl now team us 0 m = cache_Set CacheTTl now team us CacheTTl m" for us :: "user list" and m
    by (simp add: cache_Set_def default_expiration_def CacheTTl_def)
  have "honest (\<lambda>t team. Inr (HttpCurlUic (A t) team)) CacheTTl now
      (cache_Set CacheTTl now team (HttpCurlUic (A now) team) CacheTTl (UserCache c))"
    by (rule honest_Set [OF h _ now(2)]) (simp_all add: CacheTTl_def)
  moreover have "0 < CacheTTl" by (simp add: CacheTTl_def)
  ultimately show ?thesis using None now
    by (auto simp: UsersOf_def Let_def d intro!: exI [of _ now])
next
  case (Some us)
  then obtain t where "now - CacheTTl \<le> t" "t \<le> now" "(Inr (HttpCurlUic (A t) team) :: user list res) = Inr us"
    using honest_Get [OF h _ Some] by (auto simp: CacheTTl_def)
  with h Some now show ?thesis by (auto simp: UsersOf_def intro!: exI [of _ t])
qed

lemma put_users: "gget (foldl (\<lambda>m u. gput (us_Name u) u m) m users) =
    gget m ++ map_of (rev (map (\<lambda>u. (us_Name u, u)) users))"
  by (induction users arbitrary: m) (simp_all add: map_add_upd_left)

definition named :: "(string, user) gomap \<Rightarrow> bool" where
  "named m \<longleftrightarrow> gwf m \<and> (\<forall>k u. gget m k = Some u \<longrightarrow> us_Name u = k)"

lemma named_put [simp]: "named m \<Longrightarrow> named (gput (us_Name u) u m)"
  by (auto simp: named_def)

lemma named_puts: "named m \<Longrightarrow> named (foldl (\<lambda>m u. gput (us_Name u) u m) m users)"
  by (induction users arbitrary: m) simp_all

lemma named_loop: "named m \<Longrightarrow> named (fst (users_loop api teams m c))"
  by (induction api teams m c rule: users_loop.induct) (auto simp: Let_def named_puts split: prod.split)

lemma named_GetUsers: "named (fst (GetUsers api teams c))"
  unfolding GetUsers_def by (rule named_loop) (simp add: named_def)

text \<open>
  The loop over the teams gathers members of these teams only, and for every team everybody who was a
  member at some moment within the last half hour.
\<close>

definition members_at :: "(int \<Rightarrow> alarm_api) \<Rightarrow> int \<Rightarrow> string \<Rightarrow> string set" where
  "members_at A t team = us_Name ` set (HttpCurlUic (A t) team)"

lemma users_loop_members:
  assumes h: "honest (\<lambda>t team. Inr (HttpCurlUic (A t) team)) CacheTTl now (UserCache c)"
    and now: "ap_Now (A now) = now" "0 \<le> now"
  shows "honest (\<lambda>t team. Inr (HttpCurlUic (A t) team)) CacheTTl now (UserCache (snd (users_loop (A now) teams m c))) \<and>
    dom (gget m) \<subseteq> dom (gget (fst (users_loop (A now) teams m c))) \<and>
    (\<forall>n. n \<in> dom (gget (fst (users_loop (A now) teams m c))) \<longrightarrow> n \<in> dom (gget m) \<or>
       (\<exists>team \<in> set teams. \<exists>t \<in> {now - CacheTTl..now}. n \<in> members_at A t team)) \<and>
    (\<forall>team \<in> set teams. \<exists>t \<in> {now - CacheTTl..now}. members_at A t team \<subseteq> dom (gget (fst (users_loop (A now) teams m c))))"
  using h
proof (induction teams arbitrary: m c)
  case (Cons team teams)
  show ?case
  proof (cases "team = ''''")
    case True
    have "members_at A now '''' = {}" by (simp add: members_at_def HttpCurlUic_def)
    then have "\<exists>t \<in> {now - CacheTTl..now}. members_at A t '''' \<subseteq> X" for X
      by (intro bexI [of _ now]) (auto simp: CacheTTl_def)
    with Cons.IH [OF Cons.prems, of m] True show ?thesis by auto
  next
    case False
    define us where "us = fst (UsersOf (A now) team c)"
    define c' where "c' = snd (UsersOf (A now) team c)"
    define m' where "m' = foldl (\<lambda>m u. gput (us_Name u) u m) m us"
    from UsersOf_recent [OF Cons.prems now, of team] obtain t where
      h': "honest (\<lambda>t team. Inr (HttpCurlUic (A t) team)) CacheTTl now (UserCache c')" and
      t: "t \<in> {now - CacheTTl..now}" "us = HttpCurlUic (A t) team"
      by (auto simp: us_def c'_def)
    have step: "users_loop (A now) (team # teams) m c = users_loop (A now) teams m' c'"
      using False by (simp add: us_def c'_def m'_def Let_def case_prod_beta')
    have dom: "dom (gget m') = dom (gget m) \<union> members_at A t team"
      by (auto simp: m'_def put_users members_at_def t(2) dom_map_of_conv_image_fst image_image)
    define D where "D = dom (gget (fst (users_loop (A now) teams m' c')))"
    from Cons.IH [OF h', of m']
    have hon: "honest (\<lambda>t team. Inr (HttpCurlUic (A t) team)) CacheTTl now (UserCache (snd (users_loop (A now) teams m' c')))"
      and more: "dom (gget m') \<subseteq> D"
      and only: "\<And>n. n \<in> D \<Longrightarrow> n \<in> dom (gget m') \<or> (\<exists>team \<in> set teams. \<exists>t \<in> {now - CacheTTl..now}. n \<in> members_at A t team)"
      and every: "\<And>team. team \<in> set teams \<Longrightarrow> \<exists>t \<in> {now - CacheTTl..now}. members_at A t team \<subseteq> D"
      unfolding D_def by simp_all
    have only': "n \<in> dom (gget m) \<or> (\<exists>x \<in> set (team # teams). \<exists>t \<in> {now - CacheTTl..now}. n \<in> members_at A t x)"
      if "n \<in> D" for n
      using only [OF that] t(1) unfolding dom by auto
    have every': "\<exists>t \<in> {now - CacheTTl..now}. members_at A t x \<subseteq> D" if "x \<in> set (team # teams)" for x
    proof (cases "x \<in> set teams")
      case False
      then have "x = team" using that by simp
      then show ?thesis using t(1) more unfolding dom by (intro bexI [of _ t]) auto
    qed (rule every)
    have "dom (gget m) \<subseteq> D" using more unfolding dom by simp
    with hon only' every' show ?thesis
      unfolding step D_def [symmetric] by (intro conjI allI impI ballI)
  qed
qed simp

section \<open>Properties\<close>

text \<open>
  the users that an alarm for some teams goes to are known by their names, and the api server
  vouches for them: everybody was a member of one of the teams within the last half hour, and for
  each team nobody is missing who was in it at one such moment.
\<close>

theorem users_recent:
  assumes "honest (\<lambda>t team. Inr (HttpCurlUic (A t) team)) CacheTTl now (UserCache c)" "ap_Now (A now) = now" "0 \<le> now"
  shows "let users = fst (GetUsers (A now) teams c) in named users \<and>
    (\<forall>n \<in> dom (gget users). \<exists>team \<in> set (split (CHR '','') teams). \<exists>t \<in> {now - CacheTTl..now}. n \<in> members_at A t team) \<and>
    (\<forall>team \<in> set (split (CHR '','') teams). \<exists>t \<in> {now - CacheTTl..now}. members_at A t team \<subseteq> dom (gget users))"
  using users_loop_members [OF assms, of "split (CHR '','') teams" "[]"] named_GetUsers [of "A now" teams c]
  by (simp add: GetUsers_def Let_def)

definition demo_api :: alarm_api where
  "demo_api = \<lparr>ap_Now = 0, ap_Team = \<lambda>team k. if team = ''ops'' \<and> k = 1 then Some [\<lparr>us_Name = ''ann'', us_Email = ''a@xxx.com'', us_Phone = ''1''\<rparr>] else None,
     ap_Action = \<lambda>i k. Some \<lparr>ac_Id = i, ac_Uic = ''ops'', ac_LarkGroupId = '''', ac_Url = '''', ac_Callback = 0,
       ac_BeforeCallbackSms = 0, ac_BeforeCallbackMail = 0, ac_AfterCallbackSms = 0, ac_AfterCallbackMail = 0\<rparr>,
     ap_TplGroups = \<lambda>t e k. Some [''web'', ''db''], ap_Tags = \<lambda>e k. Some [''owt.b'', ''cop.a'']\<rparr>"

definition no_caches :: alarm_caches where
  "no_caches = \<lparr>UserCache = [], ActionsCache = [], EndTplGroupCache = [], EndTagsCache = []\<rparr>"

theorem users_recent_witness:
  "\<exists>t \<in> {0 - CacheTTl..0}. members_at (\<lambda>_. demo_api) t ''ops'' \<subseteq> dom (gget (fst (GetUsers demo_api ''ops,dev'' no_caches)))"
  using users_recent [of "\<lambda>_. demo_api" 0 no_caches "''ops,dev''"]
  by (simp add: no_caches_def demo_api_def Let_def)

text \<open>
  a team that cannot be looked up is remembered as a team without members, for half an hour,
  whatever the api server answers in that time.
\<close>

theorem failed_team_remembered:
  assumes "team \<noteq> ''''" "\<And>k. ap_Team api team k = None" "cache_Get (ap_Now api) team (UserCache c) = None"
    and "0 \<le> ap_Now api" "ap_Now later \<in> {ap_Now api..ap_Now api + CacheTTl}"
  shows "fst (UsersOf later team (snd (UsersOf api team c))) = []"
  using assms
  by (simp add: UsersOf_def HttpCurlUic_def eval_nat_numeral cache_Get_def cache_Set_def default_expiration_def
      CacheTTl_def Let_def)

theorem failed_team_remembered_witness:
  "fst (UsersOf (demo_api\<lparr>ap_Now := 60\<rparr>) ''ops'' (snd (UsersOf (demo_api\<lparr>ap_Team := \<lambda>_ _. None\<rparr>) ''ops'' no_caches))) = []"
  by (rule failed_team_remembered) (simp_all add: demo_api_def no_caches_def cache_Get_def CacheTTl_def)

text \<open>
  the tags of a host are put into the cache of actions instead of their own. For half an hour
  the action whose number is the name of that host cannot be looked up without a panic, and the tags
  themselves are asked for again with every alarm.
\<close>

theorem tags_in_wrong_cache:
  assumes "HttpGetTag api (itoa i) \<noteq> ''''" "EndTagsCache c = []"
    and "0 \<le> ap_Now api" "ap_Now later \<in> {ap_Now api..ap_Now api + CacheTTl}"
  shows "is_panic (GetAction later i (snd (GetAmsTag api (itoa i) c))) \<and> EndTagsCache (snd (GetAmsTag api (itoa i) c)) = []"
  using assms
  by (simp add: GetAmsTag_def GetAction_def cache_Get_def cache_Set_def default_expiration_def CacheTTl_def Let_def)

theorem tags_in_wrong_cache_witness:
  "is_panic (GetAction demo_api 7 (snd (GetAmsTag demo_api ''7'' no_caches)))"
proof -
  have i: "itoa 7 = ''7''" and t: "HttpGetTag demo_api ''7'' \<noteq> ''''" by code_simp+
  show ?thesis
    using tags_in_wrong_cache [of demo_api 7 no_caches demo_api] i t by (simp add: no_caches_def demo_api_def CacheTTl_def)
qed

text \<open>
  the names of the groups of a host are listed after as many empty names as there are groups.
\<close>

theorem group_names_padded:
  assumes "\<And>k. ap_TplGroups api tplId endpoint k = Some names" "length names \<noteq> 1"
  shows "HttpGetEndpointTplGroups api tplId endpoint = join '','' (replicate (length names) '''' @ names)"
  using assms by (simp add: HttpGetEndpointTplGroups_def eval_nat_numeral)

theorem group_names_padded_witness:
  "HttpGetEndpointTplGroups demo_api 1 ''h'' = '',,web,db''"
  using group_names_padded [of demo_api 1 "''h''" "[''web'', ''db'']"] by (simp add: demo_api_def eval_nat_numeral)

end
