(* ===== verification/Alarm_Block.thy ===== *)
theory Alarm_Block
  imports Alarm_Api
begin

text \<open>
  Module alarm, muting (\<open>cron/block.go\<close>, \<open>cron/get_block_monitor.go\<close>, \<open>http/controller.go\<close>): a user can
  mute a metric, or a metric of one endpoint, for a time. The mute is a key with an expiry in redis and
  a member of a set of such keys; every instance of alarm keeps its own copy of the set and brings it up
  to date each minute. The n-th command to redis succeeds when \<open>up n\<close>; times are in seconds.
\<close>

section \<open>State\<close>

definition BLOCK_MONITOR_KEY_PREFIX :: string where
  "BLOCK_MONITOR_KEY_PREFIX = ''single_block_monitor_''"

type_synonym counters = "(string, string) gomap"

record block_redis =
  BlockSet :: "string list" \<comment> \<open>the members of \<open>block_monitor_set\<close>, as SMEMBERS lists them\<close>
  BlockKeys :: "string \<Rightarrow> (string \<times> int) option" \<comment> \<open>value and time of expiry\<close>
  BlockCalls :: nat

section \<open>Commands\<close>

text \<open>SETEX refuses a time that is not positive.\<close>

definition cmd_SETEX :: "(nat \<Rightarrow> bool) \<Rightarrow> int \<Rightarrow> string \<Rightarrow> int \<Rightarrow> block_redis \<Rightarrow> bool \<times> block_redis" where
  "cmd_SETEX up now key secs r =
     (let ok = up (BlockCalls r) \<and> 0 < secs; r' = r\<lparr>BlockCalls := BlockCalls r + 1\<rparr>
      in (ok, if ok then r'\<lparr>BlockKeys := (BlockKeys r)(key \<mapsto> (itoa secs, now + secs))\<rparr> else r'))"

definition cmd_SADD :: "(nat \<Rightarrow> bool) \<Rightarrow> string \<Rightarrow> block_redis \<Rightarrow> bool \<times> block_redis" where
  "cmd_SADD up key r =
     (let ok = up (BlockCalls r); r' = r\<lparr>BlockCalls := BlockCalls r + 1\<rparr>
      in (ok, if ok then r'\<lparr>BlockSet := List.insert key (BlockSet r)\<rparr> else r'))"

definition cmd_SREM :: "(nat \<Rightarrow> bool) \<Rightarrow> string \<Rightarrow> block_redis \<Rightarrow> bool \<times> block_redis" where
  "cmd_SREM up key r =
     (let ok = up (BlockCalls r); r' = r\<lparr>BlockCalls := BlockCalls r + 1\<rparr>
      in (ok, if ok then r'\<lparr>BlockSet := removeAll key (BlockSet r)\<rparr> else r'))"

definition cmd_DEL :: "(nat \<Rightarrow> bool) \<Rightarrow> string \<Rightarrow> block_redis \<Rightarrow> bool \<times> block_redis" where
  "cmd_DEL up key r =
     (let ok = up (BlockCalls r); r' = r\<lparr>BlockCalls := BlockCalls r + 1\<rparr>
      in (ok, if ok then r'\<lparr>BlockKeys := (BlockKeys r)(key := None)\<rparr> else r'))"

definition live :: "int \<Rightarrow> string \<Rightarrow> block_redis \<Rightarrow> string option" where
  "live now key r = (case BlockKeys r key of Some (v, e) \<Rightarrow> (if now < e then Some v else None) | None \<Rightarrow> None)"

text \<open>GET as \<open>redis.String\<close> returns it: the empty string for a failure and for a key that is gone.\<close>

definition cmd_GET :: "(nat \<Rightarrow> bool) \<Rightarrow> int \<Rightarrow> string \<Rightarrow> block_redis \<Rightarrow> string \<times> block_redis" where
  "cmd_GET up now key r =
     ((if up (BlockCalls r) then case live now key r of Some v \<Rightarrow> v | None \<Rightarrow> '''' else ''''),
      r\<lparr>BlockCalls := BlockCalls r + 1\<rparr>)"

section \<open>Bringing the copy up to date\<close>

text \<open>
  The error that is checked after GET is that of SMEMBERS, so an empty reply always removes the mute.
\<close>

fun refresh_items :: "(nat \<Rightarrow> bool) \<Rightarrow> int \<Rightarrow> string list \<Rightarrow> counters \<times> block_redis \<Rightarrow> counters \<times> block_redis" where
  "refresh_items up now [] cr = cr"
| "refresh_items up now (item # items) (c, r) =
     (let (v, r) = cmd_GET up now item r in
      refresh_items up now items
        (if v = '''' then (gdel item c, snd (cmd_SREM up item r)) else (gput item v c, r)))"

definition GetBlockMonitors :: "(nat \<Rightarrow> bool) \<Rightarrow> int \<Rightarrow> counters \<times> block_redis \<Rightarrow> counters \<times> block_redis" where
  "GetBlockMonitors up now cr =
     (let (c, r) = cr; r' = r\<lparr>BlockCalls := BlockCalls r + 1\<rparr> in
      if \<not> up (BlockCalls r) \<or> BlockSet r = [] then (c, r') else refresh_items up now (BlockSet r) (c, r'))"

section \<open>Muting and its end\<close>

record block_input =
  bi_Counter :: string
  bi_UserName :: string
  bi_Time :: int

definition block_key :: "string \<Rightarrow> string \<Rightarrow> string" where
  "block_key user counter = BLOCK_MONITOR_KEY_PREFIX @ user @ ''_'' @ counter"

text \<open>
  \<open>string(i)\<close> of an integer is the UTF-8 text of the character with that number, and that of U+FFFD
  when there is none.
\<close>

definition rune_text :: "int \<Rightarrow> string" where
  "rune_text i =
     (let n = nat i; ch = (\<lambda>k. char_of (k :: nat)) in
      if i < 0 \<or> 0x10FFFF < i \<or> (0xD800 \<le> i \<and> i \<le> 0xDFFF) then [CHR 0xEF, CHR 0xBF, CHR 0xBD]
      else if n < 0x80 then [ch n]
      else if n < 0x800 then [ch (0xC0 + n div 64), ch (0x80 + n mod 64)]
      else if n < 0x10000 then [ch (0xE0 + n div 4096), ch (0x80 + n div 64 mod 64), ch (0x80 + n mod 64)]
      else [ch (0xF0 + n div 262144), ch (0x80 + n div 4096 mod 64), ch (0x80 + n div 64 mod 64), ch (0x80 + n mod 64)])"

text \<open>
  The handlers of POST and DELETE \<open>/blockmonitor\<close>; \<open>None\<close> is a body that cannot be bound. The result
  starts with the status codes of the replies written, which can be several.
\<close>

definition CreateBlockMonitor :: "(nat \<Rightarrow> bool) \<Rightarrow> int \<Rightarrow> block_input option \<Rightarrow> counters \<times> block_redis
    \<Rightarrow> int list \<times> counters \<times> block_redis" where
  "CreateBlockMonitor up now inputs cr =
     (case inputs of
        None \<Rightarrow> ([400], cr)
      | Some i \<Rightarrow>
          if bi_UserName i = '''' then ([400], cr)
          else (let (c, r) = cr; blockKey = block_key (bi_UserName i) (bi_Counter i);
                    (ok, r) = cmd_SETEX up now blockKey (bi_Time i) r;
                    (ok', r) = cmd_SADD up blockKey r
                in ((if ok then [200] else [400, 200]), gput blockKey (rune_text (bi_Time i)) c, r)))"

definition DeleteBlockMonitor :: "(nat \<Rightarrow> bool) \<Rightarrow> block_input option \<Rightarrow> counters \<times> block_redis
    \<Rightarrow> int list \<times> counters \<times> block_redis" where
  "DeleteBlockMonitor up inputs cr =
     (case inputs of
        None \<Rightarrow> ([400], cr)
      | Some i \<Rightarrow>
          (let (c, r) = cr; blockKey = block_key (bi_UserName i) (bi_Counter i);
               (ok, r) = cmd_DEL up blockKey r;
               (ok', r) = cmd_SREM up blockKey r
           in ((if ok then [] else [400]) @ (if ok' then [] else [400]) @ [200], gdel blockKey c, r)))"

section \<open>Who is not told\<close>

text \<open>The loop over the users; the metric of the event is read for each, and a nil rule panics.\<close>

fun filter_blocked :: "event \<Rightarrow> counters \<Rightarrow> (string, user) gomap \<Rightarrow> (string, user) gomap \<Rightarrow> (string, user) gomap res" where
  "filter_blocked e c [] m = Inr m"
| "filter_blocked e c ((userName, u) # us) m =
     bind_res (Metric e) (\<lambda>metric.
       filter_blocked e c us
         (if gget c (block_key userName (ev_Endpoint e @ ''_'' @ metric)) = None \<and> gget c (block_key userName metric) = None
          then gput userName u m else m))"

definition CommonFilterBlock :: "event \<Rightarrow> counters \<Rightarrow> (string, user) gomap \<Rightarrow> (string, user) gomap res" where
  "CommonFilterBlock e c userMap = filter_blocked e c userMap []"

section \<open>Facts\<close>

lemma filter_blocked_eq:
  assumes "Metric e = Inr metric" "gwf us" "\<And>k. k \<in> set (gkeys us) \<Longrightarrow> gget m k = None"
  shows "\<exists>m'. filter_blocked e c us m = Inr m' \<and>
    (\<forall>u. gget m' u = (if gget c (block_key u (ev_Endpoint e @ ''_'' @ metric)) = None \<and> gget c (block_key u metric) = None
       then gget (m @ us) u else gget m u))"
  using assms(2,3)
proof (induction us arbitrary: m)
  case (Cons x us)
  obtain n u where x: "x = (n, u)" by force
  define m1 where "m1 = (if gget c (block_key n (ev_Endpoint e @ ''_'' @ metric)) = None \<and> gget c (block_key n metric) = None
     then gput n u m else m)"
  have wf: "gwf us" "n \<notin> set (gkeys us)" using Cons.prems(1) by (auto simp: gwf_def x)
  have none: "gget us n = None" "gget m n = None" using wf(2) Cons.prems(2) by (simp_all add: map_of_eq_None_iff x)
  have "gget m1 k = None" if "k \<in> set (gkeys us)" for k
    using that wf(2) Cons.prems(2) [of k] by (auto simp: m1_def x)
  from Cons.IH [OF wf(1) this] obtain m' where m': "filter_blocked e c us m1 = Inr m'"
    and get: "\<And>v. gget m' v = (if gget c (block_key v (ev_Endpoint e @ ''_'' @ metric)) = None \<and> gget c (block_key v metric) = None
       then gget (m1 @ us) v else gget m1 v)"
    by blast
  have "gget m' v = (if gget c (block_key v (ev_Endpoint e @ ''_'' @ metric)) = None \<and> gget c (block_key v metric) = None
       then gget (m @ x # us) v else gget m v)" for v
  proof (cases "v = n")
    case True
    then show ?thesis by (simp add: get m1_def x none map_add_def)
  next
    case False
    then have "gget (m1 @ us) v = gget (m @ x # us) v" "gget m1 v = gget m v"
      by (simp_all add: m1_def x map_add_def split: option.split)
    then show ?thesis by (simp add: get)
  qed
  moreover have "filter_blocked e c (x # us) m = Inr m'" using m' assms(1) by (simp add: x m1_def)
  ultimately show ?case by blast
qed simp

text \<open>An entry of the set is over when GET has nothing for it.\<close>

definition over :: "int \<Rightarrow> block_redis \<Rightarrow> string \<Rightarrow> bool" where
  "over now r k \<longleftrightarrow> (case live now k r of Some v \<Rightarrow> v = '''' | None \<Rightarrow> True)"

lemma refresh_keys: "BlockKeys (snd (refresh_items up now items (c, r))) = BlockKeys r"
  by (induction items arbitrary: c r) (auto simp: cmd_GET_def cmd_SREM_def Let_def)

lemma refresh_up:
  assumes "\<forall>n. up n"
  shows "refresh_items up now items (c, r) = (c', r') \<Longrightarrow>
    (\<forall>k. gget c' k = (if k \<in> set items then (if over now r k then None else live now k r) else gget c k)) \<and>
    set (BlockSet r') = set (BlockSet r) - {k \<in> set items. over now r k}"
proof (induction items arbitrary: c r)
  case (Cons i items)
  define v where "v = (case live now i r of Some v \<Rightarrow> v | None \<Rightarrow> '''')"
  define c1 where "c1 = (if v = '''' then gdel i c else gput i v c)"
  define r1 where "r1 = (if v = '''' then r\<lparr>BlockCalls := BlockCalls r + 2, BlockSet := removeAll i (BlockSet r)\<rparr>
     else r\<lparr>BlockCalls := BlockCalls r + 1\<rparr>)"
  have "refresh_items up now (i # items) (c, r) = refresh_items up now items (c1, r1)"
    using assms by (simp add: cmd_GET_def cmd_SREM_def c1_def r1_def v_def Let_def)
  with Cons.prems have run: "refresh_items up now items (c1, r1) = (c', r')" by simp
  have l: "live now k r1 = live now k r" for k by (simp add: live_def r1_def)
  then have o: "over now r1 k = over now r k" for k by (simp add: over_def)
  have v: "v = '''' \<longleftrightarrow> over now r i" by (simp add: v_def over_def split: option.split)
  have lv: "v \<noteq> '''' \<Longrightarrow> live now i r = Some v" by (simp add: v_def split: option.splits)
  from Cons.IH [OF run] have get: "\<And>k. gget c' k = (if k \<in> set items then (if over now r k then None else live now k r) else gget c1 k)"
    and set: "set (BlockSet r') = set (BlockSet r1) - {k \<in> set items. over now r k}"
    by (simp_all add: l o)
  have "gget c' k = (if k \<in> set (i # items) then (if over now r k then None else live now k r) else gget c k)" for k
  proof (cases "k = i")
    case True
    then show ?thesis using v lv by (cases "v = ''''") (simp_all add: get c1_def)
  next
    case False
    then show ?thesis by (simp add: get c1_def)
  qed
  moreover have "set (BlockSet r1) = set (BlockSet r) - (if over now r i then {i} else {})"
    using v by (simp add: r1_def)
  then have "set (BlockSet r') = set (BlockSet r) - {k \<in> set (i # items). over now r k}"
    unfolding set by auto
  ultimately show ?case by blast
qed simp

section \<open>One instance over time\<close>

datatype block_op = Mute int block_input | Unmute block_input | Refresh int

fun block_do :: "(nat \<Rightarrow> bool) \<Rightarrow> counters \<times> block_redis \<Rightarrow> block_op \<Rightarrow> counters \<times> block_redis" where
  "block_do up cr (Mute now i) = snd (CreateBlockMonitor up now (Some i) cr)"
| "block_do up cr (Unmute i) = snd (DeleteBlockMonitor up (Some i) cr)"
| "block_do up cr (Refresh now) = GetBlockMonitors up now cr"

text \<open>Every mute of the copy is in the set: what one instance with a working redis keeps.\<close>

definition copied :: "counters \<times> block_redis \<Rightarrow> bool" where
  "copied = (\<lambda>(c, r). dom (gget c) \<subseteq> set (BlockSet r))"

lemma create_up:
  "\<forall>n. up n \<Longrightarrow> bi_UserName i \<noteq> '''' \<Longrightarrow> snd (CreateBlockMonitor up now (Some i) (c, r)) =
    (let k = block_key (bi_UserName i) (bi_Counter i) in
     (gput k (rune_text (bi_Time i)) c,
      r\<lparr>BlockCalls := BlockCalls r + 2, BlockSet := List.insert k (BlockSet r),
        BlockKeys := (if 0 < bi_Time i then (BlockKeys r)(k \<mapsto> (itoa (bi_Time i), now + bi_Time i)) else BlockKeys r)\<rparr>))"
  by (simp add: CreateBlockMonitor_def cmd_SETEX_def cmd_SADD_def Let_def)

lemma delete_up:
  "\<forall>n. up n \<Longrightarrow> snd (DeleteBlockMonitor up (Some i) (c, r)) =
    (let k = block_key (bi_UserName i) (bi_Counter i) in
     (gdel k c, r\<lparr>BlockCalls := BlockCalls r + 2, BlockSet := removeAll k (BlockSet r), BlockKeys := (BlockKeys r)(k := None)\<rparr>))"
  by (simp add: DeleteBlockMonitor_def cmd_DEL_def cmd_SREM_def Let_def)

lemma refresh_up_all:
  assumes "\<forall>n. up n" "copied (c, r)"
  shows "\<exists>c' r'. GetBlockMonitors up now (c, r) = (c', r') \<and> BlockKeys r' = BlockKeys r \<and>
    (\<forall>k. gget c' k = (if k \<in> set (BlockSet r) \<and> \<not> over now r k then live now k r else None)) \<and>
    set (BlockSet r') = {k \<in> set (BlockSet r). \<not> over now r k}"
proof (cases "BlockSet r = []")
  case True
  then show ?thesis using assms by (auto simp: GetBlockMonitors_def copied_def)
next
  case False
  define r1 where "r1 = r\<lparr>BlockCalls := BlockCalls r + 1\<rparr>"
  obtain c' r' where run: "refresh_items up now (BlockSet r) (c, r1) = (c', r')" by force
  have same: "over now r1 k = over now r k" "live now k r1 = live now k r" for k
    by (simp_all add: over_def live_def r1_def)
  have "gget c k = None" if "k \<notin> set (BlockSet r)" for k
    using that assms(2) by (auto simp: copied_def domIff)
  then show ?thesis
    using refresh_up [OF assms(1) run] refresh_keys [of up now "BlockSet r" c r1] False assms(1) run
    by (intro exI [of _ c'] exI [of _ r']) (auto simp: GetBlockMonitors_def r1_def [symmetric] same, auto simp: r1_def)
qed

lemma copied_do:
  assumes "\<forall>n. up n" "copied cr"
  shows "copied (block_do up cr op)"
proof -
  obtain c r where cr: "cr = (c, r)" by force
  show ?thesis
  proof (cases op)
    case (Mute now i)
    show ?thesis
    proof (cases "bi_UserName i = ''''")
      case True
      then show ?thesis using assms(2) Mute by (simp add: CreateBlockMonitor_def)
    next
      case False
      then show ?thesis using assms Mute by (auto simp: cr create_up Let_def copied_def)
    qed
  next
    case (Unmute i)
    then show ?thesis using assms by (auto simp: cr delete_up Let_def copied_def split: if_splits)
  next
    case (Refresh now)
    with refresh_up_all [OF assms(1) assms(2) [unfolded cr], of now] show ?thesis
      by (auto simp: cr copied_def split: if_splits)
  qed
qed

lemma CommonFilterBlock_eq:
  assumes "Metric e = Inr metric" "gwf users"
  shows "\<exists>told. CommonFilterBlock e c users = Inr told \<and>
    (\<forall>u. gget told u = (if gget c (block_key u (ev_Endpoint e @ ''_'' @ metric)) = None \<and> gget c (block_key u metric) = None
       then gget users u else None))"
proof -
  obtain told where "filter_blocked e c users [] = Inr told"
    "\<forall>u. gget told u = (if gget c (block_key u (ev_Endpoint e @ ''_'' @ metric)) = None \<and> gget c (block_key u metric) = None
       then gget ([] @ users) u else gget [] u)"
    using filter_blocked_eq [OF assms, of "[]" c] by auto
  then show ?thesis by (intro exI [of _ told]) (simp add: CommonFilterBlock_def)
qed

section \<open>Properties\<close>

text \<open>
  of the users an alarm is for, exactly those are left who have muted neither its metric nor
  its metric on its endpoint, each with the data they had.
\<close>

theorem muted_not_told:
  assumes "Metric e = Inr metric" "gwf users"
  shows "\<exists>told. CommonFilterBlock e c users = Inr told \<and>
    (\<forall>u. gget told u = (if gget c (block_key u (ev_Endpoint e @ ''_'' @ metric)) = None \<and> gget c (block_key u metric) = None
       then gget users u else None))"
  using assms by (rule CommonFilterBlock_eq)

definition demo_muted :: counters where
  "demo_muted = [(block_key ''ann'' ''h1_qps'', ''x''), (block_key ''bob'' ''load'', ''x'')]"

theorem muted_not_told_witness:
  "\<exists>told. CommonFilterBlock (demo_alarm 1) demo_muted
      [(''ann'', \<lparr>us_Name = ''ann'', us_Email = '''', us_Phone = ''''\<rparr>), (''bob'', \<lparr>us_Name = ''bob'', us_Email = '''', us_Phone = ''''\<rparr>)]
      = Inr told \<and> gget told ''ann'' = None \<and> gget told ''bob'' \<noteq> None"
proof -
  have m: "Metric (demo_alarm 1) = Inr ''qps''" by (simp add: Metric_def demo_alarm_def)
  have k: "gget demo_muted (block_key ''ann'' (ev_Endpoint (demo_alarm 1) @ ''_'' @ ''qps'')) \<noteq> None"
    "gget demo_muted (block_key ''bob'' (ev_Endpoint (demo_alarm 1) @ ''_'' @ ''qps'')) = None"
    "gget demo_muted (block_key ''bob'' ''qps'') = None" by code_simp+
  show ?thesis
    using muted_not_told [OF m, of "[(''ann'', \<lparr>us_Name = ''ann'', us_Email = '''', us_Phone = ''''\<rparr>), (''bob'', \<lparr>us_Name = ''bob'', us_Email = '''', us_Phone = ''''\<rparr>)]" demo_muted] k
    by (auto simp: gwf_def)
qed

text \<open>
  What may happen while a mute is in force: not its own end, and no shorter mute of the same key.
\<close>

fun keeps_mute :: "string \<Rightarrow> int \<Rightarrow> block_op \<Rightarrow> bool" where
  "keeps_mute key until (Mute now i) \<longleftrightarrow>
     bi_UserName i = '''' \<or> block_key (bi_UserName i) (bi_Counter i) \<noteq> key \<or> bi_Time i \<le> 0 \<or> until \<le> now + bi_Time i"
| "keeps_mute key until (Unmute i) \<longleftrightarrow> block_key (bi_UserName i) (bi_Counter i) \<noteq> key"
| "keeps_mute key until (Refresh now) \<longleftrightarrow> now < until"

definition mute_lives :: "string \<Rightarrow> int \<Rightarrow> counters \<times> block_redis \<Rightarrow> bool" where
  "mute_lives key until = (\<lambda>(c, r). copied (c, r) \<and> gget c key \<noteq> None \<and>
     (\<exists>v e. BlockKeys r key = Some (v, e) \<and> v \<noteq> '''' \<and> until \<le> e))"

lemma itoa_nonempty [simp]: "itoa i \<noteq> []"
  by (simp add: itoa_def)

lemma mute_lives_do:
  assumes "\<forall>n. up n" "mute_lives key until cr" "keeps_mute key until op"
  shows "mute_lives key until (block_do up cr op)"
proof -
  obtain c r where cr: "cr = (c, r)" by force
  have cop: "copied (block_do up (c, r) op)"
    using copied_do [OF assms(1), of "(c, r)" op] assms(2) by (simp add: mute_lives_def cr)
  show ?thesis
  proof (cases op)
    case (Mute now i)
    show ?thesis
    proof (cases "bi_UserName i = ''''")
      case True
      then show ?thesis using assms(2) Mute by (simp add: CreateBlockMonitor_def)
    next
      case False
      then show ?thesis using assms Mute cop by (auto simp: cr create_up Let_def mute_lives_def)
    qed
  next
    case (Unmute i)
    then show ?thesis using assms cop by (auto simp: cr delete_up Let_def mute_lives_def)
  next
    case (Refresh now)
    from assms(2) obtain v e where k: "copied (c, r)" "gget c key \<noteq> None" "BlockKeys r key = Some (v, e)" "v \<noteq> ''''" "until \<le> e"
      by (auto simp: cr mute_lives_def)
    have "now < e" using assms(3) k(5) Refresh by simp
    then have l: "live now key r = Some v" "\<not> over now r key" using k(3,4) by (simp_all add: live_def over_def)
    have "key \<in> set (BlockSet r)" using k(1,2) by (auto simp: copied_def)
    with refresh_up_all [OF assms(1) k(1), of now] l k Refresh cop show ?thesis
      by (auto simp: cr mute_lives_def)
  qed
qed


definition no_blocks :: "counters \<times> block_redis" where
  "no_blocks = ([], \<lparr>BlockSet = [], BlockKeys = \<lambda>_. None, BlockCalls = 0\<rparr>)"

definition demo_mute :: block_input where
  "demo_mute = \<lparr>bi_Counter = ''h1_qps'', bi_UserName = ''ann'', bi_Time = 10800\<rparr>"


text \<open>
  instances share the set. The first one that sees a mute expire takes it out of the set, and
  then no refresh of another instance that still has it removes it there: the user hears nothing more
  from that instance about the metric until somebody unmutes it or the process is restarted.
\<close>

theorem mute_never_ends_elsewhere:
  assumes "\<forall>n. up n" "copied (c1, r)" "key \<in> set (BlockSet r)" "over now r key" "gget c2 key = Some v"
  shows "let r' = snd (GetBlockMonitors up now (c1, r)) in
    key \<notin> set (BlockSet r') \<and> gget (fst (foldl (\<lambda>cr t. GetBlockMonitors up t cr) (c2, r') ticks)) key = Some v"
proof -
  obtain c' r' where first: "GetBlockMonitors up now (c1, r) = (c', r')" "set (BlockSet r') = {k \<in> set (BlockSet r). \<not> over now r k}"
    using refresh_up_all [OF assms(1,2), of now] by blast
  then have gone: "key \<notin> set (BlockSet r')" using assms(4) by simp
  have "gget (fst (foldl (\<lambda>cr t. GetBlockMonitors up t cr) (c, s) ticks)) key = Some v"
    if "key \<notin> set (BlockSet s)" "gget c key = Some v" for c s
    using that
  proof (induction ticks arbitrary: c s)
    case (Cons t ticks)
    obtain c' s' where n: "GetBlockMonitors up t (c, s) = (c', s')" by force
    have "key \<notin> set (BlockSet s') \<and> gget c' key = Some v"
    proof (cases "BlockSet s = []")
      case True
      then show ?thesis using n Cons.prems by (auto simp: GetBlockMonitors_def)
    next
      case False
      then have "refresh_items up t (BlockSet s) (c, s\<lparr>BlockCalls := BlockCalls s + 1\<rparr>) = (c', s')"
        using n assms(1) by (simp add: GetBlockMonitors_def)
      from refresh_up [OF assms(1) this] show ?thesis using Cons.prems by simp
    qed
    then show ?case using Cons.IH n by simp
  qed simp
  with gone first(1) assms(5) show ?thesis by simp
qed

theorem mute_never_ends_elsewhere_witness:
  "\<exists>r'. ''m'' \<notin> set (BlockSet r') \<and>
     gget (fst (foldl (\<lambda>cr t. GetBlockMonitors (\<lambda>_. True) t cr) ([(''m'', ''x'')], r') [200, 260, 320])) ''m'' = Some ''x''"
  using mute_never_ends_elsewhere [of "\<lambda>_. True" "[(''m'', ''x'')]" "\<lparr>BlockSet = [''m''], BlockKeys = \<lambda>_. Some (''9'', 100), BlockCalls = 0\<rparr>"
      "''m''" 100 "[(''m'', ''x'')]" "''x''" "[200, 260, 320]"]
  unfolding Let_def by (auto simp: copied_def over_def live_def)

text \<open>
  one failed GET during a refresh ends a mute that is in force, in the copy and in the set.
\<close>

theorem failed_get_unmutes:
  assumes "BlockSet r = [key]" "\<And>n. up n \<longleftrightarrow> n \<noteq> BlockCalls r + 1"
  shows "gget (fst (GetBlockMonitors up now (c, r))) key = None \<and> BlockSet (snd (GetBlockMonitors up now (c, r))) = []"
  using assms by (simp add: GetBlockMonitors_def cmd_GET_def cmd_SREM_def Let_def)

theorem failed_get_unmutes_witness:
  "gget (fst (GetBlockMonitors (\<lambda>n. n \<noteq> 1) 50 ([(''m'', ''x'')],
     \<lparr>BlockSet = [''m''], BlockKeys = \<lambda>_. Some (''9'', 100), BlockCalls = 0\<rparr>))) ''m'' = None"
  using failed_get_unmutes [of "\<lparr>BlockSet = [''m''], BlockKeys = \<lambda>_. Some (''9'', 100), BlockCalls = 0\<rparr>" "''m''" "\<lambda>n. n \<noteq> 1"]
  by simp

end
