(* ===== verification/Alarm_Send.thy ===== *)
theory Alarm_Send
  imports Alarm_Api Common_Utils
begin

text \<open>
  Module alarm, the senders (\<open>cron/im_sender.go\<close>, \<open>sms_sender.go\<close>, \<open>mail_sender.go\<close>, \<open>phone_sender.go\<close>): each
  pops all messages of its channel and hands them to goroutines, at most as many at a time as its
  channel of workers has room for, which post them to the gateways. The posts made are a log; what the
  n-th post is answered is the argument \<open>answer\<close>.
\<close>

section \<open>Posts\<close>

text \<open>
  A request could not be made or its answer not be read, the answer was the JSON value null (the
  pointer it is read into stays nil), or it has a code. A post to the chat server has a body and a
  token, one to the other gateways its parameters.
\<close>

datatype outcome = NoAnswer | NullAnswer | Code int

datatype post = PostIM string string | PostSms string string | PostMail string string string | PostPhone string string

record alarm_posts =
  Posts :: "post list"
  OtherCache :: "string gocache"

record send_env =
  se_Answer :: "nat \<Rightarrow> outcome"
  se_Token :: "string \<Rightarrow> string \<Rightarrow> string option" \<comment> \<open>the token server; None is an error\<close>
  se_Now :: int
  se_Tokens :: "string list"
  se_RetryTimes :: nat

text \<open>One post, with the reading of its answer.\<close>

definition http_post :: "send_env \<Rightarrow> post \<Rightarrow> alarm_posts \<Rightarrow> (bool \<times> alarm_posts) res" where
  "http_post env p s =
     (case se_Answer env (length (Posts s)) of
        NullAnswer \<Rightarrow> nil_deref
      | NoAnswer \<Rightarrow> Inr (False, s\<lparr>Posts := Posts s @ [p]\<rparr>)
      | Code c \<Rightarrow> Inr (c = 0, s\<lparr>Posts := Posts s @ [p]\<rparr>))"

section \<open>Chats\<close>

definition JudgeIsLongInt :: "string \<Rightarrow> bool" where
  "JudgeIsLongInt input = (case parse_int 64 input of Inr _ \<Rightarrow> True | Inl _ \<Rightarrow> False)"

definition LarkBotText :: "send_env \<Rightarrow> string \<Rightarrow> string \<Rightarrow> string \<Rightarrow> alarm_posts \<Rightarrow> (bool \<times> alarm_posts) res" where
  "LarkBotText env content tos token s =
     http_post env (PostIM (marshal (jmap
        [if JudgeIsLongInt tos then (''chat_id'', JStr (hd (split (CHR ''@'') tos))) else (''email'', JStr (tos @ BYTEMAIL)),
         (''msg_type'', JStr ''text''), (''content'', jmap [(''text'', JStr content)])])) token) s"

definition LarkBotCard :: "send_env \<Rightarrow> string \<Rightarrow> string \<Rightarrow> alarm_posts \<Rightarrow> (bool \<times> alarm_posts) res" where
  "LarkBotCard env bodyData token s = http_post env (PostIM bodyData token) s"

text \<open>
  The life time that the server gives is in a field that is not exported, so the duration is always 0
  and the default of the cache applies.
\<close>

definition GetRebotTokenByIdAndSecret :: "send_env \<Rightarrow> string \<Rightarrow> string \<Rightarrow> alarm_posts \<Rightarrow> string \<times> alarm_posts" where
  "GetRebotTokenByIdAndSecret env app_id app_secret s =
     (case se_Token env app_id app_secret of
        None \<Rightarrow> ('''', s)
      | Some t \<Rightarrow> (t, s\<lparr>OtherCache := cache_Set CacheTTl (se_Now env) (app_id @ '','' @ app_secret) t 0 (OtherCache s)\<rparr>))"

definition GetTokenFromCache :: "send_env \<Rightarrow> string \<Rightarrow> alarm_posts \<Rightarrow> (string \<times> alarm_posts) res" where
  "GetTokenFromCache env token s =
     (case cache_Get (se_Now env) token (OtherCache s) of
        Some t \<Rightarrow> Inr (t, s)
      | None \<Rightarrow>
          (case split (CHR '','') token of
             app_id # app_secret # _ \<Rightarrow> Inr (GetRebotTokenByIdAndSecret env app_id app_secret s)
           | _ \<Rightarrow> Inl (Panic ''index out of range'')))"

text \<open>For one user the tokens are tried until a post is accepted.\<close>

fun send_tokens :: "send_env \<Rightarrow> im \<Rightarrow> string \<Rightarrow> string list \<Rightarrow> alarm_posts \<Rightarrow> (bool \<times> alarm_posts) res" where
  "send_tokens env m user [] s = Inr (False, s)"
| "send_tokens env m user (token # tokens) s =
     bind_res (GetTokenFromCache env token s) (\<lambda>(realToken, s).
     bind_res (if im_IsCard m then LarkBotCard env (im_Content m) realToken s
               else LarkBotText env (im_Content m) (CompressStr user) realToken s) (\<lambda>(ok, s).
       if ok then Inr (True, s) else send_tokens env m user tokens s))"

text \<open>A user who cannot be reached gets a new message in the queue for failures.\<close>

fun send_users :: "send_env \<Rightarrow> (nat \<Rightarrow> bool) \<Rightarrow> im \<Rightarrow> string \<Rightarrow> string list \<Rightarrow> alarm_posts \<times> alarm_redis
    \<Rightarrow> (alarm_posts \<times> alarm_redis) res" where
  "send_users env up m queue [] sr = Inr sr"
| "send_users env up m queue (user # users) (s, r) =
     bind_res (send_tokens env m user (concat (replicate (se_RetryTimes env) (se_Tokens env))) s) (\<lambda>(thisSucc, s).
       send_users env up m queue users
         (s, if thisSucc then r
             else WriteIMModel up \<lparr>im_Tos = user, im_Content = im_Content m, im_IsCard = False\<rparr> queue r))"

definition SendIM :: "send_env \<Rightarrow> (nat \<Rightarrow> bool) \<Rightarrow> im \<Rightarrow> string \<Rightarrow> alarm_posts \<times> alarm_redis \<Rightarrow> (alarm_posts \<times> alarm_redis) res" where
  "SendIM env up m queue sr =
     (if im_Tos m = '''' then Inr sr else send_users env up m queue (split (CHR '','') (im_Tos m)) sr)"

section \<open>Short messages, calls and mails\<close>

definition HttpSendSms :: "send_env \<Rightarrow> sms \<Rightarrow> alarm_posts \<Rightarrow> (bool \<times> alarm_posts) res" where
  "HttpSendSms env m s =
     (if sms_Tos m = '''' then Inr (False, s) else http_post env (PostSms (sms_Tos m) (sms_Content m)) s)"

definition HttpSendPhone :: "send_env \<Rightarrow> string \<Rightarrow> string \<Rightarrow> alarm_posts \<Rightarrow> (bool \<times> alarm_posts) res" where
  "HttpSendPhone env user content s = http_post env (PostPhone user content) s"

text \<open>The loop of three attempts, which ends with the first that succeeds.\<close>

fun retried :: "(alarm_posts \<Rightarrow> (bool \<times> alarm_posts) res) \<Rightarrow> nat \<Rightarrow> alarm_posts \<Rightarrow> alarm_posts res" where
  "retried send 0 s = Inr s"
| "retried send (Suc n) s = bind_res (send s) (\<lambda>(ok, s). if ok then Inr s else retried send n s)"

definition SendSms :: "send_env \<Rightarrow> sms \<Rightarrow> alarm_posts \<Rightarrow> alarm_posts res" where
  "SendSms env m s = retried (HttpSendSms env m) 3 s"

fun phone_users :: "send_env \<Rightarrow> string \<Rightarrow> string list \<Rightarrow> alarm_posts \<Rightarrow> alarm_posts res" where
  "phone_users env content [] s = Inr s"
| "phone_users env content (user # users) s =
     bind_res (retried (HttpSendPhone env user content) 3 s) (phone_users env content users)"

definition SendPhone :: "send_env \<Rightarrow> sms \<Rightarrow> alarm_posts \<Rightarrow> alarm_posts res" where
  "SendPhone env m s = phone_users env (sms_Content m) (split (CHR '','') (sms_Tos m)) s"

definition SendMail :: "send_env \<Rightarrow> mail \<Rightarrow> alarm_posts \<Rightarrow> alarm_posts res" where
  "SendMail env m s =
     (if ml_Tos m = '''' then Inr s
      else bind_res (http_post env (PostMail (ml_Tos m) (ml_Subject m) (ml_Content m)) s) (\<lambda>(ok, s). Inr s))"

section \<open>The pool of workers\<close>

text \<open>
  \<open>SendSmsList\<close> and its siblings put a token into the channel of workers and start a goroutine; the
  goroutine takes a token out when it has ended. With capacity \<open>c\<close> the sender can start the next
  message when fewer than \<open>c\<close> tokens are in the channel; a channel without capacity lets it pass only
  together with a receiver, that is, a worker that ends.
\<close>

record 'm pool =
  Todo :: "'m list"
  Running :: "'m list"
  Done :: "'m list"

inductive pool_step :: "nat \<Rightarrow> 'm pool \<Rightarrow> 'm pool \<Rightarrow> bool" for c where
  pool_start: "length ws < c \<Longrightarrow>
    pool_step c \<lparr>Todo = m # ms, Running = ws, Done = ds\<rparr> \<lparr>Todo = ms, Running = ws @ [m], Done = ds\<rparr>"
| pool_finish: "pool_step c \<lparr>Todo = ms, Running = ws @ m # ws', Done = ds\<rparr> \<lparr>Todo = ms, Running = ws @ ws', Done = ds @ [m]\<rparr>"

text \<open>The pool as the sender of the messages \<open>ms\<close> finds it.\<close>

definition new_pool :: "'m list \<Rightarrow> 'm pool" where
  "new_pool ms = \<lparr>Todo = ms, Running = [], Done = []\<rparr>"

inductive pool_run :: "nat \<Rightarrow> 'm pool \<Rightarrow> 'm pool \<Rightarrow> bool" for c where
  pool_refl: "pool_run c p p"
| pool_more: "pool_run c p q \<Longrightarrow> pool_step c q q' \<Longrightarrow> pool_run c p q'"

inductive_cases pool_stepE: "pool_step c p q"
inductive_simps pool_step_simps: "pool_step c p q"

section \<open>Facts\<close>

lemma http_post_Posts:
  "http_post env p s = Inr (ok, s') \<Longrightarrow> Posts s' = Posts s @ [p] \<and> (ok \<longleftrightarrow> se_Answer env (length (Posts s)) = Code 0)"
  by (auto simp: http_post_def nil_deref_def split: outcome.splits)

lemma GetTokenFromCache_Posts: "GetTokenFromCache env token s = Inr (t, s') \<Longrightarrow> Posts s' = Posts s"
  by (auto simp: GetTokenFromCache_def GetRebotTokenByIdAndSecret_def split: option.splits list.splits)

text \<open>The posts with the given numbers that were accepted.\<close>

definition accepted :: "send_env \<Rightarrow> nat \<Rightarrow> nat \<Rightarrow> nat" where
  "accepted env a b = length (filter (\<lambda>n. se_Answer env n = Code 0) [a..<b])"

lemma accepted_same [simp]: "accepted env a a = 0"
  by (simp add: accepted_def)

lemma accepted_Suc: "a \<le> b \<Longrightarrow> accepted env a (Suc b) = accepted env a b + (if se_Answer env b = Code 0 then 1 else 0)"
  by (simp add: accepted_def)

lemma accepted_split: "a \<le> b \<Longrightarrow> b \<le> c \<Longrightarrow> accepted env a c = accepted env a b + accepted env b c"
  unfolding accepted_def by (metis filter_append le_Suc_ex length_append upt_add_eq_append)

lemma send_tokens_accepted:
  "send_tokens env m user tokens s = Inr (ok, s') \<Longrightarrow>
    length (Posts s) \<le> length (Posts s') \<and>
    accepted env (length (Posts s)) (length (Posts s')) = (if ok then 1 else 0)"
proof (induction tokens arbitrary: s)
  case (Cons token tokens)
  from Cons.prems obtain t s1 ok1 s2 where t: "GetTokenFromCache env token s = Inr (t, s1)"
    and p: "(if im_IsCard m then LarkBotCard env (im_Content m) t s1
             else LarkBotText env (im_Content m) (CompressStr user) t s1) = Inr (ok1, s2)"
    and rest: "(if ok1 then Inr (True, s2) else send_tokens env m user tokens s2) = Inr (ok, s')"
    by auto
  have s1: "Posts s1 = Posts s" by (rule GetTokenFromCache_Posts [OF t])
  have "\<exists>x. http_post env x s1 = Inr (ok1, s2)"
  proof (cases "im_IsCard m")
    case True
    with p show ?thesis by (auto simp: LarkBotCard_def)
  next
    case False
    with p show ?thesis unfolding LarkBotText_def by (intro exI) (simp only: if_False)
  qed
  then obtain x where x: "http_post env x s1 = Inr (ok1, s2)" ..
  have n: "length (Posts s2) = Suc (length (Posts s))" and ok1: "ok1 \<longleftrightarrow> se_Answer env (length (Posts s)) = Code 0"
    using http_post_Posts [OF x] s1 by auto
  have one: "accepted env (length (Posts s)) (length (Posts s2)) = (if ok1 then 1 else 0)"
    unfolding n ok1 by (simp add: accepted_Suc)
  show ?case
  proof (cases ok1)
    case True
    then have "ok" "s' = s2" using rest by simp_all
    then show ?thesis using True n one by simp
  next
    case False
    then have "send_tokens env m user tokens s2 = Inr (ok, s')" using rest by simp
    from Cons.IH [OF this] accepted_split [of "length (Posts s)" "length (Posts s2)" "length (Posts s')" env] False n one
    show ?thesis by simp
  qed
qed simp

lemma send_users_outcome:
  assumes up: "\<forall>n. up n"
  shows "send_users env up m queue users (s, r) = Inr (s', r') \<Longrightarrow>
    length (Posts s) \<le> length (Posts s') \<and>
    (\<exists>oks. length oks = length users \<and>
      accepted env (length (Posts s)) (length (Posts s')) = length (filter (\<lambda>ok. ok) oks) \<and>
      Lists r' = (Lists r)(queue := rev (map (\<lambda>(u, ok). Json (im_json \<lparr>im_Tos = u, im_Content = im_Content m, im_IsCard = False\<rparr>))
        (filter (\<lambda>(u, ok). \<not> ok) (zip users oks))) @ Lists r queue))"
proof (induction users arbitrary: s r)
  case Nil
  then show ?case by simp
next
  case (Cons user users)
  from Cons.prems obtain ok s1 where
    t: "send_tokens env m user (concat (replicate (se_RetryTimes env) (se_Tokens env))) s = Inr (ok, s1)"
    and rest: "send_users env up m queue users (s1, if ok then r else
       WriteIMModel up \<lparr>im_Tos = user, im_Content = im_Content m, im_IsCard = False\<rparr> queue r) = Inr (s', r')"
    by auto
  from Cons.IH [OF rest] obtain oks where ih: "length (Posts s1) \<le> length (Posts s')" "length oks = length users"
      "accepted env (length (Posts s1)) (length (Posts s')) = length (filter (\<lambda>ok. ok) oks)"
      "Lists r' = (Lists (if ok then r else WriteIMModel up \<lparr>im_Tos = user, im_Content = im_Content m, im_IsCard = False\<rparr> queue r))
        (queue := rev (map (\<lambda>(u, ok). Json (im_json \<lparr>im_Tos = u, im_Content = im_Content m, im_IsCard = False\<rparr>))
          (filter (\<lambda>(u, ok). \<not> ok) (zip users oks))) @
          Lists (if ok then r else WriteIMModel up \<lparr>im_Tos = user, im_Content = im_Content m, im_IsCard = False\<rparr> queue r) queue)"
    by blast
  have a: "length (Posts s) \<le> length (Posts s1)" "accepted env (length (Posts s)) (length (Posts s1)) = (if ok then 1 else 0)"
    using send_tokens_accepted [OF t] by auto
  have w: "Lists (WriteIMModel up x queue r) = (Lists r)(queue := Json (im_json x) # Lists r queue)" for x
    using up by (simp add: WriteIMModel_def lpush_up)
  show ?case
    using ih a accepted_split [OF a(1) ih(1), of env]
    by (intro conjI exI [of _ "ok # oks"]) (auto simp: w)
qed

section \<open>Properties\<close>


definition demo_send :: send_env where
  "demo_send = \<lparr>se_Answer = \<lambda>n. if n = 2 then Code 0 else NoAnswer, se_Token = \<lambda>i s. Some ''tok'', se_Now = 0,
     se_Tokens = [''id,secret''], se_RetryTimes = 2\<rparr>"

definition no_posts :: alarm_posts where
  "no_posts = \<lparr>Posts = [], OtherCache = []\<rparr>"

definition demo_im :: im where
  "demo_im = \<lparr>im_Tos = ''ann,bob'', im_Content = ''x'', im_IsCard = True\<rparr>"

lemma demo_send_IM:
  "SendIM demo_send (\<lambda>_. True) demo_im ''/failed/im'' (no_posts, demo_redis) =
    Inr (\<lparr>Posts = [PostIM ''x'' ''tok'', PostIM ''x'' ''tok'', PostIM ''x'' ''tok''],
          OtherCache = [(''id,secret'', \<lparr>ci_Object = ''tok'', ci_Expiration = CacheTTl\<rparr>)]\<rparr>,
         WriteIMModel (\<lambda>_. True) \<lparr>im_Tos = ''ann'', im_Content = ''x'', im_IsCard = False\<rparr> ''/failed/im'' demo_redis)"
  by (simp add: SendIM_def demo_send_def demo_im_def no_posts_def GetTokenFromCache_def cache_Get_def
      GetRebotTokenByIdAndSecret_def cache_Set_def default_expiration_def CacheTTl_def LarkBotCard_def http_post_def
      Let_def eval_nat_numeral)


text \<open>
  a card that could not be sent is retried from the queue for failures as a plain text
  message, so that its receiver gets the JSON text of the card.
\<close>

theorem failed_card_becomes_text:
  assumes "\<forall>n. up n" "Lists r FAILED_IM_QUEUE_NAME = []" "CHR '','' \<notin> set user" "user \<noteq> ''''"
    and "SendIM env up \<lparr>im_Tos = user, im_Content = body, im_IsCard = True\<rparr> FAILED_IM_QUEUE_NAME (s, r) = Inr (s', r')"
    and "accepted env (length (Posts s)) (length (Posts s')) = 0"
  shows "fst (PopAllIM up FAILED_IM_QUEUE_NAME r') = [\<lparr>im_Tos = user, im_Content = body, im_IsCard = False\<rparr>]"
proof -
  have u: "split (CHR '','') user = [user]" by (rule split_no_sep [OF assms(3)])
  obtain oks where oks: "length oks = 1" "0 = length (filter (\<lambda>ok. ok) oks)"
    "Lists r' = (Lists r)(FAILED_IM_QUEUE_NAME := rev (map (\<lambda>(u, ok). Json (im_json \<lparr>im_Tos = u, im_Content = body, im_IsCard = False\<rparr>))
      (filter (\<lambda>(u, ok). \<not> ok) (zip [user] oks))) @ Lists r FAILED_IM_QUEUE_NAME)"
    using send_users_outcome [OF assms(1), of env "\<lparr>im_Tos = user, im_Content = body, im_IsCard = True\<rparr>" FAILED_IM_QUEUE_NAME
        "[user]" s r s' r'] assms(4-6) u by (auto simp: SendIM_def)
  from oks(1) obtain b where "oks = [b]" by (auto simp: length_Suc_conv)
  then have "Lists r' FAILED_IM_QUEUE_NAME = [Json (im_json \<lparr>im_Tos = user, im_Content = body, im_IsCard = False\<rparr>)]"
    using oks(2,3) assms(2) by (auto split: if_splits)
  then show ?thesis
    by (simp add: PopAllIM_def pop_all_up [OF assms(1)] map_filter_simps read_entry_def)
qed

theorem failed_card_becomes_text_witness:
  "\<exists>s' r'. SendIM (demo_send\<lparr>se_Answer := \<lambda>_. NoAnswer, se_RetryTimes := 1\<rparr>) (\<lambda>_. True) (demo_im\<lparr>im_Tos := ''bob''\<rparr>)
      FAILED_IM_QUEUE_NAME (no_posts, demo_redis) = Inr (s', r') \<and>
    fst (PopAllIM (\<lambda>_. True) FAILED_IM_QUEUE_NAME r') = [\<lparr>im_Tos = ''bob'', im_Content = ''x'', im_IsCard = False\<rparr>]"
proof -
  define e where "e = demo_send\<lparr>se_Answer := \<lambda>_. NoAnswer, se_RetryTimes := 1\<rparr>"
  define s' where "s' = \<lparr>Posts = [PostIM ''x'' ''tok''], OtherCache = [(''id,secret'', \<lparr>ci_Object = ''tok'', ci_Expiration = CacheTTl\<rparr>)]\<rparr>"
  define r' where "r' = WriteIMModel (\<lambda>_. True) \<lparr>im_Tos = ''bob'', im_Content = ''x'', im_IsCard = False\<rparr> FAILED_IM_QUEUE_NAME demo_redis"
  have m: "demo_im\<lparr>im_Tos := ''bob''\<rparr> = \<lparr>im_Tos = ''bob'', im_Content = ''x'', im_IsCard = True\<rparr>" by (simp add: demo_im_def)
  have run: "SendIM e (\<lambda>_. True) (demo_im\<lparr>im_Tos := ''bob''\<rparr>) FAILED_IM_QUEUE_NAME (no_posts, demo_redis) = Inr (s', r')"
    unfolding m s'_def r'_def e_def
    by (simp add: SendIM_def demo_send_def no_posts_def GetTokenFromCache_def cache_Get_def
        GetRebotTokenByIdAndSecret_def cache_Set_def default_expiration_def CacheTTl_def LarkBotCard_def http_post_def Let_def)
  moreover have "accepted e (length (Posts no_posts)) (length (Posts s')) = 0"
    by (simp add: accepted_def e_def s'_def no_posts_def)
  ultimately have "fst (PopAllIM (\<lambda>_. True) FAILED_IM_QUEUE_NAME r') = [\<lparr>im_Tos = ''bob'', im_Content = ''x'', im_IsCard = False\<rparr>]"
    using failed_card_becomes_text [of "\<lambda>_. True" demo_redis "''bob''" e "''x''" no_posts s' r']
    by (simp add: m demo_redis_def)
  with run show ?thesis unfolding e_def by blast
qed

text \<open>
  sending a short message ends with the first accepted attempt and after three at most:
  it posts the message as many times as there are refused answers before the first acceptance, and once
  more if that comes among the first three.
\<close>

theorem sms_attempts:
  assumes "sms_Tos m \<noteq> ''''" "\<And>n. se_Answer env n \<noteq> NullAnswer"
  shows "\<exists>k s'. SendSms env m s = Inr s' \<and> Posts s' = Posts s @ replicate k (PostSms (sms_Tos m) (sms_Content m)) \<and>
    1 \<le> k \<and> k \<le> 3 \<and> (\<forall>i < k - 1. se_Answer env (length (Posts s) + i) \<noteq> Code 0) \<and>
    (k < 3 \<longrightarrow> se_Answer env (length (Posts s) + (k - 1)) = Code 0)"
proof -
  have send: "\<exists>s'. HttpSendSms env m s = Inr (se_Answer env (length (Posts s)) = Code 0, s') \<and>
      Posts s' = Posts s @ [PostSms (sms_Tos m) (sms_Content m)]" for s
    using assms by (auto simp: HttpSendSms_def http_post_def split: outcome.split)
  obtain s1 where s1: "HttpSendSms env m s = Inr (se_Answer env (length (Posts s)) = Code 0, s1)"
    "Posts s1 = Posts s @ [PostSms (sms_Tos m) (sms_Content m)]" using send [of s] by blast
  obtain s2 where s2: "HttpSendSms env m s1 = Inr (se_Answer env (length (Posts s1)) = Code 0, s2)"
    "Posts s2 = Posts s1 @ [PostSms (sms_Tos m) (sms_Content m)]" using send [of s1] by blast
  obtain s3 where s3: "HttpSendSms env m s2 = Inr (se_Answer env (length (Posts s2)) = Code 0, s3)"
    "Posts s3 = Posts s2 @ [PostSms (sms_Tos m) (sms_Content m)]" using send [of s2] by blast
  consider "se_Answer env (length (Posts s)) = Code 0"
    | "se_Answer env (length (Posts s)) \<noteq> Code 0" "se_Answer env (length (Posts s) + 1) = Code 0"
    | "se_Answer env (length (Posts s)) \<noteq> Code 0" "se_Answer env (length (Posts s) + 1) \<noteq> Code 0" by blast
  then show ?thesis
  proof cases
    case 1
    then show ?thesis using s1 by (intro exI [of _ 1] exI [of _ s1]) (simp add: SendSms_def eval_nat_numeral)
  next
    case 2
    then show ?thesis using s1 s2
      by (intro exI [of _ 2] exI [of _ s2]) (simp add: SendSms_def eval_nat_numeral)
  next
    case 3
    then show ?thesis using s1 s2 s3
      by (intro exI [of _ 3] exI [of _ s3]) (simp add: SendSms_def eval_nat_numeral less_Suc_eq)
  qed
qed

theorem sms_attempts_witness:
  "\<exists>k s'. SendSms demo_send \<lparr>sms_Tos = ''ann'', sms_Content = ''x''\<rparr> no_posts = Inr s' \<and>
    Posts s' = replicate k (PostSms ''ann'' ''x'') \<and> k \<le> 3"
proof -
  have "se_Answer demo_send n \<noteq> NullAnswer" for n by (simp add: demo_send_def)
  from sms_attempts [of "\<lparr>sms_Tos = ''ann'', sms_Content = ''x''\<rparr>" demo_send no_posts, OF _ this]
  show ?thesis by (auto simp: no_posts_def)
qed

section \<open>The pool never holds too many\<close>

definition pool_inv :: "nat \<Rightarrow> 'm list \<Rightarrow> 'm pool \<Rightarrow> bool" where
  "pool_inv c ms p \<longleftrightarrow> length (Running p) \<le> c \<and> mset (Todo p) + mset (Running p) + mset (Done p) = mset ms \<and>
     (\<exists>gone. ms = gone @ Todo p)"

lemma pool_step_inv: "pool_step c p q \<Longrightarrow> pool_inv c ms p \<Longrightarrow> pool_inv c ms q"
  by (induction rule: pool_step.induct) (auto simp: pool_inv_def)

lemma pool_run_inv: "pool_run c p q \<Longrightarrow> pool_inv c ms p \<Longrightarrow> pool_inv c ms q"
  by (induction rule: pool_run.induct) (auto intro: pool_step_inv)

text \<open>Every step brings the pool nearer to its end.\<close>

definition pool_work :: "'m pool \<Rightarrow> nat" where
  "pool_work p = 2 * length (Todo p) + length (Running p)"

lemma pool_step_work: "pool_step c p q \<Longrightarrow> pool_work q < pool_work p"
  by (induction rule: pool_step.induct) (simp_all add: pool_work_def)

lemma pool_progress: "0 < c \<Longrightarrow> Todo p \<noteq> [] \<or> Running p \<noteq> [] \<Longrightarrow> \<exists>q. pool_step c p q"
proof (cases p)
  case (fields td rn dn)
  assume "0 < c" "Todo p \<noteq> [] \<or> Running p \<noteq> []"
  then show ?thesis
  proof (cases rn)
    case Nil
    then obtain m ms where "td = m # ms" using \<open>Todo p \<noteq> [] \<or> Running p \<noteq> []\<close> fields by (cases td) auto
    then show ?thesis using Nil fields \<open>0 < c\<close> pool_start [of "[]" c m ms dn] by auto
  next
    case (Cons m ws)
    then show ?thesis using fields pool_finish [of c td "[]" m ws dn] by auto
  qed
qed

lemma pool_step_zero: "pool_step c p q \<Longrightarrow> c = 0 \<Longrightarrow> Running p \<noteq> []"
  by (induction rule: pool_step.induct) simp_all

lemma pool_run_zero: "pool_run c p q \<Longrightarrow> c = 0 \<Longrightarrow> Running p = [] \<Longrightarrow> q = p"
  by (induction rule: pool_run.induct) (auto dest: pool_step_zero)

text \<open>
  the sender of a channel with room for \<open>c\<close> workers never has more than \<open>c\<close> messages under
  way, starts them in the order they were popped and loses none: whatever the interleaving, it goes on
  until every message is done, and every step is one of finitely many. With no room it never starts.
\<close>

theorem pool_sends_all:
  assumes "pool_run c (new_pool ms) p"
  shows "pool_inv c ms p \<and> (0 < c \<and> (\<nexists>q. pool_step c p q) \<longrightarrow> mset (Done p) = mset ms) \<and>
    (\<forall>q. pool_step c p q \<longrightarrow> pool_work q < pool_work p) \<and> (c = 0 \<longrightarrow> p = new_pool ms)"
proof -
  have inv: "pool_inv c ms p"
    by (rule pool_run_inv [OF assms]) (simp add: pool_inv_def new_pool_def)
  moreover have "mset (Done p) = mset ms" if "0 < c" "\<nexists>q. pool_step c p q"
  proof -
    have "Todo p = []" "Running p = []" using pool_progress [OF that(1), of p] that(2) by blast+
    then show ?thesis using inv by (simp add: pool_inv_def)
  qed
  moreover have "c = 0 \<Longrightarrow> p = new_pool ms"
    using pool_run_zero [OF assms] by (simp add: new_pool_def)
  ultimately show ?thesis using pool_step_work by blast
qed

theorem pool_sends_all_witness:
  "pool_inv 1 [''a'', ''b''] \<lparr>Todo = [''b''], Running = [''a''], Done = []\<rparr>"
proof -
  have "pool_run 1 (new_pool [''a'', ''b'']) \<lparr>Todo = [''b''], Running = [] @ [''a''], Done = []\<rparr>"
    unfolding new_pool_def by (rule pool_more [OF pool_refl pool_start]) simp
  from pool_sends_all [OF this] show ?thesis by simp
qed

end
