(* ===== verification/Common_Format.thy ===== *)
theory Common_Format
  imports Go_Float
begin

text \<open>
  How numbers and times are shown to people (\<open>src/common/utils/formatter.go\<close>, \<open>date.go\<close>): exact decimal
  rounding of \<open>strconv.FormatFloat\<close> and the calendar of \<open>time.Format\<close>. The time zone of the server is
  a function from seconds since the epoch to the offset in force.
\<close>

section \<open>Numbers\<close>

definition pad :: "nat \<Rightarrow> nat \<Rightarrow> string" where
  "pad w n = replicate (w - length (nat_dec n)) (CHR ''0'') @ nat_dec n"

text \<open>\<open>strconv.FormatFloat(raw, 'f', 5, 64)\<close>\<close>

definition fixed5_digits :: "rat \<Rightarrow> string" where
  "fixed5_digits q =
     (let n = nat (round_half_even (q * 100000))
      in nat_dec (n div 100000) @ ''.'' @ pad 5 (n mod 100000))"

fun fixed5 :: "f64 \<Rightarrow> string" where
  "fixed5 NaN = ''NaN''"
| "fixed5 (Inf s) = (if s then ''-Inf'' else ''+Inf'')"
| "fixed5 (Zero s) = (if s then ''-'' else '''') @ fixed5_digits 0"
| "fixed5 (Fin q) = (if q < 0 then ''-'' else '''') @ fixed5_digits \<bar>q\<bar>"

definition trim_right :: "char \<Rightarrow> string \<Rightarrow> string" where
  "trim_right c s = rev (dropWhile (\<lambda>x. x = c) (rev s))"

definition ReadableFloat :: "f64 \<Rightarrow> string" where
  "ReadableFloat raw =
     (let val = fixed5 raw
      in if CHR ''.'' \<in> set val then trim_right (CHR ''.'') (trim_right (CHR ''0'') val) else val)"

lemma length_pad: "n < 10 ^ w \<Longrightarrow> 0 < w \<Longrightarrow> length (pad w n) = w"
proof -
  have len: "length (nat_dec n) \<le> w" if "n < 10 ^ w" "0 < w" for n w
    using that
  proof (induction n arbitrary: w rule: nat_dec.induct)
    case (1 n)
    show ?case
    proof (cases "n < 10")
      case True
      then show ?thesis using 1 by (simp add: nat_dec.simps [of n])
    next
      case False
      define v where "v = w - 1"
      have w: "w = Suc v" using 1(3) by (simp add: v_def)
      have v: "0 < v" using 1(2) False w by (cases v) simp_all
      have "n div 10 < 10 ^ v" using 1(2) w by (simp add: less_mult_imp_div_less mult.commute)
      then show ?thesis using 1(1) [OF False _ v] False w by (simp add: nat_dec.simps [of n])
    qed
  qed
  assume "n < 10 ^ w" "0 < w"
  with len [of n w] show ?thesis by (simp add: pad_def)
qed

text \<open>A whole number is shown without a point.\<close>

lemma dropWhile_replicate: "dropWhile (\<lambda>x. x = c) (replicate n c @ xs) = dropWhile (\<lambda>x. x = c) xs"
  by (induction n) simp_all

lemma trim_right_all: "trim_right c (s @ replicate n c) = trim_right c s"
  by (simp add: trim_right_def dropWhile_replicate)

lemma trim_right_id: "s = [] \<or> List.last s \<noteq> c \<Longrightarrow> trim_right c s = s"
  by (cases s rule: rev_cases) (auto simp: trim_right_def)

lemma last_nat_dec: "is_digit (List.last (nat_dec n))"
  using nat_dec_digits [of n] by (simp add: list_all_iff)

lemma fixed5_whole:
  "fixed5_digits (of_int (int n)) = nat_dec n @ ''.'' @ replicate 5 (CHR ''0'')"
proof -
  have "round_half_even (of_int (int n) * 100000) = int n * 100000"
    using round_half_even_int [of "int n * 100000"] by simp
  then have "nat (round_half_even (of_int (int n) * 100000)) = n * 100000" by simp
  moreover have "pad 5 0 = replicate 5 (CHR ''0'')" by code_simp
  ultimately show ?thesis by (simp only: fixed5_digits_def Let_def) simp
qed

lemma trim_whole:
  "trim_right (CHR ''.'') (trim_right (CHR ''0'') (s @ nat_dec n @ ''.'' @ replicate 5 (CHR ''0''))) = s @ nat_dec n"
proof -
  have "trim_right (CHR ''0'') ((s @ nat_dec n @ ''.'') @ replicate 5 (CHR ''0'')) = s @ nat_dec n @ ''.''"
    by (subst trim_right_all) (simp add: trim_right_id)
  moreover have "List.last (nat_dec n) \<noteq> CHR ''.''"
    using last_nat_dec [of n] by (auto simp: is_digit_def)
  then have "trim_right (CHR ''.'') ((s @ nat_dec n) @ replicate 1 (CHR ''.'')) = s @ nat_dec n"
    by (subst trim_right_all) (simp add: trim_right_id)
  ultimately show ?thesis by simp
qed

lemma ReadableFloat_whole: "i \<noteq> 0 \<Longrightarrow> ReadableFloat (Fin (of_int i)) = itoa i"
proof -
  assume i: "i \<noteq> 0"
  have a: "\<bar>of_int i :: rat\<bar> = of_int (int (nat \<bar>i\<bar>))" by simp
  define sg where "sg = (if i < 0 then ''-'' else '''')"
  have f: "fixed5 (Fin (of_int i)) = sg @ nat_dec (nat \<bar>i\<bar>) @ ''.'' @ replicate 5 (CHR ''0'')"
    unfolding fixed5.simps a fixed5_whole by (simp add: sg_def)
  have "itoa i = sg @ nat_dec (nat \<bar>i\<bar>)" by (simp add: itoa_def sg_def)
  moreover have "CHR ''.'' \<in> set (fixed5 (Fin (of_int i)))" unfolding f by simp
  ultimately show ?thesis by (simp only: ReadableFloat_def Let_def if_True f trim_whole)
qed

section \<open>Times\<close>

text \<open>Year, month and day of the n-th day since 1 January 1970, in the Gregorian calendar.\<close>

definition civil :: "int \<Rightarrow> int \<times> int \<times> int" where
  "civil n =
     (let z = n + 719468; era = z div 146097; doe = z mod 146097;
          yoe = (doe - doe div 1460 + doe div 36524 - doe div 146096) div 365;
          doy = doe - (365 * yoe + yoe div 4 - yoe div 100);
          mp = (5 * doy + 2) div 153;
          d = doy - (153 * mp + 2) div 5 + 1;
          m = (if mp < 10 then mp + 3 else mp - 9)
      in (yoe + era * 400 + (if m \<le> 2 then 1 else 0), m, d))"

definition padi :: "nat \<Rightarrow> int \<Rightarrow> string" where
  "padi w i = (if i < 0 then ''-'' else '''') @ pad w (nat \<bar>i\<bar>)"

definition UnixTsFormat :: "(int \<Rightarrow> int) \<Rightarrow> int \<Rightarrow> string" where
  "UnixTsFormat zone ts =
     (let secs = ts + zone ts; (y, m, d) = civil (secs div 86400); s = secs mod 86400
      in padi 4 y @ ''-'' @ padi 2 m @ ''-'' @ padi 2 d @ '' '' @
         padi 2 (s div 3600) @ '':'' @ padi 2 (s div 60 mod 60) @ '':'' @ padi 2 (s mod 60))"

lemma UnixTsFormat_epoch:
  "UnixTsFormat (\<lambda>_. 0) 0 = ''1970-01-01 00:00:00''"
  by code_simp

end
