(* ===== verification/Alarm_Content.thy ===== *)
theory Alarm_Content
  imports Alarm_Block Alarm_Send Common_Format
begin

text \<open>
  Module alarm, \<open>cron/builder.go\<close> and \<open>g/eventdto.go\<close>: the texts that people get, and the card with its
  buttons to mute and unmute. The Chinese words of the texts are given by their characters.
\<close>

section \<open>Parts\<close>

definition utf8 :: "int list \<Rightarrow> string" where
  "utf8 cs = concat (map rune_text cs)"

definition nl :: string where "nl = [CHR 0x0A]"
definition cr :: string where "cr = [CHR 0x0D]"

definition FormattedTime :: "(int \<Rightarrow> int) \<Rightarrow> event \<Rightarrow> string" where
  "FormattedTime zone e = UnixTsFormat zone (ev_EventTime e)"

definition FormatOneFuncValue :: "event \<Rightarrow> string res" where
  "FormatOneFuncValue e =
     bind_res (Func e) (\<lambda>f. bind_res (Operator e) (\<lambda>op. bind_res (RightValue e) (\<lambda>rv.
       Inr (f @ '': '' @ ReadableFloat (ev_LeftValue e) @ op @ ReadableFloat rv))))"

fun func_values :: "string \<Rightarrow> event list \<Rightarrow> string res" where
  "func_values one [] = Inr one"
| "func_values one (e # es) = bind_res (FormatOneFuncValue e) (\<lambda>v. func_values (one @ '','' @ v) es)"

definition UnionAlarmFormatFuncValue :: "event \<Rightarrow> string res" where
  "UnionAlarmFormatFuncValue e = bind_res (FormatOneFuncValue e) (\<lambda>one. func_values one (ev_EventChain e))"

definition FormatMetricTags :: "event \<Rightarrow> string" where
  "FormatMetricTags e =
     foldl (\<lambda>one e. one @ '','' @ SortedTags (ev_PushedTags e)) (SortedTags (ev_PushedTags e)) (ev_EventChain e)"

text \<open>The strategy of the event is used without a check, so an event of an expression panics.\<close>

definition AlarmIsUnionString :: "event \<Rightarrow> string res" where
  "AlarmIsUnionString e =
     (case ev_Strategy e of
        None \<Rightarrow> nil_deref
      | Some s \<Rightarrow>
          if 0 < st_UnionStrategyId s
          then Inr (''['' @ itoa (int (length (ev_EventChain e)) + 1) @ '']'' @ utf8 [0x6761, 0x7ec4, 0x5408, 0x7b56, 0x7565, 0x62a5, 0x8b66])
          else Inr (utf8 [0x5355, 0x6761, 0x7b56, 0x7565, 0x62a5, 0x8b66]))"

section \<open>Links\<close>

definition event_link :: "string \<Rightarrow> string \<Rightarrow> event \<Rightarrow> string res" where
  "event_link dashboard verb e =
     bind_res (TplId e) (\<lambda>tplId.
       Inr (if tplId \<noteq> 0 then dashboard @ ''/portal/template/'' @ verb @ ''/'' @ itoa tplId
            else if ExpressionId e \<noteq> 0 then dashboard @ ''/portal/expression/'' @ verb @ ''/'' @ itoa (ExpressionId e)
            else ''''))"

definition Link :: "string \<Rightarrow> event \<Rightarrow> string res" where
  "Link dashboard e = event_link dashboard ''view'' e"

definition ModLink :: "string \<Rightarrow> event \<Rightarrow> string res" where
  "ModLink dashboard e = event_link dashboard ''update'' e"

definition ModUicLink :: "string \<Rightarrow> string \<Rightarrow> string" where
  "ModUicLink dashboard uic = dashboard @ ''/team/'' @ uic @ ''/edit''"

section \<open>Texts\<close>

definition BuildCommonSMSContent :: "(int \<Rightarrow> int) \<Rightarrow> event \<Rightarrow> string \<Rightarrow> string \<Rightarrow> string \<Rightarrow> string res" where
  "BuildCommonSMSContent zone e uic amstag grps =
     bind_res (AlarmIsUnionString e) (\<lambda>kind. bind_res (Priority e) (\<lambda>p. bind_res (Metric e) (\<lambda>m.
     bind_res (Note e) (\<lambda>n. bind_res (UnionAlarmFormatFuncValue e) (\<lambda>v. bind_res (MaxStep e) (\<lambda>mx.
       Inr (concat [
        ''['', kind, ''][P'', itoa p, ''][Id:'', ev_Id e, '']['', utf8 [0x72b6, 0x6001], ev_Status e,
        ''][Endpoint:'', ev_Endpoint e, '']['', utf8 [0x62a5, 0x8b66, 0x5206, 0x7ec4], '':'', grps, '']['',
        utf8 [0x63a5, 0x6536, 0x7ec4], '':'', uic, '']['', utf8 [0x7ec4], ''tag'', utf8 [0x5217, 0x8868],
        '':'', amstag, ''][metric:'', m, ''_tag:'', FormatMetricTags e, '' '', utf8 [0x6ce8, 0x610f], '':'', n,
        ''  '', utf8 [0x8868, 0x8fbe, 0x5f0f], '':'', v, '' ]['', utf8 [0x7b2c], itoa (ev_CurrentStep e),
        ''/'', itoa mx, utf8 [0x6b21], '' ,'', utf8 [0x65f6, 0x95f4], FormattedTime zone e, '']''])))))))"

definition BuildCommonPhoneContent :: "event \<Rightarrow> string res" where
  "BuildCommonPhoneContent e =
     bind_res (AlarmIsUnionString e) (\<lambda>kind. bind_res (Metric e) (\<lambda>m. Inr (kind @ ev_Endpoint e @ m)))"

definition BuildCommonIMContent :: "(int \<Rightarrow> int) \<Rightarrow> event \<Rightarrow> string res" where
  "BuildCommonIMContent zone e =
     bind_res (Priority e) (\<lambda>p. bind_res (Note e) (\<lambda>n. bind_res (Func e) (\<lambda>f. bind_res (Metric e) (\<lambda>m.
     bind_res (Operator e) (\<lambda>op. bind_res (RightValue e) (\<lambda>rv.
       Inr (''[P'' @ itoa p @ ''][''  @ ev_Status e @ ''][''  @ ev_Endpoint e @ ''][]['' @ n @ '' '' @ f @ '' '' @ m @ '' '' @
            SortedTags (ev_PushedTags e) @ '' '' @ ReadableFloat (ev_LeftValue e) @ op @ ReadableFloat rv @
            ''][O'' @ itoa (ev_CurrentStep e) @ '' '' @ FormattedTime zone e @ '']'')))))))"

definition BuildCommonMailContent :: "(int \<Rightarrow> int) \<Rightarrow> string \<Rightarrow> event \<Rightarrow> string \<Rightarrow> string \<Rightarrow> string \<Rightarrow> string res" where
  "BuildCommonMailContent zone dashboard e uic amstag grps =
     bind_res (Link dashboard e) (\<lambda>link. bind_res (AlarmIsUnionString e) (\<lambda>kind. bind_res (Priority e) (\<lambda>p.
     bind_res (Metric e) (\<lambda>m. bind_res (UnionAlarmFormatFuncValue e) (\<lambda>v. bind_res (Note e) (\<lambda>n. bind_res (MaxStep e) (\<lambda>mx.
       Inr (concat [
        kind, cr, ev_Status e, cr, nl, ''P'', itoa p, cr, nl, ''Id:'', ev_Id e, cr, nl, ''Endpoint:'',
        ev_Endpoint e, cr, nl, utf8 [0x4e3b, 0x673a, 0x7ec4, 0x5217, 0x8868], '':'', grps, cr, nl, ''Uic:'',
        uic, cr, nl, ''Amstag:'', amstag, cr, nl, ''Metric:'', m, cr, nl, ''Tags:'', FormatMetricTags e, cr,
        nl, v, cr, nl, ''Note:'', n, cr, nl, ''Max:'', itoa mx, '', Current:'', itoa (ev_CurrentStep e), cr,
        nl, ''Timestamp:'', FormattedTime zone e, cr, nl, link, cr, nl, ''<br>'']))))))))"

section \<open>Cards\<close>

definition LarkCardButton :: "string \<Rightarrow> string \<Rightarrow> json" where
  "LarkCardButton name url =
     jmap [(''tag'', JStr ''button''), (''text'', jmap [(''tag'', JStr ''lark_md''), (''content'', JStr name)]),
           (''url'', JStr url), (''type'', JStr ''primary'')]"

definition LarkCardCallBackButton :: "string \<Rightarrow> json \<Rightarrow> json" where
  "LarkCardCallBackButton name data =
     jmap [(''tag'', JStr ''button''), (''text'', jmap [(''tag'', JStr ''lark_md''), (''content'', JStr name)]),
           (''value'', data), (''type'', JStr ''primary'')]"

text \<open>What a button to mute or unmute sends back when it is pressed.\<close>

definition mute_data :: "string \<Rightarrow> string \<Rightarrow> string \<Rightarrow> json" where
  "mute_data userName counter ty =
     jmap [(''user_name'', JStr userName), (''counter'', JStr counter), (''time'', JInt (3 * 3600)), (''type'', JStr ty)]"

definition card_text :: "(int \<Rightarrow> int) \<Rightarrow> event \<Rightarrow> string \<Rightarrow> string \<Rightarrow> string \<Rightarrow> string res" where
  "card_text zone e uic amstag grps =
     bind_res (AlarmIsUnionString e) (\<lambda>kind. bind_res (Priority e) (\<lambda>p. bind_res (Metric e) (\<lambda>m.
     bind_res (UnionAlarmFormatFuncValue e) (\<lambda>v. bind_res (Note e) (\<lambda>n. bind_res (MaxStep e) (\<lambda>mx.
       Inr (concat [
        utf8 [0x62a5, 0x8b66, 0x89e6, 0x53d1, 0x7c7b, 0x578b], '':'', kind, nl, utf8 [0x72b6, 0x6001], '':'',
        ev_Status e, nl, utf8 [0x7ea7, 0x522b], '':'', itoa p, nl, ''Id:'', ev_Id e, nl, ''Endpoint:'',
        ev_Endpoint e, nl, utf8 [0x4e3b, 0x673a, 0x7ec4, 0x5217, 0x8868], '':'', grps, nl,
        utf8 [0x63a5, 0x6536, 0x7ec4], '':'', uic, nl, ''tag'', utf8 [0x5217, 0x8868], '':'', amstag, nl,
        ''Metric:'', m, nl, ''Tags:'', FormatMetricTags e, nl, utf8 [0x8868, 0x8fbe, 0x5f0f], '':'', v, nl,
        ''Note:'', n, nl, utf8 [0x6700, 0x5927, 0x62a5, 0x8b66, 0x6570], '':'', itoa mx, nl,
        utf8 [0x5f53, 0x524d, 0x7b2c, 0x51e0, 0x6b21], '':'', itoa (ev_CurrentStep e), nl,
        utf8 [0x89e6, 0x53d1, 0x65f6, 0x95f4], '':'', FormattedTime zone e])))))))"

text \<open>The two maps of buttons, name and value; Go ranges over each in the order \<open>ord\<close> chooses.\<close>

definition link_buttons :: "string \<Rightarrow> string \<Rightarrow> string \<Rightarrow> json list" where
  "link_buttons modUicLink link modLink =
     [LarkCardButton (utf8 [0x4fee, 0x6539, 0x63a5, 0x6536, 0x4eba]) modUicLink,
      LarkCardButton (utf8 [0x67e5, 0x770b, 0x6a21, 0x677f]) link,
      LarkCardButton (utf8 [0x4fee, 0x6539, 0x6a21, 0x677f]) modLink]"

definition mute_buttons :: "string \<Rightarrow> string \<Rightarrow> string \<Rightarrow> json list" where
  "mute_buttons userName ec mc =
     [LarkCardCallBackButton (concat [utf8 [0x5c4f, 0x853d], ''endpoint+metric 3'', utf8 [0x5c0f, 0x65f6]]) (mute_data userName ec ''block''),
      LarkCardCallBackButton (concat [utf8 [0x5c4f, 0x853d], ''metric 3'', utf8 [0x5c0f, 0x65f6]]) (mute_data userName mc ''block''),
      LarkCardCallBackButton (concat [utf8 [0x53d6, 0x6d88], ''end+metric'', utf8 [0x5c4f, 0x853d]]) (mute_data userName ec ''unblock''),
      LarkCardCallBackButton (concat [utf8 [0x53d6, 0x6d88], ''metric'', utf8 [0x5c4f, 0x853d]]) (mute_data userName mc ''unblock'')]"

definition lark_card :: "(json list \<Rightarrow> json list) \<Rightarrow> string \<Rightarrow> string \<Rightarrow> json list \<Rightarrow> json list \<Rightarrow> json" where
  "lark_card ord userName content links mutes =
     (let hr = jmap [(''tag'', JStr ''hr'')];
          element = [jmap [(''tag'', JStr ''div''), (''text'', jmap [(''tag'', JStr ''plain_text''), (''content'', JStr content)])], hr,
            jmap [(''tag'', JStr ''action''), (''actions'', JArr (ord links))], hr,
            jmap [(''tag'', JStr ''action''), (''actions'', JArr (ord mutes))], hr];
          header = jmap [(''title'', jmap [(''tag'', JStr ''plain_text''), (''content'', JStr (concat [''falcon-lark'', utf8 [0x62a5, 0x8b66]]))]), (''template'', JStr ''red'')]
      in jmap [if JudgeIsLongInt userName then (''chat_id'', JStr userName) else (''email'', JStr (userName @ BYTEMAIL)),
               (''msg_type'', JStr ''interactive''),
               (''card'', jmap [(''config'', jmap [(''wide_screen_mode'', JBool True)]), (''header'', header), (''elements'', JArr element)])])"

text \<open>One card per user; nothing when there is no action.\<close>

definition BuildLarkCardImContent :: "alarm_api \<Rightarrow> (int \<Rightarrow> int) \<Rightarrow> string \<Rightarrow> (json list \<Rightarrow> json list) \<Rightarrow> string list \<Rightarrow> event
    \<Rightarrow> string \<Rightarrow> string \<Rightarrow> alarm_caches \<Rightarrow> ((string, string) gomap option \<times> alarm_caches) res" where
  "BuildLarkCardImContent api zone dashboard ord userNames e amstag grps c =
     bind_res (ActionId e) (\<lambda>actionId.
     bind_res (GetAction api actionId c) (\<lambda>(action, c).
       case action of
         None \<Rightarrow> Inr (None, c)
       | Some a \<Rightarrow>
           bind_res (Link dashboard e) (\<lambda>link. bind_res (ModLink dashboard e) (\<lambda>modLink. bind_res (Metric e) (\<lambda>mc.
           bind_res (AlarmIsUnionString e) (\<lambda>kind.
             if userNames = [] then Inr (Some [], c)
             else bind_res (card_text zone e (ac_Uic a) amstag grps) (\<lambda>content.
               Inr (Some (foldl (\<lambda>m userName. gput userName (marshal (lark_card ord userName content
                   (link_buttons (ModUicLink dashboard (ac_Uic a)) link modLink)
                   (mute_buttons userName (ev_Endpoint e @ ''_'' @ mc) mc))) m) [] userNames), c))))))))"

section \<open>Texts for an event\<close>

definition GenerateSmsContent :: "alarm_api \<Rightarrow> (int \<Rightarrow> int) \<Rightarrow> event \<Rightarrow> string \<Rightarrow> string \<Rightarrow> alarm_caches
    \<Rightarrow> (string \<times> alarm_caches) res" where
  "GenerateSmsContent api zone e amstag grps c =
     bind_res (ActionId e) (\<lambda>actionId.
     bind_res (GetAction api actionId c) (\<lambda>(action, c).
       case action of
         None \<Rightarrow> Inr ('''', c)
       | Some a \<Rightarrow> bind_res (BuildCommonSMSContent zone e (ac_Uic a) amstag grps) (\<lambda>t. Inr (t, c))))"

definition GenerateMailContent :: "alarm_api \<Rightarrow> (int \<Rightarrow> int) \<Rightarrow> string \<Rightarrow> event \<Rightarrow> string \<Rightarrow> string \<Rightarrow> alarm_caches
    \<Rightarrow> (string \<times> alarm_caches) res" where
  "GenerateMailContent api zone dashboard e amstag grps c =
     bind_res (ActionId e) (\<lambda>actionId.
     bind_res (GetAction api actionId c) (\<lambda>(action, c).
       case action of
         None \<Rightarrow> Inr ('''', c)
       | Some a \<Rightarrow> bind_res (BuildCommonMailContent zone dashboard e (ac_Uic a) amstag grps) (\<lambda>t. Inr (t, c))))"

definition GenerateIMContent :: "(int \<Rightarrow> int) \<Rightarrow> event \<Rightarrow> string res" where
  "GenerateIMContent zone e = BuildCommonIMContent zone e"

definition GeneratePhoneContent :: "event \<Rightarrow> string res" where
  "GeneratePhoneContent e = BuildCommonPhoneContent e"

end
