(* ===== verification/Alarm_Combine.thy ===== *)
theory Alarm_Combine
  imports Alarm_Redis Go_Map
begin

text \<open>
  Module alarm, \<open>cron/combiner.go\<close> and \<open>api/links.go\<close>: every five minutes the messages of events of low
  priority are popped, grouped by priority, status, receiver and metric, and each group becomes one
  message: as it is when it is alone, a mail with all the contents, or a short message with a link
  under which the portal shows the contents. The order in which Go ranges over the groups is the
  argument \<open>rng\<close>.
\<close>

section \<open>Short links\<close>

text \<open>
  An attempt to store the contents in the portal: no connection (or no request), a body that is not
  JSON, or a body with its \<open>message\<close>. Only the second kind counts as a round of the loop.
\<close>

datatype attempt = NoReply | BadBody | Answer string

partial_function (option) http_link :: "(nat \<Rightarrow> attempt) \<Rightarrow> nat \<Rightarrow> nat \<Rightarrow> string res option" where
  "http_link reply n p =
     (if p < 3 then
        (case reply n of
           NoReply \<Rightarrow> http_link reply (n + 1) p
         | BadBody \<Rightarrow> http_link reply (n + 1) (p + 1)
         | Answer m \<Rightarrow> Some (Inr m))
      else Some (Inl (Err ''HttpLink_finally_failed'')))"

definition HttpLink :: "(string \<Rightarrow> nat \<Rightarrow> attempt) \<Rightarrow> string \<Rightarrow> string res option" where
  "HttpLink portal content = http_link (portal content) 0 0"

definition LinkToSMS :: "(string \<Rightarrow> nat \<Rightarrow> attempt) \<Rightarrow> string \<Rightarrow> string res option" where
  "LinkToSMS portal content = HttpLink portal content"

section \<open>Groups\<close>

text \<open>The map from keys to the messages with that key, in the order they were popped.\<close>

definition group_step :: "('d \<Rightarrow> string) \<Rightarrow> (string, 'd list) gomap \<Rightarrow> 'd \<Rightarrow> (string, 'd list) gomap" where
  "group_step key m d =
     (case gget m (key d) of Some arr \<Rightarrow> gput (key d) (arr @ [d]) m | None \<Rightarrow> gput (key d) [d] m)"

definition dtoMap :: "('d \<Rightarrow> string) \<Rightarrow> 'd list \<Rightarrow> (string, 'd list) gomap" where
  "dtoMap key dtos = foldl (group_step key) [] dtos"

definition mail_key :: "mail_dto \<Rightarrow> string" where
  "mail_key d = itoa (md_Priority d) @ md_Status d @ md_Email d @ md_Metric d"

definition im_key :: "im_dto \<Rightarrow> string" where
  "im_key d = itoa (id_Priority d) @ id_Status d @ id_IM d @ id_Metric d"

definition sms_key :: "sms_dto \<Rightarrow> string" where
  "sms_key d = itoa (sd_Priority d) @ sd_Status d @ sd_Phone d @ sd_Metric d"

section \<open>Mail\<close>

definition combined_mail :: "mail_dto list \<Rightarrow> string \<times> string \<times> string" where
  "combined_mail arr =
     (let d = hd arr in
      if length arr = 1 then (md_Email d, md_Subject d, md_Content d)
      else (md_Email d,
            ''[P'' @ itoa (md_Priority d) @ '']['' @ md_Status d @ ''] '' @ itoa (int (length arr)) @ '' '' @ md_Metric d,
            join [CHR 0x0D, CHR 0x0A] (map md_Content arr)))"

definition write_mail_group :: "(nat \<Rightarrow> bool) \<Rightarrow> mail_dto list \<Rightarrow> alarm_redis \<Rightarrow> alarm_redis" where
  "write_mail_group up arr r = (let (to, subject, content) = combined_mail arr in WriteMail up [to] subject content r)"

definition combineMail :: "(nat \<Rightarrow> bool) \<Rightarrow> string \<Rightarrow> ((string, mail_dto list) gomap \<Rightarrow> (string, mail_dto list) gomap)
    \<Rightarrow> alarm_redis \<Rightarrow> alarm_redis" where
  "combineMail up queue rng r =
     (let (dtos, r) = popAllMailDto up queue r in
      if dtos = [] then r else foldl (\<lambda>r (key, arr). write_mail_group up arr r) r (rng (dtoMap mail_key dtos)))"

section \<open>Short messages and chats\<close>

text \<open>The text that stands for the group, with a link to the contents if there is one.\<close>

definition example_part :: "string \<Rightarrow> string" where
  "example_part c = (let t = split_str ''][''  c in if 3 \<le> length t then t ! 2 else '''')"

definition link_text :: "string \<Rightarrow> int \<Rightarrow> string \<Rightarrow> nat \<Rightarrow> string \<Rightarrow> string \<Rightarrow> string res \<Rightarrow> string" where
  "link_text dashboard priority status n metric first link =
     (let head = ''[P'' @ itoa priority @ ''][''  @ status @ ''] '' @ itoa (int n) @ '' '' @ metric;
          eg = example_part first
      in case link of
           Inr path \<Rightarrow>
             if path = '''' then head @ ''.  e.g. '' @ eg @ ''. detail in email''
             else head @ '' e.g. '' @ eg @ '' '' @ dashboard @ ''/portal/links/'' @ path @ '' ''
         | Inl e \<Rightarrow> head @ ''.  e.g. '' @ eg @ ''. detail in email'')"

definition write_sms_group :: "(nat \<Rightarrow> bool) \<Rightarrow> string \<Rightarrow> (string \<Rightarrow> nat \<Rightarrow> attempt) \<Rightarrow> sms_dto list \<Rightarrow> alarm_redis
    \<Rightarrow> alarm_redis option" where
  "write_sms_group up dashboard portal arr r =
     (let d = hd arr in
      if length arr = 1 then Some (WriteSms up [sd_Phone d] (sd_Content d) r)
      else (case LinkToSMS portal (join '',,'' (map sd_Content arr)) of
              None \<Rightarrow> None
            | Some link \<Rightarrow> Some (WriteSms up [sd_Phone d]
                (link_text dashboard (sd_Priority d) (sd_Status d) (length arr) (sd_Metric d) (sd_Content d) link) r)))"

definition write_im_group :: "(nat \<Rightarrow> bool) \<Rightarrow> string \<Rightarrow> (string \<Rightarrow> nat \<Rightarrow> attempt) \<Rightarrow> im_dto list \<Rightarrow> alarm_redis
    \<Rightarrow> alarm_redis option" where
  "write_im_group up dashboard portal arr r =
     (let d = hd arr in
      if length arr = 1 then Some (WriteImCard up [(id_IM d, id_LarkCardContent d)] r)
      else (case LinkToSMS portal (join '',,'' (map id_Content arr)) of
              None \<Rightarrow> None
            | Some link \<Rightarrow> Some (WriteIM up [id_IM d]
                (link_text dashboard (id_Priority d) (id_Status d) (length arr) (id_Metric d) (id_Content d) link) r)))"

fun write_groups :: "('d list \<Rightarrow> alarm_redis \<Rightarrow> alarm_redis option) \<Rightarrow> (string, 'd list) gomap \<Rightarrow> alarm_redis
    \<Rightarrow> alarm_redis option" where
  "write_groups write [] r = Some r"
| "write_groups write ((key, arr) # gs) r =
     (case write arr r of None \<Rightarrow> None | Some r \<Rightarrow> write_groups write gs r)"

text \<open>The result is \<open>None\<close> when a request for a link never comes back.\<close>

definition combineSms :: "(nat \<Rightarrow> bool) \<Rightarrow> string \<Rightarrow> string \<Rightarrow> (string \<Rightarrow> nat \<Rightarrow> attempt)
    \<Rightarrow> ((string, sms_dto list) gomap \<Rightarrow> (string, sms_dto list) gomap) \<Rightarrow> alarm_redis \<Rightarrow> alarm_redis option" where
  "combineSms up queue dashboard portal rng r =
     (let (dtos, r) = popAllSmsDto up queue r in
      if dtos = [] then Some r
      else write_groups (write_sms_group up dashboard portal) (rng (dtoMap sms_key dtos)) r)"

definition combineIM :: "(nat \<Rightarrow> bool) \<Rightarrow> string \<Rightarrow> string \<Rightarrow> (string \<Rightarrow> nat \<Rightarrow> attempt)
    \<Rightarrow> ((string, im_dto list) gomap \<Rightarrow> (string, im_dto list) gomap) \<Rightarrow> alarm_redis \<Rightarrow> alarm_redis option" where
  "combineIM up queue dashboard portal rng r =
     (let (dtos, r) = popAllImDto up queue r in
      if dtos = [] then Some r
      else write_groups (write_im_group up dashboard portal) (rng (dtoMap im_key dtos)) r)"

section \<open>Facts about groups\<close>

lemma dtoMap_group_all: "dtoMap key ds = group_all key ds"
  by (simp add: dtoMap_def group_all_def group_step_def [abs_def] gsnoc_def)

lemma gwf_dtoMap [simp]: "gwf (dtoMap key ds)"
  by (simp add: dtoMap_group_all)

lemma gget_dtoMap:
  "gget (dtoMap key ds) k =
     (if k \<in> key ` set ds then Some (filter (\<lambda>d. key d = k) ds) else None)"
  by (simp add: dtoMap_group_all gget_group_all)

lemma dtoMap_entries:
  assumes "mset g = mset (dtoMap key ds)"
  shows "(k, arr) \<in> set g \<longleftrightarrow> k \<in> key ` set ds \<and> arr = filter (\<lambda>d. key d = k) ds"
proof -
  have "(k, arr) \<in> set g \<longleftrightarrow> gget (dtoMap key ds) k = Some arr"
    using gwf_dtoMap [of key ds] by (simp add: mset_eq_setD [OF assms] gwf_def map_of_eq_Some_iff)
  then show ?thesis by (auto simp: gget_dtoMap)
qed

lemma mset_dtoMap:
  "mset (dtoMap key ds) = image_mset (\<lambda>k. (k, filter (\<lambda>d. key d = k) ds)) (mset_set (key ` set ds))"
proof (rule multiset_eqI)
  fix x :: "string \<times> 'a list"
  have d: "distinct (dtoMap key ds)" using gwf_dtoMap [of key ds] by (simp add: gwf_def distinct_map)
  have i: "inj_on (\<lambda>k. (k, filter (\<lambda>d. key d = k) ds)) (key ` set ds)" by (simp add: inj_on_def)
  have s: "set (dtoMap key ds) = (\<lambda>k. (k, filter (\<lambda>d. key d = k) ds)) ` key ` set ds"
    using dtoMap_entries [of "dtoMap key ds" key ds] by auto
  show "count (mset (dtoMap key ds)) x = count (image_mset (\<lambda>k. (k, filter (\<lambda>d. key d = k) ds)) (mset_set (key ` set ds))) x"
    unfolding image_mset_mset_set [OF i] s [symmetric] using mset_set_set [OF d] by simp
qed

section \<open>Writing the groups\<close>

lemma WriteMail_up:
  "up (Calls r) \<Longrightarrow> tos \<noteq> [] \<Longrightarrow> WriteMail up tos sub c r = r\<lparr>Calls := Calls r + 1, Lists := (Lists r)(MAIL_QUEUE_NAME :=
     Json (mail_json \<lparr>ml_Tos = join '','' tos, ml_Subject = sub, ml_Content = c\<rparr>) # Lists r MAIL_QUEUE_NAME)\<rparr>"
  by (simp add: WriteMail_def WriteMailModel_def lpush_up)

definition mail_of_group :: "mail_dto list \<Rightarrow> mail" where
  "mail_of_group arr = (let (to, sub, c) = combined_mail arr in \<lparr>ml_Tos = to, ml_Subject = sub, ml_Content = c\<rparr>)"

lemma write_mail_group_up:
  "up (Calls r) \<Longrightarrow> Lists (write_mail_group up arr r) =
     (Lists r)(MAIL_QUEUE_NAME := Json (mail_json (mail_of_group arr)) # Lists r MAIL_QUEUE_NAME)"
  by (simp add: write_mail_group_def mail_of_group_def Let_def case_prod_beta' WriteMail_up)

lemma write_mail_groups:
  assumes "\<forall>n. up n"
  shows "Lists (foldl (\<lambda>r (key, arr). write_mail_group up arr r) r g) =
    (Lists r)(MAIL_QUEUE_NAME := rev (map (\<lambda>(k, arr). Json (mail_json (mail_of_group arr))) g) @ Lists r MAIL_QUEUE_NAME)"
  by (induction g arbitrary: r) (auto simp: write_mail_group_up assms)

lemma combineMail_lists:
  assumes "\<forall>n. up n" "queue \<noteq> MAIL_QUEUE_NAME"
  shows "Lists (combineMail up queue rng r) =
    (Lists r)(queue := [], MAIL_QUEUE_NAME :=
      rev (map (\<lambda>(k, arr). Json (mail_json (mail_of_group arr)))
        (let dtos = List.map_filter (read_entry mail_dto_of) (rev (Lists r queue)) in
         if dtos = [] then [] else rng (dtoMap mail_key dtos)))
      @ Lists r MAIL_QUEUE_NAME)"
  using assms
  by (auto simp: combineMail_def popAllMailDto_def pop_all_up [OF assms(1)] write_mail_groups [OF assms(1)] Let_def fun_eq_iff)

text \<open>
  Keys of mails to addresses of the company are not mixed up: a decimal number, a status and a
  name before the first at sign can be told apart again.
\<close>

lemma digits_prefix:
  "list_all is_digit a \<Longrightarrow> list_all is_digit b \<Longrightarrow> s \<noteq> [] \<Longrightarrow> t \<noteq> [] \<Longrightarrow> \<not> is_digit (hd s) \<Longrightarrow> \<not> is_digit (hd t)
    \<Longrightarrow> a @ s = b @ t \<Longrightarrow> a = b \<and> s = t"
proof (induction a arbitrary: b)
  case Nil
  then show ?case by (cases b) (auto simp: neq_Nil_conv)
next
  case (Cons x a)
  then show ?case by (cases b) (auto simp: neq_Nil_conv)
qed

lemma first_sep: "c \<notin> set a \<Longrightarrow> c \<notin> set b \<Longrightarrow> a @ c # s = b @ c # t \<Longrightarrow> a = b \<and> s = t"
proof (induction a arbitrary: b)
  case Nil
  then show ?case by (cases b) auto
next
  case (Cons x a)
  then show ?case by (cases b) auto
qed

definition company_mail :: "mail_dto \<Rightarrow> bool" where
  "company_mail d \<longleftrightarrow> 0 \<le> md_Priority d \<and> md_Status d \<in> {''OK'', ''PROBLEM''} \<and>
     (\<exists>name. CHR ''@'' \<notin> set name \<and> md_Email d = name @ BYTEMAIL)"

lemma mail_key_separates:
  assumes "company_mail d" "company_mail e" "mail_key d = mail_key e"
  shows "md_Priority d = md_Priority e \<and> md_Status d = md_Status e \<and> md_Email d = md_Email e \<and> md_Metric d = md_Metric e"
proof -
  obtain n m where nm: "CHR ''@'' \<notin> set n" "md_Email d = n @ BYTEMAIL" "CHR ''@'' \<notin> set m" "md_Email e = m @ BYTEMAIL"
    using assms(1,2) by (auto simp: company_mail_def)
  have st: "md_Status d \<in> {''OK'', ''PROBLEM''}" "md_Status e \<in> {''OK'', ''PROBLEM''}" "0 \<le> md_Priority d" "0 \<le> md_Priority e"
    using assms(1,2) by (auto simp: company_mail_def)
  have head: "s \<noteq> [] \<and> \<not> is_digit (hd (s @ x))" if "s \<in> {''OK'', ''PROBLEM''}" for s x
    using that by (auto simp: is_digit_def)
  have "nat_dec (nat (md_Priority d)) = nat_dec (nat (md_Priority e)) \<and>
      md_Status d @ n @ BYTEMAIL @ md_Metric d = md_Status e @ m @ BYTEMAIL @ md_Metric e"
    using assms(3) nm st head [OF st(1)] head [OF st(2)]
    by (intro digits_prefix) (auto simp: mail_key_def itoa_def nat_dec_digits)
  then have p: "md_Priority d = md_Priority e"
    and eq: "md_Status d @ n @ BYTEMAIL @ md_Metric d = md_Status e @ m @ BYTEMAIL @ md_Metric e"
    using itoa_inj [of "md_Priority d" "md_Priority e"] st(3,4) by (auto simp: itoa_def)
  from eq st(1,2) have s: "md_Status d = md_Status e" and eq2: "n @ BYTEMAIL @ md_Metric d = m @ BYTEMAIL @ md_Metric e"
    by auto
  have "n = m \<and> tl BYTEMAIL @ md_Metric d = tl BYTEMAIL @ md_Metric e"
    by (rule first_sep [OF nm(1,3)]) (use eq2 in \<open>simp add: BYTEMAIL_def\<close>)
  with p s nm show ?thesis by simp
qed

lemma card_image_kernel:
  assumes "\<And>d e. d \<in> A \<Longrightarrow> e \<in> A \<Longrightarrow> f d = f e \<longleftrightarrow> h d = h e"
  shows "card (f ` A) = card (h ` A)"
proof -
  define i where "i = (\<lambda>y. h (inv_into A f y))"
  have "i (f d) = h d" if "d \<in> A" for d
    using assms [OF inv_into_into [of "f d" f A] that] that by (simp add: i_def f_inv_into_f)
  then have im: "h ` A = i ` f ` A" and inj: "inj_on i (f ` A)"
    using assms by (auto simp: image_iff inj_on_def)
  show ?thesis unfolding im card_image [OF inj] ..
qed

lemma join_part: "x \<in> set xs \<Longrightarrow> \<exists>pre post. join sep xs = pre @ x @ post"
proof (induction xs)
  case (Cons w ws)
  show ?case
  proof (cases "x = w")
    case True
    then show ?thesis by (cases ws) (auto intro: exI [of _ "[]"])
  next
    case False
    then obtain pre post where "join sep ws = pre @ x @ post" using Cons by auto
    then show ?thesis using False Cons.prems
      by (intro exI [of _ "w @ sep @ pre"] exI [of _ post]) (cases ws, auto)
  qed
qed simp

section \<open>Properties\<close>

lemma combine_mail_core:
  assumes "\<forall>n. up n" "queue \<noteq> MAIL_QUEUE_NAME" "\<And>m. mset (rng m) = mset m"
    and dtos: "dtos = List.map_filter (read_entry mail_dto_of) (rev (Lists r queue))"
    and "\<forall>d \<in> set dtos. company_mail d"
  shows "\<exists>mails. Lists (combineMail up queue rng r) =
        (Lists r)(queue := [], MAIL_QUEUE_NAME := map (\<lambda>m. Json (mail_json m)) mails @ Lists r MAIL_QUEUE_NAME) \<and>
      length mails = card ((\<lambda>d. (md_Priority d, md_Status d, md_Email d, md_Metric d)) ` set dtos) \<and>
      (\<forall>m \<in> set mails. \<exists>d \<in> set dtos. ml_Tos m = md_Email d) \<and>
      (\<forall>d \<in> set dtos. \<exists>m \<in> set mails. ml_Tos m = md_Email d \<and> (\<exists>pre post. ml_Content m = pre @ md_Content d @ post) \<and>
         (filter (\<lambda>e. mail_key e = mail_key d) dtos = [d] \<longrightarrow> ml_Subject m = md_Subject d \<and> ml_Content m = md_Content d))"
proof -
  define g where "g = (if dtos = [] then [] else rng (dtoMap mail_key dtos))"
  define mails where "mails = rev (map (\<lambda>(k, arr). mail_of_group arr) g)"
  have g: "mset g = mset (dtoMap mail_key dtos)"
    using assms(3) by (simp add: g_def dtoMap_def)
  have entries: "(k, arr) \<in> set g \<longleftrightarrow> k \<in> mail_key ` set dtos \<and> arr = filter (\<lambda>d. mail_key d = k) dtos" for k arr
    by (rule dtoMap_entries [OF g])
  have lists: "Lists (combineMail up queue rng r) =
      (Lists r)(queue := [], MAIL_QUEUE_NAME := map (\<lambda>m. Json (mail_json m)) mails @ Lists r MAIL_QUEUE_NAME)"
    unfolding combineMail_lists [OF assms(1,2)]
    by (simp add: mails_def g_def dtos rev_map case_prod_beta' comp_def Let_def)
  have "length mails = card (mail_key ` set dtos)"
    using arg_cong [OF g, of size] by (simp add: mails_def mset_dtoMap)
  also have "\<dots> = card ((\<lambda>d. (md_Priority d, md_Status d, md_Email d, md_Metric d)) ` set dtos)"
  proof (rule card_image_kernel)
    fix d e assume "d \<in> set dtos" "e \<in> set dtos"
    then show "mail_key d = mail_key e \<longleftrightarrow>
        (md_Priority d, md_Status d, md_Email d, md_Metric d) = (md_Priority e, md_Status e, md_Email e, md_Metric e)"
      using mail_key_separates [of d e] assms(5) by (auto simp: mail_key_def)
  qed
  finally have len: "length mails = card ((\<lambda>d. (md_Priority d, md_Status d, md_Email d, md_Metric d)) ` set dtos)" .
  have to: "ml_Tos (mail_of_group arr) = md_Email (hd arr)" for arr
    by (simp add: mail_of_group_def combined_mail_def Let_def)
  have content: "\<exists>pre post. ml_Content (mail_of_group arr) = pre @ md_Content d @ post" if "d \<in> set arr" for d arr
  proof (cases "length arr = 1")
    case True
    then have "hd arr = d" using that by (cases arr) auto
    then show ?thesis using True by (intro exI [of _ "[]"]) (simp add: mail_of_group_def combined_mail_def)
  next
    case False
    then show ?thesis using that join_part [of "md_Content d" "map md_Content arr"]
      by (simp add: mail_of_group_def combined_mail_def Let_def)
  qed
  have groups: "m \<in> set mails \<longleftrightarrow> (\<exists>d \<in> set dtos. m = mail_of_group (filter (\<lambda>e. mail_key e = mail_key d) dtos))" for m
    using entries by (force simp: mails_def)
  have hd_email: "md_Email (hd (filter (\<lambda>e. mail_key e = mail_key d) dtos)) = md_Email d" if "d \<in> set dtos" for d
  proof -
    define h where "h = hd (filter (\<lambda>e. mail_key e = mail_key d) dtos)"
    have "h \<in> set (filter (\<lambda>e. mail_key e = mail_key d) dtos)"
      unfolding h_def using that by (intro hd_in_set) (auto simp: filter_empty_conv)
    then have "h \<in> set dtos" "mail_key h = mail_key d" by simp_all
    then have "md_Email h = md_Email d" using mail_key_separates [of h d] assms(5) that by simp
    then show ?thesis by (simp add: h_def)
  qed
  have "ml_Subject (mail_of_group [d]) = md_Subject d \<and> ml_Content (mail_of_group [d]) = md_Content d" for d
    by (simp add: mail_of_group_def combined_mail_def)
  then have parts: "\<exists>m \<in> set mails. ml_Tos m = md_Email d \<and> (\<exists>pre post. ml_Content m = pre @ md_Content d @ post) \<and>
         (filter (\<lambda>e. mail_key e = mail_key d) dtos = [d] \<longrightarrow> ml_Subject m = md_Subject d \<and> ml_Content m = md_Content d)"
    if "d \<in> set dtos" for d
    using that hd_email [OF that] content [of d "filter (\<lambda>e. mail_key e = mail_key d) dtos"]
    by (intro bexI [of _ "mail_of_group (filter (\<lambda>e. mail_key e = mail_key d) dtos)"]) (auto simp: to groups)
  have "\<exists>d \<in> set dtos. ml_Tos m = md_Email d" if "m \<in> set mails" for m
    using that hd_email unfolding groups by (metis to)
  with lists len parts show ?thesis by (intro exI [of _ mails] conjI ballI) simp_all
qed


definition demo_mail :: "string \<Rightarrow> string \<Rightarrow> mail_dto" where
  "demo_mail to c = \<lparr>md_Priority = 3, md_Metric = ''load'', md_Subject = ''s'', md_Content = c, md_Email = to, md_Status = ''OK''\<rparr>"


section \<open>When the portal is away\<close>

lemma http_link_Some:
  assumes "http_link reply n p = Some y"
  shows "3 \<le> p \<or> (\<exists>k. reply k \<noteq> NoReply)"
proof (rule http_link.raw_induct [OF _ assms, where P = "\<lambda>reply n p y. 3 \<le> p \<or> (\<exists>k. reply k \<noteq> NoReply)"])
  fix f :: "(nat \<Rightarrow> attempt) \<Rightarrow> nat \<Rightarrow> nat \<Rightarrow> string res option" and reply :: "nat \<Rightarrow> attempt" and n p :: nat and y
  assume ih: "\<And>reply n p y. f reply n p = Some y \<Longrightarrow> 3 \<le> p \<or> (\<exists>k. reply k \<noteq> NoReply)"
    and body: "(if p < 3 then
        (case reply n of NoReply \<Rightarrow> f reply (n + 1) p | BadBody \<Rightarrow> f reply (n + 1) (p + 1) | Answer m \<Rightarrow> Some (Inr m))
      else Some (Inl (Err ''HttpLink_finally_failed''))) = Some y"
  show "3 \<le> p \<or> (\<exists>k. reply k \<noteq> NoReply)"
  proof (cases "reply n")
    case NoReply
    then show ?thesis using body ih [of reply "n + 1" p y] by (auto split: if_splits)
  qed (auto intro: exI [of _ n])
qed

lemma http_link_no_reply: "(\<And>n. reply n = NoReply) \<Longrightarrow> p < 3 \<Longrightarrow> http_link reply n p = None"
  using http_link_Some [of reply n p] by (cases "http_link reply n p") auto

lemma http_link_returns: "reply (n + j) = Answer m \<Longrightarrow> http_link reply n p \<noteq> None"
proof (induction j arbitrary: n p)
  case 0
  then show ?case by (subst http_link.simps) auto
next
  case (Suc j)
  then have "http_link reply (n + 1) q \<noteq> None" for q by simp
  then show ?case by (subst http_link.simps) (auto split: attempt.split)
qed

lemma write_groups_None:
  "(k, arr) \<in> set g \<Longrightarrow> (\<And>r. write arr r = None) \<Longrightarrow> write_groups write g r = None"
  by (induction g arbitrary: r) (auto split: option.split)

lemma write_groups_Some:
  "(\<And>k arr r. (k, arr) \<in> set g \<Longrightarrow> write arr r \<noteq> None) \<Longrightarrow> write_groups write g r \<noteq> None"
proof (induction g arbitrary: r)
  case (Cons x g)
  obtain k arr where x: "x = (k, arr)" by force
  then obtain r' where "write arr r = Some r'" using Cons.prems [of k arr r] by auto
  moreover have "write_groups write g r' \<noteq> None" using Cons.prems by (intro Cons.IH) auto
  ultimately show ?case using x by simp
qed simp

text \<open>
  a round of combining chats and short messages ends, whatever redis does, when for the
  contents of every group the portal answers some attempt, however late.
\<close>

theorem combining_returns:
  assumes "\<And>c. \<exists>n m. portal c n = Answer m"
  shows "combineSms up queue dashboard portal rng r \<noteq> None \<and> combineIM up queue' dashboard portal rng' r' \<noteq> None"
proof -
  have "LinkToSMS portal c \<noteq> None" for c
    using assms [of c] http_link_returns [of "portal c" 0 _ _ 0] by (auto simp: LinkToSMS_def HttpLink_def)
  from this [of "join '',,'' (map sd_Content _)"] this [of "join '',,'' (map id_Content _)"]
  have "write_sms_group up dashboard portal arr s \<noteq> None" "write_im_group up dashboard portal arr' s \<noteq> None" for arr arr' s
    by (auto simp: write_sms_group_def write_im_group_def Let_def split: option.split simp del: not_None_eq)
  then show ?thesis
    by (auto simp: combineSms_def combineIM_def write_groups_Some Let_def simp del: not_None_eq split: prod.split)
qed

theorem combining_returns_witness:
  "combineSms (\<lambda>_. True) ''/user/sms'' '''' (\<lambda>c n. if n < 5 then NoReply else Answer ''abc'') rev demo_redis \<noteq> None \<and>
   combineIM (\<lambda>_. True) ''/user/im'' '''' (\<lambda>c n. if n < 5 then NoReply else Answer ''abc'') rev demo_redis \<noteq> None"
  by (rule combining_returns) (auto intro: exI [of _ 5])

text \<open>
  when the portal cannot be reached, the loop of \<open>HttpLink\<close> does not count its attempts, so
  as soon as two waiting short messages belong together the round never ends; all the waiting messages
  are out of redis by then.
\<close>

theorem combining_hangs:
  assumes "\<forall>n. up n" "\<forall>m. set (rng m) = set m" "\<And>c n. portal c n = NoReply"
    and "2 \<le> length (filter (\<lambda>d. sms_key d = k) (List.map_filter (read_entry sms_dto_of) (rev (Lists r queue))))"
  shows "combineSms up queue dashboard portal rng r = None \<and> Lists (snd (popAllSmsDto up queue r)) queue = []"
proof -
  define dtos where "dtos = List.map_filter (read_entry sms_dto_of) (rev (Lists r queue))"
  define arr where "arr = filter (\<lambda>d. sms_key d = k) dtos"
  have l: "2 \<le> length arr" using assms(4) by (simp add: arr_def dtos_def)
  then have "arr \<noteq> []" by auto
  then obtain d where "d \<in> set dtos" "sms_key d = k" by (auto simp: arr_def filter_empty_conv)
  then have "(k, arr) \<in> set (rng (dtoMap sms_key dtos))"
    using assms(2) dtoMap_entries [of "dtoMap sms_key dtos" sms_key dtos k arr] by (auto simp: arr_def)
  moreover have "write_sms_group up dashboard portal arr s = None" for s
    using l http_link_no_reply [of "portal _" 0 0] assms(3)
    by (simp add: write_sms_group_def Let_def LinkToSMS_def HttpLink_def)
  ultimately have "write_groups (write_sms_group up dashboard portal) (rng (dtoMap sms_key dtos)) s = None" for s
    by (rule write_groups_None)
  moreover have "dtos \<noteq> []" using \<open>d \<in> set dtos\<close> by auto
  ultimately show ?thesis
    by (simp add: combineSms_def popAllSmsDto_def pop_all_up [OF assms(1)] dtos_def [symmetric])
qed

definition demo_sms :: "string \<Rightarrow> string \<Rightarrow> string \<Rightarrow> sms_dto" where
  "demo_sms to metric c = \<lparr>sd_Priority = 1, sd_Metric = metric, sd_Content = c, sd_Phone = to, sd_Status = ''PROBLEM''\<rparr>"

definition demo_waiting :: "sms_dto list \<Rightarrow> alarm_redis" where
  "demo_waiting ds = demo_redis\<lparr>Lists := (\<lambda>_. [])(''/user/sms'' := map (\<lambda>d. Json (sms_dto_json d)) (rev ds))\<rparr>"

lemma demo_waiting_read: "List.map_filter (read_entry sms_dto_of) (rev (Lists (demo_waiting ds) ''/user/sms'')) = ds"
  by (simp add: demo_waiting_def rev_map map_filter_read [of sms_dto_of])

theorem combining_hangs_witness:
  "combineSms (\<lambda>_. True) ''/user/sms'' '''' (\<lambda>c n. NoReply) rev
     (demo_waiting [demo_sms ''ann'' ''load'' ''x'', demo_sms ''ann'' ''load'' ''y'']) = None"
  using combining_hangs [of "\<lambda>_. True" rev "\<lambda>c n. NoReply" "sms_key (demo_sms ''ann'' ''load'' ''x'')"
      "demo_waiting [demo_sms ''ann'' ''load'' ''x'', demo_sms ''ann'' ''load'' ''y'']" "''/user/sms''" "''''"]
  by (simp add: demo_waiting_read demo_sms_def sms_key_def)

text \<open>
  the key has no separators, so two messages for different receivers can get the same key;
  then they are combined and only the receiver of the older one is told.
\<close>

theorem receivers_mixed_up:
  assumes "\<forall>n. up n" "queue \<noteq> SMS_QUEUE_NAME" "Lists r SMS_QUEUE_NAME = []" "\<forall>m. mset (rng m) = mset m"
    and "List.map_filter (read_entry sms_dto_of) (rev (Lists r queue)) = [d, e]"
    and "sd_Priority d = sd_Priority e" "sd_Status d = sd_Status e" "sd_Phone d @ sd_Metric d = sd_Phone e @ sd_Metric e"
    and "LinkToSMS portal (sd_Content d @ '',,'' @ sd_Content e) \<noteq> None"
  shows "\<exists>r' c. combineSms up queue dashboard portal rng r = Some r' \<and>
    Lists r' SMS_QUEUE_NAME = [Json (sms_json \<lparr>sms_Tos = sd_Phone d, sms_Content = c\<rparr>)]"
proof -
  have key: "sms_key d = sms_key e" using assms(6-8) by (simp add: sms_key_def)
  have "dtoMap sms_key [d, e] = [(sms_key d, [d, e])]"
    using key by (simp add: dtoMap_def group_step_def)
  then have g: "rng (dtoMap sms_key [d, e]) = [(sms_key d, [d, e])]"
    using assms(4) by (metis mset_single_iff_right mset.simps(1) mset.simps(2))
  obtain link where link: "LinkToSMS portal (sd_Content d @ '',,'' @ sd_Content e) = Some link" using assms(9) by blast
  show ?thesis
    using assms(1-3) link
    by (simp add: combineSms_def popAllSmsDto_def pop_all_up [OF assms(1)] assms(5) g write_sms_group_def
        WriteSms_up) (rule exI, rule refl)
qed

theorem receivers_mixed_up_witness:
  "\<exists>r' c. combineSms (\<lambda>_. True) ''/user/sms'' ''d'' (\<lambda>c n. Answer ''abc'') (\<lambda>m. m)
      (demo_waiting [demo_sms ''ann'' ''abc.qps'' ''x'', demo_sms ''anna'' ''bc.qps'' ''y'']) = Some r' \<and>
    Lists r' SMS_QUEUE_NAME = [Json (sms_json \<lparr>sms_Tos = ''ann'', sms_Content = c\<rparr>)]"
  using receivers_mixed_up [of "\<lambda>_. True" "''/user/sms''" "demo_waiting [demo_sms ''ann'' ''abc.qps'' ''x'', demo_sms ''anna'' ''bc.qps'' ''y'']"
      "\<lambda>m. m" "demo_sms ''ann'' ''abc.qps'' ''x''" "demo_sms ''anna'' ''bc.qps'' ''y''" "\<lambda>c n. Answer ''abc''" "''d''"]
    http_link_returns [of "\<lambda>n. Answer ''abc''" 0 0 "''abc''" 0]
  by (simp add: demo_waiting_read demo_sms_def LinkToSMS_def HttpLink_def) (simp add: demo_waiting_def queue_names)

end
