(* ===== verification/Alarm_Consume.thy ===== *)
theory Alarm_Consume
  imports Alarm_Content Alarm_Combine
begin

text \<open>
  Module alarm, \<open>cron/event_consumer.go\<close> and \<open>cron/callback.go\<close>: what becomes of an event. The action of
  its rule names the teams and chats to tell; muted users are left out; an event of a high priority
  is written to the channels at once, one of a low priority to the lists of messages to be combined.
  An event is consumed in a goroutine of its own; here it is one step on the state. A panic in it ends
  the process.
\<close>

section \<open>Environment and state\<close>

record alarm_env =
  ae_Api :: alarm_api
  ae_Up :: "nat \<Rightarrow> bool"
  ae_Zone :: "int \<Rightarrow> int"
  ae_Dashboard :: string
  ae_UserIMQueue :: string
  ae_UserSmsQueue :: string
  ae_UserMailQueue :: string
  ae_Users :: "(string, user) gomap \<Rightarrow> (string, user) gomap" \<comment> \<open>the order of a range over users\<close>
  ae_Cards :: "(string, string) gomap \<Rightarrow> (string, string) gomap"
  ae_Buttons :: "json list \<Rightarrow> json list"
  ae_Http :: "string \<Rightarrow> (string \<times> string) list \<Rightarrow> string \<times> string option" \<comment> \<open>body and error of a GET\<close>

record alarm_state =
  as_Caches :: alarm_caches
  as_Counters :: counters
  as_Redis :: alarm_redis
  as_Requests :: "(string \<times> (string \<times> string) list) list" \<comment> \<open>the callbacks made\<close>

definition on_redis :: "(alarm_redis \<Rightarrow> alarm_redis) \<Rightarrow> alarm_state \<Rightarrow> alarm_state" where
  "on_redis f s = s\<lparr>as_Redis := f (as_Redis s)\<rparr>"

section \<open>Who is told\<close>

definition GenerateUserMap :: "alarm_env \<Rightarrow> event \<Rightarrow> action \<Rightarrow> alarm_state \<Rightarrow> ((string, user) gomap \<times> alarm_state) res" where
  "GenerateUserMap env e a s =
     (let (userMap, c) = GetUsers (ae_Api env) (ac_Uic a) (as_Caches s);
          userMap = (if ac_LarkGroupId a \<noteq> ''''
            then gput (ac_LarkGroupId a) \<lparr>us_Name = ac_LarkGroupId a, us_Email = '''', us_Phone = ac_LarkGroupId a\<rparr> userMap
            else userMap)
      in bind_res (CommonFilterBlock e (as_Counters s) userMap) (\<lambda>m. Inr (m, s\<lparr>as_Caches := c\<rparr>)))"

text \<open>The texts, with the caches they look the action up in.\<close>

definition sms_text :: "alarm_env \<Rightarrow> event \<Rightarrow> string \<Rightarrow> string \<Rightarrow> alarm_state \<Rightarrow> (string \<times> alarm_state) res" where
  "sms_text env e amstag grps s =
     bind_res (GenerateSmsContent (ae_Api env) (ae_Zone env) e amstag grps (as_Caches s)) (\<lambda>(t, c). Inr (t, s\<lparr>as_Caches := c\<rparr>))"

definition mail_text :: "alarm_env \<Rightarrow> event \<Rightarrow> string \<Rightarrow> string \<Rightarrow> alarm_state \<Rightarrow> (string \<times> alarm_state) res" where
  "mail_text env e amstag grps s =
     bind_res (GenerateMailContent (ae_Api env) (ae_Zone env) (ae_Dashboard env) e amstag grps (as_Caches s))
       (\<lambda>(t, c). Inr (t, s\<lparr>as_Caches := c\<rparr>))"

definition cards :: "alarm_env \<Rightarrow> string list \<Rightarrow> event \<Rightarrow> string \<Rightarrow> string \<Rightarrow> alarm_state
    \<Rightarrow> ((string, string) gomap option \<times> alarm_state) res" where
  "cards env names e amstag grps s =
     bind_res (BuildLarkCardImContent (ae_Api env) (ae_Zone env) (ae_Dashboard env) (ae_Buttons env) names e amstag grps (as_Caches s))
       (\<lambda>(m, c). Inr (m, s\<lparr>as_Caches := c\<rparr>))"

section \<open>High priority\<close>

text \<open>The writes at the end of \<open>consumeHighEvents\<close>, with redis alone.\<close>

definition high_writes :: "alarm_env \<Rightarrow> int \<Rightarrow> string \<Rightarrow> string list \<Rightarrow> string \<Rightarrow> string \<Rightarrow> string
    \<Rightarrow> (string, string) gomap option \<Rightarrow> alarm_redis \<Rightarrow> alarm_redis" where
  "high_writes env priority status names smsContent mailContent phoneContent cardMap r =
     (let up = ae_Up env;
          r = (if priority < 3 then WriteSms up names smsContent r else r);
          r = (if priority = 9
               then (let r = WriteSms up names smsContent r
                     in if status = ''PROBLEM'' then WritePhone up names phoneContent r else r)
               else r);
          r = (case cardMap of None \<Rightarrow> r | Some m \<Rightarrow> WriteImCard up (ae_Cards env m) r)
      in WriteMail up (map (\<lambda>k. k @ BYTEMAIL) names) smsContent mailContent r)"

definition consumeHighEvents :: "alarm_env \<Rightarrow> event \<Rightarrow> action \<Rightarrow> string \<Rightarrow> string \<Rightarrow> alarm_state \<Rightarrow> alarm_state res" where
  "consumeHighEvents env e a amstag grps s =
     (if ac_Uic a = '''' \<and> ac_LarkGroupId a = '''' then Inr s
      else
        bind_res (GenerateUserMap env e a s) (\<lambda>(userMap, s).
          let filterNames = gkeys (ae_Users env userMap) in
          bind_res (sms_text env e amstag grps s) (\<lambda>(smsContent, s).
          bind_res (mail_text env e amstag grps s) (\<lambda>(mailContent, s).
          bind_res (cards env filterNames e amstag grps s) (\<lambda>(cardMap, s).
          bind_res (GeneratePhoneContent e) (\<lambda>phoneContent.
          bind_res (Priority e) (\<lambda>p.
            Inr (on_redis (high_writes env p (ev_Status e) filterNames smsContent mailContent phoneContent cardMap) s))))))))"

section \<open>Low priority\<close>

text \<open>One element per user at the front of a list of messages to be combined.\<close>

definition push_dtos :: "(nat \<Rightarrow> bool) \<Rightarrow> string \<Rightarrow> (user \<Rightarrow> json) \<Rightarrow> (string, user) gomap \<Rightarrow> alarm_redis \<Rightarrow> alarm_redis" where
  "push_dtos up queue dto users r = foldl (\<lambda>r (k, u). lpush up queue (Json (dto u)) r) r users"

definition ParseUserSms :: "alarm_env \<Rightarrow> event \<Rightarrow> action \<Rightarrow> string \<Rightarrow> string \<Rightarrow> alarm_state \<Rightarrow> alarm_state res" where
  "ParseUserSms env e a amstag grps s =
     bind_res (GenerateUserMap env e a s) (\<lambda>(userMap, s).
     bind_res (sms_text env e amstag grps s) (\<lambda>(content, s).
     bind_res (Metric e) (\<lambda>metric. bind_res (Priority e) (\<lambda>priority.
       Inr (on_redis (push_dtos (ae_Up env) (ae_UserSmsQueue env) (\<lambda>u. sms_dto_json \<lparr>sd_Priority = priority,
         sd_Metric = metric, sd_Content = content, sd_Phone = us_Name u, sd_Status = ev_Status e\<rparr>) (ae_Users env userMap)) s)))))"

definition ParseUserMail :: "alarm_env \<Rightarrow> event \<Rightarrow> action \<Rightarrow> string \<Rightarrow> string \<Rightarrow> alarm_state \<Rightarrow> alarm_state res" where
  "ParseUserMail env e a amstag grps s =
     bind_res (GenerateUserMap env e a s) (\<lambda>(userMap, s).
     bind_res (Metric e) (\<lambda>metric.
     bind_res (sms_text env e amstag grps s) (\<lambda>(subject, s).
     bind_res (mail_text env e amstag grps s) (\<lambda>(content, s).
     bind_res (Priority e) (\<lambda>priority.
       Inr (on_redis (push_dtos (ae_Up env) (ae_UserMailQueue env) (\<lambda>u. mail_dto_json \<lparr>md_Priority = priority,
         md_Metric = metric, md_Subject = subject, md_Content = content, md_Email = us_Email u, md_Status = ev_Status e\<rparr>)
         (ae_Users env userMap)) s))))))"

text \<open>For each user the card is built again; a missing card is the empty text.\<close>

fun im_users :: "alarm_env \<Rightarrow> event \<Rightarrow> string \<Rightarrow> string \<Rightarrow> string \<Rightarrow> string \<Rightarrow> int \<Rightarrow> (string, user) gomap
    \<Rightarrow> alarm_state \<Rightarrow> alarm_state res" where
  "im_users env e amstag grps content metric priority [] s = Inr s"
| "im_users env e amstag grps content metric priority ((userName, u) # us) s =
     bind_res (cards env [userName] e amstag grps s) (\<lambda>(m, s).
       let body = (case m of None \<Rightarrow> '''' | Some m \<Rightarrow> (case gget m userName of None \<Rightarrow> '''' | Some b \<Rightarrow> b)) in
       im_users env e amstag grps content metric priority us
         (on_redis (lpush (ae_Up env) (ae_UserIMQueue env) (Json (im_dto_json \<lparr>id_Priority = priority, id_Metric = metric,
            id_Content = content, id_IM = us_Name u, id_Name = us_Name u, id_Status = ev_Status e,
            id_LarkCardContent = body\<rparr>))) s))"

definition ParseUserIm :: "alarm_env \<Rightarrow> event \<Rightarrow> action \<Rightarrow> string \<Rightarrow> string \<Rightarrow> alarm_state \<Rightarrow> alarm_state res" where
  "ParseUserIm env e a amstag grps s =
     bind_res (GenerateUserMap env e a s) (\<lambda>(userMap, s).
     bind_res (mail_text env e amstag grps s) (\<lambda>(content, s).
     bind_res (Metric e) (\<lambda>metric. bind_res (Priority e) (\<lambda>priority.
       im_users env e amstag grps content metric priority (ae_Users env userMap) s))))"

definition consumeLowEvents :: "alarm_env \<Rightarrow> event \<Rightarrow> action \<Rightarrow> string \<Rightarrow> string \<Rightarrow> alarm_state \<Rightarrow> alarm_state res" where
  "consumeLowEvents env e a amstag grps s =
     (if ac_Uic a = '''' \<and> ac_LarkGroupId a = '''' then Inr s
      else
        bind_res (Priority e) (\<lambda>p.
        bind_res (if p < 3 then ParseUserSms env e a amstag grps s else Inr s) (\<lambda>s.
        bind_res (ParseUserIm env e a amstag grps s) (ParseUserMail env e a amstag grps))))"

section \<open>Callbacks\<close>

definition callback_params :: "(int \<Rightarrow> int) \<Rightarrow> event \<Rightarrow> string \<Rightarrow> (string \<times> string) list res" where
  "callback_params zone e grps =
     bind_res (Metric e) (\<lambda>m. bind_res (Priority e) (\<lambda>p. bind_res (TplId e) (\<lambda>t. bind_res (Note e) (\<lambda>n.
       Inr [(''endpoint'', ev_Endpoint e), (''metric'', m), (''status'', ev_Status e), (''step'', itoa (ev_CurrentStep e)),
            (''priority'', itoa p), (''time'', FormattedTime zone e), (''tpl_id'', itoa t), (''exp_id'', itoa (ExpressionId e)),
            (''stra_id'', itoa (StrategyId e)), (''left_value'', ReadableFloat (ev_LeftValue e)), (''grps'', grps),
            (''tags'', join '','' (map (\<lambda>(k, v). k @ '':'' @ v) (ev_PushedTags e))), (''note'', n)]))))"

definition Callback :: "alarm_env \<Rightarrow> event \<Rightarrow> action \<Rightarrow> string \<Rightarrow> alarm_state \<Rightarrow> (string \<times> alarm_state) res" where
  "Callback env e a grps s =
     (if ac_Url a = '''' then Inr (''callback url is blank'', s)
      else
        bind_res (callback_params (ae_Zone env) e grps) (\<lambda>ps.
          let (resp, err) = ae_Http env (ac_Url a) ps;
              success = (case err of None \<Rightarrow> ''success'' | Some msg \<Rightarrow> ''fail:'' @ msg)
          in Inr (''curl '' @ ac_Url a @ '' '' @ success @ ''. resp: '' @ resp,
                  s\<lparr>as_Requests := as_Requests s @ [(ac_Url a, ps)]\<rparr>)))"

definition HandleCallback :: "alarm_env \<Rightarrow> event \<Rightarrow> action \<Rightarrow> string \<Rightarrow> string \<Rightarrow> alarm_state \<Rightarrow> alarm_state res" where
  "HandleCallback env e a amstag grps s =
     (let teams = ac_Uic a; up = ae_Up env in
      bind_res
        (if teams = '''' then Inr (([], []), s)
         else
           (let ((userNames, mails), c) = ParseTeams (ae_Api env) teams (as_Caches s); s = s\<lparr>as_Caches := c\<rparr> in
            bind_res (sms_text env e amstag grps s) (\<lambda>(smsContent, s).
            bind_res (mail_text env e amstag grps s) (\<lambda>(mailContent, s).
            bind_res (GenerateIMContent (ae_Zone env) e) (\<lambda>imContent.
              let s = (if ac_BeforeCallbackSms a = 1
                       then on_redis (\<lambda>r. WriteIM up userNames imContent (WriteSms up userNames smsContent r)) s else s);
                  s = (if ac_BeforeCallbackMail a = 1 then on_redis (WriteMail up mails smsContent mailContent) s else s)
              in Inr ((userNames, mails), s))))))
        (\<lambda>((userNames, mails), s).
      bind_res (Callback env e a grps s) (\<lambda>(message, s).
        if teams = '''' then Inr s
        else
          (let s = (if ac_AfterCallbackSms a = 1
                    then on_redis (\<lambda>r. WriteIM up userNames message (WriteSms up userNames message r)) s else s);
               s = (if ac_AfterCallbackMail a = 1 then on_redis (WriteMail up mails message message) s else s)
           in Inr s))))"

section \<open>An event\<close>

definition consume :: "alarm_env \<Rightarrow> event \<Rightarrow> bool \<Rightarrow> alarm_state \<Rightarrow> alarm_state res" where
  "consume env e isHigh s =
     bind_res (ActionId e) (\<lambda>actionId.
     if actionId \<le> 0 then Inr s
     else
       bind_res (GetAction (ae_Api env) actionId (as_Caches s)) (\<lambda>(action, c).
         case action of
           None \<Rightarrow> Inr (s\<lparr>as_Caches := c\<rparr>)
         | Some a \<Rightarrow>
             bind_res (TplId e) (\<lambda>tplId.
               let (groups, c) = GetEndpointTplGroups (ae_Api env) tplId (ev_Endpoint e) c;
                   (amstag, c) = GetAmsTag (ae_Api env) (ev_Endpoint e) c;
                   s = s\<lparr>as_Caches := c\<rparr>
               in bind_res (if ac_Callback a = 1 then HandleCallback env e a amstag groups s else Inr s) (\<lambda>s.
                    if isHigh then consumeHighEvents env e a amstag groups s
                    else consumeLowEvents env e a amstag groups s))))"

end
