(* ===== verification/Alarm_Flow.thy ===== *)
theory Alarm_Flow
  imports Alarm_Consume
begin

text \<open>
  Module alarm, the way of an event through the stages: who gets it over which channel, what muting
  does to it, and what reaches people after combining.
\<close>

section \<open>The writers\<close>

lemma WriteSms_Lists: "\<forall>n. up n \<Longrightarrow> Lists (WriteSms up tos c r) =
    (if tos = [] then Lists r
     else (Lists r)(SMS_QUEUE_NAME := Json (sms_json \<lparr>sms_Tos = join '','' tos, sms_Content = c\<rparr>) # Lists r SMS_QUEUE_NAME))"
  by (simp add: WriteSms_def WriteSmsModel_def lpush_def)

lemma WritePhone_Lists: "\<forall>n. up n \<Longrightarrow> Lists (WritePhone up tos c r) =
    (if tos = [] then Lists r
     else (Lists r)(PHONE_QUEUE_NAME := Json (sms_json \<lparr>sms_Tos = join '','' tos, sms_Content = c\<rparr>) # Lists r PHONE_QUEUE_NAME))"
  by (simp add: WritePhone_def WritePhoneModel_def lpush_def)

lemma WriteMail_Lists: "\<forall>n. up n \<Longrightarrow> Lists (WriteMail up tos sub c r) =
    (if tos = [] then Lists r
     else (Lists r)(MAIL_QUEUE_NAME := Json (mail_json \<lparr>ml_Tos = join '','' tos, ml_Subject = sub, ml_Content = c\<rparr>) # Lists r MAIL_QUEUE_NAME))"
  by (simp add: WriteMail_def WriteMailModel_def lpush_def)

lemma WriteImCard_Lists: "\<forall>n. up n \<Longrightarrow> Lists (WriteImCard up m r) =
    (Lists r)(IM_QUEUE_NAME := rev (map (\<lambda>(u, b). Json (im_json \<lparr>im_Tos = u, im_Content = b, im_IsCard = True\<rparr>)) m) @ Lists r IM_QUEUE_NAME)"
proof (induction m arbitrary: r)
  case (Cons x m)
  obtain u b where "x = (u, b)" by force
  then show ?case using Cons by (auto simp: WriteImCard_def WriteIMModel_def lpush_def)
qed (simp add: WriteImCard_def)

text \<open>The messages that a high event adds to a list, oldest last.\<close>

definition high_messages :: "int \<Rightarrow> string \<Rightarrow> string list \<Rightarrow> string \<Rightarrow> string \<Rightarrow> string
    \<Rightarrow> (string, string) gomap \<Rightarrow> string \<Rightarrow> json list" where
  "high_messages p status names smsC mailC phoneC m q =
     (if names = [] then []
      else if q = SMS_QUEUE_NAME then
        (if p < 3 \<or> p = 9 then [sms_json \<lparr>sms_Tos = join '','' names, sms_Content = smsC\<rparr>] else [])
      else if q = PHONE_QUEUE_NAME then
        (if p = 9 \<and> status = ''PROBLEM'' then [sms_json \<lparr>sms_Tos = join '','' names, sms_Content = phoneC\<rparr>] else [])
      else if q = MAIL_QUEUE_NAME then
        [mail_json \<lparr>ml_Tos = join '','' (map (\<lambda>k. k @ BYTEMAIL) names), ml_Subject = smsC, ml_Content = mailC\<rparr>]
      else if q = IM_QUEUE_NAME then
        rev (map (\<lambda>(u, b). im_json \<lparr>im_Tos = u, im_Content = b, im_IsCard = True\<rparr>) m)
      else [])"

lemma high_writes_Lists:
  assumes "\<forall>n. ae_Up env n" "names = [] \<longrightarrow> ae_Cards env m = []"
  shows "Lists (high_writes env p status names smsC mailC phoneC (Some m) r) q =
    map Json (high_messages p status names smsC mailC phoneC (ae_Cards env m) q) @ Lists r q"
  using assms
  by (simp add: high_writes_def high_messages_def Let_def WriteSms_Lists WritePhone_Lists WriteMail_Lists
      WriteImCard_Lists rev_map case_prod_beta' comp_def queue_names)

section \<open>Lookups that do not change during an event\<close>

definition lookup :: "alarm_api \<Rightarrow> alarm_caches \<Rightarrow> string \<Rightarrow> user list" where
  "lookup api c team = fst (UsersOf api team c)"

lemma lookup_UsersOf: "0 \<le> ap_Now api \<Longrightarrow> lookup api (snd (UsersOf api t c)) = lookup api c"
  by (rule ext) (auto simp: lookup_def UsersOf_def Let_def cache_Get_def cache_Set_def default_expiration_def CacheTTl_def
      split: option.split)

lemma UsersOf_other: "ActionsCache (snd (UsersOf api t c)) = ActionsCache c"
  by (simp add: UsersOf_def Let_def split: option.split)

definition put_teams :: "(string \<Rightarrow> user list) \<Rightarrow> (string, user) gomap \<Rightarrow> string list \<Rightarrow> (string, user) gomap" where
  "put_teams look m teams = foldl (\<lambda>m t. if t = '''' then m else foldl (\<lambda>m u. gput (us_Name u) u m) m (look t)) m teams"

lemma users_loop_lookup:
  "0 \<le> ap_Now api \<Longrightarrow> fst (users_loop api teams m c) = put_teams (lookup api c) m teams \<and>
     lookup api (snd (users_loop api teams m c)) = lookup api c \<and>
     ActionsCache (snd (users_loop api teams m c)) = ActionsCache c"
proof (induction api teams m c rule: users_loop.induct)
  case (2 api team teams m c)
  show ?case
  proof (cases "team = ''''")
    case True
    then show ?thesis using 2 by (simp add: put_teams_def)
  next
    case False
    obtain us c' where u: "UsersOf api team c = (us, c')" by force
    have "lookup api c' = lookup api c" "us = lookup api c team" "ActionsCache c' = ActionsCache c"
      using lookup_UsersOf [OF 2(3), of team c] UsersOf_other [of api team c] by (simp_all add: u) (simp add: lookup_def u)
    then show ?thesis using 2(2) [OF False refl u [symmetric] 2(3)] False u by (simp add: put_teams_def)
  qed
qed (simp add: put_teams_def)

text \<open>The users an action names, and those of them who have not muted the event.\<close>

definition named_users :: "alarm_env \<Rightarrow> alarm_caches \<Rightarrow> action \<Rightarrow> (string, user) gomap" where
  "named_users env c a =
     (let m = put_teams (lookup (ae_Api env) c) [] (split (CHR '','') (ac_Uic a)) in
      if ac_LarkGroupId a \<noteq> ''''
      then gput (ac_LarkGroupId a) \<lparr>us_Name = ac_LarkGroupId a, us_Email = '''', us_Phone = ac_LarkGroupId a\<rparr> m else m)"

definition told_users :: "alarm_env \<Rightarrow> event \<Rightarrow> action \<Rightarrow> alarm_state \<Rightarrow> (string, user) gomap res" where
  "told_users env e a s = CommonFilterBlock e (as_Counters s) (named_users env (as_Caches s) a)"

definition same_answers :: "alarm_env \<Rightarrow> alarm_state \<Rightarrow> alarm_state \<Rightarrow> bool" where
  "same_answers env s s' \<longleftrightarrow> lookup (ae_Api env) (as_Caches s') = lookup (ae_Api env) (as_Caches s) \<and>
     ActionsCache (as_Caches s') = ActionsCache (as_Caches s) \<and> as_Counters s' = as_Counters s"

lemma same_answers_refl [simp]: "same_answers env s s"
  by (simp add: same_answers_def)

lemma same_answers_told: "same_answers env s s' \<Longrightarrow> told_users env e a s' = told_users env e a s"
  by (simp add: same_answers_def told_users_def named_users_def)

lemma GenerateUserMap_told:
  assumes "0 \<le> ap_Now (ae_Api env)"
  shows "\<exists>s'. GenerateUserMap env e a s = bind_res (told_users env e a s) (\<lambda>m. Inr (m, s')) \<and>
    same_answers env s s' \<and> as_Redis s' = as_Redis s"
proof -
  obtain m c where g: "GetUsers (ae_Api env) (ac_Uic a) (as_Caches s) = (m, c)" by force
  have "m = put_teams (lookup (ae_Api env) (as_Caches s)) [] (split (CHR '','') (ac_Uic a))"
    "lookup (ae_Api env) c = lookup (ae_Api env) (as_Caches s)" "ActionsCache c = ActionsCache (as_Caches s)"
    using users_loop_lookup [OF assms, of "split (CHR '','') (ac_Uic a)" "[]" "as_Caches s"] g by (simp_all add: GetUsers_def)
  then show ?thesis
    by (intro exI [of _ "s\<lparr>as_Caches := c\<rparr>"])
       (simp add: GenerateUserMap_def g told_users_def named_users_def same_answers_def Let_def)
qed

text \<open>The action of the event is in the cache, as it is when \<open>consume\<close> has looked it up.\<close>

definition knows_action :: "alarm_env \<Rightarrow> event \<Rightarrow> action \<Rightarrow> alarm_state \<Rightarrow> bool" where
  "knows_action env e a s \<longleftrightarrow>
     (\<exists>i. ActionId e = Inr i \<and> cache_Get (ap_Now (ae_Api env)) (itoa i) (ActionsCache (as_Caches s)) = Some (CAction a))"

lemma knows_same: "same_answers env s s' \<Longrightarrow> knows_action env e a s' = knows_action env e a s"
  by (simp add: same_answers_def knows_action_def)

lemma texts_known:
  assumes "knows_action env e a s"
  shows "sms_text env e amstag grps s = bind_res (BuildCommonSMSContent (ae_Zone env) e (ac_Uic a) amstag grps) (\<lambda>t. Inr (t, s))"
    "mail_text env e amstag grps s = bind_res (BuildCommonMailContent (ae_Zone env) (ae_Dashboard env) e (ac_Uic a) amstag grps) (\<lambda>t. Inr (t, s))"
  using assms
  by (auto simp: knows_action_def sms_text_def mail_text_def GenerateSmsContent_def GenerateMailContent_def GetAction_def
      bind_res_def split: sum.split)

text \<open>The card of a user, when the texts can be built.\<close>

definition card_of :: "alarm_env \<Rightarrow> event \<Rightarrow> action \<Rightarrow> string \<Rightarrow> string \<Rightarrow> string \<Rightarrow> string res" where
  "card_of env e a amstag grps userName =
     bind_res (Link (ae_Dashboard env) e) (\<lambda>link. bind_res (ModLink (ae_Dashboard env) e) (\<lambda>modLink. bind_res (Metric e) (\<lambda>mc.
     bind_res (card_text (ae_Zone env) e (ac_Uic a) amstag grps) (\<lambda>content.
       Inr (marshal (lark_card (ae_Buttons env) userName content
         (link_buttons (ModUicLink (ae_Dashboard env) (ac_Uic a)) link modLink)
         (mute_buttons userName (ev_Endpoint e @ ''_'' @ mc) mc)))))))"

lemma put_names:
  "distinct names \<Longrightarrow> foldl (\<lambda>m n. gput n (f n) m) [] names = map (\<lambda>n. (n, f n)) names"
proof (induction names rule: rev_induct)
  case (snoc n names)
  have "gput n v m = m @ [(n, v)]" if "n \<notin> fst ` set m" for v :: 'b and m
    using that by (induction m) auto
  from this [of "map (\<lambda>n. (n, f n)) names" "f n"] snoc show ?case by (simp add: image_image)
qed simp

lemma cards_known:
  assumes "knows_action env e a s" "distinct names" "cards env names e amstag grps s = Inr (m, s')"
  shows "s' = s \<and> (\<exists>body. m = Some (map (\<lambda>n. (n, body n)) names) \<and>
    (\<forall>n \<in> set names. card_of env e a amstag grps n = Inr (body n)))"
proof -
  obtain i where i: "ActionId e = Inr i" "cache_Get (ap_Now (ae_Api env)) (itoa i) (ActionsCache (as_Caches s)) = Some (CAction a)"
    using assms(1) by (auto simp: knows_action_def)
  then have act: "GetAction (ae_Api env) i (as_Caches s) = Inr (Some a, as_Caches s)" by (simp add: GetAction_def)
  from assms(3) obtain l ml mc k where
    parts: "Link (ae_Dashboard env) e = Inr l" "ModLink (ae_Dashboard env) e = Inr ml" "Metric e = Inr mc" "AlarmIsUnionString e = Inr k"
    by (auto simp: cards_def BuildLarkCardImContent_def i(1) act)
  show ?thesis
  proof (cases "names = []")
    case True
    then show ?thesis using assms(3) by (auto simp: cards_def BuildLarkCardImContent_def i(1) act parts)
  next
    case False
    then obtain content where content: "card_text (ae_Zone env) e (ac_Uic a) amstag grps = Inr content"
      using assms(3) by (auto simp: cards_def BuildLarkCardImContent_def i(1) act parts)
    define body where "body = (\<lambda>n. marshal (lark_card (ae_Buttons env) n content
         (link_buttons (ModUicLink (ae_Dashboard env) (ac_Uic a)) l ml) (mute_buttons n (ev_Endpoint e @ ''_'' @ mc) mc)))"
    have "m = Some (foldl (\<lambda>m n. gput n (body n) m) [] names)" "s' = s"
      using assms(3) False by (auto simp: cards_def BuildLarkCardImContent_def i(1) act parts content body_def)
    moreover have "card_of env e a amstag grps n = Inr (body n)" for n
      by (simp add: card_of_def parts content body_def)
    ultimately show ?thesis using put_names [OF assms(2), of body] by auto
  qed
qed

lemma told_gkeys:
  assumes "\<And>m. mset (ae_Users env m) = mset m" "gwf users"
  shows "distinct (gkeys (ae_Users env users)) \<and> set (gkeys (ae_Users env users)) = dom (gget users)"
proof -
  have "mset (gkeys (ae_Users env users)) = mset (gkeys users)"
    using arg_cong [OF assms(1) [of users], of "image_mset fst"] by simp
  then show ?thesis
    using assms(2) by (metis gkeys_dom gwf_def mset_eq_imp_distinct_iff mset_eq_setD)
qed

lemma filter_blocked_wf: "filter_blocked e c us m = Inr m' \<Longrightarrow> gwf m \<Longrightarrow> gwf m'"
proof (induction us arbitrary: m)
  case (Cons x us)
  obtain n u where "x = (n, u)" by force
  then show ?case using Cons by (auto split: if_splits)
qed simp

lemma told_wf: "told_users env e a s = Inr users \<Longrightarrow> gwf users"
  unfolding told_users_def CommonFilterBlock_def by (erule filter_blocked_wf) simp

text \<open>What \<open>consumeHighEvents\<close> does when it does not panic.\<close>

lemma consumeHigh_known:
  assumes known: "knows_action env e a s" and now: "0 \<le> ap_Now (ae_Api env)"
    and some: "ac_Uic a \<noteq> '''' \<or> ac_LarkGroupId a \<noteq> ''''" and perm: "\<And>m. mset (ae_Users env m) = mset m"
    and run: "consumeHighEvents env e a amstag grps s = Inr s'"
  shows "\<exists>users smsC mailC phoneC body p. told_users env e a s = Inr users \<and> Priority e = Inr p \<and>
    BuildCommonSMSContent (ae_Zone env) e (ac_Uic a) amstag grps = Inr smsC \<and>
    BuildCommonMailContent (ae_Zone env) (ae_Dashboard env) e (ac_Uic a) amstag grps = Inr mailC \<and>
    BuildCommonPhoneContent e = Inr phoneC \<and>
    (\<forall>n \<in> dom (gget users). card_of env e a amstag grps n = Inr (body n)) \<and>
    as_Redis s' = high_writes env p (ev_Status e) (gkeys (ae_Users env users)) smsC mailC phoneC
      (Some (map (\<lambda>n. (n, body n)) (gkeys (ae_Users env users)))) (as_Redis s)"
proof -
  obtain s1 where g: "GenerateUserMap env e a s = bind_res (told_users env e a s) (\<lambda>m. Inr (m, s1))"
    "same_answers env s s1" "as_Redis s1 = as_Redis s"
    using GenerateUserMap_told [OF now] by blast
  have known1: "knows_action env e a s1" using knows_same [OF g(2)] known by simp
  note run' = run [unfolded consumeHighEvents_def g(1)]
  from run' some obtain users where users: "told_users env e a s = Inr users" by auto
  let ?names = "gkeys (ae_Users env users)"
  from run' some obtain smsC mailC m s2 phoneC p where
    t: "BuildCommonSMSContent (ae_Zone env) e (ac_Uic a) amstag grps = Inr smsC"
       "BuildCommonMailContent (ae_Zone env) (ae_Dashboard env) e (ac_Uic a) amstag grps = Inr mailC"
       "cards env ?names e amstag grps s1 = Inr (m, s2)" "GeneratePhoneContent e = Inr phoneC" "Priority e = Inr p"
    and s': "s' = on_redis (high_writes env p (ev_Status e) ?names smsC mailC phoneC m) s2"
    by (auto simp: users texts_known [OF known1] Let_def)
  from told_gkeys [OF perm told_wf [OF users]] have names: "distinct ?names" "set ?names = dom (gget users)" by auto
  from cards_known [OF known1 names(1) t(3)] obtain body where
    body: "s2 = s1" "m = Some (map (\<lambda>n. (n, body n)) ?names)" "\<forall>n \<in> set ?names. card_of env e a amstag grps n = Inr (body n)"
    by blast
  have "as_Redis s' = high_writes env p (ev_Status e) ?names smsC mailC phoneC (Some (map (\<lambda>n. (n, body n)) ?names)) (as_Redis s)"
    unfolding s' body(1,2) by (simp add: on_redis_def g(3))
  moreover have "\<forall>n \<in> dom (gget users). card_of env e a amstag grps n = Inr (body n)"
    using body(3) unfolding names(2) .
  ultimately show ?thesis
    using users t(1,2,4,5) unfolding GeneratePhoneContent_def by blast
qed

section \<open>Events of strategies\<close>

text \<open>An event as judge makes it from a strategy: the rule and its template are there, for all its parts.\<close>

definition healthy :: "event \<Rightarrow> bool" where
  "healthy e \<longleftrightarrow> (\<exists>st t. ev_Strategy e = Some st \<and> st_Tpl st = Some t) \<and> (\<forall>c \<in> set (ev_EventChain e). ev_Strategy c \<noteq> None)"

lemma chain_metrics_ok: "\<forall>c \<in> set cs. ev_Strategy c \<noteq> None \<Longrightarrow> \<exists>m. chain_metrics acc cs = Inr m"
  by (induction cs arbitrary: acc) auto

lemma func_values_ok: "\<forall>c \<in> set cs. ev_Strategy c \<noteq> None \<Longrightarrow> \<exists>v. func_values acc cs = Inr v"
  by (induction cs arbitrary: acc)
     (auto simp: FormatOneFuncValue_def Func_def Operator_def RightValue_def by_rule_def)

lemma healthy_parts:
  assumes "healthy e"
  shows "\<exists>k. AlarmIsUnionString e = Inr k" "\<exists>p. Priority e = Inr p" "\<exists>m. Metric e = Inr m" "\<exists>n. Note e = Inr n"
    "\<exists>v. UnionAlarmFormatFuncValue e = Inr v" "\<exists>x. MaxStep e = Inr x" "\<exists>l. Link d e = Inr l" "\<exists>l. ModLink d e = Inr l"
  using assms chain_metrics_ok [of "ev_EventChain e"] func_values_ok [of "ev_EventChain e"]
  by (auto simp: healthy_def AlarmIsUnionString_def Priority_def Metric_def Note_def MaxStep_def by_rule_def Link_def
      ModLink_def event_link_def TplId_def UnionAlarmFormatFuncValue_def FormatOneFuncValue_def Func_def Operator_def RightValue_def)

lemma healthy_texts:
  assumes "healthy e"
  shows "\<exists>t. BuildCommonSMSContent zone e uic amstag grps = Inr t"
    "\<exists>t. BuildCommonMailContent zone d e uic amstag grps = Inr t" "\<exists>t. BuildCommonPhoneContent e = Inr t"
    "\<exists>t. card_text zone e uic amstag grps = Inr t"
proof -
  obtain k p m n v x l where "AlarmIsUnionString e = Inr k" "Priority e = Inr p" "Metric e = Inr m" "Note e = Inr n"
    "UnionAlarmFormatFuncValue e = Inr v" "MaxStep e = Inr x" "Link d e = Inr l"
    using healthy_parts [OF assms] by blast
  then show "\<exists>t. BuildCommonSMSContent zone e uic amstag grps = Inr t"
    "\<exists>t. BuildCommonMailContent zone d e uic amstag grps = Inr t" "\<exists>t. BuildCommonPhoneContent e = Inr t"
    "\<exists>t. card_text zone e uic amstag grps = Inr t"
    by (simp_all add: BuildCommonSMSContent_def BuildCommonMailContent_def BuildCommonPhoneContent_def card_text_def)
qed

lemma told_ok: "Metric e = Inr m \<Longrightarrow> \<exists>users. told_users env e a s = Inr users"
proof -
  assume m: "Metric e = Inr m"
  have "\<exists>m'. filter_blocked e c us acc = Inr m'" for c us acc
    by (induction us arbitrary: acc) (auto simp: m)
  then show ?thesis by (simp add: told_users_def CommonFilterBlock_def)
qed

lemma cards_ok:
  assumes "healthy e" "knows_action env e a s"
  shows "\<exists>m. cards env names e amstag grps s = Inr (m, s)"
proof -
  obtain i where i: "ActionId e = Inr i" "cache_Get (ap_Now (ae_Api env)) (itoa i) (ActionsCache (as_Caches s)) = Some (CAction a)"
    using assms(2) by (auto simp: knows_action_def)
  obtain k m l ml t where "AlarmIsUnionString e = Inr k" "Metric e = Inr m" "Link (ae_Dashboard env) e = Inr l"
    "ModLink (ae_Dashboard env) e = Inr ml" "card_text (ae_Zone env) e (ac_Uic a) amstag grps = Inr t"
    using healthy_parts [OF assms(1)] healthy_texts(4) [OF assms(1)] by meson
  then show ?thesis by (simp add: cards_def BuildLarkCardImContent_def GetAction_def i)
qed

lemma map_step:
  assumes "healthy e" "0 \<le> ap_Now (ae_Api env)"
  shows "\<exists>users s1. told_users env e a s = Inr users \<and> GenerateUserMap env e a s = Inr (users, s1) \<and>
    same_answers env s s1 \<and> as_Redis s1 = as_Redis s"
proof -
  obtain m where "Metric e = Inr m" using healthy_parts(3) [OF assms(1)] by blast
  then obtain users where "told_users env e a s = Inr users" using told_ok by blast
  with GenerateUserMap_told [OF assms(2), of e a s] show ?thesis by auto
qed

lemma im_users_ok:
  assumes "healthy e" "knows_action env e a s"
  shows "\<exists>s'. im_users env e amstag grps content metric p us s = Inr s' \<and> same_answers env s s' \<and>
    (\<forall>q. q \<noteq> ae_UserIMQueue env \<longrightarrow> Lists (as_Redis s') q = Lists (as_Redis s) q)"
  using assms(2)
proof (induction us arbitrary: s)
  case (Cons x us)
  obtain n u where x: "x = (n, u)" by force
  obtain m where m: "cards env [n] e amstag grps s = Inr (m, s)" using cards_ok [OF assms(1) Cons.prems] by blast
  define s1 where "s1 = on_redis (lpush (ae_Up env) (ae_UserIMQueue env) (Json (im_dto_json \<lparr>id_Priority = p, id_Metric = metric,
      id_Content = content, id_IM = us_Name u, id_Name = us_Name u, id_Status = ev_Status e,
      id_LarkCardContent = (case m of None \<Rightarrow> '''' | Some m \<Rightarrow> (case gget m n of None \<Rightarrow> '''' | Some b \<Rightarrow> b))\<rparr>))) s"
  have same: "same_answers env s s1" by (simp add: same_answers_def s1_def on_redis_def)
  have other: "q \<noteq> ae_UserIMQueue env \<Longrightarrow> Lists (as_Redis s1) q = Lists (as_Redis s) q" for q
    by (simp add: s1_def on_redis_def lpush_def)
  have run: "im_users env e amstag grps content metric p (x # us) s = im_users env e amstag grps content metric p us s1"
    by (simp add: x m s1_def Let_def)
  from Cons.IH [of s1] knows_same [OF same] Cons.prems obtain s' where
    "im_users env e amstag grps content metric p us s1 = Inr s'" "same_answers env s1 s'"
    "\<forall>q. q \<noteq> ae_UserIMQueue env \<longrightarrow> Lists (as_Redis s') q = Lists (as_Redis s1) q" by blast
  with same other show ?case unfolding run by (auto simp: same_answers_def)
qed simp

text \<open>What the three parts of a low event do.\<close>

lemma push_dtos_Lists:
  assumes "\<forall>n. up n"
  shows "Lists (push_dtos up queue dto users r) =
    (Lists r)(queue := rev (map (\<lambda>(k, u). Json (dto u)) users) @ Lists r queue)"
proof (induction users arbitrary: r)
  case (Cons x users)
  obtain k u where "x = (k, u)" by force
  then show ?case using Cons assms by (auto simp: push_dtos_def lpush_up fun_eq_iff)
qed (simp add: push_dtos_def)

lemma ParseUserSms_ok:
  assumes "healthy e" "knows_action env e a s" "0 \<le> ap_Now (ae_Api env)" "\<forall>n. ae_Up env n"
  shows "\<exists>s'. ParseUserSms env e a amstag grps s = Inr s' \<and> same_answers env s s' \<and>
    (\<forall>q. q \<noteq> ae_UserSmsQueue env \<longrightarrow> Lists (as_Redis s') q = Lists (as_Redis s) q)"
proof -
  obtain users s1 where g: "GenerateUserMap env e a s = Inr (users, s1)" "same_answers env s s1" "as_Redis s1 = as_Redis s"
    using map_step [OF assms(1,3)] by blast
  have k: "knows_action env e a s1" using knows_same [OF g(2)] assms(2) by simp
  obtain t m p where "BuildCommonSMSContent (ae_Zone env) e (ac_Uic a) amstag grps = Inr t" "Metric e = Inr m" "Priority e = Inr p"
    using healthy_texts(1) [OF assms(1)] healthy_parts [OF assms(1)] by meson
  then show ?thesis using g
    by (simp add: ParseUserSms_def texts_known [OF k] on_redis_def push_dtos_Lists [OF assms(4)] same_answers_def)
qed

lemma ParseUserIm_ok:
  assumes "healthy e" "knows_action env e a s" "0 \<le> ap_Now (ae_Api env)"
  shows "\<exists>s'. ParseUserIm env e a amstag grps s = Inr s' \<and> same_answers env s s' \<and>
    (\<forall>q. q \<noteq> ae_UserIMQueue env \<longrightarrow> Lists (as_Redis s') q = Lists (as_Redis s) q)"
proof -
  obtain users s1 where g: "GenerateUserMap env e a s = Inr (users, s1)" "same_answers env s s1" "as_Redis s1 = as_Redis s"
    using map_step [OF assms(1,3)] by blast
  have k: "knows_action env e a s1" using knows_same [OF g(2)] assms(2) by simp
  obtain t m p where t: "BuildCommonMailContent (ae_Zone env) (ae_Dashboard env) e (ac_Uic a) amstag grps = Inr t"
    "Metric e = Inr m" "Priority e = Inr p"
    using healthy_texts(2) [OF assms(1)] healthy_parts [OF assms(1)] by meson
  from im_users_ok [OF assms(1) k, of amstag grps t m p "ae_Users env users"] obtain s' where
    "im_users env e amstag grps t m p (ae_Users env users) s1 = Inr s'" "same_answers env s1 s'"
    "\<forall>q. q \<noteq> ae_UserIMQueue env \<longrightarrow> Lists (as_Redis s') q = Lists (as_Redis s1) q" by blast
  with g show ?thesis by (simp add: ParseUserIm_def texts_known [OF k] t same_answers_def)
qed

lemma ParseUserMail_ok:
  assumes "healthy e" "knows_action env e a s" "0 \<le> ap_Now (ae_Api env)" "\<forall>n. ae_Up env n"
  shows "\<exists>s' users sub t m p. ParseUserMail env e a amstag grps s = Inr s' \<and> told_users env e a s = Inr users \<and>
    Priority e = Inr p \<and> Metric e = Inr m \<and>
    BuildCommonSMSContent (ae_Zone env) e (ac_Uic a) amstag grps = Inr sub \<and>
    BuildCommonMailContent (ae_Zone env) (ae_Dashboard env) e (ac_Uic a) amstag grps = Inr t \<and>
    Lists (as_Redis s') = (Lists (as_Redis s))(ae_UserMailQueue env :=
      rev (map (\<lambda>(k, u). Json (mail_dto_json \<lparr>md_Priority = p, md_Metric = m, md_Subject = sub, md_Content = t, md_Email = us_Email u,
        md_Status = ev_Status e\<rparr>)) (ae_Users env users)) @ Lists (as_Redis s) (ae_UserMailQueue env))"
proof -
  obtain users s1 where g: "told_users env e a s = Inr users" "GenerateUserMap env e a s = Inr (users, s1)"
    "same_answers env s s1" "as_Redis s1 = as_Redis s"
    using map_step [OF assms(1,3)] by blast
  have k: "knows_action env e a s1" using knows_same [OF g(3)] assms(2) by simp
  obtain sub t m p where t: "BuildCommonMailContent (ae_Zone env) (ae_Dashboard env) e (ac_Uic a) amstag grps = Inr t"
    "BuildCommonSMSContent (ae_Zone env) e (ac_Uic a) amstag grps = Inr sub" "Metric e = Inr m" "Priority e = Inr p"
    using healthy_texts(1,2) [OF assms(1)] healthy_parts [OF assms(1)] by meson
  define s2 where "s2 = on_redis (push_dtos (ae_Up env) (ae_UserMailQueue env) (\<lambda>u. mail_dto_json \<lparr>md_Priority = p,
         md_Metric = m, md_Subject = sub, md_Content = t, md_Email = us_Email u, md_Status = ev_Status e\<rparr>) (ae_Users env users)) s1"
  have "ParseUserMail env e a amstag grps s = Inr s2"
    by (simp add: ParseUserMail_def g texts_known [OF k] t s2_def)
  moreover have "Lists (as_Redis s2) = (Lists (as_Redis s))(ae_UserMailQueue env :=
      rev (map (\<lambda>(k, u). Json (mail_dto_json \<lparr>md_Priority = p, md_Metric = m, md_Subject = sub, md_Content = t, md_Email = us_Email u,
        md_Status = ev_Status e\<rparr>)) (ae_Users env users)) @ Lists (as_Redis s) (ae_UserMailQueue env))"
    by (simp add: s2_def on_redis_def push_dtos_Lists [OF assms(4)] g(4))
  ultimately show ?thesis using g(1) t by blast
qed

section \<open>Properties\<close>


lemma no_strategy_texts:
  assumes "ev_Strategy e = None"
  shows "is_panic (BuildCommonSMSContent zone e uic amstag grps :: string res)"
    "\<And>l. Link d e = Inr l \<Longrightarrow> is_panic (BuildCommonMailContent zone d e uic amstag grps :: string res)"
  using assms by (simp_all add: BuildCommonSMSContent_def BuildCommonMailContent_def AlarmIsUnionString_def nil_deref_def)

text \<open>
  every event of an expression whose action has receivers ends the process, at either
  priority: the texts read the strategy, which such an event does not have.
\<close>

theorem expression_event_crashes:
  assumes "knows_action env e a s" "0 \<le> ap_Now (ae_Api env)" "ac_Uic a \<noteq> '''' \<or> ac_LarkGroupId a \<noteq> ''''"
    and "ev_Strategy e = None" "ev_Expression e = Some x"
  shows "is_panic (consumeHighEvents env e a amstag grps s) \<and> is_panic (consumeLowEvents env e a amstag grps s)"
proof -
  have m: "Metric e = Inr (ex_Metric x)" and p: "Priority e = Inr (ex_Priority x)"
    using assms(4,5) by (simp_all add: Metric_def Priority_def by_rule_def)
  obtain l where l: "Link (ae_Dashboard env) e = Inr l"
    using assms(4) by (auto simp: Link_def event_link_def TplId_def)
  have told: "\<exists>users. told_users env e a s = Inr users" for s using told_ok [OF m] .
  have sms: "is_panic (bind_res (GenerateUserMap env e a s) (\<lambda>(userMap, s).
      bind_res (sms_text env e amstag grps s) (f userMap)) :: alarm_state res)" for f
  proof -
    obtain s1 where g: "GenerateUserMap env e a s = bind_res (told_users env e a s) (\<lambda>m. Inr (m, s1))" "same_answers env s s1"
      using GenerateUserMap_told [OF assms(2)] by blast
    have k: "knows_action env e a s1" using knows_same [OF g(2)] assms(1) by simp
    obtain users where "told_users env e a s = Inr users" using told by blast
    then show ?thesis using no_strategy_texts(1) [OF assms(4), of "ae_Zone env" "ac_Uic a" amstag grps]
      by (auto simp: g(1) texts_known [OF k] bind_res_def elim: is_panic.elims)
  qed
  have mail: "is_panic (bind_res (GenerateUserMap env e a s) (\<lambda>(userMap, s).
      bind_res (mail_text env e amstag grps s) (f userMap)) :: alarm_state res)" for f
  proof -
    obtain s1 where g: "GenerateUserMap env e a s = bind_res (told_users env e a s) (\<lambda>m. Inr (m, s1))" "same_answers env s s1"
      using GenerateUserMap_told [OF assms(2)] by blast
    have k: "knows_action env e a s1" using knows_same [OF g(2)] assms(1) by simp
    obtain users where "told_users env e a s = Inr users" using told by blast
    then show ?thesis using no_strategy_texts(2) [OF assms(4) l, of "ae_Zone env" "ac_Uic a" amstag grps]
      by (auto simp: g(1) texts_known [OF k] bind_res_def elim: is_panic.elims)
  qed
  have "is_panic (consumeHighEvents env e a amstag grps s)"
    using assms(3) sms by (simp add: consumeHighEvents_def Let_def)
  moreover have "is_panic (ParseUserSms env e a amstag grps s)" unfolding ParseUserSms_def by (rule sms)
  moreover have "is_panic (ParseUserIm env e a amstag grps s)" unfolding ParseUserIm_def by (rule mail)
  ultimately show ?thesis
    using assms(3) by (auto simp: consumeLowEvents_def p bind_res_def elim: is_panic.elims)
qed

definition demo_tpl :: template where
  "demo_tpl = \<lparr>tpl_Id = 2, tpl_Name = ''base'', tpl_ParentId = 0, tpl_ActionId = 7, tpl_Creator = ''root''\<rparr>"

definition demo_problem :: event where
  "demo_problem = Event ''s_1_x'' (Some \<lparr>st_Id = 1, st_Metric = ''load'', st_Tags = [], st_Func = ''all(#1)'', st_Operator = ''>'',
      st_RightValue = Zero False, st_MaxStep = 3, st_Priority = 0, st_Note = '''', st_Tpl = Some demo_tpl, st_UnionStrategyId = 0\<rparr>)
      None ''PROBLEM'' ''h1'' (Fin 2) 1 60 [] [] False"

definition demo_action :: action where
  "demo_action = \<lparr>ac_Id = 7, ac_Uic = ''ops'', ac_LarkGroupId = '''', ac_Url = '''', ac_Callback = 0, ac_BeforeCallbackSms = 0,
     ac_BeforeCallbackMail = 0, ac_AfterCallbackSms = 0, ac_AfterCallbackMail = 0\<rparr>"

definition demo_alarm_env :: alarm_env where
  "demo_alarm_env = \<lparr>ae_Api = demo_api, ae_Up = \<lambda>_. True, ae_Zone = \<lambda>_. 0, ae_Dashboard = ''d'', ae_UserIMQueue = ''/user/im'',
     ae_UserSmsQueue = ''/user/sms'', ae_UserMailQueue = ''/user/mail'', ae_Users = \<lambda>m. m, ae_Cards = \<lambda>m. m,
     ae_Buttons = \<lambda>b. b, ae_Http = \<lambda>u p. ('''', None)\<rparr>"

definition demo_alarm_state :: alarm_state where
  "demo_alarm_state = \<lparr>as_Caches = no_caches\<lparr>ActionsCache := [(itoa 7, \<lparr>ci_Object = CAction demo_action, ci_Expiration = 0\<rparr>)]\<rparr>,
     as_Counters = [], as_Redis = demo_redis, as_Requests = []\<rparr>"

lemma demo_alarm_facts:
  "healthy demo_problem" "knows_action demo_alarm_env demo_problem demo_action demo_alarm_state"
  "0 \<le> ap_Now (ae_Api demo_alarm_env)" "ac_Uic demo_action \<noteq> ''''" "\<forall>n. ae_Up demo_alarm_env n"
  "ae_Users demo_alarm_env m = m" "ae_Cards demo_alarm_env c = c"
  by (simp_all add: healthy_def demo_problem_def demo_tpl_def knows_action_def ActionId_def demo_alarm_env_def demo_alarm_state_def
      no_caches_def cache_Get_def demo_api_def demo_action_def)

lemma consumeHigh_ok:
  assumes "healthy e" "knows_action env e a s" "0 \<le> ap_Now (ae_Api env)"
  shows "\<exists>s'. consumeHighEvents env e a amstag grps s = Inr s'"
proof (cases "ac_Uic a = '''' \<and> ac_LarkGroupId a = ''''")
  case True
  then show ?thesis by (simp add: consumeHighEvents_def)
next
  case False
  obtain users s1 where g: "GenerateUserMap env e a s = Inr (users, s1)" "same_answers env s s1"
    using map_step [OF assms(1,3)] by blast
  have k: "knows_action env e a s1" using knows_same [OF g(2)] assms(2) by simp
  obtain sub t ph p where "BuildCommonMailContent (ae_Zone env) (ae_Dashboard env) e (ac_Uic a) amstag grps = Inr t"
    "BuildCommonSMSContent (ae_Zone env) e (ac_Uic a) amstag grps = Inr sub" "BuildCommonPhoneContent e = Inr ph" "Priority e = Inr p"
    using healthy_texts [OF assms(1)] healthy_parts(2) [OF assms(1)] by meson
  moreover obtain m where "cards env (gkeys (ae_Users env users)) e amstag grps s1 = Inr (m, s1)"
    using cards_ok [OF assms(1) k] by blast
  ultimately show ?thesis
    using False by (auto simp: consumeHighEvents_def g(1) texts_known [OF k] GeneratePhoneContent_def Let_def)
qed

lemma consumeLow_steps:
  assumes "healthy e" "knows_action env e a s" "0 \<le> ap_Now (ae_Api env)" "\<forall>n. ae_Up env n"
    and "ac_Uic a \<noteq> '''' \<or> ac_LarkGroupId a \<noteq> ''''"
  shows "\<exists>s2. consumeLowEvents env e a amstag grps s = ParseUserMail env e a amstag grps s2 \<and> same_answers env s s2 \<and>
    (\<forall>q. q \<noteq> ae_UserSmsQueue env \<and> q \<noteq> ae_UserIMQueue env \<longrightarrow> Lists (as_Redis s2) q = Lists (as_Redis s) q)"
proof -
  obtain p where p: "Priority e = Inr p" using healthy_parts(2) [OF assms(1)] by blast
  obtain s1 where s1: "(if p < 3 then ParseUserSms env e a amstag grps s else Inr s) = Inr s1" "same_answers env s s1"
    "\<forall>q. q \<noteq> ae_UserSmsQueue env \<longrightarrow> Lists (as_Redis s1) q = Lists (as_Redis s) q"
    using ParseUserSms_ok [OF assms(1-4), of amstag grps] by (cases "p < 3") auto
  have k: "knows_action env e a s1" using knows_same [OF s1(2)] assms(2) by simp
  obtain s2 where "ParseUserIm env e a amstag grps s1 = Inr s2" "same_answers env s1 s2"
    "\<forall>q. q \<noteq> ae_UserIMQueue env \<longrightarrow> Lists (as_Redis s2) q = Lists (as_Redis s1) q"
    using ParseUserIm_ok [OF assms(1) k assms(3)] by blast
  with s1 show ?thesis using assms(5)
    by (intro exI [of _ s2]) (auto simp: consumeLowEvents_def p same_answers_def)
qed

text \<open>
  an event that judge made from a strategy is consumed without a panic at either priority,
  whatever the users, mutes and answers of the servers are, once its action is known.
\<close>

theorem strategy_events_never_panic:
  assumes "healthy e" "knows_action env e a s" "0 \<le> ap_Now (ae_Api env)" "\<forall>n. ae_Up env n"
  shows "(\<exists>s'. consumeHighEvents env e a amstag grps s = Inr s') \<and> (\<exists>s'. consumeLowEvents env e a amstag grps s = Inr s')"
proof (cases "ac_Uic a \<noteq> '''' \<or> ac_LarkGroupId a \<noteq> ''''")
  case True
  obtain s2 where s2: "consumeLowEvents env e a amstag grps s = ParseUserMail env e a amstag grps s2" "same_answers env s s2"
    using consumeLow_steps [OF assms True] by blast
  have "knows_action env e a s2" using knows_same [OF s2(2)] assms(2) by simp
  then obtain s' where "ParseUserMail env e a amstag grps s2 = Inr s'"
    using ParseUserMail_ok [OF assms(1) _ assms(3,4)] by blast
  with s2(1) consumeHigh_ok [OF assms(1-3)] show ?thesis by simp
next
  case False
  then show ?thesis by (simp add: consumeHighEvents_def consumeLowEvents_def)
qed

theorem strategy_events_never_panic_witness:
  "\<exists>s'. consumeLowEvents demo_alarm_env demo_problem demo_action '''' ''web'' demo_alarm_state = Inr s'"
  using strategy_events_never_panic [OF demo_alarm_facts(1-3,5)] by blast


theorem expression_event_crashes_witness:
  "is_panic (consumeHighEvents demo_alarm_env (demo_alarm 1) demo_action '''' '''' demo_alarm_state)"
proof -
  have k: "knows_action demo_alarm_env (demo_alarm 1) demo_action demo_alarm_state"
    by (simp add: knows_action_def ActionId_def demo_alarm_def demo_alarm_env_def demo_alarm_state_def no_caches_def cache_Get_def)
  show ?thesis
    using expression_event_crashes [OF k demo_alarm_facts(3)] by (simp add: demo_alarm_def demo_action_def)
qed

section \<open>From a low event to a mail\<close>

text \<open>
  an event of low priority and the next round of combining: everybody who has not muted the
  event gets a mail that contains the text made for it, whatever else was waiting.
\<close>

theorem low_event_mailed:
  assumes "healthy e" "knows_action env e a s" "0 \<le> ap_Now (ae_Api env)" "\<forall>n. ae_Up env n"
    and "ac_Uic a \<noteq> '''' \<or> ac_LarkGroupId a \<noteq> ''''" "\<And>m. mset (ae_Users env m) = mset m" "\<And>m. mset (rng m) = mset m"
    and "ae_UserMailQueue env \<notin> {MAIL_QUEUE_NAME, ae_UserSmsQueue env, ae_UserIMQueue env}"
    and run: "consumeLowEvents env e a amstag grps s = Inr s'"
    and "\<forall>d \<in> set (List.map_filter (read_entry mail_dto_of) (Lists (as_Redis s') (ae_UserMailQueue env))). company_mail d"
    and "told_users env e a s = Inr users" "gget users name = Some u"
  shows "\<exists>content m. BuildCommonMailContent (ae_Zone env) (ae_Dashboard env) e (ac_Uic a) amstag grps = Inr content \<and>
    Json (mail_json m) \<in> set (Lists (combineMail (ae_Up env) (ae_UserMailQueue env) rng (as_Redis s')) MAIL_QUEUE_NAME) \<and>
    ml_Tos m = us_Email u \<and> (\<exists>pre post. ml_Content m = pre @ content @ post)"
proof -
  obtain s2 where s2: "consumeLowEvents env e a amstag grps s = ParseUserMail env e a amstag grps s2" "same_answers env s s2"
    using consumeLow_steps [OF assms(1-5)] by blast
  have k: "knows_action env e a s2" using knows_same [OF s2(2)] assms(2) by simp
  from ParseUserMail_ok [OF assms(1) k assms(3,4)] obtain s3 us sub t m p where
    r: "ParseUserMail env e a amstag grps s2 = Inr s3" "told_users env e a s2 = Inr us"
      "BuildCommonMailContent (ae_Zone env) (ae_Dashboard env) e (ac_Uic a) amstag grps = Inr t"
    and lists: "Lists (as_Redis s3) = (Lists (as_Redis s2))(ae_UserMailQueue env :=
      rev (map (\<lambda>(k, u). Json (mail_dto_json \<lparr>md_Priority = p, md_Metric = m, md_Subject = sub, md_Content = t, md_Email = us_Email u,
        md_Status = ev_Status e\<rparr>)) (ae_Users env us)) @ Lists (as_Redis s2) (ae_UserMailQueue env))"
    by blast
  have s3: "s3 = s'" "us = users" using r(1,2) s2 run assms(11) by (auto simp: same_answers_told)
  define d where "d = \<lparr>md_Priority = p, md_Metric = m, md_Subject = sub, md_Content = t, md_Email = us_Email u, md_Status = ev_Status e\<rparr>"
  define dtos where "dtos = List.map_filter (read_entry mail_dto_of) (rev (Lists (as_Redis s') (ae_UserMailQueue env)))"
  have mf: "set (List.map_filter f xs) = {y. \<exists>x \<in> set xs. f x = Some y}" for f :: "entry \<Rightarrow> mail_dto option" and xs
    by (auto simp: map_filter_def) force
  have "(name, u) \<in> set (ae_Users env users)"
    using assms(12) map_of_SomeD mset_eq_setD [OF assms(6)] by fastforce
  then have "Json (mail_dto_json d) \<in> set (Lists (as_Redis s') (ae_UserMailQueue env))"
    using lists unfolding s3 d_def by (force simp: image_iff)
  then have d: "d \<in> set dtos"
    unfolding dtos_def mf by (intro CollectI bexI [of _ "Json (mail_dto_json d)"]) (simp_all add: read_entry_def)
  have comp: "\<forall>d \<in> set dtos. company_mail d" using assms(10) by (simp add: dtos_def mf)
  have "ae_UserMailQueue env \<noteq> MAIL_QUEUE_NAME" using assms(8) by simp
  from combine_mail_core [OF assms(4) this assms(7) dtos_def comp] obtain mails where
    mails: "Lists (combineMail (ae_Up env) (ae_UserMailQueue env) rng (as_Redis s')) = (Lists (as_Redis s'))(ae_UserMailQueue env := [],
        MAIL_QUEUE_NAME := map (\<lambda>m. Json (mail_json m)) mails @ Lists (as_Redis s') MAIL_QUEUE_NAME)"
      "\<forall>d \<in> set dtos. \<exists>m \<in> set mails. ml_Tos m = md_Email d \<and> (\<exists>pre post. ml_Content m = pre @ md_Content d @ post) \<and>
         (filter (\<lambda>e. mail_key e = mail_key d) dtos = [d] \<longrightarrow> ml_Subject m = md_Subject d \<and> ml_Content m = md_Content d)"
    by blast
  obtain x pre post where x: "x \<in> set mails" "ml_Tos x = md_Email d" "ml_Content x = pre @ md_Content d @ post"
    using mails(2) d by blast
  have "Json (mail_json x) \<in> set (Lists (combineMail (ae_Up env) (ae_UserMailQueue env) rng (as_Redis s')) MAIL_QUEUE_NAME)"
    using mails(1) x(1) by simp
  with r(3) x(2,3) show ?thesis unfolding d_def by auto
qed

theorem low_event_mailed_witness:
  "\<exists>s' content m. consumeLowEvents demo_alarm_env demo_problem demo_action '''' ''web'' demo_alarm_state = Inr s' \<and>
    Json (mail_json m) \<in> set (Lists (combineMail (\<lambda>_. True) ''/user/mail'' rev (as_Redis s')) MAIL_QUEUE_NAME) \<and>
    ml_Tos m = ''a@xxx.com'' \<and> (\<exists>pre post. ml_Content m = pre @ content @ post)"
proof -
  have told: "told_users demo_alarm_env demo_problem demo_action demo_alarm_state =
      Inr [(''ann'', \<lparr>us_Name = ''ann'', us_Email = ''a@xxx.com'', us_Phone = ''1''\<rparr>)]" by code_simp
  obtain s2 where s2: "consumeLowEvents demo_alarm_env demo_problem demo_action '''' ''web'' demo_alarm_state =
      ParseUserMail demo_alarm_env demo_problem demo_action '''' ''web'' s2" "same_answers demo_alarm_env demo_alarm_state s2"
    "\<forall>q. q \<noteq> ae_UserSmsQueue demo_alarm_env \<and> q \<noteq> ae_UserIMQueue demo_alarm_env \<longrightarrow>
      Lists (as_Redis s2) q = Lists (as_Redis demo_alarm_state) q"
    using consumeLow_steps [OF demo_alarm_facts(1-3,5), of "''''" "''web''"] demo_alarm_facts(4) by blast
  have k: "knows_action demo_alarm_env demo_problem demo_action s2" using knows_same [OF s2(2)] demo_alarm_facts(2) by simp
  obtain s' users sub t m p where run: "ParseUserMail demo_alarm_env demo_problem demo_action '''' ''web'' s2 = Inr s'"
    "told_users demo_alarm_env demo_problem demo_action s2 = Inr users" "Priority demo_problem = Inr p"
    and lists: "Lists (as_Redis s') = (Lists (as_Redis s2))(ae_UserMailQueue demo_alarm_env :=
      rev (map (\<lambda>(k, u). Json (mail_dto_json \<lparr>md_Priority = p, md_Metric = m, md_Subject = sub, md_Content = t, md_Email = us_Email u,
        md_Status = ev_Status demo_problem\<rparr>)) (ae_Users demo_alarm_env users)) @ Lists (as_Redis s2) (ae_UserMailQueue demo_alarm_env))"
    using ParseUserMail_ok [OF demo_alarm_facts(1) k demo_alarm_facts(3,5)] by blast
  have users: "users = [(''ann'', \<lparr>us_Name = ''ann'', us_Email = ''a@xxx.com'', us_Phone = ''1''\<rparr>)]"
    using run(2) told same_answers_told [OF s2(2)] by simp
  have p: "p = 0" using run(3) by (simp add: Priority_def by_rule_def demo_problem_def)
  have "Lists (as_Redis s2) ''/user/mail'' = []"
    using s2(3) by (simp add: demo_alarm_env_def demo_alarm_state_def demo_redis_def)
  then have "\<forall>d \<in> set (List.map_filter (read_entry mail_dto_of) (Lists (as_Redis s') (ae_UserMailQueue demo_alarm_env))). company_mail d"
    using lists
    by (simp add: users p demo_alarm_env_def map_filter_simps read_entry_def company_mail_def demo_problem_def BYTEMAIL_def exI [of _ "''a''"])
  from low_event_mailed [where rng = rev and amstag = "''''" and grps = "''web''" and name = "''ann''", OF demo_alarm_facts(1-3,5) _ _ _ _ _ this told] s2(1) run(1) demo_alarm_facts(4,6)
  show ?thesis by (fastforce simp: demo_alarm_env_def queue_names)
qed

section \<open>Muting with the buttons of a card\<close>

text \<open>What the endpoint for mutes reads from the data of a button.\<close>

fun block_input_of :: "json \<Rightarrow> block_input option" where
  "block_input_of (JObj fs) =
     (case (str_field ''counter'' fs, str_field ''user_name'' fs, int_field ''time'' fs) of
        (Some c, Some u, Some t) \<Rightarrow> Some \<lparr>bi_Counter = c, bi_UserName = u, bi_Time = t\<rparr>
      | _ \<Rightarrow> None)"
| "block_input_of _ = None"

lemma map_of_sort_key: "distinct (map fst kvs) \<Longrightarrow> map_of (sort_key fst kvs) = map_of kvs"
  by (subst map_of_inject_set) (auto simp: distinct_map inj_on_def)

lemma block_input_of_mute:
  "block_input_of (mute_data u c ty) = Some \<lparr>bi_Counter = c, bi_UserName = u, bi_Time = 10800\<rparr>"
  by (simp add: mute_data_def jmap_def field_defs map_of_sort_key)

text \<open>
  the two buttons to mute on the card of a user carry what the filter looks for: when
  one is pressed, and its data reach the handler, that user is left out of every later event with the
  metric and, for the first button, the endpoint of the card, whatever redis answers; the others
  are told as before.
\<close>

theorem buttons_mute:
  assumes "u \<noteq> ''''" "Metric e = Inr metric" "gwf users"
    and "data \<in> {mute_data u (ev_Endpoint e @ ''_'' @ metric) ''block'', mute_data u metric ''block''}"
    and "snd (CreateBlockMonitor up now (block_input_of data) (c, r)) = (c', r')"
  shows "\<exists>before after. CommonFilterBlock e c users = Inr before \<and> CommonFilterBlock e c' users = Inr after \<and>
    gget after u = None \<and>
    (\<forall>v. CHR ''_'' \<notin> set u \<and> CHR ''_'' \<notin> set v \<and> v \<noteq> u \<longrightarrow> gget after v = gget before v)"
proof -
  obtain ctr where i: "block_input_of data = Some \<lparr>bi_Counter = ctr, bi_UserName = u, bi_Time = 10800\<rparr>"
    and ctr: "ctr = ev_Endpoint e @ ''_'' @ metric \<or> ctr = metric"
    using assms(4) by (auto simp: block_input_of_mute)
  have c': "c' = gput (block_key u ctr) (rune_text 10800) c"
    using assms(1,5) by (simp add: i CreateBlockMonitor_def Let_def case_prod_beta')
  obtain before where b: "CommonFilterBlock e c users = Inr before"
    "\<forall>v. gget before v = (if gget c (block_key v (ev_Endpoint e @ ''_'' @ metric)) = None \<and> gget c (block_key v metric) = None
       then gget users v else None)"
    using CommonFilterBlock_eq [OF assms(2,3)] by blast
  obtain after where a: "CommonFilterBlock e c' users = Inr after"
    "\<forall>v. gget after v = (if gget c' (block_key v (ev_Endpoint e @ ''_'' @ metric)) = None \<and> gget c' (block_key v metric) = None
       then gget users v else None)"
    using CommonFilterBlock_eq [OF assms(2,3)] by blast
  have "gget c' (block_key u ctr) \<noteq> None" by (simp add: c')
  then have gone: "gget after u = None" using a(2) ctr by auto
  have other: "block_key v x \<noteq> block_key u ctr" if "CHR ''_'' \<notin> set u" "CHR ''_'' \<notin> set v" "v \<noteq> u" for v x
    using first_sep [OF that(2,1), of x ctr] that(3) by (auto simp: block_key_def)
  have "gget after v = gget before v" if "CHR ''_'' \<notin> set u" "CHR ''_'' \<notin> set v" "v \<noteq> u" for v
  proof -
    have "gget c' (block_key v x) = gget c (block_key v x)" for x using other [OF that, of x] by (simp add: c')
    then show ?thesis by (simp add: a(2) b(2))
  qed
  with a(1) b(1) gone show ?thesis by blast
qed

theorem buttons_mute_witness:
  "\<exists>after. CommonFilterBlock demo_problem (fst (snd (CreateBlockMonitor (\<lambda>_. True) 0 (block_input_of (mute_data ''ann'' ''load'' ''block'')) no_blocks)))
      [(''ann'', \<lparr>us_Name = ''ann'', us_Email = '''', us_Phone = ''''\<rparr>)] = Inr after \<and> gget after ''ann'' = None"
proof -
  obtain c r where no: "no_blocks = (c, r)" by force
  obtain c' r' where run: "snd (CreateBlockMonitor (\<lambda>_. True) 0 (block_input_of (mute_data ''ann'' ''load'' ''block'')) (c, r)) = (c', r')"
    by force
  have m: "Metric demo_problem = Inr ''load''" by (simp add: Metric_def demo_problem_def)
  show ?thesis
    using buttons_mute [where users = "[(''ann'', \<lparr>us_Name = ''ann'', us_Email = '''', us_Phone = ''''\<rparr>)]", OF _ m _ _ run] run
    by (auto simp: no gwf_def)
qed

end
