(* ===== verification/Alarm_Cases.thy ===== *)
theory Alarm_Cases
  imports Alarm_Consume
begin

text \<open>
  Module alarm, \<open>model/event/event_operation.go\<close>: the record of alarms in the database. A case is an
  alarm by its id, with its last state; the table of events has a row per event. The tables are lists of
  rows; the n-th statement succeeds when \<open>up n\<close>, and one that fails changes nothing. The tables are those
  of \<open>scripts/mysql/db_schema/5_alarms-db-schema.sql\<close>: the id is the primary key of the cases and a foreign
  key of the events, and the time of a case is set to the present (\<open>stamp\<close>, as the database writes it) by
  every update that changes the row and does not set it.
\<close>

section \<open>Tables\<close>

text \<open>The text of a condition is kept as its three parts.\<close>

type_synonym condition = "f64 \<times> string \<times> f64"

record event_case =
  ec_Id :: string
  ec_Endpoint :: string
  ec_Metric :: string
  ec_Func :: string
  ec_Cond :: condition
  ec_Note :: string
  ec_MaxStep :: int
  ec_CurrentStep :: int
  ec_Priority :: int
  ec_Status :: string
  ec_Timestamp :: string
  ec_UpdateAt :: string
  ec_ProcessNote :: int
  ec_ProcessStatus :: string
  ec_TplCreator :: string
  ec_ExpressionId :: int
  ec_StrategyId :: int
  ec_TemplateId :: int

record event_row =
  er_Case :: string
  er_Step :: int
  er_Cond :: condition
  er_Status :: int
  er_Timestamp :: string

record alarm_db =
  Cases :: "event_case list"
  Rows :: "event_row list"
  Stmts :: nat

section \<open>Operations\<close>

definition counterGen :: "string \<Rightarrow> string \<Rightarrow> string" where
  "counterGen metric tags = (if tags \<noteq> '''' then metric @ ''/'' @ tags else metric)"

definition event_cond :: "event \<Rightarrow> condition res" where
  "event_cond e = bind_res (Operator e) (\<lambda>op. bind_res (RightValue e) (\<lambda>rv. Inr (ev_LeftValue e, op, rv)))"

definition insertEvent :: "(nat \<Rightarrow> bool) \<Rightarrow> (int \<Rightarrow> int) \<Rightarrow> event \<Rightarrow> alarm_db \<Rightarrow> alarm_db res" where
  "insertEvent up zone e db =
     bind_res (event_cond e) (\<lambda>c.
       let known = ev_Id e \<in> ec_Id ` set (Cases db);
           row = \<lparr>er_Case = ev_Id e, er_Step = ev_CurrentStep e, er_Cond = c, er_Status = (if ev_Status e = ''OK'' then 1 else 0),
                  er_Timestamp = FormattedTime zone e\<rparr>
       in Inr (db\<lparr>Rows := Rows db @ (if up (Stmts db) \<and> known then [row] else []), Stmts := Stmts db + 1\<rparr>))"

definition tpl_creator :: "event \<Rightarrow> string" where
  "tpl_creator e = (case Tpl e of Some t \<Rightarrow> tpl_Creator t | None \<Rightarrow> '''')"

text \<open>The row of a new case; the columns the statement does not name have their defaults.\<close>

definition new_case :: "(int \<Rightarrow> int) \<Rightarrow> event \<Rightarrow> event_case res" where
  "new_case zone e =
     bind_res (Metric e) (\<lambda>m. bind_res (Func e) (\<lambda>f. bind_res (event_cond e) (\<lambda>c. bind_res (Note e) (\<lambda>n.
     bind_res (MaxStep e) (\<lambda>mx. bind_res (Priority e) (\<lambda>p. bind_res (TplId e) (\<lambda>t.
       Inr \<lparr>ec_Id = ev_Id e, ec_Endpoint = ev_Endpoint e, ec_Metric = counterGen m (SortedTags (ev_PushedTags e)), ec_Func = f,
            ec_Cond = c, ec_Note = n, ec_MaxStep = mx, ec_CurrentStep = ev_CurrentStep e, ec_Priority = p, ec_Status = ev_Status e,
            ec_Timestamp = FormattedTime zone e, ec_UpdateAt = FormattedTime zone e, ec_ProcessNote = 0,
            ec_ProcessStatus = ''unresolved'', ec_TplCreator = tpl_creator e, ec_ExpressionId = ExpressionId e,
            ec_StrategyId = StrategyId e, ec_TemplateId = t\<rparr>)))))))"

text \<open>
  The columns that an update sets. The case is reopened when the row that was read is resolved or
  ignored, and a first step sets the start anew.
\<close>

definition set_columns :: "(int \<Rightarrow> int) \<Rightarrow> event \<Rightarrow> event_case \<Rightarrow> event_case \<Rightarrow> event_case res" where
  "set_columns zone e found old =
     bind_res (MaxStep e) (\<lambda>mx. bind_res (Note e) (\<lambda>n. bind_res (event_cond e) (\<lambda>c. bind_res (Func e) (\<lambda>f.
     bind_res (Priority e) (\<lambda>p. bind_res (TplId e) (\<lambda>t.
       let row = old\<lparr>ec_Func := f, ec_Cond := c, ec_Note := n, ec_MaxStep := mx, ec_CurrentStep := ev_CurrentStep e,
             ec_Priority := p, ec_Status := ev_Status e, ec_UpdateAt := FormattedTime zone e, ec_TplCreator := tpl_creator e,
             ec_ExpressionId := ExpressionId e, ec_StrategyId := StrategyId e, ec_TemplateId := t\<rparr>
       in Inr (if ec_ProcessStatus found = ''resolved'' \<or> ec_ProcessStatus found = ''ignored''
               then row\<lparr>ec_ProcessNote := 0, ec_ProcessStatus := ''unresolved''\<rparr> else row)))))))"

definition update_case :: "(int \<Rightarrow> int) \<Rightarrow> string \<Rightarrow> event \<Rightarrow> event_case \<Rightarrow> event_case \<Rightarrow> event_case res" where
  "update_case zone stamp e found old =
     bind_res (set_columns zone e found old) (\<lambda>row.
       Inr (if ev_CurrentStep e = 1 then row\<lparr>ec_Timestamp := FormattedTime zone e\<rparr>
            else if row \<noteq> old then row\<lparr>ec_Timestamp := stamp\<rparr> else row))"

fun update_rows :: "(int \<Rightarrow> int) \<Rightarrow> string \<Rightarrow> event \<Rightarrow> event_case \<Rightarrow> event_case list \<Rightarrow> event_case list res" where
  "update_rows zone stamp e found [] = Inr []"
| "update_rows zone stamp e found (row # rows) =
     bind_res (if ec_Id row = ev_Id e then update_case zone stamp e found row else Inr row) (\<lambda>row.
     bind_res (update_rows zone stamp e found rows) (\<lambda>rows. Inr (row # rows)))"

text \<open>
  A failed query looks like no case; the insertion then fails too when the id is taken, since it is
  the primary key.
\<close>

definition InsertEvent :: "(nat \<Rightarrow> bool) \<Rightarrow> (int \<Rightarrow> int) \<Rightarrow> string \<Rightarrow> event \<Rightarrow> alarm_db \<Rightarrow> alarm_db res" where
  "InsertEvent up zone stamp e db =
     (let found = (if up (Stmts db) then filter (\<lambda>c. ec_Id c = ev_Id e) (Cases db) else []);
          n = Stmts db + 1 in
      bind_res
        (case found of
           [] \<Rightarrow> bind_res (new_case zone e) (\<lambda>c.
             Inr (if up n \<and> ev_Id e \<notin> ec_Id ` set (Cases db) then Cases db @ [c] else Cases db))
         | f # _ \<Rightarrow> bind_res (update_rows zone stamp e f (Cases db)) (\<lambda>rows. Inr (if up n then rows else Cases db)))
        (\<lambda>cases. insertEvent up zone e (db\<lparr>Cases := cases, Stmts := n + 1\<rparr>)))"

text \<open>The housekeeping deletes at most \<open>maxRows\<close> rows of events older than the time.\<close>

fun delete_older :: "string \<Rightarrow> int \<Rightarrow> event_row list \<Rightarrow> event_row list" where
  "delete_older before maxRows [] = []"
| "delete_older before maxRows (r # rs) =
     (if er_Timestamp r < before \<and> 0 < maxRows then delete_older before (maxRows - 1) rs else r # delete_older before maxRows rs)"

definition DeleteEventOlder :: "(nat \<Rightarrow> bool) \<Rightarrow> (int \<Rightarrow> int) \<Rightarrow> int \<Rightarrow> int \<Rightarrow> alarm_db \<Rightarrow> alarm_db" where
  "DeleteEventOlder up zone before maxRows db =
     db\<lparr>Rows := (if up (Stmts db) then delete_older (UnixTsFormat zone before) maxRows (Rows db) else Rows db),
        Stmts := Stmts db + 1\<rparr>"

section \<open>Facts\<close>

text \<open>An event of a strategy or an expression, with the parts its case is made of.\<close>

definition complete_event :: "event \<Rightarrow> bool" where
  "complete_event e \<longleftrightarrow> (\<exists>m. Metric e = Inr m) \<and> (\<exists>t. TplId e = Inr t) \<and> (ev_Strategy e \<noteq> None \<or> ev_Expression e \<noteq> None)"

lemma by_rule_ok: "ev_Strategy e \<noteq> None \<or> ev_Expression e \<noteq> None \<Longrightarrow> \<exists>x. by_rule f g e = Inr x"
  by (auto simp: by_rule_def split: option.split)

lemma complete_parts:
  assumes "complete_event e"
  shows "\<exists>x. MaxStep e = Inr x" "\<exists>x. Note e = Inr x" "\<exists>x. event_cond e = Inr x" "\<exists>x. Func e = Inr x"
    "\<exists>x. Priority e = Inr x"
proof -
  have "ev_Strategy e \<noteq> None \<or> ev_Expression e \<noteq> None" using assms by (simp add: complete_event_def)
  note ok = by_rule_ok [OF this]
  obtain op rv where "Operator e = Inr op" "RightValue e = Inr rv" using ok [of st_Operator ex_Operator] ok [of st_RightValue ex_RightValue]
    by (auto simp: Operator_def RightValue_def)
  then show "\<exists>x. event_cond e = Inr x" by (simp add: event_cond_def)
  show "\<exists>x. MaxStep e = Inr x" "\<exists>x. Note e = Inr x" "\<exists>x. Func e = Inr x" "\<exists>x. Priority e = Inr x"
    unfolding MaxStep_def Note_def Func_def Priority_def by (rule ok)+
qed

text \<open>What a case says of its last event.\<close>

definition shows_event :: "(int \<Rightarrow> int) \<Rightarrow> event \<Rightarrow> event_case \<Rightarrow> bool" where
  "shows_event zone e c \<longleftrightarrow> ec_Id c = ev_Id e \<and> ec_Status c = ev_Status e \<and> ec_CurrentStep c = ev_CurrentStep e \<and>
     ec_UpdateAt c = FormattedTime zone e \<and> Priority e = Inr (ec_Priority c) \<and> event_cond e = Inr (ec_Cond c) \<and>
     MaxStep e = Inr (ec_MaxStep c) \<and> Note e = Inr (ec_Note c)"

lemma new_case_ok:
  assumes "complete_event e"
  shows "\<exists>c. new_case zone e = Inr c \<and> shows_event zone e c \<and> ec_Timestamp c = FormattedTime zone e"
proof -
  obtain m t where "Metric e = Inr m" "TplId e = Inr t" using assms by (auto simp: complete_event_def)
  with complete_parts [OF assms] show ?thesis by (auto simp: new_case_def shows_event_def)
qed

lemma shows_event_start [simp]: "shows_event zone e (c\<lparr>ec_Timestamp := t\<rparr>) = shows_event zone e c"
  by (simp add: shows_event_def)

lemma set_columns_ok:
  assumes "complete_event e" "ec_Id old = ev_Id e"
  shows "\<exists>r. set_columns zone e found old = Inr r \<and> shows_event zone e r"
proof -
  obtain t where "TplId e = Inr t" using assms by (auto simp: complete_event_def)
  moreover obtain mx n c f p where "MaxStep e = Inr mx" "Note e = Inr n" "event_cond e = Inr c" "Func e = Inr f" "Priority e = Inr p"
    using complete_parts [OF assms(1)] by blast
  ultimately show ?thesis using assms(2) by (simp add: set_columns_def shows_event_def Let_def)
qed

lemma update_case_ok:
  assumes "complete_event e" "ec_Id old = ev_Id e"
  shows "\<exists>c. update_case zone stamp e old old = Inr c \<and> shows_event zone e c \<and>
    (ev_CurrentStep e = 1 \<longrightarrow> ec_Timestamp c = FormattedTime zone e) \<and>
    (ev_CurrentStep e \<noteq> 1 \<longrightarrow> ec_CurrentStep old \<noteq> ev_CurrentStep e \<longrightarrow> ec_Timestamp c = stamp)"
proof -
  obtain r where r: "set_columns zone e old old = Inr r" "shows_event zone e r"
    using set_columns_ok [OF assms] by blast
  have "r \<noteq> old" if "ec_CurrentStep old \<noteq> ev_CurrentStep e" using r(2) that by (auto simp: shows_event_def)
  then show ?thesis using r by (auto simp: update_case_def)
qed

lemma update_rows_ok:
  assumes "update_case zone stamp e found found = Inr c" "ec_Id found = ev_Id e"
  shows "distinct (map ec_Id rows) \<Longrightarrow> (\<forall>r \<in> set rows. ec_Id r = ev_Id e \<longrightarrow> r = found) \<Longrightarrow>
    update_rows zone stamp e found rows = Inr (map (\<lambda>r. if ec_Id r = ev_Id e then c else r) rows)"
  using assms by (induction rows) auto

text \<open>
  The tables as the events so far determine them, the newest event first: one case for each id that
  occurred, which shows the last event with that id, and the events in order.
\<close>

definition case_follows :: "(int \<Rightarrow> int) \<Rightarrow> event list \<Rightarrow> event_case \<Rightarrow> bool" where
  "case_follows zone hist c \<longleftrightarrow> (\<exists>e older. filter (\<lambda>x. ev_Id x = ec_Id c) hist = e # older \<and> shows_event zone e c \<and>
     (ev_CurrentStep e = 1 \<longrightarrow> ec_Timestamp c = FormattedTime zone e))"

definition tables_of :: "(int \<Rightarrow> int) \<Rightarrow> event list \<Rightarrow> alarm_db \<Rightarrow> bool" where
  "tables_of zone hist db \<longleftrightarrow> distinct (map ec_Id (Cases db)) \<and> ec_Id ` set (Cases db) = ev_Id ` set hist \<and>
     (\<forall>c \<in> set (Cases db). case_follows zone hist c) \<and>
     map er_Case (Rows db) = rev (map ev_Id hist) \<and> map er_Step (Rows db) = rev (map ev_CurrentStep hist)"

lemma insertEvent_ok:
  assumes "complete_event e" "\<forall>n. up n" "ev_Id e \<in> ec_Id ` set (Cases db)"
  shows "\<exists>r. insertEvent up zone e db = Inr (db\<lparr>Rows := Rows db @ [r], Stmts := Stmts db + 1\<rparr>) \<and>
    er_Case r = ev_Id e \<and> er_Step r = ev_CurrentStep e"
  using complete_parts(3) [OF assms(1)] assms(2,3) by (auto simp: insertEvent_def Let_def)

text \<open>What the first half of \<open>InsertEvent\<close> makes of the cases.\<close>

lemma cases_after:
  assumes inv: "tables_of zone hist db" and e: "complete_event e" and up: "\<forall>n. up n"
  shows "\<exists>cases. InsertEvent up zone stamp e db = insertEvent up zone e (db\<lparr>Cases := cases, Stmts := Stmts db + 2\<rparr>) \<and>
    distinct (map ec_Id cases) \<and> ec_Id ` set cases = insert (ev_Id e) (ec_Id ` set (Cases db)) \<and>
    (\<forall>c \<in> set cases. if ec_Id c = ev_Id e
       then shows_event zone e c \<and> (ev_CurrentStep e = 1 \<longrightarrow> ec_Timestamp c = FormattedTime zone e) else c \<in> set (Cases db))"
proof -
  have dist: "distinct (map ec_Id (Cases db))" using inv by (simp add: tables_of_def)
  define found where "found = filter (\<lambda>c. ec_Id c = ev_Id e) (Cases db)"
  show ?thesis
  proof (cases found)
    case Nil
    then have new: "ev_Id e \<notin> ec_Id ` set (Cases db)" by (auto simp: found_def filter_empty_conv)
    obtain c where c: "new_case zone e = Inr c" "shows_event zone e c" "ec_Timestamp c = FormattedTime zone e"
      using new_case_ok [OF e] by blast
    have "InsertEvent up zone stamp e db = insertEvent up zone e (db\<lparr>Cases := Cases db @ [c], Stmts := Stmts db + 2\<rparr>)"
      using up new Nil c(1) by (simp add: InsertEvent_def found_def Let_def)
    moreover have "ec_Id c = ev_Id e" using c(2) by (simp add: shows_event_def)
    moreover have "ec_Id x \<noteq> ev_Id e" if "x \<in> set (Cases db)" for x using new that by (metis image_eqI)
    ultimately show ?thesis using dist new c(2,3) by (intro exI [of _ "Cases db @ [c]"]) auto
  next
    case (Cons f fs)
    then have f: "f \<in> set (Cases db)" "ec_Id f = ev_Id e" by (auto simp: found_def filter_eq_Cons_iff)
    have only: "r = f" if "r \<in> set (Cases db)" "ec_Id r = ev_Id e" for r
      using dist f that by (metis distinct_map inj_onD)
    obtain c where c: "update_case zone stamp e f f = Inr c" "shows_event zone e c"
      "ev_CurrentStep e = 1 \<longrightarrow> ec_Timestamp c = FormattedTime zone e"
      using update_case_ok [OF e f(2), of zone stamp] by blast
    have id: "ec_Id c = ev_Id e" using c(2) by (simp add: shows_event_def)
    define cs where "cs = map (\<lambda>r. if ec_Id r = ev_Id e then c else r) (Cases db)"
    have "update_rows zone stamp e f (Cases db) = Inr cs"
      unfolding cs_def by (rule update_rows_ok [OF c(1) f(2) dist]) (use only in auto)
    then have run: "InsertEvent up zone stamp e db = insertEvent up zone e (db\<lparr>Cases := cs, Stmts := Stmts db + 2\<rparr>)"
      using up Cons by (simp add: InsertEvent_def found_def Let_def)
    have same: "map ec_Id cs = map ec_Id (Cases db)" using id by (auto simp: cs_def)
    have "ec_Id ` set cs = insert (ev_Id e) (ec_Id ` set (Cases db))"
    proof -
      have "ec_Id ` set cs = ec_Id ` set (Cases db)" using same by (metis list.set_map)
      then show ?thesis using f by (metis imageI insert_absorb)
    qed
    moreover have "\<forall>x \<in> set cs. if ec_Id x = ev_Id e
        then shows_event zone e x \<and> (ev_CurrentStep e = 1 \<longrightarrow> ec_Timestamp x = FormattedTime zone e) else x \<in> set (Cases db)"
      using c(2,3) id by (auto simp: cs_def)
    ultimately show ?thesis using run same dist by metis
  qed
qed

lemma InsertEvent_tables:
  assumes inv: "tables_of zone hist db" and e: "complete_event e" and up: "\<forall>n. up n"
  shows "\<exists>db'. InsertEvent up zone stamp e db = Inr db' \<and> tables_of zone (e # hist) db'"
proof -
  obtain cases where cs: "InsertEvent up zone stamp e db = insertEvent up zone e (db\<lparr>Cases := cases, Stmts := Stmts db + 2\<rparr>)"
    "distinct (map ec_Id cases)" "ec_Id ` set cases = insert (ev_Id e) (ec_Id ` set (Cases db))"
    and each: "\<forall>c \<in> set cases. if ec_Id c = ev_Id e
       then shows_event zone e c \<and> (ev_CurrentStep e = 1 \<longrightarrow> ec_Timestamp c = FormattedTime zone e) else c \<in> set (Cases db)"
    using cases_after [OF assms] by blast
  obtain r where r: "insertEvent up zone e (db\<lparr>Cases := cases, Stmts := Stmts db + 2\<rparr>) =
      Inr (db\<lparr>Cases := cases, Rows := Rows db @ [r], Stmts := Stmts db + 3\<rparr>)" "er_Case r = ev_Id e" "er_Step r = ev_CurrentStep e"
    using insertEvent_ok [OF e up, of "db\<lparr>Cases := cases, Stmts := Stmts db + 2\<rparr>" zone] cs(3) by (auto simp: eval_nat_numeral)
  have "case_follows zone (e # hist) c" if "c \<in> set cases" for c
  proof (cases "ec_Id c = ev_Id e")
    case True
    then show ?thesis using each that by (auto simp: case_follows_def)
  next
    case False
    then have "case_follows zone hist c" using each that inv by (auto simp: tables_of_def)
    then show ?thesis using False by (auto simp: case_follows_def)
  qed
  then have "tables_of zone (e # hist) (db\<lparr>Cases := cases, Rows := Rows db @ [r], Stmts := Stmts db + 3\<rparr>)"
    using cs(2,3) r(2,3) inv unfolding tables_of_def by simp
  with cs(1) r(1) show ?thesis by auto
qed

section \<open>Properties\<close>

text \<open>A consumer records events one after the other; each comes with the time at the database.\<close>

fun insert_all :: "(nat \<Rightarrow> bool) \<Rightarrow> (int \<Rightarrow> int) \<Rightarrow> (string \<times> event) list \<Rightarrow> alarm_db \<Rightarrow> alarm_db res" where
  "insert_all up zone [] db = Inr db"
| "insert_all up zone ((stamp, e) # es) db = bind_res (InsertEvent up zone stamp e db) (insert_all up zone es)"

text \<open>
  C34: recording events one after the other in a working database keeps the tables as the events
  determine them: one case per alarm, which shows the last event of that alarm, and every event in
  order.
\<close>

theorem cases_follow_events:
  assumes "tables_of zone hist db" "\<forall>(stamp, e) \<in> set es. complete_event e" "\<forall>n. up n"
  shows "\<exists>db'. insert_all up zone es db = Inr db' \<and> tables_of zone (rev (map snd es) @ hist) db'"
  using assms(1,2)
proof (induction es arbitrary: hist db)
  case (Cons se es)
  obtain stamp e where se: "se = (stamp, e)" by (cases se)
  then have "complete_event e" using Cons.prems(2) by simp
  then obtain db1 where "InsertEvent up zone stamp e db = Inr db1" "tables_of zone (e # hist) db1"
    using InsertEvent_tables [OF Cons.prems(1) _ assms(3)] by blast
  with Cons.IH [of "e # hist" db1] Cons.prems(2) se show ?case by auto
qed simp

lemma complete_demo: "complete_event (demo_alarm p)" "complete_event (set_CurrentStep 2 (demo_alarm p))"
  by (simp_all add: complete_event_def demo_alarm_def Metric_def TplId_def)

theorem cases_follow_events_witness:
  "\<exists>db'. insert_all (\<lambda>_. True) (\<lambda>_. 0) [(''t1'', demo_alarm 1), (''t2'', demo_alarm 2)] \<lparr>Cases = [], Rows = [], Stmts = 0\<rparr> = Inr db' \<and>
    tables_of (\<lambda>_. 0) [demo_alarm 2, demo_alarm 1] db'"
proof -
  have "tables_of (\<lambda>_. 0) [] \<lparr>Cases = [], Rows = [], Stmts = 0\<rparr>" by (simp add: tables_of_def)
  then show ?thesis
    using cases_follow_events [of "\<lambda>_. 0" "[]" "\<lparr>Cases = [], Rows = [], Stmts = 0\<rparr>"
        "[(''t1'', demo_alarm 1), (''t2'', demo_alarm 2)]" "\<lambda>_. True"] complete_demo
    by simp
qed

text \<open>
  the start of a case, which only a first step means to set, is lost with the next step: the
  update leaves the time out, so the database sets it to the present.
\<close>

theorem later_step_moves_start:
  assumes "complete_event e" "ev_CurrentStep e \<noteq> 1" "ec_Id c = ev_Id e" "ec_CurrentStep c \<noteq> ev_CurrentStep e"
  shows "\<exists>db' c'. InsertEvent (\<lambda>_. True) zone stamp e \<lparr>Cases = [c], Rows = rows, Stmts = 0\<rparr> = Inr db' \<and> Cases db' = [c'] \<and>
    ec_Timestamp c' = stamp"
proof -
  obtain c' where c': "update_case zone stamp e c c = Inr c'" "ec_Timestamp c' = stamp"
    using update_case_ok [OF assms(1,3), of zone stamp] assms(2,4) by blast
  obtain k where "event_cond e = Inr k" using complete_parts(3) [OF assms(1)] by blast
  with c' assms(3) show ?thesis by (simp add: InsertEvent_def insertEvent_def Let_def)
qed

theorem later_step_moves_start_witness:
  "\<exists>c db' c'. new_case (\<lambda>_. 0) (demo_alarm 1) = Inr c \<and>
    InsertEvent (\<lambda>_. True) (\<lambda>_. 0) ''later'' (set_CurrentStep 2 (demo_alarm 1)) \<lparr>Cases = [c], Rows = [], Stmts = 0\<rparr> = Inr db' \<and>
    Cases db' = [c'] \<and> ec_Timestamp c' = ''later''"
proof -
  obtain c where c: "new_case (\<lambda>_. 0) (demo_alarm 1) = Inr c" "shows_event (\<lambda>_. 0) (demo_alarm 1) c"
    using new_case_ok [OF complete_demo(1)] by blast
  then have "ec_Id c = ev_Id (set_CurrentStep 2 (demo_alarm 1))" "ec_CurrentStep c \<noteq> ev_CurrentStep (set_CurrentStep 2 (demo_alarm 1))"
    by (simp_all add: shows_event_def demo_alarm_def)
  then show ?thesis using c(1) later_step_moves_start [OF complete_demo(2)] by (simp add: demo_alarm_def)
qed

text \<open>
  when the query for the case fails, an event of an alarm that has a case is recorded only as
  a row of the events: the case keeps showing the state before, though every other statement succeeds.
\<close>

theorem failed_query_keeps_case:
  assumes "\<And>n. up n \<longleftrightarrow> n \<noteq> Stmts db" "complete_event e" "ev_Id e \<in> ec_Id ` set (Cases db)"
  shows "\<exists>db'. InsertEvent up zone stamp e db = Inr db' \<and> Cases db' = Cases db \<and> length (Rows db') = length (Rows db) + 1"
proof -
  obtain c where "new_case zone e = Inr c" using new_case_ok [OF assms(2)] by blast
  moreover obtain c where "event_cond e = Inr c" using complete_parts(3) [OF assms(2)] by blast
  ultimately show ?thesis using assms(1,3) by (simp add: InsertEvent_def insertEvent_def Let_def)
qed

theorem failed_query_keeps_case_witness:
  "\<exists>c db'. ec_CurrentStep c = 1 \<and>
    InsertEvent (\<lambda>n. n \<noteq> 0) (\<lambda>_. 0) ''t'' (set_CurrentStep 2 (demo_alarm 1)) \<lparr>Cases = [c], Rows = [], Stmts = 0\<rparr> = Inr db' \<and>
    Cases db' = [c]"
proof -
  obtain c where c: "shows_event (\<lambda>_. 0) (demo_alarm 1) c" using new_case_ok [OF complete_demo(1)] by blast
  then have "ec_Id c = ev_Id (set_CurrentStep 2 (demo_alarm 1))" "ec_CurrentStep c = 1"
    by (simp_all add: shows_event_def demo_alarm_def)
  then show ?thesis
    using failed_query_keeps_case [of "\<lambda>n. n \<noteq> 0" "\<lparr>Cases = [c], Rows = [], Stmts = 0\<rparr>" "set_CurrentStep 2 (demo_alarm 1)" "\<lambda>_. 0" "''t''", OF _ complete_demo(2)]
    by (intro exI [of _ c]) auto
qed

end
