(* ===== verification/Poly_Strategy.thy ===== *)
theory Poly_Strategy
  imports Transfer_Recv Hbs_Redis Go_Map
begin

text \<open>
  Module polymetric, the strategies (\<open>cron/poly_worker.go\<close>, \<open>amstag_strategy.go\<close>, \<open>falcon_group.go\<close>,
  \<open>g/func.go\<close>, \<open>common/rediscluster/func.go\<close>): every minute one instance, the one that gets the lock,
  reads the strategies, asks for the hosts of every group and publishes for each host and counter the
  groups whose aggregates need it; every instance keeps a worker with a queue per strategy. Transfer
  reads what is published (\<open>Transfer_Recv.SyncEndPolyFromRedis\<close>).
\<close>

section \<open>The lock\<close>

text \<open>The key of the lock: the time it holds, and when redis forgets it, if it does.\<close>

record lock_redis =
  LockKey :: "(int \<times> int option) option"
  LockCalls :: nat

definition live_lock :: "int \<Rightarrow> lock_redis \<Rightarrow> int option" where
  "live_lock now r = (case LockKey r of Some (v, Some e) \<Rightarrow> if now < e then Some v else None | Some (v, None) \<Rightarrow> Some v | None \<Rightarrow> None)"

definition lock_SETNX :: "(nat \<Rightarrow> bool) \<Rightarrow> int \<Rightarrow> int \<Rightarrow> lock_redis \<Rightarrow> int option \<times> lock_redis" where
  "lock_SETNX up now v r =
     (let r' = r\<lparr>LockCalls := LockCalls r + 1\<rparr> in
      if \<not> up (LockCalls r) then (None, r')
      else if live_lock now r = None then (Some 1, r'\<lparr>LockKey := Some (v, None)\<rparr>)
      else (Some 0, r'))"

definition lock_EXPIRE :: "(nat \<Rightarrow> bool) \<Rightarrow> int \<Rightarrow> int \<Rightarrow> lock_redis \<Rightarrow> lock_redis" where
  "lock_EXPIRE up now timeout r =
     (let r' = r\<lparr>LockCalls := LockCalls r + 1\<rparr> in
      case live_lock now r of
        Some v \<Rightarrow> if up (LockCalls r) then r'\<lparr>LockKey := Some (v, Some (now + timeout))\<rparr> else r'
      | None \<Rightarrow> r')"

definition lock_GET :: "(nat \<Rightarrow> bool) \<Rightarrow> int \<Rightarrow> lock_redis \<Rightarrow> int option \<times> lock_redis" where
  "lock_GET up now r =
     ((if up (LockCalls r) then live_lock now r else None), r\<lparr>LockCalls := LockCalls r + 1\<rparr>)"

definition GetDisLock :: "(nat \<Rightarrow> bool) \<Rightarrow> int \<Rightarrow> int \<Rightarrow> lock_redis \<Rightarrow> bool \<times> lock_redis" where
  "GetDisLock up now timeout r =
     (let expireAt = now + timeout;
          (setNxres, r) = lock_SETNX up now expireAt r in
      case setNxres of
        None \<Rightarrow> (False, r)
      | Some k \<Rightarrow>
          if k = 1 then (True, lock_EXPIRE up now timeout r)
          else if k = 0 then
            (let (getRes, r) = lock_GET up now r in
             case getRes of
               None \<Rightarrow> (False, r)
             | Some v \<Rightarrow> if now - v > timeout then (True, lock_EXPIRE up now timeout r) else (False, r))
          else (False, r))"

section \<open>State\<close>

definition PolyTimeStep :: int where "PolyTimeStep = 30"
definition MaxQueueSize :: int where "MaxQueueSize = 400000"
definition RedisHMapTimeout :: int where "RedisHMapTimeout = 60 * 60"
definition RedisLockTimeout :: int where "RedisLockTimeout = 55"
definition poly_SEP :: string where "poly_SEP = ''||''"
definition poly_MultiSep :: string where "poly_MultiSep = ''@@''"
definition EndPolyStrategyHashKey :: string where "EndPolyStrategyHashKey = ''end_poly_strategy_hash_key''"
definition AmsTagPolyType :: string where "AmsTagPolyType = ''ams_tag''"
definition FalconGroupPolyType :: string where "FalconGroupPolyType = ''falcon_group''"

record poly_metric =
  ps_Id :: int
  ps_PolyType :: string
  ps_Name :: string
  ps_CreateUser :: string
  ps_Counter :: string
  ps_CreateAt :: string

record group_res =
  gr_Name :: string
  gr_Counter :: string
  gr_Ends :: "string list"

record poly_worker =
  pw_Queue :: "poly_request list"
  pw_Started :: bool

record poly_state =
  EndPolyMetricMap :: "(string, string list) gomap"
  EndPolyAmsTagMetricMap :: "(string, string list) gomap"
  EndPolyFalconGroupMetricMap :: "(string, string list) gomap"
  PolyDbConfigMap :: "(string, poly_metric list) gomap"
  PolyWorkerQueueMap :: "(string, poly_worker) gomap"
  PolyTypeMap :: "(string, bool) gomap"
  PolyHistoryDataMap :: "(string, f64) gomap"

section \<open>The hosts of a group (\<open>g/func.go\<close>, \<open>falcon_group.go\<close>)\<close>

text \<open>A part of the address that is not a number counts as 0.\<close>

definition lan_text :: "string \<Rightarrow> string" where
  "lan_text s =
     (let n = (case parse_int 64 s of Inr n \<Rightarrow> n | Inl _ \<Rightarrow> 0)
      in if n < 100 then ''0'' @ itoa n else s)"

definition IpToEndpoint :: "string \<Rightarrow> string res" where
  "IpToEndpoint ip =
     (case split (CHR ''.'') ip of
        _ # BlanStr # ClanStr # DlanStr # _ \<Rightarrow> Inr (''n'' @ BlanStr @ ''-'' @ lan_text ClanStr @ ''-'' @ lan_text DlanStr)
      | _ \<Rightarrow> Inl (Panic ''index out of range''))"

fun ip_endpoints :: "string list \<Rightarrow> string list res" where
  "ip_endpoints [] = Inr []"
| "ip_endpoints (ip # ips) =
     bind_res (IpToEndpoint ip) (\<lambda>e. bind_res (ip_endpoints ips) (\<lambda>all. Inr (e # all)))"

text \<open>
  The reply of the host service: no usable one, or its return code and the addresses under
  the tag, if they are there. A panic is recovered and the answer is then empty.
\<close>

definition GetAmsTagIps :: "(int \<times> string list option) option \<Rightarrow> string list" where
  "GetAmsTagIps reply =
     (case reply of
        None \<Rightarrow> []
      | Some (ret, hosts) \<Rightarrow>
          if ret \<noteq> 0 then []
          else (case hosts of None \<Rightarrow> []
                | Some ips \<Rightarrow> (case ip_endpoints ips of Inl _ \<Rightarrow> [] | Inr all \<Rightarrow> all)))"

definition RunFalconGroupSql :: "string list option \<Rightarrow> string list" where
  "RunFalconGroupSql rows = (case rows of None \<Rightarrow> [] | Some ends \<Rightarrow> ends)"

section \<open>Strategies and queues\<close>

definition poly_key :: "string \<Rightarrow> string \<Rightarrow> string \<Rightarrow> string" where
  "poly_key ty name counter = ty @ poly_SEP @ name @ poly_SEP @ counter"

definition add_config :: "(string, poly_metric list) gomap \<Rightarrow> poly_metric \<Rightarrow> (string, poly_metric list) gomap" where
  "add_config m item =
     (case gget m (ps_PolyType item) of
        Some l \<Rightarrow> gput (ps_PolyType item) (l @ [item]) m
      | None \<Rightarrow> gput (ps_PolyType item) [item] m)"

definition SyncGroupStrategyFromDb :: "poly_metric list option \<Rightarrow> poly_state \<Rightarrow> poly_state" where
  "SyncGroupStrategyFromDb rows s =
     s\<lparr>PolyDbConfigMap := foldl add_config [] (case rows of Some Qres \<Rightarrow> Qres | None \<Rightarrow> [])\<rparr>"

definition CreatePloyQueueIfNeed :: "string \<Rightarrow> poly_state \<Rightarrow> poly_state" where
  "CreatePloyQueueIfNeed name s =
     (case gget (PolyWorkerQueueMap s) name of
        Some _ \<Rightarrow> s
      | None \<Rightarrow> s\<lparr>PolyWorkerQueueMap := gput name \<lparr>pw_Queue = [], pw_Started = False\<rparr> (PolyWorkerQueueMap s)\<rparr>)"

definition by_name :: "(string, poly_metric list) gomap \<Rightarrow> poly_metric \<Rightarrow> (string, poly_metric list) gomap" where
  "by_name m i =
     (case gget m (ps_Name i) of
        Some (t # ts) \<Rightarrow> gput (ps_Name i) (t # ts @ [i]) m
      | _ \<Rightarrow> gput (ps_Name i) [i] m)"

definition CommonInitQueue :: "string \<Rightarrow> poly_state \<Rightarrow> (string, poly_metric list) gomap option \<times> int \<times> poly_state" where
  "CommonInitQueue ty s =
     (case gget (PolyDbConfigMap s) ty of
        None \<Rightarrow> (None, 0, s)
      | Some res \<Rightarrow>
          let s = foldl (\<lambda>s i. CreatePloyQueueIfNeed (poly_key ty (ps_Name i) (ps_Counter i)) s) s res
          in (Some (foldl by_name [] res), int (length res), s))"

section \<open>The pool that asks for the hosts\<close>

text \<open>How many groups are asked for at the same time.\<close>

definition max_worker :: "int \<Rightarrow> int" where
  "max_worker num = (if num > 10 then 10 else if num - 1 \<le> 0 then 1 else num - 1)"

text \<open>
  A group puts a result per strategy into the channel, which has room for all of them; the pool
  returns when every group has. In which order the results arrive is the argument \<open>arrive\<close>, which
  knows the number of workers.
\<close>

definition group_work :: "(string \<Rightarrow> string list) \<Rightarrow> string \<times> poly_metric list \<Rightarrow> group_res list" where
  "group_work ends = (\<lambda>(name, strategys).
     map (\<lambda>item. \<lparr>gr_Name = name, gr_Counter = ps_Counter item, gr_Ends = ends name\<rparr>) strategys)"

definition NewWorkPool :: "(int \<Rightarrow> group_res list list \<Rightarrow> group_res list) \<Rightarrow> int \<Rightarrow> (string \<Rightarrow> string list)
    \<Rightarrow> (string, poly_metric list) gomap \<Rightarrow> group_res list" where
  "NewWorkPool arrive maxWorker ends argMap = arrive maxWorker (map (group_work ends) argMap)"

definition add_end :: "string \<Rightarrow> group_res \<Rightarrow> (string, string list) gomap \<Rightarrow> string \<Rightarrow> (string, string list) gomap" where
  "add_end ty g m host =
     (let endKey = host @ poly_SEP @ gr_Counter g; polyKey = poly_key ty (gr_Name g) (gr_Counter g) in
      case gget m endKey of
        None \<Rightarrow> gput endKey [polyKey] m
      | Some old \<Rightarrow> if polyKey \<in> set old then m else gput endKey (old @ [polyKey]) m)"

text \<open>The loop over the channel, which is never closed: without a result it would wait forever.\<close>

fun poly_result_loop :: "string \<Rightarrow> group_res list \<Rightarrow> (string, string list) gomap \<Rightarrow> (string, string list) gomap option" where
  "poly_result_loop ty [] m = None"
| "poly_result_loop ty (g # gs) m =
     (if gr_Ends g = [] \<and> gs = [] then Some m
      else if gr_Ends g = [] then poly_result_loop ty gs m
      else let m = foldl (add_end ty g) m (gr_Ends g) in if gs = [] then Some m else poly_result_loop ty gs m)"

text \<open>\<open>None\<close> when there is nothing to do, then the map stays.\<close>

definition MultiRunWorker :: "(int \<Rightarrow> group_res list list \<Rightarrow> group_res list) \<Rightarrow> string \<Rightarrow> (string \<Rightarrow> string list)
    \<Rightarrow> (string, poly_metric list) gomap \<Rightarrow> int \<Rightarrow> (string, string list) gomap \<Rightarrow> (string, string list) gomap option" where
  "MultiRunWorker arrive ty ends argMap num old =
     (if num \<le> 0 then Some old
      else poly_result_loop ty (NewWorkPool arrive (max_worker num) ends argMap) [])"

section \<open>A round\<close>

record poly_env =
  pe_Rows :: "poly_metric list option"
  pe_Ams :: "string \<Rightarrow> (int \<times> string list option) option"
  pe_Sql :: "string \<Rightarrow> string list option"
  pe_Arrive :: "int \<Rightarrow> group_res list list \<Rightarrow> group_res list"
  pe_Fail :: "nat \<Rightarrow> bool"
  pe_Nano :: int

definition RenewAmsTagStrategy :: "poly_env \<Rightarrow> poly_state \<Rightarrow> poly_state option" where
  "RenewAmsTagStrategy env s =
     (case CommonInitQueue AmsTagPolyType s of
        (None, num, s) \<Rightarrow> Some s
      | (Some res, num, s) \<Rightarrow>
          map_option (\<lambda>m. s\<lparr>EndPolyAmsTagMetricMap := m\<rparr>)
            (MultiRunWorker (pe_Arrive env) AmsTagPolyType (\<lambda>name. GetAmsTagIps (pe_Ams env name)) res num (EndPolyAmsTagMetricMap s)))"

definition RenewFalconGroupStrategy :: "poly_env \<Rightarrow> poly_state \<Rightarrow> poly_state option" where
  "RenewFalconGroupStrategy env s =
     (case CommonInitQueue FalconGroupPolyType s of
        (None, num, s) \<Rightarrow> Some s
      | (Some res, num, s) \<Rightarrow>
          map_option (\<lambda>m. s\<lparr>EndPolyFalconGroupMetricMap := m\<rparr>)
            (MultiRunWorker (pe_Arrive env) FalconGroupPolyType (\<lambda>name. RunFalconGroupSql (pe_Sql env name)) res num
               (EndPolyFalconGroupMetricMap s)))"

definition agg_one :: "(string, string list) gomap \<Rightarrow> string \<times> string list \<Rightarrow> (string, string list) gomap" where
  "agg_one m = (\<lambda>(key, va). case gget m key of None \<Rightarrow> gput key va m | Some target \<Rightarrow> gput key (target @ va) m)"

definition AggAllEndMap :: "poly_state \<Rightarrow> poly_state" where
  "AggAllEndMap s =
     s\<lparr>EndPolyMetricMap := foldl agg_one (foldl agg_one [] (EndPolyAmsTagMetricMap s)) (EndPolyFalconGroupMetricMap s)\<rparr>"

text \<open>The commands to redis; an \<open>HMSET\<close> without a field is refused.\<close>

definition SyncStrategyToCache :: "(nat \<Rightarrow> bool) \<Rightarrow> int \<Rightarrow> (string, string list) gomap \<Rightarrow> string rcmd list" where
  "SyncStrategyToCache fail nano m =
     (let key = EndPolyStrategyHashKey @ itoa nano;
          cmds = [HMSET key (map (\<lambda>(k, v). (k, join poly_MultiSep v)) m)] in
      if fail 0 \<or> m = [] then cmds
      else let cmds = cmds @ [EXPIRE key RedisHMapTimeout] in
        if fail 1 then cmds else cmds @ [SET EndPolyStrategyHashKey key])"

definition InitGroupStrategy :: "poly_env \<Rightarrow> bool \<Rightarrow> poly_state \<Rightarrow> (poly_state \<times> string rcmd list) option" where
  "InitGroupStrategy env locked s =
     (if locked then
        (case RenewAmsTagStrategy env (SyncGroupStrategyFromDb (pe_Rows env) s) of
           None \<Rightarrow> None
         | Some s \<Rightarrow>
             (case RenewFalconGroupStrategy env s of
                None \<Rightarrow> None
              | Some s \<Rightarrow>
                  let s = AggAllEndMap s
                  in Some (s, SyncStrategyToCache (pe_Fail env) (pe_Nano env) (EndPolyMetricMap s))))
      else
        (let s = SyncGroupStrategyFromDb (pe_Rows env) s;
             (r, n, s) = CommonInitQueue AmsTagPolyType s;
             (r, n, s) = CommonInitQueue FalconGroupPolyType s
         in Some (s, [])))"

section \<open>Facts: the maps\<close>

lemma add_config_eq: "foldl add_config [] rows = group_all ps_PolyType rows"
  by (simp add: group_all_def add_config_def [abs_def] gsnoc_def)

lemma by_name_eq: "foldl by_name [] rows = group_all ps_Name rows"
proof (induction rows rule: rev_induct)
  case (snoc i rows)
  have "l \<noteq> []" if "gget (group_all ps_Name rows) k = Some l" for k l
    using that by (auto simp: gget_group_all filter_empty_conv split: if_splits)
  then show ?case using snoc
    by (auto simp: group_all_snoc gsnoc_def by_name_def split: option.splits list.splits)
qed (simp add: group_all_def)

text \<open>The routes that a map holds for a host and counter.\<close>

definition routes_at :: "(string, string list) gomap \<Rightarrow> string \<Rightarrow> string set" where
  "routes_at m k = (case gget m k of Some l \<Rightarrow> set l | None \<Rightarrow> {})"

definition tidy_routes :: "(string, string list) gomap \<Rightarrow> bool" where
  "tidy_routes m \<longleftrightarrow> gwf m \<and> (\<forall>k l. gget m k = Some l \<longrightarrow> l \<noteq> [] \<and> distinct l)"

lemma tidy_gwf: "tidy_routes m \<Longrightarrow> gwf m"
  unfolding tidy_routes_def by blast

lemma tidy_empty [simp]: "tidy_routes []" "routes_at [] k = {}"
  by (simp_all add: tidy_routes_def routes_at_def)

lemma add_end_routes:
  "routes_at (add_end ty g m e) k =
     routes_at m k \<union> (if k = e @ poly_SEP @ gr_Counter g then {poly_key ty (gr_Name g) (gr_Counter g)} else {})"
  by (auto simp: add_end_def routes_at_def Let_def split: option.splits)

lemma add_end_tidy:
  assumes "tidy_routes m"
  shows "tidy_routes (add_end ty g m e)"
proof -
  define k p where "k = e @ poly_SEP @ gr_Counter g" and "p = poly_key ty (gr_Name g) (gr_Counter g)"
  have put: "tidy_routes (gput k l m)" if "l \<noteq> [] \<and> distinct l" for l
    unfolding tidy_routes_def
  proof (intro conjI allI impI)
    show "gwf (gput k l m)" using assms by (simp add: tidy_routes_def)
    fix k' l' assume "gget (gput k l m) k' = Some l'"
    then have "l' = l \<or> gget m k' = Some l'" by (auto split: if_splits)
    then show "l' \<noteq> []" "distinct l'" using that assms unfolding tidy_routes_def by blast+
  qed
  show ?thesis
  proof (cases "gget m k")
    case None
    then have "add_end ty g m e = gput k [p] m" by (simp add: add_end_def Let_def k_def p_def)
    then show ?thesis using put [of "[p]"] by simp
  next
    case (Some l)
    then have "distinct l" using assms unfolding tidy_routes_def by blast
    moreover have "add_end ty g m e = (if p \<in> set l then m else gput k (l @ [p]) m)"
      using Some by (simp add: add_end_def Let_def k_def p_def)
    ultimately show ?thesis using put [of "l @ [p]"] assms by simp
  qed
qed

lemma add_ends_tidy: "tidy_routes m \<Longrightarrow> tidy_routes (foldl (add_end ty g) m es)"
  by (induction es arbitrary: m) (simp_all add: add_end_tidy)

lemma add_ends_routes:
  "routes_at (foldl (add_end ty g) m es) k = routes_at m k \<union>
     (if \<exists>e \<in> set es. k = e @ poly_SEP @ gr_Counter g then {poly_key ty (gr_Name g) (gr_Counter g)} else {})"
proof (induction es arbitrary: m)
  case (Cons e es)
  show ?case unfolding foldl.simps Cons.IH add_end_routes by auto
qed simp

text \<open>The loop over the results returns and has collected all of them.\<close>

definition routes_of :: "string \<Rightarrow> group_res set \<Rightarrow> string \<Rightarrow> string set" where
  "routes_of ty gs k = {p. \<exists>g \<in> gs. p = poly_key ty (gr_Name g) (gr_Counter g) \<and> (\<exists>e \<in> set (gr_Ends g). k = e @ poly_SEP @ gr_Counter g)}"

lemma routes_of_insert:
  "routes_of ty (insert g gs) k =
     (if \<exists>e \<in> set (gr_Ends g). k = e @ poly_SEP @ gr_Counter g then {poly_key ty (gr_Name g) (gr_Counter g)} else {}) \<union> routes_of ty gs k"
  unfolding routes_of_def by auto

lemma routes_of_none [simp]: "routes_of ty {} k = {}"
  by (simp add: routes_of_def)

lemma poly_result_loop_collects:
  assumes "gs \<noteq> []" "tidy_routes m"
  shows "\<exists>m'. poly_result_loop ty gs m = Some m' \<and> tidy_routes m' \<and>
    (\<forall>k. routes_at m' k = routes_at m k \<union> routes_of ty (set gs) k)"
  using assms
proof (induction gs arbitrary: m)
  case (Cons g gs)
  define m1 where "m1 = foldl (add_end ty g) m (gr_Ends g)"
  have t: "tidy_routes m1" unfolding m1_def by (rule add_ends_tidy [OF Cons.prems(2)])
  have r: "routes_at m1 k \<union> routes_of ty (set gs) k = routes_at m k \<union> routes_of ty (set (g # gs)) k" for k
    unfolding m1_def add_ends_routes by (simp only: list.set routes_of_insert Un_assoc)
  show ?case
  proof (cases "gs = []")
    case True
    then have "poly_result_loop ty (g # gs) m = Some m1" by (simp add: m1_def Let_def)
    with t r True show ?thesis by simp
  next
    case False
    then have "poly_result_loop ty (g # gs) m = poly_result_loop ty gs m1" by (simp add: m1_def Let_def)
    with Cons.IH [OF False t] r show ?thesis by simp
  qed
qed simp

text \<open>What a renewal of a type makes of its strategies; \<open>hosts\<close> answers for the groups.\<close>

definition arrives :: "(int \<Rightarrow> group_res list list \<Rightarrow> group_res list) \<Rightarrow> bool" where
  "arrives arrive \<longleftrightarrow> (\<forall>n rs. mset (arrive n rs) = mset (concat rs))"

definition wanted :: "string \<Rightarrow> (string \<Rightarrow> string list) \<Rightarrow> poly_metric list \<Rightarrow> string \<Rightarrow> string set" where
  "wanted ty hosts rows k =
     {p. \<exists>i \<in> set rows. ps_PolyType i = ty \<and> p = poly_key ty (ps_Name i) (ps_Counter i) \<and>
        (\<exists>e \<in> set (hosts (ps_Name i)). k = e @ poly_SEP @ ps_Counter i)}"

lemma pool_results:
  assumes "arrives arrive"
  shows "set (NewWorkPool arrive n hosts (group_all ps_Name rows)) =
    (\<lambda>i. \<lparr>gr_Name = ps_Name i, gr_Counter = ps_Counter i, gr_Ends = hosts (ps_Name i)\<rparr>) ` set rows"
proof -
  have "set (arrive n rs) = set (concat rs)" for rs
    using assms by (metis arrives_def set_mset_mset)
  then have "set (NewWorkPool arrive n hosts (group_all ps_Name rows)) =
      (\<Union>x \<in> set (group_all ps_Name rows). set (group_work hosts x))"
    by (simp add: NewWorkPool_def)
  also have "\<dots> = (\<lambda>i. \<lparr>gr_Name = ps_Name i, gr_Counter = ps_Counter i, gr_Ends = hosts (ps_Name i)\<rparr>) ` set rows"
    (is "?L = ?f ` _")
  proof
    show "?L \<subseteq> ?f ` set rows" by (auto simp: group_work_def group_all_entries)
    show "?f ` set rows \<subseteq> ?L"
    proof
      fix g assume "g \<in> ?f ` set rows"
      then obtain i where i: "i \<in> set rows" "g = ?f i" by blast
      then have "(ps_Name i, filter (\<lambda>v. ps_Name v = ps_Name i) rows) \<in> set (group_all ps_Name rows)"
        by (simp add: group_all_entries)
      moreover have "g \<in> set (group_work hosts (ps_Name i, filter (\<lambda>v. ps_Name v = ps_Name i) rows))"
        using i by (auto simp: group_work_def)
      ultimately show "g \<in> ?L" by blast
    qed
  qed
  finally show ?thesis .
qed

lemma routes_of_rows:
  "(\<And>i. i \<in> set rows \<Longrightarrow> ps_PolyType i = ty) \<Longrightarrow>
   routes_of ty ((\<lambda>i. \<lparr>gr_Name = ps_Name i, gr_Counter = ps_Counter i, gr_Ends = hosts (ps_Name i)\<rparr>) ` set rows) k = wanted ty hosts rows k"
  unfolding routes_of_def wanted_def by auto

lemma MultiRunWorker_collects:
  assumes "arrives arrive" "rows \<noteq> []" "\<And>i. i \<in> set rows \<Longrightarrow> ps_PolyType i = ty"
  shows "\<exists>m. MultiRunWorker arrive ty hosts (group_all ps_Name rows) (int (length rows)) old = Some m \<and> tidy_routes m \<and>
    (\<forall>k. routes_at m k = wanted ty hosts rows k)"
proof -
  let ?gs = "NewWorkPool arrive (max_worker (int (length rows))) hosts (group_all ps_Name rows)"
  have set: "set ?gs = (\<lambda>i. \<lparr>gr_Name = ps_Name i, gr_Counter = ps_Counter i, gr_Ends = hosts (ps_Name i)\<rparr>) ` set rows"
    by (rule pool_results [OF assms(1)])
  then have "?gs \<noteq> []" using assms(2) by auto
  from poly_result_loop_collects [OF this tidy_empty(1), of ty] obtain m where
    "poly_result_loop ty ?gs [] = Some m" "tidy_routes m" "\<forall>k. routes_at m k = routes_of ty (set ?gs) k"
    by auto
  moreover have "routes_of ty (set ?gs) k = wanted ty hosts rows k" for k
    unfolding set by (rule routes_of_rows [OF assms(3)])
  ultimately show ?thesis using assms(2) by (simp add: MultiRunWorker_def)
qed

section \<open>Facts: a round\<close>

lemma CommonInitQueue_eq:
  assumes "gget (PolyDbConfigMap s) ty = Some res"
  shows "CommonInitQueue ty s =
    (Some (group_all ps_Name res), int (length res), foldl (\<lambda>s i. CreatePloyQueueIfNeed (poly_key ty (ps_Name i) (ps_Counter i)) s) s res)"
  using assms by (simp add: CommonInitQueue_def by_name_eq Let_def)

definition worker_names :: "poly_state \<Rightarrow> string set" where
  "worker_names s = dom (gget (PolyWorkerQueueMap s))"

text \<open>Making queues changes nothing else.\<close>

lemma create_queue:
  "PolyDbConfigMap (CreatePloyQueueIfNeed n s) = PolyDbConfigMap s \<and>
   EndPolyAmsTagMetricMap (CreatePloyQueueIfNeed n s) = EndPolyAmsTagMetricMap s \<and>
   EndPolyFalconGroupMetricMap (CreatePloyQueueIfNeed n s) = EndPolyFalconGroupMetricMap s \<and>
   worker_names (CreatePloyQueueIfNeed n s) = insert n (worker_names s)"
  by (auto simp: CreatePloyQueueIfNeed_def worker_names_def split: option.split)

lemma create_queues:
  "PolyDbConfigMap (foldl (\<lambda>s i. CreatePloyQueueIfNeed (f i) s) s is) = PolyDbConfigMap s \<and>
   EndPolyAmsTagMetricMap (foldl (\<lambda>s i. CreatePloyQueueIfNeed (f i) s) s is) = EndPolyAmsTagMetricMap s \<and>
   EndPolyFalconGroupMetricMap (foldl (\<lambda>s i. CreatePloyQueueIfNeed (f i) s) s is) = EndPolyFalconGroupMetricMap s \<and>
   worker_names (foldl (\<lambda>s i. CreatePloyQueueIfNeed (f i) s) s is) = worker_names s \<union> f ` set is"
  by (induction "is" arbitrary: s) (simp_all add: create_queue)

lemma db_config:
  "gget (PolyDbConfigMap (SyncGroupStrategyFromDb (Some rows) s)) ty =
     (if ty \<in> ps_PolyType ` set rows then Some (filter (\<lambda>i. ps_PolyType i = ty) rows) else None)"
  by (simp add: SyncGroupStrategyFromDb_def add_config_eq gget_group_all)

abbreviation ams_hosts :: "poly_env \<Rightarrow> string \<Rightarrow> string list" where
  "ams_hosts env name \<equiv> GetAmsTagIps (pe_Ams env name)"

abbreviation falcon_hosts :: "poly_env \<Rightarrow> string \<Rightarrow> string list" where
  "falcon_hosts env name \<equiv> RunFalconGroupSql (pe_Sql env name)"

text \<open>What the renewals of the two types share; without strategies of the type nothing happens.\<close>

lemma renewed_map:
  assumes "arrives arrive" "rows' = filter (\<lambda>i. ps_PolyType i = ty) rows" "rows' \<noteq> []"
  shows "\<exists>m. MultiRunWorker arrive ty hosts (group_all ps_Name rows') (int (length rows')) old = Some m \<and> tidy_routes m \<and>
    (\<forall>k. routes_at m k = wanted ty hosts rows k)"
proof -
  have "wanted ty hosts rows' k = wanted ty hosts rows k" for k
    unfolding wanted_def assms(2) by auto
  then show ?thesis using MultiRunWorker_collects [OF assms(1,3), of ty hosts old] assms(2) by simp
qed

lemma wanted_none: "ty \<notin> ps_PolyType ` set rows \<Longrightarrow> wanted ty hosts rows k = {}"
  by (auto simp: wanted_def)

definition keys_of :: "string \<Rightarrow> poly_metric list \<Rightarrow> string set" where
  "keys_of ty rows = (\<lambda>i. poly_key ty (ps_Name i) (ps_Counter i)) ` set (filter (\<lambda>i. ps_PolyType i = ty) rows)"

lemma keys_of_none: "ty \<notin> ps_PolyType ` set rows \<Longrightarrow> keys_of ty rows = {}"
  unfolding keys_of_def image_is_empty set_empty filter_empty_conv by (metis imageI)

lemma renew_ams:
  assumes "arrives (pe_Arrive env)"
    and "gget (PolyDbConfigMap s) AmsTagPolyType =
      (if AmsTagPolyType \<in> ps_PolyType ` set rows then Some (filter (\<lambda>i. ps_PolyType i = AmsTagPolyType) rows) else None)"
  shows "\<exists>s'. RenewAmsTagStrategy env s = Some s' \<and> PolyDbConfigMap s' = PolyDbConfigMap s \<and>
    EndPolyFalconGroupMetricMap s' = EndPolyFalconGroupMetricMap s \<and>
    worker_names s' = worker_names s \<union> keys_of AmsTagPolyType rows \<and>
    (if AmsTagPolyType \<in> ps_PolyType ` set rows
     then tidy_routes (EndPolyAmsTagMetricMap s') \<and> (\<forall>k. routes_at (EndPolyAmsTagMetricMap s') k = wanted AmsTagPolyType (ams_hosts env) rows k)
     else EndPolyAmsTagMetricMap s' = EndPolyAmsTagMetricMap s)"
proof (cases "AmsTagPolyType \<in> ps_PolyType ` set rows")
  case True
  define rows' where "rows' = filter (\<lambda>i. ps_PolyType i = AmsTagPolyType) rows"
  have ne: "rows' \<noteq> []" using True unfolding rows'_def filter_empty_conv image_iff by metis
  have db: "gget (PolyDbConfigMap s) AmsTagPolyType = Some rows'" using assms(2) True by (simp add: rows'_def)
  define s1 where "s1 = foldl (\<lambda>s i. CreatePloyQueueIfNeed (poly_key AmsTagPolyType (ps_Name i) (ps_Counter i)) s) s rows'"
  have s1: "PolyDbConfigMap s1 = PolyDbConfigMap s" "EndPolyFalconGroupMetricMap s1 = EndPolyFalconGroupMetricMap s"
    "worker_names s1 = worker_names s \<union> keys_of AmsTagPolyType rows"
    unfolding s1_def keys_of_def rows'_def by (simp_all add: create_queues)
  obtain m where m: "MultiRunWorker (pe_Arrive env) AmsTagPolyType (ams_hosts env) (group_all ps_Name rows') (int (length rows'))
      (EndPolyAmsTagMetricMap s1) = Some m" "tidy_routes m" "\<forall>k. routes_at m k = wanted AmsTagPolyType (ams_hosts env) rows k"
    using renewed_map [OF assms(1) rows'_def ne] by blast
  have "RenewAmsTagStrategy env s = Some (s1\<lparr>EndPolyAmsTagMetricMap := m\<rparr>)"
    unfolding RenewAmsTagStrategy_def CommonInitQueue_eq [OF db] s1_def [symmetric] by (simp add: m(1))
  with s1 m True show ?thesis by (simp add: worker_names_def)
next
  case False
  then show ?thesis using assms(2)
    by (simp add: RenewAmsTagStrategy_def CommonInitQueue_def keys_of_none)
qed

lemma renew_falcon:
  assumes "arrives (pe_Arrive env)"
    and "gget (PolyDbConfigMap s) FalconGroupPolyType =
      (if FalconGroupPolyType \<in> ps_PolyType ` set rows then Some (filter (\<lambda>i. ps_PolyType i = FalconGroupPolyType) rows) else None)"
  shows "\<exists>s'. RenewFalconGroupStrategy env s = Some s' \<and> EndPolyAmsTagMetricMap s' = EndPolyAmsTagMetricMap s \<and>
    worker_names s' = worker_names s \<union> keys_of FalconGroupPolyType rows \<and>
    (if FalconGroupPolyType \<in> ps_PolyType ` set rows
     then tidy_routes (EndPolyFalconGroupMetricMap s') \<and>
       (\<forall>k. routes_at (EndPolyFalconGroupMetricMap s') k = wanted FalconGroupPolyType (falcon_hosts env) rows k)
     else EndPolyFalconGroupMetricMap s' = EndPolyFalconGroupMetricMap s)"
proof (cases "FalconGroupPolyType \<in> ps_PolyType ` set rows")
  case True
  define rows' where "rows' = filter (\<lambda>i. ps_PolyType i = FalconGroupPolyType) rows"
  have ne: "rows' \<noteq> []" using True unfolding rows'_def filter_empty_conv image_iff by metis
  have db: "gget (PolyDbConfigMap s) FalconGroupPolyType = Some rows'" using assms(2) True by (simp add: rows'_def)
  define s1 where "s1 = foldl (\<lambda>s i. CreatePloyQueueIfNeed (poly_key FalconGroupPolyType (ps_Name i) (ps_Counter i)) s) s rows'"
  have s1: "EndPolyAmsTagMetricMap s1 = EndPolyAmsTagMetricMap s"
    "worker_names s1 = worker_names s \<union> keys_of FalconGroupPolyType rows"
    unfolding s1_def keys_of_def rows'_def by (simp_all add: create_queues)
  obtain m where m: "MultiRunWorker (pe_Arrive env) FalconGroupPolyType (falcon_hosts env) (group_all ps_Name rows') (int (length rows'))
      (EndPolyFalconGroupMetricMap s1) = Some m" "tidy_routes m" "\<forall>k. routes_at m k = wanted FalconGroupPolyType (falcon_hosts env) rows k"
    using renewed_map [OF assms(1) rows'_def ne] by blast
  have "RenewFalconGroupStrategy env s = Some (s1\<lparr>EndPolyFalconGroupMetricMap := m\<rparr>)"
    unfolding RenewFalconGroupStrategy_def CommonInitQueue_eq [OF db] s1_def [symmetric] by (simp add: m(1))
  with s1 m True show ?thesis by (simp add: worker_names_def)
next
  case False
  then show ?thesis using assms(2)
    by (simp add: RenewFalconGroupStrategy_def CommonInitQueue_def keys_of_none)
qed

text \<open>The union of the two maps.\<close>

lemma agg_one_routes: "routes_at (agg_one m (k', v)) k = routes_at m k \<union> (if k = k' then set v else {})"
  by (auto simp: agg_one_def routes_at_def split: option.split)

lemma agg_routes:
  "gwf es \<Longrightarrow> routes_at (foldl agg_one m es) k = routes_at m k \<union> routes_at es k"
proof (induction es arbitrary: m)
  case (Cons e es)
  obtain k' v where e: "e = (k', v)" by force
  have "gget es k' = None" "gwf es" using Cons.prems by (auto simp: gwf_def e map_of_eq_None_iff)
  then show ?case using Cons.IH [of "agg_one m e"] by (auto simp: e agg_one_routes) (auto simp: routes_at_def)
qed simp

definition filled :: "('k, 'v list) gomap \<Rightarrow> bool" where
  "filled m \<longleftrightarrow> gwf m \<and> list_all (\<lambda>(k, l). l \<noteq> []) m"

lemma filled_update: "list_all (\<lambda>(k, l). l \<noteq> []) m \<Longrightarrow> v \<noteq> [] \<Longrightarrow> list_all (\<lambda>(k, l). l \<noteq> []) (gput k v m)"
  by (induction m) auto

lemma filled_agg_one: "filled m \<Longrightarrow> v \<noteq> [] \<Longrightarrow> filled (agg_one m (k, v))"
  by (simp add: filled_def agg_one_def filled_update split: option.split)

lemma agg_filled: "filled m \<Longrightarrow> list_all (\<lambda>(k, l). l \<noteq> []) es \<Longrightarrow> filled (foldl agg_one m es)"
  by (induction es arbitrary: m) (auto simp: filled_agg_one)

lemma tidy_filled:
  assumes "tidy_routes m"
  shows "list_all (\<lambda>(k, l). l \<noteq> []) m"
proof -
  have "l \<noteq> []" if "(k, l) \<in> set m" for k l
  proof -
    have "gget m k = Some l" using that assms by (simp add: tidy_routes_def gwf_def)
    then show ?thesis using assms unfolding tidy_routes_def by blast
  qed
  then show ?thesis by (auto simp: list_all_iff)
qed

lemma routed_round:
  assumes rows: "pe_Rows env = Some rows" and arr: "arrives (pe_Arrive env)"
    and tidy: "tidy_routes (EndPolyAmsTagMetricMap s)" "tidy_routes (EndPolyFalconGroupMetricMap s)"
  shows "\<exists>s'. InitGroupStrategy env True s = Some (s', SyncStrategyToCache (pe_Fail env) (pe_Nano env) (EndPolyMetricMap s')) \<and>
    filled (EndPolyMetricMap s') \<and>
    worker_names s' = worker_names s \<union> keys_of AmsTagPolyType rows \<union> keys_of FalconGroupPolyType rows \<and>
    (\<forall>k. routes_at (EndPolyMetricMap s') k =
      (if AmsTagPolyType \<in> ps_PolyType ` set rows then wanted AmsTagPolyType (ams_hosts env) rows k else routes_at (EndPolyAmsTagMetricMap s) k) \<union>
      (if FalconGroupPolyType \<in> ps_PolyType ` set rows then wanted FalconGroupPolyType (falcon_hosts env) rows k
       else routes_at (EndPolyFalconGroupMetricMap s) k))"
proof -
  define s0 where "s0 = SyncGroupStrategyFromDb (Some rows) s"
  have same0: "EndPolyAmsTagMetricMap s0 = EndPolyAmsTagMetricMap s" "EndPolyFalconGroupMetricMap s0 = EndPolyFalconGroupMetricMap s"
    "worker_names s0 = worker_names s"
    by (simp_all add: s0_def SyncGroupStrategyFromDb_def worker_names_def)
  obtain s1 where s1: "RenewAmsTagStrategy env s0 = Some s1" "PolyDbConfigMap s1 = PolyDbConfigMap s0"
      "EndPolyFalconGroupMetricMap s1 = EndPolyFalconGroupMetricMap s" "worker_names s1 = worker_names s \<union> keys_of AmsTagPolyType rows"
      "if AmsTagPolyType \<in> ps_PolyType ` set rows
       then tidy_routes (EndPolyAmsTagMetricMap s1) \<and> (\<forall>k. routes_at (EndPolyAmsTagMetricMap s1) k = wanted AmsTagPolyType (ams_hosts env) rows k)
       else EndPolyAmsTagMetricMap s1 = EndPolyAmsTagMetricMap s"
    using renew_ams [OF arr, of s0 rows] same0 by (auto simp: s0_def db_config)
  obtain s2 where s2: "RenewFalconGroupStrategy env s1 = Some s2" "EndPolyAmsTagMetricMap s2 = EndPolyAmsTagMetricMap s1"
      "worker_names s2 = worker_names s1 \<union> keys_of FalconGroupPolyType rows"
      "if FalconGroupPolyType \<in> ps_PolyType ` set rows
       then tidy_routes (EndPolyFalconGroupMetricMap s2) \<and>
         (\<forall>k. routes_at (EndPolyFalconGroupMetricMap s2) k = wanted FalconGroupPolyType (falcon_hosts env) rows k)
       else EndPolyFalconGroupMetricMap s2 = EndPolyFalconGroupMetricMap s1"
    using renew_falcon [OF arr, of s1 rows] s1(2) by (auto simp: s0_def db_config)
  have t: "tidy_routes (EndPolyAmsTagMetricMap s2)" "tidy_routes (EndPolyFalconGroupMetricMap s2)"
    using s1(3,5) s2(2,4) tidy by (auto split: if_splits)
  then have g: "gwf (EndPolyAmsTagMetricMap s2)" "gwf (EndPolyFalconGroupMetricMap s2)" by (simp_all add: tidy_gwf)
  let ?s' = "AggAllEndMap s2"
  have run: "InitGroupStrategy env True s = Some (?s', SyncStrategyToCache (pe_Fail env) (pe_Nano env) (EndPolyMetricMap ?s'))"
    using rows s1(1) s2(1) by (simp add: InitGroupStrategy_def s0_def Let_def)
  have f: "filled (EndPolyMetricMap ?s')"
    unfolding AggAllEndMap_def using agg_filled [OF agg_filled tidy_filled [OF t(2)], of "[]", OF _ tidy_filled [OF t(1)]]
    by (simp add: filled_def)
  have r: "routes_at (EndPolyMetricMap ?s') k = routes_at (EndPolyAmsTagMetricMap s2) k \<union> routes_at (EndPolyFalconGroupMetricMap s2) k" for k
    by (simp add: AggAllEndMap_def agg_routes g)
  have w: "worker_names ?s' = worker_names s \<union> keys_of AmsTagPolyType rows \<union> keys_of FalconGroupPolyType rows"
    using s1(4) s2(3) by (simp add: AggAllEndMap_def worker_names_def)
  have a: "routes_at (EndPolyAmsTagMetricMap s2) k = (if AmsTagPolyType \<in> ps_PolyType ` set rows
      then wanted AmsTagPolyType (ams_hosts env) rows k else routes_at (EndPolyAmsTagMetricMap s) k)" for k
    using s1(5) unfolding s2(2) by (simp split: if_splits)
  have b: "routes_at (EndPolyFalconGroupMetricMap s2) k = (if FalconGroupPolyType \<in> ps_PolyType ` set rows
      then wanted FalconGroupPolyType (falcon_hosts env) rows k else routes_at (EndPolyFalconGroupMetricMap s) k)" for k
    using s2(4) unfolding s1(3) by (simp split: if_splits)
  show ?thesis using run f w r unfolding a b by blast
qed

section \<open>Properties\<close>

text \<open>
  a round of the instance with the lock publishes, for every host and counter, exactly the
  groups that a strategy for the counter names and that contain the host, and every instance that
  hears of them afterwards has a worker for each.
\<close>

theorem poly_routes_exact:
  assumes "pe_Rows env = Some rows" "arrives (pe_Arrive env)"
    and "tidy_routes (EndPolyAmsTagMetricMap s)" "tidy_routes (EndPolyFalconGroupMetricMap s)"
    and "AmsTagPolyType \<in> ps_PolyType ` set rows" "FalconGroupPolyType \<in> ps_PolyType ` set rows"
  shows "\<exists>s' cmds. InitGroupStrategy env True s = Some (s', cmds) \<and>
    (\<forall>k. routes_at (EndPolyMetricMap s') k =
       wanted AmsTagPolyType (ams_hosts env) rows k \<union> wanted FalconGroupPolyType (falcon_hosts env) rows k) \<and>
    (\<forall>k. routes_at (EndPolyMetricMap s') k \<subseteq> worker_names s')"
proof -
  obtain s' where s': "InitGroupStrategy env True s = Some (s', SyncStrategyToCache (pe_Fail env) (pe_Nano env) (EndPolyMetricMap s'))"
    "worker_names s' = worker_names s \<union> keys_of AmsTagPolyType rows \<union> keys_of FalconGroupPolyType rows"
    "\<forall>k. routes_at (EndPolyMetricMap s') k =
       wanted AmsTagPolyType (ams_hosts env) rows k \<union> wanted FalconGroupPolyType (falcon_hosts env) rows k"
    using routed_round [OF assms(1-4)] unfolding if_P [OF assms(5)] if_P [OF assms(6)] by blast
  have "wanted ty hosts rows k \<subseteq> keys_of ty rows" for ty hosts k
    by (auto simp: wanted_def keys_of_def)
  then have "routes_at (EndPolyMetricMap s') k \<subseteq> worker_names s'" for k
    unfolding s'(2) using s'(3) by blast
  with s'(1,3) show ?thesis by blast
qed

definition demo_strategies :: "poly_metric list" where
  "demo_strategies =
     [\<lparr>ps_Id = 1, ps_PolyType = ''ams_tag'', ps_Name = ''web'', ps_CreateUser = '''', ps_Counter = ''cpu.idle'', ps_CreateAt = ''''\<rparr>,
      \<lparr>ps_Id = 2, ps_PolyType = ''falcon_group'', ps_Name = ''all'', ps_CreateUser = '''', ps_Counter = ''cpu.idle'', ps_CreateAt = ''''\<rparr>]"

definition demo_poly_env :: poly_env where
  "demo_poly_env = \<lparr>pe_Rows = Some demo_strategies, pe_Ams = \<lambda>_. Some (0, Some [''10.2.3.4'']), pe_Sql = \<lambda>_. Some [''n2-03-04'', ''db1''],
     pe_Arrive = \<lambda>n. concat, pe_Fail = \<lambda>_. False, pe_Nano = 7\<rparr>"

definition no_poly :: poly_state where
  "no_poly = \<lparr>EndPolyMetricMap = [], EndPolyAmsTagMetricMap = [], EndPolyFalconGroupMetricMap = [], PolyDbConfigMap = [],
     PolyWorkerQueueMap = [], PolyTypeMap = [], PolyHistoryDataMap = []\<rparr>"

lemma demo_poly:
  "pe_Rows demo_poly_env = Some demo_strategies" "arrives (pe_Arrive demo_poly_env)"
  "tidy_routes (EndPolyAmsTagMetricMap no_poly)" "tidy_routes (EndPolyFalconGroupMetricMap no_poly)"
  "AmsTagPolyType \<in> ps_PolyType ` set demo_strategies" "FalconGroupPolyType \<in> ps_PolyType ` set demo_strategies"
  by (simp_all add: demo_poly_env_def arrives_def no_poly_def demo_strategies_def AmsTagPolyType_def FalconGroupPolyType_def)

lemma demo_wanted:
  "wanted AmsTagPolyType (ams_hosts demo_poly_env) demo_strategies ''n2-03-04||cpu.idle'' = {''ams_tag||web||cpu.idle''}"
  "wanted FalconGroupPolyType (falcon_hosts demo_poly_env) demo_strategies ''n2-03-04||cpu.idle'' = {''falcon_group||all||cpu.idle''}"
proof -
  have h: "ams_hosts demo_poly_env ''web'' = [''n2-03-04'']" by code_simp
  show "wanted AmsTagPolyType (ams_hosts demo_poly_env) demo_strategies ''n2-03-04||cpu.idle'' = {''ams_tag||web||cpu.idle''}"
    by (simp add: wanted_def demo_strategies_def h) (simp add: AmsTagPolyType_def poly_key_def poly_SEP_def)
  show "wanted FalconGroupPolyType (falcon_hosts demo_poly_env) demo_strategies ''n2-03-04||cpu.idle'' = {''falcon_group||all||cpu.idle''}"
    by (simp add: wanted_def demo_strategies_def demo_poly_env_def RunFalconGroupSql_def)
      (simp add: FalconGroupPolyType_def poly_key_def poly_SEP_def)
qed

theorem poly_routes_exact_witness:
  "\<exists>s' cmds. InitGroupStrategy demo_poly_env True no_poly = Some (s', cmds) \<and>
     routes_at (EndPolyMetricMap s') ''n2-03-04||cpu.idle'' = {''ams_tag||web||cpu.idle'', ''falcon_group||all||cpu.idle''} \<and>
     ''ams_tag||web||cpu.idle'' \<in> worker_names s'"
proof -
  obtain s' cmds where s': "InitGroupStrategy demo_poly_env True no_poly = Some (s', cmds)"
    "\<forall>k. routes_at (EndPolyMetricMap s') k = wanted AmsTagPolyType (ams_hosts demo_poly_env) demo_strategies k \<union>
       wanted FalconGroupPolyType (falcon_hosts demo_poly_env) demo_strategies k"
    "\<forall>k. routes_at (EndPolyMetricMap s') k \<subseteq> worker_names s'"
    using poly_routes_exact [OF demo_poly] by blast
  have "routes_at (EndPolyMetricMap s') ''n2-03-04||cpu.idle'' = {''ams_tag||web||cpu.idle'', ''falcon_group||all||cpu.idle''}"
    unfolding s'(2) [rule_format] demo_wanted by (simp add: insert_commute)
  with s'(1) s'(3) [rule_format, of "''n2-03-04||cpu.idle''"] show ?thesis by simp
qed

text \<open>What transfer reads of the map that was published.\<close>

lemma published:
  assumes "m \<noteq> []" "\<forall>n. \<not> fail n" "filled m"
    and "answers hgetall fail (SyncStrategyToCache fail nano m) (EndPolyStrategyHashKey @ itoa nano)"
  shows "SET EndPolyStrategyHashKey (EndPolyStrategyHashKey @ itoa nano) \<in> set (SyncStrategyToCache fail nano m) \<and>
    (\<forall>k. EndPolyCache_Get (SyncEndPolyFromRedis (Some (EndPolyStrategyHashKey @ itoa nano)) hgetall old) k =
       (case gget m k of Some l \<Rightarrow> join poly_MultiSep l | None \<Rightarrow> ''''))"
proof -
  have c: "SyncStrategyToCache fail nano m = [HMSET (EndPolyStrategyHashKey @ itoa nano) (map (\<lambda>(k, v). (k, join poly_MultiSep v)) m),
      EXPIRE (EndPolyStrategyHashKey @ itoa nano) RedisHMapTimeout, SET EndPolyStrategyHashKey (EndPolyStrategyHashKey @ itoa nano)]"
    using assms(1,2) by (simp add: SyncStrategyToCache_def Let_def)
  define es where "es = map (\<lambda>(k, v). (k, join poly_MultiSep v)) m"
  have "gwf es" using assms(3) by (auto simp: es_def filled_def gwf_def comp_def case_prod_beta)
  then have "map_of (rev es) = map_of es" by (rule map_of_rev)
  moreover have "map_of es k = map_option (join poly_MultiSep) (gget m k)" for k
    unfolding es_def by (simp add: map_of_map)
  ultimately obtain r where r: "hgetall (EndPolyStrategyHashKey @ itoa nano) = Some r" "\<forall>k. gget r k = map_option (join poly_MultiSep) (gget m k)"
    using assms(2,4) unfolding answers_def c es_def [symmetric] by auto
  then show ?thesis unfolding c
    by (auto simp: SyncEndPolyFromRedis_def EndPolyCache_Get_def split: option.splits)
qed


text \<open>Redis answers with the last value of each field that was stored.\<close>

lemma answers_possible: "answers (\<lambda>key. Some (AList.clearjunk (rev (stored fail cmds key)))) fail cmds key"
  by (simp add: answers_def gwf_def distinct_clearjunk map_of_clearjunk)


text \<open>
  when the last strategy of a type is deleted, the round leaves the routes of that type as they
  were and publishes them again and again.
\<close>

theorem deleted_strategies_stay:
  assumes "pe_Rows env = Some rows" "arrives (pe_Arrive env)"
    and "tidy_routes (EndPolyAmsTagMetricMap s)" "tidy_routes (EndPolyFalconGroupMetricMap s)"
    and "FalconGroupPolyType \<notin> ps_PolyType ` set rows"
  shows "\<exists>s' cmds. InitGroupStrategy env True s = Some (s', cmds) \<and>
    (\<forall>k. routes_at (EndPolyFalconGroupMetricMap s) k \<subseteq> routes_at (EndPolyMetricMap s') k)"
  using routed_round [OF assms(1-4)] unfolding if_not_P [OF assms(5)] by blast

theorem deleted_strategies_stay_witness:
  "\<exists>s' cmds. InitGroupStrategy (demo_poly_env\<lparr>pe_Rows := Some []\<rparr>) True
      (no_poly\<lparr>EndPolyFalconGroupMetricMap := [(''h1||qps'', [''falcon_group||gone||qps''])]\<rparr>) = Some (s', cmds) \<and>
    ''falcon_group||gone||qps'' \<in> routes_at (EndPolyMetricMap s') ''h1||qps''"
proof -
  let ?s = "no_poly\<lparr>EndPolyFalconGroupMetricMap := [(''h1||qps'', [''falcon_group||gone||qps''])]\<rparr>"
  have "tidy_routes (EndPolyAmsTagMetricMap ?s)" "tidy_routes (EndPolyFalconGroupMetricMap ?s)"
    by (simp add: no_poly_def) (simp add: tidy_routes_def gwf_def)
  moreover have "''falcon_group||gone||qps'' \<in> routes_at (EndPolyFalconGroupMetricMap ?s) ''h1||qps''" by (simp add: routes_at_def)
  ultimately show ?thesis
    using deleted_strategies_stay [of "demo_poly_env\<lparr>pe_Rows := Some []\<rparr>" "[]" ?s] demo_poly(2) by (simp add: demo_poly_env_def) blast
qed

text \<open>
  when no group has a host any more nothing is published, so transfer goes on with the routes
  of before until redis forgets them.
\<close>

theorem empty_routes_not_published:
  "SET EndPolyStrategyHashKey key \<notin> set (SyncStrategyToCache fail nano [])"
  by (simp add: SyncStrategyToCache_def)

section \<open>The lock\<close>

definition lock_ok :: "lock_redis \<Rightarrow> bool" where
  "lock_ok r \<longleftrightarrow> (case LockKey r of None \<Rightarrow> True | Some (v, None) \<Rightarrow> False | Some (v, Some e) \<Rightarrow> v = e)"

fun lock_attempts :: "(nat \<Rightarrow> bool) \<Rightarrow> int \<Rightarrow> int list \<Rightarrow> lock_redis \<Rightarrow> bool list" where
  "lock_attempts up timeout [] r = []"
| "lock_attempts up timeout (t # ts) r = (let (got, r) = GetDisLock up t timeout r in got # lock_attempts up timeout ts r)"

lemma GetDisLock_up:
  assumes "\<forall>n. up n" "lock_ok r" "0 < timeout"
  shows "GetDisLock up t timeout r =
    (if live_lock t r = None then (True, \<lparr>LockKey = Some (t + timeout, Some (t + timeout)), LockCalls = LockCalls r + 2\<rparr>)
     else (False, r\<lparr>LockCalls := LockCalls r + 2\<rparr>))"
  using assms
  by (auto simp: GetDisLock_def lock_SETNX_def lock_EXPIRE_def lock_GET_def live_lock_def lock_ok_def Let_def
      split: option.splits if_splits)

text \<open>
  C6: while redis answers, the lock keeps the instances apart: after one got it no other gets it
  for the whole time of the lock, however often and in whatever order they try.
\<close>

theorem lock_excludes:
  assumes "\<forall>n. up n" "lock_ok r" "0 < timeout" "GetDisLock up t timeout r = (True, r')"
    and "\<forall>t' \<in> set ts. t' < t + timeout"
  shows "lock_attempts up timeout ts r' = replicate (length ts) False \<and> lock_ok r'"
proof -
  have r': "LockKey r' = Some (t + timeout, Some (t + timeout))"
    using assms(4) by (auto simp: GetDisLock_up [OF assms(1-3)] split: if_splits)
  have "lock_attempts up timeout ts r'' = replicate (length ts) False"
    if "LockKey r'' = Some (t + timeout, Some (t + timeout))" for r''
    using assms(5) that
  proof (induction ts arbitrary: r'')
    case (Cons t' ts)
    then have "lock_ok r''" "live_lock t' r'' \<noteq> None" by (simp_all add: lock_ok_def live_lock_def)
    then have "GetDisLock up t' timeout r'' = (False, r''\<lparr>LockCalls := LockCalls r'' + 2\<rparr>)"
      using GetDisLock_up [OF assms(1) _ assms(3)] by auto
    then show ?case using Cons.IH [of "r''\<lparr>LockCalls := LockCalls r'' + 2\<rparr>"] Cons.prems by simp
  qed simp
  then show ?thesis using r' by (simp add: lock_ok_def)
qed

theorem lock_excludes_witness:
  "fst (GetDisLock (\<lambda>_. True) 100 55 \<lparr>LockKey = None, LockCalls = 0\<rparr>) \<and>
   lock_attempts (\<lambda>_. True) 55 [100, 130, 154] (snd (GetDisLock (\<lambda>_. True) 100 55 \<lparr>LockKey = None, LockCalls = 0\<rparr>)) = [False, False, False]"
proof -
  have "GetDisLock (\<lambda>_. True) 100 55 \<lparr>LockKey = None, LockCalls = 0\<rparr> = (True, \<lparr>LockKey = Some (155, Some 155), LockCalls = 2\<rparr>)"
    by (simp add: GetDisLock_def lock_SETNX_def lock_EXPIRE_def live_lock_def)
  from lock_excludes [OF _ _ _ this, of "[100, 130, 154]"] this show ?thesis
    by (simp add: lock_ok_def numeral_3_eq_3)
qed

text \<open>
  when the key was left without an expiry, taking it over does not renew its value: every
  instance that tries then gets the lock, also at the same time.
\<close>

theorem lock_shared_after_failed_expire:
  assumes "\<forall>n. up n" "LockKey r = Some (v, None)" "v + timeout < t" "0 < timeout" "t \<le> t'" "t' < t + timeout"
  shows "lock_attempts up timeout [t, t'] r = [True, True]"
  using assms by (simp add: GetDisLock_def lock_SETNX_def lock_EXPIRE_def lock_GET_def live_lock_def)

theorem lock_shared_after_failed_expire_witness:
  "lock_attempts (\<lambda>_. True) 55 [300, 301] \<lparr>LockKey = Some (100, None), LockCalls = 0\<rparr> = [True, True]"
  using lock_shared_after_failed_expire [of "\<lambda>_. True" "\<lparr>LockKey = Some (100, None), LockCalls = 0\<rparr>" 100 55 300 301] by simp

end
