(* ===== verification/Poly_Worker.thy ===== *)
theory Poly_Worker
  imports Poly_Strategy Sdk_Sender Safe_List
begin

text \<open>
  Module polymetric, the workers (\<open>rpc/polymetric.go\<close>, \<open>cron/poly_worker.go\<close>, \<open>prome.go\<close>, \<open>nump.go\<close>):
  transfer sends the values of the hosts of a group, the first one starts the ticker of its worker, and
  every 30 seconds the worker takes what is in its queue and pushes sum, mean, extremes and percentiles
  of the values, with their change since the last time.
\<close>

section \<open>Receiving\<close>

record poly_resp =
  rs_Msg :: string
  rs_Total :: int
  rs_ErrInvalid :: int
  rs_Latency :: int

text \<open>A JSON null among the values is the nil pointer.\<close>

definition update_one :: "poly_request \<Rightarrow> poly_resp \<times> poly_state \<Rightarrow> poly_resp \<times> poly_state" where
  "update_one item = (\<lambda>(reply, s).
     (case gget (PolyWorkerQueueMap s) (pq_PolyName item) of
        None \<Rightarrow> (reply\<lparr>rs_ErrInvalid := rs_ErrInvalid reply + 1\<rparr>, s)
      | Some worker \<Rightarrow>
          let (s, worker) = (if gget (PolyTypeMap s) (pq_PolyName item) = None
                then (s\<lparr>PolyTypeMap := gput (pq_PolyName item) True (PolyTypeMap s)\<rparr>, worker\<lparr>pw_Started := True\<rparr>)
                else (s, worker));
              worker = worker\<lparr>pw_Queue := snd (SafeListLimited_PushFront MaxQueueSize item (pw_Queue worker))\<rparr>
          in (reply\<lparr>rs_Total := rs_Total reply + 1\<rparr>,
              s\<lparr>PolyWorkerQueueMap := gput (pq_PolyName item) worker (PolyWorkerQueueMap s)\<rparr>)))"

fun update_items :: "poly_request option list \<Rightarrow> poly_resp \<times> poly_state \<Rightarrow> (poly_resp \<times> poly_state) res" where
  "update_items [] rs = Inr rs"
| "update_items (None # items) rs = nil_deref"
| "update_items (Some item # items) rs = update_items items (update_one item rs)"

definition Polymetric_Update :: "poly_request option list \<Rightarrow> poly_resp \<Rightarrow> poly_state \<Rightarrow> (poly_resp \<times> poly_state) res" where
  "Polymetric_Update args reply s =
     (let reply = reply\<lparr>rs_ErrInvalid := 0\<rparr> in
      if args = [] then Inr (reply\<lparr>rs_Msg := ''zero item''\<rparr>, s) else update_items args (reply, s))"

section \<open>Sorting and percentiles\<close>

text \<open>The order of \<open>sort.Float64s\<close>: NaN comes first. Zeros of both signs are equal in it.\<close>

definition float_less :: "f64 \<Rightarrow> f64 \<Rightarrow> bool" where
  "float_less x y \<longleftrightarrow> x < y \<or> (is_nan x \<and> \<not> is_nan y)"

fun float_insert :: "f64 \<Rightarrow> f64 list \<Rightarrow> f64 list" where
  "float_insert x [] = [x]"
| "float_insert x (y # ys) = (if float_less y x then y # float_insert x ys else x # y # ys)"

definition sort_Float64s :: "f64 list \<Rightarrow> f64 list" where
  "sort_Float64s xs = foldr float_insert xs []"

text \<open>\<open>int(f)\<close> cuts the fraction off.\<close>

definition int_of_f64 :: "f64 \<Rightarrow> int" where
  "int_of_f64 x = (if fval x < 0 then - \<lfloor>- fval x\<rfloor> else \<lfloor>fval x\<rfloor>)"

definition float_index :: "f64 list \<Rightarrow> int \<Rightarrow> f64 res" where
  "float_index xs i = (if 0 \<le> i \<and> i < int (length xs) then Inr (xs ! nat i) else Inl (Panic ''index out of range''))"

definition tp_index :: "nat \<Rightarrow> rat \<Rightarrow> int" where
  "tp_index n q = int_of_f64 (f64_of_int (int n) * flit q)"

record poly_stats =
  st_sum :: f64
  st_avg :: f64
  st_max :: f64
  st_min :: f64
  st_tp50 :: f64
  st_tp90 :: f64
  st_tp99 :: f64

definition poly_statistics :: "f64 list \<Rightarrow> poly_stats res" where
  "poly_statistics dataList =
     (let n = length dataList; total = foldl (+) 0 dataList in
      if n = 1 then (let v = hd dataList in Inr \<lparr>st_sum = v, st_avg = v, st_max = v, st_min = v, st_tp50 = v, st_tp90 = v, st_tp99 = v\<rparr>)
      else (let xs = sort_Float64s dataList in
        bind_res (float_index xs (int n - 1)) (\<lambda>mx. bind_res (float_index xs 0) (\<lambda>mn.
        bind_res (float_index xs (tp_index n (1/2))) (\<lambda>tp50. bind_res (float_index xs (tp_index n (95/100))) (\<lambda>tp90.
        bind_res (float_index xs (tp_index n (99/100))) (\<lambda>tp99.
          Inr \<lparr>st_sum = total, st_avg = fdiv total (f64_of_int (int n)), st_max = mx, st_min = mn,
               st_tp50 = tp50, st_tp90 = tp90, st_tp99 = tp99\<rparr>)))))))"

section \<open>Where the results go\<close>

datatype poly_message = PolyMsg string string string string string int f64 | NoText

record poly_out =
  po_Sender :: sdk_sender
  po_Prome :: "(string \<times> tags \<times> (string, f64) gomap) list"
  po_Kafka :: "poly_message list"
  po_Nump :: "(string \<times> string \<times> int \<times> (string \<times> f64) list) list"

record poly_cfg =
  pc_Now :: int
  pc_PromeEnabled :: bool
  pc_NumpEnabled :: bool
  pc_KafkaProducer :: bool \<comment> \<open>the connection was made\<close>
  pc_Range :: "(string \<times> f64) list \<Rightarrow> (string \<times> f64) list" \<comment> \<open>the order in which a map is walked\<close>
  pc_Register :: "string \<Rightarrow> tags \<Rightarrow> bool" \<comment> \<open>the registry takes the gauge\<close>

definition underscored :: "string \<Rightarrow> string" where
  "underscored s = map (\<lambda>c. if c = CHR ''.'' then CHR ''_'' else c) s"

definition PushToProme :: "poly_cfg \<Rightarrow> string \<Rightarrow> string \<Rightarrow> (string, f64) gomap \<Rightarrow> poly_out \<Rightarrow> poly_out" where
  "PushToProme cfg metric polyName dataMap out =
     (if \<not> pc_PromeEnabled cfg then out
      else let (newM, tagM) = ConunterToMetricAndTags metric;
               labelMap = gput ''group_name'' polyName tagM;
               gauges = map (\<lambda>(k, v). (''poly_res_'' @ underscored newM @ ''_'' @ k, v)) dataMap
           in if list_all (\<lambda>(name, v). pc_Register cfg name labelMap) gauges
              then out\<lparr>po_Prome := po_Prome out @ [(''falcon_poly_'' @ polyName, labelMap, gauges)]\<rparr> else out)"

text \<open>The error of the JSON encoder is ignored, a value it refuses becomes an empty message.\<close>

definition AsyncPushKafka :: "poly_cfg \<Rightarrow> string \<Rightarrow> string \<Rightarrow> string \<Rightarrow> string \<Rightarrow> string \<Rightarrow> f64 \<Rightarrow> poly_out \<Rightarrow> poly_out" where
  "AsyncPushKafka cfg polyType polyName endpoint counter meth val out =
     (if \<not> pc_KafkaProducer cfg then out
      else if endpoint = '''' then out
      else out\<lparr>po_Kafka := po_Kafka out @
        [if is_fin val then PolyMsg polyType polyName endpoint counter meth (pc_Now cfg) val else NoText]\<rparr>)"

definition RpcCallNumpApi :: "poly_cfg \<Rightarrow> string \<Rightarrow> string \<Rightarrow> (string \<times> f64) list \<Rightarrow> poly_out \<Rightarrow> poly_out" where
  "RpcCallNumpApi cfg metric polyName endList out =
     (if \<not> pc_NumpEnabled cfg then out
      else out\<lparr>po_Nump := po_Nump out @ (if list_all (\<lambda>(e, v). is_fin v) endList then [(metric, polyName, pc_Now cfg, endList)] else [])\<rparr>)"

section \<open>A turn of a worker\<close>

text \<open>The map from values to hosts: its keys are compared as numbers, and NaN equals nothing.\<close>

definition sing_get :: "(f64 \<times> string) list \<Rightarrow> f64 \<Rightarrow> string" where
  "sing_get m v = (case List.find (\<lambda>(k, e). feq k v) m of Some (k, e) \<Rightarrow> e | None \<Rightarrow> '''')"

fun sing_put :: "f64 \<Rightarrow> string \<Rightarrow> (f64 \<times> string) list \<Rightarrow> (f64 \<times> string) list" where
  "sing_put v e [] = [(v, e)]"
| "sing_put v e ((k, e') # m) = (if feq k v then (k, e) # m else (k, e') # sing_put v e m)"

definition sing_add :: "(f64 \<times> string) list \<Rightarrow> poly_request \<Rightarrow> (f64 \<times> string) list" where
  "sing_add m i = (if sing_get m (pq_Value i) = '''' then sing_put (pq_Value i) (pq_EndPoint i) m else m)"

definition method_values :: "poly_stats \<Rightarrow> (string \<times> f64) list" where
  "method_values st = [(''sum'', st_sum st), (''avg'', st_avg st), (''max'', st_max st), (''min'', st_min st),
     (''tp50'', st_tp50 st), (''tp90'', st_tp90 st), (''tp99'', st_tp99 st)]"

definition push_value :: "poly_cfg \<Rightarrow> string \<Rightarrow> string \<Rightarrow> string \<Rightarrow> f64 \<Rightarrow> poly_out \<Rightarrow> poly_out" where
  "push_value cfg endNew metric meth v out =
     out\<lparr>po_Sender := Push (pc_Now cfg) endNew metric (''method='' @ meth) (VFloat v) ''GAUGE'' [PolyTimeStep] (po_Sender out)\<rparr>"

definition rate_of :: "f64 option \<Rightarrow> f64 \<Rightarrow> f64 \<times> f64" where
  "rate_of lastPoint v =
     (case lastPoint of
        None \<Rightarrow> (0, 0)
      | Some lastP \<Rightarrow> let delta = v - lastP in (if feq lastP 0 then 0 else fdiv delta lastP, delta))"

definition change_step :: "poly_cfg \<Rightarrow> string \<Rightarrow> string \<Rightarrow> (string \<times> f64) \<Rightarrow> poly_state \<times> (string, f64) gomap \<times> poly_out
    \<Rightarrow> poly_state \<times> (string, f64) gomap \<times> poly_out" where
  "change_step cfg endNew metric = (\<lambda>(k, v) (s, prome, out).
     let key = endNew @ metric @ ''method='' @ k;
         (rate, delta) = rate_of (gget (PolyHistoryDataMap s) key) v;
         s = s\<lparr>PolyHistoryDataMap := gput key v (PolyHistoryDataMap s)\<rparr>;
         out = push_value cfg endNew (metric @ ''_delta'') k delta (push_value cfg endNew (metric @ ''_rate'') k rate out)
     in (s, gput (k @ ''_delta'') delta (gput (k @ ''_rate'') rate (gput k v prome)), out))"

definition poly_parts :: "string \<Rightarrow> (string \<times> string \<times> string) res" where
  "poly_parts name =
     (case split_str poly_SEP name of
        polyType # polyName # metric # _ \<Rightarrow> Inr (polyType, polyName, metric)
      | _ \<Rightarrow> Inl (Panic ''index out of range''))"

definition push_kafka_all :: "poly_cfg \<Rightarrow> string \<Rightarrow> string \<Rightarrow> string \<Rightarrow> (f64 \<times> string) list \<Rightarrow> poly_stats \<Rightarrow> poly_out \<Rightarrow> poly_out" where
  "push_kafka_all cfg polyType polyName metric singMap st out =
     (if \<not> pc_KafkaProducer cfg then out
      else foldl (\<lambda>out (m, v). AsyncPushKafka cfg polyType polyName (sing_get singMap v) metric m v out) out
        [(''max'', st_max st), (''min'', st_min st), (''tp50'', st_tp50 st), (''tp90'', st_tp90 st), (''tp99'', st_tp99 st)])"

definition push_results :: "poly_cfg \<Rightarrow> string \<Rightarrow> poly_request list \<Rightarrow> poly_stats \<Rightarrow> poly_state \<Rightarrow> poly_out
    \<Rightarrow> (poly_state \<times> poly_out) res" where
  "push_results cfg name item st s out =
     bind_res (poly_parts name) (\<lambda>(polyType, polyName, metric).
       let endNew = underscored (polyType @ ''_poly_'' @ polyName);
           out = foldl (\<lambda>out (m, v). push_value cfg endNew metric m v out) out (method_values st);
           (s, prome, out) = foldl (\<lambda>a kv. change_step cfg endNew metric kv a) (s, [], out) (pc_Range cfg (method_values st));
           out = (if pc_PromeEnabled cfg then PushToProme cfg metric polyName prome out else out);
           out = push_kafka_all cfg polyType polyName metric (foldl sing_add [] item) st out
       in Inr (s, RpcCallNumpApi cfg metric polyName (map (\<lambda>i. (pq_EndPoint i, pq_Value i)) item) out))"

definition GeneralPolyMethods :: "poly_cfg \<Rightarrow> string \<Rightarrow> poly_state \<Rightarrow> poly_out \<Rightarrow> (poly_state \<times> poly_out) res" where
  "GeneralPolyMethods cfg name s out =
     (case gget (PolyWorkerQueueMap s) name of
        None \<Rightarrow> nil_deref
      | Some worker \<Rightarrow>
          bind_res (SafeList_PopBackBy (int (length (pw_Queue worker))) (pw_Queue worker)) (\<lambda>(item, q).
            let s = s\<lparr>PolyWorkerQueueMap := gput name (worker\<lparr>pw_Queue := q\<rparr>) (PolyWorkerQueueMap s)\<rparr> in
            if item = [] then Inr (s, out)
            else bind_res (poly_statistics (map pq_Value item)) (\<lambda>st. push_results cfg name item st s out)))"

definition poly_WorkerRun :: "poly_cfg \<Rightarrow> string \<Rightarrow> poly_state \<Rightarrow> poly_out \<Rightarrow> (poly_state \<times> poly_out) res" where
  "poly_WorkerRun cfg name s out =
     (if hd (split_str poly_SEP name) \<in> {AmsTagPolyType, FalconGroupPolyType} then GeneralPolyMethods cfg name s out
      else Inr (s, out))"

section \<open>Facts: percentiles\<close>

lemma round_half_even_ge: "\<lfloor>x\<rfloor> \<le> round_half_even x"
  by (simp add: round_half_even_def Let_def)

lemma flit_unit:
  assumes "1 / 2 \<le> a" "a < 1" "nbits (\<lceil>1 / a\<rceil> - 1) = 1"
  shows "\<exists>c. flit a = Fin c \<and> 1 / 2 \<le> c \<and> c \<le> a + 1 / 2 ^ 54"
proof -
  have l: "flog2 a = -1" using assms(2,3) by (simp add: flog2_def)
  have u: "pow2 (max (flog2 a - 52) (-1074)) = 1 / 2 ^ 53" by (simp add: l pow2_def)
  define c where "c = round_mag a"
  have c: "c = of_int (round_half_even (a * 2 ^ 53)) / 2 ^ 53" by (simp add: c_def round_mag_def Let_def u)
  have "(2 ^ 52 :: int) \<le> \<lfloor>a * 2 ^ 53\<rfloor>" using assms(1) by (simp add: le_floor_iff)
  then have "(2 ^ 52 :: int) \<le> round_half_even (a * 2 ^ 53)" using round_half_even_ge order_trans by blast
  then have "of_int (2 ^ 52) \<le> (of_int (round_half_even (a * 2 ^ 53)) :: rat)" by (simp only: of_int_le_iff)
  then have lo: "1 / 2 \<le> c" by (simp add: c)
  have "c * 2 ^ 53 \<le> a * 2 ^ 53 + 1 / 2" using round_half_even_le [of "a * 2 ^ 53"] by (simp add: c)
  then have b: "1 / 2 \<le> c" "c \<le> a + 1 / 2 ^ 54" using lo by simp_all
  then have "0 < c" "c < 2" using assms(1,2) by simp_all
  moreover have "(2::rat) \<le> f64_limit" unfolding f64_limit_def by simp
  ultimately have "flit a = Fin c" using assms(1) by (simp add: flit_def round_f64_def Let_def c_def [symmetric])
  with b show ?thesis by blast
qed

lemma tp_index_in:
  assumes "2 \<le> n" "n < 2 ^ 40" "flit a = Fin c" "1 / 2 \<le> c" "c \<le> 992 / 1000"
  shows "0 \<le> tp_index n a \<and> tp_index n a < int n"
proof -
  define x where "x = of_int (int n) * c"
  have n: "f64_of_int (int n) = Fin (of_int (int n))"
    using assms(1,2) f64_of_int_exact [of "int n"] by (simp add: fint_def)
  have "2 * (1 / 2) \<le> of_nat n * c" using assms(1,4) by (intro mult_mono) simp_all
  then have x1: "1 \<le> x" by (simp add: x_def)
  have "x \<le> of_nat n * (992 / 1000)" unfolding x_def of_int_of_nat_eq using assms(5) by (rule mult_left_mono) simp
  then have "x + x / 2 ^ 53 \<le> of_nat n * (992 / 1000) * (1 + 1 / 2 ^ 53)" by (simp add: field_simps)
  also have "\<dots> < of_nat n" using assms(1) by simp
  finally have up: "round_mag x < of_nat n" using round_mag_le [OF x1] by simp
  have "0 \<le> round_mag x"
  proof -
    have "0 \<le> x / pow2 (max (flog2 x - 52) (-1074))" using x1 pow2_pos by (simp add: less_imp_le)
    then have "0 \<le> round_half_even (x / pow2 (max (flog2 x - 52) (-1074)))"
      by (auto simp: round_half_even_def Let_def)
    then show ?thesis by (simp add: round_mag_def Let_def less_imp_le)
  qed
  moreover have "of_nat n \<le> f64_limit"
  proof -
    have "of_nat n < (2 :: rat) ^ 40" using assms(2) by (metis of_nat_less_iff of_nat_numeral of_nat_power)
    also have "\<dots> \<le> f64_limit" unfolding f64_limit_def by (rule power_increasing) simp_all
    finally show ?thesis by simp
  qed
  ultimately have "f64_of_int (int n) * flit a = (if round_mag x = 0 then Zero False else Fin (round_mag x))"
    using x1 up assms(4) unfolding n assms(3) times_f64_def
    by (auto simp: round_f64_def Let_def x_def)
  then show ?thesis using up \<open>0 \<le> round_mag x\<close>
    by (auto simp: tp_index_def int_of_f64_def floor_less_iff)
qed

lemma tp_indices:
  assumes "2 \<le> n" "n < 2 ^ 40" "q \<in> {1 / 2, 95 / 100, 99 / 100}"
  shows "0 \<le> tp_index n q \<and> tp_index n q < int n"
proof -
  have n1: "nbits 1 = 1" by (simp add: nbits.simps)
  consider "q = 1 / 2" | "q = 95 / 100" | "q = 99 / 100" using assms(3) by blast
  then have "\<lceil>1 / q\<rceil> = 2"
  proof cases
    case 1 show ?thesis unfolding 1 by simp
  next
    case 2 show ?thesis unfolding 2 by (simp add: ceiling_eq_iff)
  next
    case 3 show ?thesis unfolding 3 by (simp add: ceiling_eq_iff)
  qed
  then have "nbits (\<lceil>1 / q\<rceil> - 1) = 1" using n1 by simp
  moreover have q: "1 / 2 \<le> q" "q < 1" "q \<le> 99 / 100" using assms(3) by auto
  ultimately obtain c where c: "flit q = Fin c" "1 / 2 \<le> c" "c \<le> q + 1 / 2 ^ 54"
    using flit_unit by blast
  show ?thesis
  proof (rule tp_index_in [OF assms(1,2) c(1)])
    show "c \<le> 992 / 1000" using c(3) q(3) by simp
    show "1 / 2 \<le> c"
      by (rule c(2))
  qed
qed

section \<open>Facts: sorting\<close>

lemma mset_float_insert: "mset (float_insert x ys) = add_mset x (mset ys)"
  by (induction ys) simp_all

lemma mset_sort_Float64s: "mset (sort_Float64s xs) = mset xs"
  by (induction xs) (simp_all add: sort_Float64s_def mset_float_insert)

lemma length_sort_Float64s [simp]: "length (sort_Float64s xs) = length xs"
  by (metis mset_sort_Float64s size_mset)

lemma set_sort_Float64s [simp]: "set (sort_Float64s xs) = set xs"
  by (metis mset_sort_Float64s set_mset_mset)

lemma set_float_insert: "set (float_insert x ys) = insert x (set ys)"
  by (metis list.set(2) mset.simps(2) mset_float_insert set_mset_mset)

lemma sorted_float_insert:
  assumes "sorted_wrt (\<le>) ys" "\<not> is_nan x" "\<forall>y \<in> set ys. \<not> is_nan y"
  shows "sorted_wrt (\<le>) (float_insert x ys)"
  using assms
proof (induction ys)
  case (Cons y ys)
  show ?case
  proof (cases "float_less y x")
    case True
    then have "y \<le> x" using Cons.prems by (auto simp: float_less_def f64_less_imp_le)
    with Cons True show ?thesis by (auto simp: set_float_insert)
  next
    case False
    then have "x \<le> y" using Cons.prems by (auto simp: float_less_def f64_not_less)
    with Cons False show ?thesis by (auto dest: f64_le_trans)
  qed
qed (simp add: f64_le_refl)

lemma sorted_sort_Float64s: "\<forall>x \<in> set xs. \<not> is_nan x \<Longrightarrow> sorted_wrt (\<le>) (sort_Float64s xs)"
proof (induction xs)
  case (Cons x xs)
  then have "sorted_wrt (\<le>) (float_insert x (sort_Float64s xs))" by (intro sorted_float_insert) simp_all
  then show ?case by (simp add: sort_Float64s_def)
qed (simp add: sort_Float64s_def)

text \<open>
  The element at position \<open>i\<close> of the sorted list: at least \<open>i + 1\<close> values are not above it, at least
  \<open>n - i\<close> not below it.
\<close>

definition has_rank :: "f64 list \<Rightarrow> int \<Rightarrow> f64 \<Rightarrow> bool" where
  "has_rank vals i v \<longleftrightarrow> v \<in> set vals \<and> i < int (length (filter (\<lambda>x. x \<le> v) vals)) \<and>
     int (length vals) - i \<le> int (length (filter (\<lambda>x. v \<le> x) vals))"

lemma rank_sorted:
  assumes "sorted_wrt (\<le>) (xs :: f64 list)" "\<forall>x \<in> set xs. \<not> is_nan x" "i < length xs"
  shows "i < length (filter (\<lambda>x. x \<le> xs ! i) xs)" "length xs - i \<le> length (filter (\<lambda>x. xs ! i \<le> x) xs)"
proof -
  have le: "xs ! a \<le> xs ! b" if "a \<le> b" "b < length xs" for a b
    using assms that by (cases "a = b") (auto simp: sorted_wrt_iff_nth_less f64_le_refl)
  have "filter (\<lambda>x. x \<le> xs ! i) (take (Suc i) xs) = take (Suc i) xs"
    using le assms(3) by (auto simp: filter_id_conv in_set_conv_nth)
  then have "length (take (Suc i) xs) \<le> length (filter (\<lambda>x. x \<le> xs ! i) (take (Suc i) xs @ drop (Suc i) xs))"
    unfolding filter_append by simp
  then show "i < length (filter (\<lambda>x. x \<le> xs ! i) xs)" using assms(3) by simp
  have "filter (\<lambda>x. xs ! i \<le> x) (drop i xs) = drop i xs"
    using le assms(3) by (auto simp: filter_id_conv in_set_conv_nth)
  then have "length (drop i xs) \<le> length (filter (\<lambda>x. xs ! i \<le> x) (take i xs @ drop i xs))"
    unfolding filter_append by simp
  then show "length xs - i \<le> length (filter (\<lambda>x. xs ! i \<le> x) xs)" by simp
qed

lemma has_rank_sort:
  assumes "\<forall>x \<in> set xs. \<not> is_nan x" "0 \<le> i" "i < int (length xs)"
  shows "\<exists>v. float_index (sort_Float64s xs) i = Inr v \<and> has_rank xs i v"
proof -
  let ?s = "sort_Float64s xs"
  have f: "length (filter P ?s) = length (filter P xs)" for P
    by (metis mset_filter mset_sort_Float64s size_mset)
  have i: "nat i < length ?s" using assms(2,3) by simp
  have run: "float_index ?s i = Inr (?s ! nat i)" using assms(2,3) by (simp add: float_index_def)
  have m: "?s ! nat i \<in> set xs" using nth_mem [OF i] by simp
  have nn: "\<forall>x \<in> set ?s. \<not> is_nan x" using assms(1) by simp
  have r1: "nat i < length (filter (\<lambda>x. x \<le> ?s ! nat i) xs)"
    using rank_sorted(1) [OF sorted_sort_Float64s [OF assms(1)] nn i] unfolding f .
  have r2: "length xs - nat i \<le> length (filter (\<lambda>x. ?s ! nat i \<le> x) xs)"
    using rank_sorted(2) [OF sorted_sort_Float64s [OF assms(1)] nn i] unfolding f length_sort_Float64s .
  have "has_rank xs i (?s ! nat i)" unfolding has_rank_def using m r1 r2 assms(2,3) by (intro conjI) linarith+
  with run show ?thesis by blast
qed

text \<open>The statistics of the values of a round, as they are meant.\<close>

definition describes :: "f64 list \<Rightarrow> poly_stats \<Rightarrow> bool" where
  "describes vals st \<longleftrightarrow>
     st_sum st = (if length vals = 1 then hd vals else foldl (+) 0 vals) \<and>
     st_avg st = (if length vals = 1 then hd vals else fdiv (st_sum st) (f64_of_int (int (length vals)))) \<and>
     st_max st \<in> set vals \<and> (\<forall>v \<in> set vals. v \<le> st_max st) \<and> st_min st \<in> set vals \<and> (\<forall>v \<in> set vals. st_min st \<le> v) \<and>
     (if length vals = 1 then {st_tp50 st, st_tp90 st, st_tp99 st} = set vals
      else has_rank vals (tp_index (length vals) (1/2)) (st_tp50 st) \<and> has_rank vals (tp_index (length vals) (95/100)) (st_tp90 st) \<and>
        has_rank vals (tp_index (length vals) (99/100)) (st_tp99 st))"

lemma statistics_describe:
  assumes "vals \<noteq> []" "length vals < 2 ^ 40" "\<forall>x \<in> set vals. \<not> is_nan x"
  shows "\<exists>st. poly_statistics vals = Inr st \<and> describes vals st"
proof (cases "length vals = 1")
  case True
  then obtain v where "vals = [v]" by (auto simp: length_Suc_conv)
  then show ?thesis using assms(3) by (simp add: poly_statistics_def describes_def f64_le_refl Let_def)
next
  case False
  let ?n = "length vals"
  have n: "2 \<le> ?n" using assms(1) False by (cases vals rule: remdups_adj.cases) auto
  note rank = has_rank_sort [OF assms(3)]
  obtain mx where mx: "float_index (sort_Float64s vals) (int ?n - 1) = Inr mx" "has_rank vals (int ?n - 1) mx" using rank [of "int ?n - 1"] n assms(1) by auto
  obtain mn where mn: "float_index (sort_Float64s vals) 0 = Inr mn" "has_rank vals 0 mn" using rank [of 0] n assms(1) by auto
  have tp: "\<exists>v. float_index (sort_Float64s vals) (tp_index ?n q) = Inr v \<and> has_rank vals (tp_index ?n q) v"
    if "q \<in> {1 / 2, 95 / 100, 99 / 100}" for q
    using rank tp_indices [OF n assms(2) that] by blast
  obtain a b c where tps: "float_index (sort_Float64s vals) (tp_index ?n (1/2)) = Inr a" "has_rank vals (tp_index ?n (1/2)) a"
    "float_index (sort_Float64s vals) (tp_index ?n (95/100)) = Inr b" "has_rank vals (tp_index ?n (95/100)) b"
    "float_index (sort_Float64s vals) (tp_index ?n (99/100)) = Inr c" "has_rank vals (tp_index ?n (99/100)) c"
    using tp [of "1/2"] tp [of "95/100"] tp [of "99/100"] by auto
  have full: "(\<forall>x \<in> set vals. P x)" if "?n \<le> length (filter P vals)" for P
    using that by (metis filter_id_conv length_filter_le le_antisym length_filter_less linorder_not_less)
  have "\<forall>v \<in> set vals. v \<le> mx" using mx(2) by (intro full) (simp add: has_rank_def)
  moreover have "\<forall>v \<in> set vals. mn \<le> v" using mn(2) by (intro full) (simp add: has_rank_def)
  moreover have "mx \<in> set vals" "mn \<in> set vals" using mx(2) mn(2) by (simp_all add: has_rank_def)
  moreover have "poly_statistics vals = Inr \<lparr>st_sum = foldl (+) 0 vals, st_avg = fdiv (foldl (+) 0 vals) (f64_of_int (int ?n)),
      st_max = mx, st_min = mn, st_tp50 = a, st_tp90 = b, st_tp99 = c\<rparr>"
    using False mx(1) mn(1) tps(1,3,5) by (simp add: poly_statistics_def Let_def)
  ultimately show ?thesis using False tps(2,4,6) by (simp add: describes_def)
qed

section \<open>Facts: a turn\<close>

text \<open>A sample that is pushed.\<close>

definition poly_sample :: "poly_cfg \<Rightarrow> string \<Rightarrow> string \<Rightarrow> string \<Rightarrow> f64 \<Rightarrow> json_meta_data" where
  "poly_sample cfg endNew metric m v = MakeMetaData (pc_Now cfg) endNew metric (''method='' @ m) (VFloat v) ''GAUGE'' [PolyTimeStep]"

definition pushed :: "poly_out \<Rightarrow> json_meta_data list" where
  "pushed out = rev (MetaDataQueue (po_Sender out))"

lemma pushed_push_value [simp]: "pushed (push_value cfg e metric m v out) = pushed out @ [poly_sample cfg e metric m v]"
  by (simp add: pushed_def push_value_def Push_def sdk_PushFront_def poly_sample_def)

lemma pushed_values:
  "pushed (foldl (\<lambda>out (m, v). push_value cfg e metric m v out) out mvs) = pushed out @ map (\<lambda>(m, v). poly_sample cfg e metric m v) mvs"
  by (induction mvs arbitrary: out) auto

lemma pushed_others [simp]:
  "pushed (PushToProme cfg metric polyName m out) = pushed out"
  "pushed (push_kafka_all cfg a b c d st out) = pushed out"
  "pushed (RpcCallNumpApi cfg metric polyName l out) = pushed out"
  by (auto simp: PushToProme_def pushed_def Let_def push_kafka_all_def AsyncPushKafka_def RpcCallNumpApi_def split: prod.split)

definition history_key :: "string \<Rightarrow> string \<Rightarrow> string \<Rightarrow> string" where
  "history_key endNew metric k = endNew @ metric @ ''method='' @ k"

text \<open>The two samples of the change of a value since \<open>h\<close> was the history.\<close>

definition change_samples :: "poly_cfg \<Rightarrow> string \<Rightarrow> string \<Rightarrow> (string \<Rightarrow> f64 option) \<Rightarrow> string \<times> f64 \<Rightarrow> json_meta_data list" where
  "change_samples cfg e metric h = (\<lambda>(k, v).
     [poly_sample cfg e (metric @ ''_rate'') k (fst (rate_of (h (history_key e metric k)) v)),
      poly_sample cfg e (metric @ ''_delta'') k (snd (rate_of (h (history_key e metric k)) v))])"

lemma history_key_inj: "history_key e metric k = history_key e metric k' \<longleftrightarrow> k = k'"
  by (simp add: history_key_def)

lemma change_step_eq:
  "change_step cfg e metric (k, v) (s, prome, out) =
     (let r = rate_of (gget (PolyHistoryDataMap s) (history_key e metric k)) v
      in (s\<lparr>PolyHistoryDataMap := gput (history_key e metric k) v (PolyHistoryDataMap s)\<rparr>,
          gput (k @ ''_delta'') (snd r) (gput (k @ ''_rate'') (fst r) (gput k v prome)),
          push_value cfg e (metric @ ''_delta'') k (snd r) (push_value cfg e (metric @ ''_rate'') k (fst r) out)))"
  by (simp add: change_step_def history_key_def case_prod_beta Let_def)

lemma change_steps:
  assumes "distinct (map fst kvs)"
  shows "\<exists>s' prome' out'. foldl (\<lambda>a kv. change_step cfg e metric kv a) (s, prome, out) kvs = (s', prome', out') \<and>
    pushed out' = pushed out @ concat (map (change_samples cfg e metric (gget (PolyHistoryDataMap s))) kvs) \<and>
    PolyWorkerQueueMap s' = PolyWorkerQueueMap s \<and>
    (\<forall>k v. (k, v) \<in> set kvs \<longrightarrow> gget (PolyHistoryDataMap s') (history_key e metric k) = Some v) \<and>
    (\<forall>key. key \<notin> history_key e metric ` fst ` set kvs \<longrightarrow> gget (PolyHistoryDataMap s') key = gget (PolyHistoryDataMap s) key)"
  using assms
proof (induction kvs arbitrary: s prome out)
  case (Cons kv kvs)
  obtain k v where kv: "kv = (k, v)" by force
  define r where "r = rate_of (gget (PolyHistoryDataMap s) (history_key e metric k)) v"
  define s1 where "s1 = s\<lparr>PolyHistoryDataMap := gput (history_key e metric k) v (PolyHistoryDataMap s)\<rparr>"
  define out1 where "out1 = push_value cfg e (metric @ ''_delta'') k (snd r) (push_value cfg e (metric @ ''_rate'') k (fst r) out)"
  obtain prome1 where step: "change_step cfg e metric kv (s, prome, out) = (s1, prome1, out1)"
    by (simp add: change_step_eq kv s1_def out1_def r_def Let_def)
  have p1: "pushed out1 = pushed out @ change_samples cfg e metric (gget (PolyHistoryDataMap s)) kv"
    by (simp add: out1_def change_samples_def kv r_def)
  have d: "distinct (map fst kvs)" "k \<notin> fst ` set kvs" using Cons.prems by (simp_all add: kv)
  have "change_samples cfg e metric (gget (PolyHistoryDataMap s1)) kv' = change_samples cfg e metric (gget (PolyHistoryDataMap s)) kv'"
    if "kv' \<in> set kvs" for kv'
  proof -
    have "fst kv' \<noteq> k" using d(2) that by auto
    then show ?thesis by (auto simp: change_samples_def s1_def history_key_inj split: prod.split)
  qed
  then have same: "map (change_samples cfg e metric (gget (PolyHistoryDataMap s1))) kvs = map (change_samples cfg e metric (gget (PolyHistoryDataMap s))) kvs"
    by simp
  obtain s' prome' out' where ih: "foldl (\<lambda>a kv. change_step cfg e metric kv a) (s1, prome1, out1) kvs = (s', prome', out')"
    "pushed out' = pushed out1 @ concat (map (change_samples cfg e metric (gget (PolyHistoryDataMap s1))) kvs)"
    "PolyWorkerQueueMap s' = PolyWorkerQueueMap s1"
    "\<forall>k v. (k, v) \<in> set kvs \<longrightarrow> gget (PolyHistoryDataMap s') (history_key e metric k) = Some v"
    "\<forall>key. key \<notin> history_key e metric ` fst ` set kvs \<longrightarrow> gget (PolyHistoryDataMap s') key = gget (PolyHistoryDataMap s1) key"
    using Cons.IH [OF d(1)] by blast
  have k: "gget (PolyHistoryDataMap s') (history_key e metric k) = Some v"
    using ih(5) d(2) by (auto simp: s1_def history_key_inj image_iff)
  have "foldl (\<lambda>a kv. change_step cfg e metric kv a) (s, prome, out) (kv # kvs) = (s', prome', out')"
    using ih(1) step by simp
  moreover have "pushed out' = pushed out @ concat (map (change_samples cfg e metric (gget (PolyHistoryDataMap s))) (kv # kvs))"
    unfolding ih(2) same p1 by simp
  moreover have "PolyWorkerQueueMap s' = PolyWorkerQueueMap s" using ih(3) by (simp add: s1_def)
  moreover have "\<forall>k v. (k, v) \<in> set (kv # kvs) \<longrightarrow> gget (PolyHistoryDataMap s') (history_key e metric k) = Some v"
    using ih(4) k by (simp add: kv)
  moreover have "\<forall>key. key \<notin> history_key e metric ` fst ` set (kv # kvs) \<longrightarrow> gget (PolyHistoryDataMap s') key = gget (PolyHistoryDataMap s) key"
    using ih(5) by (simp add: kv s1_def)
  ultimately show ?case by blast
qed simp

lemma poly_parts_key:
  assumes "CHR ''|'' \<notin> set name" "CHR ''|'' \<notin> set metric" "ty \<in> {AmsTagPolyType, FalconGroupPolyType}"
  shows "poly_parts (poly_key ty name metric) = Inr (ty, name, metric) \<and> hd (split_str poly_SEP (poly_key ty name metric)) = ty"
proof -
  have "CHR ''|'' \<notin> set ty" using assms(3) by (auto simp: AmsTagPolyType_def FalconGroupPolyType_def)
  then have "split_str poly_SEP (poly_key ty name metric) = [ty, name, metric]"
    using split_str_join [of "[ty, name, metric]" "CHR ''|''" "''|''"] assms(1,2)
    by (simp add: poly_key_def poly_SEP_def)
  then show ?thesis by (simp add: poly_parts_def)
qed

lemma poly_turn:
  fixes s :: poly_state
  assumes w: "gget (PolyWorkerQueueMap s) (poly_key ty name metric) = Some w" and q: "pw_Queue w \<noteq> []" "int (length (pw_Queue w)) \<le> MaxQueueSize"
    and nn: "\<forall>i \<in> set (pw_Queue w). \<not> is_nan (pq_Value i)"
    and nm: "CHR ''|'' \<notin> set name" "CHR ''|'' \<notin> set metric" "ty \<in> {AmsTagPolyType, FalconGroupPolyType}"
    and rng: "\<And>m. mset (pc_Range cfg m) = mset m"
  shows "\<exists>st s' out'. poly_WorkerRun cfg (poly_key ty name metric) s out = Inr (s', out') \<and>
    describes (map pq_Value (rev (pw_Queue w))) st \<and>
    gget (PolyWorkerQueueMap s') (poly_key ty name metric) = Some (w\<lparr>pw_Queue := []\<rparr>) \<and>
    pushed out' = pushed out @ map (\<lambda>(m, v). poly_sample cfg (underscored (ty @ ''_poly_'' @ name)) metric m v) (method_values st) @
      concat (map (change_samples cfg (underscored (ty @ ''_poly_'' @ name)) metric (gget (PolyHistoryDataMap s)))
        (pc_Range cfg (method_values st))) \<and>
    (\<forall>(k, v) \<in> set (method_values st). gget (PolyHistoryDataMap s') (history_key (underscored (ty @ ''_poly_'' @ name)) metric k) = Some v)"
proof -
  define e where "e = underscored (ty @ ''_poly_'' @ name)"
  define item where "item = rev (pw_Queue w)"
  have pop: "SafeList_PopBackBy (int (length (pw_Queue w))) (pw_Queue w) = Inr (item, [])"
    using q(1) by (simp add: SafeList_PopBackBy_def pop_loop_eq item_def Let_def)
  have "length (map pq_Value item) < 2 ^ 40" using q(2) by (simp add: item_def MaxQueueSize_def)
  then obtain st where st: "poly_statistics (map pq_Value item) = Inr st" "describes (map pq_Value item) st"
    using statistics_describe [of "map pq_Value item"] q(1) nn by (auto simp: item_def)
  define s1 where "s1 = s\<lparr>PolyWorkerQueueMap := gput (poly_key ty name metric) (w\<lparr>pw_Queue := []\<rparr>) (PolyWorkerQueueMap s)\<rparr>"
  define out1 where "out1 = foldl (\<lambda>out (m, v). push_value cfg e metric m v out) out (method_values st)"
  have keys: "mset (map fst (pc_Range cfg (method_values st))) = mset (map fst (method_values st))"
    by (simp add: rng)
  have "distinct (map fst (method_values st))" by (simp add: method_values_def)
  then have d: "distinct (map fst (pc_Range cfg (method_values st)))" using keys mset_eq_imp_distinct_iff by blast
  obtain s2 prome out2 where c: "foldl (\<lambda>a kv. change_step cfg e metric kv a) (s1, [], out1) (pc_Range cfg (method_values st)) = (s2, prome, out2)"
    "pushed out2 = pushed out1 @ concat (map (change_samples cfg e metric (gget (PolyHistoryDataMap s1))) (pc_Range cfg (method_values st)))"
    "PolyWorkerQueueMap s2 = PolyWorkerQueueMap s1"
    "\<forall>k v. (k, v) \<in> set (pc_Range cfg (method_values st)) \<longrightarrow> gget (PolyHistoryDataMap s2) (history_key e metric k) = Some v"
    using change_steps [OF d] by blast
  have sets: "set (pc_Range cfg (method_values st)) = set (method_values st)" by (metis rng set_mset_mset)
  define out3 where "out3 = RpcCallNumpApi cfg metric name (map (\<lambda>i. (pq_EndPoint i, pq_Value i)) item)
      (push_kafka_all cfg ty name metric (foldl sing_add [] item) st (if pc_PromeEnabled cfg then PushToProme cfg metric name prome out2 else out2))"
  have "push_results cfg (poly_key ty name metric) item st s1 out = Inr (s2, out3)"
    using poly_parts_key [OF nm] c(1) [unfolded e_def out1_def] by (simp add: push_results_def out3_def Let_def)
  then have run: "poly_WorkerRun cfg (poly_key ty name metric) s out = Inr (s2, out3)"
    using w pop st(1) q(1) poly_parts_key [OF nm] nm(3)
    by (simp add: poly_WorkerRun_def GeneralPolyMethods_def s1_def [symmetric] item_def [symmetric] Let_def) (simp add: item_def)
  have "pushed out3 = pushed out2" by (simp add: out3_def)
  then have p: "pushed out3 = pushed out @ map (\<lambda>(m, v). poly_sample cfg e metric m v) (method_values st) @
      concat (map (change_samples cfg e metric (gget (PolyHistoryDataMap s))) (pc_Range cfg (method_values st)))"
    by (simp add: c(2) out1_def pushed_values s1_def)
  have "gget (PolyWorkerQueueMap s2) (poly_key ty name metric) = Some (w\<lparr>pw_Queue := []\<rparr>)" by (simp add: c(3) s1_def)
  then show ?thesis using run st(2) p c(4) unfolding sets e_def [symmetric] item_def [symmetric] by blast
qed

section \<open>Facts: receiving\<close>

definition for_worker :: "string \<Rightarrow> poly_request list \<Rightarrow> poly_request list" where
  "for_worker name items = filter (\<lambda>i. pq_PolyName i = name) items"

lemma update_items_eq: "update_items (map Some items) rs = Inr (foldl (\<lambda>rs i. update_one i rs) rs items)"
  by (induction items arbitrary: rs) simp_all

lemma update_one_known:
  assumes "gget (PolyWorkerQueueMap s) (pq_PolyName i) = Some w"
  shows "\<exists>s' w'. update_one i (reply, s) = (reply\<lparr>rs_Total := rs_Total reply + 1\<rparr>, s') \<and>
    gget (PolyWorkerQueueMap s') = (gget (PolyWorkerQueueMap s))(pq_PolyName i \<mapsto> w') \<and>
    pw_Queue w' = (if MaxQueueSize \<le> int (length (pw_Queue w)) then pw_Queue w else i # pw_Queue w)"
  using assms
  by (auto simp: update_one_def Let_def SafeListLimited_PushFront_def SafeList_PushFront_def)

lemma update_one_unknown:
  "gget (PolyWorkerQueueMap s) (pq_PolyName i) = None \<Longrightarrow>
    update_one i (reply, s) = (reply\<lparr>rs_ErrInvalid := rs_ErrInvalid reply + 1\<rparr>, s)"
  by (simp add: update_one_def)

definition queue_at :: "poly_state \<Rightarrow> string \<Rightarrow> poly_request list option" where
  "queue_at s name = map_option pw_Queue (gget (PolyWorkerQueueMap s) name)"

lemma update_all:
  assumes "\<forall>name q. queue_at s name = Some q \<longrightarrow> int (length q + length (for_worker name items)) \<le> MaxQueueSize"
  shows "\<exists>reply' s'. foldl (\<lambda>rs i. update_one i rs) (reply, s) items = (reply', s') \<and>
    rs_Total reply' = rs_Total reply + int (length (filter (\<lambda>i. queue_at s (pq_PolyName i) \<noteq> None) items)) \<and>
    rs_ErrInvalid reply' = rs_ErrInvalid reply + int (length (filter (\<lambda>i. queue_at s (pq_PolyName i) = None) items)) \<and>
    (\<forall>name. queue_at s' name = map_option (\<lambda>q. rev (for_worker name items) @ q) (queue_at s name))"
  using assms
proof (induction items arbitrary: reply s)
  case Nil
  then show ?case by (simp add: for_worker_def option.map_ident)
next
  case (Cons i items)
  show ?case
  proof (cases "gget (PolyWorkerQueueMap s) (pq_PolyName i)")
    case None
    have "length (for_worker name items) \<le> length (for_worker name (i # items))" for name by (simp add: for_worker_def)
    then have "\<forall>name q. queue_at s name = Some q \<longrightarrow> int (length q + length (for_worker name items)) \<le> MaxQueueSize"
      using Cons.prems by (meson add_left_mono int_ops(5) of_nat_mono order_trans)
    from Cons.IH [OF this, of "reply\<lparr>rs_ErrInvalid := rs_ErrInvalid reply + 1\<rparr>"]
    obtain reply' s' where ih: "foldl (\<lambda>rs i. update_one i rs) (reply\<lparr>rs_ErrInvalid := rs_ErrInvalid reply + 1\<rparr>, s) items = (reply', s')"
      "rs_Total reply' = rs_Total reply + int (length (filter (\<lambda>i. queue_at s (pq_PolyName i) \<noteq> None) items))"
      "rs_ErrInvalid reply' = rs_ErrInvalid reply + 1 + int (length (filter (\<lambda>i. queue_at s (pq_PolyName i) = None) items))"
      "\<forall>name. queue_at s' name = map_option (\<lambda>q. rev (for_worker name items) @ q) (queue_at s name)" by auto
    have n: "queue_at s (pq_PolyName i) = None" using None by (simp add: queue_at_def)
    have "queue_at s' name = map_option (\<lambda>q. rev (for_worker name (i # items)) @ q) (queue_at s name)" for name
      using ih(4) n by (cases "pq_PolyName i = name") (auto simp: for_worker_def)
    then show ?thesis using ih(1,2,3) n update_one_unknown [OF None] by simp
  next
    case (Some w)
    obtain s1 w' where s1: "update_one i (reply, s) = (reply\<lparr>rs_Total := rs_Total reply + 1\<rparr>, s1)"
      "gget (PolyWorkerQueueMap s1) = (gget (PolyWorkerQueueMap s))(pq_PolyName i \<mapsto> w')"
      "pw_Queue w' = (if MaxQueueSize \<le> int (length (pw_Queue w)) then pw_Queue w else i # pw_Queue w)"
      using update_one_known [OF Some] by blast
    have q: "queue_at s (pq_PolyName i) = Some (pw_Queue w)" using Some by (simp add: queue_at_def)
    have "int (length (pw_Queue w)) < MaxQueueSize" using Cons.prems q by (fastforce simp: for_worker_def)
    then have w': "pw_Queue w' = i # pw_Queue w" using s1(3) by simp
    have q1: "queue_at s1 name = (if name = pq_PolyName i then Some (i # pw_Queue w) else queue_at s name)" for name
      by (simp add: queue_at_def s1(2) w')
    have none: "queue_at s1 name = None \<longleftrightarrow> queue_at s name = None" for name by (simp add: q1 q)
    have "int (length q' + length (for_worker name items)) \<le> MaxQueueSize" if q': "queue_at s1 name = Some q'" for name q'
    proof (cases "name = pq_PolyName i")
      case True
      then have "q' = i # pw_Queue w" using q' by (simp add: q1)
      moreover have "int (length (pw_Queue w) + length (for_worker name (i # items))) \<le> MaxQueueSize" using Cons.prems q True by blast
      ultimately show ?thesis using True by (simp add: for_worker_def)
    next
      case False
      then have "queue_at s name = Some q'" using q' by (simp add: q1)
      then have "int (length q' + length (for_worker name (i # items))) \<le> MaxQueueSize" using Cons.prems by blast
      then show ?thesis using False by (simp add: for_worker_def)
    qed
    then have "\<forall>name q. queue_at s1 name = Some q \<longrightarrow> int (length q + length (for_worker name items)) \<le> MaxQueueSize" by blast
    from Cons.IH [OF this, of "reply\<lparr>rs_Total := rs_Total reply + 1\<rparr>"]
    obtain reply' s' where ih: "foldl (\<lambda>rs i. update_one i rs) (reply\<lparr>rs_Total := rs_Total reply + 1\<rparr>, s1) items = (reply', s')"
      "rs_Total reply' = rs_Total reply + 1 + int (length (filter (\<lambda>i. queue_at s (pq_PolyName i) \<noteq> None) items))"
      "rs_ErrInvalid reply' = rs_ErrInvalid reply + int (length (filter (\<lambda>i. queue_at s (pq_PolyName i) = None) items))"
      "\<forall>name. queue_at s' name = map_option (\<lambda>q. rev (for_worker name items) @ q) (queue_at s1 name)" by (auto simp: none)
    have "queue_at s' name = map_option (\<lambda>q. rev (for_worker name (i # items)) @ q) (queue_at s name)" for name
      using ih(4) q by (cases "pq_PolyName i = name") (auto simp: for_worker_def q1)
    then show ?thesis using ih(1,2,3) s1(1) q by simp
  qed
qed

section \<open>Properties\<close>

text \<open>
  a batch of values is put into the queues of its workers in order, while they have room, and the
  reply counts those that have a worker and those that have none.
\<close>

theorem update_queues:
  assumes "items \<noteq> []"
    and "\<forall>name q. queue_at s name = Some q \<longrightarrow> int (length q + length (for_worker name items)) \<le> MaxQueueSize"
  shows "\<exists>reply' s'. Polymetric_Update (map Some items) reply s = Inr (reply', s') \<and>
    rs_Total reply' = rs_Total reply + int (length (filter (\<lambda>i. queue_at s (pq_PolyName i) \<noteq> None) items)) \<and>
    rs_ErrInvalid reply' = int (length (filter (\<lambda>i. queue_at s (pq_PolyName i) = None) items)) \<and>
    (\<forall>name. queue_at s' name = map_option (\<lambda>q. rev (for_worker name items) @ q) (queue_at s name))"
  using update_all [OF assms(2), of "reply\<lparr>rs_ErrInvalid := 0\<rparr>"] assms(1)
  by (auto simp: Polymetric_Update_def update_items_eq)

definition demo_value :: "string \<Rightarrow> string \<Rightarrow> f64 \<Rightarrow> poly_request" where
  "demo_value name host v = \<lparr>pq_PolyName = name, pq_EndPoint = host, pq_Type = ''GAUGE'', pq_Value = v\<rparr>"

definition demo_workers :: poly_state where
  "demo_workers = no_poly\<lparr>PolyWorkerQueueMap := [(''ams_tag||web||qps'', \<lparr>pw_Queue = [], pw_Started = False\<rparr>)]\<rparr>"

theorem update_queues_witness:
  "\<exists>reply' s'. Polymetric_Update [Some (demo_value ''ams_tag||web||qps'' ''h1'' 0), Some (demo_value ''no such'' ''h1'' 0)]
      \<lparr>rs_Msg = '''', rs_Total = 0, rs_ErrInvalid = 0, rs_Latency = 0\<rparr> demo_workers = Inr (reply', s') \<and>
    rs_Total reply' = 1 \<and> rs_ErrInvalid reply' = 1 \<and>
    queue_at s' ''ams_tag||web||qps'' = Some [demo_value ''ams_tag||web||qps'' ''h1'' 0]"
proof -
  let ?items = "[demo_value ''ams_tag||web||qps'' ''h1'' 0, demo_value ''no such'' ''h1'' 0]"
  have q: "queue_at demo_workers name = (if name = ''ams_tag||web||qps'' then Some [] else None)" for name
    by (simp add: queue_at_def demo_workers_def)
  have "\<forall>name q. queue_at demo_workers name = Some q \<longrightarrow> int (length q + length (for_worker name ?items)) \<le> MaxQueueSize"
    by (simp add: q for_worker_def demo_value_def MaxQueueSize_def)
  from update_queues [OF _ this, of "\<lparr>rs_Msg = '''', rs_Total = 0, rs_ErrInvalid = 0, rs_Latency = 0\<rparr>"]
  obtain reply' s' where r: "Polymetric_Update (map Some ?items) \<lparr>rs_Msg = '''', rs_Total = 0, rs_ErrInvalid = 0, rs_Latency = 0\<rparr> demo_workers = Inr (reply', s')"
    "rs_Total reply' = int (length (filter (\<lambda>i. queue_at demo_workers (pq_PolyName i) \<noteq> None) ?items))"
    "rs_ErrInvalid reply' = int (length (filter (\<lambda>i. queue_at demo_workers (pq_PolyName i) = None) ?items))"
    "\<forall>name. queue_at s' name = map_option (\<lambda>q. rev (for_worker name ?items) @ q) (queue_at demo_workers name)" by auto
  have "queue_at s' ''ams_tag||web||qps'' = Some [demo_value ''ams_tag||web||qps'' ''h1'' 0]"
    unfolding r(4) [rule_format] q by (simp add: for_worker_def demo_value_def)
  then show ?thesis using r(1,2,3) by (simp add: q demo_value_def)
qed

text \<open>a value that finds the queue of its worker full is dropped and counted as taken.\<close>

theorem full_queue_counted:
  assumes "queue_at s (pq_PolyName i) = Some q" "MaxQueueSize \<le> int (length q)"
  shows "\<exists>reply' s'. Polymetric_Update [Some i] reply s = Inr (reply', s') \<and> rs_Total reply' = rs_Total reply + 1 \<and>
    rs_ErrInvalid reply' = 0 \<and> queue_at s' (pq_PolyName i) = Some q"
proof -
  obtain w where w: "gget (PolyWorkerQueueMap s) (pq_PolyName i) = Some w" "pw_Queue w = q"
    using assms(1) by (auto simp: queue_at_def)
  from update_one_known [OF w(1), of "reply\<lparr>rs_ErrInvalid := 0\<rparr>"] obtain s' w' where
    "update_one i (reply\<lparr>rs_ErrInvalid := 0\<rparr>, s) = (reply\<lparr>rs_ErrInvalid := 0, rs_Total := rs_Total reply + 1\<rparr>, s')"
    "gget (PolyWorkerQueueMap s') = (gget (PolyWorkerQueueMap s))(pq_PolyName i \<mapsto> w')" "pw_Queue w' = q"
    using w(2) assms(2) by auto
  then show ?thesis by (simp add: Polymetric_Update_def queue_at_def)
qed

theorem full_queue_counted_witness:
  "\<exists>reply' s'. Polymetric_Update [Some (demo_value ''p'' ''h1'' 0)] \<lparr>rs_Msg = '''', rs_Total = 0, rs_ErrInvalid = 0, rs_Latency = 0\<rparr>
      (no_poly\<lparr>PolyWorkerQueueMap := [(''p'', \<lparr>pw_Queue = replicate 400000 (demo_value ''p'' ''h0'' 0), pw_Started = True\<rparr>)]\<rparr>) = Inr (reply', s') \<and>
    rs_Total reply' = 1 \<and> queue_at s' ''p'' = Some (replicate 400000 (demo_value ''p'' ''h0'' 0))"
proof -
  define q where "q = replicate 400000 (demo_value ''p'' ''h0'' 0)"
  define s where "s = no_poly\<lparr>PolyWorkerQueueMap := [(''p'', \<lparr>pw_Queue = q, pw_Started = True\<rparr>)]\<rparr>"
  have "queue_at s (pq_PolyName (demo_value ''p'' ''h1'' 0)) = Some q" by (simp add: queue_at_def s_def demo_value_def)
  moreover have "MaxQueueSize \<le> int (length q)" by (simp add: q_def MaxQueueSize_def)
  ultimately show ?thesis
    using full_queue_counted [of s "demo_value ''p'' ''h1'' 0" q "\<lparr>rs_Msg = '''', rs_Total = 0, rs_ErrInvalid = 0, rs_Latency = 0\<rparr>"]
    unfolding q_def [symmetric] s_def [symmetric] by (auto simp: demo_value_def)
qed


definition demo_cfg :: poly_cfg where
  "demo_cfg = \<lparr>pc_Now = 100, pc_PromeEnabled = False, pc_NumpEnabled = False, pc_KafkaProducer = False, pc_Range = \<lambda>m. m,
     pc_Register = \<lambda>_ _. True\<rparr>"

definition no_out :: poly_out where
  "no_out = \<lparr>po_Sender = \<lparr>MetaDataQueue = [], Attempts = []\<rparr>, po_Prome = [], po_Kafka = [], po_Nump = []\<rparr>"

definition demo_worker :: "string \<Rightarrow> f64 \<Rightarrow> poly_state" where
  "demo_worker name v = no_poly\<lparr>PolyWorkerQueueMap := [(name, \<lparr>pw_Queue = [demo_value name ''h1'' v], pw_Started = True\<rparr>)]\<rparr>"


text \<open>
  groups whose names differ only in dots and underscores share one endpoint and one history:
  after a turn for one of them the history of the other holds a value of the first, against which its
  next change is taken.
\<close>

theorem groups_share_history:
  assumes "gget (PolyWorkerQueueMap s) (poly_key ty name metric) = Some w" "pw_Queue w \<noteq> []" "int (length (pw_Queue w)) \<le> MaxQueueSize"
    and "\<forall>i \<in> set (pw_Queue w). \<not> is_nan (pq_Value i)"
    and "CHR ''|'' \<notin> set name" "CHR ''|'' \<notin> set metric" "ty \<in> {AmsTagPolyType, FalconGroupPolyType}"
    and "\<And>m. mset (pc_Range cfg m) = mset m" and "underscored name = underscored other"
  shows "\<exists>s' out' last. poly_WorkerRun cfg (poly_key ty name metric) s out = Inr (s', out') \<and> last \<in> pq_Value ` set (pw_Queue w) \<and>
    gget (PolyHistoryDataMap s') (history_key (underscored (ty @ ''_poly_'' @ other)) metric ''max'') = Some last"
proof -
  obtain st s' out' where t: "poly_WorkerRun cfg (poly_key ty name metric) s out = Inr (s', out')"
    "describes (map pq_Value (rev (pw_Queue w))) st"
    "\<forall>(k, v) \<in> set (method_values st). gget (PolyHistoryDataMap s') (history_key (underscored (ty @ ''_poly_'' @ name)) metric k) = Some v"
    using poly_turn [OF assms(1-8)] by blast
  have "underscored (ty @ ''_poly_'' @ other) = underscored (ty @ ''_poly_'' @ name)" using assms(9) by (simp add: underscored_def)
  moreover have "(''max'', st_max st) \<in> set (method_values st)" by (simp add: method_values_def)
  ultimately have "gget (PolyHistoryDataMap s') (history_key (underscored (ty @ ''_poly_'' @ other)) metric ''max'') = Some (st_max st)"
    using t(3) by fastforce
  moreover have "st_max st \<in> pq_Value ` set (pw_Queue w)" using t(2) by (simp add: describes_def)
  ultimately show ?thesis using t(1) by blast
qed

theorem groups_share_history_witness:
  "\<exists>s' out'. poly_WorkerRun demo_cfg ''ams_tag||a.b||qps'' (demo_worker ''ams_tag||a.b||qps'' (Fin 10)) no_out = Inr (s', out') \<and>
    gget (PolyHistoryDataMap s') (history_key (underscored ''ams_tag_poly_a_b'') ''qps'' ''max'') = Some (Fin 10)"
proof -
  let ?n = "''ams_tag||a.b||qps''"
  let ?w = "\<lparr>pw_Queue = [demo_value ?n ''h1'' (Fin 10)], pw_Started = True\<rparr>"
  have k: "poly_key AmsTagPolyType ''a.b'' ''qps'' = ?n" by (simp add: poly_key_def AmsTagPolyType_def poly_SEP_def)
  have w: "gget (PolyWorkerQueueMap (demo_worker ?n (Fin 10))) (poly_key AmsTagPolyType ''a.b'' ''qps'') = Some ?w"
    by (simp add: k demo_worker_def)
  have e: "AmsTagPolyType @ ''_poly_'' @ ''a_b'' = ''ams_tag_poly_a_b''" by (simp add: AmsTagPolyType_def)
  have h: "pw_Queue ?w \<noteq> []" "int (length (pw_Queue ?w)) \<le> MaxQueueSize" "\<forall>i \<in> set (pw_Queue ?w). \<not> is_nan (pq_Value i)"
    "CHR ''|'' \<notin> set ''a.b''" "CHR ''|'' \<notin> set ''qps''" "AmsTagPolyType \<in> {AmsTagPolyType, FalconGroupPolyType}"
    "\<And>m. mset (pc_Range demo_cfg m) = mset m" "underscored ''a.b'' = underscored ''a_b''"
    by (simp_all add: demo_value_def MaxQueueSize_def demo_cfg_def underscored_def)
  from groups_share_history [OF w h, of no_out] show ?thesis
    unfolding k e by (auto simp: demo_value_def)
qed

end
