(* ===== verification/Api_Db.thy ===== *)
theory Api_Db
  imports Falcon_Prelude Go_Strings "HOL-Library.State_Monad"
begin

text \<open>
  The database as the API server uses it through gorm: tables of rows with an automatic primary key
  and unique keys. A handler is a computation in the state monad; each statement has a number, and the
  environment says which of them fail because the server cannot be reached. A query into a struct takes
  the last of the rows that were found, and an error when there is none.
\<close>

section \<open>Tables\<close>

record db_state =
  Stmts :: nat

text \<open>Two rows clash when a unique key other than the primary key is the same in both.\<close>

record ('s, 'r) tbl =
  Rows :: "'s \<Rightarrow> 'r list"
  RowsTo :: "'r list \<Rightarrow> 's \<Rightarrow> 's"
  NextId :: "'s \<Rightarrow> int"
  NextTo :: "int \<Rightarrow> 's \<Rightarrow> 's"
  Key :: "'r \<Rightarrow> int"
  KeyTo :: "int \<Rightarrow> 'r \<Rightarrow> 'r"
  Clash :: "'r \<Rightarrow> 'r \<Rightarrow> bool"

definition unique_rows :: "('s, 'r) tbl \<Rightarrow> 'r list \<Rightarrow> bool" where
  "unique_rows t rs = (distinct (map (Key t) rs) \<and> sorted_wrt (\<lambda>a b. \<not> Clash t a b) rs)"

definition tick :: "'x db_state_scheme \<Rightarrow> 'x db_state_scheme" where
  "tick s = s\<lparr>Stmts := Stmts s + 1\<rparr>"

section \<open>Statements\<close>

definition db_down :: go_error where "db_down = Err ''connection refused''"
definition db_none :: go_error where "db_none = Err ''record not found''"
definition db_duplicate :: go_error where "db_duplicate = Err ''duplicate entry''"
definition db_range :: go_error where "db_range = Err ''out of range value''"
definition db_syntax :: go_error where "db_syntax = Err ''syntax error''"

definition found_one :: "(nat \<Rightarrow> bool) \<Rightarrow> ('x db_state_scheme, 'r) tbl \<Rightarrow> ('r \<Rightarrow> bool) \<Rightarrow> 'x db_state_scheme \<Rightarrow> 'r res" where
  "found_one fails t P s =
     (if fails (Stmts s) then Inl db_down
      else case filter P (Rows t s) of [] \<Rightarrow> Inl db_none | r # rs \<Rightarrow> Inr (last (r # rs)))"

definition find_one :: "(nat \<Rightarrow> bool) \<Rightarrow> ('x db_state_scheme, 'r) tbl \<Rightarrow> ('r \<Rightarrow> bool) \<Rightarrow> ('x db_state_scheme, 'r res) state" where
  "find_one fails t P = State (\<lambda>s. (found_one fails t P s, tick s))"

definition found_all :: "(nat \<Rightarrow> bool) \<Rightarrow> ('x db_state_scheme, 'r) tbl \<Rightarrow> ('r \<Rightarrow> bool) \<Rightarrow> 'x db_state_scheme \<Rightarrow> 'r list res" where
  "found_all fails t P s = (if fails (Stmts s) then Inl db_down else Inr (filter P (Rows t s)))"

definition find_all :: "(nat \<Rightarrow> bool) \<Rightarrow> ('x db_state_scheme, 'r) tbl \<Rightarrow> ('r \<Rightarrow> bool) \<Rightarrow> ('x db_state_scheme, 'r list res) state" where
  "find_all fails t P = State (\<lambda>s. (found_all fails t P s, tick s))"

text \<open>A row with a zero key gets the next one. Keys are unsigned. A refused row uses up its key too.\<close>

definition new_key :: "('x db_state_scheme, 'r) tbl \<Rightarrow> 'r \<Rightarrow> 'x db_state_scheme \<Rightarrow> int" where
  "new_key t r s = (if Key t r = 0 then NextId t s else Key t r)"

definition row_created :: "(nat \<Rightarrow> bool) \<Rightarrow> ('x db_state_scheme, 'r) tbl \<Rightarrow> 'r \<Rightarrow> 'x db_state_scheme \<Rightarrow> 'r res" where
  "row_created fails t r s =
     (let r = KeyTo t (new_key t r s) r in
      if fails (Stmts s) then Inl db_down
      else if Key t r \<le> 0 then Inl db_range
      else if unique_rows t (Rows t s @ [r]) then Inr r else Inl db_duplicate)"

definition create_row :: "(nat \<Rightarrow> bool) \<Rightarrow> ('x db_state_scheme, 'r) tbl \<Rightarrow> 'r \<Rightarrow> ('x db_state_scheme, 'r res) state" where
  "create_row fails t r = State (\<lambda>s.
     (row_created fails t r s,
      if fails (Stmts s) then tick s
      else (let s' = NextTo t (max (NextId t s) (new_key t r s + 1)) (tick s) in
            case row_created fails t r s of Inl e \<Rightarrow> s' | Inr r' \<Rightarrow> RowsTo t (Rows t s @ [r']) s')))"

text \<open>The number of rows that were changed.\<close>

definition rows_updated :: "(nat \<Rightarrow> bool) \<Rightarrow> ('x db_state_scheme, 'r) tbl \<Rightarrow> ('r \<Rightarrow> bool) \<Rightarrow> ('r \<Rightarrow> 'r) \<Rightarrow> 'x db_state_scheme \<Rightarrow> nat res" where
  "rows_updated fails t P f s =
     (if fails (Stmts s) then Inl db_down
      else if unique_rows t (map (\<lambda>r. if P r then f r else r) (Rows t s))
           then Inr (length (filter (\<lambda>r. P r \<and> f r \<noteq> r) (Rows t s)))
           else Inl db_duplicate)"

definition modify_rows :: "(nat \<Rightarrow> bool) \<Rightarrow> ('x db_state_scheme, 'r) tbl \<Rightarrow> ('r \<Rightarrow> bool) \<Rightarrow> ('r \<Rightarrow> 'r) \<Rightarrow> ('x db_state_scheme, nat res) state" where
  "modify_rows fails t P f = State (\<lambda>s.
     (rows_updated fails t P f s,
      case rows_updated fails t P f s of
        Inl e \<Rightarrow> tick s
      | Inr n \<Rightarrow> RowsTo t (map (\<lambda>r. if P r then f r else r) (Rows t s)) (tick s)))"

definition rows_deleted :: "(nat \<Rightarrow> bool) \<Rightarrow> ('x db_state_scheme, 'r) tbl \<Rightarrow> ('r \<Rightarrow> bool) \<Rightarrow> 'x db_state_scheme \<Rightarrow> nat res" where
  "rows_deleted fails t P s = (if fails (Stmts s) then Inl db_down else Inr (length (filter P (Rows t s))))"

definition delete_rows :: "(nat \<Rightarrow> bool) \<Rightarrow> ('x db_state_scheme, 'r) tbl \<Rightarrow> ('r \<Rightarrow> bool) \<Rightarrow> ('x db_state_scheme, nat res) state" where
  "delete_rows fails t P = State (\<lambda>s.
     (rows_deleted fails t P s,
      if fails (Stmts s) then tick s else RowsTo t (filter (\<lambda>r. \<not> P r) (Rows t s)) (tick s)))"

text \<open>
  \<open>Save\<close> updates the row with the key; when no row was changed it looks for the row and creates it if it
  is not there. The answer is the row with its key.
\<close>

definition save_row :: "(nat \<Rightarrow> bool) \<Rightarrow> ('x db_state_scheme, 'r) tbl \<Rightarrow> 'r \<Rightarrow> ('x db_state_scheme, 'r res) state" where
  "save_row fails t r =
     (if Key t r = 0 then create_row fails t r
      else do {
        n \<leftarrow> modify_rows fails t (\<lambda>r'. Key t r' = Key t r) (\<lambda>_. r);
        case n of
          Inl e \<Rightarrow> State_Monad.return (Inl e)
        | Inr k \<Rightarrow>
            if k \<noteq> 0 then State_Monad.return (Inr r)
            else do {
              old \<leftarrow> find_one fails t (\<lambda>r'. Key t r' = Key t r);
              case old of
                Inr r' \<Rightarrow> State_Monad.return (Inr r')
              | Inl e \<Rightarrow> if e = db_none then create_row fails t r else State_Monad.return (Inl e)
            }
      })"

section \<open>What statements keep\<close>

lemma run_find_one [simp]: "run_state (find_one fails t P) s = (found_one fails t P s, tick s)"
  by (simp add: find_one_def)

lemma run_find_all [simp]: "run_state (find_all fails t P) s = (found_all fails t P s, tick s)"
  by (simp add: find_all_def)

lemma found_one_Some:
  assumes "found_one fails t P s = Inr r"
  shows "r \<in> set (Rows t s) \<and> P r \<and> \<not> fails (Stmts s)"
proof -
  from assms have up: "\<not> fails (Stmts s)" by (auto simp: found_one_def split: if_splits)
  with assms obtain x xs where f: "filter P (Rows t s) = x # xs" "r = last (x # xs)"
    by (auto simp: found_one_def split: list.splits)
  then have "r \<in> set (filter P (Rows t s))" by (metis last_in_set list.distinct(1))
  with up show ?thesis by simp
qed

lemma found_one_none: "found_one fails t P s = Inl db_none \<Longrightarrow> \<forall>r \<in> set (Rows t s). \<not> P r"
  by (auto simp: found_one_def db_down_def db_none_def filter_empty_conv split: if_splits list.splits)

lemma found_one_up:
  assumes "\<not> fails (Stmts s)" "r \<in> set (Rows t s)" "P r" "\<forall>r' \<in> set (Rows t s). P r' \<longrightarrow> r' = r"
  shows "found_one fails t P s = Inr r"
proof (cases "filter P (Rows t s)")
  case Nil
  then show ?thesis using assms(2,3) by (simp add: filter_empty_conv)
next
  case (Cons x xs)
  have "last (x # xs) \<in> set (filter P (Rows t s))"
    unfolding Cons by (rule last_in_set) simp
  then have "last (x # xs) = r" using assms(4) by simp
  then show ?thesis using Cons assms(1) by (simp add: found_one_def)
qed

lemma found_all_Some: "found_all fails t P s = Inr rs \<Longrightarrow> rs = filter P (Rows t s)"
  by (simp add: found_all_def split: if_splits)

text \<open>A property of the state that a computation keeps.\<close>

definition keeps :: "('s \<Rightarrow> bool) \<Rightarrow> ('s, 'a) state \<Rightarrow> bool" where
  "keeps I m = (\<forall>s. I s \<longrightarrow> I (snd (run_state m s)))"

named_theorems keeping

lemma keepsD: "keeps I m \<Longrightarrow> I s \<Longrightarrow> I (snd (run_state m s))"
  by (simp add: keeps_def)

lemma keeps_return [keeping]: "keeps I (State_Monad.return x)"
  by (simp add: keeps_def)

lemma keeps_bind [keeping]: "keeps I m \<Longrightarrow> (\<And>x. keeps I (f x)) \<Longrightarrow> keeps I (m \<bind> f)"
  by (auto simp: keeps_def split: prod.splits)

lemma keeps_get [keeping]: "(\<And>s. keeps I (f s)) \<Longrightarrow> keeps I (State_Monad.get \<bind> f)"
  by (auto simp: keeps_def)

lemma keeps_if [keeping]: "(b \<Longrightarrow> keeps I m) \<Longrightarrow> (\<not> b \<Longrightarrow> keeps I n) \<Longrightarrow> keeps I (if b then m else n)"
  by simp

lemma keeps_sum [keeping]: "(\<And>e. x = Inl e \<Longrightarrow> keeps I (f e)) \<Longrightarrow> (\<And>y. x = Inr y \<Longrightarrow> keeps I (g y)) \<Longrightarrow> keeps I (case x of Inl e \<Rightarrow> f e | Inr y \<Rightarrow> g y)"
  by (cases x) simp_all

lemma keeps_option [keeping]: "keeps I m \<Longrightarrow> (\<And>y. x = Some y \<Longrightarrow> keeps I (g y)) \<Longrightarrow> keeps I (case x of None \<Rightarrow> m | Some y \<Rightarrow> g y)"
  by (cases x) simp_all

lemma keeps_prod [keeping]: "(\<And>a b. x = (a, b) \<Longrightarrow> keeps I (f a b)) \<Longrightarrow> keeps I (case x of (a, b) \<Rightarrow> f a b)"
  by (cases x) simp

lemma keeps_let [keeping]: "(\<And>x. keeps I (f x)) \<Longrightarrow> keeps I (let x = e in f x)"
  by simp

text \<open>From states with \<open>I\<close> a computation comes to states with \<open>G\<close>.\<close>

definition turns :: "('s \<Rightarrow> bool) \<Rightarrow> ('s \<Rightarrow> bool) \<Rightarrow> ('s, 'a) state \<Rightarrow> bool" where
  "turns I G m = (\<forall>s. I s \<longrightarrow> G (snd (run_state m s)))"

named_theorems turning

lemma turnsD: "turns I G m \<Longrightarrow> I s \<Longrightarrow> G (snd (run_state m s))"
  by (simp add: turns_def)

lemma turns_keeps: "keeps I m \<Longrightarrow> (\<And>s. I s \<Longrightarrow> G s) \<Longrightarrow> turns I G m"
  by (auto simp: turns_def keeps_def)

lemma turns_always: "(\<And>s. G s) \<Longrightarrow> turns I G m"
  by (simp add: turns_def)

text \<open>A first part that changes nothing, with what is known of its result; a last part that changes nothing.\<close>

lemma turns_read: "keeps I m \<Longrightarrow> (\<And>s. I s \<Longrightarrow> R (fst (run_state m s))) \<Longrightarrow> (\<And>x. R x \<Longrightarrow> turns I G (f x)) \<Longrightarrow> turns I G (m \<bind> f)"
  by (auto simp: turns_def keeps_def split: prod.splits) (metis fst_conv snd_conv)

lemma turns_first: "keeps I m \<Longrightarrow> (\<And>x. turns I G (f x)) \<Longrightarrow> turns I G (m \<bind> f)"
  by (rule turns_read [where R = "\<lambda>x. True"]) auto

lemma turns_last: "turns I G m \<Longrightarrow> (\<And>x. keeps G (f x)) \<Longrightarrow> turns I G (m \<bind> f)"
  by (auto simp: turns_def keeps_def split: prod.splits)

lemma turns_if [turning]: "(b \<Longrightarrow> turns I G m) \<Longrightarrow> (\<not> b \<Longrightarrow> turns I G n) \<Longrightarrow> turns I G (if b then m else n)"
  by simp

lemma turns_sum [turning]: "(\<And>e. x = Inl e \<Longrightarrow> turns I G (f e)) \<Longrightarrow> (\<And>y. x = Inr y \<Longrightarrow> turns I G (g y)) \<Longrightarrow> turns I G (case x of Inl e \<Rightarrow> f e | Inr y \<Rightarrow> g y)"
  by (cases x) simp_all

lemma turns_option [turning]: "turns I G m \<Longrightarrow> (\<And>y. x = Some y \<Longrightarrow> turns I G (g y)) \<Longrightarrow> turns I G (case x of None \<Rightarrow> m | Some y \<Rightarrow> g y)"
  by (cases x) simp_all

lemma turns_prod [turning]: "(\<And>a b. x = (a, b) \<Longrightarrow> turns I G (f a b)) \<Longrightarrow> turns I G (case x of (a, b) \<Rightarrow> f a b)"
  by (cases x) simp

text \<open>A property that does not read a table is kept by the statements on it.\<close>

definition blind_to :: "('x db_state_scheme, 'r) tbl \<Rightarrow> ('x db_state_scheme \<Rightarrow> bool) \<Rightarrow> bool" where
  "blind_to t I = ((\<forall>s. I (tick s) = I s) \<and> (\<forall>rs s. I (RowsTo t rs s) = I s) \<and> (\<forall>n s. I (NextTo t n s) = I s))"

lemma keeps_find_one: "(\<And>s. I (tick s) = I s) \<Longrightarrow> keeps I (find_one fails t P)"
  by (simp add: keeps_def)

lemma keeps_find_all: "(\<And>s. I (tick s) = I s) \<Longrightarrow> keeps I (find_all fails t P)"
  by (simp add: keeps_def)

lemma blind_create: "blind_to t I \<Longrightarrow> keeps I (create_row fails t r)"
  by (auto simp: blind_to_def keeps_def create_row_def Let_def split: sum.splits)

lemma blind_update: "blind_to t I \<Longrightarrow> keeps I (modify_rows fails t P f)"
  by (auto simp: blind_to_def keeps_def modify_rows_def split: sum.splits)

lemma blind_delete: "blind_to t I \<Longrightarrow> keeps I (delete_rows fails t P)"
  by (auto simp: blind_to_def keeps_def delete_rows_def)

lemma blind_save: "blind_to t I \<Longrightarrow> keeps I (save_row fails t r)"
  unfolding save_row_def by (intro keeping blind_create blind_update keeps_find_one) (simp_all add: blind_to_def)

text \<open>The laws of a table: its two fields of the state and the key of its rows.\<close>

locale gorm_table =
  fixes t :: "('x db_state_scheme, 'r) tbl"
  assumes rows_rows: "Rows t (RowsTo t rs s) = rs"
    and rows_next: "Rows t (NextTo t n s) = Rows t s"
    and next_rows: "NextId t (RowsTo t rs s) = NextId t s"
    and next_next: "NextId t (NextTo t n s) = n"
    and rows_tick: "Rows t (tick s) = Rows t s"
    and next_tick: "NextId t (tick s) = NextId t s"
    and key_key: "Key t (KeyTo t i r) = i"
begin

lemmas table_laws = rows_rows rows_next next_rows next_next rows_tick next_tick key_key

definition table_ok :: "'x db_state_scheme \<Rightarrow> bool" where
  "table_ok s \<longleftrightarrow> unique_rows t (Rows t s) \<and> (\<forall>r \<in> set (Rows t s). 0 < Key t r \<and> Key t r < NextId t s) \<and> 0 < NextId t s"

lemma rows_created:
  "Rows t (snd (run_state (create_row fails t r) s)) =
     (case row_created fails t r s of Inl e \<Rightarrow> Rows t s | Inr r' \<Rightarrow> Rows t s @ [r'])"
  by (auto simp: create_row_def row_created_def Let_def table_laws split: sum.splits)

lemma rows_after_update:
  "Rows t (snd (run_state (modify_rows fails t P f) s)) =
     (case rows_updated fails t P f s of Inl e \<Rightarrow> Rows t s | Inr n \<Rightarrow> map (\<lambda>r. if P r then f r else r) (Rows t s))"
  by (auto simp: modify_rows_def table_laws split: sum.splits)

lemma rows_after_delete:
  "Rows t (snd (run_state (delete_rows fails t P) s)) = (if fails (Stmts s) then Rows t s else filter (\<lambda>r. \<not> P r) (Rows t s))"
  by (simp add: delete_rows_def table_laws)

lemma ok_tick: "table_ok s \<Longrightarrow> table_ok (tick s)"
  by (simp add: table_ok_def table_laws)

lemma ok_find_one: "keeps table_ok (find_one fails t' P)"
  by (simp add: keeps_def ok_tick)

lemma ok_find_all: "keeps table_ok (find_all fails t' P)"
  by (simp add: keeps_def ok_tick)

lemma ok_create: "keeps table_ok (create_row fails t r)"
  unfolding keeps_def
proof (intro allI impI)
  fix s assume ok: "table_ok s"
  show "table_ok (snd (run_state (create_row fails t r) s))"
  proof (cases "fails (Stmts s)")
    case True
    then show ?thesis using ok by (simp add: create_row_def ok_tick)
  next
    case up: False
    show ?thesis
    proof (cases "row_created fails t r s")
      case (Inl e)
      then show ?thesis using ok up by (fastforce simp: create_row_def table_ok_def table_laws)
    next
      case (Inr r')
      then have r': "r' = KeyTo t (new_key t r s) r" "unique_rows t (Rows t s @ [r'])" "0 < Key t r'"
        using up by (simp_all add: row_created_def Let_def not_le split: if_splits)
      then show ?thesis using ok up Inr by (fastforce simp: create_row_def table_ok_def table_laws)
    qed
  qed
qed

lemma ok_update:
  assumes "\<And>r. P r \<Longrightarrow> Key t (f r) = Key t r"
  shows "keeps table_ok (modify_rows fails t P f)"
  unfolding keeps_def
proof (intro allI impI)
  fix s assume ok: "table_ok s"
  show "table_ok (snd (run_state (modify_rows fails t P f) s))"
  proof (cases "rows_updated fails t P f s")
    case (Inl e)
    then show ?thesis using ok by (simp add: modify_rows_def ok_tick)
  next
    case (Inr n)
    then have "unique_rows t (map (\<lambda>r. if P r then f r else r) (Rows t s))"
      by (simp add: rows_updated_def split: if_splits)
    then show ?thesis using ok assms Inr by (fastforce simp: modify_rows_def table_ok_def table_laws)
  qed
qed

lemma ok_save: "keeps table_ok (save_row fails t r)"
  unfolding save_row_def by (intro keeping ok_create ok_update ok_find_one) simp

text \<open>Saving a row that is there replaces it, if anything.\<close>

lemma save_existing:
  assumes r0: "r0 \<in> set (Rows t s)" and key: "Key t r = Key t r0" "Key t r0 \<noteq> 0"
  shows "Rows t (snd (run_state (save_row fails t r) s)) \<in> {Rows t s, map (\<lambda>r'. if Key t r' = Key t r then r else r') (Rows t s)}"
proof (cases "rows_updated fails t (\<lambda>r'. Key t r' = Key t r) (\<lambda>_. r) s")
  case (Inl e)
  then show ?thesis using key by (simp add: save_row_def modify_rows_def table_laws)
next
  case (Inr k)
  let ?s1 = "RowsTo t (map (\<lambda>r'. if Key t r' = Key t r then r else r') (Rows t s)) (tick s)"
  have "r \<in> set (Rows t ?s1)" using r0 key by (force simp: table_laws)
  then have "found_one fails t (\<lambda>r'. Key t r' = Key t r) ?s1 \<noteq> Inl db_none"
    using found_one_none by blast
  then show ?thesis using Inr key by (auto simp: save_row_def modify_rows_def table_laws split: sum.splits)
qed

lemma unique_filter: "unique_rows t rs \<Longrightarrow> unique_rows t (filter P rs)"
  unfolding unique_rows_def by (simp add: distinct_map_filter sorted_wrt_filter)

lemma ok_delete: "keeps table_ok (delete_rows fails t P)"
  unfolding keeps_def
  by (auto simp: delete_rows_def table_ok_def table_laws unique_filter)

end

end

