(* ===== verification/Api_Data.thy ===== *)
theory Api_Data
  imports Main
begin

text \<open>
  The rows of the portal database as module api has them (\<open>app/model/falcon_portal\<close>). The relations of
  groups with hosts and templates have a key in the schema that the code does not read.
\<close>

record host_grp =
  hg_ID :: int
  hg_Name :: string
  hg_CreateUser :: string
  hg_ComeFrom :: int

record portal_host =
  ph_ID :: int
  ph_Hostname :: string
  ph_Ip :: string
  ph_AgentVersion :: string
  ph_PluginVersion :: string
  ph_MaintainBegin :: int
  ph_MaintainEnd :: int

record grp_host =
  gh_ID :: int
  gh_GrpID :: int
  gh_HostID :: int

record grp_tpl =
  gt_ID :: int
  gt_GrpID :: int
  gt_TplID :: int
  gt_BindUser :: string

record plugin_dir =
  pd_ID :: int
  pd_GrpId :: int
  pd_Dir :: string
  pd_CreateUser :: string

record portal_cluster =
  pc_ID :: int
  pc_GrpId :: int
  pc_Numerator :: string
  pc_Denominator :: string
  pc_Endpoint :: string
  pc_Metric :: string
  pc_Tags :: string
  pc_DsType :: string
  pc_Step :: int
  pc_Creator :: string

record portal_tpl =
  pt_ID :: int
  pt_Name :: string
  pt_ParentID :: int
  pt_ActionID :: int
  pt_CreateUser :: string

record portal_action =
  pa_ID :: int
  pa_UIC :: string
  pa_LarkGroupId :: string
  pa_URL :: string
  pa_Callback :: int
  pa_BeforeCallbackSMS :: int
  pa_BeforeCallbackMail :: int
  pa_AfterCallbackSMS :: int
  pa_AfterCallbackMail :: int

record portal_strategy =
  py_ID :: int
  py_Metric :: string
  py_Tags :: string
  py_MaxStep :: int
  py_Priority :: int
  py_Func :: string
  py_Op :: string
  py_RightValue :: string
  py_Note :: string
  py_RunBegin :: string
  py_RunEnd :: string
  py_TplId :: int

end
