(* ===== verification/Api_Uic.thy ===== *)
theory Api_Uic
  imports Common_Utils Api_Db Api_Data
begin

text \<open>
  Module api, the users and their teams: sessions (\<open>app/helper/session.go\<close>, \<open>app/utils/auth_middle.go\<close>,
  \<open>controller/uic/session_controller.go\<close>), users (\<open>user_controller.go\<close>) and teams
  (\<open>team_controller.go\<close>), with the records of \<open>app/model/uic\<close>. The state has the four tables and the
  sessions in redis; a handler answers with the JSON responses it has written.
\<close>

section \<open>State\<close>

record api_user =
  au_ID :: int
  au_Name :: string
  au_Cnname :: string
  au_Passwd :: string
  au_Email :: string
  au_Phone :: string
  au_IM :: string
  au_QQ :: string
  au_Role :: int

record api_team =
  at_ID :: int
  at_Name :: string
  at_Resume :: string
  at_Creator :: int

record rel_team_user =
  tu_ID :: int
  tu_Tid :: int
  tu_Uid :: int

record uic_session =
  se_ID :: int
  se_Uid :: int
  se_Sig :: string
  se_Expired :: int

text \<open>The sessions in redis are JSON texts that only this module writes and reads; they are kept as records.\<close>

record uic_state = db_state +
  Users :: "api_user list"
  Teams :: "api_team list"
  Rels :: "rel_team_user list"
  Sessions :: "uic_session list"
  NextUser :: int
  NextTeam :: int
  NextRel :: int
  NextSession :: int
  Sigs :: "(string, uic_session) gomap"
  RedisCalls :: nat
  Uuids :: nat

text \<open>
  The environment: the configuration, how the database compares names (its collation) and matches
  regular expressions, what it answers to a statement that was put together as text, which statements
  and which calls of redis fail, and the random texts.
\<close>

record uic_env =
  cf_SignupDisable :: bool
  cf_AccessControl :: bool
  cf_SkipAuth :: bool
  cf_DefaultToken :: string
  cf_AdminSalt :: string
  cf_Salt :: string
  en_same :: "string \<Rightarrow> string \<Rightarrow> bool"
  en_regexp :: "string \<Rightarrow> string \<Rightarrow> bool"
  en_text :: "string \<Rightarrow> api_user list \<Rightarrow> api_user list res"
  en_fails :: "nat \<Rightarrow> bool"
  en_redis :: "nat \<Rightarrow> bool"
  en_uuid :: "nat \<Rightarrow> string"

definition no_user :: api_user where
  "no_user = \<lparr>au_ID = 0, au_Name = '''', au_Cnname = '''', au_Passwd = '''', au_Email = '''', au_Phone = '''', au_IM = '''', au_QQ = '''', au_Role = 0\<rparr>"

definition user_tbl :: "uic_env \<Rightarrow> ('x uic_state_scheme, api_user) tbl" where
  "user_tbl env = \<lparr>Rows = Users, RowsTo = (\<lambda>rs s. s\<lparr>Users := rs\<rparr>), NextId = NextUser, NextTo = (\<lambda>n s. s\<lparr>NextUser := n\<rparr>),
     Key = au_ID, KeyTo = (\<lambda>i r. r\<lparr>au_ID := i\<rparr>), Clash = (\<lambda>a b. en_same env (au_Name a) (au_Name b))\<rparr>"

definition team_tbl :: "uic_env \<Rightarrow> ('x uic_state_scheme, api_team) tbl" where
  "team_tbl env = \<lparr>Rows = Teams, RowsTo = (\<lambda>rs s. s\<lparr>Teams := rs\<rparr>), NextId = NextTeam, NextTo = (\<lambda>n s. s\<lparr>NextTeam := n\<rparr>),
     Key = at_ID, KeyTo = (\<lambda>i r. r\<lparr>at_ID := i\<rparr>), Clash = (\<lambda>a b. en_same env (at_Name a) (at_Name b))\<rparr>"

definition rel_tbl :: "('x uic_state_scheme, rel_team_user) tbl" where
  "rel_tbl = \<lparr>Rows = Rels, RowsTo = (\<lambda>rs s. s\<lparr>Rels := rs\<rparr>), NextId = NextRel, NextTo = (\<lambda>n s. s\<lparr>NextRel := n\<rparr>),
     Key = tu_ID, KeyTo = (\<lambda>i r. r\<lparr>tu_ID := i\<rparr>), Clash = (\<lambda>a b. False)\<rparr>"

definition session_tbl :: "('x uic_state_scheme, uic_session) tbl" where
  "session_tbl = \<lparr>Rows = Sessions, RowsTo = (\<lambda>rs s. s\<lparr>Sessions := rs\<rparr>), NextId = NextSession, NextTo = (\<lambda>n s. s\<lparr>NextSession := n\<rparr>),
     Key = se_ID, KeyTo = (\<lambda>i r. r\<lparr>se_ID := i\<rparr>), Clash = (\<lambda>a b. False)\<rparr>"

interpretation users: gorm_table "user_tbl env" for env
  by unfold_locales (simp_all add: user_tbl_def tick_def)

interpretation teams: gorm_table "team_tbl env" for env
  by unfold_locales (simp_all add: team_tbl_def tick_def)

interpretation rels: gorm_table rel_tbl
  by unfold_locales (simp_all add: rel_tbl_def tick_def)

interpretation sessions: gorm_table session_tbl
  by unfold_locales (simp_all add: session_tbl_def tick_def)

section \<open>Redis\<close>

definition RedisGet :: "uic_env \<Rightarrow> string \<Rightarrow> ('x uic_state_scheme, uic_session res) state" where
  "RedisGet env key = State (\<lambda>s.
     (if \<not> en_redis env (RedisCalls s) then Inl (Err ''connection refused'')
      else case gget (Sigs s) key of None \<Rightarrow> Inl (Err ''redigo: nil returned'') | Some v \<Rightarrow> Inr v,
      s\<lparr>RedisCalls := RedisCalls s + 1\<rparr>))"

text \<open>Sessions are stored without an expiry.\<close>

definition RedisSet :: "uic_env \<Rightarrow> string \<Rightarrow> uic_session \<Rightarrow> ('x uic_state_scheme, unit res) state" where
  "RedisSet env key v = State (\<lambda>s.
     (if en_redis env (RedisCalls s) then Inr () else Inl (Err ''connection refused''),
      s\<lparr>RedisCalls := RedisCalls s + 1, Sigs := (if en_redis env (RedisCalls s) then gput key v (Sigs s) else Sigs s)\<rparr>))"

definition GenerateUUID :: "uic_env \<Rightarrow> ('x uic_state_scheme, string) state" where
  "GenerateUUID env = State (\<lambda>s. (en_uuid env (Uuids s), s\<lparr>Uuids := Uuids s + 1\<rparr>))"

definition sig_key :: "string \<Rightarrow> string" where
  "sig_key name = ''user_sig_'' @ name"

section \<open>Responses\<close>

datatype api_body =
    JMsg string
  | JError string
  | JUser api_user
  | JUsers "api_user list"
  | JSig string string bool
  | JTeams "api_team list"
  | JTeam api_team "api_user list"
  | JCTeams "(api_team \<times> string \<times> api_user list) list"
  | JGroup host_grp
  | JGroups "host_grp list"
  | JGroupHosts host_grp "portal_host list"
  | JNames "string list"
  | JPlugin plugin_dir
  | JPlugins "plugin_dir list"
  | JCluster portal_cluster
  | JClusters string "portal_cluster list"
  | JGrpTpl grp_tpl
  | JTpls "portal_tpl list"
  | JGroupTpls host_grp "portal_tpl list"
  | JTplGroups portal_tpl "host_grp list"
  | JCTpls "(portal_tpl \<times> string) list"
  | JTplDetail portal_tpl "portal_strategy list" portal_action string
  | JAction portal_action
  | JStrategy portal_strategy
  | JStrategies "portal_strategy list"

type_synonym api_answer = "(int \<times> api_body) list"
type_synonym 'x handler = "('x uic_state_scheme, api_answer) state"

definition badstatus :: int where "badstatus = 400"
definition StatusUnauthorized :: int where "StatusUnauthorized = 401"
definition StatusForbidden :: int where "StatusForbidden = 403"
definition StatusExpectationFailed :: int where "StatusExpectationFailed = 417"

fun err_text :: "go_error \<Rightarrow> string" where
  "err_text (Err e) = e"
| "err_text (Panic e) = e"

text \<open>\<open>JSONR\<close> with a code of its own, with an error, with a text, with a value.\<close>

definition fail_with :: "int \<Rightarrow> go_error \<Rightarrow> 'x handler" where
  "fail_with code e = State_Monad.return [(code, JError (err_text e))]"

definition refuse :: "int \<Rightarrow> string \<Rightarrow> 'x handler" where
  "refuse code msg = State_Monad.return [(code, JError msg)]"

definition reply :: "api_body \<Rightarrow> 'x handler" where
  "reply b = State_Monad.return [(200, b)]"

definition bind_error :: string where "bind_error = ''bind''"
definition no_permission :: string where "no_permission = ''you don't have permission!''"

section \<open>Sessions (\<open>session.go\<close>, \<open>auth_middle.go\<close>)\<close>

text \<open>The header \<open>Apitoken\<close>: missing, not the JSON it should be, or a name and a signature.\<close>

datatype apitoken = NoToken | BadToken string | Token string string

fun GetSession :: "apitoken \<Rightarrow> (string \<times> string) res" where
  "GetSession NoToken = Inl (Err ''token key is not set'')"
| "GetSession (BadToken e) = Inl (Err e)"
| "GetSession (Token name sig) =
     (if name = '''' then Inl (Err ''token key:name is empty'')
      else if sig = '''' then Inl (Err ''token key:sig is empty'')
      else Inr (name, sig))"

definition SessionChecking :: "uic_env \<Rightarrow> apitoken \<Rightarrow> ('x uic_state_scheme, bool res) state" where
  "SessionChecking env tok =
     (case GetSession tok of
        Inl e \<Rightarrow> State_Monad.return (Inl e)
      | Inr (name, sig) \<Rightarrow>
          if cf_DefaultToken env \<noteq> '''' \<and> sig = cf_DefaultToken env then State_Monad.return (Inr True)
          else do {
            v \<leftarrow> RedisGet env (sig_key name);
            case v of
              Inl e \<Rightarrow> State_Monad.return (Inl e)
            | Inr session \<Rightarrow>
                State_Monad.return (if se_Sig session = sig then Inr True else Inl (Err (''Sig_wrong:'' @ sig)))
          })"

definition AuthSessionMidd :: "uic_env \<Rightarrow> apitoken \<Rightarrow> 'x handler \<Rightarrow> 'x handler" where
  "AuthSessionMidd env tok h = do {
     auth \<leftarrow> SessionChecking env tok;
     case auth of
       Inr a \<Rightarrow> if cf_SkipAuth env \<or> a then h else refuse StatusUnauthorized ''system type error. please ask admin for help''
     | Inl e \<Rightarrow> if cf_SkipAuth env then h else fail_with StatusUnauthorized e
   }"

text \<open>Fields of a pattern that are zero are not part of the condition.\<close>

definition by_user_name :: "uic_env \<Rightarrow> string \<Rightarrow> api_user \<Rightarrow> bool" where
  "by_user_name env name u = (name = '''' \<or> en_same env (au_Name u) name)"

definition h_GetUser :: "uic_env \<Rightarrow> apitoken \<Rightarrow> ('x uic_state_scheme, api_user res) state" where
  "h_GetUser env tok =
     (case GetSession tok of
        Inl e \<Rightarrow> State_Monad.return (Inl e)
      | Inr (name, sig) \<Rightarrow> find_one (en_fails env) (user_tbl env) (by_user_name env name))"

definition skipAccessControll :: "uic_env \<Rightarrow> bool" where
  "skipAccessControll env = (\<not> cf_AccessControl env)"

definition IsAdmin :: "uic_env \<Rightarrow> api_user \<Rightarrow> bool" where
  "IsAdmin env u = (skipAccessControll env \<or> au_Role u = 2 \<or> au_Role u = 1)"

definition IsSuperAdmin :: "uic_env \<Rightarrow> api_user \<Rightarrow> bool" where
  "IsSuperAdmin env u = (skipAccessControll env \<or> au_Role u = 2)"

definition HashIt :: "uic_env \<Rightarrow> string \<Rightarrow> string" where
  "HashIt env passwd = Md5 (cf_Salt env @ passwd)"

definition HasDangerousCharacters :: "string \<Rightarrow> bool" where
  "HasDangerousCharacters str = (\<exists>c \<in> set str. c \<in> {CHR ''<'', CHR ''>'', CHR ''&'', CHR 0x27, CHR 0x22})"

section \<open>Signing up and in (\<open>user_controller.go\<close>, \<open>session_controller.go\<close>)\<close>

record user_input =
  cu_Name :: string
  cu_Cnname :: string
  cu_Passwd :: string
  cu_Email :: string
  cu_Phone :: string
  cu_IM :: string
  cu_QQ :: string

text \<open>
  \<open>Bind\<close> fills the input and then looks for the fields that are required; the first argument says
  whether the body of the request could be read at all.
\<close>

definition user_bound :: "bool \<Rightarrow> user_input \<Rightarrow> bool" where
  "user_bound readable i = (readable \<and> cu_Name i \<noteq> '''' \<and> cu_Cnname i \<noteq> '''' \<and> cu_Passwd i \<noteq> '''' \<and> cu_Email i \<noteq> '''')"

text \<open>A fresh session of a user, stored in redis; the answer is its signature.\<close>

definition open_session :: "uic_env \<Rightarrow> api_user \<Rightarrow> 'x handler" where
  "open_session env user = do {
     sig \<leftarrow> GenerateUUID env;
     stored \<leftarrow> RedisSet env (sig_key (au_Name user)) \<lparr>se_ID = 0, se_Uid = au_ID user, se_Sig = sig, se_Expired = 0\<rparr>;
     case stored of
       Inl e \<Rightarrow> fail_with badstatus e
     | Inr u \<Rightarrow> reply (JSig sig (au_Name user) (IsAdmin env user))
   }"

text \<open>Why the sign-up is refused when only administrators may create users.\<close>

definition sign_up_denied :: "uic_env \<Rightarrow> apitoken \<Rightarrow> ('x uic_state_scheme, string option) state" where
  "sign_up_denied env tok =
     (if cf_SignupDisable env then do {
        user \<leftarrow> h_GetUser env tok;
        State_Monad.return
          (case user of
             Inl e \<Rightarrow> Some (''sign up is not enabled, please contact administrator'' @ (if tok = NoToken then '''' else ''. '' @ err_text e))
           | Inr u \<Rightarrow> if IsAdmin env u then None
                      else Some ''sign up is not enabled, please contact administrator. You are not admin, no permissions can do this'')
      } else State_Monad.return None)"

definition CreateUser :: "uic_env \<Rightarrow> apitoken \<Rightarrow> bool \<Rightarrow> user_input \<Rightarrow> 'x handler" where
  "CreateUser env tok readable i =
     (let name = CompressStr (cu_Name i) in
      if \<not> user_bound readable i then refuse badstatus bind_error
      else if HasDangerousCharacters (cu_Cnname i) then refuse badstatus ''name pattern is invalid''
      else do {
        denied \<leftarrow> sign_up_denied env tok;
        case denied of
          Some msg \<Rightarrow> refuse badstatus msg
        | None \<Rightarrow> do {
            old \<leftarrow> find_one (en_fails env) (user_tbl env) (\<lambda>u. en_same env (au_Name u) name);
            if (case old of Inr u \<Rightarrow> au_ID u \<noteq> 0 | Inl e \<Rightarrow> False) then refuse badstatus ''name is already existing''
            else do {
              created \<leftarrow> create_row (en_fails env) (user_tbl env)
                \<lparr>au_ID = 0, au_Name = name, au_Cnname = cu_Cnname i, au_Passwd = HashIt env (cu_Passwd i), au_Email = cu_Email i,
                 au_Phone = cu_Phone i, au_IM = cu_IM i, au_QQ = cu_QQ i, au_Role = (if name = ''root'' then 2 else 0)\<rparr>;
              case created of
                Inl e \<Rightarrow> fail_with badstatus e
              | Inr user \<Rightarrow> open_session env user
            }
          }
      })"

record login_input =
  li_Name :: string
  li_Password :: string
  li_AdminSalt :: string

definition DefaultAdminSalt :: string where
  "DefaultAdminSalt = ''falcon_api_admin_salt_byte2019''"

definition login_salt :: "uic_env \<Rightarrow> string" where
  "login_salt env = (if cf_AdminSalt env = '''' then DefaultAdminSalt else cf_AdminSalt env)"

definition login_known :: "uic_env \<Rightarrow> login_input \<Rightarrow> api_user \<Rightarrow> 'x handler" where
  "login_known env i user = do {
     sig_v \<leftarrow> RedisGet env (sig_key (au_Name user));
     case sig_v of
       Inr session_old \<Rightarrow>
         if IsAdmin env user \<and> login_salt env \<noteq> li_AdminSalt i then refuse badstatus ''wrong admin salt''
         else reply (JSig (se_Sig session_old) (au_Name user) (IsAdmin env user))
     | Inl e \<Rightarrow> open_session env user
   }"

definition Login :: "uic_env \<Rightarrow> bool \<Rightarrow> login_input \<Rightarrow> 'x handler" where
  "Login env readable i =
     (if \<not> (readable \<and> li_Name i \<noteq> '''' \<and> li_Password i \<noteq> '''') then refuse badstatus ''name or password is blank''
      else do {
        user \<leftarrow> find_one (en_fails env) (user_tbl env) (\<lambda>u. en_same env (au_Name u) (li_Name i));
        case user of
          Inl e \<Rightarrow> if e = db_none then refuse badstatus ''no such user'' else fail_with badstatus e
        | Inr u \<Rightarrow> if au_ID u = 0 then refuse badstatus ''no such user'' else login_known env i u
      })"

definition Logout :: "uic_env \<Rightarrow> apitoken \<Rightarrow> 'x handler" where
  "Logout env tok =
     (case GetSession tok of
        Inl e \<Rightarrow> fail_with badstatus e
      | Inr (name, sig) \<Rightarrow> do {
          user \<leftarrow> find_one (en_fails env) (user_tbl env) (by_user_name env name);
          session \<leftarrow> find_one (en_fails env) session_tbl
            (\<lambda>v. se_Sig v = sig \<and> se_Uid v = (case user of Inr u \<Rightarrow> au_ID u | Inl e \<Rightarrow> 0));
          case session of
            Inl e \<Rightarrow> refuse badstatus ''not found this kind of session in database.''
          | Inr v \<Rightarrow>
              if se_ID v = 0 then refuse badstatus ''not found this kind of session in database.''
              else do {
                r \<leftarrow> delete_rows (en_fails env) session_tbl (\<lambda>v'. se_ID v' = se_ID v);
                State_Monad.return ((case r of Inl e \<Rightarrow> [(badstatus, JError (err_text e))] | Inr n \<Rightarrow> []) @ [(200, JMsg ''logout successful'')])
              }
        })"

definition AuthSession :: "uic_env \<Rightarrow> apitoken \<Rightarrow> 'x handler" where
  "AuthSession env tok = do {
     auth \<leftarrow> SessionChecking env tok;
     case auth of
       Inr a \<Rightarrow> if a then reply (JMsg ''session is vaild!'') else refuse StatusUnauthorized ''system type error. please ask admin for help''
     | Inl e \<Rightarrow> fail_with StatusUnauthorized e
   }"

text \<open>Not on a route.\<close>

definition CreateRoot :: "uic_env \<Rightarrow> string \<Rightarrow> 'x handler" where
  "CreateRoot env password =
     (if password = '''' then refuse badstatus ''password is empty, please check it''
      else do {
        created \<leftarrow> save_row (en_fails env) (user_tbl env) (no_user\<lparr>au_Name := ''root'', au_Passwd := HashIt env password\<rparr>);
        case created of
          Inl e \<Rightarrow> fail_with badstatus e
        | Inr u \<Rightarrow> reply (JMsg ''root created!'')
      })"

section \<open>The own profile and password\<close>

record profile_input =
  pi_Cnname :: string
  pi_Email :: string
  pi_Phone :: string
  pi_IM :: string
  pi_QQ :: string

definition with_profile :: "'y profile_input_scheme \<Rightarrow> api_user \<Rightarrow> api_user" where
  "with_profile i u = u\<lparr>au_Cnname := pi_Cnname i, au_Email := pi_Email i, au_Phone := pi_Phone i, au_IM := pi_IM i, au_QQ := pi_QQ i\<rparr>"

definition UpdateCurrentUser :: "uic_env \<Rightarrow> apitoken \<Rightarrow> bool \<Rightarrow> profile_input \<Rightarrow> 'x handler" where
  "UpdateCurrentUser env tok readable i =
     (if \<not> (readable \<and> pi_Cnname i \<noteq> '''' \<and> pi_Email i \<noteq> '''') then refuse StatusExpectationFailed bind_error
      else if HasDangerousCharacters (pi_Cnname i) then refuse badstatus ''name pattern is invalid''
      else case GetSession tok of
        Inl e \<Rightarrow> fail_with badstatus e
      | Inr (name, sig) \<Rightarrow> do {
          user \<leftarrow> find_one (en_fails env) (user_tbl env) (\<lambda>u. en_same env (au_Name u) name);
          case user of
            Inl e \<Rightarrow> refuse badstatus ''name is not existing''
          | Inr u \<Rightarrow>
              if au_ID u = 0 then refuse badstatus ''name is not existing''
              else do {
                dt \<leftarrow> modify_rows (en_fails env) (user_tbl env) (\<lambda>r. au_ID r = au_ID u) (with_profile i);
                case dt of
                  Inl e \<Rightarrow> fail_with StatusExpectationFailed e
                | Inr n \<Rightarrow> reply (JMsg ''user info updated'')
              }
        })"

record passwd_input =
  pw_Old :: string
  pw_New :: string

text \<open>An error of \<open>Bind\<close> is answered, but the handler goes on.\<close>

definition ChangePassword :: "uic_env \<Rightarrow> apitoken \<Rightarrow> bool \<Rightarrow> passwd_input \<Rightarrow> 'x handler" where
  "ChangePassword env tok readable i = do {
     rest \<leftarrow>
       (case GetSession tok of
          Inl e \<Rightarrow> fail_with badstatus e
        | Inr (name, sig) \<Rightarrow> do {
            user \<leftarrow> find_one (en_fails env) (user_tbl env) (by_user_name env name);
            case user of
              Inl e \<Rightarrow> fail_with StatusExpectationFailed e
            | Inr u \<Rightarrow>
                if au_Passwd u \<noteq> HashIt env (pw_Old i) then refuse badstatus ''oldPassword is not match current one''
                else do {
                  dt \<leftarrow> save_row (en_fails env) (user_tbl env) (u\<lparr>au_Passwd := HashIt env (pw_New i)\<rparr>);
                  case dt of
                    Inl e \<Rightarrow> fail_with StatusExpectationFailed e
                  | Inr n \<Rightarrow> reply (JMsg ''password updated!'')
                }
          });
     State_Monad.return
       ((if readable \<and> pw_Old i \<noteq> '''' \<and> pw_New i \<noteq> '''' then [] else [(badstatus, JError bind_error)]) @ rest)
   }"

text \<open>The hash of the password is not part of the JSON of a user.\<close>

definition shown :: "api_user \<Rightarrow> api_user" where
  "shown u = u\<lparr>au_Passwd := ''''\<rparr>"

definition UserInfo :: "uic_env \<Rightarrow> apitoken \<Rightarrow> 'x handler" where
  "UserInfo env tok = do {
     user \<leftarrow> h_GetUser env tok;
     case user of Inl e \<Rightarrow> fail_with StatusExpectationFailed e | Inr u \<Rightarrow> reply (JUser (shown u))
   }"

section \<open>Looking users up\<close>

text \<open>A zero id is no condition: the last row of the table is the answer.\<close>

definition GetUser :: "uic_env \<Rightarrow> string \<Rightarrow> 'x handler" where
  "GetUser env uidtmp =
     (if uidtmp = '''' then refuse badstatus ''user id is missing''
      else case atoi uidtmp of
        Inl e \<Rightarrow> fail_with badstatus e
      | Inr uid \<Rightarrow> do {
          user \<leftarrow> find_one (en_fails env) (user_tbl env) (\<lambda>u. uid = 0 \<or> au_ID u = uid);
          case user of Inl e \<Rightarrow> fail_with StatusExpectationFailed e | Inr u \<Rightarrow> reply (JUser (shown u))
        })"

definition GetUserByName :: "uic_env \<Rightarrow> string \<Rightarrow> 'x handler" where
  "GetUserByName env name =
     (if name = '''' then refuse badstatus ''user name is missing''
      else do {
        user \<leftarrow> find_one (en_fails env) (user_tbl env) (\<lambda>u. en_same env (au_Name u) name);
        case user of Inl e \<Rightarrow> fail_with StatusExpectationFailed e | Inr u \<Rightarrow> reply (JUser (shown u))
      })"

definition IsUserInTeams :: "uic_env \<Rightarrow> string \<Rightarrow> string \<Rightarrow> 'x handler" where
  "IsUserInTeams env uidtmp teams_raw =
     (if uidtmp = '''' then refuse badstatus ''user id is missing''
      else case atoi uidtmp of
        Inl e \<Rightarrow> fail_with badstatus e
      | Inr uid \<Rightarrow>
          if teams_raw = '''' then refuse badstatus ''system type error. please ask admin for help''
          else do {
            user \<leftarrow> find_one (en_fails env) (user_tbl env) (\<lambda>u. au_ID u = uid);
            case user of
              Inl e \<Rightarrow> fail_with StatusExpectationFailed e
            | Inr u \<Rightarrow> do {
                teams \<leftarrow> find_all (en_fails env) (team_tbl env) (\<lambda>t. \<exists>n \<in> set (split (CHR '','') teams_raw). en_same env (at_Name t) n);
                case teams of
                  Inl e \<Rightarrow> fail_with StatusExpectationFailed e
                | Inr ts \<Rightarrow> do {
                    tus \<leftarrow> find_all (en_fails env) rel_tbl (\<lambda>r. tu_Uid r = uid \<and> tu_Tid r \<in> set (map at_ID ts));
                    case tus of
                      Inl e \<Rightarrow> fail_with StatusExpectationFailed e
                    | Inr rs \<Rightarrow> reply (JMsg ''true'')
                  }
              }
          })"

text \<open>Without a team the statement ends in \<open>id in ()\<close>, which the database refuses.\<close>

definition GetUserTeams :: "uic_env \<Rightarrow> string \<Rightarrow> 'x handler" where
  "GetUserTeams env uidtmp =
     (if uidtmp = '''' then refuse badstatus ''user id is missing''
      else case atoi uidtmp of
        Inl e \<Rightarrow> fail_with badstatus e
      | Inr uid \<Rightarrow> do {
          user \<leftarrow> find_one (en_fails env) (user_tbl env) (\<lambda>u. au_ID u = uid);
          case user of
            Inl e \<Rightarrow> fail_with StatusExpectationFailed e
          | Inr u \<Rightarrow> do {
              tus \<leftarrow> find_all (en_fails env) rel_tbl (\<lambda>r. tu_Uid r = uid);
              case tus of
                Inl e \<Rightarrow> fail_with StatusExpectationFailed e
              | Inr rs \<Rightarrow> do {
                  teams \<leftarrow> find_all (en_fails env) (team_tbl env) (\<lambda>t. at_ID t \<in> set (map tu_Tid rs));
                  case (if rs = [] then Inl db_syntax else teams) of
                    Inl e \<Rightarrow> fail_with StatusExpectationFailed e
                  | Inr ts \<Rightarrow> reply (JTeams ts)
                }
            }
        })"

definition PageParser :: "string \<Rightarrow> string \<Rightarrow> (int \<times> int) res" where
  "PageParser page limit =
     (if page = '''' then Inr (-1, -1)
      else case atoi page of
        Inl e \<Rightarrow> Inl e
      | Inr p \<Rightarrow>
          if limit = '''' then Inl (Err ''You set page but skip limit params, please check your input'')
          else case atoi limit of
            Inl e \<Rightarrow> Inl e
          | Inr l \<Rightarrow>
              if p \<le> 0 \<or> l \<le> 0 then Inl (Err ''limit or page can not set to 0 or less than 0'')
              else Inr (if p = 1 then 0 else i64 ((p - 1) * l), l))"

text \<open>With pages the pattern is put into the text of the statement; the answer to such a text is the database's.\<close>

definition users_text :: "string \<Rightarrow> int \<Rightarrow> int \<Rightarrow> string" where
  "users_text q page limit =
     ''select * from user where name regexp '' @ [CHR 0x27] @ q @ [CHR 0x27] @ '' limit '' @ itoa page @ '','' @ itoa limit"

definition UserList :: "uic_env \<Rightarrow> string \<Rightarrow> string \<Rightarrow> string option \<Rightarrow> 'x handler" where
  "UserList env pageTmp limitTmp query =
     (let q = (case query of Some q \<Rightarrow> q | None \<Rightarrow> ''.+'') in
      case PageParser pageTmp limitTmp of
        Inl e \<Rightarrow> fail_with badstatus e
      | Inr (page, limit) \<Rightarrow> do {
          s \<leftarrow> State_Monad.get;
          user \<leftarrow> find_all (en_fails env) (user_tbl env) (\<lambda>u. en_regexp env q (au_Name u));
          case (if limit \<noteq> -1 \<and> page \<noteq> -1
                then (if en_fails env (Stmts s) then Inl db_down else en_text env (users_text q page limit) (Users s))
                else user) of
            Inl e \<Rightarrow> fail_with StatusExpectationFailed e
          | Inr us \<Rightarrow> reply (JUsers (map shown us))
        })"

section \<open>What administrators do\<close>

text \<open>The handlers that begin with the test of the acting user.\<close>

definition as_admin :: "uic_env \<Rightarrow> apitoken \<Rightarrow> int \<Rightarrow> (api_user \<Rightarrow> 'x handler) \<Rightarrow> 'x handler" where
  "as_admin env tok code h = do {
     cuser \<leftarrow> h_GetUser env tok;
     case cuser of
       Inl e \<Rightarrow> fail_with code e
     | Inr u \<Rightarrow> if \<not> IsAdmin env u then refuse badstatus no_permission else h u
   }"

record admin_profile_input = profile_input +
  pi_UserID :: int

definition AdminChangeUserProfile :: "uic_env \<Rightarrow> apitoken \<Rightarrow> bool \<Rightarrow> admin_profile_input \<Rightarrow> 'x handler" where
  "AdminChangeUserProfile env tok readable i =
     (if \<not> (readable \<and> pi_UserID i \<noteq> 0 \<and> pi_Cnname i \<noteq> '''' \<and> pi_Email i \<noteq> '''') then refuse StatusExpectationFailed bind_error
      else as_admin env tok StatusExpectationFailed (\<lambda>cuser. do {
        dt \<leftarrow> modify_rows (en_fails env) (user_tbl env) (\<lambda>r. au_ID r = pi_UserID i) (with_profile i);
        case dt of
          Inl e \<Rightarrow> fail_with StatusExpectationFailed e
        | Inr n \<Rightarrow> reply (JMsg ''user profile updated'')
      }))"

definition AdminUserDelete :: "uic_env \<Rightarrow> apitoken \<Rightarrow> bool \<Rightarrow> int \<Rightarrow> 'x handler" where
  "AdminUserDelete env tok readable uid =
     (if \<not> (readable \<and> uid \<noteq> 0) then refuse badstatus bind_error
      else as_admin env tok StatusExpectationFailed (\<lambda>cuser. do {
        dt \<leftarrow> delete_rows (en_fails env) (user_tbl env) (\<lambda>u. au_ID u = uid \<and> au_Role u \<le> au_Role cuser);
        case dt of
          Inl e \<Rightarrow> fail_with StatusExpectationFailed e
        | Inr n \<Rightarrow>
            if n = 0 then refuse StatusExpectationFailed ''you have no such permission or sth goes wrong''
            else reply (JMsg (''user '' @ itoa uid @ '' has been delete, affect row: '' @ itoa (int n)))
      }))"

definition AdminChangePassword :: "uic_env \<Rightarrow> apitoken \<Rightarrow> bool \<Rightarrow> int \<Rightarrow> string \<Rightarrow> 'x handler" where
  "AdminChangePassword env tok readable uid passwd =
     (if \<not> (readable \<and> uid \<noteq> 0 \<and> passwd \<noteq> '''') then refuse badstatus bind_error
      else as_admin env tok StatusExpectationFailed (\<lambda>cuser. do {
        user \<leftarrow> find_one (en_fails env) (user_tbl env) (\<lambda>u. au_ID u = uid);
        case user of
          Inl e \<Rightarrow> fail_with StatusExpectationFailed e
        | Inr u \<Rightarrow> do {
            dt \<leftarrow> save_row (en_fails env) (user_tbl env) (u\<lparr>au_Passwd := HashIt env passwd\<rparr>);
            case dt of
              Inl e \<Rightarrow> fail_with StatusExpectationFailed e
            | Inr n \<Rightarrow> reply (JMsg ''password updated!'')
          }
      }))"

text \<open>A user that was not found is saved all the same, as a new one. (The message ends in a count, left out.)\<close>

definition role_text :: "string \<Rightarrow> api_user \<Rightarrow> api_user" where
  "role_text admin u = (if admin = ''yes'' then u\<lparr>au_Role := 1\<rparr> else if admin = ''no'' then u\<lparr>au_Role := 0\<rparr> else u)"

definition ChangeRoleOfUser :: "uic_env \<Rightarrow> apitoken \<Rightarrow> bool \<Rightarrow> int \<Rightarrow> string \<Rightarrow> 'x handler" where
  "ChangeRoleOfUser env tok readable uid admin =
     (if \<not> (readable \<and> uid \<noteq> 0 \<and> admin \<noteq> '''') then refuse badstatus bind_error
      else as_admin env tok badstatus (\<lambda>cuser. do {
        user \<leftarrow> find_one (en_fails env) (user_tbl env) (\<lambda>u. au_ID u = uid);
        dt \<leftarrow> save_row (en_fails env) (user_tbl env) (role_text admin (case user of Inr u \<Rightarrow> u | Inl e \<Rightarrow> no_user));
        case dt of
          Inl e \<Rightarrow> fail_with StatusExpectationFailed e
        | Inr n \<Rightarrow> reply (JMsg ''user role update sccuessful'')
      }))"

section \<open>Teams (\<open>team_controller.go\<close>, \<open>model/uic/team.go\<close>)\<close>

definition ArrIntToString :: "int list \<Rightarrow> string res" where
  "ArrIntToString arr = (let result = join '','' (map itoa arr) in if result = '''' then Inl (Err ''array is empty, err: []'') else Inr result)"

definition GetTeamDict :: "uic_env \<Rightarrow> 'x handler" where
  "GetTeamDict env = do {
     teams \<leftarrow> find_all (en_fails env) (team_tbl env) (\<lambda>t. True);
     case teams of Inl e \<Rightarrow> fail_with badstatus e | Inr ts \<Rightarrow> reply (JTeams ts)
   }"

text \<open>Of the members only the id and the names are read.\<close>

definition named_only :: "api_user \<Rightarrow> api_user" where
  "named_only u = no_user\<lparr>au_ID := au_ID u, au_Name := au_Name u, au_Cnname := au_Cnname u\<rparr>"

definition Members :: "uic_env \<Rightarrow> api_team \<Rightarrow> ('x uic_state_scheme, api_user list res) state" where
  "Members env t = do {
     tmapping \<leftarrow> find_all (en_fails env) rel_tbl (\<lambda>r. tu_Tid r = at_ID t);
     case tmapping of
       Inl e \<Rightarrow> State_Monad.return (Inl e)
     | Inr rs \<Rightarrow>
         if rs = [] then State_Monad.return (Inr [])
         else do {
           us \<leftarrow> find_all (en_fails env) (user_tbl env) (\<lambda>u. au_ID u \<in> set (map tu_Uid rs));
           State_Monad.return (case us of Inl e \<Rightarrow> Inl e | Inr us \<Rightarrow> Inr (map named_only us))
         }
   }"

definition GetCreatorName :: "uic_env \<Rightarrow> api_team \<Rightarrow> ('x uic_state_scheme, string) state" where
  "GetCreatorName env t = do {
     user \<leftarrow> find_one (en_fails env) (user_tbl env) (\<lambda>u. at_Creator t = 0 \<or> au_ID u = at_Creator t);
     State_Monad.return (case user of Inl e \<Rightarrow> ''unknown'' | Inr u \<Rightarrow> au_Name u)
   }"

fun team_outputs :: "uic_env \<Rightarrow> api_team list \<Rightarrow> (api_team \<times> string \<times> api_user list) list \<Rightarrow> 'x handler" where
  "team_outputs env [] outs = reply (JCTeams outs)"
| "team_outputs env (t # ts) outs = do {
     users \<leftarrow> Members env t;
     case users of
       Inl e \<Rightarrow> fail_with badstatus e
     | Inr us \<Rightarrow> do { creator \<leftarrow> GetCreatorName env t; team_outputs env ts (outs @ [(t, creator, us)]) }
   }"

text \<open>\<open>limit page, limit\<close>: so many rows after the first ones.\<close>

definition page_rows :: "int \<Rightarrow> int \<Rightarrow> 'a list \<Rightarrow> 'a list" where
  "page_rows page limit xs = (if limit \<noteq> -1 \<and> page \<noteq> -1 then take (nat limit) (drop (nat page) xs) else xs)"

definition Teams_get :: "uic_env \<Rightarrow> apitoken \<Rightarrow> string \<Rightarrow> string \<Rightarrow> string option \<Rightarrow> 'x handler" where
  "Teams_get env tok pageTmp limitTmp query =
     (case PageParser pageTmp limitTmp of
        Inl e \<Rightarrow> fail_with badstatus e
      | Inr (page, limit) \<Rightarrow> do {
          user \<leftarrow> h_GetUser env tok;
          case user of
            Inl e \<Rightarrow> fail_with badstatus e
          | Inr u \<Rightarrow> do {
              teams \<leftarrow> find_all (en_fails env) (team_tbl env)
                (\<lambda>t. en_regexp env (case query of Some q \<Rightarrow> q | None \<Rightarrow> ''.+'') (at_Name t));
              case teams of
                Inl e \<Rightarrow> fail_with badstatus e
              | Inr ts \<Rightarrow> if page < -1 then fail_with badstatus db_syntax else team_outputs env (page_rows page limit ts) []
            }
        })"

record team_input =
  ti_ID :: int
  ti_Name :: string
  ti_Resume :: string
  ti_UserIDs :: "int list"

fun create_rels :: "uic_env \<Rightarrow> int \<Rightarrow> int list \<Rightarrow> ('x uic_state_scheme, unit res) state" where
  "create_rels env tid [] = State_Monad.return (Inr ())"
| "create_rels env tid (u # us) = do {
     dt2 \<leftarrow> create_row (en_fails env) rel_tbl \<lparr>tu_ID = 0, tu_Tid = tid, tu_Uid = u\<rparr>;
     case dt2 of Inl e \<Rightarrow> State_Monad.return (Inl e) | Inr r \<Rightarrow> create_rels env tid us
   }"

text \<open>(The counts at the end of the message are left out here and in \<open>DeleteTeam\<close>.)\<close>

definition CreateTeam :: "uic_env \<Rightarrow> apitoken \<Rightarrow> bool \<Rightarrow> team_input \<Rightarrow> 'x handler" where
  "CreateTeam env tok readable i =
     (if \<not> (readable \<and> ti_Name i \<noteq> '''') then refuse badstatus bind_error
      else do {
        user \<leftarrow> h_GetUser env tok;
        case user of
          Inl e \<Rightarrow> fail_with badstatus e
        | Inr u \<Rightarrow> do {
            dt \<leftarrow> create_row (en_fails env) (team_tbl env) \<lparr>at_ID = 0, at_Name = ti_Name i, at_Resume = ti_Resume i, at_Creator = au_ID u\<rparr>;
            case dt of
              Inl e \<Rightarrow> fail_with badstatus e
            | Inr team \<Rightarrow> do {
                err \<leftarrow> create_rels env (at_ID team) (ti_UserIDs i);
                case err of Inl e \<Rightarrow> fail_with badstatus e | Inr ok \<Rightarrow> reply (JMsg ''team created!'')
              }
          }
      })"

fun delete_rels :: "uic_env \<Rightarrow> rel_team_user list \<Rightarrow> ('x uic_state_scheme, unit res) state" where
  "delete_rels env [] = State_Monad.return (Inr ())"
| "delete_rels env (man # men) = do {
     dt \<leftarrow> delete_rows (en_fails env) rel_tbl (\<lambda>r. tu_ID r = tu_ID man);
     case dt of Inl e \<Rightarrow> State_Monad.return (Inl e) | Inr n \<Rightarrow> delete_rels env men
   }"

text \<open>Zero ids are not part of the condition.\<close>

definition rel_like :: "int \<Rightarrow> int \<Rightarrow> rel_team_user \<Rightarrow> bool" where
  "rel_like tid uid r = ((tid = 0 \<or> tu_Tid r = tid) \<and> (uid = 0 \<or> tu_Uid r = uid))"

fun insert_rels :: "uic_env \<Rightarrow> int \<Rightarrow> int list \<Rightarrow> ('x uic_state_scheme, unit res) state" where
  "insert_rels env tid [] = State_Monad.return (Inr ())"
| "insert_rels env tid (i # is) = do {
     ur \<leftarrow> find_one (en_fails env) rel_tbl (rel_like tid i);
     if (case ur of Inr r \<Rightarrow> tu_ID r = 0 | Inl e \<Rightarrow> True)
     then do {
       dt \<leftarrow> create_row (en_fails env) rel_tbl (case ur of Inr r \<Rightarrow> r | Inl e \<Rightarrow> \<lparr>tu_ID = 0, tu_Tid = tid, tu_Uid = i\<rparr>);
       case dt of Inl e \<Rightarrow> State_Monad.return (Inl e) | Inr r \<Rightarrow> insert_rels env tid is
     }
     else insert_rels env tid is
   }"

definition bindUsers :: "uic_env \<Rightarrow> int \<Rightarrow> int list \<Rightarrow> ('x uic_state_scheme, unit res) state" where
  "bindUsers env tid users =
     (case ArrIntToString users of
        Inl e \<Rightarrow> State_Monad.return (Inl e)
      | Inr uids \<Rightarrow> do {
          needDeleteMan \<leftarrow> find_all (en_fails env) rel_tbl (\<lambda>r. tu_Tid r = tid \<and> \<not> tu_Uid r \<in> set users);
          case needDeleteMan of
            Inl e \<Rightarrow> State_Monad.return (Inl e)
          | Inr men \<Rightarrow> do {
              deleted \<leftarrow> delete_rels env men;
              case deleted of Inl e \<Rightarrow> State_Monad.return (Inl e) | Inr ok \<Rightarrow> insert_rels env tid users
            }
        })"

text \<open>Fields that are empty are not updated; when both are, there is no statement.\<close>

definition with_team :: "team_input \<Rightarrow> api_team \<Rightarrow> api_team" where
  "with_team i t = t\<lparr>at_Name := (if ti_Name i = '''' then at_Name t else ti_Name i), at_Resume := (if ti_Resume i = '''' then at_Resume t else ti_Resume i)\<rparr>"

definition write_team :: "uic_env \<Rightarrow> team_input \<Rightarrow> 'x handler" where
  "write_team env i = do {
     dt \<leftarrow> (if ti_Name i = '''' \<and> ti_Resume i = '''' then State_Monad.return (Inr 0)
            else modify_rows (en_fails env) (team_tbl env) (\<lambda>t. at_ID t = ti_ID i) (with_team i));
     case dt of
       Inl e \<Rightarrow> fail_with badstatus e
     | Inr n \<Rightarrow> do {
         err \<leftarrow> bindUsers env (ti_ID i) (ti_UserIDs i);
         case err of Inl e \<Rightarrow> fail_with badstatus e | Inr ok \<Rightarrow> reply (JMsg ''team updated!'')
       }
   }"

definition not_managing :: string where
  "not_managing = ''You are neither   admin,nor  team creator, nor  team member ...cannot mangage the team''"

text \<open>The join of teams and relations is a query with a row for each relation that fits.\<close>

definition UpdateTeam :: "uic_env \<Rightarrow> apitoken \<Rightarrow> bool \<Rightarrow> team_input \<Rightarrow> 'x handler" where
  "UpdateTeam env tok readable i =
     (if \<not> (readable \<and> ti_ID i \<noteq> 0) then refuse badstatus bind_error
      else do {
        user \<leftarrow> h_GetUser env tok;
        case user of
          Inl e \<Rightarrow> fail_with badstatus e
        | Inr u \<Rightarrow>
            if IsAdmin env u then write_team env i
            else do {
              s \<leftarrow> State_Monad.get;
              member \<leftarrow> find_one (en_fails env) (team_tbl env)
                (\<lambda>t. at_ID t = ti_ID i \<and> (\<exists>r \<in> set (Rels s). tu_Tid r = at_ID t \<and> tu_Uid r = au_ID u));
              if (\<exists>t. member = Inr t) then write_team env i
              else do {
                own \<leftarrow> find_one (en_fails env) (team_tbl env) (\<lambda>t. at_Creator t = au_ID u \<and> at_ID t = ti_ID i);
                if (\<exists>t. own = Inr t) then write_team env i else refuse StatusForbidden not_managing
              }
            }
      })"

definition DeleteTeam :: "uic_env \<Rightarrow> apitoken \<Rightarrow> string \<Rightarrow> 'x handler" where
  "DeleteTeam env tok teamIdStr =
     (case atoi teamIdStr of
        Inl e \<Rightarrow> fail_with badstatus e
      | Inr teamId \<Rightarrow>
          if teamId = 0 then refuse badstatus ''team_id is empty''
          else do {
            user \<leftarrow> h_GetUser env tok;
            case user of
              Inl e \<Rightarrow> fail_with badstatus e
            | Inr u \<Rightarrow> do {
                err \<leftarrow>
                  (if IsAdmin env u then do {
                     dt \<leftarrow> delete_rows (en_fails env) (team_tbl env) (\<lambda>t. at_ID t = teamId);
                     State_Monad.return (case dt of Inl e \<Rightarrow> Inl e | Inr n \<Rightarrow> Inr ())
                   }
                   else do {
                     team \<leftarrow> find_one (en_fails env) (team_tbl env) (\<lambda>t. at_ID t = teamId \<and> (au_ID u = 0 \<or> at_Creator t = au_ID u));
                     case team of
                       Inl e \<Rightarrow> State_Monad.return (Inl e)
                     | Inr t \<Rightarrow> do {
                         dt \<leftarrow> delete_rows (en_fails env) (team_tbl env) (\<lambda>t. at_ID t = teamId);
                         State_Monad.return (Inr ())
                       }
                   });
                case err of
                  Inl e \<Rightarrow> fail_with StatusExpectationFailed e
                | Inr ok \<Rightarrow> do {
                    dt2 \<leftarrow> delete_rows (en_fails env) rel_tbl (\<lambda>r. tu_Tid r = teamId);
                    reply (JMsg (''team '' @ itoa teamId @ '' is deleted.''))
                  }
              }
          })"

text \<open>A team with its users; an error of the two queries for the users leaves them out.\<close>

definition team_answer :: "uic_env \<Rightarrow> api_team \<Rightarrow> 'x handler" where
  "team_answer env team = do {
     uidarr \<leftarrow> find_all (en_fails env) rel_tbl (\<lambda>r. at_ID team = 0 \<or> tu_Tid r = at_ID team);
     case uidarr of
       Inl e \<Rightarrow> reply (JTeam team [])
     | Inr rs \<Rightarrow>
         if rs = [] then reply (JTeam team [])
         else do {
           users \<leftarrow> find_all (en_fails env) (user_tbl env) (\<lambda>u. au_ID u \<in> set (map tu_Uid rs));
           reply (JTeam team (case users of Inl e \<Rightarrow> [] | Inr us \<Rightarrow> map shown us))
         }
   }"

definition GetTeam :: "uic_env \<Rightarrow> string \<Rightarrow> 'x handler" where
  "GetTeam env team_id_str =
     (case atoi team_id_str of
        Inl e \<Rightarrow> if e = Err ''invalid syntax'' then refuse badstatus ''team_id is empty'' else fail_with badstatus e
      | Inr team_id \<Rightarrow>
          if team_id = 0 then refuse badstatus ''team_id is empty''
          else do {
            team \<leftarrow> find_one (en_fails env) (team_tbl env) (\<lambda>t. at_ID t = team_id);
            case team of Inl e \<Rightarrow> fail_with badstatus e | Inr t \<Rightarrow> team_answer env t
          })"

definition GetTeamByName :: "uic_env \<Rightarrow> string \<Rightarrow> 'x handler" where
  "GetTeamByName env name =
     (if name = '''' then refuse badstatus ''team name is missing''
      else do {
        team \<leftarrow> find_one (en_fails env) (team_tbl env) (\<lambda>t. en_same env (at_Name t) name);
        case team of Inl e \<Rightarrow> fail_with badstatus e | Inr t \<Rightarrow> team_answer env t
      })"

section \<open>The routes (\<open>user_routes.go\<close>)\<close>

text \<open>A request: what comes with it besides the header. The flags say whether its body could be read.\<close>

datatype uic_call =
    C_AuthSession
  | C_Login bool login_input
  | C_Logout
  | C_CreateUser bool user_input
  | C_UserInfo
  | C_GetUser string
  | C_GetUserByName string
  | C_UpdateCurrentUser bool profile_input
  | C_ChangePassword bool passwd_input
  | C_UserList string string "string option"
  | C_IsUserInTeams string string
  | C_GetUserTeams string
  | C_ChangeRoleOfUser bool int string
  | C_AdminChangePassword bool int string
  | C_AdminChangeUserProfile bool admin_profile_input
  | C_AdminUserDelete bool int
  | C_Teams string string "string option"
  | C_GetTeamDict
  | C_GetTeam string
  | C_GetTeamByName string
  | C_CreateTeam bool team_input
  | C_UpdateTeam bool team_input
  | C_DeleteTeam string

fun uic_handler :: "uic_env \<Rightarrow> apitoken \<Rightarrow> uic_call \<Rightarrow> 'x handler" where
  "uic_handler env tok C_AuthSession = AuthSession env tok"
| "uic_handler env tok (C_Login b i) = Login env b i"
| "uic_handler env tok C_Logout = Logout env tok"
| "uic_handler env tok (C_CreateUser b i) = CreateUser env tok b i"
| "uic_handler env tok C_UserInfo = UserInfo env tok"
| "uic_handler env tok (C_GetUser i) = GetUser env i"
| "uic_handler env tok (C_GetUserByName n) = GetUserByName env n"
| "uic_handler env tok (C_UpdateCurrentUser b i) = UpdateCurrentUser env tok b i"
| "uic_handler env tok (C_ChangePassword b i) = ChangePassword env tok b i"
| "uic_handler env tok (C_UserList p l q) = UserList env p l q"
| "uic_handler env tok (C_IsUserInTeams i ts) = IsUserInTeams env i ts"
| "uic_handler env tok (C_GetUserTeams i) = GetUserTeams env i"
| "uic_handler env tok (C_ChangeRoleOfUser b i a) = ChangeRoleOfUser env tok b i a"
| "uic_handler env tok (C_AdminChangePassword b i p) = AdminChangePassword env tok b i p"
| "uic_handler env tok (C_AdminChangeUserProfile b i) = AdminChangeUserProfile env tok b i"
| "uic_handler env tok (C_AdminUserDelete b i) = AdminUserDelete env tok b i"
| "uic_handler env tok (C_Teams p l q) = Teams_get env tok p l q"
| "uic_handler env tok C_GetTeamDict = GetTeamDict env"
| "uic_handler env tok (C_GetTeam i) = GetTeam env i"
| "uic_handler env tok (C_GetTeamByName n) = GetTeamByName env n"
| "uic_handler env tok (C_CreateTeam b i) = CreateTeam env tok b i"
| "uic_handler env tok (C_UpdateTeam b i) = UpdateTeam env tok b i"
| "uic_handler env tok (C_DeleteTeam i) = DeleteTeam env tok i"

fun is_public :: "uic_call \<Rightarrow> bool" where
  "is_public C_AuthSession = True"
| "is_public (C_Login b i) = True"
| "is_public C_Logout = True"
| "is_public (C_CreateUser b i) = True"
| "is_public c = False"

definition Routes :: "uic_env \<Rightarrow> apitoken \<Rightarrow> uic_call \<Rightarrow> 'x handler" where
  "Routes env tok c = (if is_public c then uic_handler env tok c else AuthSessionMidd env tok (uic_handler env tok c))"

text \<open>The server after some requests.\<close>

inductive uic_reach :: "uic_env \<Rightarrow> (apitoken \<times> uic_call \<Rightarrow> 'x uic_state_scheme \<Rightarrow> bool) \<Rightarrow> 'x uic_state_scheme \<Rightarrow> 'x uic_state_scheme \<Rightarrow> bool"
  for env ok s0 where
  begun: "uic_reach env ok s0 s0"
| served: "uic_reach env ok s0 s \<Longrightarrow> ok (tok, c) s \<Longrightarrow> uic_reach env ok s0 (snd (run_state (Routes env tok c) s))"

end
