(* ===== verification/Api_Accounts.thy ===== *)
theory Api_Accounts
  imports Api_Uic
begin

text \<open>
  What the handlers of users and sessions guarantee: which requests can change which users, who can
  become an administrator, and what a login is worth.
\<close>

section \<open>What handlers keep\<close>

lemmas table_simps = user_tbl_def team_tbl_def rel_tbl_def session_tbl_def tick_def

lemma keeps_answers [keeping]: "keeps I (fail_with code e)" "keeps I (refuse code msg)" "keeps I (reply b)"
  by (simp_all add: fail_with_def refuse_def reply_def keeps_return)

text \<open>A property of the tables alone, and one that does not depend on users.\<close>

definition of_tables :: "('x uic_state_scheme \<Rightarrow> bool) \<Rightarrow> bool" where
  "of_tables I = ((\<forall>s. I (tick s) = I s) \<and> (\<forall>n s. I (s\<lparr>RedisCalls := n\<rparr>) = I s) \<and> (\<forall>n s. I (s\<lparr>Uuids := n\<rparr>) = I s) \<and> (\<forall>n m s. I (s\<lparr>RedisCalls := n, Sigs := m\<rparr>) = I s))"

lemma tables_reads:
  assumes "of_tables I"
  shows "keeps I (find_one fails t P)" "keeps I (find_all fails t P)" "keeps I (RedisGet env key)" "keeps I (RedisSet env key v)"
    "keeps I (GenerateUUID env)"
  using assms by (simp_all add: of_tables_def keeps_def RedisGet_def RedisSet_def GenerateUUID_def)

lemma tables_session:
  assumes I: "of_tables I"
  shows "keeps I (SessionChecking env tok)" "keeps I (h_GetUser env tok)" "keeps I (open_session env u)" "keeps I (sign_up_denied env tok)"
    "keeps I (login_known env i u)"
  unfolding SessionChecking_def h_GetUser_def open_session_def sign_up_denied_def login_known_def
  by (intro keeping tables_reads [OF I])+

lemma tables_midd: "of_tables I \<Longrightarrow> keeps I h \<Longrightarrow> keeps I (AuthSessionMidd env tok h)"
  unfolding AuthSessionMidd_def by (intro keeping tables_session)

lemma tables_readers:
  assumes I: "of_tables I"
  shows "keeps I (AuthSession env tok)" "keeps I (Login env b i)" "keeps I (UserInfo env tok)" "keeps I (GetUser env x)"
    "keeps I (GetUserByName env x)" "keeps I (IsUserInTeams env x y)" "keeps I (GetUserTeams env x)" "keeps I (UserList env x y q)"
    "keeps I (GetTeamDict env)" "keeps I (GetTeam env x)" "keeps I (GetTeamByName env x)"
  unfolding AuthSession_def Login_def UserInfo_def GetUser_def GetUserByName_def IsUserInTeams_def GetUserTeams_def UserList_def
    GetTeamDict_def GetTeam_def GetTeamByName_def team_answer_def Let_def
  by (intro keeping tables_reads [OF I] tables_session [OF I])+

section \<open>The tables stay well-formed\<close>

definition uic_ok :: "uic_env \<Rightarrow> 'x uic_state_scheme \<Rightarrow> bool" where
  "uic_ok env s = (users.table_ok env s \<and> teams.table_ok env s \<and> rels.table_ok s \<and> sessions.table_ok s)"

lemmas oks = users.table_ok_def teams.table_ok_def rels.table_ok_def sessions.table_ok_def

lemma keeps_conj: "keeps A m \<Longrightarrow> keeps B m \<Longrightarrow> keeps C m \<Longrightarrow> keeps D m \<Longrightarrow> keeps (\<lambda>s. A s \<and> B s \<and> C s \<and> D s) m"
  by (simp add: keeps_def)

lemma blind_users: "blind_to (user_tbl env) (teams.table_ok env')" "blind_to (user_tbl env) rels.table_ok" "blind_to (user_tbl env) sessions.table_ok"
  and blind_teams: "blind_to (team_tbl env) (users.table_ok env')" "blind_to (team_tbl env) rels.table_ok" "blind_to (team_tbl env) sessions.table_ok"
  and blind_rels: "blind_to rel_tbl (users.table_ok env')" "blind_to rel_tbl (teams.table_ok env')" "blind_to rel_tbl sessions.table_ok"
  and blind_sessions: "blind_to session_tbl (users.table_ok env')" "blind_to session_tbl (teams.table_ok env')" "blind_to session_tbl rels.table_ok"
  unfolding blind_to_def oks by (simp_all add: table_simps)

lemma uic_ok_same [simp]:
  "uic_ok env (tick s) = uic_ok env s" "uic_ok env (s\<lparr>RedisCalls := n\<rparr>) = uic_ok env s" "uic_ok env (s\<lparr>Uuids := n\<rparr>) = uic_ok env s"
  "uic_ok env (s\<lparr>RedisCalls := n, Sigs := m\<rparr>) = uic_ok env s"
  unfolding uic_ok_def oks by (simp_all add: table_simps)

lemma uic_ok_tables: "of_tables (uic_ok env)"
  by (simp add: of_tables_def)

lemma ok_user_writes [keeping]:
  "keeps (uic_ok env) (create_row fails (user_tbl env) r)"
  "keeps (uic_ok env) (save_row fails (user_tbl env) r)"
  "keeps (uic_ok env) (delete_rows fails (user_tbl env) P)"
  unfolding uic_ok_def [abs_def]
  by (intro keeps_conj users.ok_create users.ok_save users.ok_delete blind_create blind_save blind_delete blind_users)+

lemma ok_team_writes [keeping]:
  "keeps (uic_ok env) (create_row fails (team_tbl env) t)"
  "keeps (uic_ok env) (delete_rows fails (team_tbl env) Q)"
  unfolding uic_ok_def [abs_def]
  by (intro keeps_conj teams.ok_create teams.ok_delete blind_create blind_delete blind_teams)+

lemma ok_rel_writes [keeping]:
  "keeps (uic_ok env) (create_row fails rel_tbl l)"
  "keeps (uic_ok env) (delete_rows fails rel_tbl R)"
  "keeps (uic_ok env) (delete_rows fails session_tbl S)"
  unfolding uic_ok_def [abs_def]
  by (intro keeps_conj rels.ok_create rels.ok_delete sessions.ok_delete blind_create blind_delete blind_rels blind_sessions)+

lemma ok_updates [keeping]:
  "keeps (uic_ok env) (modify_rows fails (user_tbl env) P (with_profile i))"
  "keeps (uic_ok env) (modify_rows fails (team_tbl env) Q (with_team j))"
  unfolding uic_ok_def [abs_def]
  by (intro keeps_conj users.ok_update teams.ok_update blind_update blind_users blind_teams; simp add: table_simps with_profile_def with_team_def)+

lemmas uic_ok_reads [keeping] = tables_reads [OF uic_ok_tables] tables_session [OF uic_ok_tables] tables_readers [OF uic_ok_tables]

lemma uic_ok_create_rels [keeping]: "keeps (uic_ok env) (create_rels env tid us)"
  by (induction us; simp only: create_rels.simps; intro keeping; assumption)

lemma uic_ok_delete_rels [keeping]: "keeps (uic_ok env) (delete_rels env men)"
  by (induction men; simp only: delete_rels.simps; intro keeping; assumption)

lemma uic_ok_insert_rels [keeping]: "keeps (uic_ok env) (insert_rels env tid us)"
  by (induction us; simp only: insert_rels.simps; intro keeping; assumption)

lemma uic_ok_members [keeping]: "keeps (uic_ok env) (Members env t)" "keeps (uic_ok env) (GetCreatorName env t)"
  unfolding Members_def GetCreatorName_def by (intro keeping)+

lemma uic_ok_team_outputs [keeping]: "keeps (uic_ok env) (team_outputs env ts outs)"
  by (induction ts arbitrary: outs; simp only: team_outputs.simps; intro keeping; blast)

lemma uic_ok_handlers: "keeps (uic_ok env) (uic_handler env tok c)"
  by (cases c; simp only: uic_handler.simps Logout_def CreateUser_def UpdateCurrentUser_def ChangePassword_def ChangeRoleOfUser_def
      AdminChangePassword_def AdminChangeUserProfile_def AdminUserDelete_def as_admin_def Teams_get_def CreateTeam_def UpdateTeam_def
      write_team_def bindUsers_def DeleteTeam_def Let_def; intro keeping)

section \<open>What a request does to the users\<close>

text \<open>The middleware lets the token pass; the token names the user.\<close>

definition accepted :: "uic_env \<Rightarrow> apitoken \<Rightarrow> 'x uic_state_scheme \<Rightarrow> bool" where
  "accepted env tok s =
     (cf_SkipAuth env \<or>
      (\<exists>name sig. GetSession tok = Inr (name, sig) \<and>
         (cf_DefaultToken env \<noteq> '''' \<and> sig = cf_DefaultToken env \<or> (\<exists>v. gget (Sigs s) (sig_key name) = Some v \<and> se_Sig v = sig))))"

definition token_names :: "uic_env \<Rightarrow> apitoken \<Rightarrow> api_user \<Rightarrow> bool" where
  "token_names env tok u = (\<exists>name sig. GetSession tok = Inr (name, sig) \<and> en_same env (au_Name u) name)"

definition names_admin :: "uic_env \<Rightarrow> apitoken \<Rightarrow> api_user list \<Rightarrow> bool" where
  "names_admin env tok us = (\<exists>u \<in> set us. token_names env tok u \<and> IsAdmin env u)"

fun is_admin_call :: "uic_call \<Rightarrow> bool" where
  "is_admin_call (C_ChangeRoleOfUser b i a) = True"
| "is_admin_call (C_AdminChangePassword b i p) = True"
| "is_admin_call (C_AdminChangeUserProfile b j) = True"
| "is_admin_call (C_AdminUserDelete b i) = True"
| "is_admin_call c = False"

definition user_writes :: "uic_env \<Rightarrow> apitoken \<Rightarrow> uic_call \<Rightarrow> api_user list \<Rightarrow> api_user list \<Rightarrow> bool" where
  "user_writes env tok c us us' \<longleftrightarrow>
     us' = us \<or>
     (\<exists>b i u. c = C_CreateUser b i \<and> us' = us @ [u] \<and> (\<forall>v \<in> set us. \<not> en_same env (au_Name v) (au_Name u) \<and> au_ID v \<noteq> au_ID u)
        \<and> au_Role u = (if au_Name u = ''root'' then 2 else 0)) \<or>
     (\<exists>b i u. c = C_UpdateCurrentUser b i \<and> u \<in> set us \<and> token_names env tok u
        \<and> us' = map (\<lambda>r. if au_ID r = au_ID u then with_profile i r else r) us) \<or>
     (\<exists>b i u. c = C_ChangePassword b i \<and> u \<in> set us \<and> token_names env tok u \<and> au_Passwd u = HashIt env (pw_Old i)
        \<and> us' = map (\<lambda>r. if au_ID r = au_ID u then u\<lparr>au_Passwd := HashIt env (pw_New i)\<rparr> else r) us) \<or>
     (is_admin_call c \<and> names_admin env tok us)"

definition users_are :: "uic_env \<Rightarrow> api_user list \<Rightarrow> 'x uic_state_scheme \<Rightarrow> bool" where
  "users_are env us s = (Users s = us \<and> uic_ok env s)"

lemma users_tick [simp]: "Users (tick s) = Users s"
  by (simp add: tick_def)

lemma users_are_tables: "of_tables (users_are env us)"
  by (simp add: of_tables_def users_are_def)

lemmas users_are_reads [keeping] = tables_reads [OF users_are_tables] tables_session [OF users_are_tables] tables_readers [OF users_are_tables]

lemma users_are_keeps: "keeps (uic_ok env) m \<Longrightarrow> (\<And>us. keeps (\<lambda>s. Users s = us) m) \<Longrightarrow> keeps (users_are env us) m"
  by (simp add: keeps_def users_are_def)

text \<open>Handlers of teams and sessions leave the users alone.\<close>

lemma users_blind: "blind_to (team_tbl env) (\<lambda>s. Users s = us)" "blind_to rel_tbl (\<lambda>s. Users s = us)" "blind_to session_tbl (\<lambda>s. Users s = us)"
  by (simp_all add: blind_to_def table_simps)

lemma users_tables: "of_tables (\<lambda>s. Users s = us)"
  by (simp add: of_tables_def tick_def)

lemmas users_stay [keeping] = tables_reads [OF users_tables] tables_session [OF users_tables] tables_readers [OF users_tables]
  blind_create [OF users_blind(1)] blind_create [OF users_blind(2)] blind_update [OF users_blind(1)]
  blind_delete [OF users_blind(1)] blind_delete [OF users_blind(2)] blind_delete [OF users_blind(3)]

lemma users_create_rels [keeping]: "keeps (\<lambda>s. Users s = x) (create_rels env tid us)"
  by (induction us; simp only: create_rels.simps; intro keeping; assumption)

lemma users_delete_rels [keeping]: "keeps (\<lambda>s. Users s = x) (delete_rels env men)"
  by (induction men; simp only: delete_rels.simps; intro keeping; assumption)

lemma users_insert_rels [keeping]: "keeps (\<lambda>s. Users s = x) (insert_rels env tid us)"
  by (induction us; simp only: insert_rels.simps; intro keeping; assumption)

lemma users_members [keeping]: "keeps (\<lambda>s. Users s = x) (Members env t)" "keeps (\<lambda>s. Users s = x) (GetCreatorName env t)"
  unfolding Members_def GetCreatorName_def by (intro keeping)+

lemma users_team_outputs [keeping]: "keeps (\<lambda>s. Users s = x) (team_outputs env ts outs)"
  by (induction ts arbitrary: outs; simp only: team_outputs.simps; intro keeping; blast)

lemma users_team_handlers:
  "keeps (\<lambda>s. Users s = x) (Logout env tok)" "keeps (\<lambda>s. Users s = x) (Teams_get env tok p l q)" "keeps (\<lambda>s. Users s = x) (CreateTeam env tok b i)"
  "keeps (\<lambda>s. Users s = x) (UpdateTeam env tok b i)" "keeps (\<lambda>s. Users s = x) (DeleteTeam env tok d)"
  unfolding Logout_def Teams_get_def CreateTeam_def UpdateTeam_def write_team_def bindUsers_def DeleteTeam_def
  by (intro keeping)+

lemma GetSession_name: "GetSession tok = Inr (name, sig) \<Longrightarrow> name \<noteq> ''''"
  by (cases tok) (auto split: if_splits)

text \<open>A query for the user that the token names.\<close>

lemma named_user:
  assumes "users_are env us s" "found_one fails (user_tbl env) P s = Inr u"
  shows "u \<in> set us \<and> P u"
  using found_one_Some [OF assms(2)] assms(1) by (simp add: users_are_def user_tbl_def)

lemma token_user:
  assumes "GetSession tok = Inr (name, sig)" "users_are env us s" "found_one fails (user_tbl env) (by_user_name env name) s = Inr u"
  shows "u \<in> set us \<and> token_names env tok u"
  using named_user [OF assms(2,3)] assms(1) GetSession_name [OF assms(1)] by (auto simp: token_names_def by_user_name_def)

lemma acting_user:
  assumes "users_are env us s" and got: "fst (run_state (h_GetUser env tok) s) = Inr u"
  shows "u \<in> set us \<and> token_names env tok u"
proof (cases "GetSession tok")
  case (Inr p)
  then show ?thesis using token_user [of tok "fst p" "snd p"] assms by (cases p) (simp add: h_GetUser_def)
qed (use got in \<open>simp add: h_GetUser_def\<close>)

abbreviation wrote :: "uic_env \<Rightarrow> apitoken \<Rightarrow> uic_call \<Rightarrow> api_user list \<Rightarrow> 'x uic_state_scheme \<Rightarrow> bool" where
  "wrote env tok c us \<equiv> \<lambda>s. user_writes env tok c us (Users s)"

lemma wrote_tables: "of_tables (wrote env tok c us)"
  by (simp add: of_tables_def tick_def)

lemma wrote_none: "users_are env us s \<Longrightarrow> wrote env tok c us s"
  by (simp add: users_are_def user_writes_def)

lemma turns_quiet: "keeps (users_are env us) m \<Longrightarrow> turns (users_are env us) (wrote env tok c us) m"
  using wrote_none by (blast intro: turns_keeps)

lemma turns_answers [turning]:
  "turns (users_are env us) (wrote env tok c us) (fail_with code e)"
  "turns (users_are env us) (wrote env tok c us) (refuse code msg)"
  "turns (users_are env us) (wrote env tok c us) (reply b)"
  by (intro turns_quiet keeping)+

lemma turns_admin: "is_admin_call c \<Longrightarrow> turns (users_are env us) (wrote env tok c us) (as_admin env tok code h)"
  unfolding as_admin_def
  apply (rule turns_read [where R = "\<lambda>x. \<forall>u. x = Inr u \<longrightarrow> u \<in> set us \<and> token_names env tok u"])
    apply (intro keeping)
   apply (blast dest: acting_user)
  apply (intro turning)
  apply (rule turns_always)
  apply (auto simp: user_writes_def names_admin_def)
  done

text \<open>The rows of the users after a statement on them.\<close>

lemma users_rows [simp]: "Rows (user_tbl env) s = Users s" "Key (user_tbl env) = au_ID"
  by (simp_all add: user_tbl_def)

lemma users_unique_rows [simp]:
  "unique_rows (user_tbl env) us = (distinct (map au_ID us) \<and> sorted_wrt (\<lambda>a b. \<not> en_same env (au_Name a) (au_Name b)) us)"
  by (simp add: unique_rows_def user_tbl_def)

lemma users_key_to [simp]: "KeyTo (user_tbl env) i r = r\<lparr>au_ID := i\<rparr>"
  by (simp add: user_tbl_def)

lemma users_unique:
  assumes "uic_ok env s" "u \<in> set (Users s)" "v \<in> set (Users s)" "au_ID u = au_ID v"
  shows "u = v"
proof -
  have "distinct (map au_ID (Users s))"
    using assms(1) by (simp add: uic_ok_def users.table_ok_def unique_rows_def)
  with assms(2-4) show ?thesis by (auto simp: distinct_map dest: inj_onD)
qed

lemma turns_profile:
  assumes "P = (\<lambda>r. au_ID r = au_ID u)"
    and "\<And>us'. us' = map (\<lambda>r. if au_ID r = au_ID u then with_profile i r else r) us \<Longrightarrow> user_writes env tok c us us'"
  shows "turns (users_are env us) (wrote env tok c us) (modify_rows fails (user_tbl env) P (with_profile i))"
  unfolding turns_def
proof (intro allI impI)
  fix s :: "'x uic_state_scheme" assume s: "users_are env us s"
  show "wrote env tok c us (snd (run_state (modify_rows fails (user_tbl env) P (with_profile i)) s))"
    using users.rows_after_update [of env fails P "with_profile i" s] assms s
    by (auto simp: users_are_def user_writes_def split: sum.splits)
qed

lemma turns_saved:
  assumes u: "u \<in> set us" "au_ID r = au_ID u"
    and w: "user_writes env tok c us (map (\<lambda>r'. if au_ID r' = au_ID u then r else r') us)"
  shows "turns (users_are env us) (wrote env tok c us) (save_row fails (user_tbl env) r)"
  unfolding turns_def
proof (intro allI impI)
  fix s :: "'x uic_state_scheme" assume s: "users_are env us s"
  then have "0 < au_ID u" using u(1) by (simp add: users_are_def uic_ok_def users.table_ok_def)
  then have "Users (snd (run_state (save_row fails (user_tbl env) r) s)) \<in> {us, map (\<lambda>r'. if au_ID r' = au_ID r then r else r') us}"
    using users.save_existing [of u env s r fails] s u by (simp add: users_are_def)
  then show "wrote env tok c us (snd (run_state (save_row fails (user_tbl env) r) s))"
    using w u(2) by (auto simp: user_writes_def)
qed

lemma turns_created:
  assumes "c = C_CreateUser b i" "au_Role r = (if au_Name r = ''root'' then 2 else 0)"
  shows "turns (users_are env us) (wrote env tok c us) (create_row fails (user_tbl env) r)"
  unfolding turns_def
proof (intro allI impI)
  fix s :: "'x uic_state_scheme" assume s: "users_are env us s"
  show "wrote env tok c us (snd (run_state (create_row fails (user_tbl env) r) s))"
  proof (cases "row_created fails (user_tbl env) r s")
    case (Inl e)
    then show ?thesis using users.rows_created [of env fails r s] s by (simp add: users_are_def user_writes_def)
  next
    case (Inr r')
    then have r': "au_Name r' = au_Name r" "au_Role r' = au_Role r"
      "distinct (map au_ID (us @ [r']))" "sorted_wrt (\<lambda>a b. \<not> en_same env (au_Name a) (au_Name b)) (us @ [r'])"
      using s by (auto simp: row_created_def Let_def users_are_def split: if_splits)
    then have "\<forall>v \<in> set us. \<not> en_same env (au_Name v) (au_Name r') \<and> au_ID v \<noteq> au_ID r'" "au_Role r' = (if au_Name r' = ''root'' then 2 else 0)"
      using assms(2) by (auto simp: sorted_wrt_append) (metis imageI)
    then show ?thesis
      using Inr users.rows_created [of env fails r s] s assms(1) by (simp add: users_are_def user_writes_def)
  qed
qed

lemma create_user_writes: "turns (users_are env us) (wrote env tok (C_CreateUser b i) us) (CreateUser env tok b' j)"
  unfolding CreateUser_def Let_def
  apply (intro turning)
  apply (rule turns_first, intro keeping)
  apply (intro turning)
  apply (rule turns_first, intro keeping)
  apply (intro turning)
  apply (rule turns_last)
   apply (rule turns_created, rule refl)
   apply simp
  apply (intro keeping tables_session [OF wrote_tables])
  done

lemma update_current_writes: "turns (users_are env us) (wrote env tok (C_UpdateCurrentUser b i) us) (UpdateCurrentUser env tok b i)"
  unfolding UpdateCurrentUser_def
  apply (intro turning)
  apply (rule turns_read [where R = "\<lambda>x. \<forall>u. x = Inr u \<longrightarrow> u \<in> set us \<and> token_names env tok u"])
    apply (intro keeping)
   apply (auto simp: token_names_def dest: named_user) [1]
  apply (intro turning)
  apply (rule turns_last)
   apply (rule turns_profile, rule refl)
   apply (auto simp: user_writes_def) [1]
  apply (intro keeping)
  done

lemma change_password_writes: "turns (users_are env us) (wrote env tok (C_ChangePassword b i) us) (ChangePassword env tok b i)"
  unfolding ChangePassword_def
  apply (rule turns_last)
   apply (intro turning)
   apply (rule turns_read [where R = "\<lambda>x. \<forall>u. x = Inr u \<longrightarrow> u \<in> set us \<and> token_names env tok u"])
     apply (intro keeping)
    apply (auto dest: token_user) [1]
   apply (intro turning)
   apply (rule turns_last)
    apply (rule turns_saved)
      apply blast
     apply simp
    apply (auto simp: user_writes_def) [1]
   apply (intro keeping)
  apply (intro keeping)
  done

lemma handler_writes: "turns (users_are env us) (wrote env tok c us) (uic_handler env tok c)"
proof (cases "is_admin_call c \<or> (\<exists>b i. c = C_CreateUser b i) \<or> (\<exists>b i. c = C_UpdateCurrentUser b i) \<or> (\<exists>b i. c = C_ChangePassword b i)")
  case False
  then have "keeps (\<lambda>s. Users s = x) (uic_handler env tok c)" for x
    by (cases c; simp only: uic_handler.simps is_admin_call.simps; (intro keeping users_team_handlers)?; blast?)
  then have "keeps (users_are env us) (uic_handler env tok c)"
    by (intro users_are_keeps uic_ok_handlers)
  then show ?thesis by (rule turns_quiet)
next
  case True
  then show ?thesis
    by (cases c; simp only: uic_handler.simps is_admin_call.simps; (intro create_user_writes update_current_writes change_password_writes)?;
      (unfold ChangeRoleOfUser_def AdminChangePassword_def AdminChangeUserProfile_def AdminUserDelete_def; intro turning turns_admin; simp)?; blast?)
qed

text \<open>A token that is not accepted does not reach the handler.\<close>

lemma run_bind: "run_state (m \<bind> f) s = run_state (f (fst (run_state m s))) (snd (run_state m s))"
  by (simp add: split_beta)

lemma checked_accepts: "fst (run_state (SessionChecking env tok) s) = Inr True \<Longrightarrow> accepted env tok s"
  by (auto simp: SessionChecking_def accepted_def RedisGet_def split: sum.splits if_splits option.splits)

lemma midd_refuses:
  assumes "\<not> accepted env tok s" "of_tables I" "I s"
  shows "I (snd (run_state (AuthSessionMidd env tok h) s))"
proof -
  let ?r = "fst (run_state (SessionChecking env tok) s)"
  have "\<not> cf_SkipAuth env" using assms(1) by (simp add: accepted_def)
  moreover have "?r \<noteq> Inr True" using assms(1) checked_accepts by blast
  moreover have "I (snd (run_state (SessionChecking env tok) s))"
    using tables_session(1) [OF assms(2)] assms(3) by (rule keepsD)
  ultimately show ?thesis
    unfolding AuthSessionMidd_def run_bind by (cases ?r) (auto simp: refuse_def fail_with_def)
qed

lemma turns_midd:
  assumes "of_tables I" "turns I G h" "\<And>s. I s \<Longrightarrow> G s"
  shows "turns I G (AuthSessionMidd env tok h)"
  unfolding AuthSessionMidd_def
  apply (rule turns_first)
   apply (rule tables_session [OF assms(1)])
  apply (intro turning assms(2))
  apply (rule turns_keeps [OF _ assms(3)], intro keeping, assumption)+
  done

lemma routes_writes: "turns (users_are env us) (wrote env tok c us) (Routes env tok c)"
  unfolding Routes_def by (intro turning handler_writes turns_midd users_are_tables wrote_none)

lemma routes_ok: "keeps (uic_ok env) (Routes env tok c)"
  unfolding Routes_def by (intro keeping uic_ok_handlers tables_midd uic_ok_tables)

definition after :: "uic_env \<Rightarrow> apitoken \<Rightarrow> uic_call \<Rightarrow> 'x uic_state_scheme \<Rightarrow> 'x uic_state_scheme" where
  "after env tok c s = snd (run_state (Routes env tok c) s)"

lemma after_writes:
  assumes "uic_ok env s"
  shows "user_writes env tok c (Users s) (Users (after env tok c s)) \<and>
    (Users (after env tok c s) \<noteq> Users s \<longrightarrow> is_public c \<or> accepted env tok s)"
proof
  have users: "users_are env (Users s) s" using assms by (simp add: users_are_def)
  show "user_writes env tok c (Users s) (Users (after env tok c s))"
    using turnsD [OF routes_writes users] unfolding after_def .
  have "Users (after env tok c s) = Users s" if "\<not> is_public c" "\<not> accepted env tok s"
    using midd_refuses [OF that(2) users_tables [of "Users s"]] that(1) by (simp add: after_def Routes_def)
  then show "Users (after env tok c s) \<noteq> Users s \<longrightarrow> is_public c \<or> accepted env tok s" by blast
qed

lemma user_writes_cases [consumes 1, case_names none created profile passwd admin]:
  assumes "user_writes env tok c us us'"
  obtains "us' = us"
  | b i u where "c = C_CreateUser b i" "us' = us @ [u]" "\<forall>v \<in> set us. \<not> en_same env (au_Name v) (au_Name u) \<and> au_ID v \<noteq> au_ID u"
      "au_Role u = (if au_Name u = ''root'' then 2 else 0)"
  | b i u where "c = C_UpdateCurrentUser b i" "u \<in> set us" "token_names env tok u"
      "us' = map (\<lambda>r. if au_ID r = au_ID u then with_profile i r else r) us"
  | b i u where "c = C_ChangePassword b i" "u \<in> set us" "token_names env tok u" "au_Passwd u = HashIt env (pw_Old i)"
      "us' = map (\<lambda>r. if au_ID r = au_ID u then u\<lparr>au_Passwd := HashIt env (pw_New i)\<rparr> else r) us"
  | "is_admin_call c" "names_admin env tok us"
  using assms unfolding user_writes_def by blast

lemma row_replaced:
  assumes "uic_ok env s" "u \<in> set (Users s)" "v \<in> set (Users s)" "us' = map (\<lambda>r. if au_ID r = au_ID v then f r else r) (Users s)"
  shows "u \<in> set us' \<or> v = u \<and> f u \<in> set us'"
proof (cases "au_ID u = au_ID v")
  case True
  then have "v = u" using users_unique [OF assms(1,2,3)] by simp
  moreover have "(\<lambda>r. if au_ID r = au_ID v then f r else r) u \<in> set us'" unfolding assms(4) set_map using assms(2) by (rule imageI)
  ultimately show ?thesis by simp
next
  case False
  have "(\<lambda>r. if au_ID r = au_ID v then f r else r) u \<in> set us'" unfolding assms(4) set_map using assms(2) by (rule imageI)
  with False show ?thesis by simp
qed

lemma accounts_core:
  assumes "uic_ok env s" and u: "u \<in> set (Users s)"
  shows "(\<exists>u' \<in> set (Users (after env tok c s)). au_ID u' = au_ID u \<and> au_Name u' = au_Name u \<and> au_Role u' = au_Role u \<and>
            (u' = u \<or> accepted env tok s \<and> token_names env tok u \<and>
               (au_Passwd u' = au_Passwd u \<or> (\<exists>b i. c = C_ChangePassword b i \<and> au_Passwd u = HashIt env (pw_Old i)))))
      \<or> (is_admin_call c \<and> accepted env tok s \<and> names_admin env tok (Users s))"
proof -
  let ?us = "Users s" and ?us' = "Users (after env tok c s)"
  have w: "user_writes env tok c ?us ?us'" and pub: "?us' \<noteq> ?us \<Longrightarrow> is_public c \<or> accepted env tok s"
    using after_writes [OF assms(1)] by blast+
  have replaced: "u \<in> set ?us' \<or> v = u \<and> f u \<in> set ?us' \<and> ?us' \<noteq> ?us"
    if "v \<in> set ?us" "?us' = map (\<lambda>r. if au_ID r = au_ID v then f r else r) ?us" for v f
    using row_replaced [OF assms(1) u that] u by metis
  from w show ?thesis
  proof (cases rule: user_writes_cases)
    case (profile b i v)
    from replaced [OF profile(2,4)] show ?thesis
    proof (elim disjE conjE)
      assume "v = u" "with_profile i u \<in> set ?us'" "?us' \<noteq> ?us"
      then show ?thesis using profile pub by (intro disjI1 bexI [of _ "with_profile i u"]) (auto simp: with_profile_def)
    qed blast
  next
    case (passwd b i v)
    from replaced [OF passwd(2,5)] show ?thesis
    proof (elim disjE conjE)
      let ?u = "v\<lparr>au_Passwd := HashIt env (pw_New i)\<rparr>"
      assume "v = u" "?u \<in> set ?us'" "?us' \<noteq> ?us"
      then show ?thesis using passwd pub by (intro disjI1 bexI [of _ ?u]) auto
    qed blast
  next
    case admin
    then show ?thesis using pub u by (cases "?us' = ?us"; cases c) auto
  qed (use u in auto)
qed

text \<open>Without a request of an administrator no one becomes one, as long as there is a root.\<close>

definition with_root :: "uic_env \<Rightarrow> 'x uic_state_scheme \<Rightarrow> bool" where
  "with_root env s = (\<exists>u \<in> set (Users s). en_same env (au_Name u) ''root'')"

definition by_admin :: "uic_env \<Rightarrow> apitoken \<Rightarrow> 'x uic_state_scheme \<Rightarrow> bool" where
  "by_admin env tok s = (accepted env tok s \<and> names_admin env tok (Users s))"

lemma after_root:
  assumes "uic_ok env s" "with_root env s" "\<not> by_admin env tok s"
  shows "with_root env (after env tok c s)"
proof -
  obtain u where u: "u \<in> set (Users s)" "en_same env (au_Name u) ''root''" using assms(2) by (auto simp: with_root_def)
  from accounts_core [OF assms(1) u(1), of tok c] assms(3) obtain u'
    where "u' \<in> set (Users (after env tok c s))" "au_Name u' = au_Name u" by (auto simp: by_admin_def)
  then show ?thesis using u(2) unfolding with_root_def by (intro bexI [of _ u']) simp_all
qed

lemma after_roles:
  assumes ok: "uic_ok env s" and root: "with_root env s" and "\<not> by_admin env tok s"
    and u': "u' \<in> set (Users (after env tok c s))" "au_Role u' \<noteq> 0"
  shows "\<exists>u \<in> set (Users s). au_ID u = au_ID u' \<and> au_Name u = au_Name u' \<and> au_Role u = au_Role u'"
proof -
  have w: "user_writes env tok c (Users s) (Users (after env tok c s))"
    and pub: "Users (after env tok c s) \<noteq> Users s \<Longrightarrow> is_public c \<or> accepted env tok s"
    using after_writes [OF ok] by blast+
  from w show ?thesis
  proof (cases rule: user_writes_cases)
    case (created b i u)
    then have "au_Role u = 0" using root by (auto simp: with_root_def)
    then show ?thesis using created(2) u' by auto
  next
    case (profile b i v)
    then show ?thesis using u'(1) by (force simp: with_profile_def split: if_splits)
  next
    case (passwd b i v)
    then show ?thesis using u'(1) by (force split: if_splits)
  next
    case admin
    then have "Users (after env tok c s) = Users s" using pub assms(3) by (cases c) (auto simp: by_admin_def)
    then show ?thesis using u' by auto
  qed (use u' in auto)
qed

lemma reach_ok: "uic_reach env ok s0 s \<Longrightarrow> uic_ok env s0 \<Longrightarrow> uic_ok env s"
  by (induction rule: uic_reach.induct) (simp_all add: keepsD [OF routes_ok])

section \<open>Properties: who changes what\<close>

text \<open>
  C2: A user keeps id, name and role through any request, and is changed only by an accepted request with a
  token in the user's own name, the password only with the old password, unless it is one of the four
  administrative requests with an accepted token in the name of an administrator.
\<close>

theorem accounts_guarded:
  assumes "uic_ok env s" "u \<in> set (Users s)"
  shows "(\<exists>u' \<in> set (Users (after env tok c s)). au_ID u' = au_ID u \<and> au_Name u' = au_Name u \<and> au_Role u' = au_Role u \<and>
            (u' = u \<or> accepted env tok s \<and> token_names env tok u \<and>
               (au_Passwd u' = au_Passwd u \<or> (\<exists>b i. c = C_ChangePassword b i \<and> au_Passwd u = HashIt env (pw_Old i)))))
      \<or> (is_admin_call c \<and> accepted env tok s \<and> names_admin env tok (Users s))"
  using assms by (rule accounts_core)

text \<open>A server with root, an administrator and a user.\<close>

definition demo_uic :: uic_env where
  "demo_uic = \<lparr>cf_SignupDisable = True, cf_AccessControl = True, cf_SkipAuth = False, cf_DefaultToken = '''', cf_AdminSalt = '''', cf_Salt = ''salt'',
     en_same = (=), en_regexp = (\<lambda>q n. True), en_text = (\<lambda>q us. Inr us), en_fails = (\<lambda>n. False), en_redis = (\<lambda>n. True), en_uuid = (\<lambda>n. ''uuid'')\<rparr>"

definition demo_root :: api_user where "demo_root = no_user\<lparr>au_ID := 1, au_Name := ''root'', au_Role := 2\<rparr>"
definition demo_alice :: api_user where "demo_alice = no_user\<lparr>au_ID := 2, au_Name := ''alice'', au_Role := 1\<rparr>"
definition demo_bob :: api_user where "demo_bob = no_user\<lparr>au_ID := 3, au_Name := ''bob'', au_Passwd := HashIt demo_uic ''old''\<rparr>"

definition demo_server :: uic_state where
  "demo_server = \<lparr>Stmts = 0, Users = [demo_root, demo_alice, demo_bob], Teams = [], Rels = [], Sessions = [], NextUser = 4, NextTeam = 1, NextRel = 1,
     NextSession = 1, Sigs = [(sig_key ''alice'', \<lparr>se_ID = 0, se_Uid = 2, se_Sig = ''sa'', se_Expired = 0\<rparr>),
       (sig_key ''bob'', \<lparr>se_ID = 0, se_Uid = 3, se_Sig = ''sb'', se_Expired = 0\<rparr>)], RedisCalls = 0, Uuids = 0\<rparr>"

lemmas demo_people = demo_root_def demo_alice_def demo_bob_def no_user_def

lemma demo_ok: "uic_ok demo_uic demo_server"
  unfolding uic_ok_def oks by (simp add: table_simps unique_rows_def demo_server_def demo_people demo_uic_def)

lemma demo_bob_no_admin: "\<not> by_admin demo_uic (Token ''bob'' ''sb'') demo_server"
  by (simp add: by_admin_def names_admin_def token_names_def demo_server_def demo_people demo_uic_def IsAdmin_def skipAccessControll_def)

lemma demo_has_root: "with_root demo_uic demo_server"
  by (simp add: with_root_def demo_server_def demo_people demo_uic_def)

theorem accounts_guarded_witness:
  "let c = C_ChangePassword True \<lparr>pw_Old = ''old'', pw_New = ''new''\<rparr>; s = demo_server; tok = Token ''bob'' ''sb'' in
   uic_ok demo_uic s \<and> demo_bob \<in> set (Users s) \<and>
   ((\<exists>u' \<in> set (Users (after demo_uic tok c s)). au_ID u' = au_ID demo_bob \<and> au_Name u' = au_Name demo_bob \<and> au_Role u' = au_Role demo_bob \<and>
            (u' = demo_bob \<or> accepted demo_uic tok s \<and> token_names demo_uic tok demo_bob \<and>
               (au_Passwd u' = au_Passwd demo_bob \<or> (\<exists>b i. c = C_ChangePassword b i \<and> au_Passwd demo_bob = HashIt demo_uic (pw_Old i)))))
      \<or> (is_admin_call c \<and> accepted demo_uic tok s \<and> names_admin demo_uic tok (Users s)))"
  unfolding Let_def
  by (intro conjI demo_ok accounts_guarded) (simp_all add: demo_server_def)

text \<open>
  C5: Along any requests, if no accepted one bears the name of an administrator, the only users with a role
  are those that had it at the start, given a user root.
\<close>

theorem admins_made_by_admins:
  assumes "uic_reach env (\<lambda>(tok, c) s. \<not> by_admin env tok s) s0 s" "uic_ok env s0" "with_root env s0"
  shows "\<forall>u \<in> set (Users s). au_Role u \<noteq> 0 \<longrightarrow> (\<exists>u0 \<in> set (Users s0). au_ID u0 = au_ID u \<and> au_Name u0 = au_Name u \<and> au_Role u0 = au_Role u)"
proof -
  from assms have "uic_ok env s \<and> with_root env s \<and>
      (\<forall>u \<in> set (Users s). au_Role u \<noteq> 0 \<longrightarrow> (\<exists>u0 \<in> set (Users s0). au_ID u0 = au_ID u \<and> au_Name u0 = au_Name u \<and> au_Role u0 = au_Role u))"
  proof (induction rule: uic_reach.induct)
    case begun
    then show ?case by blast
  next
    case (served s tok c)
    then have s: "uic_ok env s" "with_root env s" "\<not> by_admin env tok s" by simp_all
    have "uic_ok env (after env tok c s)" unfolding after_def using routes_ok s(1) by (rule keepsD)
    moreover have "with_root env (after env tok c s)" using after_root [OF s] .
    moreover have "\<exists>u0 \<in> set (Users s0). au_ID u0 = au_ID u \<and> au_Name u0 = au_Name u \<and> au_Role u0 = au_Role u"
      if "u \<in> set (Users (after env tok c s))" "au_Role u \<noteq> 0" for u
      using after_roles [OF s that] served that(2) by metis
    ultimately show ?case unfolding after_def by blast
  qed
  then show ?thesis by blast
qed

theorem admins_made_by_admins_witness:
  "let s = after demo_uic (Token ''bob'' ''sb'') C_UserInfo demo_server in
   uic_reach demo_uic (\<lambda>(tok, c) s. \<not> by_admin demo_uic tok s) demo_server s \<and> with_root demo_uic demo_server \<and>
   (\<forall>u \<in> set (Users s). au_Role u \<noteq> 0 \<longrightarrow>
      (\<exists>u0 \<in> set (Users demo_server). au_ID u0 = au_ID u \<and> au_Name u0 = au_Name u \<and> au_Role u0 = au_Role u))"
proof -
  let ?s = "after demo_uic (Token ''bob'' ''sb'') C_UserInfo demo_server"
  have r: "uic_reach demo_uic (\<lambda>(tok, c) s. \<not> by_admin demo_uic tok s) demo_server ?s"
    unfolding after_def by (rule served [OF begun]) (simp add: demo_bob_no_admin)
  show ?thesis unfolding Let_def using r demo_has_root admins_made_by_admins [OF r demo_ok demo_has_root] by blast
qed

end
