(* ===== verification/Api_Sessions.thy ===== *)
theory Api_Sessions
  imports Api_Accounts
begin

text \<open>
  What the sessions of the API are worth: a login, a logout, a sign-up under the name of an administrator,
  and what administrators can do to each other. With them the concrete server of the witnesses.
\<close>

section \<open>A server that is up\<close>

definition all_up :: "uic_env \<Rightarrow> bool" where
  "all_up env = ((\<forall>n. \<not> en_fails env n) \<and> (\<forall>n. en_redis env n) \<and> (\<forall>n. en_uuid env n \<noteq> ''''))"

definition equates :: "(string \<Rightarrow> string \<Rightarrow> bool) \<Rightarrow> bool" where
  "equates r = ((\<forall>a. r a a) \<and> (\<forall>a b. r a b \<longrightarrow> r b a) \<and> (\<forall>a b c. r a b \<longrightarrow> r b c \<longrightarrow> r a c))"

text \<open>At most one user has a name, however it is written.\<close>

lemma same_name_user:
  assumes ok: "uic_ok env s" and eq: "equates (en_same env)"
    and uv: "u \<in> set (Users s)" "v \<in> set (Users s)" "en_same env (au_Name u) n" "en_same env (au_Name v) n"
  shows "u = v"
proof (rule ccontr)
  assume "u \<noteq> v"
  have uniq: "sorted_wrt (\<lambda>a b. \<not> en_same env (au_Name a) (au_Name b)) (Users s)"
    using ok by (simp add: uic_ok_def users.table_ok_def)
  have "en_same env (au_Name u) (au_Name v) \<and> en_same env (au_Name v) (au_Name u)"
    using eq uv(3,4) unfolding equates_def by blast
  moreover obtain i j where "i < length (Users s)" "j < length (Users s)" "Users s ! i = u" "Users s ! j = v"
    using uv(1,2) by (auto simp: in_set_conv_nth)
  moreover from this \<open>u \<noteq> v\<close> have "i < j \<or> j < i" by (metis nat_neq_iff)
  ultimately show False using uniq by (auto simp: sorted_wrt_iff_nth_less)
qed

lemma finds_name:
  assumes "uic_ok env s" "equates (en_same env)" "all_up env" "u \<in> set (Users s)" "en_same env (au_Name u) n"
  shows "found_one (en_fails env) (user_tbl env) (\<lambda>u. en_same env (au_Name u) n) s = Inr u"
  using assms same_name_user [OF assms(1,2)] by (intro found_one_up) (auto simp: all_up_def)

lemma finds_id:
  assumes "uic_ok env s" "all_up env" "u \<in> set (Users s)"
  shows "found_one (en_fails env) (user_tbl env) (\<lambda>r. au_ID r = au_ID u) s = Inr u"
  using assms users_unique [OF assms(1)] by (intro found_one_up) (auto simp: all_up_def)

lemma ids_positive: "uic_ok env s \<Longrightarrow> u \<in> set (Users s) \<Longrightarrow> 0 < au_ID u"
  by (simp add: uic_ok_def users.table_ok_def)

section \<open>Logging in\<close>

lemma login_core:
  assumes up: "all_up env" and eq: "equates (en_same env)" and ok: "uic_ok env s"
    and u: "u \<in> set (Users s)" "en_same env (au_Name u) (li_Name i)" "au_Name u \<noteq> ''''"
    and i: "li_Name i \<noteq> ''''" "li_Password i \<noteq> ''''"
    and salt: "\<not> IsAdmin env u \<or> gget (Sigs s) (sig_key (au_Name u)) = None"
    and sigs: "\<forall>v. gget (Sigs s) (sig_key (au_Name u)) = Some v \<longrightarrow> se_Sig v \<noteq> ''''"
  shows "\<exists>sig. fst (run_state (Login env True i) s) = [(200, JSig sig (au_Name u) (IsAdmin env u))]
    \<and> accepted env (Token (au_Name u) sig) (snd (run_state (Login env True i) s))"
proof (cases "gget (Sigs s) (sig_key (au_Name u))")
  case None
  have "0 < au_ID u" using ok u(1) by (rule ids_positive)
  with None u(3) show ?thesis
    using up i finds_name [OF ok eq up u(1,2)]
    by (auto simp: Login_def login_known_def open_session_def RedisGet_def RedisSet_def GenerateUUID_def reply_def all_up_def accepted_def tick_def)
next
  case (Some v)
  have "0 < au_ID u" using ok u(1) by (rule ids_positive)
  with Some u(3) show ?thesis
    using up i finds_name [OF ok eq up u(1,2)] salt sigs
    by (auto simp: Login_def login_known_def RedisGet_def reply_def all_up_def accepted_def tick_def)
qed

text \<open>
  C7: A login does not look at the password: whoever knows the name of a user without a role gets a token
  that is accepted in that name; for an administrator too, as long as no session of the administrator
  is in redis, and then without the salt.
\<close>

theorem login_needs_no_password:
  assumes "all_up env" "equates (en_same env)" "uic_ok env s" "u \<in> set (Users s)" "au_Name u \<noteq> ''''" "en_same env (au_Name u) (li_Name i)"
    "li_Name i \<noteq> ''''" "li_Password i \<noteq> ''''"
    "\<not> IsAdmin env u \<or> gget (Sigs s) (sig_key (au_Name u)) = None"
    "\<forall>v. gget (Sigs s) (sig_key (au_Name u)) = Some v \<longrightarrow> se_Sig v \<noteq> ''''"
  shows "\<exists>sig. fst (run_state (Login env True i) s) = [(200, JSig sig (au_Name u) (IsAdmin env u))]
    \<and> accepted env (Token (au_Name u) sig) (snd (run_state (Login env True i) s))"
  using assms(1-3,4,6,5,7-10) by (rule login_core)

section \<open>Logging out\<close>

lemma sessions_blind: "blind_to (user_tbl env) (\<lambda>s. Sessions s = x)" "blind_to (team_tbl env) (\<lambda>s. Sessions s = x)" "blind_to rel_tbl (\<lambda>s. Sessions s = x)"
  by (simp_all add: blind_to_def table_simps)

lemma sessions_tables: "of_tables (\<lambda>s. Sessions s = x)"
  by (simp add: of_tables_def tick_def)

lemmas sessions_stay [keeping] = tables_reads [OF sessions_tables] tables_session [OF sessions_tables] tables_readers [OF sessions_tables]
  blind_create [OF sessions_blind(1)] blind_create [OF sessions_blind(2)] blind_create [OF sessions_blind(3)]
  blind_update [OF sessions_blind(1)] blind_update [OF sessions_blind(2)] blind_save [OF sessions_blind(1)]
  blind_delete [OF sessions_blind(1)] blind_delete [OF sessions_blind(2)] blind_delete [OF sessions_blind(3)]

lemma sessions_loops [keeping]: "keeps (\<lambda>s. Sessions s = x) (create_rels env tid us)" "keeps (\<lambda>s. Sessions s = x) (insert_rels env tid us)"
  by (induction us; simp only: create_rels.simps insert_rels.simps; intro keeping; assumption)+

lemma sessions_delete_rels [keeping]: "keeps (\<lambda>s. Sessions s = x) (delete_rels env men)"
  by (induction men; simp only: delete_rels.simps; intro keeping; assumption)

lemma sessions_members [keeping]: "keeps (\<lambda>s. Sessions s = x) (Members env t)" "keeps (\<lambda>s. Sessions s = x) (GetCreatorName env t)"
  unfolding Members_def GetCreatorName_def by (intro keeping)+

lemma sessions_team_outputs [keeping]: "keeps (\<lambda>s. Sessions s = x) (team_outputs env ts outs)"
  by (induction ts arbitrary: outs; simp only: team_outputs.simps; intro keeping; blast)

lemma no_session_row: "Sessions s = [] \<Longrightarrow> found_one fails session_tbl P s = Inl (if fails (Stmts s) then db_down else db_none)"
  by (simp add: found_one_def session_tbl_def)

lemma logout_fails:
  assumes "Sessions s = []"
  shows "Sessions (snd (run_state (Logout env tok) s)) = [] \<and> Sigs (snd (run_state (Logout env tok) s)) = Sigs s
    \<and> (\<exists>msg. fst (run_state (Logout env tok) s) = [(400, JError msg)])"
proof (cases "GetSession tok")
  case (Inl e)
  then show ?thesis using assms by (simp add: Logout_def fail_with_def badstatus_def)
next
  case (Inr p)
  obtain name sig where "p = (name, sig)" by (cases p)
  moreover have "Sessions (tick s) = []" using assms by (simp add: tick_def)
  ultimately show ?thesis using Inr assms
    by (simp add: Logout_def refuse_def badstatus_def tick_def no_session_row)
qed

lemma sessions_routes: "turns (\<lambda>s. Sessions s = []) (\<lambda>s. Sessions s = []) (uic_handler env tok c)"
proof (cases "c = C_Logout")
  case True
  then show ?thesis using logout_fails by (auto simp: turns_def)
next
  case False
  then have "keeps (\<lambda>s. Sessions s = []) (uic_handler env tok c)"
    by (cases c; simp only: uic_handler.simps CreateUser_def UpdateCurrentUser_def ChangePassword_def ChangeRoleOfUser_def
        AdminChangePassword_def AdminChangeUserProfile_def AdminUserDelete_def as_admin_def Teams_get_def CreateTeam_def UpdateTeam_def
        write_team_def bindUsers_def DeleteTeam_def Let_def; intro keeping)
  then show ?thesis by (rule turns_keeps)
qed

text \<open>
  No logout ever succeeds: the table of sessions that it looks at is never written, and the session in
  redis stays, so the token goes on being accepted.
\<close>

theorem logout_never_works:
  assumes "uic_reach env ok s0 s" "Sessions s0 = []"
  shows "(\<exists>msg. fst (run_state (Logout env tok) s) = [(400, JError msg)]) \<and> Sigs (snd (run_state (Logout env tok) s)) = Sigs s"
proof -
  from assms have "Sessions s = []"
  proof (induction rule: uic_reach.induct)
    case (served s tok c)
    have "turns (\<lambda>s. Sessions s = []) (\<lambda>s. Sessions s = []) (Routes env tok c)"
      unfolding Routes_def by (intro turning sessions_routes turns_midd sessions_tables)
    from turnsD [OF this] served show ?case by simp
  qed
  then show ?thesis using logout_fails by blast
qed

section \<open>Requests that get through\<close>

lemma midd_passes:
  assumes "accepted env tok s" "all_up env"
  shows "\<exists>k. run_state (AuthSessionMidd env tok h) s = run_state h (s\<lparr>RedisCalls := k\<rparr>)"
proof -
  show ?thesis
  proof (cases "GetSession tok")
    case (Inl e)
    then show ?thesis using assms by (intro exI [of _ "RedisCalls s"]) (simp add: AuthSessionMidd_def SessionChecking_def accepted_def)
  next
    case (Inr p)
    obtain name sig where p: "p = (name, sig)" by (cases p)
    show ?thesis
    proof (cases "cf_DefaultToken env \<noteq> '''' \<and> sig = cf_DefaultToken env")
      case True
      then show ?thesis using Inr p by (intro exI [of _ "RedisCalls s"]) (simp add: AuthSessionMidd_def SessionChecking_def)
    next
      case False
      then show ?thesis using Inr p assms
        by (auto simp: AuthSessionMidd_def SessionChecking_def accepted_def all_up_def RedisGet_def split: option.split)
    qed
  qed
qed

lemma h_GetUser_finds:
  assumes "uic_ok env s" "equates (en_same env)" "all_up env" "a \<in> set (Users s)" "token_names env tok a"
  shows "run_state (h_GetUser env tok) s = (Inr a, tick s)"
proof -
  obtain name sig where tok: "GetSession tok = Inr (name, sig)" "en_same env (au_Name a) name"
    using assms(5) by (auto simp: token_names_def)
  have "by_user_name env name = (\<lambda>u. en_same env (au_Name u) name)"
    using GetSession_name [OF tok(1)] by (simp add: by_user_name_def fun_eq_iff)
  then show ?thesis using finds_name [OF assms(1-4) tok(2)] tok(1) by (simp add: h_GetUser_def)
qed

lemma as_admin_runs:
  assumes "uic_ok env s" "equates (en_same env)" "all_up env" "a \<in> set (Users s)" "token_names env tok a"
  shows "run_state (as_admin env tok code h) s = (if IsAdmin env a then run_state (h a) (tick s) else ([(badstatus, JError no_permission)], tick s))"
  using h_GetUser_finds [OF assms] by (simp add: as_admin_def refuse_def)

lemma uic_ok_ticks [simp]: "uic_ok env (s\<lparr>Stmts := n\<rparr>) = uic_ok env s"
  unfolding uic_ok_def oks by (simp add: table_simps)

lemma found_one_some:
  assumes "\<not> fails (Stmts s)" "r \<in> set (Rows t s)" "P r"
  shows "\<exists>v. found_one fails t P s = Inr v"
proof (cases "filter P (Rows t s)")
  case Nil
  then show ?thesis using assms by (simp add: filter_empty_conv)
next
  case (Cons x xs)
  then show ?thesis using assms(1) by (simp add: found_one_def)
qed

text \<open>A save of a row that is there, with no one in the way.\<close>

lemma save_runs:
  assumes ok: "uic_ok env s" and up: "all_up env" and u: "u \<in> set (Users s)" and r: "au_ID r = au_ID u" "au_Name r = au_Name u"
  shows "Users (snd (run_state (save_row (en_fails env) (user_tbl env) r) s)) = map (\<lambda>r'. if au_ID r' = au_ID u then r else r') (Users s)
    \<and> (\<exists>v. fst (run_state (save_row (en_fails env) (user_tbl env) r) s) = Inr v)"
proof -
  let ?rs = "map (\<lambda>r'. if au_ID r' = au_ID u then r else r') (Users s)"
  let ?s1 = "RowsTo (user_tbl env) ?rs (tick s)"
  have pos: "au_ID u \<noteq> 0" using ids_positive [OF ok u] by simp
  have "map au_ID ?rs = map au_ID (Users s)" using r(1) by auto
  then have "distinct (map au_ID ?rs)" using ok by (simp only: uic_ok_def users.table_ok_def users_unique_rows users_rows)
  moreover have names: "map au_Name ?rs = map au_Name (Users s)"
    using r(2) users_unique [OF ok _ u] by auto
  have "sorted_wrt (\<lambda>a b. \<not> en_same env a b) (map au_Name (Users s))"
    using ok by (simp add: uic_ok_def users.table_ok_def sorted_wrt_map)
  then have "sorted_wrt (\<lambda>a b. \<not> en_same env (au_Name a) (au_Name b)) ?rs"
    unfolding names [symmetric] sorted_wrt_map .
  ultimately have "unique_rows (user_tbl env) ?rs" by (simp only: users_unique_rows)
  then obtain k where k: "rows_updated (en_fails env) (user_tbl env) (\<lambda>r'. au_ID r' = au_ID u) (\<lambda>_. r) s = Inr k"
    using up by (simp add: rows_updated_def all_up_def)
  have "r \<in> set ?rs" using u by force
  then have r1: "r \<in> set (Rows (user_tbl env) ?s1)" by (simp only: users.rows_rows)
  have "\<not> en_fails env (Stmts ?s1)" using up by (simp add: all_up_def)
  from found_one_some [where fails = "en_fails env" and P = "\<lambda>r'. au_ID r' = au_ID u", OF this r1 r(1)]
  obtain v where "found_one (en_fails env) (user_tbl env) (\<lambda>r'. au_ID r' = au_ID u) ?s1 = Inr v" by blast
  then show ?thesis
    using k pos r(1) by (simp add: save_row_def modify_rows_def) (simp add: user_tbl_def)
qed

section \<open>Administrators\<close>

text \<open>The body of an administrative handler, once the middleware and the test of the role are passed.\<close>

lemma admin_request:
  assumes "uic_ok env s" "equates (en_same env)" "all_up env" "accepted env tok s" "a \<in> set (Users s)" "token_names env tok a" "IsAdmin env a"
  shows "\<exists>s1. uic_ok env s1 \<and> Users s1 = Users s \<and> run_state (AuthSessionMidd env tok (as_admin env tok code h)) s = run_state (h a) s1"
proof -
  obtain k where "run_state (AuthSessionMidd env tok (as_admin env tok code h)) s = run_state (as_admin env tok code h) (s\<lparr>RedisCalls := k\<rparr>)"
    using midd_passes [OF assms(4,3)] by blast
  moreover have "run_state (as_admin env tok code h) (s\<lparr>RedisCalls := k\<rparr>) = run_state (h a) (tick (s\<lparr>RedisCalls := k\<rparr>))"
    using as_admin_runs [of env "s\<lparr>RedisCalls := k\<rparr>" a tok code h] assms by simp
  ultimately show ?thesis
    using assms(1) by (intro exI [of _ "tick (s\<lparr>RedisCalls := k\<rparr>)"]) simp
qed

lemma admin_routes:
  "Routes env tok (C_ChangeRoleOfUser b i r) = AuthSessionMidd env tok (ChangeRoleOfUser env tok b i r)"
  "Routes env tok (C_AdminUserDelete b i) = AuthSessionMidd env tok (AdminUserDelete env tok b i)"
  by (simp_all add: Routes_def)

text \<open>Any administrator takes the role of any user away, of root too.\<close>

theorem any_admin_deposes_root:
  assumes "uic_ok env s" "equates (en_same env)" "all_up env" "accepted env tok s" "a \<in> set (Users s)" "token_names env tok a" "IsAdmin env a"
    and u: "u \<in> set (Users s)"
  shows "u\<lparr>au_Role := 0\<rparr> \<in> set (Users (after env tok (C_ChangeRoleOfUser True (au_ID u) ''no'') s))"
proof -
  let ?h = "\<lambda>cuser. do {
        user \<leftarrow> find_one (en_fails env) (user_tbl env) (\<lambda>r. au_ID r = au_ID u);
        dt \<leftarrow> save_row (en_fails env) (user_tbl env) (role_text ''no'' (case user of Inr u \<Rightarrow> u | Inl e \<Rightarrow> no_user));
        case dt of
          Inl e \<Rightarrow> fail_with StatusExpectationFailed e
        | Inr n \<Rightarrow> reply (JMsg ''user role update sccuessful'')
      }"
  obtain s1 where s1: "uic_ok env s1" "Users s1 = Users s"
    "run_state (AuthSessionMidd env tok (as_admin env tok badstatus ?h)) s = run_state (?h a) s1"
    using admin_request [OF assms(1-7)] by blast
  have "after env tok (C_ChangeRoleOfUser True (au_ID u) ''no'') s = snd (run_state (?h a) s1)"
    using s1(3) ids_positive [OF assms(1) u] unfolding after_def admin_routes by (simp add: ChangeRoleOfUser_def)
  moreover have "found_one (en_fails env) (user_tbl env) (\<lambda>r. au_ID r = au_ID u) s1 = Inr u"
    using finds_id [OF s1(1) assms(3), of u] s1(2) u by simp
  moreover have "Users (snd (run_state (save_row (en_fails env) (user_tbl env) (u\<lparr>au_Role := 0\<rparr>)) (tick s1))) = map (\<lambda>r'. if au_ID r' = au_ID u then u\<lparr>au_Role := 0\<rparr> else r') (Users s)
      \<and> (\<exists>v. fst (run_state (save_row (en_fails env) (user_tbl env) (u\<lparr>au_Role := 0\<rparr>)) (tick s1)) = Inr v)"
    using save_runs [of env "tick s1" u "u\<lparr>au_Role := 0\<rparr>"] s1 u assms(3) by simp
  ultimately have "Users (after env tok (C_ChangeRoleOfUser True (au_ID u) ''no'') s) = map (\<lambda>r'. if au_ID r' = au_ID u then u\<lparr>au_Role := 0\<rparr> else r') (Users s)"
    by (auto simp: split_beta role_text_def reply_def)
  then show ?thesis using u by force
qed

text \<open>No one deletes a user whose role is higher than the own.\<close>

theorem delete_respects_roles:
  assumes ok: "uic_ok env s" and eq: "equates (en_same env)" and up: "all_up env" and a: "a \<in> set (Users s)" "token_names env tok a"
    and u: "u \<in> set (Users s)" "au_Role a < au_Role u"
  shows "u \<in> set (Users (after env tok (C_AdminUserDelete b i) s))"
proof (cases "accepted env tok s \<and> IsAdmin env a \<and> b \<and> i \<noteq> 0")
  case True
  let ?h = "\<lambda>cuser. do {
        dt \<leftarrow> delete_rows (en_fails env) (user_tbl env) (\<lambda>u. au_ID u = i \<and> au_Role u \<le> au_Role cuser);
        case dt of
          Inl e \<Rightarrow> fail_with StatusExpectationFailed e
        | Inr n \<Rightarrow>
            if n = 0 then refuse StatusExpectationFailed ''you have no such permission or sth goes wrong''
            else reply (JMsg (''user '' @ itoa i @ '' has been delete, affect row: '' @ itoa (int n)))
      }"
  obtain s1 where s1: "uic_ok env s1" "Users s1 = Users s"
    "run_state (AuthSessionMidd env tok (as_admin env tok StatusExpectationFailed ?h)) s = run_state (?h a) s1"
    using admin_request [OF ok eq up _ a] True by blast
  have "after env tok (C_AdminUserDelete b i) s = snd (run_state (?h a) s1)"
    using s1(3) True unfolding after_def admin_routes by (simp add: AdminUserDelete_def)
  moreover have "u \<in> set (Users (snd (run_state (delete_rows (en_fails env) (user_tbl env) (\<lambda>u. au_ID u = i \<and> au_Role u \<le> au_Role a)) s1)))"
    using users.rows_after_delete [of env "en_fails env" "\<lambda>u. au_ID u = i \<and> au_Role u \<le> au_Role a" s1] s1(2) u by simp
  ultimately show ?thesis
    by (simp add: split_beta refuse_def reply_def fail_with_def split: sum.split)
next
  case False
  have "Users (after env tok (C_AdminUserDelete b i) s) = Users s"
  proof (cases "accepted env tok s")
    case True
    with False obtain k where "\<not> (IsAdmin env a \<and> b \<and> i \<noteq> 0)"
      "run_state (AuthSessionMidd env tok (AdminUserDelete env tok b i)) s = run_state (AdminUserDelete env tok b i) (s\<lparr>RedisCalls := k\<rparr>)"
      using midd_passes [OF True up] by blast
    then show ?thesis
      using as_admin_runs [of env "s\<lparr>RedisCalls := k\<rparr>" a tok] ok eq up a
      unfolding after_def admin_routes by (auto simp: AdminUserDelete_def refuse_def)
  next
    case False
    then show ?thesis using midd_refuses [OF False users_tables [of "Users s"]]
      unfolding after_def admin_routes by simp
  qed
  then show ?thesis using u(1) by simp
qed

section \<open>Answers that mislead\<close>

lemma open_session_users [simp]: "Users (snd (run_state (open_session env u) s)) = Users s"
  by (rule keepsD [OF tables_session(3) [OF users_tables]]) (rule refl)

text \<open>
  With sign-up disabled a header with the name of an administrator is enough, whatever its signature.
\<close>

theorem sign_up_by_name:
  assumes "uic_ok env s" "equates (en_same env)" "all_up env" "cf_SignupDisable env" "a \<in> set (Users s)" "token_names env tok a" "IsAdmin env a"
    and i: "user_bound True i" "\<not> HasDangerousCharacters (cu_Cnname i)"
    and new: "\<forall>u \<in> set (Users s). \<not> en_same env (au_Name u) (CompressStr (cu_Name i))"
  shows "\<exists>u. Users (after env tok (C_CreateUser True i) s) = Users s @ [u] \<and> au_Name u = CompressStr (cu_Name i)"
proof -
  let ?name = "CompressStr (cu_Name i)"
  let ?row = "\<lparr>au_ID = 0, au_Name = ?name, au_Cnname = cu_Cnname i, au_Passwd = HashIt env (cu_Passwd i), au_Email = cu_Email i,
                 au_Phone = cu_Phone i, au_IM = cu_IM i, au_QQ = cu_QQ i, au_Role = (if ?name = ''root'' then 2 else 0)\<rparr>"
  let ?new = "?row\<lparr>au_ID := NextUser s\<rparr>" and ?s2 = "tick (tick s)"
  have denied: "run_state (sign_up_denied env tok) s = (None, tick s)"
    using h_GetUser_finds [OF assms(1-3,5,6)] assms(4,7) by (simp add: sign_up_denied_def)
  have none: "found_one (en_fails env) (user_tbl env) (\<lambda>u. en_same env (au_Name u) ?name) (tick s) = Inl db_none"
    using new assms(3) by (simp add: found_one_def all_up_def filter_False)
  have keys: "0 < NextUser s" "\<forall>u \<in> set (Users s). au_ID u < NextUser s" "distinct (map au_ID (Users s))"
    "sorted_wrt (\<lambda>a b. \<not> en_same env (au_Name a) (au_Name b)) (Users s)"
    using assms(1) by (auto simp: uic_ok_def users.table_ok_def) (simp_all add: user_tbl_def)
  have key: "new_key (user_tbl env) ?row ?s2 = NextUser s"
    by (simp add: new_key_def) (simp add: user_tbl_def tick_def)
  have "unique_rows (user_tbl env) (Users s @ [?new])"
    using keys new by (auto simp: sorted_wrt_append)
  then have created: "row_created (en_fails env) (user_tbl env) ?row ?s2 = Inr ?new"
    using keys(1) assms(3) unfolding row_created_def key Let_def by (simp add: all_up_def)
  have "Users (snd (run_state (create_row (en_fails env) (user_tbl env) ?row) ?s2)) = Users s @ [?new]"
    using users.rows_created [of env "en_fails env" ?row ?s2] created by simp
  moreover have "fst (run_state (create_row (en_fails env) (user_tbl env) ?row) ?s2) = Inr ?new"
    using created by (simp add: create_row_def)
  ultimately have "Users (after env tok (C_CreateUser True i) s) = Users s @ [?new]"
    using i denied none unfolding after_def Routes_def by (simp add: CreateUser_def Let_def split_beta)
  then show ?thesis by simp
qed

text \<open>Being in a team is confirmed of every user and for all names of teams.\<close>

theorem in_teams_always:
  assumes "uic_ok env s" "all_up env" "u \<in> set (Users s)" "atoi uid = Inr (au_ID u)" "uid \<noteq> ''''" "teams \<noteq> ''''"
  shows "fst (run_state (IsUserInTeams env uid teams) s) = [(200, JMsg ''true'')]"
  using finds_id [OF assms(1-3)] assms by (simp add: IsUserInTeams_def found_all_def all_up_def reply_def)

text \<open>
  A change of the password without a new one is answered with an error first, and still sets the hash of
  the empty password.
\<close>

theorem password_emptied:
  assumes ok: "uic_ok env s" and eq: "equates (en_same env)" and up: "all_up env" and u: "u \<in> set (Users s)" "token_names env tok u"
    and i: "au_Passwd u = HashIt env (pw_Old i)" "pw_New i = ''''"
  shows "hd (fst (run_state (ChangePassword env tok True i) s)) = (400, JError bind_error) \<and>
    u\<lparr>au_Passwd := HashIt env ''''\<rparr> \<in> set (Users (snd (run_state (ChangePassword env tok True i) s)))"
proof -
  obtain name sig where tok: "GetSession tok = Inr (name, sig)" using u(2) unfolding token_names_def by blast
  then have "found_one (en_fails env) (user_tbl env) (by_user_name env name) s = Inr u"
    using h_GetUser_finds [OF ok eq up u] by (simp add: h_GetUser_def)
  moreover have "Users (snd (run_state (save_row (en_fails env) (user_tbl env) (u\<lparr>au_Passwd := HashIt env ''''\<rparr>)) (tick s)))
      = map (\<lambda>r'. if au_ID r' = au_ID u then u\<lparr>au_Passwd := HashIt env ''''\<rparr> else r') (Users s)
      \<and> (\<exists>v. fst (run_state (save_row (en_fails env) (user_tbl env) (u\<lparr>au_Passwd := HashIt env ''''\<rparr>)) (tick s)) = Inr v)"
    using save_runs [of env "tick s" u "u\<lparr>au_Passwd := HashIt env ''''\<rparr>"] ok up u(1) by simp
  ultimately show ?thesis
    using tok i u(1) by (force simp: ChangePassword_def split_beta reply_def badstatus_def)
qed

section \<open>The properties on a concrete server\<close>

lemma demo_facts: "all_up demo_uic" "equates (en_same demo_uic)" "demo_root \<in> set (Users demo_server)" "demo_alice \<in> set (Users demo_server)" "demo_bob \<in> set (Users demo_server)"
  by (auto simp: all_up_def equates_def demo_uic_def demo_server_def)

lemma demo_alice_token: "accepted demo_uic (Token ''alice'' ''sa'') demo_server" "token_names demo_uic (Token ''alice'' sig) demo_alice \<longleftrightarrow> sig \<noteq> ''''" "IsAdmin demo_uic demo_alice"
  by (auto simp: accepted_def token_names_def demo_server_def demo_uic_def demo_alice_def IsAdmin_def sig_key_def)

lemma demo_bob_token: "token_names demo_uic (Token ''bob'' ''sb'') demo_bob"
  by (simp add: token_names_def demo_uic_def demo_bob_def)

theorem login_needs_no_password_witness:
  "\<exists>sig. fst (run_state (Login demo_uic True \<lparr>li_Name = ''bob'', li_Password = ''wrong'', li_AdminSalt = ''''\<rparr>) demo_server) = [(200, JSig sig (au_Name demo_bob) (IsAdmin demo_uic demo_bob))]
    \<and> accepted demo_uic (Token (au_Name demo_bob) sig) (snd (run_state (Login demo_uic True \<lparr>li_Name = ''bob'', li_Password = ''wrong'', li_AdminSalt = ''''\<rparr>) demo_server))"
  by (rule login_needs_no_password [OF demo_facts(1,2) demo_ok demo_facts(5)])
    (simp_all add: demo_bob_def no_user_def demo_uic_def IsAdmin_def skipAccessControll_def demo_server_def sig_key_def)

theorem logout_never_works_witness:
  "uic_reach demo_uic (\<lambda>c s. True) demo_server demo_server \<and> Sessions demo_server = [] \<and>
   (\<exists>msg. fst (run_state (Logout demo_uic (Token ''bob'' ''sb'')) demo_server) = [(400, JError msg)]) \<and>
   Sigs (snd (run_state (Logout demo_uic (Token ''bob'' ''sb'')) demo_server)) = Sigs demo_server"
  using logout_never_works [OF begun [of demo_uic "\<lambda>c s. True" demo_server], of "Token ''bob'' ''sb''"] begun
  by (simp add: demo_server_def)

theorem any_admin_deposes_root_witness:
  "demo_root\<lparr>au_Role := 0\<rparr> \<in> set (Users (after demo_uic (Token ''alice'' ''sa'') (C_ChangeRoleOfUser True (au_ID demo_root) ''no'') demo_server))"
  by (rule any_admin_deposes_root [OF demo_ok demo_facts(2,1) demo_alice_token(1) demo_facts(4) _ demo_alice_token(3) demo_facts(3)])
    (simp add: demo_alice_token)

theorem delete_respects_roles_witness:
  "au_Role demo_alice < au_Role demo_root \<and>
   demo_root \<in> set (Users (after demo_uic (Token ''alice'' ''sa'') (C_AdminUserDelete True 1) demo_server))"
  using delete_respects_roles [OF demo_ok demo_facts(2,1,4) _ demo_facts(3), of "Token ''alice'' ''sa''" True 1]
  by (simp add: demo_alice_token) (simp add: demo_people)

definition demo_new :: user_input where
  "demo_new = \<lparr>cu_Name = ''eve'', cu_Cnname = ''Eve'', cu_Passwd = ''p'', cu_Email = ''e'', cu_Phone = '''', cu_IM = '''', cu_QQ = ''''\<rparr>"

theorem sign_up_by_name_witness:
  "\<exists>u. Users (after demo_uic (Token ''alice'' ''no session'') (C_CreateUser True demo_new) demo_server) = Users demo_server @ [u] \<and> au_Name u = CompressStr (cu_Name demo_new)"
  by (rule sign_up_by_name [OF demo_ok demo_facts(2,1) _ demo_facts(4) _ demo_alice_token(3)])
    (simp_all add: demo_alice_token, simp_all add: demo_new_def demo_uic_def demo_server_def demo_people user_bound_def HasDangerousCharacters_def CompressStr_def)

theorem in_teams_always_witness:
  "fst (run_state (IsUserInTeams demo_uic ''3'' ''no such team'') demo_server) = [(200, JMsg ''true'')]"
  by (rule in_teams_always [OF demo_ok demo_facts(1,5)]) (simp_all add: demo_bob_def, code_simp)

theorem password_emptied_witness:
  "hd (fst (run_state (ChangePassword demo_uic (Token ''bob'' ''sb'') True \<lparr>pw_Old = ''old'', pw_New = ''''\<rparr>) demo_server)) = (400, JError bind_error) \<and>
    demo_bob\<lparr>au_Passwd := HashIt demo_uic ''''\<rparr> \<in> set (Users (snd (run_state (ChangePassword demo_uic (Token ''bob'' ''sb'') True \<lparr>pw_Old = ''old'', pw_New = ''''\<rparr>) demo_server)))"
  by (rule password_emptied [OF demo_ok demo_facts(2,1,5) demo_bob_token]) (simp_all add: demo_bob_def)

end
