(* ===== verification/Api_Teams.thy ===== *)
theory Api_Teams
  imports Api_Sessions Alarm_Api
begin

text \<open>
  Teams: what an update makes of the members, who may make it, and what module alarm is then told when
  it asks for the users of the team (\<open>Alarm_Api.HttpCurlUic\<close>).
\<close>

section \<open>Rows of relations\<close>

definition members :: "int \<Rightarrow> rel_team_user list \<Rightarrow> int set" where
  "members tid rs = tu_Uid ` {r \<in> set rs. tu_Tid r = tid}"

lemma rel_rows [simp]: "Rows rel_tbl s = Rels s" "Key rel_tbl = tu_ID" "KeyTo rel_tbl i r = r\<lparr>tu_ID := i\<rparr>" "NextId rel_tbl s = NextRel s"
  "RowsTo rel_tbl rs s = s\<lparr>Rels := rs\<rparr>" "NextTo rel_tbl n s = s\<lparr>NextRel := n\<rparr>"
  "unique_rows rel_tbl rs = distinct (map tu_ID rs)"
  by (simp_all add: rel_tbl_def unique_rows_def sorted_wrt_iff_nth_less)

definition rels_ok :: "'x uic_state_scheme \<Rightarrow> bool" where
  "rels_ok s = (distinct (map tu_ID (Rels s)) \<and> (\<forall>r \<in> set (Rels s). 0 < tu_ID r \<and> tu_ID r < NextRel s) \<and> 0 < NextRel s)"

lemma rels_ok_table: "rels.table_ok s = rels_ok s"
  by (simp add: rels.table_ok_def rels_ok_def)

text \<open>The state after some statements on the relations.\<close>

definition rels_become :: "rel_team_user list \<Rightarrow> 'x uic_state_scheme \<Rightarrow> 'x uic_state_scheme \<Rightarrow> bool" where
  "rels_become rs s s' = (Rels s' = rs \<and> Users s' = Users s \<and> Teams s' = Teams s \<and> Sigs s' = Sigs s \<and> Sessions s' = Sessions s)"

lemma rels_become_trans: "rels_become rs s s' \<Longrightarrow> rels_become rs' s' s'' \<Longrightarrow> rels_become rs' s s''"
  by (simp add: rels_become_def)

lemma rels_become_refl: "rels_become (Rels s) s s"
  by (simp add: rels_become_def)

lemma delete_rels_runs:
  assumes "all_up env"
  shows "fst (run_state (delete_rels env men) s) = Inr () \<and>
    rels_become (filter (\<lambda>r. tu_ID r \<notin> tu_ID ` set men) (Rels s)) s (snd (run_state (delete_rels env men) s))"
proof (induction men arbitrary: s)
  case Nil
  then show ?case using rels_become_refl by simp
next
  case (Cons m men)
  let ?s1 = "(tick s)\<lparr>Rels := filter (\<lambda>r. tu_ID r \<noteq> tu_ID m) (Rels s)\<rparr>"
  have step: "run_state (delete_rows (en_fails env) rel_tbl (\<lambda>r. tu_ID r = tu_ID m)) s = (Inr (length (filter (\<lambda>r. tu_ID r = tu_ID m) (Rels s))), ?s1)"
    using assms by (simp add: delete_rows_def rows_deleted_def all_up_def)
  have "rels_become (filter (\<lambda>r. tu_ID r \<noteq> tu_ID m) (Rels s)) s ?s1"
    by (simp add: rels_become_def tick_def)
  moreover have "rels_become (filter (\<lambda>r. tu_ID r \<notin> tu_ID ` set men) (Rels ?s1)) ?s1 (snd (run_state (delete_rels env men) ?s1))"
    using Cons by blast
  moreover have "filter (\<lambda>r. tu_ID r \<notin> tu_ID ` set men) (Rels ?s1) = filter (\<lambda>r. tu_ID r \<notin> tu_ID ` set (m # men)) (Rels s)"
    by (auto intro: filter_cong)
  ultimately show ?case
    using step Cons [of ?s1] rels_become_trans by (auto simp: split_beta)
qed

text \<open>The rows that the loop over the users appends.\<close>

lemma insert_rels_runs:
  assumes "all_up env" "rels_ok s" "tid \<noteq> 0" "0 \<notin> set us"
  shows "fst (run_state (insert_rels env tid us) s) = Inr () \<and> rels_ok (snd (run_state (insert_rels env tid us) s)) \<and>
    (\<exists>new. rels_become (Rels s @ new) s (snd (run_state (insert_rels env tid us) s)) \<and>
       (\<forall>r \<in> set new. tu_Tid r = tid \<and> tu_Uid r \<in> set us) \<and> set us \<subseteq> members tid (Rels s @ new))"
  using assms(2,4)
proof (induction us arbitrary: s)
  case Nil
  then show ?case using rels_become_refl [of s] by (auto intro: exI [of _ "[]"])
next
  case (Cons i us)
  have up: "\<not> en_fails env n" for n using assms(1) by (simp add: all_up_def)
  show ?case
  proof (cases "\<exists>r \<in> set (Rels s). rel_like tid i r")
    case True
    then obtain v where v: "found_one (en_fails env) rel_tbl (rel_like tid i) s = Inr v"
      using found_one_some [where t = rel_tbl and P = "rel_like tid i" and s = s and fails = "en_fails env"] up by auto
    then have "v \<in> set (Rels s)" using found_one_Some [OF v] by simp
    then have "tu_ID v \<noteq> 0" using Cons.prems(1) by (auto simp: rels_ok_def)
    then have run: "run_state (insert_rels env tid (i # us)) s = run_state (insert_rels env tid us) (tick s)"
      using v by simp
    have "rels_ok (tick s)" using Cons.prems(1) by (simp add: rels_ok_def tick_def)
    moreover have "i \<in> members tid (Rels s)"
      using True assms(3) Cons.prems(2) by (force simp: members_def rel_like_def)
    ultimately show ?thesis
      using Cons.IH [of "tick s"] Cons.prems(2) unfolding run
      by (auto simp: rels_become_def tick_def members_def)
  next
    case False
    let ?r = "\<lparr>tu_ID = NextRel s, tu_Tid = tid, tu_Uid = i\<rparr>"
    let ?s1 = "(tick (tick s))\<lparr>NextRel := NextRel s + 1, Rels := Rels s @ [?r]\<rparr>"
    have none: "found_one (en_fails env) rel_tbl (rel_like tid i) s = Inl db_none"
      using False up by (simp add: found_one_def filter_False)
    have d: "distinct (map tu_ID (Rels s @ [?r]))" "0 < NextRel s"
      using Cons.prems(1) by (auto simp: rels_ok_def)
    have c: "row_created (en_fails env) rel_tbl \<lparr>tu_ID = 0, tu_Tid = tid, tu_Uid = i\<rparr> (tick s) = Inr ?r"
      using d up by (simp add: row_created_def new_key_def Let_def tick_def)
    have run: "run_state (insert_rels env tid (i # us)) s = run_state (insert_rels env tid us) ?s1"
      using none c up d(2) by (simp add: create_row_def new_key_def Let_def tick_def max_def)
    have "rels_ok ?s1" using Cons.prems(1) d by (auto simp: rels_ok_def tick_def)
    from Cons.IH [OF this] Cons.prems(2) obtain new where new:
      "fst (run_state (insert_rels env tid us) ?s1) = Inr ()" "rels_ok (snd (run_state (insert_rels env tid us) ?s1))"
      "rels_become ((Rels s @ [?r]) @ new) ?s1 (snd (run_state (insert_rels env tid us) ?s1))"
      "\<forall>r \<in> set new. tu_Tid r = tid \<and> tu_Uid r \<in> set us" "set us \<subseteq> members tid ((Rels s @ [?r]) @ new)"
      by (auto simp: tick_def)
    have "rels_become (Rels s @ ?r # new) s (snd (run_state (insert_rels env tid us) ?s1))"
      using new(3) by (auto simp: rels_become_def tick_def)
    moreover have "i \<in> members tid (Rels s @ ?r # new)"
      unfolding members_def by (rule image_eqI [of _ _ ?r]) simp_all
    then have "set (i # us) \<subseteq> members tid (Rels s @ ?r # new)" using new(5) by simp
    ultimately show ?thesis
      unfolding run using new(1,2,4) by (intro conjI exI [of _ "?r # new"]) auto
  qed
qed

section \<open>The members after an update\<close>

lemma ArrIntToString_some: "us \<noteq> [] \<Longrightarrow> \<exists>t. ArrIntToString us = Inr t"
proof -
  assume "us \<noteq> []"
  then have "join '','' (map itoa us) \<noteq> ''''" by (cases us; cases "tl us") (auto simp: itoa_def)
  then show ?thesis by (simp add: ArrIntToString_def Let_def)
qed

lemma rels_ok_delete_rels: "keeps rels.table_ok (delete_rels env men)"
  by (induction men; simp only: delete_rels.simps; intro keeping rels.ok_delete; assumption)

text \<open>The users that are not named lose their rows, those that are named get one, other teams keep theirs.\<close>

lemma bindUsers_runs:
  assumes up: "all_up env" and ok: "rels_ok s" and tid: "tid \<noteq> 0" and us: "us \<noteq> []" "0 \<notin> set us"
  shows "fst (run_state (bindUsers env tid us) s) = Inr () \<and>
    (\<exists>rs. rels_become rs s (snd (run_state (bindUsers env tid us) s)) \<and> members tid rs = set us \<and>
       filter (\<lambda>r. tu_Tid r \<noteq> tid) rs = filter (\<lambda>r. tu_Tid r \<noteq> tid) (Rels s))"
proof -
  let ?gone = "\<lambda>r. tu_Tid r = tid \<and> tu_Uid r \<notin> set us"
  let ?men = "filter ?gone (Rels s)" and ?kept = "filter (\<lambda>r. \<not> ?gone r) (Rels s)"
  let ?s1 = "snd (run_state (delete_rels env ?men) (tick s))"
  let ?s2 = "snd (run_state (insert_rels env tid us) ?s1)"
  obtain uids where uids: "ArrIntToString us = Inr uids" using ArrIntToString_some us(1) by blast
  have all: "found_all (en_fails env) rel_tbl ?gone s = Inr ?men"
    using up by (simp add: found_all_def all_up_def)
  have "r = r'" if "r \<in> set (Rels s)" "r' \<in> set (Rels s)" "tu_ID r = tu_ID r'" for r r'
    using ok that by (auto simp: rels_ok_def distinct_map dest: inj_onD)
  then have "filter (\<lambda>r. tu_ID r \<notin> tu_ID ` set ?men) (Rels s) = ?kept"
    by (intro filter_cong) (auto simp: image_iff)
  then have del: "fst (run_state (delete_rels env ?men) (tick s)) = Inr ()" "rels_become ?kept (tick s) ?s1"
    using delete_rels_runs [OF up, of ?men "tick s"] by (simp_all add: tick_def)
  have "rels.table_ok ?s1"
    using rels_ok_delete_rels by (rule keepsD) (use ok in \<open>simp add: rels.ok_tick flip: rels_ok_table\<close>)
  then have "rels_ok ?s1" unfolding rels_ok_table .
  from insert_rels_runs [OF up this tid us(2)] obtain new where ins: "fst (run_state (insert_rels env tid us) ?s1) = Inr ()"
    "rels_become (?kept @ new) ?s1 ?s2" "\<forall>r \<in> set new. tu_Tid r = tid \<and> tu_Uid r \<in> set us" "set us \<subseteq> members tid (?kept @ new)"
    using del(2) by (auto simp: rels_become_def)
  have run: "run_state (bindUsers env tid us) s = run_state (insert_rels env tid us) ?s1"
    using uids all del(1) by (simp add: bindUsers_def split_beta)
  have "members tid (?kept @ new) = set us"
    using ins(3,4) by (auto simp: members_def)
  moreover have "filter (\<lambda>r. tu_Tid r \<noteq> tid) (?kept @ new) = filter (\<lambda>r. tu_Tid r \<noteq> tid) (Rels s)"
    using ins(3) by (auto simp: filter_empty_conv intro: filter_cong)
  moreover have "rels_become (?kept @ new) s ?s2"
    using rels_become_trans [OF del(2) ins(2)] by (simp add: rels_become_def tick_def)
  ultimately show ?thesis unfolding run using ins(1) by blast
qed

lemma team_rows [simp]: "Rows (team_tbl env) s = Teams s" "Key (team_tbl env) = at_ID" "RowsTo (team_tbl env) ts s = s\<lparr>Teams := ts\<rparr>"
  "unique_rows (team_tbl env) ts = (distinct (map at_ID ts) \<and> sorted_wrt (\<lambda>a b. \<not> en_same env (at_Name a) (at_Name b)) ts)"
  by (simp_all add: team_tbl_def unique_rows_def)

definition retitled :: "team_input \<Rightarrow> api_team list \<Rightarrow> api_team list" where
  "retitled i ts = map (\<lambda>t. if at_ID t = ti_ID i then with_team i t else t) ts"

text \<open>The new name of the team is not that of another.\<close>

definition title_free :: "uic_env \<Rightarrow> team_input \<Rightarrow> api_team list \<Rightarrow> bool" where
  "title_free env i ts = (ti_Name i = '''' \<or> (\<forall>t \<in> set ts. at_ID t \<noteq> ti_ID i \<longrightarrow> \<not> en_same env (at_Name t) (ti_Name i)))"

lemma retitled_unique:
  assumes eq: "equates (en_same env)" and ts: "unique_rows (team_tbl env) ts" and free: "title_free env i ts"
  shows "unique_rows (team_tbl env) (retitled i ts)"
proof -
  have ids: "map at_ID (retitled i ts) = map at_ID ts" by (auto simp: retitled_def with_team_def)
  have "\<not> en_same env (at_Name (retitled i ts ! k)) (at_Name (retitled i ts ! l))" if "k < l" "l < length ts" for k l
  proof -
    let ?a = "ts ! k" and ?b = "ts ! l"
    have ne: "at_ID ?a \<noteq> at_ID ?b"
      using ts that by (simp add: distinct_conv_nth)
    have old: "\<not> en_same env (at_Name ?a) (at_Name ?b)" using ts that by (simp add: sorted_wrt_iff_nth_less)
    have mem: "?a \<in> set ts" "?b \<in> set ts" using that by simp_all
    have sym: "en_same env y x" if "en_same env x y" for x y using eq that unfolding equates_def by blast
    let ?new = "\<lambda>t. at_ID t = ti_ID i \<and> ti_Name i \<noteq> ''''"
    have names: "at_Name (retitled i ts ! k) = (if ?new ?a then ti_Name i else at_Name ?a)"
      "at_Name (retitled i ts ! l) = (if ?new ?b then ti_Name i else at_Name ?b)"
      using that by (simp_all add: retitled_def with_team_def)
    have other: "\<not> en_same env (at_Name t) (ti_Name i)" if "t \<in> set ts" "at_ID t \<noteq> ti_ID i" "ti_Name i \<noteq> ''''" for t
      using free that unfolding title_free_def by blast
    consider "?new ?a" "\<not> ?new ?b" | "?new ?b" "\<not> ?new ?a" | "\<not> ?new ?a" "\<not> ?new ?b" using ne by metis
    then show ?thesis
    proof cases
      case 1
      then have "\<not> en_same env (at_Name ?b) (ti_Name i)" using other [OF mem(2)] ne by simp
      then show ?thesis unfolding names if_P [OF 1(1)] if_not_P [OF 1(2)] using sym by blast
    next
      case 2
      then have "\<not> en_same env (at_Name ?a) (ti_Name i)" using other [OF mem(1)] ne by simp
      then show ?thesis unfolding names if_P [OF 2(1)] if_not_P [OF 2(2)] .
    next
      case 3
      then show ?thesis using old unfolding names if_not_P [OF 3(1)] if_not_P [OF 3(2)] by blast
    qed
  qed
  then show ?thesis using ts ids by (simp add: sorted_wrt_iff_nth_less) (simp add: retitled_def)
qed

lemma write_team_runs:
  assumes ok: "uic_ok env s" and eq: "equates (en_same env)" and up: "all_up env" and i: "ti_ID i \<noteq> 0" "ti_UserIDs i \<noteq> []" "0 \<notin> set (ti_UserIDs i)"
    and free: "title_free env i (Teams s)"
  shows "fst (run_state (write_team env i) s) = [(200, JMsg ''team updated!'')] \<and>
    (let s' = snd (run_state (write_team env i) s) in
       Teams s' = retitled i (Teams s) \<and> Users s' = Users s \<and> Sigs s' = Sigs s \<and> members (ti_ID i) (Rels s') = set (ti_UserIDs i) \<and>
       filter (\<lambda>r. tu_Tid r \<noteq> ti_ID i) (Rels s') = filter (\<lambda>r. tu_Tid r \<noteq> ti_ID i) (Rels s))"
proof -
  let ?first = "if ti_Name i = '''' \<and> ti_Resume i = '''' then State_Monad.return (Inr 0)
            else modify_rows (en_fails env) (team_tbl env) (\<lambda>t. at_ID t = ti_ID i) (with_team i)"
  let ?s1 = "snd (run_state ?first s)"
  have same: "ti_Name i = '''' \<Longrightarrow> ti_Resume i = '''' \<Longrightarrow> retitled i (Teams s) = Teams s"
    by (simp add: retitled_def with_team_def cong: if_cong)
  have uniq: "unique_rows (team_tbl env) (retitled i (Teams s))"
    using retitled_unique [OF eq _ free] ok by (simp add: uic_ok_def teams.table_ok_def)
  have first: "(\<exists>n. fst (run_state ?first s) = Inr n) \<and> Teams ?s1 = retitled i (Teams s) \<and> Users ?s1 = Users s \<and> Sigs ?s1 = Sigs s \<and> Rels ?s1 = Rels s \<and> NextRel ?s1 = NextRel s"
    using up uniq same by (auto simp: modify_rows_def rows_updated_def all_up_def retitled_def tick_def)
  have "rels_ok ?s1" using ok first unfolding uic_ok_def rels_ok_table by (simp add: rels_ok_def)
  from bindUsers_runs [OF up this i] obtain rs where b: "fst (run_state (bindUsers env (ti_ID i) (ti_UserIDs i)) ?s1) = Inr ()"
    "rels_become rs ?s1 (snd (run_state (bindUsers env (ti_ID i) (ti_UserIDs i)) ?s1))" "members (ti_ID i) rs = set (ti_UserIDs i)"
    "filter (\<lambda>r. tu_Tid r \<noteq> ti_ID i) rs = filter (\<lambda>r. tu_Tid r \<noteq> ti_ID i) (Rels ?s1)" by blast
  have "run_state (write_team env i) s = ([(200, JMsg ''team updated!'')], snd (run_state (bindUsers env (ti_ID i) (ti_UserIDs i)) ?s1))"
    using first b(1) unfolding write_team_def by (auto simp: run_bind reply_def simp del: run_state_bind)
  then show ?thesis using b first by (simp add: rels_become_def Let_def)
qed

section \<open>Who may update\<close>

definition manages :: "uic_env \<Rightarrow> api_user \<Rightarrow> int \<Rightarrow> 'x uic_state_scheme \<Rightarrow> bool" where
  "manages env u tid s = (IsAdmin env u \<or> (\<exists>t \<in> set (Teams s). at_ID t = tid \<and> (at_Creator t = au_ID u \<or> au_ID u \<in> members tid (Rels s))))"

lemma UpdateTeam_runs:
  assumes ok: "uic_ok env s" and eq: "equates (en_same env)" and up: "all_up env" and u: "u \<in> set (Users s)" "token_names env tok u" and i: "ti_ID i \<noteq> 0"
  shows "\<exists>n. run_state (UpdateTeam env tok True i) s =
    (if manages env u (ti_ID i) s then run_state (write_team env i) (s\<lparr>Stmts := n\<rparr>) else ([(StatusForbidden, JError not_managing)], s\<lparr>Stmts := n\<rparr>))"
proof -
  let ?P = "\<lambda>t. at_ID t = ti_ID i \<and> (\<exists>r \<in> set (Rels s). tu_Tid r = at_ID t \<and> tu_Uid r = au_ID u)"
  let ?Q = "\<lambda>t. at_Creator t = au_ID u \<and> at_ID t = ti_ID i"
  have one: "(\<exists>t. found_one (en_fails env) (team_tbl env) P s' = Inr t) = (\<exists>t \<in> set (Teams s). P t)" if "Teams s' = Teams s" for P and s' :: "'a uic_state_scheme"
  proof
    assume "\<exists>t. found_one (en_fails env) (team_tbl env) P s' = Inr t"
    then show "\<exists>t \<in> set (Teams s). P t" using found_one_Some that by fastforce
  next
    assume "\<exists>t \<in> set (Teams s). P t"
    then show "\<exists>t. found_one (en_fails env) (team_tbl env) P s' = Inr t"
      using found_one_some [where t = "team_tbl env" and s = s' and fails = "en_fails env" and P = P] up that by (auto simp: all_up_def)
  qed
  have mem: "(au_ID u \<in> members (ti_ID i) (Rels s)) = (\<exists>r \<in> set (Rels s). tu_Tid r = ti_ID i \<and> tu_Uid r = au_ID u)"
    by (auto simp: members_def image_iff)
  have here: "(\<exists>t \<in> set (Teams s). ?P t) = (\<exists>t \<in> set (Teams s). at_ID t = ti_ID i \<and> (\<exists>r \<in> set (Rels s). tu_Tid r = ti_ID i \<and> tu_Uid r = au_ID u))"
    by (rule bex_cong [OF refl]) auto
  have m: "manages env u (ti_ID i) s = (IsAdmin env u \<or> (\<exists>t \<in> set (Teams s). ?P t) \<or> (\<exists>t \<in> set (Teams s). ?Q t))"
    unfolding manages_def mem here by blast
  have p: "(\<exists>t. found_one (en_fails env) (team_tbl env) ?P (tick s) = Inr t) = (\<exists>t \<in> set (Teams s). ?P t)"
    and q: "(\<exists>t. found_one (en_fails env) (team_tbl env) ?Q (tick (tick s)) = Inr t) = (\<exists>t \<in> set (Teams s). ?Q t)"
    by (rule one; simp add: tick_def)+
  have get: "run_state (h_GetUser env tok) s = (Inr u, tick s)" by (rule h_GetUser_finds [OF ok eq up u])
  have rels: "Rels (tick s) = Rels s" by (simp add: tick_def)
  consider "IsAdmin env u" | "\<not> IsAdmin env u" "(\<exists>t \<in> set (Teams s). ?P t) = True"
    | "\<not> IsAdmin env u" "(\<exists>t \<in> set (Teams s). ?P t) = False" "(\<exists>t \<in> set (Teams s). ?Q t) = True"
    | "\<not> IsAdmin env u" "(\<exists>t \<in> set (Teams s). ?P t) = False" "(\<exists>t \<in> set (Teams s). ?Q t) = False" by blast
  then show ?thesis
  proof cases
    case 1
    then have "run_state (UpdateTeam env tok True i) s = run_state (write_team env i) (tick s)"
      using get i by (simp add: UpdateTeam_def)
    then show ?thesis using 1 m by (intro exI [of _ "Suc (Stmts s)"]) (simp add: tick_def)
  next
    case 2
    then have "run_state (UpdateTeam env tok True i) s = run_state (write_team env i) (tick (tick s))"
      using get i p [unfolded 2(2)] rels by (simp add: UpdateTeam_def)
    then show ?thesis using 2 m by (intro exI [of _ "Suc (Suc (Stmts s))"]) (simp add: tick_def)
  next
    case 3
    then have "run_state (UpdateTeam env tok True i) s = run_state (write_team env i) (tick (tick (tick s)))"
      using get i p [unfolded 3(2)] q [unfolded 3(3)] rels by (simp add: UpdateTeam_def)
    then show ?thesis using 3 m by (intro exI [of _ "Suc (Suc (Suc (Stmts s)))"]) (simp add: tick_def)
  next
    case 4
    then have "run_state (UpdateTeam env tok True i) s = ([(StatusForbidden, JError not_managing)], tick (tick (tick s)))"
      using get i p [unfolded 4(2)] q [unfolded 4(3)] rels by (simp add: UpdateTeam_def refuse_def)
    moreover have "\<not> manages env u (ti_ID i) s" using 4 unfolding m by simp
    ultimately show ?thesis by (intro exI [of _ "Suc (Suc (Suc (Stmts s)))"]) (simp add: tick_def)
  qed
qed

lemma manages_same [simp]: "manages env u tid (s\<lparr>RedisCalls := k\<rparr>) = manages env u tid s" "manages env u tid (s\<lparr>Stmts := n\<rparr>) = manages env u tid s"
  by (simp_all add: manages_def)

lemma update_team_core:
  assumes ok: "uic_ok env s" and eq: "equates (en_same env)" and up: "all_up env" and acc: "accepted env tok s" and u: "u \<in> set (Users s)" "token_names env tok u"
    and i: "ti_ID i \<noteq> 0" "ti_UserIDs i \<noteq> []" "0 \<notin> set (ti_UserIDs i)" and free: "title_free env i (Teams s)"
  shows "let s' = after env tok (C_UpdateTeam True i) s in Users s' = Users s \<and> Sigs s' = Sigs s \<and>
    (if manages env u (ti_ID i) s
     then Teams s' = retitled i (Teams s) \<and> members (ti_ID i) (Rels s') = set (ti_UserIDs i) \<and>
       filter (\<lambda>r. tu_Tid r \<noteq> ti_ID i) (Rels s') = filter (\<lambda>r. tu_Tid r \<noteq> ti_ID i) (Rels s)
     else Teams s' = Teams s \<and> Rels s' = Rels s)"
proof -
  obtain k where k: "run_state (AuthSessionMidd env tok (UpdateTeam env tok True i)) s = run_state (UpdateTeam env tok True i) (s\<lparr>RedisCalls := k\<rparr>)"
    using midd_passes [OF acc up] by blast
  obtain n where n: "run_state (UpdateTeam env tok True i) (s\<lparr>RedisCalls := k\<rparr>) =
    (if manages env u (ti_ID i) s then run_state (write_team env i) (s\<lparr>RedisCalls := k, Stmts := n\<rparr>)
     else ([(StatusForbidden, JError not_managing)], s\<lparr>RedisCalls := k, Stmts := n\<rparr>))"
    using UpdateTeam_runs [of env "s\<lparr>RedisCalls := k\<rparr>" u tok i] ok eq up u i(1) by auto
  have "after env tok (C_UpdateTeam True i) s = snd (if manages env u (ti_ID i) s then run_state (write_team env i) (s\<lparr>RedisCalls := k, Stmts := n\<rparr>)
     else ([(StatusForbidden, JError not_managing)], s\<lparr>RedisCalls := k, Stmts := n\<rparr>))"
    using k n by (simp add: after_def Routes_def)
  then show ?thesis
    using write_team_runs [of env "s\<lparr>RedisCalls := k, Stmts := n\<rparr>" i] ok eq up i free by (simp add: Let_def)
qed

text \<open>
  C8: An update by an administrator, the creator or a member makes exactly the users that are named the
  members of the team, leaves the members of all other teams and all users as they are, and writes the
  title; an update by anyone else changes nothing.
\<close>

theorem update_team_members:
  assumes "uic_ok env s" "equates (en_same env)" "all_up env" "accepted env tok s" "u \<in> set (Users s)" "token_names env tok u"
    and "ti_ID i \<noteq> 0" "ti_UserIDs i \<noteq> []" "0 \<notin> set (ti_UserIDs i)" "title_free env i (Teams s)"
  shows "let s' = after env tok (C_UpdateTeam True i) s in Users s' = Users s \<and> Sigs s' = Sigs s \<and>
    (if manages env u (ti_ID i) s
     then Teams s' = retitled i (Teams s) \<and> members (ti_ID i) (Rels s') = set (ti_UserIDs i) \<and>
       filter (\<lambda>r. tu_Tid r \<noteq> ti_ID i) (Rels s') = filter (\<lambda>r. tu_Tid r \<noteq> ti_ID i) (Rels s)
     else Teams s' = Teams s \<and> Rels s' = Rels s)"
  using assms by (rule update_team_core)

section \<open>What alarm is told\<close>

text \<open>The answer as alarm decodes it: an error has no users.\<close>

definition alarm_user :: "api_user \<Rightarrow> user" where
  "alarm_user u = \<lparr>us_Name = au_Name u, us_Email = au_Email u, us_Phone = au_Phone u\<rparr>"

definition alarm_team :: "uic_env \<Rightarrow> apitoken \<Rightarrow> 'x uic_state_scheme \<Rightarrow> string \<Rightarrow> user list option" where
  "alarm_team env tok s team =
     (case fst (run_state (Routes env tok (C_GetTeamByName team)) s) of
        [(code, JTeam t us)] \<Rightarrow> Some (map alarm_user us)
      | _ \<Rightarrow> Some [])"

lemma alarm_team_members:
  assumes ok: "uic_ok env s" and eq: "equates (en_same env)" and up: "all_up env" and acc: "accepted env tok s"
    and t: "t \<in> set (Teams s)" "at_Name t \<noteq> ''''"
  shows "alarm_team env tok s (at_Name t) = Some (map alarm_user (filter (\<lambda>v. au_ID v \<in> members (at_ID t) (Rels s)) (Users s)))"
proof -
  obtain k where k: "run_state (AuthSessionMidd env tok (GetTeamByName env (at_Name t))) s = run_state (GetTeamByName env (at_Name t)) (s\<lparr>RedisCalls := k\<rparr>)"
    using midd_passes [OF acc up] by blast
  let ?s = "s\<lparr>RedisCalls := k\<rparr>"
  have "t' = t" if t': "t' \<in> set (Teams s)" "en_same env (at_Name t') (at_Name t)" for t'
  proof (rule ccontr)
    assume "t' \<noteq> t"
    have uniq: "sorted_wrt (\<lambda>a b. \<not> en_same env (at_Name a) (at_Name b)) (Teams s)"
      using ok by (simp add: uic_ok_def teams.table_ok_def)
    have "en_same env (at_Name t) (at_Name t')" using eq t'(2) unfolding equates_def by blast
    moreover obtain i j where "i < length (Teams s)" "j < length (Teams s)" "Teams s ! i = t" "Teams s ! j = t'"
      using t(1) t'(1) unfolding in_set_conv_nth by blast
    moreover from this \<open>t' \<noteq> t\<close> have "i < j \<or> j < i" by (metis nat_neq_iff)
    ultimately show False using uniq t'(2) by (auto simp: sorted_wrt_iff_nth_less)
  qed
  moreover have "en_same env (at_Name t) (at_Name t)" using eq unfolding equates_def by blast
  ultimately have f: "found_one (en_fails env) (team_tbl env) (\<lambda>x. en_same env (at_Name x) (at_Name t)) ?s = Inr t"
    using t(1) up by (intro found_one_up) (auto simp: all_up_def)
  have "at_ID t \<noteq> 0" using ok t(1) by (auto simp: uic_ok_def teams.table_ok_def)
  moreover have mem: "members (at_ID t) (Rels s) = tu_Uid ` set (filter (\<lambda>r. tu_Tid r = at_ID t) (Rels s))"
    by (simp add: members_def)
  ultimately show ?thesis
    using f t(2) up k unfolding alarm_team_def
    by (cases "filter (\<lambda>r. tu_Tid r = at_ID t) (Rels s) = []")
      (simp_all add: Routes_def GetTeamByName_def team_answer_def reply_def found_all_def all_up_def tick_def alarm_user_def shown_def o_def)
qed


section \<open>Updates that go wrong\<close>

text \<open>
  An administrator's update of a team that does not exist is answered as done: it leaves members of no
  team, who join the team that gets the id.
\<close>

theorem missing_team_bound:
  assumes "uic_ok env s" "equates (en_same env)" "all_up env" "u \<in> set (Users s)" "token_names env tok u" "IsAdmin env u"
    and i: "ti_ID i \<noteq> 0" "ti_UserIDs i \<noteq> []" "0 \<notin> set (ti_UserIDs i)" and missing: "\<forall>t \<in> set (Teams s). at_ID t \<noteq> ti_ID i"
    and free: "title_free env i (Teams s)"
  shows "let (answer, s') = run_state (UpdateTeam env tok True i) s in
    answer = [(200, JMsg ''team updated!'')] \<and> Teams s' = Teams s \<and> members (ti_ID i) (Rels s') = set (ti_UserIDs i)"
proof -
  have m: "manages env u (ti_ID i) s" using assms(6) by (simp add: manages_def)
  then obtain n where n: "run_state (UpdateTeam env tok True i) s = run_state (write_team env i) (s\<lparr>Stmts := n\<rparr>)"
    using UpdateTeam_runs [OF assms(1-5) i(1)] by auto
  have "retitled i (Teams s) = Teams s"
    unfolding retitled_def by (rule map_idI) (use missing in auto)
  then show ?thesis
    using write_team_runs [of env "s\<lparr>Stmts := n\<rparr>" i] assms(1-3) i free unfolding n by (simp add: Let_def split_beta)
qed

text \<open>
  Without users the title is written and the answer is an error; the members stay.
\<close>

theorem update_without_users:
  assumes "uic_ok env s" "equates (en_same env)" "all_up env" "u \<in> set (Users s)" "token_names env tok u" "manages env u (ti_ID i) s"
    and i: "ti_ID i \<noteq> 0" "ti_UserIDs i = []" and free: "title_free env i (Teams s)"
  shows "let (answer, s') = run_state (UpdateTeam env tok True i) s in
    answer = [(400, JError ''array is empty, err: []'')] \<and> Teams s' = retitled i (Teams s) \<and> Rels s' = Rels s"
proof -
  obtain n where n: "run_state (UpdateTeam env tok True i) s = run_state (write_team env i) (s\<lparr>Stmts := n\<rparr>)"
    using UpdateTeam_runs [OF assms(1-5) i(1)] assms(6) by auto
  have uniq: "unique_rows (team_tbl env) (retitled i (Teams s))"
    using retitled_unique [OF assms(2) _ free] assms(1) by (simp add: uic_ok_def teams.table_ok_def)
  have same: "ti_Name i = '''' \<Longrightarrow> ti_Resume i = '''' \<Longrightarrow> retitled i (Teams s) = Teams s"
    by (simp add: retitled_def with_team_def cong: if_cong)
  show ?thesis unfolding n
    using assms(3) uniq same i(2)
    by (auto simp: write_team_def bindUsers_def ArrIntToString_def modify_rows_def rows_updated_def all_up_def retitled_def tick_def
        fail_with_def badstatus_def)
qed

text \<open>A team is deleted, with its members, by an administrator or its creator, and by no one else.\<close>

theorem delete_team_exact:
  assumes ok: "uic_ok env s" and eq: "equates (en_same env)" and up: "all_up env" and u: "u \<in> set (Users s)" "token_names env tok u"
    and tid: "atoi text = Inr tid" "tid \<noteq> 0"
  shows "let s' = snd (run_state (DeleteTeam env tok text) s) in
    if IsAdmin env u \<or> (\<exists>t \<in> set (Teams s). at_ID t = tid \<and> at_Creator t = au_ID u)
    then Teams s' = filter (\<lambda>t. at_ID t \<noteq> tid) (Teams s) \<and> Rels s' = filter (\<lambda>r. tu_Tid r \<noteq> tid) (Rels s)
    else Teams s' = Teams s \<and> Rels s' = Rels s"
proof -
  let ?Q = "\<lambda>t. at_ID t = tid \<and> (au_ID u = 0 \<or> at_Creator t = au_ID u)"
  have get: "run_state (h_GetUser env tok) s = (Inr u, tick s)" by (rule h_GetUser_finds [OF ok eq up u])
  have id: "au_ID u \<noteq> 0" using ids_positive [OF ok u(1)] by simp
  have ups: "\<not> en_fails env n" for n using up by (simp add: all_up_def)
  consider "IsAdmin env u" | "\<not> IsAdmin env u" "\<exists>t \<in> set (Teams s). at_ID t = tid \<and> at_Creator t = au_ID u"
    | "\<not> IsAdmin env u" "\<not> (\<exists>t \<in> set (Teams s). at_ID t = tid \<and> at_Creator t = au_ID u)" by blast
  then show ?thesis
  proof cases
    case 1
    then show ?thesis using get tid ups
      by (simp add: DeleteTeam_def delete_rows_def rows_deleted_def reply_def tick_def)
  next
    case 2
    then obtain t where "t \<in> set (Rows (team_tbl env) (tick s))" "?Q t" by (auto simp: tick_def)
    then obtain v where "found_one (en_fails env) (team_tbl env) ?Q (tick s) = Inr v"
      using found_one_some [where P = ?Q and fails = "en_fails env", OF ups] by blast
    then show ?thesis using 2 get tid ups
      by (simp add: DeleteTeam_def delete_rows_def rows_deleted_def reply_def tick_def Let_def)
  next
    case 3
    then have "found_one (en_fails env) (team_tbl env) ?Q (tick s) = Inl db_none"
      using ups id by (auto simp: found_one_def tick_def filter_empty_conv split: list.split)
    then show ?thesis using 3 get tid
      by (auto simp: DeleteTeam_def fail_with_def tick_def Let_def)
  qed
qed


section \<open>The properties on a concrete server\<close>

text \<open>Team 7 of alice, with the member root; module alarm asks with the token of bob.\<close>

definition demo_team :: api_team where
  "demo_team = \<lparr>at_ID = 7, at_Name = ''ops'', at_Resume = '''', at_Creator = 2\<rparr>"

definition team_server :: uic_state where
  "team_server = demo_server\<lparr>Teams := [demo_team], NextTeam := 8, Rels := [\<lparr>tu_ID = 1, tu_Tid = 7, tu_Uid = 1\<rparr>], NextRel := 2\<rparr>"

definition demo_update :: team_input where
  "demo_update = \<lparr>ti_ID = 7, ti_Name = ''ops'', ti_Resume = '''', ti_UserIDs = [2, 3]\<rparr>"

lemma team_server_ok: "uic_ok demo_uic team_server"
  unfolding uic_ok_def oks by (simp add: table_simps unique_rows_def team_server_def demo_server_def demo_people demo_uic_def demo_team_def)

lemma team_server_facts:
  "demo_alice \<in> set (Users team_server)" "demo_team \<in> set (Teams team_server)" "accepted demo_uic (Token ''alice'' ''sa'') team_server"
  "accepted demo_uic (Token ''bob'' ''sb'') team_server" "title_free demo_uic demo_update (Teams team_server)" "manages demo_uic demo_alice tid team_server"
  by (simp_all add: team_server_def demo_server_def accepted_def sig_key_def title_free_def demo_update_def demo_team_def demo_uic_def manages_def
      IsAdmin_def demo_alice_def)

lemma alice_names: "token_names demo_uic (Token ''alice'' ''sa'') demo_alice"
  by (simp add: demo_alice_token)

lemma demo_update_facts: "ti_ID demo_update = 7" "ti_UserIDs demo_update = [2, 3]"
  by (simp_all add: demo_update_def)

theorem update_team_members_witness:
  "let s' = after demo_uic (Token ''alice'' ''sa'') (C_UpdateTeam True demo_update) team_server in
   Users s' = Users team_server \<and> members 7 (Rels s') = {2, 3}"
  using update_team_members [OF team_server_ok demo_facts(2,1) team_server_facts(3,1) alice_names _ _ _ team_server_facts(5)]
  by (simp add: demo_update_facts team_server_facts(6) Let_def)

definition demo_alarm :: alarm_api where
  "demo_alarm = \<lparr>ap_Now = 0, ap_Team = (\<lambda>team k. alarm_team demo_uic (Token ''bob'' ''sb'') (after demo_uic (Token ''alice'' ''sa'') (C_UpdateTeam True demo_update) team_server) team),
     ap_Action = (\<lambda>i k. None), ap_TplGroups = (\<lambda>i e k. None), ap_Tags = (\<lambda>e k. None)\<rparr>"


theorem missing_team_bound_witness:
  "let (answer, s') = run_state (UpdateTeam demo_uic (Token ''alice'' ''sa'') True (demo_update\<lparr>ti_ID := 9, ti_Name := ''new''\<rparr>)) team_server in
    answer = [(200, JMsg ''team updated!'')] \<and> Teams s' = Teams team_server \<and> members 9 (Rels s') = {2, 3}"
  using missing_team_bound [OF team_server_ok demo_facts(2,1) team_server_facts(1) alice_names demo_alice_token(3), of "demo_update\<lparr>ti_ID := 9, ti_Name := ''new''\<rparr>"]
  by (simp add: demo_update_def team_server_def demo_team_def title_free_def demo_uic_def)

theorem update_without_users_witness:
  "let (answer, s') = run_state (UpdateTeam demo_uic (Token ''alice'' ''sa'') True \<lparr>ti_ID = 7, ti_Name = ''new'', ti_Resume = '''', ti_UserIDs = []\<rparr>) team_server in
    answer = [(400, JError ''array is empty, err: []'')] \<and>
    Teams s' = retitled \<lparr>ti_ID = 7, ti_Name = ''new'', ti_Resume = '''', ti_UserIDs = []\<rparr> (Teams team_server) \<and> Rels s' = Rels team_server"
  by (rule update_without_users [OF team_server_ok demo_facts(2,1) team_server_facts(1) alice_names team_server_facts(6)])
    (simp_all add: team_server_def demo_team_def title_free_def demo_uic_def)

theorem delete_team_exact_witness:
  "let s' = snd (run_state (DeleteTeam demo_uic (Token ''alice'' ''sa'') ''7'') team_server) in
    if IsAdmin demo_uic demo_alice \<or> (\<exists>t \<in> set (Teams team_server). at_ID t = 7 \<and> at_Creator t = au_ID demo_alice)
    then Teams s' = filter (\<lambda>t. at_ID t \<noteq> 7) (Teams team_server) \<and> Rels s' = filter (\<lambda>r. tu_Tid r \<noteq> 7) (Rels team_server)
    else Teams s' = Teams team_server \<and> Rels s' = Rels team_server"
  by (rule delete_team_exact [OF team_server_ok demo_facts(2,1) team_server_facts(1) alice_names]) (code_simp, simp)

end
