(* ===== verification/Spec2Isabelle.thy ===== *)
theory Spec2Isabelle
  imports Judge_Union Graph_Api Transfer_Recv Nodata_Judge Aggregator Hbs_Agent Alarm_Flow Alarm_Cases Poly_Worker Api_Teams
begin

text \<open>
  A model of Open-Falcon (\<open>src/modules\<close>, \<open>src/common\<close>), the monitoring system: agents report samples,
  transfer checks them and distributes them by consistent hashing, graph stores them in memory and in
  RRD files and answers queries, judge compares them with rules and sends alarm events.

  Theories and code.

  \<^item> \<open>Falcon_Prelude\<close>: results of Go functions (\<open>out\<close>: a value, an error with a partial value, a
    panic), int64 and shared facts. \<open>Go_Map\<close>, \<open>Go_Strings\<close>, \<open>Go_Float\<close>, \<open>Go_Hash\<close>: what the code uses
    of Go's maps, of packages \<open>strings\<close> and \<open>strconv\<close>, float64 with its rounding, MD5 and CRC32.
  \<^item> \<open>Common_Utils\<close>, \<open>Common_Model\<close>: \<open>src/common/utils\<close> (tags, counters, keys) and \<open>src/common/model\<close>.
  \<^item> \<open>Safe_List\<close>, \<open>Hash_Ring\<close>: the vendored bounded lists and hash ring under the queues.
  \<^item> \<open>Judge_List\<close> (\<open>store/linkedlist.go\<close>), \<open>Judge_Func\<close> (\<open>store/func.go\<close>), \<open>Judge_Event\<close>
    (\<open>store/judge.go\<close>, events), \<open>Judge_Store\<close> (\<open>store/history.go\<close>, \<open>store/judge.go\<close>, \<open>g/call.go\<close>, \<open>cron\<close>,
    \<open>rpc/receiver.go\<close>), \<open>Judge_Union\<close> (\<open>store/union_judge.go\<close>): the judge.
  \<^item> \<open>Graph_Store\<close> (\<open>store\<close>, \<open>g/utils.go\<close>), \<open>Graph_Index\<close> (\<open>index\<close>, \<open>cron/clean.go\<close>), \<open>Graph_Rrd\<close>
    (\<open>rrdtool\<close>), \<open>Graph_Api\<close> (\<open>api/graph.go\<close>): the graph.
  \<^item> \<open>Nodata_Config\<close> (\<open>nodata/config\<close>), \<open>Nodata_Judge\<close> (\<open>nodata/collector\<close>, \<open>judge\<close>, \<open>sender\<close>): series
    that stop reporting.
  \<^item> \<open>Go_Regex\<close> (the regular expressions used), \<open>Agg_Expr\<close> and \<open>Aggregator\<close> (\<open>aggregator/cron\<close>, \<open>db\<close>,
    \<open>sdk\<close>): values of groups of hosts; \<open>Sdk_Sender\<close> (\<open>src/common/sdk/sender\<close>): how they are pushed.
  \<^item> \<open>Hbs_Strategy\<close> (\<open>hbs/cache/strategies.go\<close>, \<open>rpc/hbs.go\<close>), \<open>Hbs_Redis\<close> (\<open>hbs/redi\<close>), \<open>Hbs_Query\<close>
    (\<open>hbs/db\<close>), \<open>Hbs_Agent\<close> (\<open>hbs/cache\<close>, \<open>rpc\<close>): the heartbeat server, which gives judge its rules and
    agents their tasks.
  \<^item> \<open>Transfer_Send\<close> (\<open>sender\<close>), \<open>Transfer_Recv\<close> (\<open>receiver\<close>, the Kafka and Prometheus channels): transfer.

  State and effects. A module's global variables are the fields of one record that is passed through;
  a Go map is an association list whose order is the iteration order, so that what holds for all lists
  holds for all orders; a list behind a lock is a HOL list, one method call one step. Calls of other
  services and of C code are a log of what was sent with an oracle for the answers (records ending in
  \<open>_env\<close> or a function argument); the clock is an argument. A run of concurrent goroutines is a list of
  steps in any order. Loops are structural or have a measure, except those that can run for ever (the
  batch loops of nodata), which are partial functions; no fuel is used. Running for ever and waiting
  for a full channel are the value \<open>None\<close>.

  What is shown. Keys: equal exactly for equal series, independent of map order, readable back.
  Judge: the histories are those of the accepted samples, verdicts mean what the rules say, an alarm is
  sent exactly when the alarm machine says and is paced, all matching expressions are judged, and a
  combination fires as decided. Graph: memory holds the accepted samples newest first, flushing and
  migration lose nothing when the calls succeed, merged answers are exact, the index tables follow the
  items, cleaning removes only what is stale. Transfer: the sender never panics, the queues are
  bounded, in order and honest about drops, a valid sample reaches the queues of its nodes. Nodata: a round mocks
  exactly the missing series, at most once per step. Aggregator: accepted expressions mean what is
  documented, a worker pushes the mean, the workers follow the table. Hbs: a child template overrides
  its ancestors, what one server publishes others read complete, answers are at most a time to live
  old, upgrades stay within their bound. The
  interfaces between the parts are the locales \<open>go_map\<close>, \<open>judge_function\<close>, \<open>timeline\<close>, \<open>fifo\<close> and those
  of \<open>Graph_Store\<close> and \<open>Graph_Api\<close>, each interpreted on the code's definitions. Theorems on errors
  show the inputs on which the code panics, waits forever or loses data.

  Not modelled: process start, configuration files, HTTP pages, connection pools, statistics and
  log lines, and the modules agent, alarm, api, apiproxy, gateway and polymetric.
\<close>

end
